(* ===== verification/Js_Prelude.thy ===== *)
theory Js_Prelude
  imports Complex_Main "HOL-Library.AList" "HOL-Library.Multiset" "HOL-Library.Char_ord"
    "HOL-Library.List_Lexorder"
begin

text \<open>
  What every component of the development shares: the values of the language the code is
  written in (numbers, scalars, JSON trees), the library operations the code calls on them
  (\<open>Number\<close>, \<open>split\<close>, \<open>join\<close>, \<open>padStart\<close>, \<open>Array.prototype.sort\<close>, insertion-ordered
  \<open>Map\<close>), and the generic facts about them that the component proofs use.

  A string is a list of code units below 256 (type \<^typ>\<open>string\<close>): every character class the
  modelled code tests is ASCII.  A number is a \<open>jsnum\<close>: a finite binary64 value as the
  rational it denotes, or one of the three other values; negative zero is not distinguished
  from zero.
\<close>

named_theorems js_defs \<open>definitions of the language operations\<close>
named_theorems js_split \<open>case splits for the language values\<close>

section \<open>Numbers\<close>

datatype jsnum = Fin rat | PosInf | NegInf | NaN

definition MAX_SAFE :: int where
  "MAX_SAFE = 9007199254740991"

fun is_integer_num :: "jsnum \<Rightarrow> bool" where
  "is_integer_num (Fin q) = (of_int \<lfloor>q\<rfloor> = q)"
| "is_integer_num _ = False"

fun is_finite_num :: "jsnum \<Rightarrow> bool" where
  "is_finite_num (Fin _) = True"
| "is_finite_num _ = False"

fun is_safe_integer :: "jsnum \<Rightarrow> bool" where
  "is_safe_integer (Fin q) = (of_int \<lfloor>q\<rfloor> = q \<and> \<bar>\<lfloor>q\<rfloor>\<bar> \<le> MAX_SAFE)"
| "is_safe_integer _ = False"

fun num_int :: "jsnum \<Rightarrow> int" where
  "num_int (Fin q) = \<lfloor>q\<rfloor>"
| "num_int _ = 0"

definition js_int :: "int \<Rightarrow> jsnum" where
  "js_int i = Fin (of_int i)"

lemma js_int_simps [simp]:
  "is_safe_integer (js_int i) \<longleftrightarrow> \<bar>i\<bar> \<le> MAX_SAFE"
  "is_integer_num (js_int i)" "is_finite_num (js_int i)" "num_int (js_int i) = i"
  "js_int i = js_int j \<longleftrightarrow> i = j" "js_int i \<noteq> NaN" "js_int i \<noteq> PosInf" "js_int i \<noteq> NegInf"
  by (simp_all add: js_int_def)

lemma is_safe_integerE:
  assumes "is_safe_integer x"
  obtains i where "x = js_int i" and "\<bar>i\<bar> \<le> MAX_SAFE"
  using assms by (cases x) (auto simp: js_int_def)

text \<open>
  Rounding to binary64: the mantissa has 53 bits, the least exponent is \<open>-1074\<close>, ties go to
  the even mantissa, and a magnitude that rounds to \<open>2 ^ 1024\<close> or more is infinite.
\<close>

definition round_half_even :: "rat \<Rightarrow> int" where
  "round_half_even q =
     (let f = \<lfloor>q\<rfloor>; d = q - of_int f
      in if d < 1/2 then f else if 1/2 < d then f + 1 else if even f then f else f + 1)"

fun ilog2 :: "nat \<Rightarrow> nat" where
  "ilog2 n = (if n < 2 then 0 else Suc (ilog2 (n div 2)))"

declare ilog2.simps [simp del]

definition scale_pow :: "rat \<Rightarrow> int \<Rightarrow> rat" where
  "scale_pow b e = (if 0 \<le> e then b ^ nat e else 1 / b ^ nat (- e))"

definition binade :: "rat \<Rightarrow> int" where
  "binade q =
     (let (a, b) = quotient_of q; e = int (ilog2 (nat a)) - int (ilog2 (nat b))
      in if scale_pow 2 e \<le> q then e else e - 1)"

definition to_double :: "rat \<Rightarrow> jsnum" where
  "to_double q =
     (if q = 0 then Fin 0
      else let e = max (-1074) (binade \<bar>q\<bar> - 52);
               r = of_int (round_half_even (\<bar>q\<bar> / scale_pow 2 e)) * scale_pow 2 e
           in if 2 ^ 1024 \<le> r then (if 0 < q then PosInf else NegInf)
              else Fin (sgn q * r))"

lemma ilog2_bounds: "0 < n \<Longrightarrow> 2 ^ ilog2 n \<le> n \<and> n < 2 ^ Suc (ilog2 n)"
proof (induction n rule: ilog2.induct)
  case (1 n)
  show ?case
  proof (cases "n < 2")
    case True
    with 1 show ?thesis by (simp add: ilog2.simps [of n])
  next
    case False
    with 1 have "2 ^ ilog2 (n div 2) \<le> n div 2 \<and> n div 2 < 2 ^ Suc (ilog2 (n div 2))"
      by simp
    with False show ?thesis by (simp add: ilog2.simps [of n]; linarith)
  qed
qed

lemma binade_nat:
  assumes "0 < n"
  shows "binade (of_nat n) = int (ilog2 n)"
proof -
  have q: "quotient_of (of_nat n :: rat) = (int n, 1)"
    by (simp add: of_nat_rat quotient_of_Fract)
  have "(2::rat) ^ ilog2 n \<le> of_nat n"
    using ilog2_bounds [OF assms] by (metis of_nat_le_iff of_nat_numeral of_nat_power)
  then show ?thesis
    by (simp add: binade_def q scale_pow_def ilog2.simps [of "Suc 0"] Let_def)
qed

lemma round_half_even_int [simp]: "round_half_even (of_int i) = i"
  by (simp add: round_half_even_def)

lemma round_half_even_ge:
  assumes "of_int i \<le> q"
  shows "i \<le> round_half_even q"
proof -
  have "i \<le> \<lfloor>q\<rfloor>" using assms by (simp add: le_floor_iff)
  then show ?thesis by (auto simp: round_half_even_def Let_def)
qed

text \<open>Naturals up to \<open>2 ^ 53\<close> are numbers themselves, so the safe range is exact.\<close>

lemma to_double_nat_small:
  assumes "n \<le> 2 ^ 53"
  shows "to_double (of_nat n) = Fin (of_nat n)"
proof (cases "n = 0")
  case True
  then show ?thesis by (simp add: to_double_def)
next
  case False
  then have n: "0 < n" by simp
  have b: "binade (of_nat n) = int (ilog2 n)" by (rule binade_nat [OF n])
  have lo: "2 ^ ilog2 n \<le> n" using ilog2_bounds [OF n] by simp
  have le: "ilog2 n \<le> 53"
  proof (rule ccontr)
    assume "\<not> ilog2 n \<le> 53"
    then have "(2::nat) ^ 54 \<le> 2 ^ ilog2 n" by (intro power_increasing) auto
    with lo assms show False by simp
  qed
  define e where "e = max (-1074) (int (ilog2 n) - 52)"
  have e_le: "e \<le> 1" and e_ge: "-1074 \<le> e" using le by (auto simp: e_def)
  have "\<exists>i. (of_nat n :: rat) / scale_pow 2 e = of_int i"
  proof (cases "0 < e")
    case True
    then have "e = 1" using e_le by simp
    then have "ilog2 n = 53" using e_def le by (simp add: max_def split: if_splits)
    then have "n = 2 ^ 53" using lo assms by simp
    then show ?thesis using \<open>e = 1\<close>
      by (intro exI [of _ "2 ^ 52"]) (simp add: scale_pow_def)
  next
    case False
    then have "(of_nat n :: rat) / scale_pow 2 e = of_int (int n * 2 ^ nat (- e))"
      by (auto simp: scale_pow_def)
    then show ?thesis by blast
  qed
  then obtain i where i: "(of_nat n :: rat) / scale_pow 2 e = of_int i" by blast
  have pos: "scale_pow 2 e \<noteq> 0" by (simp add: scale_pow_def)
  have r: "of_int (round_half_even (of_nat n / scale_pow 2 e)) * scale_pow 2 e = (of_nat n :: rat)"
    using i pos by (metis nonzero_eq_divide_eq round_half_even_int)
  have "(of_nat n :: rat) \<le> 2 ^ 53" using assms by (metis of_nat_le_iff of_nat_numeral of_nat_power)
  also have "(2::rat) ^ 53 < 2 ^ 1024" by (intro power_strict_increasing) auto
  finally have "\<not> 2 ^ 1024 \<le> (of_nat n :: rat)" by simp
  with False r show ?thesis
    by (simp add: to_double_def b e_def [symmetric] Let_def)
qed

lemma to_double_nat_big:
  assumes "2 ^ 53 < n"
  shows "\<not> is_safe_integer (to_double (of_nat n))"
proof -
  have n: "0 < n" using assms by simp
  have b: "binade (of_nat n) = int (ilog2 n)" by (rule binade_nat [OF n])
  have "53 \<le> ilog2 n"
  proof (rule ccontr)
    assume "\<not> 53 \<le> ilog2 n"
    then have "(2::nat) ^ Suc (ilog2 n) \<le> 2 ^ 53" by (intro power_increasing) auto
    with ilog2_bounds [OF n] assms show False by simp
  qed
  define k where "k = ilog2 n - 52"
  have k: "ilog2 n = k + 52" "1 \<le> k" using \<open>53 \<le> ilog2 n\<close> by (auto simp: k_def)
  have "(2::rat) ^ (k + 52) \<le> of_nat n"
    using ilog2_bounds [OF n] k(1) by (metis of_nat_le_iff of_nat_numeral of_nat_power)
  then have "of_int (2 ^ 52) \<le> (of_nat n :: rat) / 2 ^ k"
    by (simp add: power_add field_simps)
  then have "2 ^ 52 \<le> round_half_even (of_nat n / 2 ^ k)" by (rule round_half_even_ge)
  moreover have "(2::int) ^ 1 \<le> 2 ^ k" using k(2) by (intro power_increasing) auto
  ultimately have "2 ^ 52 * 2 ^ 1 \<le> round_half_even (of_nat n / 2 ^ k) * (2::int) ^ k"
    by (intro mult_mono) auto
  moreover have "nat (int (ilog2 n) - 52) = k" "max (-1074) (int (ilog2 n) - 52) = int k"
    using k by auto
  ultimately have big: "2 ^ 53 \<le> round_half_even (of_nat n / 2 ^ k) * (2::int) ^ k" by simp
  define m where "m = round_half_even (of_nat n / 2 ^ k) * (2::int) ^ k"
  have "to_double (of_nat n) = (if (2::rat) ^ 1024 \<le> of_int m then PosInf else Fin (of_int m))"
    using n \<open>nat (int (ilog2 n) - 52) = k\<close> \<open>max (-1074) (int (ilog2 n) - 52) = int k\<close>
    by (simp add: to_double_def b scale_pow_def m_def js_int_def)
  moreover have "\<not> \<bar>m\<bar> \<le> MAX_SAFE" using big by (simp add: m_def MAX_SAFE_def)
  ultimately show ?thesis by (simp split: if_split)
qed

lemma safe_to_double_nat: "is_safe_integer (to_double (of_nat n)) \<longleftrightarrow> int n \<le> MAX_SAFE"
proof (cases "n \<le> 2 ^ 53")
  case True
  then have "to_double (of_nat n) = js_int (int n)"
    by (simp add: to_double_nat_small js_int_def)
  then show ?thesis by simp
next
  case False
  then show ?thesis using to_double_nat_big [of n] by (simp add: MAX_SAFE_def)
qed

lemma to_double_nat_safe: "int n \<le> MAX_SAFE \<Longrightarrow> to_double (of_nat n) = js_int (int n)"
  by (simp add: to_double_nat_small MAX_SAFE_def js_int_def)

section \<open>Strings\<close>

definition is_digit :: "char \<Rightarrow> bool" where
  "is_digit c \<longleftrightarrow> 48 \<le> (of_char c :: nat) \<and> (of_char c :: nat) \<le> 57"

definition digit_val :: "char \<Rightarrow> nat" where
  "digit_val c = of_char c - 48"

definition digit_char :: "nat \<Rightarrow> char" where
  "digit_char n = char_of (48 + n)"

definition nat_of_digits :: "string \<Rightarrow> nat" where
  "nat_of_digits s = foldl (\<lambda>a c. 10 * a + digit_val c) 0 s"

fun string_of_nat :: "nat \<Rightarrow> string" where
  "string_of_nat n =
     (if n < 10 then [digit_char n] else string_of_nat (n div 10) @ [digit_char (n mod 10)])"

declare string_of_nat.simps [simp del]

text \<open>\<open>/^\d+$/.test(s)\<close>\<close>

definition all_digits :: "string \<Rightarrow> bool" where
  "all_digits s \<longleftrightarrow> s \<noteq> [] \<and> list_all is_digit s"

lemma digit_char_simps [simp]:
  "digit_char 0 = CHR ''0''" "digit_char 1 = CHR ''1''" "digit_char (Suc 0) = CHR ''1''"
  "digit_char 2 = CHR ''2''" "digit_char 3 = CHR ''3''" "digit_char 4 = CHR ''4''"
  "digit_char 5 = CHR ''5''" "digit_char 6 = CHR ''6''" "digit_char 7 = CHR ''7''"
  "digit_char 8 = CHR ''8''" "digit_char 9 = CHR ''9''"
  by (simp_all add: digit_char_def char_of_def bit_0)

lemma digit_char_val [simp]: "n < 10 \<Longrightarrow> digit_val (digit_char n) = n"
  by (simp add: digit_val_def digit_char_def)

lemma is_digit_char [simp]: "n < 10 \<Longrightarrow> is_digit (digit_char n)"
  by (simp add: is_digit_def digit_char_def)

lemma nat_of_digits_snoc [simp]: "nat_of_digits (s @ [c]) = 10 * nat_of_digits s + digit_val c"
  by (simp add: nat_of_digits_def)

lemma string_of_nat_digits: "list_all is_digit (string_of_nat n)"
  by (induction n rule: string_of_nat.induct) (subst string_of_nat.simps, simp)

lemma string_of_nat_nonempty [simp]: "string_of_nat n \<noteq> []"
  by (subst string_of_nat.simps) simp

lemma all_digits_string_of_nat [simp]: "all_digits (string_of_nat n)"
  by (simp add: all_digits_def string_of_nat_digits)

lemma nat_of_digits_string_of_nat [simp]: "nat_of_digits (string_of_nat n) = n"
proof (induction n rule: string_of_nat.induct)
  case (1 n)
  show ?case
  proof (cases "n < 10")
    case True
    then show ?thesis by (subst string_of_nat.simps) (simp add: nat_of_digits_def)
  next
    case False
    with 1 show ?thesis by (subst string_of_nat.simps) simp
  qed
qed

lemma string_of_nat_inject [simp]: "string_of_nat m = string_of_nat n \<longleftrightarrow> m = n"
  by (metis nat_of_digits_string_of_nat)

text \<open>\<open>s.split(c)\<close> and \<open>ss.join(sep)\<close> for a one-character separator.\<close>

fun split_on :: "char \<Rightarrow> string \<Rightarrow> string list" where
  "split_on c [] = [[]]"
| "split_on c (x # xs) =
     (if x = c then [] # split_on c xs
      else (case split_on c xs of [] \<Rightarrow> [[x]] | s # ss \<Rightarrow> (x # s) # ss))"

fun join_with :: "string \<Rightarrow> string list \<Rightarrow> string" where
  "join_with sep [] = []"
| "join_with sep [s] = s"
| "join_with sep (s # t # ss) = s @ sep @ join_with sep (t # ss)"

lemma split_on_nonempty [simp]: "split_on c s \<noteq> []"
  by (induction s) (auto split: list.splits)

lemma split_on_append:
  "c \<notin> set s \<Longrightarrow> split_on c (s @ c # t) = s # split_on c t"
  by (induction s) auto

lemma split_on_no_sep: "c \<notin> set s \<Longrightarrow> split_on c s = [s]"
  by (induction s) auto

lemma split_on_join:
  "ss \<noteq> [] \<Longrightarrow> (\<And>s. s \<in> set ss \<Longrightarrow> c \<notin> set s) \<Longrightarrow> split_on c (join_with [c] ss) = ss"
proof (induction "[c]" ss rule: join_with.induct)
  case (3 s t ss)
  then show ?case by (simp add: split_on_append)
qed (auto simp: split_on_no_sep)

lemma join_split_on: "join_with [c] (split_on c s) = s"
proof (induction s)
  case (Cons x xs)
  obtain t ts where "split_on c xs = t # ts" by (cases "split_on c xs") auto
  with Cons show ?case by (cases ts) auto
qed simp

lemma split_on_sep_free: "t \<in> set (split_on c s) \<Longrightarrow> c \<notin> set t"
  by (induction s arbitrary: t) (auto split: list.splits if_splits)

lemma digits_not_in: "\<not> is_digit c \<Longrightarrow> list_all is_digit s \<Longrightarrow> c \<notin> set s"
  by (auto simp: list_all_iff)


lemma split_on_length_join:
  "split_on c s = ss \<Longrightarrow> join_with [c] ss = s"
  using join_split_on by blast

section \<open>Scalar values and JSON trees\<close>

text \<open>
  A value of type \<open>unknown\<close> that is a scalar, and a JSON tree (an array, or an object as the
  list of its own keys in insertion order).
\<close>

datatype jsval = VUndef | VNull | VBool bool | VNum jsnum | VStr string

datatype json = JVal jsval | JArr "json list" | JObj "(string \<times> json) list"

abbreviation JStr :: "string \<Rightarrow> json" where "JStr s \<equiv> JVal (VStr s)"
abbreviation JNum :: "jsnum \<Rightarrow> json" where "JNum n \<equiv> JVal (VNum n)"
abbreviation JNull :: json where "JNull \<equiv> JVal VNull"
abbreviation JUndef :: json where "JUndef \<equiv> JVal VUndef"
abbreviation JInt :: "int \<Rightarrow> json" where "JInt i \<equiv> JVal (VNum (js_int i))"

fun is_nullish :: "jsval \<Rightarrow> bool" where
  "is_nullish VUndef = True"
| "is_nullish VNull = True"
| "is_nullish _ = False"

fun get_prop :: "json \<Rightarrow> string \<Rightarrow> json" where
  "get_prop (JObj kvs) k = (case map_of kvs k of None \<Rightarrow> JUndef | Some v \<Rightarrow> v)"
| "get_prop _ _ = JUndef"

text \<open>
  \<open>Number(x)\<close> of a scalar: the numeric literal grammar of the language for strings (blank is
  zero, an optional sign, a decimal literal with an optional exponent, \<open>Infinity\<close>, or an
  unsigned hexadecimal, octal or binary literal), rounded to binary64.
\<close>

definition is_space :: "char \<Rightarrow> bool" where
  "is_space c \<longleftrightarrow> (of_char c :: nat) \<in> {9, 10, 11, 12, 13, 32, 160}"

definition trim :: "string \<Rightarrow> string" where
  "trim s = rev (dropWhile is_space (rev (dropWhile is_space s)))"

definition lower_char :: "char \<Rightarrow> char" where
  "lower_char c =
     (let n = (of_char c :: nat)
      in if 65 \<le> n \<and> n \<le> 90 \<or> 192 \<le> n \<and> n \<le> 222 \<and> n \<noteq> 215 then char_of (n + 32) else c)"

definition lower :: "string \<Rightarrow> string" where
  "lower s = map lower_char s"

definition hex_digit_val :: "char \<Rightarrow> nat option" where
  "hex_digit_val c =
     (let n = (of_char c :: nat)
      in if 48 \<le> n \<and> n \<le> 57 then Some (n - 48)
         else if 97 \<le> n \<and> n \<le> 102 then Some (n - 87)
         else if 65 \<le> n \<and> n \<le> 70 then Some (n - 55) else None)"

fun radix_digits :: "nat \<Rightarrow> nat \<Rightarrow> string \<Rightarrow> nat option" where
  "radix_digits b acc [] = Some acc"
| "radix_digits b acc (c # cs) =
     (case hex_digit_val c of
        None \<Rightarrow> None
      | Some d \<Rightarrow> if d < b then radix_digits b (b * acc + d) cs else None)"

definition radix_literal :: "nat \<Rightarrow> string \<Rightarrow> jsnum" where
  "radix_literal b s =
     (if s = [] then NaN
      else case radix_digits b 0 s of None \<Rightarrow> NaN | Some n \<Rightarrow> to_double (of_nat n))"

definition exponent_part :: "string \<Rightarrow> int option" where
  "exponent_part s =
     (case s of
        [] \<Rightarrow> Some 0
      | e # r \<Rightarrow>
          if e \<noteq> CHR ''e'' \<and> e \<noteq> CHR ''E'' then None
          else (case r of
                  [] \<Rightarrow> None
                | c # ds \<Rightarrow>
                    if c = CHR ''-'' then
                      (if all_digits ds then Some (- int (nat_of_digits ds)) else None)
                    else if c = CHR ''+'' then
                      (if all_digits ds then Some (int (nat_of_digits ds)) else None)
                    else (if all_digits r then Some (int (nat_of_digits r)) else None)))"

definition decimal_literal :: "string \<Rightarrow> rat option" where
  "decimal_literal s =
     (let ip = takeWhile is_digit s; r1 = dropWhile is_digit s;
          frac = (case r1 of c # cs \<Rightarrow> c = CHR ''.'' | [] \<Rightarrow> False);
          fp = (if frac then takeWhile is_digit (tl r1) else []);
          r2 = (if frac then dropWhile is_digit (tl r1) else r1)
      in if ip = [] \<and> fp = [] then None
         else map_option (\<lambda>e. of_nat (nat_of_digits (ip @ fp)) * scale_pow 10 (e - int (length fp)))
                (exponent_part r2))"

definition neg_num :: "jsnum \<Rightarrow> jsnum" where
  "neg_num x = (case x of Fin q \<Rightarrow> Fin (- q) | PosInf \<Rightarrow> NegInf | NegInf \<Rightarrow> PosInf | NaN \<Rightarrow> NaN)"

definition unsigned_literal :: "string \<Rightarrow> jsnum" where
  "unsigned_literal s =
     (if s = ''Infinity'' then PosInf
      else case decimal_literal s of None \<Rightarrow> NaN | Some q \<Rightarrow> to_double q)"

definition string_to_number :: "string \<Rightarrow> jsnum" where
  "string_to_number s0 =
     (let s = trim s0
      in case s of
           [] \<Rightarrow> Fin 0
         | c # r \<Rightarrow>
             if c = CHR ''-'' then neg_num (unsigned_literal r)
             else if c = CHR ''+'' then unsigned_literal r
             else if c = CHR ''0'' \<and> r \<noteq> [] \<and> lower_char (hd r) = CHR ''x'' then radix_literal 16 (tl r)
             else if c = CHR ''0'' \<and> r \<noteq> [] \<and> lower_char (hd r) = CHR ''o'' then radix_literal 8 (tl r)
             else if c = CHR ''0'' \<and> r \<noteq> [] \<and> lower_char (hd r) = CHR ''b'' then radix_literal 2 (tl r)
             else unsigned_literal s)"

fun js_number :: "jsval \<Rightarrow> jsnum" where
  "js_number VUndef = NaN"
| "js_number VNull = Fin 0"
| "js_number (VBool b) = (if b then Fin 1 else Fin 0)"
| "js_number (VNum n) = n"
| "js_number (VStr s) = string_to_number s"

lemma is_digit_not_space: "is_digit c \<Longrightarrow> \<not> is_space c"
  by (auto simp: is_digit_def is_space_def)

lemma trim_no_space:
  assumes "list_all (\<lambda>c. \<not> is_space c) s"
  shows "trim s = s"
proof -
  have "dropWhile is_space t = t" if "list_all (\<lambda>c. \<not> is_space c) t" for t
    using that by (cases t) auto
  then show ?thesis using assms by (simp add: trim_def)
qed

lemma list_all_takeWhile [simp]: "list_all P s \<Longrightarrow> takeWhile P s = s"
  by (simp add: list_all_iff)

lemma list_all_dropWhile [simp]: "list_all P s \<Longrightarrow> dropWhile P s = []"
  by (simp add: list_all_iff)

text \<open>A digit string denotes its decimal value, rounded.\<close>

lemma string_to_number_digits:
  assumes "all_digits s"
  shows "string_to_number s = to_double (of_nat (nat_of_digits s))"
proof -
  have ds: "list_all is_digit s" and ne: "s \<noteq> []" using assms by (auto simp: all_digits_def)
  have tr: "trim s = s"
    by (rule trim_no_space) (use ds in \<open>auto simp: list_all_iff dest: is_digit_not_space\<close>)
  obtain c r where s: "s = c # r" using ne by (cases s) auto
  have c: "is_digit c" and r: "list_all is_digit r" using ds s by auto
  have nc: "c \<noteq> CHR ''-''" "c \<noteq> CHR ''+''" using c by (auto simp: is_digit_def)
  have nr: "lower_char (hd r) \<noteq> CHR ''x''" "lower_char (hd r) \<noteq> CHR ''o''" "lower_char (hd r) \<noteq> CHR ''b''"
    if "r \<noteq> []"
  proof -
    have "is_digit (hd r)" using that r by (cases r) auto
    then have "lower_char (hd r) = hd r" and "is_digit (hd r)"
      by (auto simp: lower_char_def is_digit_def Let_def)
    then show "lower_char (hd r) \<noteq> CHR ''x''" "lower_char (hd r) \<noteq> CHR ''o''" "lower_char (hd r) \<noteq> CHR ''b''"
      by (auto simp: is_digit_def)
  qed
  have ninf: "s \<noteq> ''Infinity''" using c s by (auto simp: is_digit_def)
  have "decimal_literal s = Some (of_nat (nat_of_digits s))"
    using ds ne by (simp add: decimal_literal_def exponent_part_def scale_pow_def)
  with ninf have u: "unsigned_literal s = to_double (of_nat (nat_of_digits s))"
    by (simp add: unsigned_literal_def)
  have tr': "trim (c # r) = c # r" using tr s by simp
  show ?thesis using nc nr u s by (auto simp: string_to_number_def tr')
qed


section \<open>Insertion-ordered maps and buckets\<close>

text \<open>
  A \<open>Map\<close> is an association list in insertion order: \<open>set\<close> is \<^const>\<open>AList.update\<close>, which
  replaces in place and appends a new key.  \<open>bucket_by\<close> is the loop
  "get the bucket and push, or set a one-element bucket".
\<close>

definition bucket_push :: "'k \<Rightarrow> 'v \<Rightarrow> ('k \<times> 'v list) list \<Rightarrow> ('k \<times> 'v list) list" where
  "bucket_push k v m =
     (case map_of m k of
        Some b \<Rightarrow> AList.update k (b @ [v]) m
      | None \<Rightarrow> AList.update k [v] m)"

definition bucket_by :: "('a \<Rightarrow> 'k) \<Rightarrow> 'a list \<Rightarrow> ('k \<times> 'a list) list" where
  "bucket_by f xs = foldl (\<lambda>m x. bucket_push (f x) x m) [] xs"

lemma bucket_by_Nil [simp]: "bucket_by f [] = []"
  by (simp add: bucket_by_def)

lemma bucket_by_snoc: "bucket_by f (xs @ [x]) = bucket_push (f x) x (bucket_by f xs)"
  by (simp add: bucket_by_def)

lemma map_of_bucket_push:
  "map_of (bucket_push k v m) = (map_of m)(k \<mapsto> (case map_of m k of None \<Rightarrow> [] | Some b \<Rightarrow> b) @ [v])"
  by (auto simp: bucket_push_def update_conv split: option.split)

lemma map_of_bucket_by:
  "map_of (bucket_by f xs) k = (if k \<in> f ` set xs then Some (filter (\<lambda>x. f x = k) xs) else None)"
proof (induction xs arbitrary: k rule: rev_induct)
  case (snoc x xs)
  have "filter (\<lambda>z. f z = f x) xs = []" if "f x \<notin> f ` set xs"
    using that by (auto simp: filter_empty_conv) (metis imageI)
  then show ?case by (auto simp: bucket_by_snoc map_of_bucket_push snoc)
qed simp

lemma distinct_bucket_by: "distinct (map fst (bucket_by f xs))"
  by (induction xs rule: rev_induct)
    (auto simp: bucket_by_snoc bucket_push_def intro: distinct_update split: option.split)

lemma bucket_by_in:
  assumes "(k, b) \<in> set (bucket_by f xs)"
  shows "b = filter (\<lambda>x. f x = k) xs" and "k \<in> f ` set xs"
proof -
  have "map_of (bucket_by f xs) k = Some b"
    using assms distinct_bucket_by by (metis map_of_is_SomeI)
  then show "b = filter (\<lambda>x. f x = k) xs" and "k \<in> f ` set xs"
    by (auto simp: map_of_bucket_by split: if_splits)
qed

lemma set_bucket_keys: "fst ` set (bucket_by f xs) = f ` set xs"
proof -
  have "dom (map_of (bucket_by f xs)) = f ` set xs"
    by (auto simp: map_of_bucket_by split: if_splits)
  then show ?thesis by (simp add: dom_map_of_conv_image_fst)
qed

lemma mset_update_bucket:
  assumes "map_of m k = Some b"
  shows "mset (concat (map snd (AList.update k (b @ [v]) m))) = add_mset v (mset (concat (map snd m)))"
  using assms by (induction m) auto

lemma map_of_None_update: "map_of m k = None \<Longrightarrow> AList.update k v m = m @ [(k, v)]"
  by (induction m) auto

lemma mset_bucket_push:
  "mset (concat (map snd (bucket_push k v m))) = add_mset v (mset (concat (map snd m)))"
  by (auto simp: bucket_push_def mset_update_bucket map_of_None_update split: option.split)

text \<open>Bucketing neither loses nor duplicates an element.\<close>

lemma mset_bucket_by: "mset (concat (map snd (bucket_by f xs))) = mset xs"
  by (induction xs rule: rev_induct) (auto simp: bucket_by_snoc mset_bucket_push)

section \<open>Array.prototype.sort\<close>

text \<open>
  The language's sort is stable; with a consistent comparator its result is unique, and
  \<open>js_sort\<close> computes it by insertion.
\<close>

fun sort_insert :: "('a \<Rightarrow> 'a \<Rightarrow> int) \<Rightarrow> 'a \<Rightarrow> 'a list \<Rightarrow> 'a list" where
  "sort_insert cmp x [] = [x]"
| "sort_insert cmp x (y # ys) = (if cmp x y \<le> 0 then x # y # ys else y # sort_insert cmp x ys)"

definition js_sort :: "('a \<Rightarrow> 'a \<Rightarrow> int) \<Rightarrow> 'a list \<Rightarrow> 'a list" where
  "js_sort cmp xs = foldr (sort_insert cmp) xs []"

lemma mset_sort_insert [simp]: "mset (sort_insert cmp x ys) = add_mset x (mset ys)"
  by (induction ys) auto

lemma mset_js_sort [simp]: "mset (js_sort cmp xs) = mset xs"
  by (induction xs) (auto simp: js_sort_def)

lemma set_js_sort [simp]: "set (js_sort cmp xs) = set xs"
  by (metis mset_js_sort set_mset_mset)

lemma set_sort_insert [simp]: "set (sort_insert cmp x ys) = insert x (set ys)"
  by (induction ys) auto

lemma length_js_sort [simp]: "length (js_sort cmp xs) = length xs"
  by (metis mset_js_sort size_mset)

lemma js_sort_Nil [simp]: "js_sort cmp [] = []"
  by (simp add: js_sort_def)

lemma js_sort_Cons: "js_sort cmp (x # xs) = sort_insert cmp x (js_sort cmp xs)"
  by (simp add: js_sort_def)

text \<open>Only the comparisons between elements of the list matter.\<close>

lemma js_sort_cong:
  assumes "\<And>x y. x \<in> set xs \<Longrightarrow> y \<in> set xs \<Longrightarrow> c x y = d x y"
  shows "js_sort c xs = js_sort d xs"
proof -
  have ins: "sort_insert c x ys = sort_insert d x ys" if "\<And>y. y \<in> set ys \<Longrightarrow> c x y = d x y" for x ys
    using that by (induction ys) auto
  show ?thesis
    using assms
  proof (induction xs)
    case (Cons x xs)
    then have "js_sort c xs = js_sort d xs" by simp
    then show ?case using ins [of "js_sort d xs" x] Cons.prems by (simp add: js_sort_Cons)
  qed simp
qed

text \<open>The contract of a comparator on the values it is called with.\<close>

locale comparator =
  fixes cmp :: "'a \<Rightarrow> 'a \<Rightarrow> int"
  assumes cmp_total: "cmp x y \<le> 0 \<or> cmp y x \<le> 0"
    and cmp_trans: "cmp x y \<le> 0 \<Longrightarrow> cmp y z \<le> 0 \<Longrightarrow> cmp x z \<le> 0"
begin

lemma sorted_sort_insert:
  "sorted_wrt (\<lambda>x y. cmp x y \<le> 0) ys \<Longrightarrow> sorted_wrt (\<lambda>x y. cmp x y \<le> 0) (sort_insert cmp x ys)"
proof (induction ys)
  case (Cons y ys)
  show ?case
  proof (cases "cmp x y \<le> 0")
    case True
    with Cons.prems show ?thesis by (auto intro: cmp_trans)
  next
    case False
    then have "cmp y x \<le> 0" using cmp_total by blast
    with False Cons show ?thesis by auto
  qed
qed simp

lemma sorted_js_sort: "sorted_wrt (\<lambda>x y. cmp x y \<le> 0) (js_sort cmp xs)"
  by (induction xs) (auto simp: js_sort_Cons intro: sorted_sort_insert)

lemma js_sort_sorted: "sorted_wrt (\<lambda>x y. cmp x y \<le> 0) xs \<Longrightarrow> js_sort cmp xs = xs"
proof (induction xs)
  case (Cons x xs)
  then show ?case by (cases xs) (auto simp: js_sort_Cons)
qed simp

lemma js_sort_idem: "js_sort cmp (js_sort cmp xs) = js_sort cmp xs"
  by (rule js_sort_sorted) (rule sorted_js_sort)

lemma cmp_refl: "cmp x x \<le> 0"
  using cmp_total by blast

text \<open>Elements the comparator does not order keep the order they came in.\<close>

lemma filter_sort_insert:
  assumes "\<And>y. y \<in> set ys \<Longrightarrow> P y \<Longrightarrow> P x \<Longrightarrow> cmp x y \<le> 0"
    and "sorted_wrt (\<lambda>x y. cmp x y \<le> 0) ys"
  shows "filter P (sort_insert cmp x ys) = (if P x then x # filter P ys else filter P ys)"
  using assms
proof (induction ys)
  case (Cons y ys)
  have IH: "filter P (sort_insert cmp x ys) = (if P x then x # filter P ys else filter P ys)"
    using Cons by auto
  show ?case
  proof (cases "cmp x y \<le> 0")
    case False
    then have "P x \<Longrightarrow> \<not> P y" using Cons.prems(1) by auto
    with False IH show ?thesis by auto
  qed simp
qed simp

lemma js_sort_stable:
  assumes "\<And>x y. P x \<Longrightarrow> P y \<Longrightarrow> cmp x y \<le> 0"
  shows "filter P (js_sort cmp xs) = filter P xs"
proof (induction xs)
  case (Cons x xs)
  then show ?case
    using filter_sort_insert [of "js_sort cmp xs" P x, OF _ sorted_js_sort] assms
    by (auto simp: js_sort_Cons)
qed simp

lemma sort_insert_least: "(\<And>y. y \<in> set ys \<Longrightarrow> cmp x y \<le> 0) \<Longrightarrow> sort_insert cmp x ys = x # ys"
  by (cases ys) auto

lemma filter_sort_insert_comm:
  assumes "sorted_wrt (\<lambda>x y. cmp x y \<le> 0) ys"
  shows "filter P (sort_insert cmp x ys) =
         (if P x then sort_insert cmp x (filter P ys) else filter P ys)"
  using assms
proof (induction ys)
  case (Cons y ys)
  show ?case
  proof (cases "cmp x y \<le> 0")
    case True
    then have "sort_insert cmp x (filter P (y # ys)) = x # filter P (y # ys)"
      using Cons.prems by (intro sort_insert_least) (auto split: if_splits intro: cmp_trans)
    with True show ?thesis by simp
  next
    case False
    with Cons show ?thesis by auto
  qed
qed simp

text \<open>Filtering before or after sorting is the same.\<close>

lemma filter_js_sort: "filter P (js_sort cmp xs) = js_sort cmp (filter P xs)"
  by (induction xs) (auto simp: js_sort_Cons filter_sort_insert_comm [OF sorted_js_sort])

end

text \<open>
  \<open>c1(a, b) || c2(a, b)\<close>, and the two spellings of a comparison by value: a difference of numbers,
  whose sign is that of the comparison, and a conditional on strings, which compare by code units.
\<close>

definition cmp_or :: "int \<Rightarrow> int \<Rightarrow> int" where
  "cmp_or c d = (if c = 0 then d else c)"

definition cmp_str :: "('a :: linorder) \<Rightarrow> 'a \<Rightarrow> int" where
  "cmp_str a b = (if a < b then - 1 else if b < a then 1 else 0)"

lemma cmp_str_le [simp]: "cmp_str a b \<le> 0 \<longleftrightarrow> a \<le> b"
  by (auto simp: cmp_str_def)

lemma cmp_str_zero [simp]: "cmp_str a b = 0 \<longleftrightarrow> a = b"
  by (auto simp: cmp_str_def)

text \<open>A comparator whose ties are symmetric can be refined by another one.\<close>

locale key_comparator = comparator +
  assumes cmp_zero: "cmp x y = 0 \<longleftrightarrow> cmp x y \<le> 0 \<and> cmp y x \<le> 0"

lemma key_comparator_asc: "key_comparator (\<lambda>x y. cmp_str (f x) (f y))"
  by unfold_locales auto

lemma key_comparator_desc: "key_comparator (\<lambda>x y. cmp_str (f y) (f x))"
  by unfold_locales auto

lemma key_comparator_or:
  assumes "key_comparator c" and "key_comparator d"
  shows "key_comparator (\<lambda>x y. cmp_or (c x y) (d x y))"
proof -
  have tot: "c x y \<le> 0 \<or> c y x \<le> 0" "d x y \<le> 0 \<or> d y x \<le> 0" for x y
    using assms by (simp_all add: comparator.cmp_total key_comparator.axioms(1))
  have tr: "c x y \<le> 0 \<Longrightarrow> c y z \<le> 0 \<Longrightarrow> c x z \<le> 0" "d x y \<le> 0 \<Longrightarrow> d y z \<le> 0 \<Longrightarrow> d x z \<le> 0" for x y z
    using assms by (blast intro: comparator.cmp_trans key_comparator.axioms(1))+
  have ze: "c x y = 0 \<longleftrightarrow> c x y \<le> 0 \<and> c y x \<le> 0" "d x y = 0 \<longleftrightarrow> d x y \<le> 0 \<and> d y x \<le> 0" for x y
    using assms by (simp_all add: key_comparator.cmp_zero)
  have le: "cmp_or (c x y) (d x y) \<le> 0 \<longleftrightarrow> c x y \<le> 0 \<and> (c y x \<le> 0 \<longrightarrow> d x y \<le> 0)" for x y
    using ze(1) [of x y] ze(1) [of y x] tot(1) [of x y] by (auto simp: cmp_or_def)
  have eq: "cmp_or (c x y) (d x y) = 0 \<longleftrightarrow> c x y = 0 \<and> d x y = 0" for x y
    by (auto simp: cmp_or_def)
  show ?thesis
  proof unfold_locales
    show "cmp_or (c x y) (d x y) \<le> 0 \<or> cmp_or (c y x) (d y x) \<le> 0" for x y
      unfolding le using tot [of x y] by blast
    show "cmp_or (c x z) (d x z) \<le> 0"
      if "cmp_or (c x y) (d x y) \<le> 0" "cmp_or (c y z) (d y z) \<le> 0" for x y z
      using that unfolding le using tr by blast
    show "cmp_or (c x y) (d x y) = 0 \<longleftrightarrow> cmp_or (c x y) (d x y) \<le> 0 \<and> cmp_or (c y x) (d y x) \<le> 0" for x y
      unfolding le eq using ze [of x y] by blast
  qed
qed

lemmas key_comparators = key_comparator_or key_comparator_asc key_comparator_desc

text \<open>
  A plain object used as a dictionary: \<open>obj[k] = v\<close>.  Assigning to \<open>__proto__\<close> sets the
  prototype and adds no entry.
\<close>

definition obj_set :: "string \<Rightarrow> 'v \<Rightarrow> (string \<rightharpoonup> 'v) \<Rightarrow> (string \<rightharpoonup> 'v)" where
  "obj_set k v m = (if k = ''__proto__'' then m else m(k \<mapsto> v))"

lemma foldl_obj_set:
  assumes "distinct (map fst kvs)" and "k \<noteq> ''__proto__''"
  shows "foldl (\<lambda>m (k, v). obj_set k v m) m0 kvs k =
         (case map_of kvs k of None \<Rightarrow> m0 k | Some v \<Rightarrow> Some v)"
  using assms(1)
proof (induction kvs arbitrary: m0)
  case (Cons kv kvs)
  obtain k' v where kv: "kv = (k', v)" by (cases kv)
  have "k = k' \<Longrightarrow> map_of kvs k = None" using Cons.prems kv by (auto simp: map_of_eq_None_iff)
  with Cons assms(2) kv show ?case by (auto simp: obj_set_def split: option.splits)
qed simp

section \<open>Lists with their predecessors, partial maps over lists\<close>

lemma map_filter_append [simp]: "List.map_filter f (xs @ ys) = List.map_filter f xs @ List.map_filter f ys"
  by (simp add: List.map_filter_def)

lemma map_filter_Cons: "List.map_filter f (x # xs) =
    (case f x of None \<Rightarrow> List.map_filter f xs | Some y \<Rightarrow> y # List.map_filter f xs)"
  by (simp add: map_filter_simps split: option.split)

lemma map_filter_Nil [simp]: "List.map_filter f [] = []"
  by (simp add: List.map_filter_def)

lemma set_map_filter_iff: "y \<in> set (List.map_filter f xs) \<longleftrightarrow> (\<exists>x\<in>set xs. f x = Some y)"
  by (force simp: List.map_filter_def)

lemma map_filter_filter:
  "(\<And>x y. f x = Some y \<Longrightarrow> P x = Q y) \<Longrightarrow> List.map_filter f (filter P xs) = filter Q (List.map_filter f xs)"
  by (induction xs) (auto simp: map_filter_Cons split: option.split)

definition with_previous :: "'a list \<Rightarrow> ('a option \<times> 'a) list" where
  "with_previous xs = zip (None # map Some xs) xs"

lemma map_snd_with_previous [simp]: "map snd (with_previous xs) = xs"
  by (simp add: with_previous_def map_snd_zip_take)

lemma with_previous_Some:
  "(Some p, c) \<in> set (with_previous xs) \<longleftrightarrow> (\<exists>i. Suc i < length xs \<and> p = xs ! i \<and> c = xs ! Suc i)"
proof
  assume "(Some p, c) \<in> set (with_previous xs)"
  then obtain i where i: "i < length xs" "(None # map Some xs) ! i = Some p" "xs ! i = c"
    by (auto simp: with_previous_def in_set_zip)
  then obtain j where "i = Suc j" by (cases i) auto
  with i show "\<exists>i. Suc i < length xs \<and> p = xs ! i \<and> c = xs ! Suc i" by auto
next
  assume "\<exists>i. Suc i < length xs \<and> p = xs ! i \<and> c = xs ! Suc i"
  then obtain i where "Suc i < length xs" "p = xs ! i" "c = xs ! Suc i" by blast
  then show "(Some p, c) \<in> set (with_previous xs)"
    by (auto simp: with_previous_def in_set_zip intro!: exI [of _ "Suc i"])
qed

text \<open>
  "Get the entry of the key, compute the new one, set it": the loop that folds a list into an
  insertion-ordered map, one entry per key.
\<close>

definition upsert_by :: "('a \<Rightarrow> 'k) \<Rightarrow> ('a \<Rightarrow> 'b option \<Rightarrow> 'b) \<Rightarrow> 'a list \<Rightarrow> ('k \<times> 'b) list" where
  "upsert_by key step xs = foldl (\<lambda>m x. AList.update (key x) (step x (map_of m (key x))) m) [] xs"

definition fold_step :: "('a \<Rightarrow> 'b option \<Rightarrow> 'b) \<Rightarrow> 'a list \<Rightarrow> 'b option" where
  "fold_step step xs = foldl (\<lambda>b x. Some (step x b)) None xs"

definition first_seen :: "('a \<Rightarrow> 'k) \<Rightarrow> 'a list \<Rightarrow> 'k list" where
  "first_seen f xs = rev (remdups (rev (map f xs)))"

lemma set_first_seen [simp]: "set (first_seen f xs) = f ` set xs"
  by (simp add: first_seen_def)

lemma first_seen_empty [simp]: "first_seen f xs = [] \<longleftrightarrow> xs = []"
  by (simp add: first_seen_def)

lemma distinct_first_seen [simp]: "distinct (first_seen f xs)"
  by (simp add: first_seen_def)

lemma upsert_by_Nil [simp]: "upsert_by key step [] = []"
  by (simp add: upsert_by_def)

lemma upsert_by_snoc:
  "upsert_by key step (xs @ [x]) =
   AList.update (key x) (step x (map_of (upsert_by key step xs) (key x))) (upsert_by key step xs)"
  by (simp add: upsert_by_def)

lemma fold_step_Nil [simp]: "fold_step step [] = None"
  by (simp add: fold_step_def)

lemma fold_step_snoc [simp]: "fold_step step (xs @ [x]) = Some (step x (fold_step step xs))"
  by (simp add: fold_step_def)

lemma map_of_upsert_by: "map_of (upsert_by key step xs) k = fold_step step (filter (\<lambda>x. key x = k) xs)"
  by (induction xs arbitrary: k rule: rev_induct) (auto simp: upsert_by_snoc update_conv)

lemma keys_upsert_by: "map fst (upsert_by key step xs) = first_seen key xs"
proof (induction xs rule: rev_induct)
  case (snoc x xs)
  have "fst ` set (upsert_by key step xs) = key ` set xs"
    using arg_cong [OF snoc, of set] by simp
  then show ?case using snoc by (simp add: upsert_by_snoc update_keys first_seen_def)
qed (simp add: first_seen_def)

lemma alist_from_keys: "distinct (map fst m) \<Longrightarrow> m = map (\<lambda>k. (k, the (map_of m k))) (map fst m)"
proof (induction m)
  case (Cons kv m)
  obtain k v where kv: "kv = (k, v)" by (cases kv)
  have "map (\<lambda>k'. (k', the (map_of (kv # m) k'))) (map fst m) = map (\<lambda>k'. (k', the (map_of m k'))) (map fst m)"
    using Cons.prems kv by (intro map_cong) auto
  with Cons kv show ?case by simp
qed simp

text \<open>The closed form: keys in order of first occurrence, each with the fold of its own elements.\<close>

lemma upsert_by_closed:
  "upsert_by key step xs =
   map (\<lambda>k. (k, the (fold_step step (filter (\<lambda>x. key x = k) xs)))) (first_seen key xs)"
  using alist_from_keys [of "upsert_by key step xs"]
  by (simp add: keys_upsert_by map_of_upsert_by)

lemma sum_list_partition:
  assumes "distinct ks" and "f ` set xs \<subseteq> set ks"
  shows "sum_list (map (\<lambda>k. length (filter (\<lambda>x. f x = k) xs)) ks) = length xs"
  using assms(2)
proof (induction xs)
  case (Cons x xs)
  have "sum_list (map (\<lambda>k. length (filter (\<lambda>y. f y = k) (x # xs))) ks) =
        sum_list (map (\<lambda>k. length (filter (\<lambda>y. f y = k) xs)) ks) + sum_list (map (\<lambda>k. if f x = k then 1 else 0) ks)"
    by (subst sum_list_addf [symmetric]) (intro arg_cong [of _ _ sum_list] map_cong, auto)
  moreover have "sum_list (map (\<lambda>k. if f x = k then 1 else (0::nat)) ks) = 1"
    using assms(1) Cons.prems by (simp add: sum_list_distinct_conv_sum_set)
  ultimately show ?case using Cons by simp
qed simp

text \<open>\<open>String(n)\<close> of an integer.\<close>

definition string_of_int :: "int \<Rightarrow> string" where
  "string_of_int i = (if i < 0 then CHR ''-'' # string_of_nat (nat (- i)) else string_of_nat (nat i))"

lemma string_of_int_inject [simp]: "string_of_int i = string_of_int j \<longleftrightarrow> i = j"
proof
  have c: "CHR ''-'' \<notin> set (string_of_nat k)" for k
    by (rule digits_not_in) (simp_all add: is_digit_def string_of_nat_digits)
  have d: "string_of_nat k \<noteq> CHR ''-'' # t" for k t
    using c [of k] by (cases "string_of_nat k") auto
  assume "string_of_int i = string_of_int j"
  then show "i = j" using d by (auto simp: string_of_int_def split: if_splits dest: not_sym)
qed simp

lemma string_of_int_proto [simp]: "string_of_int i \<noteq> ''__proto__''"
proof -
  have "CHR ''_'' \<notin> set (string_of_nat k)" for k
    by (rule digits_not_in) (simp_all add: is_digit_def string_of_nat_digits)
  then have "CHR ''_'' \<notin> set (string_of_int i)" by (simp add: string_of_int_def)
  then show ?thesis by (metis list.set_intros(1))
qed

section \<open>Numbers and values as text\<close>

text \<open>
  \<open>String(n)\<close> of a number: a safe integer in decimal; otherwise the shortest digits that read back
  as the number (closest to it among those), in positional notation when the decimal point lies at
  most 21 places after the first digit or 5 zeros before it, else with an exponent.
\<close>

primrec dec_exp_small :: "nat \<Rightarrow> rat \<Rightarrow> int" where
  "dec_exp_small 0 q = 0"
| "dec_exp_small (Suc f) q = (if 1 \<le> 10 * q then 0 else dec_exp_small f (10 * q) - 1)"

definition dec_exp :: "rat \<Rightarrow> int" where
  "dec_exp q = (if 1 \<le> q then int (length (string_of_nat (nat \<lfloor>q\<rfloor>))) else dec_exp_small 400 q)"

definition digit_candidates :: "rat \<Rightarrow> int \<Rightarrow> int \<Rightarrow> int list" where
  "digit_candidates q n k =
     (let f = \<lfloor>q / scale_pow 10 (n - k)\<rfloor>
      in filter (\<lambda>s. to_double (of_int s * scale_pow 10 (n - k)) = Fin q) [f, f + 1])"

primrec shortest_digits :: "nat \<Rightarrow> rat \<Rightarrow> int \<Rightarrow> int \<Rightarrow> string \<times> int" where
  "shortest_digits 0 q n k = (string_of_nat (nat \<lfloor>q / scale_pow 10 (n - k)\<rfloor>), n)"
| "shortest_digits (Suc f) q n k =
     (case digit_candidates q n k of
        [] \<Rightarrow> shortest_digits f q n (k + 1)
      | s # ts \<Rightarrow>
          let x = q / scale_pow 10 (n - k);
              d = (if ts = [] \<or> x - of_int s \<le> of_int (s + 1) - x then s else s + 1)
          in (string_of_nat (nat d), if 10 ^ nat k \<le> d then n + 1 else n))"

text \<open>The digits without their trailing zeros, zero itself kept.\<close>

definition strip_zeros :: "string \<Rightarrow> string" where
  "strip_zeros ds = (case rev (dropWhile (\<lambda>c. c = CHR ''0'') (rev ds)) of [] \<Rightarrow> ''0'' | d # r \<Rightarrow> d # r)"

definition positive_to_string :: "rat \<Rightarrow> string" where
  "positive_to_string q =
     (let n0 = dec_exp q;
          (ds0, n) = shortest_digits 17 q n0 1;
          ds = strip_zeros ds0;
          k = int (length ds)
      in if k \<le> n \<and> n \<le> 21 then ds @ replicate (nat (n - k)) CHR ''0''
         else if 0 < n \<and> n \<le> 21 then take (nat n) ds @ ''.'' @ drop (nat n) ds
         else if -6 < n \<and> n \<le> 0 then ''0.'' @ replicate (nat (- n)) CHR ''0'' @ ds
         else take 1 ds @ (if 1 < k then CHR ''.'' # drop 1 ds else []) @ ''e'' @
              (if 0 < n then ''+'' else ''-'') @ string_of_nat (nat \<bar>n - 1\<bar>))"

definition number_to_string :: "jsnum \<Rightarrow> string" where
  "number_to_string x =
     (case x of
        NaN \<Rightarrow> ''NaN''
      | PosInf \<Rightarrow> ''Infinity''
      | NegInf \<Rightarrow> ''-Infinity''
      | Fin q \<Rightarrow>
          if is_safe_integer (Fin q) then string_of_int \<lfloor>q\<rfloor>
          else if q < 0 then CHR ''-'' # positive_to_string (- q) else positive_to_string q)"

lemma strip_zeros_nonempty [simp]: "strip_zeros ds \<noteq> []"
  by (simp add: strip_zeros_def split: list.split)

lemma positive_to_string_nonempty: "positive_to_string q \<noteq> []"
  by (simp add: positive_to_string_def Let_def split: prod.split)

lemma number_to_string_nonempty [simp]: "number_to_string x \<noteq> []"
  by (simp add: number_to_string_def string_of_int_def positive_to_string_nonempty split: jsnum.split)

text \<open>\<open>String(v)\<close>: an array joins its elements with commas, null and undefined ones as nothing.\<close>

fun js_string :: "json \<Rightarrow> string" where
  "js_string (JVal VUndef) = ''undefined''"
| "js_string (JVal VNull) = ''null''"
| "js_string (JVal (VBool b)) = (if b then ''true'' else ''false'')"
| "js_string (JVal (VNum n)) = number_to_string n"
| "js_string (JVal (VStr s)) = s"
| "js_string (JArr xs) =
     join_with '','' (map (\<lambda>x. if x = JNull \<or> x = JUndef then [] else js_string x) xs)"
| "js_string (JObj _) = ''[object Object]''"

section \<open>Comparisons, truth and text search\<close>

text \<open>\<open>a <= b\<close> of numbers, and the sign of \<open>a - b\<close> as a comparator's result (a NaN counts as zero).\<close>

fun num_le :: "jsnum \<Rightarrow> jsnum \<Rightarrow> bool" where
  "num_le NaN y = False"
| "num_le x NaN = False"
| "num_le NegInf y = True"
| "num_le x PosInf = True"
| "num_le (Fin a) (Fin b) = (a \<le> b)"
| "num_le x y = False"

definition num_cmp :: "jsnum \<Rightarrow> jsnum \<Rightarrow> int" where
  "num_cmp x y =
     (if x = NaN \<or> y = NaN then 0
      else if num_le x y then (if num_le y x then 0 else - 1) else 1)"

fun truthy :: "json \<Rightarrow> bool" where
  "truthy (JVal VUndef) = False"
| "truthy (JVal VNull) = False"
| "truthy (JVal (VBool b)) = b"
| "truthy (JVal (VNum n)) = (n \<noteq> NaN \<and> n \<noteq> Fin 0)"
| "truthy (JVal (VStr s)) = (s \<noteq> [])"
| "truthy _ = True"

definition nullish :: "json \<Rightarrow> bool" where
  "nullish v \<longleftrightarrow> v = JNull \<or> v = JUndef"

fun json_number :: "json \<Rightarrow> jsnum" where
  "json_number (JVal v) = js_number v"
| "json_number v = string_to_number (js_string v)"

text \<open>\<open>s.includes(t)\<close> and \<open>s.split(/\s+/)\<close> without its empty pieces.\<close>

definition starts_with :: "string \<Rightarrow> string \<Rightarrow> bool" where
  "starts_with p s \<longleftrightarrow> take (length p) s = p"

fun includes_text :: "string \<Rightarrow> string \<Rightarrow> bool" where
  "includes_text s t = (starts_with t s \<or> (case s of [] \<Rightarrow> False | _ # r \<Rightarrow> includes_text r t))"

declare includes_text.simps [simp del]

fun words_of :: "string \<Rightarrow> string \<Rightarrow> string list" where
  "words_of acc [] = (if acc = [] then [] else [rev acc])"
| "words_of acc (c # s) =
     (if is_space c then (if acc = [] then words_of [] s else rev acc # words_of [] s)
      else words_of (c # acc) s)"

section \<open>URL search parameters\<close>

text \<open>
  \<open>URLSearchParams\<close> is the list of its pairs: \<open>get\<close> reads the first pair of a name, \<open>set\<close> replaces
  it and removes the others, or appends.  The serializer percent-encodes the UTF-8 bytes.
\<close>

type_synonym params = "(string \<times> string) list"

definition params_get :: "params \<Rightarrow> string \<Rightarrow> string option" where
  "params_get ps k = map_of ps k"

definition params_has :: "params \<Rightarrow> string \<Rightarrow> bool" where
  "params_has ps k \<longleftrightarrow> map_of ps k \<noteq> None"

fun params_set :: "string \<Rightarrow> string \<Rightarrow> params \<Rightarrow> params" where
  "params_set k v [] = [(k, v)]"
| "params_set k v ((k', v') # ps) =
     (if k' = k then (k, v) # filter (\<lambda>p. fst p \<noteq> k) ps else (k', v') # params_set k v ps)"

lemma params_get_set [simp]: "params_get (params_set k v ps) k' = (if k' = k then Some v else params_get ps k')"
proof -
  have "map_of (filter (\<lambda>p. fst p \<noteq> k) ps) k' = map_of ps k'" if "k' \<noteq> k" for ps :: params
    using that by (induction ps) auto
  then show ?thesis unfolding params_get_def by (induction ps) auto
qed

lemma params_has_get: "params_has ps k \<longleftrightarrow> params_get ps k \<noteq> None"
  by (simp add: params_has_def params_get_def)

definition upper_hex :: "nat \<Rightarrow> char" where
  "upper_hex n = (if n < 10 then digit_char n else char_of (55 + n))"

definition percent_byte :: "nat \<Rightarrow> string" where
  "percent_byte n = CHR ''%'' # [upper_hex (n div 16), upper_hex (n mod 16)]"

definition form_encode_char :: "char \<Rightarrow> string" where
  "form_encode_char c =
     (let n = (of_char c :: nat)
      in if n = 32 then ''+''
         else if 48 \<le> n \<and> n \<le> 57 \<or> 65 \<le> n \<and> n \<le> 90 \<or> 97 \<le> n \<and> n \<le> 122 \<or> n \<in> {42, 45, 46, 95} then [c]
         else if n < 128 then percent_byte n
         else percent_byte (192 + n div 64) @ percent_byte (128 + n mod 64))"

definition form_encode :: "params \<Rightarrow> string" where
  "form_encode ps =
     join_with ''&'' (map (\<lambda>(k, v). concat (map form_encode_char k) @ ''='' @ concat (map form_encode_char v)) ps)"

section \<open>Calendar dates\<close>

text \<open>
  The proleptic Gregorian calendar date of a day number since 1970-01-01, and
  \<open>toISOString().slice(0, 10)\<close> of a time value in milliseconds: a four-digit year inside 0 to 9999,
  else a sign and six digits.
\<close>

definition civil_from_days :: "int \<Rightarrow> int \<times> int \<times> int" where
  "civil_from_days d =
     (let z = d + 719468; era = z div 146097; doe = z mod 146097;
          yoe = (doe - doe div 1460 + doe div 36524 - doe div 146096) div 365;
          doy = doe - (365 * yoe + yoe div 4 - yoe div 100);
          mp = (5 * doy + 2) div 153;
          dy = doy - (153 * mp + 2) div 5 + 1;
          m = (if mp < 10 then mp + 3 else mp - 9)
      in ((if m \<le> 2 then yoe + era * 400 + 1 else yoe + era * 400), m, dy))"

definition pad_start :: "nat \<Rightarrow> string \<Rightarrow> string" where
  "pad_start n s = replicate (n - length s) CHR ''0'' @ s"

definition MS_PER_DAY :: int where
  "MS_PER_DAY = 86400000"

definition iso_day :: "int \<Rightarrow> string" where
  "iso_day ms =
     (let (y, m, d) = civil_from_days (ms div MS_PER_DAY);
          year = (if 0 \<le> y \<and> y \<le> 9999 then pad_start 4 (string_of_nat (nat y))
                  else (if y < 0 then CHR ''-'' else CHR ''+'') # pad_start 6 (string_of_nat (nat \<bar>y\<bar>)))
      in year @ ''-'' @ pad_start 2 (string_of_nat (nat m)) @ ''-'' @ pad_start 2 (string_of_nat (nat d)))"

definition iso_date :: "int \<Rightarrow> string" where
  "iso_date ms = take 10 (iso_day ms)"

definition iso_datetime :: "int \<Rightarrow> string" where
  "iso_datetime ms =
     (let t = ms mod MS_PER_DAY
      in iso_day ms @ ''T'' @ pad_start 2 (string_of_nat (nat (t div 3600000))) @ '':'' @
         pad_start 2 (string_of_nat (nat (t div 60000 mod 60))) @ '':'' @
         pad_start 2 (string_of_nat (nat (t div 1000 mod 60))) @ ''.'' @
         pad_start 3 (string_of_nat (nat (t mod 1000))) @ ''Z'')"

text \<open>
  The day number of a calendar date, the days counted past the end of a month included, as
  \<open>Date.UTC\<close> takes them.
\<close>

definition days_from_civil :: "int \<Rightarrow> int \<Rightarrow> int \<Rightarrow> int" where
  "days_from_civil y0 m d =
     (let y = (if m \<le> 2 then y0 - 1 else y0); era = y div 400; yoe = y mod 400;
          mp = (if 2 < m then m - 3 else m + 9);
          doy = (153 * mp + 2) div 5 + d - 1
      in era * 146097 + (yoe * 365 + yoe div 4 - yoe div 100 + doy) - 719468)"

lemma year_of_era:
  fixes doe :: int
  assumes "0 \<le> doe" "doe < 146097"
  defines "y \<equiv> (doe - doe div 1460 + doe div 36524 - doe div 146096) div 365"
  shows "0 \<le> y" "y < 400" "0 \<le> doe - (365 * y + y div 4 - y div 100)"
    "doe - (365 * y + y div 4 - y div 100) \<le> 366"
proof -
  define q1 q2 q3 where "q1 = doe div 1460" and "q2 = doe div 36524" and "q3 = doe div 146096"
  have b1: "1460 * q1 \<le> doe" "doe < 1460 * q1 + 1460" and b2: "36524 * q2 \<le> doe" "doe < 36524 * q2 + 36524"
    and b3: "146096 * q3 \<le> doe" "doe < 146096 * q3 + 146096"
    unfolding q1_def q2_def q3_def by linarith+
  have y: "365 * y \<le> doe - q1 + q2 - q3" "doe - q1 + q2 - q3 < 365 * y + 365"
    unfolding y_def q1_def q2_def q3_def by linarith+
  define a b where "a = y div 4" and "b = y div 100"
  have a: "4 * a \<le> y" "y \<le> 4 * a + 3" and b: "100 * b \<le> y" "y \<le> 100 * b + 99"
    unfolding a_def b_def by linarith+
  have r: "0 \<le> q1" "q1 \<le> 100" "0 \<le> q2" "q2 \<le> 4" "0 \<le> q3" "q3 \<le> 1"
    using assms(1,2) b1 b2 b3 by linarith+
  show y0: "0 \<le> y" using y b1 b2 b3 r by linarith
  have q: "q2 = 0 \<or> q2 = 1 \<or> q2 = 2 \<or> q2 = 3 \<or> (q2 = 4 \<and> q3 = 1 \<and> doe = 146096 \<and> q1 = 100)"
    using assms(2) b1 b2 b3 r by linarith
  show "y < 400" using q y b1 b2 b3 r assms(2) by linarith
  have "q2 \<le> q1" using b1 b2 r by linarith
  then have "a \<le> q1" using a y b1 r q by linarith
  moreover have "q1 \<le> a + 1" using a y b1 r q by linarith
  moreover have "q2 - q3 \<le> b" "b \<le> q2 + 1 - q3" using q b y b1 b2 b3 r by auto
  ultimately show "0 \<le> doe - (365 * y + y div 4 - y div 100)"
    "doe - (365 * y + y div 4 - y div 100) \<le> 366"
    unfolding a_def [symmetric] b_def [symmetric] using y by linarith+
qed

lemma days_from_civil_inverse:
  "(\<lambda>(y, m, dy). days_from_civil y m (dy + k)) (civil_from_days d) = d + k"
proof -
  define z era doe where "z = d + 719468" and "era = z div 146097" and "doe = z mod 146097"
  have doe: "0 \<le> doe" "doe < 146097" by (simp_all add: doe_def)
  define yoe where "yoe = (doe - doe div 1460 + doe div 36524 - doe div 146096) div 365"
  define doy where "doy = doe - (365 * yoe + yoe div 4 - yoe div 100)"
  note Y = year_of_era [OF doe, folded yoe_def, folded doy_def]
  define mp where "mp = (5 * doy + 2) div 153"
  have mp: "0 \<le> mp" "mp \<le> 11" using Y(3,4) unfolding mp_def by linarith+
  define m where "m = (if mp < 10 then mp + 3 else mp - 9)"
  have mp_of: "(if 2 < m then m - 3 else m + 9) = mp" and early: "m \<le> 2 \<longleftrightarrow> 10 \<le> mp"
    using mp by (auto simp: m_def)
  have era: "(yoe + era * 400) div 400 = era" "(yoe + era * 400) mod 400 = yoe" using Y(1,2) by simp_all
  have civ: "civil_from_days d = ((if m \<le> 2 then yoe + era * 400 + 1 else yoe + era * 400), m,
      doy - (153 * mp + 2) div 5 + 1)"
    unfolding civil_from_days_def Let_def m_def mp_def doy_def yoe_def doe_def era_def z_def by (rule refl)
  have "era * 146097 + doe = z" by (simp add: era_def doe_def)
  moreover have "yoe mod 400 = yoe" using Y(1,2) by simp
  moreover have "m \<le> 2 \<Longrightarrow> 1379 + 153 * m = 153 * mp + 2" "\<not> m \<le> 2 \<Longrightarrow> 153 * m - 457 = 153 * mp + 2"
    using mp_of by auto
  ultimately show ?thesis
    by (cases "m \<le> 2") (simp_all add: civ days_from_civil_def era doy_def z_def Let_def)
qed

lemma civil_from_days_inject: "civil_from_days d = civil_from_days e \<longleftrightarrow> d = e"
  by (metis (no_types, lifting) add.right_neutral days_from_civil_inverse)

section \<open>Optional tokens\<close>

text \<open>
  The contract of an encoder that may refuse and the decoder that reads its tokens back:
  a token decodes to the normal form of what was encoded, so it identifies it.
\<close>

locale token_codec =
  fixes enc :: "'a \<Rightarrow> 'b option"
    and dec :: "'b \<Rightarrow> 'c option"
    and norm :: "'a \<Rightarrow> 'c option"
  assumes dec_enc: "enc x = Some s \<Longrightarrow> dec s = norm x"
    and norm_def: "enc x = Some s \<Longrightarrow> norm x \<noteq> None"
begin

lemma token_decodes: "enc x = Some s \<Longrightarrow> \<exists>y. dec s = Some y"
  using dec_enc norm_def by fastforce

lemma token_identifies: "enc x = Some s \<Longrightarrow> enc y = Some s \<Longrightarrow> norm x = norm y"
  using dec_enc by metis

end

fun traverse :: "('a \<Rightarrow> 'b option) \<Rightarrow> 'a list \<Rightarrow> 'b list option" where
  "traverse f [] = Some []"
| "traverse f (x # xs) =
     (case f x of
        None \<Rightarrow> None
      | Some y \<Rightarrow> (case traverse f xs of None \<Rightarrow> None | Some ys \<Rightarrow> Some (y # ys)))"

lemma traverse_Some_iff:
  "traverse f xs = Some ys \<longleftrightarrow> list_all2 (\<lambda>x y. f x = Some y) xs ys"
proof (induction xs arbitrary: ys)
  case (Cons x xs)
  show ?case
  proof
    assume "traverse f (x # xs) = Some ys"
    then show "list_all2 (\<lambda>x y. f x = Some y) (x # xs) ys"
      by (auto simp: Cons split: option.splits)
  next
    assume "list_all2 (\<lambda>x y. f x = Some y) (x # xs) ys"
    then show "traverse f (x # xs) = Some ys"
      by (auto simp: list_all2_Cons1 simp flip: Cons)
  qed
qed auto

lemma traverse_length: "traverse f xs = Some ys \<Longrightarrow> length ys = length xs"
  by (auto simp: traverse_Some_iff dest: list_all2_lengthD)

lemma traverse_set: "traverse f xs = Some ys \<Longrightarrow> y \<in> set ys \<Longrightarrow> \<exists>x\<in>set xs. f x = Some y"
  by (induction xs arbitrary: ys) (auto split: option.splits)

lemma traverse_map_Some: "(\<And>x. x \<in> set xs \<Longrightarrow> f (g x) = Some x) \<Longrightarrow> traverse f (map g xs) = Some xs"
  by (induction xs) auto

end
