(* ===== verification/Cursor.thy ===== *)
theory Cursor
  imports Js_Prelude
begin

text \<open>
  The keyset cursor of the chain feeds, \<^verbatim>\<open>src/cursor.ts\<close>: a dot-joined token of non-negative
  safe integers.  The loops that push onto a result array and return early are
  \<^const>\<open>traverse\<close>.  The lemmas give the round trip, the range of what is decoded, and the
  interface \<^const>\<open>token_codec\<close> that the feed cursors share.
\<close>

section \<open>The codec\<close>

fun cursorPart :: "jsval \<Rightarrow> nat option" where
  "cursorPart (VNum x) =
     (if is_safe_integer x \<and> 0 \<le> num_int x then Some (nat (num_int x)) else None)"
| "cursorPart (VStr s) =
     (if all_digits s
      then (let n = string_to_number s
            in if is_safe_integer n \<and> 0 \<le> num_int n then Some (nat (num_int n)) else None)
      else None)"
| "cursorPart _ = None"

definition encodeCursor :: "jsval list \<Rightarrow> string option" where
  "encodeCursor parts =
     (if parts = [] then None
      else case traverse cursorPart parts of
             None \<Rightarrow> None
           | Some normalized \<Rightarrow> Some (join_with ''.'' (map string_of_nat normalized)))"

definition decodeSegment :: "string \<Rightarrow> nat option" where
  "decodeSegment s =
     (if \<not> all_digits s then None
      else let n = string_to_number s
           in if \<not> is_safe_integer n \<or> num_int n < 0 then None else Some (nat (num_int n)))"

definition decodeCursor :: "jsval \<Rightarrow> nat \<Rightarrow> nat list option" where
  "decodeCursor raw arity =
     (case raw of
        VStr s \<Rightarrow>
          if s = [] then None
          else let segs = split_on (CHR ''.'') s
               in if length segs \<noteq> arity then None else traverse decodeSegment segs
      | _ \<Rightarrow> None)"

section \<open>One part\<close>

lemma decodeSegment_iff:
  "decodeSegment s = Some n \<longleftrightarrow> all_digits s \<and> n = nat_of_digits s \<and> int n \<le> MAX_SAFE"
  by (auto simp: decodeSegment_def Let_def string_to_number_digits safe_to_double_nat to_double_nat_safe
      simp del: is_safe_integer.simps)

lemma decodeSegment_code [code]:
  "decodeSegment s =
     (if all_digits s \<and> int (nat_of_digits s) \<le> MAX_SAFE then Some (nat_of_digits s) else None)"
  by (cases "decodeSegment s") (auto simp: decodeSegment_iff, metis decodeSegment_iff option.distinct(1))

lemma cursorPart_str: "cursorPart (VStr s) = decodeSegment s"
  by (auto simp: decodeSegment_def Let_def)

lemma cursorPart_code [code]:
  "cursorPart VUndef = None" "cursorPart VNull = None" "cursorPart (VBool b) = None"
  "cursorPart (VNum x) =
     (if is_safe_integer x \<and> 0 \<le> num_int x then Some (nat (num_int x)) else None)"
  "cursorPart (VStr s) = decodeSegment s"
  by (simp_all only: cursorPart_str cursorPart.simps)

lemma cursorPart_nat [simp]: "int n \<le> MAX_SAFE \<Longrightarrow> cursorPart (VNum (js_int (int n))) = Some n"
  by simp

lemma cursorPart_safe: "cursorPart v = Some n \<Longrightarrow> int n \<le> MAX_SAFE"
proof (cases v)
  case (VNum x)
  assume "cursorPart v = Some n"
  with VNum show ?thesis by (auto elim: is_safe_integerE split: if_splits simp del: is_safe_integer.simps)
next
  case (VStr s)
  assume "cursorPart v = Some n"
  with VStr show ?thesis by (simp only: cursorPart_str decodeSegment_iff) simp
qed auto

lemma decodeSegment_string_of_nat [simp]:
  "decodeSegment (string_of_nat n) = (if int n \<le> MAX_SAFE then Some n else None)"
  by (cases "decodeSegment (string_of_nat n)") (auto simp: decodeSegment_iff,
      metis all_digits_string_of_nat decodeSegment_iff nat_of_digits_string_of_nat option.distinct(1))

lemma string_of_nat_no_dot: "CHR ''.'' \<notin> set (string_of_nat n)"
  by (rule digits_not_in) (simp_all add: is_digit_def string_of_nat_digits)

section \<open>Whole tokens\<close>

lemma split_token:
  assumes "ns \<noteq> []"
  shows "split_on (CHR ''.'') (join_with ''.'' (map string_of_nat ns)) = map string_of_nat ns"
  using assms by (intro split_on_join) (auto simp: string_of_nat_no_dot)

lemma token_nonempty: "ns \<noteq> [] \<Longrightarrow> join_with ''.'' (map string_of_nat ns) \<noteq> []"
  by (cases ns rule: remdups_adj.cases) auto

lemma decode_token:
  assumes "ns \<noteq> []" and "\<And>n. n \<in> set ns \<Longrightarrow> int n \<le> MAX_SAFE"
  shows "decodeCursor (VStr (join_with ''.'' (map string_of_nat ns))) (length ns) = Some ns"
  using assms token_nonempty [OF assms(1)]
  by (auto simp: decodeCursor_def split_token Let_def intro!: traverse_map_Some)

lemma encodeCursor_Some_iff:
  "encodeCursor ps = Some t \<longleftrightarrow>
     (\<exists>ns. ps \<noteq> [] \<and> traverse cursorPart ps = Some ns \<and> t = join_with ''.'' (map string_of_nat ns))"
  by (auto simp: encodeCursor_def split: option.splits)

lemma decode_encode:
  assumes "encodeCursor ps = Some t"
  shows "decodeCursor (VStr t) (length ps) = traverse cursorPart ps"
proof -
  from assms obtain ns where ns: "ps \<noteq> []" "traverse cursorPart ps = Some ns"
    "t = join_with ''.'' (map string_of_nat ns)"
    by (auto simp: encodeCursor_Some_iff)
  have len: "length ns = length ps" using ns(2) by (rule traverse_length)
  moreover have "int n \<le> MAX_SAFE" if "n \<in> set ns" for n
    using traverse_set [OF ns(2) that] cursorPart_safe by blast
  moreover have "ns \<noteq> []" using len ns(1) by auto
  ultimately show ?thesis using decode_token [of ns] ns by auto
qed

definition encode_arity :: "nat \<Rightarrow> jsval list \<Rightarrow> string option" where
  "encode_arity n ps = (if length ps = n then encodeCursor ps else None)"

interpretation cursor_codec: token_codec
  "encode_arity n" "\<lambda>t. decodeCursor (VStr t) n" "traverse cursorPart" for n
  by unfold_locales
    (auto simp: encode_arity_def decode_encode encodeCursor_Some_iff split: if_splits)

text \<open>
  A token decodes, at the arity it was built with, to exactly the integers its parts
  normalise to: no part is lost, reordered or rounded.
\<close>

theorem cursor_roundtrip:
  assumes "encodeCursor ps = Some t"
  shows "decodeCursor (VStr t) (length ps) = traverse cursorPart ps \<and> traverse cursorPart ps \<noteq> None"
  using cursor_codec.dec_enc [of "length ps" ps t] cursor_codec.norm_def [of "length ps" ps t] assms
  by (simp add: encode_arity_def)

theorem cursor_roundtrip_witness:
  "decodeCursor (VStr ''8759000.29'') 2 = Some [8759000, 29]"
proof -
  have s: "decodeSegment ''0029'' = Some 29"
    by (simp add: decodeSegment_code all_digits_def is_digit_def nat_of_digits_def digit_val_def MAX_SAFE_def)
  have t: "traverse cursorPart [VNum (js_int 8759000), VStr ''0029''] = Some [8759000, 29]"
    by (simp add: s MAX_SAFE_def del: cursorPart.simps(2) add: cursorPart_str)
  have e: "encodeCursor [VNum (js_int 8759000), VStr ''0029''] = Some ''8759000.29''"
    by (simp only: encodeCursor_def t)
      (simp add: string_of_nat.simps)
  show ?thesis using cursor_roundtrip [OF e, unfolded t] by (simp add: numeral_2_eq_2)
qed

end
