(* ===== verification/Block_Feed_Cursor.thy ===== *)
theory Block_Feed_Cursor
  imports Cursor
begin

text \<open>
  The block feed's cursor, \<^verbatim>\<open>src/block-feed-cursor.ts\<close>: the versioned token, the two legacy token
  shapes it still reads, and the SQL predicate that resumes the feed.  The predicate is text in
  the code; the lemmas read it as a formula with three-valued semantics and show that it keeps
  exactly the rows that follow the cursor in the feed's order.
\<close>

section \<open>Tokens\<close>

datatype cursor_mode = Height | LegacyHeight | Observed

record BlockFeedCursor =
  mode :: cursor_mode
  height :: "nat option"
  observed :: "nat option"
  source :: "nat option"
  ordinal :: "nat option"

record feed_row =
  block_number :: jsval
  observed_at :: jsval
  source_id :: jsval
  ordinal_id :: jsval

definition decodePiece :: "string \<Rightarrow> nat option option" where
  "decodePiece piece =
     (if piece = ''n'' then Some None
      else case decodeCursor (VStr piece) 1 of
             Some (number # _) \<Rightarrow> Some (Some number)
           | _ \<Rightarrow> None)"

definition heightCursor :: "nat option list \<Rightarrow> BlockFeedCursor option" where
  "heightCursor parts =
     (case parts of
        [h, t, s, r] \<Rightarrow>
          if (s = None) \<noteq> (r = None) \<or> h = None \<and> s = None then None
          else Some \<lparr>mode = Height, height = h, observed = t, source = s, ordinal = r\<rparr>
      | _ \<Rightarrow> None)"

definition decodeBlockFeedCursor :: "jsval \<Rightarrow> BlockFeedCursor option" where
  "decodeBlockFeedCursor raw =
     (case raw of
        VStr s \<Rightarrow>
          if take 4 s = ''bh1.'' then
            (let pieces = split_on (CHR ''.'') (drop 4 s)
             in if length pieces \<noteq> 4 then None
                else Option.bind (traverse decodePiece pieces) heightCursor)
          else
            (case decodeCursor raw 2 of
               Some pair \<Rightarrow>
                 Some \<lparr>mode = Observed, height = Some (pair ! 1), observed = Some (pair ! 0),
                       source = None, ordinal = None\<rparr>
             | None \<Rightarrow>
                 (case decodeCursor raw 1 of
                    Some single \<Rightarrow>
                      Some \<lparr>mode = LegacyHeight, height = Some (single ! 0), observed = None,
                            source = None, ordinal = None\<rparr>
                  | None \<Rightarrow> None))
      | _ \<Rightarrow> None)"

definition or_null :: "jsval \<Rightarrow> jsval" where
  "or_null v = (if is_nullish v then VNull else v)"

definition encodePiece :: "jsval \<Rightarrow> string option" where
  "encodePiece v = (if v = VNull then Some ''n'' else encodeCursor [v])"

definition encodeBlockFeedCursor ::
    "feed_row \<Rightarrow> BlockFeedCursor option \<Rightarrow> string option" where
  "encodeBlockFeedCursor row previous =
     (if map_option mode previous = Some Observed then
        encodeCursor [observed_at row, block_number row]
      else if map_option mode previous = Some LegacyHeight then encodeCursor [block_number row]
      else
        (let source = or_null (source_id row); ordinal = or_null (ordinal_id row)
         in if (source = VNull) \<noteq> (ordinal = VNull) \<or> is_nullish (block_number row) \<and> source = VNull
            then None
            else map_option (\<lambda>pieces. ''bh1.'' @ join_with ''.'' pieces)
                   (traverse encodePiece
                      [or_null (block_number row), or_null (observed_at row), source, ordinal])))"

definition opt_str :: "nat option \<Rightarrow> string" where
  "opt_str v = (case v of None \<Rightarrow> ''null'' | Some n \<Rightarrow> string_of_nat n)"

definition blockFeedSeek :: "BlockFeedCursor \<Rightarrow> string" where
  "blockFeedSeek c =
     (if mode c = Observed then
        ''(observed_at, block_number) < ('' @ opt_str (observed c) @ '', '' @ opt_str (height c) @ '')''
      else
        (let lower =
               (if height c = None then ''block_number IS NULL''
                else ''(block_number < '' @ opt_str (height c) @ '' OR block_number IS NULL)'')
         in if source c = None then lower
            else
              (let physical =
                     ''(b.source_id,b.ordinal) < ('' @ opt_str (source c) @ '','' @ opt_str (ordinal c) @ '')'';
                   sameTime =
                     (if observed c = None then
                        ''(observed_at IS NOT NULL OR (observed_at IS NULL AND '' @ physical @ ''))''
                      else
                        ''(observed_at > '' @ opt_str (observed c) @ '' OR (observed_at = ''
                        @ opt_str (observed c) @ '' AND '' @ physical @ ''))'');
                   sameHeight =
                     (if height c = None then ''block_number IS NULL''
                      else ''block_number = '' @ opt_str (height c))
               in if height c = None then ''('' @ sameHeight @ '' AND '' @ sameTime @ '')''
                  else ''('' @ lower @ '' OR ('' @ sameHeight @ '' AND '' @ sameTime @ ''))'')))"

section \<open>Reading the predicate\<close>

text \<open>
  A stored row as SQL sees it: two nullable integers and the physical identity, which is a key.
  A comparison with a null is unknown (\<^term>\<open>None\<close>), \<open>OR\<close> and \<open>AND\<close> are three-valued, and a
  \<open>WHERE\<close> keeps the rows where the formula is true.
\<close>

record stored_row =
  r_height :: "nat option"
  r_observed :: "nat option"
  r_source :: nat
  r_ordinal :: nat

datatype sql_pred =
    HeightIsNull
  | HeightLt nat
  | HeightEq nat
  | ObservedIsNull
  | ObservedNotNull
  | ObservedGt nat
  | ObservedEq nat
  | PhysicalLt nat nat
  | ObservedHeightLt nat nat
  | SqlOr sql_pred sql_pred
  | SqlAnd sql_pred sql_pred

fun render :: "sql_pred \<Rightarrow> string" where
  "render HeightIsNull = ''block_number IS NULL''"
| "render (HeightLt n) = ''block_number < '' @ string_of_nat n"
| "render (HeightEq n) = ''block_number = '' @ string_of_nat n"
| "render ObservedIsNull = ''observed_at IS NULL''"
| "render ObservedNotNull = ''observed_at IS NOT NULL''"
| "render (ObservedGt n) = ''observed_at > '' @ string_of_nat n"
| "render (ObservedEq n) = ''observed_at = '' @ string_of_nat n"
| "render (PhysicalLt s r) =
     ''(b.source_id,b.ordinal) < ('' @ string_of_nat s @ '','' @ string_of_nat r @ '')''"
| "render (ObservedHeightLt t h) =
     ''(observed_at, block_number) < ('' @ string_of_nat t @ '', '' @ string_of_nat h @ '')''"
| "render (SqlOr p q) = ''('' @ render p @ '' OR '' @ render q @ '')''"
| "render (SqlAnd p q) = ''('' @ render p @ '' AND '' @ render q @ '')''"

fun or3 :: "bool option \<Rightarrow> bool option \<Rightarrow> bool option" where
  "or3 (Some True) _ = Some True"
| "or3 _ (Some True) = Some True"
| "or3 (Some False) (Some False) = Some False"
| "or3 _ _ = None"

fun and3 :: "bool option \<Rightarrow> bool option \<Rightarrow> bool option" where
  "and3 (Some False) _ = Some False"
| "and3 _ (Some False) = Some False"
| "and3 (Some True) (Some True) = Some True"
| "and3 _ _ = None"

definition row_lt :: "nat option \<Rightarrow> nat option \<Rightarrow> nat \<Rightarrow> nat \<Rightarrow> bool option" where
  "row_lt a b x y =
     (case a of
        None \<Rightarrow> None
      | Some a' \<Rightarrow> if a' < x then Some True else if x < a' then Some False
                  else map_option (\<lambda>b'. b' < y) b)"

fun eval3 :: "stored_row \<Rightarrow> sql_pred \<Rightarrow> bool option" where
  "eval3 r HeightIsNull = Some (r_height r = None)"
| "eval3 r (HeightLt n) = map_option (\<lambda>h. h < n) (r_height r)"
| "eval3 r (HeightEq n) = map_option (\<lambda>h. h = n) (r_height r)"
| "eval3 r ObservedIsNull = Some (r_observed r = None)"
| "eval3 r ObservedNotNull = Some (r_observed r \<noteq> None)"
| "eval3 r (ObservedGt n) = map_option (\<lambda>t. n < t) (r_observed r)"
| "eval3 r (ObservedEq n) = map_option (\<lambda>t. t = n) (r_observed r)"
| "eval3 r (PhysicalLt s q) = row_lt (Some (r_source r)) (Some (r_ordinal r)) s q"
| "eval3 r (ObservedHeightLt t h) = row_lt (r_observed r) (r_height r) t h"
| "eval3 r (SqlOr p q) = or3 (eval3 r p) (eval3 r q)"
| "eval3 r (SqlAnd p q) = and3 (eval3 r p) (eval3 r q)"

definition keeps :: "sql_pred \<Rightarrow> stored_row \<Rightarrow> bool" where
  "keeps p r \<longleftrightarrow> eval3 r p = Some True"

lemma or3_True [simp]: "or3 a b = Some True \<longleftrightarrow> a = Some True \<or> b = Some True"
  by (cases "(a, b)" rule: or3.cases) auto

lemma and3_True [simp]: "and3 a b = Some True \<longleftrightarrow> a = Some True \<and> b = Some True"
  by (cases "(a, b)" rule: and3.cases) auto

lemma row_lt_True:
  "row_lt a b x y = Some True \<longleftrightarrow>
     (\<exists>a'. a = Some a' \<and> (a' < x \<or> a' = x \<and> (\<exists>b'. b = Some b' \<and> b' < y)))"
  by (auto simp: row_lt_def split: option.splits if_splits)

lemmas keeps_simps = keeps_def or3_True and3_True row_lt_True

text \<open>
  The feed's order: height descending with nulls last, observation ascending with nulls first,
  physical identity descending.
\<close>

definition precedes :: "stored_row \<Rightarrow> stored_row \<Rightarrow> bool" where
  "precedes a b \<longleftrightarrow>
     (case (r_height a, r_height b) of
        (Some x, Some y) \<Rightarrow> y < x
      | (Some _, None) \<Rightarrow> True
      | (None, _) \<Rightarrow> False) \<or>
     r_height a = r_height b \<and>
     ((case (r_observed a, r_observed b) of
         (Some x, Some y) \<Rightarrow> x < y
       | (None, Some _) \<Rightarrow> True
       | (_, None) \<Rightarrow> False) \<or>
      r_observed a = r_observed b \<and>
      (r_source b < r_source a \<or> r_source b = r_source a \<and> r_ordinal b < r_ordinal a))"

definition seekPred :: "BlockFeedCursor \<Rightarrow> sql_pred" where
  "seekPred c =
     (let lower = (case height c of None \<Rightarrow> HeightIsNull | Some h \<Rightarrow> SqlOr (HeightLt h) HeightIsNull);
          physical = PhysicalLt (the (source c)) (the (ordinal c));
          sameTime = (case observed c of
             None \<Rightarrow> SqlOr ObservedNotNull (SqlAnd ObservedIsNull physical)
           | Some t \<Rightarrow> SqlOr (ObservedGt t) (SqlAnd (ObservedEq t) physical));
          sameHeight = (case height c of None \<Rightarrow> HeightIsNull | Some h \<Rightarrow> HeightEq h)
      in if mode c = Observed then ObservedHeightLt (the (observed c)) (the (height c))
         else if source c = None then lower
         else if height c = None then SqlAnd sameHeight sameTime
         else SqlOr lower (SqlAnd sameHeight sameTime))"

definition wf_cursor :: "BlockFeedCursor \<Rightarrow> bool" where
  "wf_cursor c \<longleftrightarrow>
     (source c = None \<longleftrightarrow> ordinal c = None) \<and> (height c \<noteq> None \<or> source c \<noteq> None) \<and>
     (mode c = Observed \<longrightarrow> observed c \<noteq> None \<and> height c \<noteq> None)"

lemma render_seekPred: "wf_cursor c \<Longrightarrow> blockFeedSeek c = render (seekPred c)"
  by (cases "mode c"; cases "height c"; cases "observed c"; cases "source c"; cases "ordinal c")
    (simp_all add: blockFeedSeek_def seekPred_def wf_cursor_def opt_str_def)


section \<open>What a page keeps\<close>

lemma keeps_lower_null [simp]: "keeps HeightIsNull r \<longleftrightarrow> r_height r = None"
  by (simp add: keeps_def)

lemma keeps_physical [simp]:
  "keeps (PhysicalLt s q) r \<longleftrightarrow> r_source r < s \<or> r_source r = s \<and> r_ordinal r < q"
  by (simp add: keeps_def row_lt_True)

lemma keeps_or [simp]: "keeps (SqlOr p q) r \<longleftrightarrow> keeps p r \<or> keeps q r"
  by (simp add: keeps_def)

lemma keeps_and [simp]: "keeps (SqlAnd p q) r \<longleftrightarrow> keeps p r \<and> keeps q r"
  by (simp add: keeps_def)

lemma keeps_atoms [simp]:
  "keeps (HeightLt n) r \<longleftrightarrow> (\<exists>h. r_height r = Some h \<and> h < n)"
  "keeps (HeightEq n) r \<longleftrightarrow> r_height r = Some n"
  "keeps ObservedIsNull r \<longleftrightarrow> r_observed r = None"
  "keeps ObservedNotNull r \<longleftrightarrow> r_observed r \<noteq> None"
  "keeps (ObservedGt n) r \<longleftrightarrow> (\<exists>t. r_observed r = Some t \<and> n < t)"
  "keeps (ObservedEq n) r \<longleftrightarrow> r_observed r = Some n"
  by (auto simp: keeps_def)

definition cursor_at :: "stored_row \<Rightarrow> BlockFeedCursor" where
  "cursor_at r =
     \<lparr>mode = Height, height = r_height r, observed = r_observed r,
      source = Some (r_source r), ordinal = Some (r_ordinal r)\<rparr>"

lemma wf_cursor_at: "wf_cursor (cursor_at r)"
  by (simp add: wf_cursor_def cursor_at_def)

lemma keeps_seekPred: "keeps (seekPred (cursor_at r)) x \<longleftrightarrow> precedes r x"
  by (cases "r_height r"; cases "r_observed r"; cases "r_height x"; cases "r_observed x")
    (auto simp: seekPred_def cursor_at_def precedes_def)

text \<open>
  C20. Resuming the feed at the cursor of a row keeps exactly the rows that follow it in the
  feed's order, nulls included: the text the code emits is that formula, so a page neither
  repeats nor skips a row.
\<close>

theorem seek_keeps_following_rows:
  "\<exists>p. blockFeedSeek (cursor_at r) = render p \<and> (\<forall>x. keeps p x \<longleftrightarrow> precedes r x)"
  using render_seekPred [OF wf_cursor_at] keeps_seekPred by blast

lemma precedes_irrefl: "\<not> precedes r r"
  by (auto simp: precedes_def split: option.splits)

lemma precedes_trans: "precedes a b \<Longrightarrow> precedes b c \<Longrightarrow> precedes a c"
  by (auto simp: precedes_def split: option.splits)

lemma precedes_total:
  "(r_height a, r_observed a, r_source a, r_ordinal a) \<noteq>
     (r_height b, r_observed b, r_source b, r_ordinal b) \<Longrightarrow> precedes a b \<or> precedes b a"
  by (auto simp: precedes_def split: option.splits)

section \<open>Round trip\<close>

definition nat_val :: "nat option \<Rightarrow> jsval" where
  "nat_val v = (case v of None \<Rightarrow> VNull | Some n \<Rightarrow> VNum (js_int (int n)))"

definition row_values :: "stored_row \<Rightarrow> feed_row" where
  "row_values r =
     \<lparr>block_number = nat_val (r_height r), observed_at = nat_val (r_observed r),
      source_id = nat_val (Some (r_source r)), ordinal_id = nat_val (Some (r_ordinal r))\<rparr>"

definition safe_row :: "stored_row \<Rightarrow> bool" where
  "safe_row r \<longleftrightarrow>
     list_all (\<lambda>v. case v of None \<Rightarrow> True | Some n \<Rightarrow> int n \<le> MAX_SAFE)
       [r_height r, r_observed r, Some (r_source r), Some (r_ordinal r)]"

definition piece_str :: "nat option \<Rightarrow> string" where
  "piece_str v = (case v of None \<Rightarrow> ''n'' | Some n \<Rightarrow> string_of_nat n)"

lemma encodeCursor_single [simp]:
  "int n \<le> MAX_SAFE \<Longrightarrow> encodeCursor [VNum (js_int (int n))] = Some (string_of_nat n)"
  by (simp add: encodeCursor_def)

lemma decodeCursor_single [simp]:
  "int n \<le> MAX_SAFE \<Longrightarrow> decodeCursor (VStr (string_of_nat n)) (Suc 0) = Some [n]"
  using decode_token [of "[n]"] by simp

lemma string_of_nat_not_n [simp]: "string_of_nat n \<noteq> ''n''"
  using string_of_nat_digits [of n] by (auto simp: is_digit_def)

definition safe_opt :: "nat option \<Rightarrow> bool" where
  "safe_opt v \<longleftrightarrow> (case v of None \<Rightarrow> True | Some n \<Rightarrow> int n \<le> MAX_SAFE)"

lemma encodePiece_nat_val: "safe_opt v \<Longrightarrow> encodePiece (nat_val v) = Some (piece_str v)"
  by (cases v) (simp_all add: encodePiece_def nat_val_def piece_str_def safe_opt_def)

lemma decodePiece_piece_str: "safe_opt v \<Longrightarrow> decodePiece (piece_str v) = Some v"
  by (cases v) (simp_all add: decodePiece_def piece_str_def safe_opt_def)

lemma piece_str_no_dot: "CHR ''.'' \<notin> set (piece_str v)"
  by (cases v) (auto simp: piece_str_def string_of_nat_no_dot)

lemma or_null_nat_val [simp]: "or_null (nat_val v) = nat_val v"
  by (cases v) (simp_all add: or_null_def nat_val_def)

lemma nat_val_null [simp]: "nat_val v = VNull \<longleftrightarrow> v = None" "is_nullish (nat_val v) \<longleftrightarrow> v = None"
  by (cases v; simp add: nat_val_def)+

lemma safe_row_opts:
  "safe_row r \<Longrightarrow> safe_opt (r_height r) \<and> safe_opt (r_observed r) \<and>
     safe_opt (Some (r_source r)) \<and> safe_opt (Some (r_ordinal r))"
  by (auto simp: safe_row_def safe_opt_def split: option.splits)

lemma encode_row:
  assumes "safe_row r" and "map_option mode prev \<noteq> Some Observed"
    and "map_option mode prev \<noteq> Some LegacyHeight"
  shows "encodeBlockFeedCursor (row_values r) prev =
     Some (''bh1.'' @ join_with ''.'' (map piece_str
       [r_height r, r_observed r, Some (r_source r), Some (r_ordinal r)]))"
  using assms(2,3) safe_row_opts [OF assms(1)]
  unfolding encodeBlockFeedCursor_def
  by (simp only: if_False) (simp add: row_values_def Let_def encodePiece_nat_val)

lemma decode_row:
  assumes "safe_row r"
  shows "decodeBlockFeedCursor (VStr (''bh1.'' @ join_with ''.'' (map piece_str
       [r_height r, r_observed r, Some (r_source r), Some (r_ordinal r)]))) = Some (cursor_at r)"
proof -
  let ?ps = "[r_height r, r_observed r, Some (r_source r), Some (r_ordinal r)]"
  have s: "split_on (CHR ''.'') (join_with ''.'' (map piece_str ?ps)) = map piece_str ?ps"
    by (rule split_on_join) (auto simp: piece_str_no_dot)
  have t: "traverse decodePiece (map piece_str ?ps) = Some ?ps"
    using safe_row_opts [OF assms] by (intro traverse_map_Some) (auto simp: decodePiece_piece_str)
  have "decodeBlockFeedCursor (VStr (''bh1.'' @ join_with ''.'' (map piece_str ?ps))) =
      Option.bind (traverse decodePiece (map piece_str ?ps)) heightCursor"
    unfolding decodeBlockFeedCursor_def by (simp add: Let_def s del: join_with.simps list.map)
  also have "\<dots> = Some (cursor_at r)"
    by (simp only: t) (simp add: heightCursor_def cursor_at_def)
  finally show ?thesis .
qed

text \<open>
  The token the feed hands out for the last row of a page reads back as that row's
  position, null height and null observation included, on the current token version.
\<close>

theorem feed_cursor_roundtrip:
  assumes "safe_row r" and "prev = None \<or> mode (the prev) = Height"
  shows "Option.bind (encodeBlockFeedCursor (row_values r) prev) (\<lambda>t. decodeBlockFeedCursor (VStr t))
      = Some (cursor_at r)"
proof -
  have m: "map_option mode prev \<noteq> Some Observed" "map_option mode prev \<noteq> Some LegacyHeight"
    using assms(2) by (cases prev; auto)+
  show ?thesis
    by (simp only: encode_row [OF assms(1) m] decode_row [OF assms(1)] Option.bind.bind_lunit)
qed

theorem feed_cursor_roundtrip_witness:
  "Option.bind (encodeBlockFeedCursor
       (row_values \<lparr>r_height = Some 8759000, r_observed = None, r_source = 7, r_ordinal = 0\<rparr>) None)
     (\<lambda>t. decodeBlockFeedCursor (VStr t))
   = Some \<lparr>mode = Height, height = Some 8759000, observed = None, source = Some 7, ordinal = Some 0\<rparr>"
proof -
  have "safe_row \<lparr>r_height = Some 8759000, r_observed = None, r_source = 7, r_ordinal = 0\<rparr>"
    by (simp add: safe_row_def MAX_SAFE_def)
  from feed_cursor_roundtrip [OF this, of None] show ?thesis by (simp add: cursor_at_def)
qed

end
