(* ===== verification/Ss58.thy ===== *)
theory Ss58
  imports Js_Prelude
begin

text \<open>
  The SS58 address codec, \<^verbatim>\<open>src/ss58.ts\<close>.  Bytes are naturals, stored modulo 256 as a byte array
  stores them.  \<open>blake2b\<close> is a third-party package: it is an argument of every definition that
  uses it, and the round trips rely on its documented output (64 bytes).
\<close>

section \<open>Base 58\<close>

definition BASE58_ALPHABET :: string where
  "BASE58_ALPHABET = ''123456789ABCDEFGHJKLMNPQRSTUVWXYZabcdefghijkmnopqrstuvwxyz''"

definition SS58_PREIMAGE :: "nat list" where
  "SS58_PREIMAGE = map of_char ''SS58PRE''"

definition DEFAULT_SS58_PREFIX :: nat where
  "DEFAULT_SS58_PREFIX = 42"

definition SS58_ACCOUNT_ID32_BYTE_LENGTH :: nat where
  "SS58_ACCOUNT_ID32_BYTE_LENGTH = 35"

definition to_byte :: "nat \<Rightarrow> nat" where
  "to_byte n = n mod 256"

function base58_loop :: "nat \<Rightarrow> string \<Rightarrow> string" where
  "base58_loop num out =
     (if 0 < num then base58_loop (num div 58) (BASE58_ALPHABET ! (num mod 58) # out) else out)"
  by pat_completeness auto
termination
  by (relation "measure fst") auto

declare base58_loop.simps [simp del]

definition bytes_number :: "nat list \<Rightarrow> nat" where
  "bytes_number bytes = foldl (\<lambda>num b. Bit_Operations.or (push_bit 8 num) b) 0 bytes"

definition encodeBase58 :: "nat list \<Rightarrow> string" where
  "encodeBase58 bytes = base58_loop (bytes_number bytes) []"

fun index_of :: "'a \<Rightarrow> 'a list \<Rightarrow> nat option" where
  "index_of c [] = None"
| "index_of c (x # xs) = (if x = c then Some 0 else map_option Suc (index_of c xs))"

fun base58_number :: "nat \<Rightarrow> string \<Rightarrow> nat option" where
  "base58_number num [] = Some num"
| "base58_number num (c # cs) =
     (case index_of c BASE58_ALPHABET of
        None \<Rightarrow> None
      | Some index \<Rightarrow> base58_number (num * 58 + index) cs)"

fun number_bytes :: "nat \<Rightarrow> nat \<Rightarrow> nat list \<Rightarrow> nat list \<times> nat" where
  "number_bytes 0 num bytes = (bytes, num)"
| "number_bytes (Suc i) num bytes =
     number_bytes i (drop_bit 8 num) (Bit_Operations.and num 255 # bytes)"

definition decodeBase58 :: "string \<Rightarrow> nat \<Rightarrow> nat list option" where
  "decodeBase58 str byteLength =
     (case base58_number 0 str of
        None \<Rightarrow> None
      | Some num \<Rightarrow>
          (let (bytes, rest) = number_bytes byteLength num []
           in if rest = 0 then Some bytes else None))"

section \<open>Addresses\<close>

definition encodeAccountId32 :: "(nat list \<Rightarrow> nat list) \<Rightarrow> nat list \<Rightarrow> nat \<Rightarrow> string option" where
  "encodeAccountId32 blake2b accountIdBytes prefix =
     (let bytes = map to_byte accountIdBytes
      in if length bytes \<noteq> 32 then None
         else (let payload = to_byte prefix # bytes;
                   hash = blake2b (SS58_PREIMAGE @ payload)
               in Some (encodeBase58 (payload @ [to_byte (hash ! 0), to_byte (hash ! 1)]))))"

definition decodeSs58 :: "(nat list \<Rightarrow> nat list) \<Rightarrow> jsval \<Rightarrow> (nat \<times> nat list) option" where
  "decodeSs58 blake2b address =
     (case address of
        VStr a \<Rightarrow>
          if a = [] then None
          else (case decodeBase58 a SS58_ACCOUNT_ID32_BYTE_LENGTH of
                  None \<Rightarrow> None
                | Some decoded \<Rightarrow>
                    (let payload = take 33 decoded;
                         checksum = drop 33 decoded;
                         hash = blake2b (SS58_PREIMAGE @ payload)
                     in if hash ! 0 \<noteq> checksum ! 0 \<or> hash ! 1 \<noteq> checksum ! 1 then None
                        else Some (payload ! 0, drop 1 payload)))
      | _ \<Rightarrow> None)"

section \<open>Account fields in decoded chain data\<close>

fun byte_value :: "json \<Rightarrow> nat option" where
  "byte_value (JVal (VNum n)) =
     (if is_integer_num n \<and> 0 \<le> num_int n \<and> num_int n \<le> 255 then Some (nat (num_int n)) else None)"
| "byte_value _ = None"

text \<open>The type predicates return the bytes they establish.\<close>

definition isByteArray :: "json \<Rightarrow> nat \<Rightarrow> nat list option" where
  "isByteArray v len =
     (case v of JArr xs \<Rightarrow> if length xs = len then traverse byte_value xs else None | _ \<Rightarrow> None)"

definition unwrapAccountId32Newtype :: "json \<Rightarrow> nat list option" where
  "unwrapAccountId32Newtype v = (case v of JArr [x] \<Rightarrow> isByteArray x 32 | _ \<Rightarrow> None)"

definition unwrapMultiAddressId :: "json \<Rightarrow> nat list option" where
  "unwrapMultiAddressId v =
     (case v of
        JObj _ \<Rightarrow>
          if get_prop v ''name'' \<noteq> JStr ''Id'' then None
          else (case get_prop v ''values'' of
                  JArr [x] \<Rightarrow> unwrapAccountId32Newtype x
                | _ \<Rightarrow> None)
      | _ \<Rightarrow> None)"

definition normalizeAccountId32Field ::
    "(nat list \<Rightarrow> nat list) \<Rightarrow> json \<Rightarrow> nat \<Rightarrow> string option" where
  "normalizeAccountId32Field blake2b v prefix =
     (case isByteArray v 32 of
        Some bytes \<Rightarrow> encodeAccountId32 blake2b bytes prefix
      | None \<Rightarrow>
          (case (case unwrapAccountId32Newtype v of
                   Some u \<Rightarrow> Some u | None \<Rightarrow> unwrapMultiAddressId v) of
             Some unwrapped \<Rightarrow> encodeAccountId32 blake2b unwrapped prefix
           | None \<Rightarrow> None))"

section \<open>Base 58 is positional notation\<close>

abbreviation bytes_ok :: "nat list \<Rightarrow> bool" where
  "bytes_ok bs \<equiv> list_all (\<lambda>b. b < 256) bs"

lemma or_byte: "b < 256 \<Longrightarrow> Bit_Operations.or (push_bit 8 num) b = num * 256 + (b :: nat)"
proof -
  assume "b < 256"
  then have "take_bit 8 b = b" by (simp add: take_bit_nat_eq_self_iff)
  moreover have "Bit_Operations.and (push_bit 8 num) (take_bit 8 b) = 0"
    by (rule bit_eqI) (auto simp: bit_simps)
  ultimately show ?thesis
    by (simp add: disjunctive_add_eq_or [symmetric] push_bit_eq_mult)
qed

lemma and_255: "Bit_Operations.and num (255 :: nat) = num mod 256"
proof -
  have "Bit_Operations.and num (255 :: nat) = take_bit 8 num"
    by (simp add: take_bit_eq_mask mask_eq_exp_minus_1)
  then show ?thesis by (simp add: take_bit_eq_mod)
qed

lemma bytes_number_snoc:
  "b < 256 \<Longrightarrow> bytes_number (bs @ [b]) = bytes_number bs * 256 + b"
  by (simp add: bytes_number_def or_byte)

lemma number_bytes_eq:
  "bytes_ok bs \<Longrightarrow> number_bytes (length bs) (bytes_number bs) acc = (bs @ acc, 0)"
proof (induction bs arbitrary: acc rule: rev_induct)
  case Nil
  then show ?case by (simp add: bytes_number_def)
next
  case (snoc b bs)
  then show ?case
    by (simp add: bytes_number_snoc and_255 drop_bit_eq_div)
qed

lemma number_bytes_inv:
  "number_bytes k num acc = (bs, 0) \<Longrightarrow>
     \<exists>ds. bs = ds @ acc \<and> length ds = k \<and> bytes_ok ds \<and> bytes_number ds = num"
proof (induction k arbitrary: num acc)
  case 0
  then show ?case by (simp add: bytes_number_def)
next
  case (Suc k)
  then obtain ds where "bs = ds @ num mod 256 # acc" "length ds = k" "bytes_ok ds"
    "bytes_number ds = num div 256"
    by (auto simp: and_255 drop_bit_eq_div)
  then show ?case
    by (intro exI [of _ "ds @ [num mod 256]"]) (simp add: bytes_number_snoc)
qed

lemma index_of_nth: "index_of c xs = Some i \<Longrightarrow> i < length xs \<and> xs ! i = c"
  by (induction xs arbitrary: i) (auto split: if_splits)

lemma index_of_distinct: "distinct xs \<Longrightarrow> i < length xs \<Longrightarrow> index_of (xs ! i) xs = Some i"
  by (induction xs arbitrary: i) (auto simp: nth_Cons split: nat.split)

lemma alphabet [simp]: "length BASE58_ALPHABET = 58" "distinct BASE58_ALPHABET"
  by (simp_all add: BASE58_ALPHABET_def)

lemma alphabet_one: "BASE58_ALPHABET ! 0 = CHR ''1''"
  by (simp add: BASE58_ALPHABET_def)

lemma base58_number_loop: "base58_number 0 (base58_loop num out) = base58_number num out"
proof (induction num out rule: base58_loop.induct)
  case (1 num out)
  show ?case
  proof (cases "0 < num")
    case True
    have "base58_number 0 (base58_loop num out) =
        base58_number (num div 58) (BASE58_ALPHABET ! (num mod 58) # out)"
      using 1 True by (simp add: base58_loop.simps [of num])
    then show ?thesis by (simp add: index_of_distinct)
  next
    case False
    then show ?thesis by (simp add: base58_loop.simps [of 0])
  qed
qed

lemma base58_loop_number:
  "0 < acc \<Longrightarrow> base58_number acc s = Some num \<Longrightarrow> base58_loop num out = base58_loop acc (s @ out)"
proof (induction s arbitrary: acc)
  case (Cons c cs)
  then obtain i where i: "index_of c BASE58_ALPHABET = Some i"
    by (auto split: option.splits)
  then have "i < 58" and c: "BASE58_ALPHABET ! i = c" using index_of_nth by fastforce+
  have "base58_loop num out = base58_loop (acc * 58 + i) (cs @ out)"
    using Cons i by (intro Cons.IH) auto
  also have "\<dots> = base58_loop acc (c # cs @ out)"
    using \<open>i < 58\<close> Cons.prems(1) c by (subst base58_loop.simps) simp
  finally show ?case by simp
qed simp

text \<open>The digits of a decoded string are the string without its leading ones.\<close>

lemma base58_canonical:
  "base58_number 0 s = Some num \<Longrightarrow> base58_loop num [] = dropWhile (\<lambda>c. c = CHR ''1'') s"
proof (induction s)
  case Nil
  then show ?case by (simp add: base58_loop.simps)
next
  case (Cons c cs)
  then obtain i where i: "index_of c BASE58_ALPHABET = Some i"
    and v: "base58_number i cs = Some num" by (auto split: option.splits)
  then have "i < 58" and c: "BASE58_ALPHABET ! i = c" using index_of_nth by fastforce+
  show ?case
  proof (cases "i = 0")
    case True
    then show ?thesis using Cons.IH v c alphabet_one by auto
  next
    case False
    then have ne: "c \<noteq> CHR ''1''"
      using i index_of_distinct [of BASE58_ALPHABET 0] alphabet_one by auto
    have "base58_loop num [] = base58_loop i (cs @ [])"
      using False v by (intro base58_loop_number) auto
    also have "\<dots> = c # cs"
      using False \<open>i < 58\<close> c by (simp add: base58_loop.simps [of i] base58_loop.simps [of 0])
    finally show ?thesis using ne by simp
  qed
qed

lemma decodeBase58_encodeBase58:
  "bytes_ok bs \<Longrightarrow> decodeBase58 (encodeBase58 bs) (length bs) = Some bs"
  by (simp add: decodeBase58_def encodeBase58_def base58_number_loop number_bytes_eq)

lemma decodeBase58_Some:
  assumes "decodeBase58 s k = Some bs"
  shows "length bs = k \<and> bytes_ok bs \<and> encodeBase58 bs = dropWhile (\<lambda>c. c = CHR ''1'') s"
proof -
  obtain num where n: "base58_number 0 s = Some num" and "number_bytes k num [] = (bs, 0)"
    using assms by (auto simp: decodeBase58_def split: option.splits prod.splits if_splits)
  then have "length bs = k" "bytes_ok bs" "bytes_number bs = num"
    using number_bytes_inv [of k num "[]" bs] by auto
  then show ?thesis using base58_canonical [OF n] by (simp add: encodeBase58_def)
qed

lemma encodeBase58_nonempty: "bytes_ok bs \<Longrightarrow> 0 < bytes_number bs \<Longrightarrow> encodeBase58 bs \<noteq> []"
  using base58_number_loop [of "bytes_number bs" "[]"] by (auto simp: encodeBase58_def)

lemma bytes_number_pos: "bytes_ok bs \<Longrightarrow> b \<in> set bs \<Longrightarrow> 0 < b \<Longrightarrow> 0 < bytes_number bs"
  by (induction bs rule: rev_induct) (auto simp: bytes_number_snoc)


section \<open>Address round trips\<close>

text \<open>What the hash package documents: 64 output bytes.\<close>

definition hash_ok :: "(nat list \<Rightarrow> nat list) \<Rightarrow> bool" where
  "hash_ok blake2b \<longleftrightarrow> (\<forall>x. length (blake2b x) = 64 \<and> bytes_ok (blake2b x))"

definition address_bytes :: "(nat list \<Rightarrow> nat list) \<Rightarrow> nat \<Rightarrow> nat list \<Rightarrow> nat list" where
  "address_bytes blake2b prefix key =
     (let h = blake2b (SS58_PREIMAGE @ prefix # key) in (prefix # key) @ [h ! 0, h ! 1])"

lemma to_byte_id [simp]: "b < 256 \<Longrightarrow> to_byte b = b"
  by (simp add: to_byte_def)

lemma map_to_byte [simp]: "bytes_ok bs \<Longrightarrow> map to_byte bs = bs"
  by (induction bs) auto

lemma hash_ok_nth: "hash_ok h \<Longrightarrow> i < 64 \<Longrightarrow> h x ! i < 256"
  by (auto simp: hash_ok_def list_all_length)

lemma encodeAccountId32_eq:
  assumes "hash_ok h" "length key = 32" "bytes_ok key" "prefix < 256"
  shows "encodeAccountId32 h key prefix = Some (encodeBase58 (address_bytes h prefix key))"
  using assms by (simp add: encodeAccountId32_def address_bytes_def hash_ok_nth Let_def)

lemma address_bytes_ok:
  assumes "hash_ok h" "length key = 32" "bytes_ok key" "prefix < 256"
  shows "bytes_ok (address_bytes h prefix key)" "length (address_bytes h prefix key) = 35"
  using assms by (simp_all add: address_bytes_def hash_ok_nth Let_def)

lemma decode_address:
  assumes "decodeBase58 a 35 = Some (address_bytes h prefix key)" "a \<noteq> []" "length key = 32"
  shows "decodeSs58 h (VStr a) = Some (prefix, key)"
  using assms
  by (simp add: decodeSs58_def SS58_ACCOUNT_ID32_BYTE_LENGTH_def address_bytes_def Let_def)

lemma decodeSs58_Some:
  assumes "decodeSs58 h (VStr a) = Some (prefix, key)"
  shows "decodeBase58 a 35 = Some (address_bytes h prefix key)" "length key = 32"
    "bytes_ok key" "prefix < 256"
proof -
  obtain d where d: "decodeBase58 a 35 = Some d"
    "h (SS58_PREIMAGE @ take 33 d) ! 0 = drop 33 d ! 0" "h (SS58_PREIMAGE @ take 33 d) ! 1 = drop 33 d ! 1"
    "prefix = take 33 d ! 0" "key = drop 1 (take 33 d)"
    using assms
    by (auto simp: decodeSs58_def SS58_ACCOUNT_ID32_BYTE_LENGTH_def Let_def split: if_splits option.splits)
  have len: "length d = 35" and ok: "bytes_ok d"
    using decodeBase58_Some [OF d(1)] by auto
  have p: "take 33 d = prefix # key" using len d(4,5) by (cases d) auto
  have "drop 33 d = [drop 33 d ! 0, drop 33 d ! 1]"
    using len by (intro nth_equalityI) (auto simp: less_Suc_eq numeral_2_eq_2)
  then have "d = address_bytes h prefix key"
    using d(2,3) append_take_drop_id [of 33 d] by (simp add: address_bytes_def p Let_def)
  with d(1) show "decodeBase58 a 35 = Some (address_bytes h prefix key)" by simp
  show "length key = 32" using len d(5) by simp
  have "bytes_ok (take 33 d)" using ok by (auto simp: list_all_iff dest: in_set_takeD)
  then show "bytes_ok key" "prefix < 256" by (simp_all add: p)
qed

lemma decode_encode_address:
  assumes "hash_ok h" "bytes_ok key" "0 < prefix" "prefix < 256" "encodeAccountId32 h key prefix = Some a"
  shows "decodeSs58 h (VStr a) = Some (prefix, key)"
proof -
  have len: "length key = 32"
    using assms(5) by (auto simp: encodeAccountId32_def Let_def split: if_splits)
  note eq = encodeAccountId32_eq [OF assms(1) len assms(2,4)]
  note ok = address_bytes_ok [OF assms(1) len assms(2,4)]
  have "prefix \<in> set (address_bytes h prefix key)" by (simp add: address_bytes_def Let_def)
  then have "0 < bytes_number (address_bytes h prefix key)"
    using bytes_number_pos [OF ok(1)] assms(3) by blast
  then have "a \<noteq> []" using encodeBase58_nonempty [OF ok(1)] eq assms(5) by auto
  then show ?thesis
    using decodeBase58_encodeBase58 [OF ok(1)] ok(2) eq assms(5) len by (auto intro: decode_address)
qed

definition encode_ok ::
    "(nat list \<Rightarrow> nat list) \<Rightarrow> nat \<times> nat list \<Rightarrow> string option" where
  "encode_ok h x =
     (if hash_ok h \<and> bytes_ok (snd x) \<and> 0 < fst x \<and> fst x < 256
      then encodeAccountId32 h (snd x) (fst x) else None)"

interpretation ss58_codec: token_codec "encode_ok h" "\<lambda>a. decodeSs58 h (VStr a)" Some for h
  by unfold_locales (auto simp: encode_ok_def decode_encode_address split: if_splits)

text \<open>
  An address the encoder writes decodes to the prefix and the 32 account bytes it was
  written from, for every non-zero network prefix.
\<close>

theorem ss58_roundtrip:
  assumes "hash_ok blake2b" "bytes_ok key" "0 < prefix" "prefix < 256"
    and "encodeAccountId32 blake2b key prefix = Some a"
  shows "decodeSs58 blake2b (VStr a) = Some (prefix, key)"
  using ss58_codec.dec_enc [of blake2b "(prefix, key)" a] assms by (simp add: encode_ok_def)

definition sample_hash :: "nat list \<Rightarrow> nat list" where
  "sample_hash x = replicate 63 7 @ [sum_list x mod 256]"

lemma hash_ok_sample: "hash_ok sample_hash"
  by (simp add: hash_ok_def sample_hash_def list_all_iff)

theorem ss58_roundtrip_witness:
  "\<exists>a. encodeAccountId32 sample_hash (replicate 32 5) 42 = Some a
     \<and> decodeSs58 sample_hash (VStr a) = Some (42, replicate 32 5)"
proof -
  have k: "bytes_ok (replicate 32 5)" by (simp add: list_all_iff)
  have e: "encodeAccountId32 sample_hash (replicate 32 5) 42 =
      Some (encodeBase58 (address_bytes sample_hash 42 (replicate 32 5)))"
    by (rule encodeAccountId32_eq [OF hash_ok_sample _ k]) simp_all
  show ?thesis using ss58_roundtrip [OF hash_ok_sample k _ _ e] e by simp
qed

text \<open>
  An accepted address is the canonical one up to leading ones: what the decoder returns
  encodes to the address without its leading \<open>1\<close> characters, which the decoder ignores.
\<close>

theorem ss58_decode_canonical:
  assumes "hash_ok blake2b" "decodeSs58 blake2b (VStr a) = Some (prefix, key)"
  shows "encodeAccountId32 blake2b key prefix = Some (dropWhile (\<lambda>c. c = CHR ''1'') a)
     \<and> decodeSs58 blake2b (VStr (CHR ''1'' # a)) = Some (prefix, key)"
proof -
  note d = decodeSs58_Some [OF assms(2)]
  have "encodeBase58 (address_bytes blake2b prefix key) = dropWhile (\<lambda>c. c = CHR ''1'') a"
    using decodeBase58_Some [OF d(1)] by blast
  then have e: "encodeAccountId32 blake2b key prefix = Some (dropWhile (\<lambda>c. c = CHR ''1'') a)"
    using encodeAccountId32_eq [OF assms(1) d(2,3,4)] by simp
  have "index_of (CHR ''1'') BASE58_ALPHABET = Some 0" by (simp add: BASE58_ALPHABET_def)
  then have "decodeBase58 (CHR ''1'' # a) 35 = decodeBase58 a 35"
    by (simp add: decodeBase58_def)
  then have "decodeSs58 blake2b (VStr (CHR ''1'' # a)) = Some (prefix, key)"
    using d(1,2) by (intro decode_address) auto
  with e show ?thesis by simp
qed

theorem ss58_decode_canonical_witness:
  "\<exists>a. decodeSs58 sample_hash (VStr (CHR ''1'' # a)) = Some (42, replicate 32 5)"
proof -
  have k: "bytes_ok (replicate 32 5)" by (simp add: list_all_iff)
  have e: "encodeAccountId32 sample_hash (replicate 32 5) 42 =
      Some (encodeBase58 (address_bytes sample_hash 42 (replicate 32 5)))"
    by (rule encodeAccountId32_eq [OF hash_ok_sample _ k]) simp_all
  have "decodeSs58 sample_hash (VStr (encodeBase58 (address_bytes sample_hash 42 (replicate 32 5))))
      = Some (42, replicate 32 5)"
    by (rule decode_encode_address [OF hash_ok_sample k _ _ e]) simp_all
  from ss58_decode_canonical [OF hash_ok_sample this] show ?thesis by blast
qed

lemma isByteArray_Some:
  "isByteArray v n = Some bs \<Longrightarrow> length bs = n \<and> bytes_ok bs"
proof -
  assume a: "isByteArray v n = Some bs"
  then obtain xs where xs: "length xs = n" "traverse byte_value xs = Some bs"
    by (auto simp: isByteArray_def split: json.splits if_splits)
  have "b < 256" if b: "b \<in> set bs" for b
  proof -
    obtain x where "byte_value x = Some b" using traverse_set [OF xs(2) b] by blast
    then show ?thesis by (cases x rule: byte_value.cases) (auto split: if_splits)
  qed
  then show ?thesis using xs traverse_length by (auto simp: list_all_iff)
qed

lemma unwrap_lengths:
  "unwrapAccountId32Newtype v = Some bs \<Longrightarrow> length bs = 32"
  "unwrapMultiAddressId v = Some bs \<Longrightarrow> length bs = 32"
  by (auto simp: unwrapAccountId32Newtype_def unwrapMultiAddressId_def dest!: isByteArray_Some
      split: json.splits list.splits if_splits)

lemma encodeAccountId32_None_iff: "encodeAccountId32 h bs p = None \<longleftrightarrow> length bs \<noteq> 32"
  by (simp add: encodeAccountId32_def Let_def)

lemma normalizeAccountId32Field_Some_iff:
  "normalizeAccountId32Field h v p \<noteq> None \<longleftrightarrow>
     isByteArray v 32 \<noteq> None \<or> unwrapAccountId32Newtype v \<noteq> None \<or> unwrapMultiAddressId v \<noteq> None"
proof -
  have some: "length bs = 32 \<Longrightarrow> \<exists>y. encodeAccountId32 h bs p = Some y" for bs
    using encodeAccountId32_None_iff [of h bs p] by auto
  show ?thesis
    using some by (auto simp: normalizeAccountId32Field_def
        dest: isByteArray_Some unwrap_lengths split: option.splits)
qed

end
