(* ===== verification/Twox.thy ===== *)
theory Twox
  imports Js_Prelude "HOL-Library.Word"
begin

text \<open>
  Substrate storage keys, \<^verbatim>\<open>src/twox-storage-key.ts\<close>: XXH64 written over unbounded integers with
  explicit 64-bit masks, Twox64/Twox128, and the storage-map keys built from them.  The
  reference is the same hash over 64-bit words, where the wrap-around is the type's; the
  refinement lemma says that every mask of the code is where it has to be.
\<close>

section \<open>XXH64 over integers\<close>

definition PRIME64_1 :: int where "PRIME64_1 = 0x9e3779b185ebca87"
definition PRIME64_2 :: int where "PRIME64_2 = 0xc2b2ae3d27d4eb4f"
definition PRIME64_3 :: int where "PRIME64_3 = 0x165667b19e3779f9"
definition PRIME64_4 :: int where "PRIME64_4 = 0x85ebca77c2b2ae63"
definition PRIME64_5 :: int where "PRIME64_5 = 0x27d4eb2f165667c5"
definition MASK64 :: int where "MASK64 = push_bit 64 1 - 1"

definition rotl64 :: "int \<Rightarrow> nat \<Rightarrow> int" where
  "rotl64 x0 r =
     (let x = Bit_Operations.and x0 MASK64
      in Bit_Operations.and (Bit_Operations.or (push_bit r x) (drop_bit (64 - r) x)) MASK64)"

definition readU64LE :: "nat list \<Rightarrow> nat \<Rightarrow> int" where
  "readU64LE bytes offset =
     foldl (\<lambda>v i. Bit_Operations.or (push_bit 8 v) (int (bytes ! (offset + i)))) 0 [7, 6, 5, 4, 3, 2, 1, 0]"

definition readU32LE :: "nat list \<Rightarrow> nat \<Rightarrow> int" where
  "readU32LE bytes offset =
     Bit_Operations.or (Bit_Operations.or (Bit_Operations.or (int (bytes ! offset))
       (push_bit 8 (int (bytes ! (offset + 1)))))
       (push_bit 16 (int (bytes ! (offset + 2)))))
       (push_bit 24 (int (bytes ! (offset + 3))))"

definition lane_round :: "int \<Rightarrow> int \<Rightarrow> int" where
  "lane_round v k =
     Bit_Operations.and (rotl64 (Bit_Operations.and (v + k * PRIME64_2) MASK64) 31 * PRIME64_1) MASK64"

function lanes :: "nat list \<Rightarrow> nat \<Rightarrow> int \<times> int \<times> int \<times> int \<Rightarrow> nat \<times> int \<times> int \<times> int \<times> int" where
  "lanes bytes offset (v1, v2, v3, v4) =
     (if offset + 32 \<le> length bytes then
        lanes bytes (offset + 32)
          (lane_round v1 (readU64LE bytes offset),
           lane_round v2 (readU64LE bytes (offset + 8)),
           lane_round v3 (readU64LE bytes (offset + 16)),
           lane_round v4 (readU64LE bytes (offset + 24)))
      else (offset, v1, v2, v3, v4))"
  by pat_completeness auto
termination
  by (relation "measure (\<lambda>(bytes, offset, _). length bytes - offset)") auto

declare lanes.simps [simp del]

definition merge_lane :: "int \<Rightarrow> int \<Rightarrow> int" where
  "merge_lane h64 v =
     (let merged = Bit_Operations.and (rotl64 (Bit_Operations.and (v * PRIME64_2) MASK64) 31 * PRIME64_1) MASK64
      in Bit_Operations.and (Bit_Operations.xor h64 merged * PRIME64_1 + PRIME64_4) MASK64)"

function tail8 :: "nat list \<Rightarrow> nat \<Rightarrow> int \<Rightarrow> nat \<times> int" where
  "tail8 bytes offset h64 =
     (if offset + 8 \<le> length bytes then
        (let k1 = Bit_Operations.and
                    (rotl64 (Bit_Operations.and (readU64LE bytes offset * PRIME64_2) MASK64) 31 * PRIME64_1) MASK64
         in tail8 bytes (offset + 8)
              (Bit_Operations.and
                 (rotl64 (Bit_Operations.and (Bit_Operations.xor h64 k1) MASK64) 27 * PRIME64_1 + PRIME64_4) MASK64))
      else (offset, h64))"
  by pat_completeness auto
termination
  by (relation "measure (\<lambda>(bytes, offset, _). length bytes - offset)") auto

declare tail8.simps [simp del]

definition tail4 :: "nat list \<Rightarrow> nat \<Rightarrow> int \<Rightarrow> nat \<times> int" where
  "tail4 bytes offset h64 =
     (if offset + 4 \<le> length bytes then
        (offset + 4,
         Bit_Operations.and
           (rotl64 (Bit_Operations.and (Bit_Operations.xor h64 (readU32LE bytes offset * PRIME64_1)) MASK64) 23
              * PRIME64_2 + PRIME64_3) MASK64)
      else (offset, h64))"

function tail1 :: "nat list \<Rightarrow> nat \<Rightarrow> int \<Rightarrow> int" where
  "tail1 bytes offset h64 =
     (if offset < length bytes then
        tail1 bytes (offset + 1)
          (Bit_Operations.and
             (rotl64 (Bit_Operations.and (Bit_Operations.xor h64 (int (bytes ! offset) * PRIME64_5)) MASK64) 11
                * PRIME64_1) MASK64)
      else h64)"
  by pat_completeness auto
termination
  by (relation "measure (\<lambda>(bytes, offset, _). length bytes - offset)") auto

declare tail1.simps [simp del]

definition avalanche :: "int \<Rightarrow> int" where
  "avalanche h0 =
     (let h1 = Bit_Operations.xor h0 (drop_bit 33 h0);
          h2 = Bit_Operations.and (h1 * PRIME64_2) MASK64;
          h3 = Bit_Operations.xor h2 (drop_bit 29 h2);
          h4 = Bit_Operations.and (h3 * PRIME64_3) MASK64;
          h5 = Bit_Operations.xor h4 (drop_bit 32 h4)
      in Bit_Operations.and h5 MASK64)"

definition xxh64 :: "nat list \<Rightarrow> int \<Rightarrow> int" where
  "xxh64 bytes seed =
     (let len = length bytes;
          (offset, h) =
            (if 32 \<le> len then
               (let (offset, v1, v2, v3, v4) =
                      lanes bytes 0
                        (Bit_Operations.and (seed + PRIME64_1 + PRIME64_2) MASK64,
                         Bit_Operations.and (seed + PRIME64_2) MASK64,
                         Bit_Operations.and seed MASK64,
                         Bit_Operations.and (seed - PRIME64_1) MASK64);
                    h64 = Bit_Operations.and
                            (rotl64 v1 1 + rotl64 v2 7 + rotl64 v3 12 + rotl64 v4 18) MASK64
                in (offset, foldl merge_lane h64 [v1, v2, v3, v4]))
             else (0, Bit_Operations.and (seed + PRIME64_5) MASK64));
          h = Bit_Operations.and (h + int len) MASK64;
          (offset, h) = tail8 bytes offset h;
          (offset, h) = tail4 bytes offset h
      in avalanche (tail1 bytes offset h))"

section \<open>Storage keys\<close>

definition u64ToLeBytes :: "int \<Rightarrow> nat list" where
  "u64ToLeBytes v = map (\<lambda>i. nat (Bit_Operations.and (drop_bit (i * 8) v) 255)) [0..<8]"

definition twox64 :: "nat list \<Rightarrow> nat list" where
  "twox64 input = u64ToLeBytes (xxh64 input 0)"

definition twox128 :: "nat list \<Rightarrow> nat list" where
  "twox128 input = u64ToLeBytes (xxh64 input 0) @ u64ToLeBytes (xxh64 input 1)"

definition utf8_ascii :: "string \<Rightarrow> nat list" where
  "utf8_ascii s = map of_char s"

definition storageMapPrefix :: "string \<Rightarrow> string \<Rightarrow> nat list" where
  "storageMapPrefix palletName itemName = twox128 (utf8_ascii palletName) @ twox128 (utf8_ascii itemName)"

definition twox64Concat :: "nat list \<Rightarrow> nat list" where
  "twox64Concat keyBytes = twox64 keyBytes @ keyBytes"

definition u16LeBytes :: "int \<Rightarrow> nat list" where
  "u16LeBytes n = [nat (Bit_Operations.and n 255), nat (Bit_Operations.and (drop_bit 8 n) 255)]"

definition u32LeBytes :: "int \<Rightarrow> nat list" where
  "u32LeBytes n =
     [nat (Bit_Operations.and n 255), nat (Bit_Operations.and (drop_bit 8 n) 255),
      nat (Bit_Operations.and (drop_bit 16 n) 255), nat (Bit_Operations.and (drop_bit 24 n) 255)]"

definition hex_char :: "nat \<Rightarrow> char" where
  "hex_char n = ''0123456789abcdef'' ! n"

text \<open>\<open>b.toString(16).padStart(2, "0")\<close> of a byte\<close>

definition hex_byte :: "nat \<Rightarrow> string" where
  "hex_byte b = [hex_char (b div 16), hex_char (b mod 16)]"

definition toHex :: "nat list \<Rightarrow> string" where
  "toHex bytes = concat (map hex_byte bytes)"

definition bytesToHex :: "nat list \<Rightarrow> string" where
  "bytesToHex bytes = ''0x'' @ toHex bytes"

definition twox64ConcatU16StorageKey :: "string \<Rightarrow> string \<Rightarrow> int \<Rightarrow> string" where
  "twox64ConcatU16StorageKey palletName itemName netuid =
     ''0x'' @ toHex (storageMapPrefix palletName itemName @ twox64Concat (u16LeBytes netuid))"

definition twox64ConcatU32StorageKey :: "string \<Rightarrow> string \<Rightarrow> int \<Rightarrow> string" where
  "twox64ConcatU32StorageKey palletName itemName storageId =
     ''0x'' @ toHex (storageMapPrefix palletName itemName @ twox64Concat (u32LeBytes storageId))"

section \<open>The reference over 64-bit words\<close>

type_synonym u64 = "64 word"

abbreviation w :: "int \<Rightarrow> u64" where "w \<equiv> word_of_int"

definition le_word :: "nat list \<Rightarrow> nat \<Rightarrow> nat \<Rightarrow> u64" where
  "le_word bytes offset n = (\<Sum>i<n. of_nat (bytes ! (offset + i)) * 256 ^ i)"

definition round_word :: "u64 \<Rightarrow> u64 \<Rightarrow> u64" where
  "round_word acc input = word_rotl 31 (acc + input * w PRIME64_2) * w PRIME64_1"

function lanes_word :: "nat list \<Rightarrow> nat \<Rightarrow> u64 \<times> u64 \<times> u64 \<times> u64 \<Rightarrow> nat \<times> u64 \<times> u64 \<times> u64 \<times> u64" where
  "lanes_word bytes offset (v1, v2, v3, v4) =
     (if offset + 32 \<le> length bytes then
        lanes_word bytes (offset + 32)
          (round_word v1 (le_word bytes offset 8), round_word v2 (le_word bytes (offset + 8) 8),
           round_word v3 (le_word bytes (offset + 16) 8), round_word v4 (le_word bytes (offset + 24) 8))
      else (offset, v1, v2, v3, v4))"
  by pat_completeness auto
termination
  by (relation "measure (\<lambda>(bytes, offset, _). length bytes - offset)") auto

declare lanes_word.simps [simp del]

definition merge_word :: "u64 \<Rightarrow> u64 \<Rightarrow> u64" where
  "merge_word h v = Bit_Operations.xor h (round_word 0 v) * w PRIME64_1 + w PRIME64_4"

function tail8_word :: "nat list \<Rightarrow> nat \<Rightarrow> u64 \<Rightarrow> nat \<times> u64" where
  "tail8_word bytes offset h =
     (if offset + 8 \<le> length bytes then
        tail8_word bytes (offset + 8)
          (word_rotl 27 (Bit_Operations.xor h (round_word 0 (le_word bytes offset 8))) * w PRIME64_1 + w PRIME64_4)
      else (offset, h))"
  by pat_completeness auto
termination
  by (relation "measure (\<lambda>(bytes, offset, _). length bytes - offset)") auto

declare tail8_word.simps [simp del]

definition tail4_word :: "nat list \<Rightarrow> nat \<Rightarrow> u64 \<Rightarrow> nat \<times> u64" where
  "tail4_word bytes offset h =
     (if offset + 4 \<le> length bytes then
        (offset + 4,
         word_rotl 23 (Bit_Operations.xor h (le_word bytes offset 4 * w PRIME64_1)) * w PRIME64_2 + w PRIME64_3)
      else (offset, h))"

function tail1_word :: "nat list \<Rightarrow> nat \<Rightarrow> u64 \<Rightarrow> u64" where
  "tail1_word bytes offset h =
     (if offset < length bytes then
        tail1_word bytes (offset + 1)
          (word_rotl 11 (Bit_Operations.xor h (of_nat (bytes ! offset) * w PRIME64_5)) * w PRIME64_1)
      else h)"
  by pat_completeness auto
termination
  by (relation "measure (\<lambda>(bytes, offset, _). length bytes - offset)") auto

declare tail1_word.simps [simp del]

definition avalanche_word :: "u64 \<Rightarrow> u64" where
  "avalanche_word h0 =
     (let h1 = Bit_Operations.xor h0 (drop_bit 33 h0) * w PRIME64_2;
          h2 = Bit_Operations.xor h1 (drop_bit 29 h1) * w PRIME64_3
      in Bit_Operations.xor h2 (drop_bit 32 h2))"

definition xxh64_word :: "nat list \<Rightarrow> u64 \<Rightarrow> u64" where
  "xxh64_word bytes seed =
     (let (offset, h) =
            (if 32 \<le> length bytes then
               (let (offset, v1, v2, v3, v4) =
                      lanes_word bytes 0
                        (seed + w PRIME64_1 + w PRIME64_2, seed + w PRIME64_2, seed, seed - w PRIME64_1)
                in (offset, foldl merge_word
                      (word_rotl 1 v1 + word_rotl 7 v2 + word_rotl 12 v3 + word_rotl 18 v4) [v1, v2, v3, v4]))
             else (0, seed + w PRIME64_5));
          (offset, h) = tail8_word bytes offset (h + of_nat (length bytes));
          (offset, h) = tail4_word bytes offset h
      in avalanche_word (tail1_word bytes offset h))"

section \<open>The integers are the words\<close>

lemma mask_eq: "Bit_Operations.and x MASK64 = uint (w x)"
  by (simp add: MASK64_def unsigned_of_int take_bit_eq_mask mask_eq_exp_minus_1 push_bit_eq_mult)

lemma w_uint [simp]: "w (uint u) = u"
  by simp

lemma ucast_same [simp]: "(ucast (u :: u64) :: u64) = u"
  by (rule bit_word_eqI) (simp add: bit_simps)

lemma w_xor [simp]: "w (Bit_Operations.xor a b) = Bit_Operations.xor (w a) (w b)"
  by (rule bit_word_eqI) (simp add: bit_simps)

lemma w_or [simp]: "w (Bit_Operations.or a b) = Bit_Operations.or (w a) (w b)"
  by (rule bit_word_eqI) (auto simp: bit_simps)

lemma word_rotl_or:
  "0 < r \<Longrightarrow> r < 64 \<Longrightarrow> word_rotl r (u :: u64) = Bit_Operations.or (push_bit r u) (drop_bit (64 - r) u)"
proof (rule bit_word_eqI)
  fix n assume r: "0 < r" "r < 64" and n: "n < LENGTH(64)"
  have b: "bit (word_rotl r u) n \<longleftrightarrow> bit u ((n + (64 - r)) mod 64)"
    using n r by (simp add: bit_word_rotl_iff)
  have e: "(n + (64 - r)) mod 64 = (if n < r then n + (64 - r) else n - r)"
    using n r by (simp add: mod_if)
  have "bit (push_bit r u) n \<longleftrightarrow> r \<le> n \<and> bit u (n - r)" using n by (simp add: bit_simps)
  moreover have "bit (drop_bit (64 - r) u) n \<longleftrightarrow> n < r \<and> bit u (n + (64 - r))"
    using n r by (auto simp: bit_simps add.commute dest: bit_imp_le_length)
  ultimately show "bit (word_rotl r u) n \<longleftrightarrow> bit (Bit_Operations.or (push_bit r u) (drop_bit (64 - r) u)) n"
    unfolding b e by (auto simp: bit_or_iff)
qed

lemma mask_uint [simp]: "Bit_Operations.and (uint (u :: u64)) MASK64 = uint u"
  by (simp add: mask_eq)

lemma w_push [simp]: "w (push_bit k (uint u)) = push_bit k (u :: u64)"
  by (rule bit_word_eqI) (simp add: bit_simps)

lemma w_drop [simp]: "w (drop_bit k (uint u)) = drop_bit k (u :: u64)"
  by (rule bit_word_eqI) (auto simp: bit_simps dest: bit_imp_le_length)

lemma rotl64_uint: "0 < r \<Longrightarrow> r < 64 \<Longrightarrow> rotl64 (uint (u :: u64)) r = uint (word_rotl r u)"
  unfolding rotl64_def mask_uint Let_def by (simp add: mask_eq word_rotl_or)

section \<open>Refinement\<close>

lemma lane_round_uint: "lane_round (uint v) k = uint (round_word v (w k))"
  by (simp add: lane_round_def round_word_def mask_eq rotl64_uint)

text \<open>Reading little-endian bytes is the positional sum.\<close>

lemma or_shift_byte:
  "0 \<le> b \<Longrightarrow> b < 256 \<Longrightarrow> Bit_Operations.or (push_bit 8 v) b = v * 256 + (b :: int)"
proof -
  assume "0 \<le> b" "b < 256"
  then have "take_bit 8 b = b" by (simp add: take_bit_int_eq_self_iff)
  moreover have "Bit_Operations.and (push_bit 8 v) (take_bit 8 b) = 0"
    by (rule bit_eqI) (auto simp: bit_simps)
  ultimately show ?thesis
    by (simp add: disjunctive_add_eq_or [symmetric] push_bit_eq_mult)
qed

abbreviation byte_list :: "nat list \<Rightarrow> bool" where
  "byte_list bs \<equiv> list_all (\<lambda>b. b < 256) bs"

lemma byte_nth: "byte_list bs \<Longrightarrow> i < length bs \<Longrightarrow> bs ! i < 256"
  by (simp add: list_all_length)

lemma sum_upto_8: "(\<Sum>i<(8 :: nat). f i) = f 0 + f 1 + f 2 + f 3 + f 4 + f 5 + f 6 + (f 7 :: int)"
  by (simp add: eval_nat_numeral)

lemma sum_upto_4: "(\<Sum>i<(4 :: nat). f i) = f 0 + f 1 + f 2 + (f 3 :: int)"
  by (simp add: eval_nat_numeral)

lemma readU64LE_word:
  assumes "byte_list bytes" "offset + 8 \<le> length bytes"
  shows "w (readU64LE bytes offset) = le_word bytes offset 8"
proof -
  have "bytes ! (offset + i) < 256" if "i < 8" for i
    using that assms by (intro byte_nth) auto
  from this [of 0] this [of 1] this [of 2] this [of 3] this [of 4] this [of 5] this [of 6] this [of 7]
  have "readU64LE bytes offset = (\<Sum>i<8. int (bytes ! (offset + i)) * 256 ^ i)"
    by (simp add: readU64LE_def or_shift_byte sum_upto_8)
  then show ?thesis by (simp add: le_word_def)
qed

lemma or_shift_high:
  fixes a b :: int
  assumes "0 \<le> a" "a < 2 ^ k"
  shows "Bit_Operations.or a (push_bit k b) = a + b * 2 ^ k"
proof -
  have "take_bit k a = a" using assms by (simp add: take_bit_int_eq_self_iff)
  moreover have "Bit_Operations.and (take_bit k a) (push_bit k b) = 0"
    by (rule bit_eqI) (auto simp: bit_simps)
  ultimately show ?thesis
    by (simp add: disjunctive_add_eq_or [symmetric] push_bit_eq_mult)
qed

lemma readU32LE_word:
  assumes "byte_list bytes" "offset + 4 \<le> length bytes"
  shows "w (readU32LE bytes offset) = le_word bytes offset 4"
proof -
  have b: "bytes ! (offset + i) < 256" if "i < 4" for i
    using that assms by (intro byte_nth) auto
  have "readU32LE bytes offset = (\<Sum>i<4. int (bytes ! (offset + i)) * 256 ^ i)"
    using b [of 0] b [of 1] b [of 2] b [of 3]
    by (simp add: readU32LE_def or_shift_high sum_upto_4)
  then show ?thesis by (simp add: le_word_def)
qed

definition uint4 :: "nat \<times> u64 \<times> u64 \<times> u64 \<times> u64 \<Rightarrow> nat \<times> int \<times> int \<times> int \<times> int" where
  "uint4 x = (case x of (n, a, b, c, d) \<Rightarrow> (n, uint a, uint b, uint c, uint d))"

lemma lanes_uint:
  assumes "byte_list bytes"
  shows "lanes bytes offset (uint v1, uint v2, uint v3, uint v4) = uint4 (lanes_word bytes offset (v1, v2, v3, v4))"
  using assms
proof (induction bytes offset "(v1, v2, v3, v4)" arbitrary: v1 v2 v3 v4 rule: lanes_word.induct)
  case (1 bytes offset v1 v2 v3 v4)
  show ?case
  proof (cases "offset + 32 \<le> length bytes")
    case True
    with 1 show ?thesis
      by (simp add: lanes.simps [of bytes offset] lanes_word.simps [of bytes offset]
          lane_round_uint readU64LE_word)
  next
    case False
    then show ?thesis
      by (simp add: lanes.simps [of bytes offset] lanes_word.simps [of bytes offset] uint4_def)
  qed
qed


lemma merge_lane_uint: "merge_lane (uint h) (uint v) = uint (merge_word h v)"
  by (simp add: merge_lane_def merge_word_def round_word_def mask_eq rotl64_uint Let_def)

lemma foldl_merge_uint: "foldl merge_lane (uint h) (map uint vs) = uint (foldl merge_word h vs)"
  by (induction vs arbitrary: h) (auto simp: merge_lane_uint)

definition uint1 :: "nat \<times> u64 \<Rightarrow> nat \<times> int" where
  "uint1 x = (case x of (n, a) \<Rightarrow> (n, uint a))"

lemma tail8_uint:
  "byte_list bytes \<Longrightarrow> tail8 bytes offset (uint h) = uint1 (tail8_word bytes offset h)"
proof (induction bytes offset h rule: tail8_word.induct)
  case (1 bytes offset h)
  show ?case
  proof (cases "offset + 8 \<le> length bytes")
    case True
    with 1 show ?thesis
      by (simp add: tail8.simps [of bytes offset] tail8_word.simps [of bytes offset]
          mask_eq rotl64_uint round_word_def readU64LE_word Let_def)
  next
    case False
    then show ?thesis
      by (simp add: tail8.simps [of bytes offset] tail8_word.simps [of bytes offset] uint1_def)
  qed
qed

lemma tail4_uint:
  "byte_list bytes \<Longrightarrow> tail4 bytes offset (uint h) = uint1 (tail4_word bytes offset h)"
  by (simp add: tail4_def tail4_word_def uint1_def mask_eq rotl64_uint readU32LE_word)

lemma tail1_uint: "tail1 bytes offset (uint h) = uint (tail1_word bytes offset h)"
proof (induction bytes offset h rule: tail1_word.induct)
  case (1 bytes offset h)
  show ?case
  proof (cases "offset < length bytes")
    case True
    with 1 show ?thesis
      by (simp add: tail1.simps [of bytes offset] tail1_word.simps [of bytes offset] mask_eq rotl64_uint)
  next
    case False
    then show ?thesis by (simp add: tail1.simps [of bytes offset] tail1_word.simps [of bytes offset])
  qed
qed

lemma uint_xor_drop:
  "Bit_Operations.xor (uint h) (drop_bit k (uint h)) = uint (Bit_Operations.xor h (drop_bit k (h :: u64)))"
proof -
  have "uint (drop_bit k h) = drop_bit k (uint h)"
    by (rule bit_eqI) (auto simp: bit_simps dest: bit_imp_le_length)
  then show ?thesis by (simp add: unsigned_xor_eq)
qed

lemma avalanche_uint: "avalanche (uint h) = uint (avalanche_word h)"
  by (simp add: avalanche_def avalanche_word_def uint_xor_drop mask_eq Let_def)

lemma xxh64_uint:
  assumes "byte_list bytes"
  shows "xxh64 bytes seed = uint (xxh64_word bytes (w seed))"
proof -
  have start: "(Bit_Operations.and (seed + PRIME64_1 + PRIME64_2) MASK64,
        Bit_Operations.and (seed + PRIME64_2) MASK64, Bit_Operations.and seed MASK64,
        Bit_Operations.and (seed - PRIME64_1) MASK64)
      = (uint (w seed + w PRIME64_1 + w PRIME64_2), uint (w seed + w PRIME64_2), uint (w seed),
         uint (w seed - w PRIME64_1))"
    by (simp add: mask_eq)
  have fin: "(let (offset, h) = tail8 bytes off (Bit_Operations.and (uint h + int (length bytes)) MASK64);
            (offset, h) = tail4 bytes offset h in avalanche (tail1 bytes offset h))
      = uint (let (offset, h) = tail8_word bytes off (h + of_nat (length bytes));
            (offset, h) = tail4_word bytes offset h in avalanche_word (tail1_word bytes offset h))"
    for off h
    using assms
    by (simp add: mask_eq tail8_uint uint1_def tail4_uint tail1_uint avalanche_uint
        split: prod.split)
  show ?thesis
  proof (cases "32 \<le> length bytes")
    case True
    obtain n a b c d where l: "lanes_word bytes 0
        (w seed + w PRIME64_1 + w PRIME64_2, w seed + w PRIME64_2, w seed, w seed - w PRIME64_1) = (n, a, b, c, d)"
      by (cases "lanes_word bytes 0
        (w seed + w PRIME64_1 + w PRIME64_2, w seed + w PRIME64_2, w seed, w seed - w PRIME64_1)") auto
    have "Bit_Operations.and (rotl64 (uint a) 1 + rotl64 (uint b) 7 + rotl64 (uint c) 12 + rotl64 (uint d) 18) MASK64
        = uint (word_rotl 1 a + word_rotl 7 b + word_rotl 12 c + word_rotl 18 d)"
      by (simp add: rotl64_uint mask_eq)
    then show ?thesis using True fin [of n] foldl_merge_uint [of _ "[a, b, c, d]"]
      by (simp add: xxh64_def xxh64_word_def start lanes_uint [OF assms] l uint4_def Let_def)
  next
    case False
    then show ?thesis using fin [of 0 "w seed + w PRIME64_5"]
      by (simp add: xxh64_def xxh64_word_def mask_eq Let_def)
  qed
qed

text \<open>
  C24. The hash over unbounded integers with explicit masks is XXH64 over 64-bit words: no
  intermediate value of the code escapes its 64 bits, on short and on long inputs.
\<close>

theorem xxh64_refines_words:
  assumes "byte_list bytes"
  shows "xxh64 bytes seed = uint (xxh64_word bytes (word_of_int seed))
     \<and> 0 \<le> xxh64 bytes seed \<and> xxh64 bytes seed < 2 ^ 64"
proof -
  have "uint (xxh64_word bytes (w seed)) < 2 ^ 64"
    using uint_lt2p [of "xxh64_word bytes (w seed)"] by simp
  then show ?thesis by (simp add: xxh64_uint [OF assms])
qed


lemma xxh64_empty: "xxh64 [] 0 = 0xef46db3751d8e999"
  by code_simp

text \<open>
  The derivation reproduces the storage key of \<open>Sudo::Key\<close> byte for byte, which the
  repository holds as a verified constant elsewhere.
\<close>

theorem sudo_key_prefix:
  "bytesToHex (storageMapPrefix ''Sudo'' ''Key'') =
     ''0x5c0d1176a568c1f92944340dbfed9e9c530ebca703c85910e7164cb7d1c9e47b''"
  by code_simp


theorem xxh64_refines_words_witness:
  "xxh64 [1, 2, 255] 0 = uint (xxh64_word [1, 2, 255] 0) \<and> xxh64 [1, 2, 255] 0 < 2 ^ 64"
  using xxh64_refines_words [of "[1, 2, 255]" 0] by simp

section \<open>Keys identify their map entry\<close>

lemma length_toHex [simp]: "length (toHex bs) = 2 * length bs"
  by (induction bs) (auto simp: toHex_def hex_byte_def)

lemma toHex_append [simp]: "toHex (a @ b) = toHex a @ toHex b"
  by (simp add: toHex_def)

lemma hex_char_inject: "a < 16 \<Longrightarrow> b < 16 \<Longrightarrow> hex_char a = hex_char b \<longleftrightarrow> a = b"
  unfolding hex_char_def by (intro nth_eq_iff_index_eq) auto

lemma hex_byte_inject: "a < 256 \<Longrightarrow> b < 256 \<Longrightarrow> hex_byte a = hex_byte b \<longleftrightarrow> a = b"
proof -
  assume "a < 256" "b < 256"
  then have "a div 16 < 16" "b div 16 < 16" by auto
  moreover have "a div 16 = b div 16 \<Longrightarrow> a mod 16 = b mod 16 \<Longrightarrow> a = b"
    by (metis div_mult_mod_eq)
  ultimately show ?thesis by (auto simp: hex_byte_def hex_char_inject)
qed

lemma toHex_Cons: "toHex (x # a) = hex_byte x @ toHex a"
  by (simp add: toHex_def)

lemma length_hex_byte [simp]: "length (hex_byte b) = 2"
  by (simp add: hex_byte_def)

lemma toHex_inject: "byte_list a \<Longrightarrow> byte_list b \<Longrightarrow> toHex a = toHex b \<Longrightarrow> a = b"
proof (induction a arbitrary: b)
  case Nil
  then have "length (toHex b) = length (toHex [])" by metis
  then show ?case by simp
next
  case (Cons x a)
  have "length b = Suc (length a)"
    using Cons.prems(3) by (metis length_toHex length_Cons mult_cancel1 zero_neq_numeral)
  then obtain y b' where b: "b = y # b'" by (cases b) auto
  have "hex_byte x @ toHex a = hex_byte y @ toHex b'"
    using Cons.prems(3) b by (simp only: toHex_Cons)
  then have "hex_byte x = hex_byte y" "toHex a = toHex b'"
    by (simp_all add: append_eq_append_conv)
  moreover from this(1) have "x = y" using Cons.prems(1,2) b hex_byte_inject [of x y] by simp
  moreover have "a = b'" using Cons.prems(1,2) b calculation(2) by (intro Cons.IH) simp_all
  ultimately show ?case using b by simp
qed

lemma length_u64ToLeBytes [simp]: "length (u64ToLeBytes v) = 8"
  by (simp add: u64ToLeBytes_def)

lemma and_255_int: "Bit_Operations.and (n :: int) 255 = n mod 256"
proof -
  have "Bit_Operations.and n 255 = take_bit 8 n"
    by (simp add: take_bit_eq_mask mask_eq_exp_minus_1)
  then show ?thesis by (simp add: take_bit_eq_mod)
qed

lemma u16LeBytes_eq: "u16LeBytes n = [nat (n mod 256), nat (n div 256 mod 256)]"
  by (simp add: u16LeBytes_def and_255_int drop_bit_eq_div)

lemma u16LeBytes_inject:
  assumes "0 \<le> m" "m < 65536" "0 \<le> n" "n < 65536" "u16LeBytes m = u16LeBytes n"
  shows "m = n"
proof -
  have "m mod 256 = n mod 256" "m div 256 mod 256 = n div 256 mod 256"
    using assms(5) by (simp_all add: u16LeBytes_eq nat_eq_iff)
  moreover have "m div 256 < 256" "n div 256 < 256" using assms by auto
  ultimately have "m div 256 = n div 256" "m mod 256 = n mod 256" using assms by auto
  then show ?thesis by (metis mult_div_mod_eq)
qed

lemma u16_key_tail: "drop 82 (twox64ConcatU16StorageKey p i n) = toHex (u16LeBytes n)"
  by (simp add: twox64ConcatU16StorageKey_def storageMapPrefix_def twox128_def twox64Concat_def twox64_def
      u16LeBytes_eq)

text \<open>
  A Twox64Concat key over a u16 is 86 characters long and determines its netuid: the raw
  map key is recovered from the key's tail, and two subnets never share a storage key.
\<close>

theorem u16_storage_key_identifies:
  assumes "0 \<le> m" "m < 65536" "0 \<le> n" "n < 65536"
  shows "(twox64ConcatU16StorageKey p i m = twox64ConcatU16StorageKey p i n \<longleftrightarrow> m = n)
     \<and> length (twox64ConcatU16StorageKey p i n) = 86
     \<and> drop 82 (twox64ConcatU16StorageKey p i n) = toHex (u16LeBytes n)"
proof -
  have "toHex (u16LeBytes m) = toHex (u16LeBytes n) \<Longrightarrow> m = n"
    using assms by (intro u16LeBytes_inject toHex_inject) (auto simp: u16LeBytes_eq nat_less_iff)
  then have "twox64ConcatU16StorageKey p i m = twox64ConcatU16StorageKey p i n \<longleftrightarrow> m = n"
    using u16_key_tail by metis
  moreover have "length (twox64ConcatU16StorageKey p i n) = 86"
    by (simp add: twox64ConcatU16StorageKey_def storageMapPrefix_def twox128_def twox64Concat_def twox64_def
        u16LeBytes_eq)
  ultimately show ?thesis using u16_key_tail by blast
qed

theorem u16_storage_key_identifies_witness:
  "twox64ConcatU16StorageKey ''SubtensorModule'' ''SubnetUidToLeaseId'' 64 \<noteq>
     twox64ConcatU16StorageKey ''SubtensorModule'' ''SubnetUidToLeaseId'' 320"
  using u16_storage_key_identifies [of 64 320] by simp

end
