(* ===== verification/Deregistration.thy ===== *)
theory Deregistration
  imports Js_Prelude
begin

text \<open>
  Deregistrations derived from UID reuse (\<open>src/deregistration-derivation.ts\<close>): the guards that
  read a row, the per-slot derivation, the tenure summary, and the four reductions of the derived
  events (per subnet, network-wide, per displaced hotkey, per subnet and UID).

  A row's cells are scalars of unknown type.  An observation time is the rational it denotes; the
  window bound \<open>since\<close> is finite.
\<close>

section \<open>Reading a row\<close>

record RegistrationEventRow =
  er_netuid :: jsval
  er_uid :: jsval
  er_hotkey :: jsval
  er_block_number :: jsval
  er_event_index :: jsval
  er_observed_at :: jsval

record NormalizedRegistration =
  slot :: string
  netuid :: int
  uid :: int
  hotkey :: string
  block_number :: int
  event_index :: int
  observed_at :: rat

definition safeIndex :: "jsval \<Rightarrow> int option" where
  "safeIndex v =
     (if is_nullish v then None
      else if (case v of VStr s \<Rightarrow> trim s = [] | _ \<Rightarrow> False) then None
      else let n = js_number v in if is_safe_integer n \<and> 0 \<le> num_int n then Some (num_int n) else None)"

definition MAX_DATE :: rat where
  "MAX_DATE = 8640000000000000"

definition safeEpochMs :: "jsval \<Rightarrow> rat option" where
  "safeEpochMs v =
     (if is_nullish v then None
      else case js_number v of
             Fin q \<Rightarrow> if q \<le> 0 then None else if q \<le> MAX_DATE then Some q else None
           | _ \<Rightarrow> None)"

definition safeHotkey :: "jsval \<Rightarrow> string option" where
  "safeHotkey v = (case v of VStr s \<Rightarrow> (let t = trim s in if t = [] then None else Some t) | _ \<Rightarrow> None)"

definition slot_key :: "int \<Rightarrow> int \<Rightarrow> string" where
  "slot_key n u = string_of_nat (nat n) @ '':'' @ string_of_nat (nat u)"

definition normalize :: "RegistrationEventRow \<Rightarrow> NormalizedRegistration option" where
  "normalize row =
     (case (safeIndex (er_netuid row), safeIndex (er_uid row), safeHotkey (er_hotkey row),
            safeIndex (er_block_number row), safeEpochMs (er_observed_at row)) of
        (Some n, Some u, Some h, Some b, Some t) \<Rightarrow>
          Some \<lparr>slot = slot_key n u, netuid = n, uid = u, hotkey = h, block_number = b,
                event_index = (case safeIndex (er_event_index row) of Some i \<Rightarrow> i | None \<Rightarrow> 0),
                observed_at = t\<rparr>
      | _ \<Rightarrow> None)"

lemma safeIndex_nonneg: "safeIndex v = Some i \<Longrightarrow> 0 \<le> i"
  by (auto simp: safeIndex_def Let_def split: if_splits)

lemma normalize_SomeD:
  assumes "normalize row = Some r"
  shows "0 \<le> netuid r" "0 \<le> uid r" "slot r = slot_key (netuid r) (uid r)"
  using assms by (auto simp: normalize_def dest: safeIndex_nonneg split: option.splits)

text \<open>Two rows share a bucket exactly when they name the same UID of the same subnet.\<close>

lemma slot_key_inject:
  assumes "0 \<le> n" "0 \<le> u" "0 \<le> n'" "0 \<le> u'"
  shows "slot_key n u = slot_key n' u' \<longleftrightarrow> n = n' \<and> u = u'"
proof
  have c: "CHR '':'' \<notin> set (string_of_nat k)" for k
    by (rule digits_not_in) (simp_all add: is_digit_def string_of_nat_digits)
  have sp: "split_on CHR '':'' (slot_key a b) = [string_of_nat (nat a), string_of_nat (nat b)]" for a b
    using c by (simp add: slot_key_def split_on_append split_on_no_sep)
  assume "slot_key n u = slot_key n' u'"
  then have "nat n = nat n' \<and> nat u = nat u'" using sp [of n u] sp [of n' u'] by simp
  then show "n = n' \<and> u = u'" using assms by linarith
qed auto

section \<open>The derivation\<close>

record DerivedDeregistration =
  dd_netuid :: int
  dd_uid :: int
  dd_hotkey :: string
  successor :: string
  dd_block_number :: int
  dd_observed_at :: rat
  tenure_blocks :: "int option"
  predecessor_observed_at :: rat

record DerivedDeregistrations =
  events :: "DerivedDeregistration list"
  unattributed :: nat
  registrations :: nat

definition slot_cmp :: "NormalizedRegistration \<Rightarrow> NormalizedRegistration \<Rightarrow> int" where
  "slot_cmp a b = cmp_or (cmp_str (block_number a) (block_number b))
                         (cmp_str (event_index a) (event_index b))"

definition derived_event :: "NormalizedRegistration \<Rightarrow> NormalizedRegistration \<Rightarrow> DerivedDeregistration" where
  "derived_event previous current =
     (let tenureBlocks = block_number current - block_number previous
      in \<lparr>dd_netuid = netuid current, dd_uid = uid current, dd_hotkey = hotkey previous,
          successor = hotkey current, dd_block_number = block_number current,
          dd_observed_at = observed_at current,
          tenure_blocks = (if 0 < tenureBlocks then Some tenureBlocks else None),
          predecessor_observed_at = observed_at previous\<rparr>)"

text \<open>
  The loop over a sorted bucket; \<open>previous\<close> is the element before the current one, \<^const>\<open>None\<close> at
  index zero.
\<close>

fun scan_bucket :: "rat \<Rightarrow> NormalizedRegistration option \<Rightarrow> NormalizedRegistration list \<Rightarrow>
    DerivedDeregistrations \<Rightarrow> DerivedDeregistrations" where
  "scan_bucket since previous [] acc = acc"
| "scan_bucket since previous (current # rest) acc =
     scan_bucket since (Some current) rest
       (if observed_at current < since then acc
        else let acc = acc\<lparr>registrations := registrations acc + 1\<rparr>
             in case previous of
                  None \<Rightarrow> acc\<lparr>unattributed := unattributed acc + 1\<rparr>
                | Some p \<Rightarrow>
                    if hotkey p = hotkey current then acc
                    else acc\<lparr>events := events acc @ [derived_event p current]\<rparr>)"

definition deriveDeregistrations :: "RegistrationEventRow list option \<Rightarrow> rat \<Rightarrow> DerivedDeregistrations" where
  "deriveDeregistrations rows since =
     (let bySlot = bucket_by slot (List.map_filter normalize (case rows of Some rs \<Rightarrow> rs | None \<Rightarrow> []))
      in foldl (\<lambda>acc (_, bucket). scan_bucket since None (js_sort slot_cmp bucket) acc)
           \<lparr>events = [], unattributed = 0, registrations = 0\<rparr> bySlot)"

interpretation slot_order: key_comparator slot_cmp
  unfolding slot_cmp_def by (intro key_comparators)

section \<open>What the derivation computes\<close>

text \<open>
  The registrations of a slot in chain order, each with its predecessor; and the three ways one
  inside the window is accounted for.
\<close>

definition slot_histories :: "RegistrationEventRow list option \<Rightarrow>
    (NormalizedRegistration option \<times> NormalizedRegistration) list" where
  "slot_histories rows =
     concat (map (\<lambda>(_, bucket). with_previous (js_sort slot_cmp bucket))
       (bucket_by slot (List.map_filter normalize (case rows of Some rs \<Rightarrow> rs | None \<Rightarrow> []))))"

definition in_window :: "rat \<Rightarrow> NormalizedRegistration option \<times> NormalizedRegistration \<Rightarrow> bool" where
  "in_window since pc \<longleftrightarrow> \<not> observed_at (snd pc) < since"

fun pair_event :: "NormalizedRegistration option \<times> NormalizedRegistration \<Rightarrow> DerivedDeregistration option" where
  "pair_event (Some p, c) = (if hotkey p = hotkey c then None else Some (derived_event p c))"
| "pair_event (None, c) = None"

fun is_reregistration :: "NormalizedRegistration option \<times> NormalizedRegistration \<Rightarrow> bool" where
  "is_reregistration (Some p, c) = (hotkey p = hotkey c)"
| "is_reregistration (None, c) = False"

definition add_pairs :: "rat \<Rightarrow> (NormalizedRegistration option \<times> NormalizedRegistration) list \<Rightarrow>
    DerivedDeregistrations \<Rightarrow> DerivedDeregistrations" where
  "add_pairs since ps acc =
     (let w = filter (in_window since) ps
      in \<lparr>events = events acc @ List.map_filter pair_event w,
          unattributed = unattributed acc + length (filter (\<lambda>pc. fst pc = None) w),
          registrations = registrations acc + length w\<rparr>)"

lemma add_pairs_Nil [simp]: "add_pairs since [] acc = acc"
  by (simp add: add_pairs_def Let_def)

lemma add_pairs_append: "add_pairs since (xs @ ys) acc = add_pairs since ys (add_pairs since xs acc)"
  by (simp add: add_pairs_def Let_def)

lemma scan_bucket_pairs:
  "scan_bucket since p xs acc = add_pairs since (zip (p # map Some xs) xs) acc"
proof (induction xs arbitrary: p acc)
  case (Cons x xs)
  have "zip (p # map Some (x # xs)) (x # xs) = [(p, x)] @ zip (Some x # map Some xs) xs" by simp
  moreover have "add_pairs since [(p, x)] acc =
      (if observed_at x < since then acc
       else let acc = acc\<lparr>registrations := registrations acc + 1\<rparr>
            in case p of
                 None \<Rightarrow> acc\<lparr>unattributed := unattributed acc + 1\<rparr>
               | Some p \<Rightarrow> if hotkey p = hotkey x then acc
                           else acc\<lparr>events := events acc @ [derived_event p x]\<rparr>)"
    by (cases p) (simp_all add: add_pairs_def Let_def in_window_def map_filter_Cons)
  ultimately show ?case by (simp only: scan_bucket.simps Cons add_pairs_append)
qed simp

lemma foldl_scan_buckets:
  "foldl (\<lambda>acc (_, bucket). scan_bucket since None (js_sort slot_cmp bucket) acc) acc bs =
   add_pairs since (concat (map (\<lambda>(_, bucket). with_previous (js_sort slot_cmp bucket)) bs)) acc"
  by (induction bs arbitrary: acc)
    (auto simp: scan_bucket_pairs add_pairs_append with_previous_def)

lemma deriveDeregistrations_pairs:
  "deriveDeregistrations rows since =
   add_pairs since (slot_histories rows) \<lparr>events = [], unattributed = 0, registrations = 0\<rparr>"
  by (simp add: deriveDeregistrations_def slot_histories_def Let_def foldl_scan_buckets)

lemma derive_simps:
  "events (deriveDeregistrations rows since) =
     List.map_filter pair_event (filter (in_window since) (slot_histories rows))"
  "unattributed (deriveDeregistrations rows since) =
     length (filter (\<lambda>pc. fst pc = None) (filter (in_window since) (slot_histories rows)))"
  "registrations (deriveDeregistrations rows since) =
     length (filter (in_window since) (slot_histories rows))"
  by (simp_all add: deriveDeregistrations_pairs add_pairs_def Let_def)

lemma mset_slot_histories:
  "mset (map snd (slot_histories rows)) =
   mset (List.map_filter normalize (case rows of Some rs \<Rightarrow> rs | None \<Rightarrow> []))"
proof -
  have "mset (map snd (concat (map (\<lambda>(_, b). with_previous (js_sort slot_cmp b)) bs))) =
        mset (concat (map snd bs))" for bs :: "(string \<times> NormalizedRegistration list) list"
    by (induction bs) (auto simp flip: mset_map)
  then show ?thesis by (simp add: slot_histories_def mset_bucket_by del: mset_map)
qed

lemma length_filter_in_window:
  "length (filter (in_window since) (slot_histories rows)) =
   length (filter (\<lambda>r. since \<le> observed_at r)
     (List.map_filter normalize (case rows of Some rs \<Rightarrow> rs | None \<Rightarrow> [])))"
proof -
  have "length (filter (in_window since) ps) = size (filter_mset (\<lambda>r. since \<le> observed_at r) (mset (map snd ps)))"
    for ps :: "(NormalizedRegistration option \<times> NormalizedRegistration) list"
    by (induction ps) (auto simp: in_window_def not_less)
  then have "length (filter (in_window since) (slot_histories rows)) =
      size (filter_mset (\<lambda>r. since \<le> observed_at r)
        (mset (List.map_filter normalize (case rows of Some rs \<Rightarrow> rs | None \<Rightarrow> []))))"
    by (simp only: mset_slot_histories)
  then show ?thesis by (metis mset_filter size_mset)
qed

lemma length_pair_events:
  "length (List.map_filter pair_event ps) + length (filter (\<lambda>pc. fst pc = None) ps)
     + length (filter is_reregistration ps) = length ps"
proof (induction ps)
  case (Cons pc ps)
  obtain p c where "pc = (p, c)" by (cases pc)
  with Cons show ?case by (cases p) (auto simp: map_filter_Cons)
qed simp

text \<open>
  C11. Every usable registration inside the window is accounted for exactly once: it is a derived
  deregistration, or has no observed predecessor, or re-registers the hotkey already on the slot.
  The count of registrations is that of the usable rows whose observation time is in the window,
  whatever order they arrived in.
\<close>

theorem derivation_accounting:
  "length (events (deriveDeregistrations rows since)) + unattributed (deriveDeregistrations rows since)
     + length (filter is_reregistration (filter (in_window since) (slot_histories rows)))
     = registrations (deriveDeregistrations rows since) \<and>
   registrations (deriveDeregistrations rows since) =
     length (filter (\<lambda>r. since \<le> observed_at r)
       (List.map_filter normalize (case rows of Some rs \<Rightarrow> rs | None \<Rightarrow> [])))"
  unfolding derive_simps using length_filter_in_window by (simp only: length_pair_events)


lemma slot_histories_pairD:
  assumes "(Some p, c) \<in> set (slot_histories (Some rows))"
  defines "regs \<equiv> set (List.map_filter normalize rows)"
  shows "p \<in> regs" "c \<in> regs" "slot p = slot c" "slot_cmp p c \<le> 0"
    "r \<in> regs \<Longrightarrow> slot r = slot c \<Longrightarrow> slot_cmp r p \<le> 0 \<or> slot_cmp c r \<le> 0"
proof -
  obtain k b where b: "(k, b) \<in> set (bucket_by slot (List.map_filter normalize rows))"
    and pc: "(Some p, c) \<in> set (with_previous (js_sort slot_cmp b))"
    using assms(1) by (auto simp: slot_histories_def)
  let ?h = "js_sort slot_cmp b"
  have mem: "x \<in> set ?h \<longleftrightarrow> x \<in> regs \<and> slot x = k" for x
    using bucket_by_in(1) [OF b] by (auto simp: regs_def)
  obtain i where i: "Suc i < length ?h" "p = ?h ! i" "c = ?h ! Suc i"
    using pc by (auto simp: with_previous_Some)
  have inp: "p \<in> set ?h" "c \<in> set ?h" using i by (metis Suc_lessD nth_mem, metis nth_mem)
  then show "p \<in> regs" "c \<in> regs" "slot p = slot c" by (simp_all add: mem del: set_js_sort)
  have le: "slot_cmp (?h ! m) (?h ! n) \<le> 0" if "m < n" "n < length ?h" for m n
    using slot_order.sorted_js_sort [of b] that by (simp add: sorted_wrt_iff_nth_less)
  show "slot_cmp p c \<le> 0" using le [of i "Suc i"] i by simp
  show "slot_cmp r p \<le> 0 \<or> slot_cmp c r \<le> 0" if "r \<in> regs" "slot r = slot c"
  proof -
    have "r \<in> set ?h" using that inp by (auto simp: mem simp del: set_js_sort)
    then obtain n where n: "n < length ?h" "r = ?h ! n" by (metis in_set_conv_nth)
    consider "n < i" | "n = i" | "n = Suc i" | "Suc i < n" by linarith
    then show ?thesis
      using le [of n i] le [of "Suc i" n] n i slot_order.cmp_refl by cases auto
  qed
qed

text \<open>
  A derived deregistration is evidence, not a guess: it comes from two usable rows of one UID
  of one subnet, adjacent in the slot's chain order (no other registration of the slot lies strictly
  between them), the later one inside the window and naming a different hotkey.  The displaced and
  the succeeding hotkey differ and a published tenure is positive.
\<close>

theorem derived_event_sound:
  assumes "e \<in> set (events (deriveDeregistrations (Some rows) since))"
  shows "(\<exists>p c. p \<in> set (List.map_filter normalize rows) \<and> c \<in> set (List.map_filter normalize rows) \<and>
            netuid p = netuid c \<and> uid p = uid c \<and> slot_cmp p c \<le> 0 \<and>
            {r \<in> set (List.map_filter normalize rows). slot r = slot c \<and>
               0 < slot_cmp r p \<and> 0 < slot_cmp c r} = {} \<and>
            since \<le> observed_at c \<and> e = derived_event p c) \<and>
         dd_hotkey e \<noteq> successor e \<and> tenure_blocks e \<noteq> Some 0 \<and>
         (case tenure_blocks e of Some t \<Rightarrow> 0 < t | None \<Rightarrow> True)"
proof -
  obtain pc where pc: "pc \<in> set (slot_histories (Some rows))" "in_window since pc" "pair_event pc = Some e"
    using assms by (auto simp: derive_simps set_map_filter_iff)
  then obtain p c where e: "pc = (Some p, c)" "hotkey p \<noteq> hotkey c" "e = derived_event p c"
    by (cases pc rule: pair_event.cases) (auto split: if_splits)
  have h: "(Some p, c) \<in> set (slot_histories (Some rows))" using pc e by simp
  note D = slot_histories_pairD [OF h]
  obtain a b where ab: "normalize a = Some p" "normalize b = Some c"
    using D(1,2) by (auto simp: set_map_filter_iff)
  have "netuid p = netuid c \<and> uid p = uid c"
    using D(3) normalize_SomeD [OF ab(1)] normalize_SomeD [OF ab(2)] by (simp add: slot_key_inject)
  moreover have "since \<le> observed_at c" using pc e by (simp add: in_window_def not_less)
  moreover have "{r \<in> set (List.map_filter normalize rows). slot r = slot c \<and>
      0 < slot_cmp r p \<and> 0 < slot_cmp c r} = {}"
    using D(5) by force
  moreover have "dd_hotkey e \<noteq> successor e \<and> tenure_blocks e \<noteq> Some 0 \<and>
      (case tenure_blocks e of Some t \<Rightarrow> 0 < t | None \<Rightarrow> True)"
    using e by (simp add: derived_event_def Let_def)
  ultimately show ?thesis using D(1,2,4) e(3) by blast
qed

definition sample_row :: "string \<Rightarrow> int \<Rightarrow> RegistrationEventRow" where
  "sample_row h b =
     \<lparr>er_netuid = VNum (js_int 1), er_uid = VStr ''2'', er_hotkey = VStr h, er_block_number = VNum (js_int b),
      er_event_index = VNull, er_observed_at = VNum (js_int (b * 12000))\<rparr>"

lemma safeIndex_int [simp]: "0 \<le> i \<Longrightarrow> i \<le> MAX_SAFE \<Longrightarrow> safeIndex (VNum (js_int i)) = Some i"
  by (simp add: safeIndex_def)

lemma safeEpochMs_int:
  "0 < i \<Longrightarrow> i \<le> 8640000000000000 \<Longrightarrow> safeEpochMs (VNum (js_int i)) = Some (of_int i)"
  by (simp add: safeEpochMs_def js_int_def MAX_DATE_def)

lemma safeIndex_digits: "int n \<le> MAX_SAFE \<Longrightarrow> safeIndex (VStr (string_of_nat n)) = Some (int n)"
proof -
  assume n: "int n \<le> MAX_SAFE"
  have "list_all (\<lambda>c. \<not> is_space c) (string_of_nat n)"
    using string_of_nat_digits [of n] by (auto simp: list_all_iff dest: is_digit_not_space)
  then have "trim (string_of_nat n) = string_of_nat n" by (rule trim_no_space)
  then show ?thesis
    using n by (simp add: safeIndex_def string_to_number_digits to_double_nat_safe)
qed

lemma sample_normal:
  "normalize (sample_row ''a'' 5) = Some \<lparr>slot = ''1:2'', netuid = 1, uid = 2, hotkey = ''a'', block_number = 5,
     event_index = 0, observed_at = 60000\<rparr>"
  "normalize (sample_row ''b'' 9) = Some \<lparr>slot = ''1:2'', netuid = 1, uid = 2, hotkey = ''b'', block_number = 9,
     event_index = 0, observed_at = 108000\<rparr>"
proof -
  have "string_of_nat 2 = ''2''" "string_of_nat 1 = ''1''" by (simp_all add: string_of_nat.simps)
  moreover from this have "safeIndex (VStr ''2'') = Some 2"
    using safeIndex_digits [of 2] by (simp add: MAX_SAFE_def)
  moreover have "safeIndex VNull = None" by (simp add: safeIndex_def)
  ultimately show
    "normalize (sample_row ''a'' 5) = Some \<lparr>slot = ''1:2'', netuid = 1, uid = 2, hotkey = ''a'', block_number = 5,
     event_index = 0, observed_at = 60000\<rparr>"
    "normalize (sample_row ''b'' 9) = Some \<lparr>slot = ''1:2'', netuid = 1, uid = 2, hotkey = ''b'', block_number = 9,
     event_index = 0, observed_at = 108000\<rparr>"
    by (simp_all add: normalize_def sample_row_def safeHotkey_def trim_def is_space_def safeEpochMs_int
        MAX_SAFE_def slot_key_def)
qed

lemma sample_events:
  "events (deriveDeregistrations (Some [sample_row ''b'' 9, sample_row ''a'' 5]) 0) =
   [derived_event \<lparr>slot = ''1:2'', netuid = 1, uid = 2, hotkey = ''a'', block_number = 5,
                   event_index = 0, observed_at = 60000\<rparr>
                  \<lparr>slot = ''1:2'', netuid = 1, uid = 2, hotkey = ''b'', block_number = 9,
                   event_index = 0, observed_at = 108000\<rparr>]"
  by (simp add: deriveDeregistrations_def map_filter_Cons sample_normal bucket_by_def bucket_push_def
      js_sort_Cons slot_cmp_def cmp_or_def cmp_str_def)

lemma derived_event_sound_witness:
  "dd_hotkey (hd (events (deriveDeregistrations (Some [sample_row ''b'' 9, sample_row ''a'' 5]) 0))) \<noteq>
   successor (hd (events (deriveDeregistrations (Some [sample_row ''b'' 9, sample_row ''a'' 5]) 0)))"
  using derived_event_sound [of "hd (events (deriveDeregistrations (Some [sample_row ''b'' 9, sample_row ''a'' 5]) 0))"
      "[sample_row ''b'' 9, sample_row ''a'' 5]" 0]
  by (simp add: sample_events)

text \<open>
  Slicing a narrower window out of one wide derivation is the same as deriving the narrower
  window: the events are those whose observation time is in it.
\<close>

theorem window_slices:
  assumes "since \<le> since'"
  shows "events (deriveDeregistrations rows since') =
         filter (\<lambda>e. since' \<le> dd_observed_at e) (events (deriveDeregistrations rows since))"
proof -
  have "filter (in_window since') (slot_histories rows) =
        filter (in_window since') (filter (in_window since) (slot_histories rows))"
    using assms by (auto simp: in_window_def intro!: filter_cong)
  moreover have "List.map_filter pair_event (filter (in_window since') ps) =
        filter (\<lambda>e. since' \<le> dd_observed_at e) (List.map_filter pair_event ps)" for ps
  proof (rule map_filter_filter)
    fix x y assume "pair_event x = Some y"
    then show "in_window since' x = (since' \<le> dd_observed_at y)"
      by (cases x rule: pair_event.cases)
        (auto simp: in_window_def derived_event_def Let_def not_less split: if_splits)
  qed
  ultimately show ?thesis unfolding derive_simps by metis
qed

lemma window_slices_witness:
  "events (deriveDeregistrations (Some [sample_row ''b'' 9, sample_row ''a'' 5]) 200000) = []"
  using window_slices [of 0 200000 "Some [sample_row ''b'' 9, sample_row ''a'' 5]"]
  by (simp add: sample_events derived_event_def)

section \<open>Tenure\<close>

record TenureDistribution =
  sample_count :: nat
  median_blocks :: "int option"
  p10_blocks :: "int option"
  p90_blocks :: "int option"
  min_blocks :: "int option"
  max_blocks :: "int option"
  censored :: bool

text \<open>
  \<open>Math.ceil(fraction * ascending.length)\<close>: the fraction is the binary64 value of its literal and
  the product is rounded.
\<close>

definition double_of :: "rat \<Rightarrow> rat" where
  "double_of q = (case to_double q of Fin r \<Rightarrow> r | _ \<Rightarrow> 0)"

definition percentileBlocks :: "int list \<Rightarrow> rat \<Rightarrow> int option" where
  "percentileBlocks ascending fraction =
     (if ascending = [] then None
      else let n = int (length ascending);
               rank = \<lceil>double_of (double_of fraction * of_nat (length ascending))\<rceil>
           in Some (ascending ! nat (min (max rank 1) n - 1)))"

definition tenure_samples :: "DerivedDeregistration list \<Rightarrow> int list" where
  "tenure_samples es =
     js_sort cmp_str (filter (\<lambda>v. 0 < v) (List.map_filter tenure_blocks es))"

definition summarizeTenure :: "DerivedDeregistration list \<Rightarrow> TenureDistribution" where
  "summarizeTenure es =
     (let samples = tenure_samples es
      in \<lparr>sample_count = length samples,
          median_blocks = percentileBlocks samples (1/2),
          p10_blocks = percentileBlocks samples (1/10),
          p90_blocks = percentileBlocks samples (9/10),
          min_blocks = (if samples = [] then None else Some (samples ! 0)),
          max_blocks = (if samples = [] then None else Some (samples ! (length samples - 1))),
          censored = True\<rparr>)"

interpretation tenure_order: key_comparator "cmp_str :: int \<Rightarrow> int \<Rightarrow> int"
  by (rule key_comparator_asc)

lemma sorted_tenure_samples: "sorted (tenure_samples es)"
  using tenure_order.sorted_js_sort by (simp add: tenure_samples_def)

lemma percentile_nth:
  assumes "xs \<noteq> []"
  obtains i where "i < length xs" "percentileBlocks xs f = Some (xs ! i)"
proof
  let ?i = "nat (min (max \<lceil>double_of (double_of f * of_nat (length xs))\<rceil> 1) (int (length xs)) - 1)"
  show "?i < length xs" using assms by (cases xs) auto
  show "percentileBlocks xs f = Some (xs ! ?i)" using assms by (simp add: percentileBlocks_def)
qed

lemma percentile_between:
  assumes "xs \<noteq> []" and "sorted xs"
  shows "the (percentileBlocks xs f) \<in> set xs \<and> xs ! 0 \<le> the (percentileBlocks xs f) \<and>
         the (percentileBlocks xs f) \<le> xs ! (length xs - 1)"
proof -
  obtain i where i: "i < length xs" "percentileBlocks xs f = Some (xs ! i)"
    using assms(1) by (rule percentile_nth)
  then show ?thesis using assms by (auto simp: sorted_iff_nth_mono)
qed

text \<open>
  The tenure summary reports observed spans only: with at least one measurable tenure every
  published percentile is one of the positive tenures of the events and lies between the published
  minimum and maximum, which are the least and the greatest of them; the sample count is the number
  of events with a measurable tenure.
\<close>

theorem tenure_summary_bounds:
  assumes "e \<in> set es" and "tenure_blocks e = Some t" and "0 < t"
  defines "S \<equiv> {v. 0 < v \<and> Some v \<in> tenure_blocks ` set es}"
  shows "min_blocks (summarizeTenure es) = Some (Min S) \<and> max_blocks (summarizeTenure es) = Some (Max S) \<and>
         {the (p10_blocks (summarizeTenure es)), the (median_blocks (summarizeTenure es)),
          the (p90_blocks (summarizeTenure es))} \<subseteq> S \<inter> {Min S..Max S} \<and>
         sample_count (summarizeTenure es) =
           length (filter (\<lambda>e. tenure_blocks e \<noteq> None \<and> 0 < the (tenure_blocks e)) es)"
proof -
  let ?xs = "tenure_samples es"
  have S: "set ?xs = S"
    by (auto simp: tenure_samples_def set_map_filter_iff S_def image_iff dest: sym)
  have "t \<in> S" using assms by (auto simp: S_def intro: image_eqI [of _ _ e])
  then have ne: "?xs \<noteq> []" using S by auto
  have srt: "sorted ?xs" by (rule sorted_tenure_samples)
  have fin: "finite S" "S \<noteq> {}" using S ne by (metis List.finite_set, metis set_empty)
  have mn: "Min S = ?xs ! 0"
    unfolding S [symmetric] using ne srt by (intro Min_eqI) (auto simp: sorted_iff_nth_mono in_set_conv_nth)
  have mx: "Max S = ?xs ! (length ?xs - 1)"
    unfolding S [symmetric] using ne srt 
    by (intro Max_eqI) (auto simp: sorted_iff_nth_mono in_set_conv_nth intro!: exI [of _ "length ?xs - 1"])
  have len: "length ?xs = length (filter (\<lambda>e. tenure_blocks e \<noteq> None \<and> 0 < the (tenure_blocks e)) es)"
  proof -
    have "length (filter (\<lambda>v. 0 < v) (List.map_filter tenure_blocks ys)) =
          length (filter (\<lambda>e. tenure_blocks e \<noteq> None \<and> 0 < the (tenure_blocks e)) ys)" for ys
      by (induction ys) (auto simp: map_filter_Cons split: option.split)
    then show ?thesis by (simp add: tenure_samples_def)
  qed
  show ?thesis
    using percentile_between [OF ne srt] ne S mn mx len by (auto simp: summarizeTenure_def Let_def)
qed

lemma tenure_summary_bounds_witness:
  "min_blocks (summarizeTenure (events (deriveDeregistrations (Some [sample_row ''b'' 9, sample_row ''a'' 5]) 0))) = Some 4"
proof -
  have "{v. 0 < v \<and> v = (4 :: int)} = {4}" by auto
  then show ?thesis
    using tenure_summary_bounds [of "hd (events (deriveDeregistrations (Some [sample_row ''b'' 9, sample_row ''a'' 5]) 0))"
        "events (deriveDeregistrations (Some [sample_row ''b'' 9, sample_row ''a'' 5]) 0)" 4]
    by (simp add: sample_events derived_event_def)
qed

section \<open>Reductions of the derived events\<close>

subsection \<open>Per subnet\<close>

record NetuidBucket =
  nb_count :: nat
  nb_hotkeys :: "string set"
  nb_newest :: rat
  nb_events :: "DerivedDeregistration list"

record DeregistrationSubnetRow =
  sr_netuid :: int
  sr_deregistrations :: nat
  sr_distinct_hotkeys :: nat
  sr_newest_observed :: rat
  sr_tenure :: TenureDistribution

definition netuid_bucket :: "DerivedDeregistration \<Rightarrow> NetuidBucket option \<Rightarrow> NetuidBucket" where
  "netuid_bucket event found =
     (let bucket = (case found of
                      Some b \<Rightarrow> b
                    | None \<Rightarrow> \<lparr>nb_count = 0, nb_hotkeys = {}, nb_newest = 0, nb_events = []\<rparr>)
      in \<lparr>nb_count = nb_count bucket + 1,
          nb_hotkeys = insert (dd_hotkey event) (nb_hotkeys bucket),
          nb_newest = (if nb_newest bucket < dd_observed_at event then dd_observed_at event else nb_newest bucket),
          nb_events = nb_events bucket @ [event]\<rparr>)"

definition rank_cmp :: "DeregistrationSubnetRow \<Rightarrow> DeregistrationSubnetRow \<Rightarrow> int" where
  "rank_cmp a b = cmp_or (cmp_str (sr_deregistrations b) (sr_deregistrations a))
                         (cmp_str (sr_netuid a) (sr_netuid b))"

definition deregistrationsByNetuid :: "DerivedDeregistration list \<Rightarrow> DeregistrationSubnetRow list" where
  "deregistrationsByNetuid es =
     js_sort rank_cmp
       (map (\<lambda>(n, bucket). \<lparr>sr_netuid = n, sr_deregistrations = nb_count bucket,
               sr_distinct_hotkeys = card (nb_hotkeys bucket), sr_newest_observed = nb_newest bucket,
               sr_tenure = summarizeTenure (nb_events bucket)\<rparr>)
         (upsert_by dd_netuid netuid_bucket es))"

interpretation subnet_rank: key_comparator rank_cmp
  unfolding rank_cmp_def by (intro key_comparators)

text \<open>The row of a subnet, from its own events.\<close>

definition subnet_row :: "DerivedDeregistration list \<Rightarrow> int \<Rightarrow> DeregistrationSubnetRow" where
  "subnet_row es n =
     (let own = filter (\<lambda>e. dd_netuid e = n) es
      in \<lparr>sr_netuid = n, sr_deregistrations = length own, sr_distinct_hotkeys = card (dd_hotkey ` set own),
          sr_newest_observed = Max (insert 0 (dd_observed_at ` set own)), sr_tenure = summarizeTenure own\<rparr>)"

lemma fold_netuid_bucket:
  "fold_step netuid_bucket es =
   (if es = [] then None
    else Some \<lparr>nb_count = length es, nb_hotkeys = dd_hotkey ` set es,
               nb_newest = Max (insert 0 (dd_observed_at ` set es)), nb_events = es\<rparr>)"
proof (induction es rule: rev_induct)
  case (snoc e es)
  have "Max (insert 0 (dd_observed_at ` set (es @ [e]))) =
        max (dd_observed_at e) (Max (insert 0 (dd_observed_at ` set es)))"
    by (simp add: insert_commute [of 0])
  then show ?case
    using snoc by (auto simp: netuid_bucket_def Let_def max_def)
qed simp

lemma byNetuid_closed:
  "deregistrationsByNetuid es = js_sort rank_cmp (map (subnet_row es) (first_seen dd_netuid es))"
proof -
  have "filter (\<lambda>e. dd_netuid e = n) es \<noteq> []" if "n \<in> set (first_seen dd_netuid es)" for n
    using that by (auto simp: filter_empty_conv)
  then show ?thesis
    unfolding deregistrationsByNetuid_def upsert_by_closed
    by (intro arg_cong [of _ _ "js_sort rank_cmp"])
      (auto simp: fold_netuid_bucket subnet_row_def Let_def)
qed

text \<open>
  The subnet leaderboard has exactly one row per subnet with a derived event, each computed
  from that subnet's events alone; it is ranked by count and then by netuid, and its counts add up
  to the number of events.
\<close>

theorem leaderboard_rows:
  "mset (deregistrationsByNetuid es) = image_mset (subnet_row es) (mset_set (dd_netuid ` set es)) \<and>
   sorted_wrt (\<lambda>a b. sr_deregistrations b < sr_deregistrations a \<or>
                     (sr_deregistrations a = sr_deregistrations b \<and> sr_netuid a \<le> sr_netuid b))
     (deregistrationsByNetuid es) \<and>
   sum_list (map sr_deregistrations (deregistrationsByNetuid es)) = length es"
proof (intro conjI)
  show "mset (deregistrationsByNetuid es) = image_mset (subnet_row es) (mset_set (dd_netuid ` set es))"
    by (simp add: byNetuid_closed mset_set_set [symmetric] flip: set_first_seen)
  show "sorted_wrt (\<lambda>a b. sr_deregistrations b < sr_deregistrations a \<or>
                     (sr_deregistrations a = sr_deregistrations b \<and> sr_netuid a \<le> sr_netuid b))
     (deregistrationsByNetuid es)"
    using subnet_rank.sorted_js_sort unfolding deregistrationsByNetuid_def
    by (rule sorted_wrt_mono_rel [rotated]) (auto simp: rank_cmp_def cmp_or_def cmp_str_def split: if_splits)
  have "sum_list (map sr_deregistrations (deregistrationsByNetuid es)) =
        sum_mset (image_mset sr_deregistrations (mset (deregistrationsByNetuid es)))"
    by (metis mset_map sum_mset_sum_list)
  also have "\<dots> = sum_list (map (\<lambda>n. length (filter (\<lambda>e. dd_netuid e = n) es)) (first_seen dd_netuid es))"
    by (simp add: byNetuid_closed subnet_row_def Let_def multiset.map_comp comp_def sum_mset_sum_list [symmetric] mset_map)
  finally show "sum_list (map sr_deregistrations (deregistrationsByNetuid es)) = length es"
    by (simp add: sum_list_partition)
qed

subsection \<open>Network-wide\<close>

record DeregistrationNetworkRollup =
  nr_distinct_hotkeys :: nat
  nr_newest_observed :: "rat option"
  nr_tenure :: TenureDistribution

definition deregistrationsNetworkRollup :: "DerivedDeregistration list \<Rightarrow> DeregistrationNetworkRollup" where
  "deregistrationsNetworkRollup es =
     (let (hotkeys, newest) =
            foldl (\<lambda>(hs, newest) e.
                     (insert (dd_hotkey e) hs,
                      case newest of
                        None \<Rightarrow> Some (dd_observed_at e)
                      | Some t \<Rightarrow> if t < dd_observed_at e then Some (dd_observed_at e) else newest))
              ({}, None) es
      in \<lparr>nr_distinct_hotkeys = card hotkeys, nr_newest_observed = newest, nr_tenure = summarizeTenure es\<rparr>)"

lemma rollup_fold:
  "foldl (\<lambda>(hs, newest) e. (insert (dd_hotkey e) hs,
            case newest of None \<Rightarrow> Some (dd_observed_at e)
            | Some t \<Rightarrow> if t < dd_observed_at e then Some (dd_observed_at e) else newest)) ({}, None) es =
   (dd_hotkey ` set es, if es = [] then None else Some (Max (dd_observed_at ` set es)))"
proof (induction es rule: rev_induct)
  case (snoc e es)
  show ?case
  proof (cases "es = []")
    case False
    then have "Max (insert (dd_observed_at e) (dd_observed_at ` set es)) =
        max (dd_observed_at e) (Max (dd_observed_at ` set es))" by simp
    with snoc False show ?thesis by (simp add: max_def del: Max_less_iff Max_insert)
  qed simp
qed simp

subsection \<open>Per displaced hotkey\<close>

type_synonym DeregistrationHotkeyTuple = "int \<times> nat \<times> rat \<times> rat"

definition hotkey_tuple :: "DerivedDeregistration \<Rightarrow> DeregistrationHotkeyTuple option \<Rightarrow> DeregistrationHotkeyTuple" where
  "hotkey_tuple event found =
     (case found of
        None \<Rightarrow> (dd_netuid event, 1, dd_observed_at event, dd_observed_at event)
      | Some (n, cnt, earliest, latest) \<Rightarrow>
          (n, cnt + 1,
           if dd_observed_at event < earliest then dd_observed_at event else earliest,
           if latest < dd_observed_at event then dd_observed_at event else latest))"

definition hotkey_entry :: "DerivedDeregistration \<Rightarrow> (int \<times> DeregistrationHotkeyTuple) list option \<Rightarrow>
    (int \<times> DeregistrationHotkeyTuple) list" where
  "hotkey_entry event found =
     (let perNetuid = (case found of None \<Rightarrow> [] | Some m \<Rightarrow> m)
      in AList.update (dd_netuid event) (hotkey_tuple event (map_of perNetuid (dd_netuid event))) perNetuid)"

definition deregistrationsByHotkey :: "DerivedDeregistration list \<Rightarrow> string \<rightharpoonup> DeregistrationHotkeyTuple list" where
  "deregistrationsByHotkey es =
     foldl (\<lambda>index (h, perNetuid). obj_set h (map snd perNetuid) index) Map.empty
       (upsert_by dd_hotkey hotkey_entry es)"

definition hotkey_summary :: "DerivedDeregistration list \<Rightarrow> int \<Rightarrow> DeregistrationHotkeyTuple" where
  "hotkey_summary own n =
     (let T = dd_observed_at ` {e \<in> set own. dd_netuid e = n}
      in (n, length (filter (\<lambda>e. dd_netuid e = n) own), Min T, Max T))"

lemma fold_hotkey_tuple:
  assumes "\<And>e. e \<in> set es \<Longrightarrow> dd_netuid e = n"
  shows "fold_step hotkey_tuple es =
   (if es = [] then None
    else Some (n, length es, Min (dd_observed_at ` set es), Max (dd_observed_at ` set es)))"
  using assms
proof (induction es rule: rev_induct)
  case (snoc e es)
  show ?case
  proof (cases "es = []")
    case False
    define m M where "m = Min (dd_observed_at ` set es)" and "M = Max (dd_observed_at ` set es)"
    have IH: "fold_step hotkey_tuple es = Some (n, length es, m, M)"
      using snoc False by (simp add: m_def M_def)
    have "Max (dd_observed_at ` set (es @ [e])) = max (dd_observed_at e) M"
      "Min (dd_observed_at ` set (es @ [e])) = min (dd_observed_at e) m"
      using False by (simp_all add: m_def M_def)
    then show ?thesis by (auto simp: IH hotkey_tuple_def [of e] max_def min_def)
  qed (use snoc.prems in \<open>simp add: fold_step_def hotkey_tuple_def [of e]\<close>)
qed simp

lemma fold_hotkey_entry:
  "fold_step hotkey_entry es = (if es = [] then None else Some (upsert_by dd_netuid hotkey_tuple es))"
  by (induction es rule: rev_induct) (auto simp: hotkey_entry_def Let_def upsert_by_snoc)

lemma upsert_hotkey_tuples: "map snd (upsert_by dd_netuid hotkey_tuple own) = map (hotkey_summary own) (first_seen dd_netuid own)"
proof -
  have "the (fold_step hotkey_tuple (filter (\<lambda>e. dd_netuid e = n) own)) = hotkey_summary own n"
    if "n \<in> set (first_seen dd_netuid own)" for n
  proof -
    have "filter (\<lambda>e. dd_netuid e = n) own \<noteq> []" using that by (auto simp: filter_empty_conv)
    then show ?thesis
      using fold_hotkey_tuple [of "filter (\<lambda>e. dd_netuid e = n) own" n] by (simp add: hotkey_summary_def Let_def)
  qed
  then show ?thesis by (simp add: upsert_by_closed)
qed

text \<open>
  The account index answers for a displaced hotkey with one tuple per subnet it was displaced
  from, in order of first occurrence, holding the number of such events and the earliest and latest
  of their times; a hotkey that was displaced nowhere, or the reserved property name, has no entry.
\<close>

theorem hotkey_index_entries:
  "deregistrationsByHotkey es h =
   (let own = filter (\<lambda>e. dd_hotkey e = h) es
    in if own = [] \<or> h = ''__proto__'' then None
       else Some (map (hotkey_summary own) (first_seen dd_netuid own)))"
proof (cases "h = ''__proto__''")
  case True
  have "foldl (\<lambda>index (h, m). obj_set h (f m) index) m0 kvs ''__proto__'' = m0 ''__proto__''"
    for kvs :: "(string \<times> 'x) list" and f :: "'x \<Rightarrow> 'y" and m0
    by (induction kvs arbitrary: m0) (auto simp: obj_set_def)
  with True show ?thesis by (simp add: deregistrationsByHotkey_def Let_def)
next
  case False
  let ?u = "upsert_by dd_hotkey hotkey_entry es"
  have "foldl (\<lambda>index (h, m). obj_set h (map snd m) index) m0 kvs =
        foldl (\<lambda>index (h, ts). obj_set h ts index) m0 (map (\<lambda>(h, m). (h, map snd m)) kvs)"
    for m0 :: "string \<rightharpoonup> DeregistrationHotkeyTuple list" and kvs :: "(string \<times> (int \<times> DeregistrationHotkeyTuple) list) list"
    by (induction kvs arbitrary: m0) auto
  moreover have "distinct (map fst (map (\<lambda>(h, m). (h, map snd m)) ?u))"
    using distinct_first_seen keys_upsert_by [of dd_hotkey hotkey_entry es]
    by (simp add: comp_def case_prod_beta)
  ultimately have "deregistrationsByHotkey es h =
      (case map_of (map (\<lambda>(h, m). (h, map snd m)) ?u) h of None \<Rightarrow> None | Some v \<Rightarrow> Some v)"
    using False by (simp add: deregistrationsByHotkey_def foldl_obj_set)
  also have "\<dots> = map_option (map snd) (map_of ?u h)"
    by (simp add: map_of_map split: option.split)
  finally show ?thesis
    using False by (simp add: map_of_upsert_by fold_hotkey_entry upsert_hotkey_tuples Let_def)
qed

subsection \<open>Per subnet and UID\<close>

type_synonym DeregistrationUidTuple = "int \<times> string \<times> string \<times> int \<times> rat \<times> int option"

definition uid_tuple :: "DerivedDeregistration \<Rightarrow> DeregistrationUidTuple" where
  "uid_tuple e =
     (dd_uid e, dd_hotkey e, successor e, dd_block_number e, dd_observed_at e, tenure_blocks e)"

definition tuple_block :: "DeregistrationUidTuple \<Rightarrow> int" where
  "tuple_block = (\<lambda>(_, _, _, b, _, _). b)"

definition tuple_observed :: "DeregistrationUidTuple \<Rightarrow> rat" where
  "tuple_observed = (\<lambda>(_, _, _, _, t, _). t)"

definition newest_cmp :: "DeregistrationUidTuple \<Rightarrow> DeregistrationUidTuple \<Rightarrow> int" where
  "newest_cmp a b = cmp_or (cmp_str (tuple_observed b) (tuple_observed a))
                           (cmp_str (tuple_block b) (tuple_block a))"

definition uid_bucket :: "DerivedDeregistration \<Rightarrow> DeregistrationUidTuple list option \<Rightarrow> DeregistrationUidTuple list" where
  "uid_bucket event found = (case found of None \<Rightarrow> [] | Some b \<Rightarrow> b) @ [uid_tuple event]"

definition deregistrationsByNetuidUid :: "DerivedDeregistration list \<Rightarrow> string \<rightharpoonup> DeregistrationUidTuple list" where
  "deregistrationsByNetuidUid es =
     foldl (\<lambda>index (n, rows). obj_set (string_of_int n) (js_sort newest_cmp rows) index) Map.empty
       (upsert_by dd_netuid uid_bucket es)"

interpretation newest_order: key_comparator newest_cmp
  unfolding newest_cmp_def by (intro key_comparators)

lemma fold_uid_bucket: "fold_step uid_bucket es = (if es = [] then None else Some (map uid_tuple es))"
  by (induction es rule: rev_induct) (auto simp: uid_bucket_def)

lemma uid_index_lookup:
  "deregistrationsByNetuidUid es (string_of_int n) =
   (if n \<in> dd_netuid ` set es
    then Some (js_sort newest_cmp (map uid_tuple (filter (\<lambda>e. dd_netuid e = n) es))) else None)"
proof -
  let ?u = "upsert_by dd_netuid uid_bucket es"
  let ?f = "\<lambda>(n, rows). (string_of_int n, js_sort newest_cmp rows)"
  have "foldl (\<lambda>index (n, rows). obj_set (string_of_int n) (js_sort newest_cmp rows) index) m0 kvs =
        foldl (\<lambda>index (k, v). obj_set k v index) m0 (map ?f kvs)"
    for m0 :: "string \<rightharpoonup> DeregistrationUidTuple list" and kvs :: "(int \<times> DeregistrationUidTuple list) list"
    by (induction kvs arbitrary: m0) auto
  moreover have "distinct (map fst (map ?f kvs))" if "distinct (map fst kvs)" for kvs
    using that by (induction kvs) (auto simp: image_iff)
  then have "distinct (map fst (map ?f ?u))" by (simp add: keys_upsert_by)
  ultimately have "deregistrationsByNetuidUid es (string_of_int n) =
      (case map_of (map ?f ?u) (string_of_int n) of None \<Rightarrow> None | Some v \<Rightarrow> Some v)"
    by (simp add: deregistrationsByNetuidUid_def foldl_obj_set)
  also have "map_of (map ?f kvs) (string_of_int n) = map_option (js_sort newest_cmp) (map_of kvs n)" for kvs
    by (induction kvs) auto
  finally show ?thesis
    by (auto simp: map_of_upsert_by fold_uid_bucket filter_empty_conv split: option.split)
qed

text \<open>
  The per-UID index holds, for a subnet with derived events, exactly that subnet's events,
  newest first (by time, then by block), so a caller that takes the first rows takes the most
  recent ones; events of one time and block keep the order they were derived in.
\<close>

theorem uid_index_newest_first:
  assumes "n \<in> dd_netuid ` set es"
  shows "\<exists>rows. deregistrationsByNetuidUid es (string_of_int n) = Some rows \<and>
           mset rows = mset (map uid_tuple (filter (\<lambda>e. dd_netuid e = n) es)) \<and>
           sorted_wrt (\<lambda>a b. tuple_observed b < tuple_observed a \<or>
              (tuple_observed a = tuple_observed b \<and> tuple_block b \<le> tuple_block a)) rows \<and>
           filter (\<lambda>r. tuple_observed r = t \<and> tuple_block r = b) rows =
             filter (\<lambda>r. tuple_observed r = t \<and> tuple_block r = b)
               (map uid_tuple (filter (\<lambda>e. dd_netuid e = n) es))"
proof (intro exI conjI)
  let ?rows = "js_sort newest_cmp (map uid_tuple (filter (\<lambda>e. dd_netuid e = n) es))"
  show "deregistrationsByNetuidUid es (string_of_int n) = Some ?rows"
    using assms by (simp add: uid_index_lookup)
  show "mset ?rows = mset (map uid_tuple (filter (\<lambda>e. dd_netuid e = n) es))" by simp
  show "sorted_wrt (\<lambda>a b. tuple_observed b < tuple_observed a \<or>
          (tuple_observed a = tuple_observed b \<and> tuple_block b \<le> tuple_block a)) ?rows"
    using newest_order.sorted_js_sort
    by (rule sorted_wrt_mono_rel [rotated]) (auto simp: newest_cmp_def cmp_or_def cmp_str_def split: if_splits)
  show "filter (\<lambda>r. tuple_observed r = t \<and> tuple_block r = b) ?rows =
        filter (\<lambda>r. tuple_observed r = t \<and> tuple_block r = b) (map uid_tuple (filter (\<lambda>e. dd_netuid e = n) es))"
    by (rule newest_order.js_sort_stable) (simp add: newest_cmp_def cmp_or_def)
qed

lemma uid_index_newest_first_witness:
  "deregistrationsByNetuidUid (events (deriveDeregistrations (Some [sample_row ''b'' 9, sample_row ''a'' 5]) 0))
     (string_of_int 1) \<noteq> None"
  using uid_index_newest_first [of 1 "events (deriveDeregistrations (Some [sample_row ''b'' 9, sample_row ''a'' 5]) 0)"]
  by (force simp: sample_events derived_event_def)

subsection \<open>Reading the account index back\<close>

definition deregistrationRowsForHotkey :: "json \<Rightarrow> json list" where
  "deregistrationRowsForHotkey tuples =
     (case tuples of
        JArr ts \<Rightarrow>
          List.map_filter (\<lambda>tuple. case tuple of
              JArr cells \<Rightarrow>
                if length cells < 4 then None
                else Some (JObj [(''netuid'', cells ! 0), (''deregistrations'', cells ! 1),
                                 (''first_observed'', cells ! 2), (''last_observed'', cells ! 3)])
            | _ \<Rightarrow> None) ts
      | _ \<Rightarrow> [])"

definition tuple_json :: "DeregistrationHotkeyTuple \<Rightarrow> json" where
  "tuple_json = (\<lambda>(n, cnt, earliest, latest). JArr [JInt n, JInt (int cnt), JNum (Fin earliest), JNum (Fin latest)])"

text \<open>
  What the index publishes for an account reads back row by row: each tuple becomes the row with
  its subnet, its count and its two times, none dropped.
\<close>

lemma rows_for_hotkey_roundtrip:
  "deregistrationRowsForHotkey (JArr (map tuple_json ts)) =
   map (\<lambda>(n, cnt, earliest, latest).
          JObj [(''netuid'', JInt n), (''deregistrations'', JInt (int cnt)),
                (''first_observed'', JNum (Fin earliest)), (''last_observed'', JNum (Fin latest))]) ts"
  by (induction ts) (auto simp: deregistrationRowsForHotkey_def tuple_json_def map_filter_Cons)

end
