(* ===== verification/Axon_Removal.thy ===== *)
theory Axon_Removal
  imports Js_Prelude
begin

text \<open>
  Axon removals derived from the daily axon state (\<open>src/axon-removal-derivation.ts\<close>) and the
  reachability predicate they rest on (\<open>src/axon-routable.ts\<close>).

  A row's cells are scalars of unknown type, except that the snapshot date may also be a \<open>Date\<close>,
  which is then a valid one (its time value in milliseconds).  The slot key, the text of two
  numbers around a colon, is the pair of the numbers.  The optional callback \<open>onExcluded\<close> is the
  list of the calls made to it.
\<close>

section \<open>Reachability of an announced axon\<close>

definition UNROUTABLE_AXON_V4_PREFIXES :: "string list" where
  "UNROUTABLE_AXON_V4_PREFIXES =
     [''0.'', ''10.'', ''127.'', ''192.168.'', ''192.0.2.'', ''198.51.100.'', ''203.0.113.''] @
     map (\<lambda>i. ''172.'' @ string_of_nat (i + 16) @ ''.'') [0..<16]"

definition UNROUTABLE_AXON_V6_PREFIXES :: "string list" where
  "UNROUTABLE_AXON_V6_PREFIXES = [''fc'', ''fd'', ''fe8'', ''fe9'', ''fea'', ''feb'']"

definition UNROUTABLE_AXON_V6_EXACT :: "string list" where
  "UNROUTABLE_AXON_V6_EXACT = [''::'', ''::1'']"

text \<open>
  The anchored patterns: an alternation of the IPv4 prefixes; and of the exact IPv6 addresses and
  the IPv6 prefixes, whose letters match in either case.
\<close>

definition matches_v4 :: "string \<Rightarrow> bool" where
  "matches_v4 address \<longleftrightarrow> list_ex (\<lambda>p. starts_with p address) UNROUTABLE_AXON_V4_PREFIXES"

definition matches_v6 :: "string \<Rightarrow> bool" where
  "matches_v6 address \<longleftrightarrow>
     list_ex (\<lambda>v. address = v) UNROUTABLE_AXON_V6_EXACT \<or>
     list_ex (\<lambda>p. starts_with p (lower (take (length p) address))) UNROUTABLE_AXON_V6_PREFIXES"

definition splitAxon :: "string \<Rightarrow> string \<times> string" where
  "splitAxon axon =
     (if CHR '':'' \<notin> set axon then (axon, [])
      else let port = rev (takeWhile (\<lambda>c. c \<noteq> CHR '':'') (rev axon))
           in (take (length axon - length port - 1) axon, port))"

definition isRoutableAxon :: "jsval \<Rightarrow> bool" where
  "isRoutableAxon v =
     (case v of
        VStr axon \<Rightarrow>
          if axon = [] then False
          else let address = fst (splitAxon axon)
               in if address = [] then False
                  else if CHR '':'' \<in> set address then \<not> matches_v6 address
                  else \<not> matches_v4 address
      | _ \<Rightarrow> False)"

text \<open>The split is at the last colon: the two parts make the announcement, the port has no colon.\<close>

lemma splitAxon_last_colon:
  assumes "CHR '':'' \<in> set axon"
  shows "fst (splitAxon axon) @ CHR '':'' # snd (splitAxon axon) = axon \<and> CHR '':'' \<notin> set (snd (splitAxon axon))"
proof -
  let ?t = "takeWhile (\<lambda>c. c \<noteq> CHR '':'') (rev axon)"
  let ?d = "dropWhile (\<lambda>c. c \<noteq> CHR '':'') (rev axon)"
  have ne: "?d \<noteq> []" using assms by (auto simp: dropWhile_eq_Nil_conv)
  then have "hd ?d = CHR '':''" using hd_dropWhile [OF ne] by simp
  with ne obtain r where r: "?d = CHR '':'' # r" by (cases ?d) auto
  have "rev axon = ?t @ CHR '':'' # r" using r takeWhile_dropWhile_id [of _ "rev axon"] by metis
  then have ax: "axon = rev (?t @ CHR '':'' # r)" by (simp only: rev_swap)
  define p where "p = rev ?t"
  have ax': "axon = rev r @ CHR '':'' # p" using ax by (simp add: p_def)
  then have "take (length axon - length p - 1) axon = rev r" by simp
  moreover have "CHR '':'' \<notin> set p" using set_takeWhileD by (fastforce simp: p_def)
  moreover have "splitAxon axon = (take (length axon - length p - 1) axon, p)"
    unfolding splitAxon_def Let_def p_def [symmetric] using assms by (simp only: if_False simp_thms not_True_eq_False)
  ultimately show ?thesis using ax' by simp
qed

section \<open>Reading a row\<close>

datatype snapshot_cell = DateCell int | ValueCell jsval

record NeuronAxonDayRow =
  ar_netuid :: jsval
  ar_uid :: jsval
  ar_snapshot_date :: snapshot_cell
  ar_hotkey :: jsval
  ar_axon :: jsval

record NormalizedDay =
  nd_netuid :: int
  nd_uid :: int
  nd_date :: string
  nd_hotkey :: string
  nd_axon :: "string option"
  nd_announced :: "string option"

definition normalize_day :: "NeuronAxonDayRow \<Rightarrow> NormalizedDay option" where
  "normalize_day row =
     (let n = js_number (ar_netuid row); u = js_number (ar_uid row)
      in if \<not> is_integer_num n \<or> \<not> is_integer_num u then None
         else let hotkey = (case ar_hotkey row of VStr h \<Rightarrow> h | _ \<Rightarrow> [])
              in if hotkey = [] then None
                 else let date = (case ar_snapshot_date row of
                                    DateCell ms \<Rightarrow> iso_date ms
                                  | ValueCell (VStr raw) \<Rightarrow> if 10 \<le> length raw then take 10 raw else []
                                  | _ \<Rightarrow> [])
                      in if date = [] then None
                         else let announced = (case ar_axon row of VStr a \<Rightarrow> if a \<noteq> [] then Some a else None | _ \<Rightarrow> None);
                                  axon = (case announced of
                                            Some a \<Rightarrow> if isRoutableAxon (VStr a) then Some a else None
                                          | None \<Rightarrow> None)
                              in Some \<lparr>nd_netuid = num_int n, nd_uid = num_int u, nd_date = date, nd_hotkey = hotkey,
                                       nd_axon = axon, nd_announced = announced\<rparr>)"

definition day_slot :: "NormalizedDay \<Rightarrow> int \<times> int" where
  "day_slot d = (nd_netuid d, nd_uid d)"

section \<open>The derivation\<close>

datatype AxonRemovalKind = StoppedAnnouncing | MovedUnroutable

datatype excluded_kind = UidReuse | Pending

record DerivedAxonRemoval =
  rm_netuid :: int
  rm_uid :: int
  rm_hotkey :: string
  removed_on :: string
  previous_axon :: string
  rm_kind :: AxonRemovalKind
  current_axon :: "string option"

record removal_state =
  removals :: "DerivedAxonRemoval list"
  excludedUidReuse :: nat
  pending :: nat
  excluded_calls :: "(excluded_kind \<times> string) list"

record AxonRemovalDerivation =
  derivation_method :: string
  lookback_days :: nat
  excluded_uid_reuse :: nat
  pending_confirmation :: nat
  moved_unroutable :: nat

definition AXON_REMOVAL_DERIVATION_METHOD :: string where
  "AXON_REMOVAL_DERIVATION_METHOD = ''axon-state-diff''"

definition date_cmp :: "NormalizedDay \<Rightarrow> NormalizedDay \<Rightarrow> int" where
  "date_cmp a b = cmp_str (nd_date a) (nd_date b)"

definition removal_cmp :: "DerivedAxonRemoval \<Rightarrow> DerivedAxonRemoval \<Rightarrow> int" where
  "removal_cmp a b =
     cmp_or (cmp_str (removed_on b) (removed_on a))
       (cmp_or (cmp_str (rm_netuid a) (rm_netuid b)) (cmp_str (rm_uid a) (rm_uid b)))"

text \<open>One transition of a slot: \<open>rest\<close> are the observations after the current one.\<close>

definition transition :: "string option \<Rightarrow> NormalizedDay \<Rightarrow> NormalizedDay \<Rightarrow> NormalizedDay list \<Rightarrow>
    removal_state \<Rightarrow> removal_state" where
  "transition sinceDate previous current rest st =
     (if (case sinceDate of Some d \<Rightarrow> nd_date current < d | None \<Rightarrow> False) then st
      else case nd_axon previous of
             None \<Rightarrow> st
           | Some prev_axon \<Rightarrow>
               if nd_axon current \<noteq> None then st
               else if nd_hotkey previous \<noteq> nd_hotkey current then
                 st\<lparr>excludedUidReuse := excludedUidReuse st + 1,
                    excluded_calls := excluded_calls st @ [(UidReuse, nd_date current)]\<rparr>
               else (case find (\<lambda>day. nd_hotkey day = nd_hotkey current) rest of
                       None \<Rightarrow> st\<lparr>pending := pending st + 1,
                                  excluded_calls := excluded_calls st @ [(Pending, nd_date current)]\<rparr>
                     | Some later \<Rightarrow>
                         if nd_axon later \<noteq> None then st
                         else st\<lparr>removals := removals st @
                                   [\<lparr>rm_netuid = nd_netuid current, rm_uid = nd_uid current,
                                     rm_hotkey = nd_hotkey current, removed_on = nd_date current,
                                     previous_axon = prev_axon,
                                     rm_kind = (if nd_announced current = None then StoppedAnnouncing
                                                else MovedUnroutable),
                                     current_axon = nd_announced current\<rparr>]\<rparr>))"

fun scan_slot :: "string option \<Rightarrow> NormalizedDay list \<Rightarrow> removal_state \<Rightarrow> removal_state" where
  "scan_slot sinceDate (previous # current # rest) st =
     scan_slot sinceDate (current # rest) (transition sinceDate previous current rest st)"
| "scan_slot sinceDate _ st = st"

definition axon_days :: "NeuronAxonDayRow list option \<Rightarrow> NormalizedDay list" where
  "axon_days rows = List.map_filter normalize_day (case rows of Some rs \<Rightarrow> rs | None \<Rightarrow> [])"

definition scan_slots :: "NeuronAxonDayRow list option \<Rightarrow> string option \<Rightarrow> removal_state" where
  "scan_slots rows sinceDate =
     foldl (\<lambda>st (_, bucket). scan_slot sinceDate (js_sort date_cmp bucket) st)
       \<lparr>removals = [], excludedUidReuse = 0, pending = 0, excluded_calls = []\<rparr>
       (bucket_by day_slot (axon_days rows))"

definition deriveAxonRemovals :: "NeuronAxonDayRow list option \<Rightarrow> nat \<Rightarrow> string option \<Rightarrow>
    DerivedAxonRemoval list \<times> AxonRemovalDerivation \<times> (excluded_kind \<times> string) list" where
  "deriveAxonRemovals rows lookbackDays sinceDate =
     (let st = scan_slots rows sinceDate; rs = js_sort removal_cmp (removals st)
      in (rs, \<lparr>derivation_method = AXON_REMOVAL_DERIVATION_METHOD, lookback_days = lookbackDays,
               excluded_uid_reuse = excludedUidReuse st, pending_confirmation = pending st,
               moved_unroutable = length (filter (\<lambda>r. rm_kind r = MovedUnroutable) rs)\<rparr>,
          excluded_calls st))"

definition isoDaysAgo :: "int \<Rightarrow> int \<Rightarrow> string" where
  "isoDaysAgo nowMs days = iso_date (nowMs - days * MS_PER_DAY)"

interpretation day_order: key_comparator date_cmp
  unfolding date_cmp_def by (intro key_comparators)

interpretation removal_order: key_comparator removal_cmp
  unfolding removal_cmp_def by (intro key_comparators)

section \<open>What the derivation computes\<close>

text \<open>
  The transitions of a slot (two consecutive observations and what follows), and what each one is:
  no loss of reachability, a reused UID, an unconfirmed loss, a flap, or a removal.
\<close>

datatype outcome = NoLoss | Reused | Unconfirmed | Flap | Removed DerivedAxonRemoval

fun transitions :: "NormalizedDay list \<Rightarrow> (NormalizedDay \<times> NormalizedDay \<times> NormalizedDay list) list" where
  "transitions (previous # current # rest) = (previous, current, rest) # transitions (current # rest)"
| "transitions _ = []"

fun classify :: "NormalizedDay \<times> NormalizedDay \<times> NormalizedDay list \<Rightarrow> outcome" where
  "classify (p, c, rest) =
     (case nd_axon p of
        None \<Rightarrow> NoLoss
      | Some a \<Rightarrow>
          if nd_axon c \<noteq> None then NoLoss
          else if nd_hotkey p \<noteq> nd_hotkey c then Reused
          else case find (\<lambda>day. nd_hotkey day = nd_hotkey c) rest of
                 None \<Rightarrow> Unconfirmed
               | Some later \<Rightarrow>
                   if nd_axon later \<noteq> None then Flap
                   else Removed \<lparr>rm_netuid = nd_netuid c, rm_uid = nd_uid c, rm_hotkey = nd_hotkey c,
                                 removed_on = nd_date c, previous_axon = a,
                                 rm_kind = (if nd_announced c = None then StoppedAnnouncing else MovedUnroutable),
                                 current_axon = nd_announced c\<rparr>)"

fun excluded_call :: "NormalizedDay \<times> NormalizedDay \<times> NormalizedDay list \<Rightarrow> (excluded_kind \<times> string) option" where
  "excluded_call (p, c, rest) =
     (case classify (p, c, rest) of
        Reused \<Rightarrow> Some (UidReuse, nd_date c) | Unconfirmed \<Rightarrow> Some (Pending, nd_date c) | _ \<Rightarrow> None)"

definition removed :: "NormalizedDay \<times> NormalizedDay \<times> NormalizedDay list \<Rightarrow> DerivedAxonRemoval option" where
  "removed t = (case classify t of Removed r \<Rightarrow> Some r | _ \<Rightarrow> None)"

fun in_range :: "string option \<Rightarrow> NormalizedDay \<times> NormalizedDay \<times> NormalizedDay list \<Rightarrow> bool" where
  "in_range sinceDate (p, c, rest) = (case sinceDate of Some d \<Rightarrow> d \<le> nd_date c | None \<Rightarrow> True)"

definition slot_transitions :: "NeuronAxonDayRow list option \<Rightarrow> (NormalizedDay \<times> NormalizedDay \<times> NormalizedDay list) list" where
  "slot_transitions rows =
     concat (map (\<lambda>(_, bucket). transitions (js_sort date_cmp bucket)) (bucket_by day_slot (axon_days rows)))"

definition add_transitions :: "string option \<Rightarrow> (NormalizedDay \<times> NormalizedDay \<times> NormalizedDay list) list \<Rightarrow>
    removal_state \<Rightarrow> removal_state" where
  "add_transitions sinceDate ts st =
     (let w = filter (in_range sinceDate) ts
      in \<lparr>removals = removals st @ List.map_filter removed w,
          excludedUidReuse = excludedUidReuse st + length (filter (\<lambda>t. classify t = Reused) w),
          pending = pending st + length (filter (\<lambda>t. classify t = Unconfirmed) w),
          excluded_calls = excluded_calls st @ List.map_filter excluded_call w\<rparr>)"

lemma add_transitions_Nil [simp]: "add_transitions s [] st = st"
  by (simp add: add_transitions_def)

lemma add_transitions_append:
  "add_transitions s (xs @ ys) st = add_transitions s ys (add_transitions s xs st)"
  by (simp add: add_transitions_def Let_def)

lemma transition_add: "transition s p c rest st = add_transitions s [(p, c, rest)] st"
  by (cases "find (\<lambda>day. nd_hotkey day = nd_hotkey c) rest")
    (auto simp: transition_def add_transitions_def Let_def removed_def map_filter_Cons not_less
      split: option.splits)

lemma scan_slot_add: "scan_slot s xs st = add_transitions s (transitions xs) st"
proof (induction xs arbitrary: st rule: transitions.induct)
  case (1 p c rest)
  have "transitions (p # c # rest) = [(p, c, rest)] @ transitions (c # rest)" by simp
  then show ?case by (simp only: scan_slot.simps transition_add 1 add_transitions_append)
qed (simp_all add: add_transitions_def)

lemma scan_slots_add:
  "scan_slots rows s = add_transitions s (slot_transitions rows)
     \<lparr>removals = [], excludedUidReuse = 0, pending = 0, excluded_calls = []\<rparr>"
proof -
  have "foldl (\<lambda>st (_, b). scan_slot s (js_sort date_cmp b) st) st bs =
        add_transitions s (concat (map (\<lambda>(_, b). transitions (js_sort date_cmp b)) bs)) st"
    for st and bs :: "((int \<times> int) \<times> NormalizedDay list) list"
    by (induction bs arbitrary: st) (auto simp: scan_slot_add add_transitions_append)
  then show ?thesis by (simp add: scan_slots_def slot_transitions_def)
qed

lemma transitions_nth:
  "(p, c, rest) \<in> set (transitions xs) \<Longrightarrow>
   \<exists>i. Suc i < length xs \<and> p = xs ! i \<and> c = xs ! Suc i \<and> rest = drop (Suc (Suc i)) xs"
proof (induction xs rule: transitions.induct)
  case (1 a b xs)
  show ?case
  proof (cases "(p, c, rest) = (a, b, xs)")
    case True
    then show ?thesis by (intro exI [of _ 0]) simp
  next
    case False
    then obtain i where "Suc i < length (b # xs)" "p = (b # xs) ! i" "c = (b # xs) ! Suc i"
      "rest = drop (Suc (Suc i)) (b # xs)"
      using 1 by auto
    then show ?thesis by (intro exI [of _ "Suc i"]) simp
  qed
qed simp_all


text \<open>
  Deriving with a window is cutting the window out of the whole derivation: the removals, and
  the exclusions reported, are those dated inside it, in the same order.
\<close>

theorem removal_window:
  "fst (deriveAxonRemovals rows L (Some d)) = filter (\<lambda>r. d \<le> removed_on r) (fst (deriveAxonRemovals rows L None)) \<and>
   snd (snd (deriveAxonRemovals rows L (Some d))) =
     filter (\<lambda>(_, day). d \<le> day) (snd (snd (deriveAxonRemovals rows L None)))"
proof -
  let ?ts = "slot_transitions rows"
  have "List.map_filter removed (filter (in_range (Some d)) ?ts) = filter (\<lambda>r. d \<le> removed_on r) (List.map_filter removed ?ts)"
    by (rule map_filter_filter) (auto simp: removed_def split: outcome.splits option.splits if_splits)
  moreover have "List.map_filter excluded_call (filter (in_range (Some d)) ?ts) =
      filter (\<lambda>(_, day). d \<le> day) (List.map_filter excluded_call ?ts)"
    by (rule map_filter_filter) (auto split: outcome.splits)
  moreover have "filter (in_range None) ?ts = ?ts" by (rule filter_True) auto
  ultimately show ?thesis
    by (simp add: deriveAxonRemovals_def Let_def scan_slots_add add_transitions_def removal_order.filter_js_sort)
qed

text \<open>
  Every loss of reachability in the window is classified exactly once: as a published removal, a
  reused UID, a pending confirmation, or a flap that came back on the next reading of the hotkey;
  removals are published newest day first.
\<close>

theorem removal_accounting:
  "length (fst (deriveAxonRemovals rows L s)) + excluded_uid_reuse (fst (snd (deriveAxonRemovals rows L s)))
     + pending_confirmation (fst (snd (deriveAxonRemovals rows L s)))
     + length (filter (\<lambda>t. in_range s t \<and> classify t = Flap) (slot_transitions rows))
   = length (filter (\<lambda>(p, c, rest). in_range s (p, c, rest) \<and> nd_axon p \<noteq> None \<and> nd_axon c = None)
       (slot_transitions rows)) \<and>
   sorted_wrt (\<lambda>a b. removed_on b \<le> removed_on a) (fst (deriveAxonRemovals rows L s))"
proof
  have "length (List.map_filter removed (filter (in_range s) ts)) +
      length (filter (\<lambda>t. classify t = Reused) (filter (in_range s) ts)) +
      length (filter (\<lambda>t. classify t = Unconfirmed) (filter (in_range s) ts)) +
      length (filter (\<lambda>t. in_range s t \<and> classify t = Flap) ts) =
      length (filter (\<lambda>(p, c, rest). in_range s (p, c, rest) \<and> nd_axon p \<noteq> None \<and> nd_axon c = None) ts)" for ts
  proof (induction ts)
    case (Cons t ts)
    obtain p c rest where t: "t = (p, c, rest)" by (cases t)
    have "(nd_axon p \<noteq> None \<and> nd_axon c = None) = (classify t \<noteq> NoLoss)"
      using t by (auto split: option.splits)
    with Cons t show ?case by (cases "classify t") (auto simp: map_filter_Cons removed_def)
  qed simp
  then show "length (fst (deriveAxonRemovals rows L s)) + excluded_uid_reuse (fst (snd (deriveAxonRemovals rows L s)))
     + pending_confirmation (fst (snd (deriveAxonRemovals rows L s)))
     + length (filter (\<lambda>t. in_range s t \<and> classify t = Flap) (slot_transitions rows))
   = length (filter (\<lambda>(p, c, rest). in_range s (p, c, rest) \<and> nd_axon p \<noteq> None \<and> nd_axon c = None)
       (slot_transitions rows))"
    by (simp add: deriveAxonRemovals_def Let_def scan_slots_add add_transitions_def)
  show "sorted_wrt (\<lambda>a b. removed_on b \<le> removed_on a) (fst (deriveAxonRemovals rows L s))"
    unfolding deriveAxonRemovals_def Let_def fst_conv
    using removal_order.sorted_js_sort
    by (rule sorted_wrt_mono_rel [rotated]) (auto simp: removal_cmp_def cmp_or_def cmp_str_def split: if_splits)
qed

text \<open>
  A missing subnet or UID is read as zero: the guard coerces first, so the row of a null cell lands
  on slot zero of subnet zero and takes part in the derivation.
\<close>

lemma null_cells_read_as_slot_zero:
  "\<exists>d. normalize_day \<lparr>ar_netuid = VNull, ar_uid = VNull, ar_snapshot_date = ValueCell (VStr ''2026-08-16''),
         ar_hotkey = VStr ''5F'', ar_axon = VNull\<rparr> = Some d \<and> day_slot d = (0, 0)"
  by (simp add: normalize_day_def Let_def day_slot_def)

definition sample_day :: "string \<Rightarrow> jsval \<Rightarrow> NeuronAxonDayRow" where
  "sample_day day axon =
     \<lparr>ar_netuid = VNum (js_int 7), ar_uid = VNum (js_int 3), ar_snapshot_date = ValueCell (VStr day),
      ar_hotkey = VStr ''5F'', ar_axon = axon\<rparr>"

lemma sample_routable:
  "isRoutableAxon (VStr ''8.8.8.8:80'') = True" "isRoutableAxon (VStr ''10.0.0.1:80'') = False"
  "isRoutableAxon (VStr ''::1:80'') = False"
  by code_simp+

lemma sample_removals:
  "fst (deriveAxonRemovals (Some [sample_day ''2026-08-03'' (VStr ''10.0.0.1:80''), sample_day ''2026-08-01'' (VStr ''8.8.8.8:80''),
      sample_day ''2026-08-02'' (VStr ''10.0.0.1:80'')]) 30 None) =
   [\<lparr>rm_netuid = 7, rm_uid = 3, rm_hotkey = ''5F'', removed_on = ''2026-08-02'', previous_axon = ''8.8.8.8:80'',
     rm_kind = MovedUnroutable, current_axon = Some ''10.0.0.1:80''\<rparr>]"
proof -
  have n: "normalize_day (sample_day d (VStr a)) = Some \<lparr>nd_netuid = 7, nd_uid = 3, nd_date = d, nd_hotkey = ''5F'',
        nd_axon = (if isRoutableAxon (VStr a) then Some a else None), nd_announced = Some a\<rparr>"
    if "length d = 10" "a \<noteq> []" for d a
    using that by (auto simp: normalize_day_def sample_day_def Let_def)
  have lt: "''2026-08-01'' < ''2026-08-02''" "''2026-08-02'' < ''2026-08-03''" "''2026-08-01'' < ''2026-08-03''"
    by code_simp+
  show ?thesis
    using lt by (simp add: deriveAxonRemovals_def Let_def scan_slots_def axon_days_def map_filter_Cons n sample_routable
        bucket_by_def bucket_push_def day_slot_def js_sort_Cons date_cmp_def cmp_str_def transition_def less_not_sym)
qed


end
