(* ===== verification/Native_Cron.thy ===== *)
theory Native_Cron
  imports Js_Prelude
begin

text \<open>
  The UTC cron grid of the native runtime (\<open>src/native-cron.ts\<close>): the field reader, the parser and
  the window of occurrences between two timestamps.  Times are milliseconds; on the safe integers
  the window accepts, the quotients of the code are exact, so they are integer divisions here.  A
  digit string is compared as the number it spells: every bound it meets is at most 60.
\<close>

definition MINUTE :: int where "MINUTE = 60000"
definition DAY :: int where "DAY = 1440 * MINUTE"

datatype cron_error = UnsupportedStep | UnsupportedField | WildcardRequired | UnorderedWindow

record NativeCronWindow =
  cw_count :: int
  cw_first :: "int option"
  cw_last :: "int option"
  cw_previous :: "int option"

section \<open>Fields\<close>

function step_values :: "nat \<Rightarrow> nat \<Rightarrow> nat \<Rightarrow> nat list" where
  "step_values v sz step =
     (if sz \<le> v \<or> step = 0 then [] else v # step_values (v + step) sz step)"
  by auto
termination by (relation "measure (\<lambda>(v, sz, step). sz - v)") auto

declare step_values.simps [simp del]

definition set_add :: "'a list \<Rightarrow> 'a \<Rightarrow> 'a list" where
  "set_add xs x = (if x \<in> set xs then xs else xs @ [x])"

text \<open>\<open>/^\*\/[1-9]\d*$/\<close>, and the digits after the slash.\<close>

fun step_item :: "string \<Rightarrow> string option" where
  "step_item (a # b # ds) =
     (if a = CHR ''*'' \<and> b = CHR ''/'' \<and> all_digits ds \<and> hd ds \<noteq> CHR ''0'' then Some ds else None)"
| "step_item _ = None"

definition item_values :: "nat \<Rightarrow> string \<Rightarrow> cron_error + nat list" where
  "item_values sz item =
     (if item = ''*'' then Inr [0..<sz]
      else case step_item item of
             Some ds \<Rightarrow>
               let step = nat_of_digits ds
               in if sz < step then Inl UnsupportedStep else Inr (step_values 0 sz step)
           | None \<Rightarrow>
               if all_digits item \<and> nat_of_digits item < sz then Inr [nat_of_digits item]
               else Inl UnsupportedField)"

fun add_items :: "nat \<Rightarrow> string list \<Rightarrow> nat list \<Rightarrow> cron_error + nat list" where
  "add_items sz [] vals = Inr vals"
| "add_items sz (item # items) vals =
     (case item_values sz item of
        Inl e \<Rightarrow> Inl e
      | Inr vs \<Rightarrow> add_items sz items (foldl set_add vals vs))"

definition cron_field :: "string \<Rightarrow> nat \<Rightarrow> cron_error + nat list" where
  "cron_field source sz =
     (case add_items sz (split_on CHR '','' source) [] of
        Inl e \<Rightarrow> Inl e
      | Inr vals \<Rightarrow> Inr (js_sort cmp_str vals))"

section \<open>The parser and its window\<close>

definition parseNativeCron :: "string \<Rightarrow> cron_error + nat list" where
  "parseNativeCron cron =
     (let fields = split_on CHR '' '' cron
      in if length fields \<noteq> 5 \<or> list_ex (\<lambda>v. v \<noteq> ''*'') (drop 2 fields) then Inl WildcardRequired
         else case cron_field (fields ! 0) 60 of
                Inl e \<Rightarrow> Inl e
              | Inr minutes \<Rightarrow>
                  (case cron_field (fields ! 1) 24 of
                     Inl e \<Rightarrow> Inl e
                   | Inr hours \<Rightarrow>
                       Inr (concat (map (\<lambda>hour. map (\<lambda>minute. hour * 60 + minute) minutes) hours))))"

definition countThrough :: "nat list \<Rightarrow> int \<Rightarrow> int" where
  "countThrough offsets time =
     (if time = -1 then 0
      else let days = time div DAY; minute = (time - days * DAY) div MINUTE
           in days * int (length offsets) + int (length (filter (\<lambda>offset. int offset \<le> minute) offsets)))"

definition occurrence :: "nat list \<Rightarrow> int \<Rightarrow> int" where
  "occurrence offsets index =
     (index div int (length offsets)) * DAY + int (offsets ! nat (index mod int (length offsets))) * MINUTE"

definition cron_window :: "nat list \<Rightarrow> jsnum \<Rightarrow> jsnum \<Rightarrow> cron_error + NativeCronWindow" where
  "cron_window offsets afterExclusive throughInclusive =
     (if \<not> is_safe_integer afterExclusive \<or> num_int afterExclusive < -1 \<or>
         \<not> is_safe_integer throughInclusive \<or> num_int throughInclusive < 0 \<or>
         num_int throughInclusive < num_int afterExclusive
      then Inl UnorderedWindow
      else let before = countThrough offsets (num_int afterExclusive);
               through = countThrough offsets (num_int throughInclusive);
               cnt = through - before
           in Inr \<lparr>cw_count = cnt,
                   cw_first = (if cnt \<noteq> 0 then Some (occurrence offsets before) else None),
                   cw_last = (if cnt \<noteq> 0 then Some (occurrence offsets (through - 1)) else None),
                   cw_previous = (if 1 < cnt then Some (occurrence offsets (through - 2)) else None)\<rparr>)"

interpretation minute_order: key_comparator "cmp_str :: nat \<Rightarrow> nat \<Rightarrow> int"
  by (rule key_comparator_asc)

section \<open>What a field means\<close>

text \<open>The values an item stands for, read off its text.\<close>

definition item_matches :: "string \<Rightarrow> nat \<Rightarrow> bool" where
  "item_matches item v \<longleftrightarrow>
     item = ''*'' \<or>
     (case step_item item of Some ds \<Rightarrow> nat_of_digits ds dvd v | None \<Rightarrow> nat_of_digits item = v)"

definition field_matches :: "string \<Rightarrow> nat \<Rightarrow> bool" where
  "field_matches source v \<longleftrightarrow> list_ex (\<lambda>item. item_matches item v) (split_on CHR '','' source)"

lemma step_values_set:
  "0 < step \<Longrightarrow> set (step_values v sz step) = {w. v \<le> w \<and> w < sz \<and> step dvd (w - v)}"
proof (induction v sz step rule: step_values.induct)
  case (1 v sz step)
  show ?case
  proof (cases "sz \<le> v")
    case True
    then show ?thesis by (auto simp: step_values.simps [of v])
  next
    case False
    have "step dvd (w - v) \<longleftrightarrow> w = v \<or> (v + step \<le> w \<and> step dvd (w - (v + step)))" if "v \<le> w" for w
    proof
      assume d: "step dvd (w - v)"
      then obtain k where k: "w - v = step * k" by blast
      show "w = v \<or> (v + step \<le> w \<and> step dvd (w - (v + step)))"
      proof (cases k)
        case 0
        with k that show ?thesis by simp
      next
        case (Suc j)
        with k that have "w = v + step + step * j" by simp
        then show ?thesis by simp
      qed
    next
      assume "w = v \<or> (v + step \<le> w \<and> step dvd (w - (v + step)))"
      then show "step dvd (w - v)"
      proof
        assume a: "v + step \<le> w \<and> step dvd (w - (v + step))"
        then have "w - v = (w - (v + step)) + step" by simp
        then show ?thesis using a by (metis dvd_add dvd_refl)
      qed simp
    qed
    then have "{w. v \<le> w \<and> w < sz \<and> step dvd (w - v)} =
        insert v {w. v + step \<le> w \<and> w < sz \<and> step dvd (w - (v + step))}"
      using False by auto
    with 1 False show ?thesis by (simp add: step_values.simps [of v])
  qed
qed

lemma step_item_pos: "step_item item = Some ds \<Longrightarrow> 0 < nat_of_digits ds"
proof (induction item rule: step_item.induct)
  case (1 a b ds')
  then have ds: "all_digits ds" "hd ds \<noteq> CHR ''0''" by (auto split: if_splits)
  have pos: "0 < c \<Longrightarrow> 0 < foldl (\<lambda>a c. 10 * a + digit_val c) c s" for c :: nat and s
    by (induction s arbitrary: c) auto
  obtain d r where "ds = d # r" using ds by (cases ds) (auto simp: all_digits_def)
  moreover from this ds have "is_digit d" "d \<noteq> CHR ''0''" by (auto simp: all_digits_def)
  then have "0 < digit_val d"
  proof -
    have "char_of (48 :: nat) = CHR ''0''" using digit_char_simps(1) by (simp only: digit_char_def add_0_right)
    moreover have "char_of (of_char d :: nat) = d" by simp
    ultimately have "of_char d \<noteq> (48 :: nat)" using \<open>d \<noteq> CHR ''0''\<close> by metis
    with \<open>is_digit d\<close> show ?thesis by (simp add: digit_val_def is_digit_def)
  qed
  ultimately show ?case by (simp add: nat_of_digits_def pos)
qed auto

lemma item_values_set:
  assumes "item_values sz item = Inr vs"
  shows "set vs = {v. v < sz \<and> item_matches item v}"
proof (cases "item = ''*''")
  case True
  with assms show ?thesis by (auto simp: item_values_def item_matches_def)
next
  case False
  with assms show ?thesis
    by (auto simp: item_values_def item_matches_def step_values_set step_item_pos Let_def
        split: option.splits if_splits)
qed

lemma set_foldl_set_add [simp]: "set (foldl set_add xs ys) = set xs \<union> set ys"
  by (induction ys arbitrary: xs) (auto simp: set_add_def)

lemma distinct_foldl_set_add: "distinct xs \<Longrightarrow> distinct (foldl set_add xs ys)"
  by (induction ys arbitrary: xs) (auto simp: set_add_def)

lemma add_items_set:
  assumes "add_items sz items vals = Inr vs"
  shows "set vs = set vals \<union> {v. v < sz \<and> list_ex (\<lambda>item. item_matches item v) items}"
  using assms
proof (induction items arbitrary: vals)
  case (Cons item items)
  then obtain ws where "item_values sz item = Inr ws"
    and "add_items sz items (foldl set_add vals ws) = Inr vs"
    by (auto split: sum.splits)
  with Cons.IH item_values_set show ?case by fastforce
qed simp

lemma add_items_distinct: "add_items sz items vals = Inr vs \<Longrightarrow> distinct vals \<Longrightarrow> distinct vs"
  by (induction items arbitrary: vals) (auto split: sum.splits dest: distinct_foldl_set_add)

lemma cron_field_set:
  assumes "cron_field source sz = Inr vs"
  shows "set vs = {v. v < sz \<and> field_matches source v}" "sorted vs" "distinct vs"
proof -
  obtain ws where ws: "add_items sz (split_on CHR '','' source) [] = Inr ws" "vs = js_sort cmp_str ws"
    using assms by (auto simp: cron_field_def split: sum.splits)
  show "set vs = {v. v < sz \<and> field_matches source v}"
    using add_items_set [OF ws(1)] ws(2) by (simp add: field_matches_def)
  show "sorted vs" using ws(2) minute_order.sorted_js_sort by simp
  have "mset vs = mset ws" using ws(2) by simp
  moreover have "distinct ws" using add_items_distinct [OF ws(1)] by simp
  ultimately show "distinct vs" by (metis distinct_count_atmost_1 set_mset_mset)
qed

section \<open>What the window counts\<close>

text \<open>The offsets of a parsed expression: minutes of the day in increasing order.\<close>

definition grid_offsets :: "nat list \<Rightarrow> bool" where
  "grid_offsets os \<longleftrightarrow> os \<noteq> [] \<and> sorted os \<and> distinct os \<and> (\<forall>x\<in>set os. x < 1440)"

definition cron_times :: "nat list \<Rightarrow> int set" where
  "cron_times os = {x. 0 \<le> x \<and> x mod MINUTE = 0 \<and> nat (x mod DAY div MINUTE) \<in> set os}"

lemma day_minute: "0 \<le> d \<Longrightarrow> (d * DAY + int u * MINUTE) mod MINUTE = 0"
  by (simp add: DAY_def MINUTE_def mod_add_eq [symmetric] mult.assoc [symmetric] del: mod_add_eq)

lemma sorted_filter_prefix:
  fixes m :: nat
  assumes "sorted xs" and "i < length xs"
  shows "xs ! i \<le> m \<longleftrightarrow> i < length (filter (\<lambda>x. x \<le> m) xs)"
  using assms
proof (induction xs arbitrary: i)
  case (Cons x xs)
  have none: "filter (\<lambda>y. y \<le> m) xs = []" if "m < x"
    using Cons.prems that by (auto simp: filter_empty_conv)
  show ?case
  proof (cases i)
    case 0
    then show ?thesis using none by (auto simp: not_le)
  next
    case (Suc j)
    have "x \<le> xs ! j" using Cons.prems Suc by auto
    then show ?thesis using Cons Suc none by (cases "x \<le> m") auto
  qed
qed simp

text \<open>An occurrence is at most \<open>t\<close> exactly when its index is below the count through \<open>t\<close>.\<close>

lemma occurrence_le_iff:
  assumes "grid_offsets os" and "0 \<le> i" and "-1 \<le> t"
  shows "occurrence os i \<le> t \<longleftrightarrow> i < countThrough os t"
proof (cases "t = -1")
  case True
  have "0 \<le> occurrence os i" using assms by (simp add: occurrence_def DAY_def MINUTE_def div_int_pos_iff)
  with True show ?thesis using assms by (simp add: countThrough_def)
next
  case False
  define n where "n = int (length os)"
  define q r where "q = i div n" and "r = i mod n"
  define d u where "d = t div DAY" and "u = t mod DAY"
  have n: "0 < n" using assms by (simp add: n_def grid_offsets_def)
  have r: "0 \<le> r" "r < n" using n by (simp_all add: r_def)
  have i: "i = q * n + r" by (simp add: q_def r_def)
  have u: "0 \<le> u" "u < DAY" "t = d * DAY + u" by (simp_all add: u_def d_def DAY_def MINUTE_def)
  have len: "nat r < length os" using r by (simp add: n_def nat_less_iff)
  define off where "off = os ! nat r"
  have off: "int off < 1440" using assms len by (simp add: grid_offsets_def off_def)
  define k where "k = int (length (filter (\<lambda>offset. int offset \<le> u div MINUTE) os))"
  have k: "0 \<le> k" "k \<le> n" by (simp_all add: k_def n_def)
  have w: "0 \<le> u div MINUTE" using u(1) by (simp add: pos_imp_zdiv_nonneg_iff MINUTE_def)
  have "int off * MINUTE \<le> u \<longleftrightarrow> int off \<le> u div MINUTE"
    unfolding MINUTE_def by linarith
  also have "\<dots> \<longleftrightarrow> off \<le> nat (u div MINUTE)" using w by (simp only: le_nat_iff)
  also have "\<dots> \<longleftrightarrow> nat r < length (filter (\<lambda>x. x \<le> nat (u div MINUTE)) os)"
    unfolding off_def using assms len by (intro sorted_filter_prefix) (simp_all add: grid_offsets_def)
  also have "filter (\<lambda>x. x \<le> nat (u div MINUTE)) os = filter (\<lambda>x. int x \<le> u div MINUTE) os"
    by (simp only: le_nat_iff [OF w])
  finally have same_day: "int off * MINUTE \<le> u \<longleftrightarrow> r < k" using r by (auto simp: k_def)
  have ct: "countThrough os t = d * n + k"
  proof -
    have "t - d * DAY = u" using u by simp
    then show ?thesis using False by (simp add: countThrough_def Let_def k_def n_def d_def [symmetric])
  qed
  have oc: "occurrence os i = q * DAY + int off * MINUTE"
    by (simp add: occurrence_def n_def q_def r_def off_def)
  have om: "0 \<le> int off * MINUTE" "int off * MINUTE < DAY" using off by (simp_all add: MINUTE_def DAY_def)
  consider "q < d" | "q = d" | "d < q" by linarith
  then show ?thesis
  proof cases
    case 1
    then have "(q + 1) * DAY \<le> d * DAY" by (intro mult_right_mono) (simp_all add: DAY_def MINUTE_def)
    then have "q * DAY + DAY \<le> d * DAY" by (simp add: distrib_right)
    moreover have "(q + 1) * n \<le> d * n" using 1 n by (intro mult_right_mono) auto
    then have "q * n + n \<le> d * n" by (simp add: distrib_right)
    ultimately show ?thesis using oc ct u om i r k by linarith
  next
    case 2
    then show ?thesis using oc ct u i same_day by auto
  next
    case 3
    then have "(d + 1) * DAY \<le> q * DAY" by (intro mult_right_mono) (simp_all add: DAY_def MINUTE_def)
    then have "d * DAY + DAY \<le> q * DAY" by (simp add: distrib_right)
    moreover have "(d + 1) * n \<le> q * n" using 3 n by (intro mult_right_mono) auto
    then have "d * n + n \<le> q * n" by (simp add: distrib_right)
    ultimately show ?thesis using oc ct u om i r k by linarith
  qed
qed

lemma occurrence_parts:
  assumes "grid_offsets os" and "0 \<le> i"
  defines "n \<equiv> int (length os)"
  shows "occurrence os i div DAY = i div n"
    "occurrence os i mod DAY = int (os ! nat (i mod n)) * MINUTE"
    "nat (i mod n) < length os" "0 \<le> occurrence os i"
proof -
  have n: "0 < n" using assms by (simp add: n_def grid_offsets_def)
  then have r: "0 \<le> i mod n" "i mod n < n" by simp_all
  then show len: "nat (i mod n) < length os" by (simp add: n_def nat_less_iff)
  define o' where "o' = int (os ! nat (i mod n)) * MINUTE"
  have "int (os ! nat (i mod n)) < 1440" using assms len by (simp add: grid_offsets_def)
  then have o: "0 \<le> o'" "o' < DAY" by (simp_all add: o'_def MINUTE_def DAY_def)
  have oc: "occurrence os i = i div n * DAY + o'" by (simp add: occurrence_def n_def o'_def)
  show "occurrence os i div DAY = i div n" using oc o by simp
  show "occurrence os i mod DAY = int (os ! nat (i mod n)) * MINUTE" using oc o by (simp add: o'_def)
  have "0 \<le> i div n * DAY" using n assms by (simp add: DAY_def MINUTE_def pos_imp_zdiv_nonneg_iff)
  then show "0 \<le> occurrence os i" using oc o by simp
qed

lemma occurrence_inj:
  assumes "grid_offsets os" "0 \<le> i" "0 \<le> j" "occurrence os i = occurrence os j"
  shows "i = j"
proof -
  define n where "n = int (length os)"
  have n: "0 < n" using assms by (simp add: n_def grid_offsets_def)
  note I = occurrence_parts [OF assms(1,2), folded n_def] and J = occurrence_parts [OF assms(1,3), folded n_def]
  have "os ! nat (i mod n) = os ! nat (j mod n)" using I(2) J(2) assms(4) by (simp add: MINUTE_def)
  then have "nat (i mod n) = nat (j mod n)"
    using assms(1) I(3) J(3) by (simp add: grid_offsets_def nth_eq_iff_index_eq)
  moreover have "0 \<le> i mod n" "0 \<le> j mod n" using n by simp_all
  ultimately have "i mod n = j mod n" by simp
  moreover have "i div n = j div n" using I(1) J(1) assms(4) by simp
  ultimately show ?thesis by (metis div_mult_mod_eq)
qed

lemma occurrence_mono:
  assumes "grid_offsets os" "0 \<le> i" "i \<le> j"
  shows "occurrence os i \<le> occurrence os j"
proof -
  have ge: "-1 \<le> occurrence os j" using occurrence_parts(4) [OF assms(1), of j] assms by simp
  have "j < countThrough os (occurrence os j)"
    using occurrence_le_iff [OF assms(1) _ ge, of j] assms by simp
  then show ?thesis using occurrence_le_iff [OF assms(1,2) ge] assms(3) by simp
qed

lemma cron_times_image:
  assumes "grid_offsets os"
  shows "cron_times os = occurrence os ` {0..}"
proof (intro set_eqI iffI)
  fix x assume "x \<in> cron_times os"
  then have x: "0 \<le> x" "x mod MINUTE = 0" "nat (x mod DAY div MINUTE) \<in> set os"
    by (auto simp: cron_times_def)
  then obtain r where r: "r < length os" "os ! r = nat (x mod DAY div MINUTE)"
    by (metis in_set_conv_nth)
  define n where "n = int (length os)"
  define i where "i = x div DAY * n + int r"
  have rn: "int r < n" using r by (simp add: n_def)
  have i: "i div n = x div DAY" "i mod n = int r" using rn by (simp_all add: i_def)
  have "x mod DAY mod MINUTE = x mod MINUTE" by (simp add: DAY_def MINUTE_def mod_mod_cancel)
  then have "x mod DAY div MINUTE * MINUTE = x mod DAY"
    using x(2) div_mult_mod_eq [of "x mod DAY" MINUTE] by simp
  moreover have "0 \<le> x mod DAY div MINUTE" by (simp add: MINUTE_def DAY_def pos_imp_zdiv_nonneg_iff)
  ultimately have "occurrence os i = x" using r(2) i by (simp add: occurrence_def n_def)
  moreover have "0 \<le> i"
  proof -
    have "0 \<le> x div DAY" using x(1) by (simp add: DAY_def MINUTE_def pos_imp_zdiv_nonneg_iff)
    then show ?thesis by (simp add: i_def n_def)
  qed
  ultimately show "x \<in> occurrence os ` {0..}" by auto
next
  fix x assume "x \<in> occurrence os ` {0..}"
  then obtain i where i: "0 \<le> i" "x = occurrence os i" by auto
  note P = occurrence_parts [OF assms i(1), folded i(2)]
  have "x mod MINUTE = x mod DAY mod MINUTE" by (simp add: DAY_def MINUTE_def mod_mod_cancel)
  also have "\<dots> = 0" using P(2) by simp
  finally show "x \<in> cron_times os"
    using P by (auto simp: cron_times_def MINUTE_def)
qed

text \<open>The offsets of a parsed expression, and the instants they stand for, read off its two fields.\<close>

lemma cron_field_nonempty:
  assumes "cron_field source sz = Inr vs" and "0 < sz"
  shows "vs \<noteq> []"
proof -
  obtain ws where ws: "add_items sz (split_on CHR '','' source) [] = Inr ws" "vs = js_sort cmp_str ws"
    using assms by (auto simp: cron_field_def split: sum.splits)
  obtain item items where it: "split_on CHR '','' source = item # items"
    using split_on_nonempty by (cases "split_on CHR '','' source") blast+
  obtain us where us: "item_values sz item = Inr us" using ws(1) it by (auto split: sum.splits)
  have "us \<noteq> []"
  proof (cases "item = ''*''")
    case True
    with us assms(2) show ?thesis by (auto simp: item_values_def)
  next
    case False
    with us assms(2) show ?thesis
      by (auto simp: item_values_def Let_def step_values.simps [of 0] dest: step_item_pos split: option.splits if_splits)
  qed
  then obtain u where "u \<in> set us" by (cases us) auto
  moreover have "set ws = set (foldl set_add [] us) \<union> {v. v < sz \<and> list_ex (\<lambda>item. item_matches item v) items}"
    by (rule add_items_set) (use ws(1) it us in simp)
  ultimately show ?thesis using ws(2) by (metis UnI1 UnI2 empty_iff set_empty set_foldl_set_add set_js_sort)
qed

lemma sorted_hour_minutes:
  fixes mins :: "nat list"
  assumes "sorted_wrt (<) hrs" "sorted_wrt (<) mins" "\<forall>m\<in>set mins. m < 60"
  shows "sorted_wrt (<) (concat (map (\<lambda>h. map (\<lambda>m. h * 60 + m) mins) hrs))"
  using assms(1)
proof (induction hrs)
  case (Cons h hrs)
  have "sorted_wrt (<) (map (\<lambda>m. h * 60 + m) mins)"
    using assms(2) by (simp add: sorted_wrt_map)
  moreover have "h * 60 + m < h' * 60 + m'" if "m \<in> set mins" "h' \<in> set hrs" for m h' m'
  proof -
    have "m < 60" "h < h'" using that assms(3) Cons.prems by auto
    then show ?thesis by linarith
  qed
  ultimately show ?case using Cons by (auto simp: sorted_wrt_append)
qed simp

lemma parse_offsets:
  assumes "parseNativeCron cron = Inr os"
  defines "fs \<equiv> split_on CHR '' '' cron"
  shows "grid_offsets os"
    "u \<in> set os \<longleftrightarrow> u < 1440 \<and> field_matches (fs ! 0) (u mod 60) \<and> field_matches (fs ! 1) (u div 60)"
proof -
  obtain mins hrs where m: "cron_field (fs ! 0) 60 = Inr mins" and h: "cron_field (fs ! 1) 24 = Inr hrs"
    and os: "os = concat (map (\<lambda>h. map (\<lambda>m. h * 60 + m) mins) hrs)"
    using assms by (auto simp: parseNativeCron_def Let_def split: sum.splits if_splits)
  note M = cron_field_set [OF m] cron_field_nonempty [OF m]
    and H = cron_field_set [OF h] cron_field_nonempty [OF h]
  have "u \<in> set os \<longleftrightarrow> (\<exists>h\<in>set hrs. \<exists>m\<in>set mins. u = h * 60 + m)" for u by (auto simp: os)
  also have "\<dots> u \<longleftrightarrow> u mod 60 \<in> set mins \<and> u div 60 \<in> set hrs" for u
  proof
    assume "\<exists>h\<in>set hrs. \<exists>m\<in>set mins. u = h * 60 + m"
    then obtain h m where "h \<in> set hrs" "m \<in> set mins" "u = h * 60 + m" "m < 60" using M(1) by auto
    then show "u mod 60 \<in> set mins \<and> u div 60 \<in> set hrs" by simp
  next
    assume a: "u mod 60 \<in> set mins \<and> u div 60 \<in> set hrs"
    then show "\<exists>h\<in>set hrs. \<exists>m\<in>set mins. u = h * 60 + m"
      by (intro bexI [of _ "u div 60"] bexI [of _ "u mod 60"]) simp_all
  qed
  finally have mem: "u \<in> set os \<longleftrightarrow> u < 1440 \<and> field_matches (fs ! 0) (u mod 60) \<and> field_matches (fs ! 1) (u div 60)" for u
    using M(1) H(1) by (auto simp: less_mult_imp_div_less)
  then show "u \<in> set os \<longleftrightarrow> u < 1440 \<and> field_matches (fs ! 0) (u mod 60) \<and> field_matches (fs ! 1) (u div 60)" .
  have "sorted_wrt (<) os"
    unfolding os using M H by (intro sorted_hour_minutes) (auto simp: strict_sorted_iff)
  moreover have "os \<noteq> []" using M(4) H(4) by (cases hrs; cases mins) (auto simp: os)
  ultimately show "grid_offsets os" using mem by (auto simp: grid_offsets_def strict_sorted_iff)
qed

text \<open>The instants an expression denotes, read off its minute and hour fields alone.\<close>

definition cron_instants :: "string \<Rightarrow> int set" where
  "cron_instants cron =
     {x. 0 \<le> x \<and> x mod MINUTE = 0 \<and>
         field_matches (split_on CHR '' '' cron ! 0) (nat (x div MINUTE mod 60)) \<and>
         field_matches (split_on CHR '' '' cron ! 1) (nat (x div (60 * MINUTE) mod 24))}"

lemma day_split:
  "nat (x mod DAY div MINUTE) mod 60 = nat (x div MINUTE mod 60)"
  "nat (x mod DAY div MINUTE) div 60 = nat (x div (60 * MINUTE) mod 24)"
  "nat (x mod DAY div MINUTE) < 1440"
proof -
  define m where "m = x div MINUTE"
  have md: "x mod DAY div MINUTE = m mod 1440"
  proof -
    have "x mod (MINUTE * 1440) = MINUTE * (x div MINUTE mod 1440) + x mod MINUTE"
      by (rule zmod_zmult2_eq) simp
    moreover have "0 \<le> x mod MINUTE" "x mod MINUTE < MINUTE" by (simp_all add: MINUTE_def)
    ultimately show ?thesis by (simp add: DAY_def m_def mult.commute)
  qed
  have h: "x div (60 * MINUTE) = m div 60"
    using zdiv_zmult2_eq [of 60 x MINUTE] by (simp add: m_def mult.commute)
  have n: "0 \<le> m mod 1440" "m mod 1440 < 1440" by simp_all
  have "m mod 1440 mod 60 = m mod 60" by (simp add: mod_mod_cancel)
  then show "nat (x mod DAY div MINUTE) mod 60 = nat (x div MINUTE mod 60)"
    using n by (simp add: md flip: m_def nat_mod_distrib [of _ 60, simplified])
  have "m mod 1440 div 60 = m div 60 mod 24"
    using zmod_zmult2_eq [of 24 m 60] by simp
  then show "nat (x mod DAY div MINUTE) div 60 = nat (x div (60 * MINUTE) mod 24)"
    using n by (simp add: md h flip: nat_div_distrib [of _ 60, simplified])
  show "nat (x mod DAY div MINUTE) < 1440" using n md by simp
qed

lemma cron_times_instants:
  assumes "parseNativeCron cron = Inr os"
  shows "cron_times os = cron_instants cron"
  using day_split by (auto simp: cron_times_def cron_instants_def parse_offsets(2) [OF assms])

lemma window_counts:
  assumes "parseNativeCron cron = Inr os" and "cron_window os after through = Inr w"
  defines "S \<equiv> {x \<in> cron_instants cron. num_int after < x \<and> x \<le> num_int through}"
  shows "cw_count w = int (card S) \<and>
         cw_first w = (if S = {} then None else Some (Min S)) \<and>
         cw_last w = (if S = {} then None else Some (Max S)) \<and>
         cw_previous w = (if card S \<le> 1 then None else Some (Max (S - {Max S})))"
proof -
  let ?f = "occurrence os"
  define b e where "b = countThrough os (num_int after)" and "e = countThrough os (num_int through)"
  have g: "grid_offsets os" using parse_offsets(1) [OF assms(1)] .
  have bounds: "-1 \<le> num_int after" "-1 \<le> num_int through" "num_int after \<le> num_int through"
    and w: "w = \<lparr>cw_count = e - b, cw_first = (if e - b \<noteq> 0 then Some (?f b) else None),
       cw_last = (if e - b \<noteq> 0 then Some (?f (e - 1)) else None),
       cw_previous = (if 1 < e - b then Some (?f (e - 2)) else None)\<rparr>"
    using assms(2) by (auto simp: cron_window_def Let_def b_def e_def split: if_splits)
  have le_b: "?f i \<le> num_int after \<longleftrightarrow> i < b" and le_e: "?f i \<le> num_int through \<longleftrightarrow> i < e" if "0 \<le> i" for i
    using occurrence_le_iff [OF g that] bounds by (simp_all add: b_def e_def)
  have b0: "0 \<le> b"
    using bounds(1) by (auto simp: b_def countThrough_def Let_def DAY_def MINUTE_def pos_imp_zdiv_nonneg_iff
        intro!: add_nonneg_nonneg mult_nonneg_nonneg)
  have be: "b \<le> e"
  proof (rule ccontr)
    assume "\<not> b \<le> e"
    then have "?f e \<le> num_int after" "\<not> ?f e \<le> num_int through" if "0 \<le> e"
      using le_b [OF that] le_e [OF that] by simp_all
    moreover have "0 \<le> e"
      using bounds(2) by (auto simp: e_def countThrough_def Let_def DAY_def MINUTE_def pos_imp_zdiv_nonneg_iff
          intro!: add_nonneg_nonneg mult_nonneg_nonneg)
    ultimately show False using bounds(3) by linarith
  qed
  have S: "S = ?f ` {b..<e}"
  proof (intro set_eqI iffI)
    fix x assume "x \<in> S"
    then obtain i where "0 \<le> i" "x = ?f i" "num_int after < ?f i" "?f i \<le> num_int through"
      unfolding S_def cron_times_instants [OF assms(1), symmetric] cron_times_image [OF g] by auto
    then show "x \<in> ?f ` {b..<e}" using le_b [of i] le_e [of i] by auto
  next
    fix x assume "x \<in> ?f ` {b..<e}"
    then obtain i where i: "b \<le> i" "i < e" "x = ?f i" by auto
    with b0 have "0 \<le> i" by simp
    then have "num_int after < ?f i" "?f i \<le> num_int through" using le_b [of i] le_e [of i] i by auto
    then show "x \<in> S"
      unfolding S_def cron_times_instants [OF assms(1), symmetric] cron_times_image [OF g]
      using i \<open>0 \<le> i\<close> by auto
  qed
  have inj: "inj_on ?f {b..<e}" using b0 by (auto intro!: inj_onI occurrence_inj [OF g])
  have card: "int (card S) = e - b" using S inj be by (simp add: card_image)
  have mono: "?f i \<le> ?f j" if "b \<le> i" "i \<le> j" for i j using occurrence_mono [OF g] that b0 by simp
  have mn: "Min S = ?f b" if "b < e" using that mono by (auto simp: S intro!: Min_eqI)
  have mx: "Max S = ?f (e - 1)" if "b < e" using that mono by (auto simp: S intro!: Max_eqI)
  have pv: "Max (S - {Max S}) = ?f (e - 2)" if "b + 1 < e"
  proof -
    have "S - {Max S} = ?f ` {b..<e - 1}"
    proof -
      have "{b..<e} - {e - 1} = {b..<e - 1}" by auto
      then show ?thesis using that mx inj_on_image_set_diff [OF inj, of "{b..<e}" "{e - 1}"] by (simp add: S)
    qed
    then show ?thesis using that mono by (auto intro!: Max_eqI)
  qed
  have empty: "S = {} \<longleftrightarrow> b = e" using S be by auto
  show ?thesis using card mn mx pv empty be by (auto simp: w)
qed

text \<open>
  C21. For an accepted expression and a window the code accepts, the count is the number of instants
  the expression denotes after the exclusive bound and through the inclusive one, \<open>first\<close> and
  \<open>last\<close> are the earliest and the latest of them, and \<open>previous\<close> is the one before the latest.
\<close>

theorem window_counts_instants:
  assumes "parseNativeCron cron = Inr os" and "cron_window os after through = Inr w"
  defines "S \<equiv> {x \<in> cron_instants cron. num_int after < x \<and> x \<le> num_int through}"
  shows "cw_count w = int (card S) \<and>
         cw_first w = (if S = {} then None else Some (Min S)) \<and>
         cw_last w = (if S = {} then None else Some (Max S)) \<and>
         cw_previous w = (if card S \<le> 1 then None else Some (Max (S - {Max S})))"
  unfolding S_def by (rule window_counts [OF assms(1,2)])

lemma sample_cron: "parseNativeCron ''0 0 * * *'' = Inr [0]"
  by code_simp

lemma window_counts_instants_witness:
  "card {x \<in> cron_instants ''0 0 * * *''. - 1 < x \<and> x \<le> 90000000} = 2"
proof -
  have "cron_window [0] (js_int (-1)) (js_int 90000000) =
      Inr \<lparr>cw_count = 2, cw_first = Some 0, cw_last = Some 86400000, cw_previous = Some 0\<rparr>"
    by (simp add: cron_window_def countThrough_def occurrence_def MAX_SAFE_def DAY_def MINUTE_def)
  from window_counts_instants [OF sample_cron this] show ?thesis by simp
qed

end
