(* ===== verification/Queue_Delivery.thy ===== *)
theory Queue_Delivery
  imports Js_Prelude
begin

text \<open>
  One delivered batch of the native queue (\<open>src/queue-delivery.ts\<close>): the per-message and per-batch
  decisions, each first-call-wins, and the verdicts read when the handler is done.  The calls a
  handler makes on the batch are a sequence of steps on the delivery's state; a call that throws
  returns its error and leaves the state as the code leaves it.
\<close>

record 'b QueuePayload =
  qp_id :: string
  createdAtMs :: rat
  attempts :: nat
  body :: 'b

datatype QueueDecision = AckDecision | RetryDecision "int option"

datatype delivery_error = DelayRange

definition queueDelaySeconds :: "jsnum option \<Rightarrow> int \<Rightarrow> delivery_error + int" where
  "queueDelaySeconds v fallback =
     (case v of
        None \<Rightarrow> Inr fallback
      | Some n \<Rightarrow>
          if \<not> is_safe_integer n \<or> num_int n < 0 \<or> 86400 < num_int n then Inl DelayRange
          else Inr (num_int n))"

definition retryDecision :: "jsnum option \<Rightarrow> delivery_error + QueueDecision" where
  "retryDecision delaySeconds =
     (case delaySeconds of
        None \<Rightarrow> Inr (RetryDecision None)
      | Some n \<Rightarrow> (case queueDelaySeconds (Some n) 0 of
                    Inl e \<Rightarrow> Inl e
                  | Inr d \<Rightarrow> Inr (RetryDecision (Some d))))"

record delivery =
  is_open :: bool
  batchDecision :: "QueueDecision option"
  decisions :: "(string \<times> QueueDecision) list"

definition new_delivery :: delivery where
  "new_delivery = \<lparr>is_open = True, batchDecision = None, decisions = []\<rparr>"

text \<open>\<open>decide(id, decision)\<close>: the thunk runs only for an open delivery and an undecided message.\<close>

definition decide :: "string \<Rightarrow> delivery_error + QueueDecision \<Rightarrow> delivery \<Rightarrow> delivery_error option \<times> delivery" where
  "decide i decision d =
     (if is_open d \<and> map_of (decisions d) i = None then
        (case decision of
           Inl e \<Rightarrow> (Some e, d)
         | Inr v \<Rightarrow> (None, d\<lparr>decisions := AList.update i v (decisions d)\<rparr>))
      else (None, d))"

definition message_ack :: "string \<Rightarrow> delivery \<Rightarrow> delivery_error option \<times> delivery" where
  "message_ack i = decide i (Inr AckDecision)"

definition message_retry :: "string \<Rightarrow> jsnum option \<Rightarrow> delivery \<Rightarrow> delivery_error option \<times> delivery" where
  "message_retry i options = decide i (retryDecision options)"

definition ackAll :: "delivery \<Rightarrow> delivery_error option \<times> delivery" where
  "ackAll d = (if is_open d \<and> batchDecision d = None then (None, d\<lparr>batchDecision := Some AckDecision\<rparr>) else (None, d))"

definition retryAll :: "jsnum option \<Rightarrow> delivery \<Rightarrow> delivery_error option \<times> delivery" where
  "retryAll options d =
     (if is_open d \<and> batchDecision d = None then
        (case retryDecision options of
           Inl e \<Rightarrow> (Some e, d)
         | Inr v \<Rightarrow> (None, d\<lparr>batchDecision := Some v\<rparr>))
      else (None, d))"

definition finish :: "'b QueuePayload list \<Rightarrow> bool \<Rightarrow> delivery \<Rightarrow> QueueDecision list \<times> delivery" where
  "finish payloads failed d =
     (map (\<lambda>payload. case map_of (decisions d) (qp_id payload) of
             Some v \<Rightarrow> v
           | None \<Rightarrow> (case batchDecision d of
                        Some v \<Rightarrow> v
                      | None \<Rightarrow> if failed then RetryDecision None else AckDecision)) payloads,
      d\<lparr>is_open := False\<rparr>)"

section \<open>Sequences of calls\<close>

datatype delivery_call =
  AckMessage string | RetryMessage string "jsnum option" | AckAll | RetryAll "jsnum option"

fun deliver :: "delivery_call \<Rightarrow> delivery \<Rightarrow> delivery" where
  "deliver (AckMessage i) d = snd (message_ack i d)"
| "deliver (RetryMessage i options) d = snd (message_retry i options d)"
| "deliver AckAll d = snd (ackAll d)"
| "deliver (RetryAll options) d = snd (retryAll options d)"

text \<open>What a call decides for a message, and for the batch, when it decides anything.\<close>

fun message_verdict :: "string \<Rightarrow> delivery_call \<Rightarrow> QueueDecision option" where
  "message_verdict i (AckMessage j) = (if i = j then Some AckDecision else None)"
| "message_verdict i (RetryMessage j options) =
     (if i = j then (case retryDecision options of Inr v \<Rightarrow> Some v | Inl _ \<Rightarrow> None) else None)"
| "message_verdict i _ = None"

fun batch_verdict :: "delivery_call \<Rightarrow> QueueDecision option" where
  "batch_verdict AckAll = Some AckDecision"
| "batch_verdict (RetryAll options) = (case retryDecision options of Inr v \<Rightarrow> Some v | Inl _ \<Rightarrow> None)"
| "batch_verdict _ = None"

definition first_verdict :: "('c \<Rightarrow> 'v option) \<Rightarrow> 'c list \<Rightarrow> 'v option" where
  "first_verdict f cs = (case List.map_filter f cs of [] \<Rightarrow> None | v # _ \<Rightarrow> Some v)"

lemma first_verdict_Cons:
  "first_verdict f (c # cs) = (case f c of Some v \<Rightarrow> Some v | None \<Rightarrow> first_verdict f cs)"
  by (simp add: first_verdict_def map_filter_Cons split: option.split)

lemma first_verdict_Nil [simp]: "first_verdict f [] = None"
  by (simp add: first_verdict_def)

lemmas deliver_defs = message_ack_def message_retry_def decide_def ackAll_def retryAll_def

lemma deliver_step:
  assumes "is_open d"
  shows "is_open (deliver c d)"
    "map_of (decisions (deliver c d)) i =
       (case map_of (decisions d) i of Some v \<Rightarrow> Some v | None \<Rightarrow> message_verdict i c)"
    "batchDecision (deliver c d) = (case batchDecision d of Some v \<Rightarrow> Some v | None \<Rightarrow> batch_verdict c)"
  using assms
  by (cases c; auto simp: deliver_defs update_conv split: sum.splits option.splits)+

lemma foldl_deliver:
  "is_open d \<Longrightarrow>
   is_open (foldl (\<lambda>d c. deliver c d) d cs) \<and>
   map_of (decisions (foldl (\<lambda>d c. deliver c d) d cs)) i =
     (case map_of (decisions d) i of Some v \<Rightarrow> Some v | None \<Rightarrow> first_verdict (message_verdict i) cs) \<and>
   batchDecision (foldl (\<lambda>d c. deliver c d) d cs) =
     (case batchDecision d of Some v \<Rightarrow> Some v | None \<Rightarrow> first_verdict batch_verdict cs)"
proof (induction cs arbitrary: d)
  case (Cons c cs)
  from Cons.IH [OF deliver_step(1) [OF Cons.prems]] show ?case
    by (simp add: deliver_step(2,3) [OF Cons.prems] first_verdict_Cons split: option.split)
qed (simp split: option.split)

lemma deliver_closed: "\<not> is_open d \<Longrightarrow> deliver c d = d"
  by (cases c) (auto simp: deliver_defs)

lemma finish_verdicts:
  "fst (finish payloads failed (foldl (\<lambda>d c. deliver c d) new_delivery calls)) =
     map (\<lambda>p. case first_verdict (message_verdict (qp_id p)) calls of
                Some v \<Rightarrow> v
              | None \<Rightarrow> (case first_verdict batch_verdict calls of
                          Some v \<Rightarrow> v
                        | None \<Rightarrow> if failed then RetryDecision None else AckDecision)) payloads"
proof -
  have "is_open new_delivery" by (simp add: new_delivery_def)
  note F = foldl_deliver [OF this, of calls]
  have "map_of (decisions (foldl (\<lambda>d c. deliver c d) new_delivery calls)) i = first_verdict (message_verdict i) calls" for i
    using F [of i] by (simp add: new_delivery_def)
  moreover have "batchDecision (foldl (\<lambda>d c. deliver c d) new_delivery calls) = first_verdict batch_verdict calls"
    using F by (simp add: new_delivery_def)
  ultimately show ?thesis by (simp add: finish_def cong: option.case_cong)
qed

text \<open>
  Whatever calls a handler makes, in whatever order, the verdict of a message is the first valid
  decision made for it, else the first valid decision made for the batch, else the default of the
  handler's outcome; and calls made after the delivery is finished change no verdict.
\<close>

theorem first_call_wins:
  "fst (finish payloads failed (foldl (\<lambda>d c. deliver c d) new_delivery calls)) =
     map (\<lambda>p. case first_verdict (message_verdict (qp_id p)) calls of
                Some v \<Rightarrow> v
              | None \<Rightarrow> (case first_verdict batch_verdict calls of
                          Some v \<Rightarrow> v
                        | None \<Rightarrow> if failed then RetryDecision None else AckDecision)) payloads \<and>
   foldl (\<lambda>d c. deliver c d) (snd (finish payloads failed (foldl (\<lambda>d c. deliver c d) new_delivery calls))) late =
     snd (finish payloads failed (foldl (\<lambda>d c. deliver c d) new_delivery calls))"
proof
  let ?d = "foldl (\<lambda>d c. deliver c d) new_delivery calls"
  show "fst (finish payloads failed ?d) =
     map (\<lambda>p. case first_verdict (message_verdict (qp_id p)) calls of
                Some v \<Rightarrow> v
              | None \<Rightarrow> (case first_verdict batch_verdict calls of
                          Some v \<Rightarrow> v
                        | None \<Rightarrow> if failed then RetryDecision None else AckDecision)) payloads"
    by (rule finish_verdicts)
  have "foldl (\<lambda>d c. deliver c d) d late = d" if "\<not> is_open d" for d
    using that by (induction late) (simp_all add: deliver_closed)
  then show "foldl (\<lambda>d c. deliver c d) (snd (finish payloads failed ?d)) late = snd (finish payloads failed ?d)"
    by (simp add: finish_def)
qed

end
