(* ===== verification/Lane_Queue.thy ===== *)
theory Lane_Queue
  imports Queue_Delivery
begin

text \<open>
  The producer and the consumer every lane shares (\<open>src/lane-queue.ts\<close>).  The consumer only ever
  acks or retries the messages it is handed; that interface is the locale \<open>message_sink\<close>, which the
  delivery of \<open>Queue_Delivery\<close> provides.  The handlers are parameters: what \<open>parse\<close> and the
  \<open>n\<close>-th \<open>run\<close> do (return or throw), and the error the \<open>n\<close>-th send throws, if it does.
\<close>

section \<open>The producer\<close>

definition SEND_BATCH_MAX :: nat where
  "SEND_BATCH_MAX = 100"

record EnqueueResult =
  ok :: bool
  enqueued :: nat
  reason :: "string option"

text \<open>The chunk loop; the result also lists the chunks that were sent.\<close>

function send_chunks :: "(nat \<Rightarrow> 'b list \<Rightarrow> string option) \<Rightarrow> 'b list \<Rightarrow> nat \<Rightarrow> nat \<Rightarrow>
    EnqueueResult \<times> 'b list list" where
  "send_chunks send bodies i enq =
     (if length bodies \<le> i then (\<lparr>ok = True, enqueued = enq, reason = None\<rparr>, [])
      else let slice = take SEND_BATCH_MAX (drop i bodies)
           in case send (i div SEND_BATCH_MAX) slice of
                Some err \<Rightarrow> (\<lparr>ok = False, enqueued = enq, reason = Some (''send_failed: '' @ err)\<rparr>, [])
              | None \<Rightarrow> (let (r, sent) = send_chunks send bodies (i + SEND_BATCH_MAX) (enq + length slice)
                        in (r, slice # sent)))"
  by pat_completeness auto
termination by (relation "measure (\<lambda>(send, bodies, i, enq). length bodies - i)") (auto simp: SEND_BATCH_MAX_def)

declare send_chunks.simps [simp del]

definition enqueueAll :: "(nat \<Rightarrow> 'b list \<Rightarrow> string option) option \<Rightarrow> 'b list \<Rightarrow> string \<Rightarrow>
    EnqueueResult \<times> 'b list list" where
  "enqueueAll queue bodies emptyReason =
     (case queue of
        None \<Rightarrow> (\<lparr>ok = False, enqueued = 0, reason = Some ''no_queue_binding''\<rparr>, [])
      | Some send \<Rightarrow>
          if bodies = [] then (\<lparr>ok = False, enqueued = 0, reason = Some emptyReason\<rparr>, [])
          else send_chunks send bodies 0 0)"

lemma send_chunks_spec:
  "i \<le> length bodies \<Longrightarrow> enq = i \<Longrightarrow>
   (case send_chunks send bodies i enq of (r, sent) \<Rightarrow>
      i \<le> enqueued r \<and> enqueued r \<le> length bodies \<and>
      concat sent = take (enqueued r - i) (drop i bodies) \<and>
      (\<forall>c\<in>set sent. c \<noteq> [] \<and> length c \<le> SEND_BATCH_MAX) \<and>
      (ok r \<longleftrightarrow> enqueued r = length bodies) \<and> (ok r \<longleftrightarrow> reason r = None))"
proof (induction send bodies i enq rule: send_chunks.induct)
  case (1 send bodies i enq)
  let ?slice = "take SEND_BATCH_MAX (drop i bodies)"
  show ?case
  proof (cases "length bodies \<le> i")
    case True
    with 1(2,3) show ?thesis by (simp add: send_chunks.simps [of send bodies "length bodies" "length bodies"])
  next
    case False
    then have ne: "?slice \<noteq> []" by (simp add: SEND_BATCH_MAX_def)
    show ?thesis
    proof (cases "send (i div SEND_BATCH_MAX) ?slice")
      case (Some err)
      with False 1(2,3) show ?thesis by (simp add: send_chunks.simps [of send bodies i i] Let_def)
    next
      case None
      obtain r sent where rec: "send_chunks send bodies (i + SEND_BATCH_MAX) (enq + length ?slice) = (r, sent)"
        by (cases "send_chunks send bodies (i + SEND_BATCH_MAX) (enq + length ?slice)")
      have eq: "send_chunks send bodies i enq = (r, ?slice # sent)"
        using False None rec by (simp add: send_chunks.simps [of send bodies i enq] Let_def)
      show ?thesis
      proof (cases "i + SEND_BATCH_MAX \<le> length bodies")
        case True
        then have len: "length ?slice = SEND_BATCH_MAX" by simp
        have IH: "i + SEND_BATCH_MAX \<le> enqueued r" "enqueued r \<le> length bodies"
          "concat sent = take (enqueued r - (i + SEND_BATCH_MAX)) (drop (i + SEND_BATCH_MAX) bodies)"
          "\<forall>c\<in>set sent. c \<noteq> [] \<and> length c \<le> SEND_BATCH_MAX"
          "(ok r \<longleftrightarrow> enqueued r = length bodies) \<and> (ok r \<longleftrightarrow> reason r = None)"
          using 1(1) [OF False refl None] 1(3) rec len True by auto
        have "enqueued r - i = SEND_BATCH_MAX + (enqueued r - (i + SEND_BATCH_MAX))" using IH(1) by simp
        then have "take (enqueued r - i) (drop i bodies) = ?slice @ concat sent"
          by (simp add: take_add IH(3) add.commute)
        then show ?thesis using eq IH ne by auto
      next
        case big: False
        then have r: "r = \<lparr>ok = True, enqueued = enq + length ?slice, reason = None\<rparr>" "sent = []"
          using rec by (auto simp: send_chunks.simps [of send bodies "i + SEND_BATCH_MAX"])
        then show ?thesis using eq 1(2,3) False ne big by auto
      qed
    qed
  qed
qed

text \<open>
  The producer never misreports: whatever the binding does, the chunks it accepted are in order
  exactly the first \<open>enqueued\<close> bodies, none is empty or above the send cap, and the result is
  \<open>ok\<close> exactly when a binding was there and every body of a non-empty set was accepted.
\<close>

theorem enqueue_reports_what_was_sent:
  "concat (snd (enqueueAll queue bodies e)) = take (enqueued (fst (enqueueAll queue bodies e))) bodies \<and>
   list_all (\<lambda>c. c \<noteq> [] \<and> length c \<le> SEND_BATCH_MAX) (snd (enqueueAll queue bodies e)) \<and>
   ok (fst (enqueueAll queue bodies e)) =
     (queue \<noteq> None \<and> bodies \<noteq> [] \<and> enqueued (fst (enqueueAll queue bodies e)) = length bodies) \<and>
   ok (fst (enqueueAll queue bodies e)) = (reason (fst (enqueueAll queue bodies e)) = None)"
proof (cases queue)
  case (Some send)
  then show ?thesis
    using send_chunks_spec [of 0 bodies 0 send]
    by (cases "send_chunks send bodies 0 0") (auto simp: enqueueAll_def list_all_iff)
qed (simp add: enqueueAll_def)

section \<open>The consumer\<close>

text \<open>
  A handler's \<open>parse\<close> returns a subject, null, or throws; its \<open>n\<close>-th \<open>run\<close> resolves to true, false
  or a string, or throws.
\<close>

datatype run_outcome = RunTrue | RunFalse | RunReason string | RunThrows string

record ConsumeResult =
  done_count :: nat
  retried :: nat
  dropped :: nat
  firstFailure :: "string option"

definition first_failure :: "string option \<Rightarrow> string \<Rightarrow> string option" where
  "first_failure found r = (case found of None \<Rightarrow> Some r | Some _ \<Rightarrow> found)"

text \<open>
  One message: \<open>ack\<close> and \<open>retry\<close> act on the sink \<open>'s\<close>, \<open>h\<close> is the message's handle there.
\<close>

definition consume_message ::
  "('h \<Rightarrow> 's \<Rightarrow> 's) \<Rightarrow> ('h \<Rightarrow> 's \<Rightarrow> 's) \<Rightarrow> ('b \<Rightarrow> string + 'j option) \<Rightarrow> (nat \<Rightarrow> 'j \<Rightarrow> run_outcome) \<Rightarrow>
   nat \<Rightarrow> 'h \<times> 'b \<Rightarrow> 's \<times> ConsumeResult \<Rightarrow> 's \<times> ConsumeResult" where
  "consume_message ack retry parse run n message st =
     (let (h, b) = message; (s, r) = st;
          redeliver = (\<lambda>why. (retry h s, r\<lparr>retried := retried r + 1,
                                           firstFailure := first_failure (firstFailure r) why\<rparr>))
      in case parse b of
           Inl err \<Rightarrow> redeliver err
         | Inr None \<Rightarrow> (ack h s, r\<lparr>dropped := dropped r + 1\<rparr>)
         | Inr (Some subject) \<Rightarrow>
             (case run n subject of
                RunTrue \<Rightarrow> (ack h s, r\<lparr>done_count := done_count r + 1\<rparr>)
              | RunFalse \<Rightarrow> redeliver ''run() declined without throwing''
              | RunReason why \<Rightarrow> redeliver (if why \<noteq> [] then why else ''run() declined without throwing'')
              | RunThrows err \<Rightarrow> redeliver err))"

fun consume_from ::
  "('h \<Rightarrow> 's \<Rightarrow> 's) \<Rightarrow> ('h \<Rightarrow> 's \<Rightarrow> 's) \<Rightarrow> ('b \<Rightarrow> string + 'j option) \<Rightarrow> (nat \<Rightarrow> 'j \<Rightarrow> run_outcome) \<Rightarrow>
   nat \<Rightarrow> ('h \<times> 'b) list \<Rightarrow> 's \<times> ConsumeResult \<Rightarrow> 's \<times> ConsumeResult" where
  "consume_from ack retry parse run n [] st = st"
| "consume_from ack retry parse run n (m # ms) st =
     consume_from ack retry parse run (Suc n) ms (consume_message ack retry parse run n m st)"

text \<open>The batch; the third component is the one call made to the retry reporter, if any.\<close>

definition consumeBatch ::
  "('h \<Rightarrow> 's \<Rightarrow> 's) \<Rightarrow> ('h \<Rightarrow> 's \<Rightarrow> 's) \<Rightarrow> ('b \<Rightarrow> string + 'j option) \<Rightarrow> (nat \<Rightarrow> 'j \<Rightarrow> run_outcome) \<Rightarrow>
   ('h \<times> 'b) list \<Rightarrow> 's \<Rightarrow> 's \<times> ConsumeResult \<times> (string \<times> nat) option" where
  "consumeBatch ack retry parse run messages s =
     (let (s', r) = consume_from ack retry parse run 0 messages
                      (s, \<lparr>done_count = 0, retried = 0, dropped = 0, firstFailure = None\<rparr>)
      in (s', r, case firstFailure r of None \<Rightarrow> None | Some why \<Rightarrow> Some (why, retried r)))"

text \<open>What a message deserves: the work was done or can never be done, else it is redelivered.\<close>

definition keeps :: "('b \<Rightarrow> string + 'j option) \<Rightarrow> (nat \<Rightarrow> 'j \<Rightarrow> run_outcome) \<Rightarrow> nat \<Rightarrow> 'b \<Rightarrow> bool" where
  "keeps parse run n b \<longleftrightarrow>
     (case parse b of Inl _ \<Rightarrow> False | Inr None \<Rightarrow> True | Inr (Some j) \<Rightarrow> run n j = RunTrue)"

lemma consume_message_sink:
  "fst (consume_message ack retry parse run n (h, b) st) =
   (if keeps parse run n b then ack h (fst st) else retry h (fst st))"
  by (cases st) (auto simp: consume_message_def keeps_def Let_def split: sum.splits option.splits run_outcome.splits)

lemma consume_message_counts:
  fixes r :: ConsumeResult
  assumes "snd (consume_message ack retry parse run n m (s, r)) = r'"
  shows "done_count r' + retried r' + dropped r' = Suc (done_count r + retried r + dropped r)"
    "(firstFailure r = None \<longleftrightarrow> retried r = 0) \<Longrightarrow> (firstFailure r' = None \<longleftrightarrow> retried r' = 0)"
    "retried r' = retried r + (if keeps parse run n (snd m) then 0 else 1)"
  using assms
  by (cases m; auto simp: consume_message_def keeps_def first_failure_def Let_def
        split: sum.splits option.splits run_outcome.splits)+

lemma consume_from_counts:
  fixes st :: "'s \<times> ConsumeResult"
  assumes "firstFailure (snd st) = None \<longleftrightarrow> retried (snd st) = 0"
  shows "done_count (snd (consume_from ack retry parse run n ms st)) + retried (snd (consume_from ack retry parse run n ms st)) + dropped (snd (consume_from ack retry parse run n ms st)) =
           done_count (snd st) + retried (snd st) + dropped (snd st) + length ms \<and>
         (firstFailure (snd (consume_from ack retry parse run n ms st)) = None \<longleftrightarrow> retried (snd (consume_from ack retry parse run n ms st)) = 0)"
  using assms
proof (induction ms arbitrary: n st)
  case (Cons m ms)
  obtain s r where st: "st = (s, r)" by (cases st)
  let ?st = "consume_message ack retry parse run n m st"
  have "done_count (snd ?st) + retried (snd ?st) + dropped (snd ?st) = Suc (done_count r + retried r + dropped r)"
    "firstFailure (snd ?st) = None \<longleftrightarrow> retried (snd ?st) = 0"
    using consume_message_counts [of ack retry parse run n m s r "snd ?st"] Cons.prems by (simp_all add: st)
  with Cons.IH [of ?st "Suc n"] show ?case by (simp add: st)
qed simp

section \<open>The sink interface\<close>

text \<open>
  What the consumer relies on: while the sink is live, acking or retrying a message decides that
  message if it was undecided, never changes a decision already made, and leaves the others alone.
\<close>

locale message_sink =
  fixes ack :: "'h \<Rightarrow> 's \<Rightarrow> 's"
    and retry :: "'h \<Rightarrow> 's \<Rightarrow> 's"
    and verdict :: "'h \<Rightarrow> 's \<Rightarrow> 'd option"
    and live :: "'s \<Rightarrow> bool"
    and acked :: 'd
    and redelivered :: 'd
  assumes live_ack: "live s \<Longrightarrow> live (ack h s)"
    and live_retry: "live s \<Longrightarrow> live (retry h s)"
    and verdict_ack: "live s \<Longrightarrow> verdict k (ack h s) =
          (if verdict k s = None \<and> k = h then Some acked else verdict k s)"
    and verdict_retry: "live s \<Longrightarrow> verdict k (retry h s) =
          (if verdict k s = None \<and> k = h then Some redelivered else verdict k s)"
begin

lemma consume_message_verdict:
  assumes "live (fst st)"
  shows "live (fst (consume_message ack retry parse run n (h, b) st)) \<and>
         verdict k (fst (consume_message ack retry parse run n (h, b) st)) =
           (if verdict k (fst st) = None \<and> k = h
            then Some (if keeps parse run n b then acked else redelivered) else verdict k (fst st))"
  using assms by (auto simp: consume_message_sink live_ack live_retry verdict_ack verdict_retry)

lemma consume_from_keeps:
  assumes "live (fst st)" and "verdict k (fst st) \<noteq> None \<or> k \<notin> fst ` set ms"
  shows "verdict k (fst (consume_from ack retry parse run n ms st)) = verdict k (fst st)"
  using assms
proof (induction ms arbitrary: n st)
  case (Cons m ms)
  obtain h b where m: "m = (h, b)" by (cases m)
  note V = consume_message_verdict [OF Cons.prems(1), of parse run n h b k]
  have "verdict k (fst (consume_message ack retry parse run n m st)) = verdict k (fst st)"
    using V Cons.prems(2) m by auto
  then show ?case using Cons.IH [of "consume_message ack retry parse run n m st" "Suc n"] V Cons.prems m by auto
qed simp

text \<open>Every message of a batch with distinct handles is decided by its own outcome.\<close>

lemma consume_from_verdicts:
  assumes "live (fst st)" and "distinct (map fst ms)" and "i < length ms"
    and "verdict (fst (ms ! i)) (fst st) = None"
  shows "verdict (fst (ms ! i)) (fst (consume_from ack retry parse run n ms st)) =
         Some (if keeps parse run (n + i) (snd (ms ! i)) then acked else redelivered)"
  using assms
proof (induction ms arbitrary: n st i)
  case (Cons m ms)
  obtain h b where m: "m = (h, b)" by (cases m)
  let ?st = "consume_message ack retry parse run n m st"
  note V = consume_message_verdict [OF Cons.prems(1), of parse run n h b]
  show ?case
  proof (cases i)
    case 0
    then have "verdict h (fst ?st) = Some (if keeps parse run n b then acked else redelivered)"
      using V [of h] Cons.prems(4) m by simp
    then show ?thesis using consume_from_keeps [of ?st h ms parse run "Suc n"] V [of h] m 0 by simp
  next
    case (Suc j)
    then have "fst (ms ! j) \<noteq> h" using Cons.prems(2,3) m by (metis Suc_less_SucD distinct.simps(2) fst_conv length_Cons length_map list.simps(9) nth_map nth_mem)
    then have "verdict (fst (ms ! j)) (fst ?st) = None" using V [of "fst (ms ! j)"] Cons.prems(4) m Suc by simp
    then show ?thesis using Cons.IH [of ?st j "Suc n"] V [of h] Cons.prems(2,3) m Suc by simp
  qed
qed simp

end

interpretation delivery_sink: message_sink
  "\<lambda>i d. snd (message_ack i d)" "\<lambda>i d. snd (message_retry i None d)"
  "\<lambda>i d. map_of (decisions d) i" is_open AckDecision "RetryDecision None"
  by unfold_locales (auto simp: deliver_defs retryDecision_def update_conv split: option.splits)

text \<open>
  C36. A poison message costs one subject: consuming a delivered batch of distinct messages acks a
  message whose work was done or whose body can never be acted on, and retries every other one, a
  throwing parse or run included, each by its own outcome and whatever the rest of the batch did;
  the handler's own success or failure no longer matters when the delivery is finished.
\<close>

theorem consumed_verdicts:
  assumes "distinct (map qp_id payloads)"
  shows "fst (finish payloads failed
           (fst (consumeBatch (\<lambda>i d. snd (message_ack i d)) (\<lambda>i d. snd (message_retry i None d)) parse run
                  (map (\<lambda>p. (qp_id p, body p)) payloads) new_delivery))) =
         map (\<lambda>n. if keeps parse run n (body (payloads ! n)) then AckDecision else RetryDecision None)
           [0..<length payloads]"
proof -
  let ?ms = "map (\<lambda>p. (qp_id p, body p)) payloads"
  let ?st = "(new_delivery, \<lparr>done_count = 0, retried = 0, dropped = 0, firstFailure = None\<rparr>)"
  let ?d = "fst (consume_from (\<lambda>i d. snd (message_ack i d)) (\<lambda>i d. snd (message_retry i None d)) parse run 0 ?ms ?st)"
  have "map_of (decisions ?d) (qp_id (payloads ! n)) =
      Some (if keeps parse run n (body (payloads ! n)) then AckDecision else RetryDecision None)"
    if "n < length payloads" for n
    using delivery_sink.consume_from_verdicts [of ?st ?ms n parse run 0] that assms
    by (simp add: new_delivery_def comp_def)
  moreover have "fst (consumeBatch (\<lambda>i d. snd (message_ack i d)) (\<lambda>i d. snd (message_retry i None d)) parse run ?ms new_delivery) = ?d"
    by (simp add: consumeBatch_def Let_def case_prod_beta)
  ultimately show ?thesis
    by (intro nth_equalityI) (simp_all add: finish_def)
qed

text \<open>
  The counts of a consumed batch add up to its messages, a first failure is published exactly
  when something was retried, and the reporter is called at most once, with that failure and the
  number retried.
\<close>

theorem consume_counts:
  "(\<lambda>(s, r, report). done_count r + retried r + dropped r = length messages \<and>
      (firstFailure r = None) = (retried r = 0) \<and>
      report = map_option (\<lambda>why. (why, retried r)) (firstFailure r))
   (consumeBatch ack retry parse run messages s)"
  using consume_from_counts [of "(s, \<lparr>done_count = 0, retried = 0, dropped = 0, firstFailure = None\<rparr>)"
      ack retry parse run 0 messages]
  by (auto simp: consumeBatch_def Let_def case_prod_beta split: option.split)

definition sample_payload :: "string \<Rightarrow> nat \<Rightarrow> nat QueuePayload" where
  "sample_payload i b = \<lparr>qp_id = i, createdAtMs = 0, attempts = 1, body = b\<rparr>"

lemma consumed_verdicts_witness:
  "fst (finish [sample_payload ''a'' 0, sample_payload ''b'' 1, sample_payload ''c'' 2] False
     (fst (consumeBatch (\<lambda>i d. snd (message_ack i d)) (\<lambda>i d. snd (message_retry i None d))
        (\<lambda>b. if b = 0 then Inl ''bad'' else if b = 1 then Inr None else Inr (Some b)) (\<lambda>_ _. RunTrue)
        (map (\<lambda>p. (qp_id p, body p)) [sample_payload ''a'' 0, sample_payload ''b'' 1, sample_payload ''c'' 2])
        new_delivery))) = [RetryDecision None, AckDecision, AckDecision]"
  by (subst consumed_verdicts) (simp_all add: sample_payload_def keeps_def upt_rec)

end
