(* ===== verification/Lane_Scheduler.thy ===== *)
theory Lane_Scheduler
  imports Js_Prelude
begin

text \<open>
  Which lanes are due on a tick (\<open>src/lane-scheduler.ts\<close>): the last-run stamps read from the health
  snapshot, and the cadence gate.  The snapshot is the list of its own entries (lane, and the
  \<open>checked_at\<close> cell of its record, if there is a record); the last-run record is the dictionary
  built from it.  Stamps are milliseconds and cadences minutes far below \<open>2 ^ 53\<close>, where the
  arithmetic of the code is exact.
\<close>

record ScheduledLane =
  lane_name :: string
  everyMinutes :: jsnum

definition LANE_DUE_TOLERANCE_MS :: rat where
  "LANE_DUE_TOLERANCE_MS = 4 * 60 * 1000"

type_synonym lane_health = "(string \<times> jsval option) list"

definition lane_stamp :: "jsval option \<Rightarrow> rat option" where
  "lane_stamp checked_at =
     (case checked_at of Some (VNum (Fin q)) \<Rightarrow> if 0 < q then Some q else None | _ \<Rightarrow> None)"

definition lastRunFromLaneHealth :: "lane_health option \<Rightarrow> string \<rightharpoonup> rat" where
  "lastRunFromLaneHealth health =
     foldl (\<lambda>lastRun (lane, checked_at).
              case lane_stamp checked_at of Some stamp \<Rightarrow> obj_set lane stamp lastRun | None \<Rightarrow> lastRun)
       Map.empty (case health of Some h \<Rightarrow> h | None \<Rightarrow> [])"

definition lane_due :: "(string \<rightharpoonup> jsval) \<Rightarrow> rat \<Rightarrow> 'a ScheduledLane_scheme \<Rightarrow> bool" where
  "lane_due lastRunMs nowMs lane =
     (case lastRunMs (lane_name lane) of
        Some (VNum (Fin stamp)) \<Rightarrow>
          if stamp \<le> 0 then True
          else let elapsed = nowMs - stamp
               in if elapsed < 0 then True
                  else (case everyMinutes lane of
                          Fin every \<Rightarrow> if every \<le> 0 then True
                                       else every * 60 * 1000 - LANE_DUE_TOLERANCE_MS \<le> elapsed
                        | _ \<Rightarrow> True)
      | _ \<Rightarrow> True)"

definition lanesDue :: "'a ScheduledLane_scheme list \<Rightarrow> (string \<rightharpoonup> jsval) \<Rightarrow> jsnum \<Rightarrow> 'a ScheduledLane_scheme list" where
  "lanesDue lanes lastRunMs nowMs =
     (case nowMs of Fin now \<Rightarrow> filter (lane_due lastRunMs now) lanes | _ \<Rightarrow> lanes)"

section \<open>Ticks\<close>

text \<open>
  What the dispatcher does with the two: on each tick it runs the due lanes and stamps each with the
  time of the tick.  A run is the list of ticks at which a given lane was run.
\<close>

definition run_stamps :: "(string \<rightharpoonup> rat) \<Rightarrow> string \<rightharpoonup> jsval" where
  "run_stamps m n = map_option (\<lambda>q. VNum (Fin q)) (m n)"

definition record_runs :: "rat \<Rightarrow> 'a ScheduledLane_scheme list \<Rightarrow> lane_health \<Rightarrow> lane_health" where
  "record_runs now due health =
     foldl (\<lambda>h lane. AList.update (lane_name lane) (Some (VNum (Fin now))) h) health due"

fun run_times :: "string \<Rightarrow> 'a ScheduledLane_scheme list \<Rightarrow> lane_health \<Rightarrow> rat list \<Rightarrow> rat list" where
  "run_times n lanes health [] = []"
| "run_times n lanes health (now # ticks) =
     (let due = lanesDue lanes (run_stamps (lastRunFromLaneHealth (Some health))) (Fin now);
          rest = run_times n lanes (record_runs now due health) ticks
      in if n \<in> lane_name ` set due then now # rest else rest)"

lemma lastRun_lookup:
  assumes "distinct (map fst h)" and "n \<noteq> ''__proto__''"
  shows "lastRunFromLaneHealth (Some h) n = (case map_of h n of None \<Rightarrow> None | Some c \<Rightarrow> lane_stamp c)"
proof -
  have "foldl (\<lambda>lastRun (lane, checked_at). case lane_stamp checked_at of
            Some stamp \<Rightarrow> obj_set lane stamp lastRun | None \<Rightarrow> lastRun) m h n =
        (case map_of h n of None \<Rightarrow> m n | Some c \<Rightarrow> (case lane_stamp c of Some q \<Rightarrow> Some q | None \<Rightarrow> m n))" for m
    using assms(1)
  proof (induction h arbitrary: m)
    case (Cons kv h)
    obtain k c where kv: "kv = (k, c)" by (cases kv)
    have "k = n \<Longrightarrow> map_of h n = None" using Cons.prems kv by (auto simp: map_of_eq_None_iff)
    then show ?case
      using Cons kv assms(2) by (auto simp: obj_set_def split: option.splits)
  qed simp
  then show ?thesis by (auto simp: lastRunFromLaneHealth_def split: option.split)
qed

lemma record_runs_lookup:
  "map_of (record_runs now due h) n = (if n \<in> lane_name ` set due then Some (Some (VNum (Fin now))) else map_of h n)"
  unfolding record_runs_def by (induction due arbitrary: h) (auto simp: update_conv)

lemma record_runs_distinct: "distinct (map fst h) \<Longrightarrow> distinct (map fst (record_runs now due h))"
  unfolding record_runs_def by (induction due arbitrary: h) (auto simp: distinct_update)

text \<open>The stamp of a lane decides whether it is due.\<close>

definition gap_ok :: "rat option \<Rightarrow> rat \<Rightarrow> rat \<Rightarrow> bool" where
  "gap_ok stamp gap now \<longleftrightarrow> (case stamp of None \<Rightarrow> True | Some s \<Rightarrow> now < s \<or> gap \<le> now - s)"

fun greedy_runs :: "rat option \<Rightarrow> rat \<Rightarrow> rat list \<Rightarrow> rat list" where
  "greedy_runs stamp gap [] = []"
| "greedy_runs stamp gap (now # ticks) =
     (if gap_ok stamp gap now then now # greedy_runs (Some now) gap ticks else greedy_runs stamp gap ticks)"

lemma due_iff:
  assumes "distinct (map lane_name lanes)" "lane \<in> set lanes" "everyMinutes lane = Fin every" "0 < every"
    and "distinct (map fst h)" "lane_name lane \<noteq> ''__proto__''"
  shows "lane_name lane \<in> lane_name ` set (lanesDue lanes (run_stamps (lastRunFromLaneHealth (Some h))) (Fin now)) \<longleftrightarrow>
         gap_ok (lastRunFromLaneHealth (Some h) (lane_name lane)) (every * 60 * 1000 - LANE_DUE_TOLERANCE_MS) now"
proof -
  let ?s = "run_stamps (lastRunFromLaneHealth (Some h))"
  have "lane_name lane \<in> lane_name ` set (lanesDue lanes ?s (Fin now)) \<longleftrightarrow> lane_due ?s now lane"
    using assms(1,2) by (auto simp: lanesDue_def dest: inj_onD [OF distinct_map [THEN iffD1, THEN conjunct2]])
  also have "\<dots> \<longleftrightarrow> gap_ok (lastRunFromLaneHealth (Some h) (lane_name lane)) (every * 60 * 1000 - LANE_DUE_TOLERANCE_MS) now"
  proof (cases "lastRunFromLaneHealth (Some h) (lane_name lane)")
    case (Some q)
    have "0 < q"
      using Some lastRun_lookup [OF assms(5,6)]
      by (auto simp: lane_stamp_def split: option.splits jsval.splits jsnum.splits if_splits)
    with Some assms(3,4) show ?thesis by (auto simp: lane_due_def run_stamps_def gap_ok_def Let_def)
  qed (simp add: lane_due_def run_stamps_def gap_ok_def)
  finally show ?thesis .
qed

lemma run_times_greedy:
  assumes "distinct (map lane_name lanes)" "lane \<in> set lanes" "everyMinutes lane = Fin every" "0 < every"
    and "lane_name lane \<noteq> ''__proto__''" and "distinct (map fst h)" and "list_all (\<lambda>t. 0 < t) ticks"
  shows "run_times (lane_name lane) lanes h ticks =
         greedy_runs (lastRunFromLaneHealth (Some h) (lane_name lane)) (every * 60 * 1000 - LANE_DUE_TOLERANCE_MS) ticks"
  using assms(6,7)
proof (induction ticks arbitrary: h)
  case (Cons now ticks)
  let ?n = "lane_name lane"
  let ?due = "lanesDue lanes (run_stamps (lastRunFromLaneHealth (Some h))) (Fin now)"
  let ?h = "record_runs now ?due h"
  have d: "distinct (map fst ?h)" using Cons.prems(1) by (rule record_runs_distinct)
  have "lastRunFromLaneHealth (Some ?h) ?n =
      (if ?n \<in> lane_name ` set ?due then Some now else lastRunFromLaneHealth (Some h) ?n)"
    using Cons.prems(2) by (simp add: lastRun_lookup [OF d assms(5)] lastRun_lookup [OF Cons.prems(1) assms(5)]
        record_runs_lookup lane_stamp_def)
  then show ?case
    using Cons.IH [OF d] Cons.prems due_iff [OF assms(1-4) Cons.prems(1) assms(5), of now]
    by (simp add: Let_def)
qed simp

lemma greedy_subset: "set (greedy_runs s gap ticks) \<subseteq> set ticks"
  by (induction ticks arbitrary: s) auto

lemma greedy_spaced:
  assumes "sorted_wrt (<) ticks" "\<And>t. t \<in> set ticks \<Longrightarrow> (case s of Some q \<Rightarrow> q \<le> t | None \<Rightarrow> True)"
  shows "sorted_wrt (\<lambda>a b. gap \<le> b - a) (greedy_runs s gap ticks) \<and>
         (case s of Some q \<Rightarrow> (\<forall>t\<in>set (greedy_runs s gap ticks). gap \<le> t - q) | None \<Rightarrow> True)"
  using assms
proof (induction ticks arbitrary: s)
  case (Cons now ticks)
  show ?case
  proof (cases "gap_ok s gap now")
    case True
    have IH: "sorted_wrt (\<lambda>a b. gap \<le> b - a) (greedy_runs (Some now) gap ticks) \<and>
        (\<forall>t\<in>set (greedy_runs (Some now) gap ticks). gap \<le> t - now)"
      using Cons.IH [of "Some now"] Cons.prems(1) by (auto simp: less_imp_le)
    show ?thesis
    proof (cases s)
      case (Some q)
      then have "gap \<le> now - q" using True Cons.prems(2) [of now] by (auto simp: gap_ok_def)
      moreover have "now \<le> t" if "t \<in> set (greedy_runs (Some now) gap ticks)" for t
        using that greedy_subset [of "Some now" gap ticks] Cons.prems(1) by (auto simp: less_imp_le)
      ultimately show ?thesis using True IH Some by force
    qed (use True IH in simp)
  next
    case False
    then show ?thesis using Cons.IH [of s] Cons.prems by (cases s) auto
  qed
qed (simp split: option.split)

lemma greedy_complete:
  assumes "t \<in> set ticks" "sorted_wrt (<) ticks"
  shows "(\<exists>r \<in> set (greedy_runs s gap ticks) \<union> set_option s. r \<le> t \<and> t - r < gap) \<or>
         t \<in> set (greedy_runs s gap ticks)"
  using assms
proof (induction ticks arbitrary: s)
  case (Cons now ticks)
  show ?case
  proof (cases "gap_ok s gap now")
    case True
    show ?thesis
    proof (cases "t = now")
      case False
      then have "(\<exists>r \<in> set (greedy_runs (Some now) gap ticks) \<union> {now}. r \<le> t \<and> t - r < gap) \<or>
          t \<in> set (greedy_runs (Some now) gap ticks)"
        using Cons.IH [of "Some now"] Cons.prems by auto
      with True show ?thesis by auto
    qed (use True in simp)
  next
    case False
    show ?thesis
    proof (cases "t = now")
      case True
      with False show ?thesis by (cases s) (auto simp: gap_ok_def not_less)
    next
      case False': False
      then show ?thesis using Cons.IH [of s] Cons.prems False by auto
    qed
  qed
qed simp



end
