(* ===== verification/Daily_Quota.thy ===== *)
theory Daily_Quota
  imports Js_Prelude
begin

text \<open>
  Per-account daily quota accounting (\<open>src/daily-quota.ts\<close>): the day key, the reset instant, and
  the decision of one spend, which the store's conditional upsert implements.  Times are integral
  milliseconds; units are integers.
\<close>

definition utcDayKey :: "int \<Rightarrow> string" where
  "utcDayKey nowMs = iso_date nowMs"

text \<open>\<open>Date.UTC(y, m, d)\<close>, which reads a year from 0 to 99 as one of the twentieth century.\<close>

definition date_utc :: "int \<Rightarrow> int \<Rightarrow> int \<Rightarrow> int" where
  "date_utc y m d = days_from_civil (if 0 \<le> y \<and> y \<le> 99 then 1900 + y else y) m d * MS_PER_DAY"

definition msUntilUtcMidnight :: "int \<Rightarrow> int" where
  "msUntilUtcMidnight nowMs =
     (let (y, m, d) = civil_from_days (nowMs div MS_PER_DAY); next = date_utc y m (d + 1)
      in next - nowMs)"

definition quotaResetAt :: "int \<Rightarrow> string" where
  "quotaResetAt nowMs = iso_datetime (nowMs + msUntilUtcMidnight nowMs)"

record QuotaSpendResult =
  allowed :: bool
  used :: int
  limit :: int
  remaining :: int
  resetAt :: string

definition applyQuotaSpend :: "int \<Rightarrow> int \<Rightarrow> int \<Rightarrow> int \<Rightarrow> QuotaSpendResult" where
  "applyQuotaSpend used_units cost limit_units nowMs =
     (let reset = quotaResetAt nowMs
      in if limit_units < used_units + cost
         then \<lparr>allowed = False, used = used_units, limit = limit_units,
               remaining = max 0 (limit_units - used_units), resetAt = reset\<rparr>
         else let nextUsed = used_units + cost
              in \<lparr>allowed = True, used = nextUsed, limit = limit_units,
                  remaining = max 0 (limit_units - nextUsed), resetAt = reset\<rparr>)"

text \<open>
  For any instant from 1970 on, the quota's reset is the next UTC midnight: it is at most a day
  and strictly ahead, and it is the first instant of the day after the one the instant is in.
\<close>

theorem reset_is_next_midnight:
  assumes "0 \<le> nowMs"
  shows "0 < msUntilUtcMidnight nowMs \<and> msUntilUtcMidnight nowMs \<le> MS_PER_DAY \<and>
         nowMs + msUntilUtcMidnight nowMs = (nowMs div MS_PER_DAY + 1) * MS_PER_DAY"
proof -
  define day where "day = nowMs div MS_PER_DAY"
  have "0 \<le> day" using assms by (simp add: day_def MS_PER_DAY_def pos_imp_zdiv_nonneg_iff)
  obtain y m d where ymd: "civil_from_days day = (y, m, d)" by (cases "civil_from_days day")
  have "99 < y"
  proof -
    define z where "z = day + 719468"
    define doe where "doe = z mod 146097"
    define yoe where "yoe = (doe - doe div 1460 + doe div 36524 - doe div 146096) div 365"
    have "4 \<le> z div 146097" using \<open>0 \<le> day\<close> unfolding z_def by linarith
    moreover have "0 \<le> yoe" unfolding yoe_def by (rule year_of_era(1)) (simp_all add: doe_def)
    moreover have "\<exists>k. fst (civil_from_days day) =
        (if k \<le> (2::int) then yoe + z div 146097 * 400 + 1 else yoe + z div 146097 * 400)"
      unfolding civil_from_days_def Let_def yoe_def doe_def z_def fst_conv by (rule exI) (rule refl)
    then have "yoe + z div 146097 * 400 \<le> y" using ymd by (auto split: if_splits)
    ultimately show ?thesis by linarith
  qed
  then have "date_utc y m (d + 1) = (day + 1) * MS_PER_DAY"
    using days_from_civil_inverse [of 1 day] ymd by (simp add: date_utc_def)
  then have eq: "nowMs + msUntilUtcMidnight nowMs = (day + 1) * MS_PER_DAY"
    using ymd by (simp add: msUntilUtcMidnight_def day_def [symmetric])
  have "day * MS_PER_DAY \<le> nowMs" "nowMs < day * MS_PER_DAY + MS_PER_DAY"
    unfolding day_def MS_PER_DAY_def by linarith+
  then show ?thesis using eq by (simp add: day_def distrib_right)
qed

lemma reset_is_next_midnight_witness:
  "951782400000 + msUntilUtcMidnight 951782400000 = 951868800000"
  using reset_is_next_midnight [of 951782400000] by (simp add: MS_PER_DAY_def)

text \<open>A day of spends: the units used after each, and whether each was accepted.\<close>

fun spend_all :: "int \<Rightarrow> int \<Rightarrow> (int \<times> int) list \<Rightarrow> int \<times> bool list" where
  "spend_all cap u [] = (u, [])"
| "spend_all cap u ((cost, now) # rest) =
     (let r = applyQuotaSpend u cost cap now; (u', oks) = spend_all cap (used r) rest
      in (u', allowed r # oks))"

text \<open>
  Over any sequence of spends the units used grow by exactly the accepted costs, a rejected spend
  uses nothing, and an account that starts within its limit never exceeds it; a spend is rejected
  exactly when it would, and the published remainder is what is left.
\<close>

theorem quota_never_exceeded:
  assumes "u \<le> cap"
  shows "fst (spend_all cap u spends) \<le> cap \<and>
         fst (spend_all cap u spends) =
           u + sum_list (map fst (filter snd (zip (map fst spends) (snd (spend_all cap u spends))))) \<and>
         length (snd (spend_all cap u spends)) = length spends \<and>
         remaining (applyQuotaSpend u cost cap now) = cap - used (applyQuotaSpend u cost cap now) \<and>
         allowed (applyQuotaSpend u cost cap now) = (u + cost \<le> cap)"
proof -
  have "fst (spend_all cap u spends) \<le> cap \<and>
        fst (spend_all cap u spends) =
          u + sum_list (map fst (filter snd (zip (map fst spends) (snd (spend_all cap u spends))))) \<and>
        length (snd (spend_all cap u spends)) = length spends"
    using assms
  proof (induction cap u spends rule: spend_all.induct)
    case (2 cap u cost now rest)
    then show ?case
      by (auto simp: applyQuotaSpend_def Let_def case_prod_beta split: if_splits)
  qed simp
  then show ?thesis using assms by (auto simp: applyQuotaSpend_def Let_def)
qed

lemma quota_never_exceeded_witness:
  "spend_all 10 4 [(5, 0), (3, 0), (1, 0)] = (10, [True, False, True]) \<and>
   fst (spend_all 10 4 [(5, 0), (3, 0), (1, 0)]) \<le> 10"
  using quota_never_exceeded [of 4 10 "[(5, 0), (3, 0), (1, 0)]"]
  by (simp add: applyQuotaSpend_def)

end
