(* ===== verification/Field_Projection.thy ===== *)
theory Field_Projection
  imports Js_Prelude
begin

text \<open>
  The \<open>fields=\<close> projection every list surface shares (\<open>src/field-projection.ts\<close>): the parser with
  its two resolvers and its messages, and the projector.  A row is a JSON value; the keys of an
  object are distinct.
\<close>

definition is_word_char :: "char \<Rightarrow> bool" where
  "is_word_char c \<longleftrightarrow>
     (let n = (of_char c :: nat) in 65 \<le> n \<and> n \<le> 90 \<or> 97 \<le> n \<and> n \<le> 122 \<or> n = 95)"

definition FIELD_NAME_PATTERN :: "string \<Rightarrow> bool" where
  "FIELD_NAME_PATTERN s \<longleftrightarrow>
     (case s of [] \<Rightarrow> False | c # r \<Rightarrow> is_word_char c \<and> list_all (\<lambda>d. is_word_char d \<or> is_digit d) r)"

record FieldProjectionError =
  parameter :: string
  message :: string

text \<open>A resolver: the requested names it cannot serve, and its whole vocabulary.\<close>

record UnknownFieldResolver =
  resolve :: "string list \<Rightarrow> string list"
  known :: "string list"

definition row_keys :: "json \<Rightarrow> string list" where
  "row_keys row = (case row of JObj kvs \<Rightarrow> map fst kvs | _ \<Rightarrow> [])"

definition unknownAgainstSchema :: "string list \<Rightarrow> UnknownFieldResolver" where
  "unknownAgainstSchema shape =
     \<lparr>resolve = (\<lambda>requested. filter (\<lambda>field. field \<notin> set shape) requested), known = first_seen id shape\<rparr>"

text \<open>The lazy scan: drop what a row reveals, stop when everything is resolved.\<close>

fun unresolved_fields :: "string list \<Rightarrow> json list \<Rightarrow> string list" where
  "unresolved_fields unresolved [] = unresolved"
| "unresolved_fields unresolved (row # rows) =
     (if unresolved = [] then []
      else unresolved_fields (filter (\<lambda>f. f \<notin> set (row_keys row)) unresolved) rows)"

definition unknownAgainstRows :: "json list \<Rightarrow> UnknownFieldResolver" where
  "unknownAgainstRows rows =
     \<lparr>resolve = (\<lambda>requested. unresolved_fields (first_seen id requested) rows),
      known = first_seen id (concat (map row_keys rows))\<rparr>"

definition parseFieldsParam :: "params \<Rightarrow> UnknownFieldResolver \<Rightarrow> string \<Rightarrow>
    FieldProjectionError + string list option" where
  "parseFieldsParam ps resolver subject =
     (case params_get ps ''fields'' of
        None \<Rightarrow> Inr None
      | Some raw \<Rightarrow>
          let requested = filter (\<lambda>f. 0 < length f) (map trim (split_on CHR '','' raw))
          in if requested = [] \<or> list_ex (\<lambda>f. \<not> FIELD_NAME_PATTERN f) requested
             then Inl \<lparr>parameter = ''fields'',
                       message = ''fields must be a comma-separated list of row field names, e.g. netuid,name,slug.''\<rparr>
             else let flds = first_seen id requested; unknown = resolve resolver flds
                  in if unknown \<noteq> []
                     then Inl \<lparr>parameter = ''fields'',
                       message = ''fields includes unsupported field'' @ (if length unknown = 1 then [] else ''s'') @
                         '' for '' @ subject @ '': '' @ join_with '', '' unknown @ ''.'' @
                         (if known resolver \<noteq> []
                          then '' Valid fields: '' @ join_with '', '' (js_sort cmp_str (known resolver)) @ ''.''
                          else [])\<rparr>
                     else Inr (Some flds))"

text \<open>\<open>Object.fromEntries\<close> over the requested names the row has.\<close>

definition projectRow :: "json \<Rightarrow> string list option \<Rightarrow> json" where
  "projectRow row flds =
     (case (flds, row) of
        (Some fs, JObj kvs) \<Rightarrow> JObj (List.map_filter (\<lambda>f. map_option (Pair f) (map_of kvs f)) fs)
      | _ \<Rightarrow> row)"

definition projectRows :: "json list \<Rightarrow> string list option \<Rightarrow> json list" where
  "projectRows rows flds =
     (case flds of None \<Rightarrow> rows | Some fs \<Rightarrow> map (\<lambda>row. projectRow row (Some fs)) rows)"

definition projectionMeta :: "string list option \<Rightarrow> string list option" where
  "projectionMeta flds = flds"

interpretation known_order: key_comparator "cmp_str :: string \<Rightarrow> string \<Rightarrow> int"
  by (rule key_comparator_asc)

lemma unresolved_fields_filter:
  "unresolved_fields fs rows = filter (\<lambda>f. f \<notin> set (concat (map row_keys rows))) fs"
  by (induction rows arbitrary: fs) (auto simp: filter_empty_conv intro!: filter_cong)

lemma map_of_projected:
  "distinct fs \<Longrightarrow> map_of (List.map_filter (\<lambda>f. map_option (Pair f) (map_of kvs f)) fs) k =
     (if k \<in> set fs then map_of kvs k else None)"
  by (induction fs) (auto simp: map_filter_Cons split: option.splits)

lemma projected_keys: "set (map fst (List.map_filter (\<lambda>f. map_option (Pair f) (map_of kvs f)) fs)) \<subseteq> set fs"
  by (induction fs) (auto simp: map_filter_Cons split: option.splits)

text \<open>
  An accepted projection names distinct identifiers, each carried by at least one row, in the
  order they were asked for, and narrows a row to exactly those of its own fields: a requested field
  keeps its value, a field the row lacks stays absent, and no other field survives.
\<close>

theorem accepted_projection_narrows:
  assumes "parseFieldsParam ps (unknownAgainstRows rows) subject = Inr (Some flds)"
  shows "distinct flds \<and> flds \<noteq> [] \<and> list_all FIELD_NAME_PATTERN flds \<and>
         set flds \<subseteq> (\<Union>row \<in> set rows. set (row_keys row)) \<and>
         get_prop (projectRow (JObj kvs) (Some flds)) k = (if k \<in> set flds then get_prop (JObj kvs) k else JUndef) \<and>
         set (row_keys (projectRow (JObj kvs) (Some flds))) \<subseteq> set flds"
proof -
  have "distinct flds \<and> flds \<noteq> [] \<and> list_all FIELD_NAME_PATTERN flds \<and>
      set flds \<subseteq> (\<Union>row \<in> set rows. set (row_keys row))"
    using assms
    by (auto simp: parseFieldsParam_def unknownAgainstRows_def Let_def unresolved_fields_filter filter_empty_conv
        list_ex_iff list_all_iff split: option.splits if_splits)
  moreover from this have "distinct flds" by blast
  moreover have "get_prop (projectRow (JObj kvs) (Some flds)) k =
      (if k \<in> set flds then get_prop (JObj kvs) k else JUndef)"
    using map_of_projected [OF \<open>distinct flds\<close>, of kvs k] by (simp add: projectRow_def)
  moreover have "set (row_keys (projectRow (JObj kvs) (Some flds))) \<subseteq> set flds"
    using projected_keys [of kvs flds] by (simp add: projectRow_def row_keys_def)
  ultimately show ?thesis by blast
qed

lemma accepted_projection_narrows_witness:
  "get_prop (projectRow (JObj [(''a'', JInt 1), (''b'', JInt 2)]) (Some [''b''])) ''a'' = JUndef"
proof -
  have "parseFieldsParam [(''fields'', '' b,b'')] (unknownAgainstRows [JObj [(''b'', JNull)]]) ''rows'' = Inr (Some [''b''])"
    by (simp add: parseFieldsParam_def params_get_def unknownAgainstRows_def row_keys_def first_seen_def
        FIELD_NAME_PATTERN_def is_word_char_def trim_def is_space_def Let_def)
  from accepted_projection_narrows [OF this, of "[(''a'', JInt 1), (''b'', JInt 2)]" "''a''"]
  show ?thesis by simp
qed

end
