(* ===== verification/History_Json.thy ===== *)
theory History_Json
  imports Js_Prelude "HOL-Library.Monad_Syntax"
begin

text \<open>
  Canonical identity JSON and its bounded streaming digest (\<open>src/history-sha256.ts\<close>).  SHA-256 of
  a text is the argument \<open>hash\<close>.  A value is a JSON tree whose objects have distinct keys; code
  units are below 256, so no string has surrogates.  The streaming writer is modelled with its
  state (the bytes that remain and the text already given to the digest) and its refusals.
\<close>

section \<open>JSON.stringify of scalars\<close>

definition hex_char :: "nat \<Rightarrow> char" where
  "hex_char n = (if n < 10 then digit_char n else char_of (87 + n))"

definition escape_char :: "char \<Rightarrow> string" where
  "escape_char c =
     (let n = (of_char c :: nat); bs = [CHR 0x5C]
      in if n = 34 then bs @ [c]
         else if n = 92 then bs @ [c]
         else if n = 8 then bs @ ''b''
         else if n = 9 then bs @ ''t''
         else if n = 10 then bs @ ''n''
         else if n = 12 then bs @ ''f''
         else if n = 13 then bs @ ''r''
         else if n < 32 then bs @ ''u00'' @ [hex_char (n div 16), hex_char (n mod 16)]
         else [c])"

definition escape_body :: "string \<Rightarrow> string" where
  "escape_body s = concat (map escape_char s)"

definition QUOTE :: string where
  "QUOTE = [CHR 0x22]"

definition json_quote :: "string \<Rightarrow> string" where
  "json_quote s = QUOTE @ escape_body s @ QUOTE"

fun scalar_json :: "jsval \<Rightarrow> string option" where
  "scalar_json VUndef = None"
| "scalar_json VNull = Some ''null''"
| "scalar_json (VBool b) = Some (if b then ''true'' else ''false'')"
| "scalar_json (VNum n) = Some (if is_finite_num n then number_to_string n else ''null'')"
| "scalar_json (VStr s) = Some (json_quote s)"

definition utf8_length :: "string \<Rightarrow> nat" where
  "utf8_length s = sum_list (map (\<lambda>c. if (of_char c :: nat) < 128 then 1 else 2) s)"

lemma utf8_length_append [simp]: "utf8_length (s @ t) = utf8_length s + utf8_length t"
  by (simp add: utf8_length_def)

lemma utf8_length_Nil [simp]: "utf8_length [] = 0"
  by (simp add: utf8_length_def)

lemma utf8_length_ge: "length s \<le> utf8_length s"
  by (induction s) (auto simp: utf8_length_def)

lemma escape_body_append: "escape_body (s @ t) = escape_body s @ escape_body t"
  by (simp add: escape_body_def)

lemma escape_body_length: "length s \<le> length (escape_body s)"
proof (induction s)
  case (Cons c s)
  have "1 \<le> length (escape_char c)" by (simp add: escape_char_def Let_def)
  with Cons show ?case by (simp add: escape_body_def)
qed simp

section \<open>The canonical text\<close>

definition member_cmp :: "string \<times> 'v \<Rightarrow> string \<times> 'v \<Rightarrow> int" where
  "member_cmp a b = cmp_str (fst a) (fst b)"

lemma size_member: "(k, v) \<in> set kvs \<Longrightarrow> size v < Suc (size_list (size_prod (\<lambda>_. 0) size) kvs)"
  by (induction kvs) auto

text \<open>\<open>JSON.stringify\<close>: members in insertion order, those without a text left out.\<close>

function json_stringify :: "json \<Rightarrow> string option" where
  "json_stringify (JVal v) = scalar_json v"
| "json_stringify (JArr xs) =
     Some (''['' @ join_with '','' (map (\<lambda>x. case json_stringify x of Some t \<Rightarrow> t | None \<Rightarrow> ''null'') xs) @ '']'')"
| "json_stringify (JObj kvs) =
     Some (''{'' @ join_with '','' (concat (map (\<lambda>kv.
       case json_stringify (snd kv) of Some t \<Rightarrow> [json_quote (fst kv) @ '':'' @ t] | None \<Rightarrow> []) kvs)) @ ''}'')"
  by pat_completeness auto
termination
proof (relation "measure size")
  show "(x, JArr xs) \<in> measure size" if "x \<in> set xs" for x xs
    using size_list_estimation' [OF that, of "size x" size] by simp
  show "(snd kv, JObj kvs) \<in> measure size" if "kv \<in> set kvs" for kv kvs
    using that size_member [of "fst kv" "snd kv" kvs] by simp
qed simp

text \<open>
  The members of an object in the order of its sorted keys.  \<open>historyJson\<close> is undefined on
  undefined itself; inside an array that prints nothing, as a member value it prints its name.
\<close>

function historyJson :: "json \<Rightarrow> string option" where
  "historyJson (JVal v) = scalar_json v"
| "historyJson (JArr xs) =
     Some (''['' @ join_with '','' (map (\<lambda>x. case historyJson x of Some t \<Rightarrow> t | None \<Rightarrow> []) xs) @ '']'')"
| "historyJson (JObj kvs) =
     Some (''{'' @ join_with '','' (map (\<lambda>(k, v). json_quote k @ '':'' @
             (case historyJson v of Some t \<Rightarrow> t | None \<Rightarrow> ''undefined'')) (js_sort member_cmp kvs)) @ ''}'')"
  by pat_completeness auto
termination
proof (relation "measure size")
  show "(x, JArr xs) \<in> measure size" if "x \<in> set xs" for x xs
    using size_list_estimation' [OF that, of "size x" size] by simp
  show "(v, JObj kvs) \<in> measure size" if "kv \<in> set (js_sort member_cmp kvs)" "(k, v) = kv" for kv k v kvs
    using that size_member [of k v kvs] by simp
qed simp

interpretation member_order: key_comparator member_cmp
  unfolding member_cmp_def by (intro key_comparators)

section \<open>The bounded writer\<close>

type_synonym writer = "nat \<times> string"

definition emit :: "string \<Rightarrow> writer \<Rightarrow> writer option" where
  "emit t w = (if fst w < utf8_length t then None else Some (fst w - utf8_length t, snd w @ t))"

definition CHUNK :: nat where
  "CHUNK = 8192"

function emit_chunks :: "string \<Rightarrow> writer \<Rightarrow> writer option" where
  "emit_chunks s w =
     (if s = [] then Some w
      else do { w \<leftarrow> emit (escape_body (take CHUNK s)) w; emit_chunks (drop CHUNK s) w })"
  by pat_completeness auto
termination by (relation "measure (\<lambda>(s, w). length s)") (auto simp: CHUNK_def)

declare emit_chunks.simps [simp del]

definition emit_string :: "string \<Rightarrow> writer \<Rightarrow> writer option" where
  "emit_string s w =
     (if fst w < length s + 2 then None
      else do { w \<leftarrow> emit QUOTE w; w \<leftarrow> emit_chunks s w; emit QUOTE w })"

lemma size_list_js_sort: "size_list f (js_sort cmp xs) = size_list f xs"
proof -
  have "size_list f ys = sum_mset (image_mset (\<lambda>y. f y + 1) (mset ys))" for ys
    by (induction ys) auto
  then show ?thesis by (metis mset_js_sort)
qed

function (sequential) write_value :: "nat \<Rightarrow> bool \<Rightarrow> nat \<Rightarrow> json \<Rightarrow> writer \<Rightarrow> writer option"
  and write_elements :: "nat \<Rightarrow> bool \<Rightarrow> nat \<Rightarrow> json list \<Rightarrow> writer \<Rightarrow> writer option"
  and write_members :: "nat \<Rightarrow> bool \<Rightarrow> nat \<Rightarrow> (string \<times> json) list \<Rightarrow> writer \<Rightarrow> writer option" where
  "write_value maxDepth inArray depth v w =
     (if maxDepth < depth then None
      else case v of
             JVal (VStr s) \<Rightarrow> emit_string s w
           | JVal x \<Rightarrow> emit (case scalar_json x of Some t \<Rightarrow> t | None \<Rightarrow> if inArray then [] else ''undefined'') w
           | JArr xs \<Rightarrow>
               do { w \<leftarrow> emit ''['' w;
                    if fst w < length xs then None
                    else do { w \<leftarrow> write_elements maxDepth True depth xs w; emit '']'' w } }
           | JObj kvs \<Rightarrow>
               do { w \<leftarrow> emit ''{'' w;
                    if fst w < length kvs * 4 then None
                    else do { w \<leftarrow> write_members maxDepth True depth (js_sort member_cmp kvs) w; emit ''}'' w } })"
| "write_elements maxDepth first depth [] w = Some w"
| "write_elements maxDepth first depth (x # xs) w =
     do { w \<leftarrow> (if first then Some w else emit '','' w);
          w \<leftarrow> write_value maxDepth True (depth + 1) x w;
          write_elements maxDepth False depth xs w }"
| "write_members maxDepth first depth [] w = Some w"
| "write_members maxDepth first depth (kv # kvs) w =
     do { w \<leftarrow> (if first then Some w else emit '','' w);
          w \<leftarrow> emit_string (fst kv) w;
          w \<leftarrow> emit '':'' w;
          w \<leftarrow> write_value maxDepth False (depth + 1) (snd kv) w;
          write_members maxDepth False depth kvs w }"
  by pat_completeness auto

termination
  by (relation "measure (\<lambda>x. case x of
        Inl (_, _, _, v, _) \<Rightarrow> 2 * size v
      | Inr (Inl (_, _, _, xs, _)) \<Rightarrow> 2 * size_list size xs + 1
      | Inr (Inr (_, _, _, kvs, _)) \<Rightarrow> 2 * size_list (size_prod (\<lambda>_. 0) size) kvs + 1)")
    (auto simp: size_list_js_sort)

declare write_value.simps [simp del]

definition boundedHistoryJsonSha256 :: "(string \<Rightarrow> string) \<Rightarrow> json list \<Rightarrow> nat \<Rightarrow> nat \<Rightarrow> string option" where
  "boundedHistoryJsonSha256 hash vs maxBytes maxDepth =
     map_option (\<lambda>w. hash (snd w))
       (foldl (\<lambda>w v. do { w \<leftarrow> w; w \<leftarrow> write_value maxDepth False 0 v w; emit [CHR 0x0A] w }) (Some (maxBytes, [])) vs)"

section \<open>What the writer computes\<close>

text \<open>
  A writing step \<open>f\<close> emits the text \<open>t\<close> when \<open>ok\<close> holds and enough bytes remain, and refuses in
  every other case.
\<close>

definition emits :: "(writer \<Rightarrow> writer option) \<Rightarrow> bool \<Rightarrow> string \<Rightarrow> bool" where
  "emits f allowed t \<longleftrightarrow>
     (\<forall>r buf. f (r, buf) = (if allowed \<and> utf8_length t \<le> r then Some (r - utf8_length t, buf @ t) else None))"

lemma emitsI:
  "(\<And>r buf. f (r, buf) = (if allowed \<and> utf8_length t \<le> r then Some (r - utf8_length t, buf @ t) else None)) \<Longrightarrow>
   emits f allowed t"
  by (simp add: emits_def)

lemma emitsD: "emits f allowed t \<Longrightarrow>
   f w = (if allowed \<and> utf8_length t \<le> fst w then Some (fst w - utf8_length t, snd w @ t) else None)"
  by (cases w) (simp add: emits_def)

lemma emits_emit: "emits (emit t) True t"
  by (simp add: emits_def emit_def not_less)

lemma emits_nothing: "emits (\<lambda>w. Some w) True []"
  by (simp add: emits_def)

lemma emits_bind:
  assumes "emits f a s" and "emits g b t"
  shows "emits (\<lambda>w. Option.bind (f w) g) (a \<and> b) (s @ t)"
  by (rule emitsI) (auto simp: emitsD [OF assms(1)] emitsD [OF assms(2)])

lemma emits_guard:
  assumes "emits f a t" and "n \<le> utf8_length t"
  shows "emits (\<lambda>w. if fst w < n then None else f w) a t"
  by (rule emitsI) (use assms(2) in \<open>auto simp: emitsD [OF assms(1)]\<close>)

lemma emits_refuse: "emits (\<lambda>w. None) False t"
  by (simp add: emits_def)

lemma emits_cong: "emits f a s \<Longrightarrow> a = b \<Longrightarrow> s = t \<Longrightarrow> emits f b t"
  by simp

lemma emits_chunks: "emits (emit_chunks s) True (escape_body s)"
proof (induction "length s" arbitrary: s rule: less_induct)
  case less
  show ?case
  proof (cases "s = []")
    case True
    then show ?thesis by (simp add: emits_def emit_chunks.simps escape_body_def)
  next
    case False
    then have "length (drop CHUNK s) < length s" by (simp add: CHUNK_def)
    then have "emits (emit_chunks (drop CHUNK s)) True (escape_body (drop CHUNK s))" by (rule less)
    from emits_bind [OF emits_emit [of "escape_body (take CHUNK s)"] this]
    have "emits (\<lambda>w. Option.bind (emit (escape_body (take CHUNK s)) w) (emit_chunks (drop CHUNK s))) True (escape_body s)"
      by (rule emits_cong) (simp_all flip: escape_body_append)
    with False show ?thesis by (simp add: emits_def emit_chunks.simps [of s])
  qed
qed

lemma emits_string: "emits (emit_string s) True (json_quote s)"
proof -
  have "emits (\<lambda>w. Option.bind (emit QUOTE w) (\<lambda>w. Option.bind (emit_chunks s w) (emit QUOTE))) True (json_quote s)"
    by (rule emits_cong [OF emits_bind [OF emits_emit emits_bind [OF emits_chunks emits_emit]]])
      (simp_all add: json_quote_def)
  moreover have "length s + 2 \<le> utf8_length (json_quote s)"
    using escape_body_length [of s] utf8_length_ge [of "json_quote s"]
    by (simp add: json_quote_def QUOTE_def utf8_length_def)
  ultimately have "emits (\<lambda>w. if fst w < length s + 2 then None else
      Option.bind (emit QUOTE w) (\<lambda>w. Option.bind (emit_chunks s w) (emit QUOTE))) True (json_quote s)"
    by (rule emits_guard)
  then show ?thesis by (simp add: emits_def emit_string_def)
qed

text \<open>The text of a value where it stands, of a list of elements and of a list of members.\<close>

definition placed_text :: "bool \<Rightarrow> json \<Rightarrow> string" where
  "placed_text inArray v = (case historyJson v of Some t \<Rightarrow> t | None \<Rightarrow> if inArray then [] else ''undefined'')"

definition member_text :: "string \<times> json \<Rightarrow> string" where
  "member_text = (\<lambda>(k, v). json_quote k @ '':'' @ placed_text False v)"

fun joined :: "bool \<Rightarrow> string list \<Rightarrow> string" where
  "joined first [] = []"
| "joined first (t # ts) = (if first then [] else '','') @ t @ joined False ts"

lemma join_with_Cons: "join_with sep (t # ts) = t @ (if ts = [] then [] else sep @ join_with sep ts)"
  by (cases ts) simp_all

lemma joined_join: "joined True ts = join_with '','' ts"
proof -
  have "joined False us = (if us = [] then [] else CHR '','' # join_with '','' us)" for us
    by (induction us) (auto simp: join_with_Cons)
  then show ?thesis by (cases ts) (simp_all add: join_with_Cons)
qed

fun deep_ok :: "nat \<Rightarrow> nat \<Rightarrow> json \<Rightarrow> bool" where
  "deep_ok maxDepth depth (JVal v) = (depth \<le> maxDepth)"
| "deep_ok maxDepth depth (JArr xs) = (depth \<le> maxDepth \<and> list_all (\<lambda>x. deep_ok maxDepth (depth + 1) x) xs)"
| "deep_ok maxDepth depth (JObj kvs) =
     (depth \<le> maxDepth \<and> list_all (\<lambda>kv. deep_ok maxDepth (depth + 1) (snd kv)) kvs)"

lemma emits_elements:
  assumes "\<And>x. x \<in> set xs \<Longrightarrow> emits (write_value M True (d + 1) x) (deep_ok M (d + 1) x) (placed_text True x)"
  shows "emits (write_elements M first d xs) (list_all (deep_ok M (d + 1)) xs)
           (joined first (map (placed_text True) xs))"
  using assms
proof (induction xs arbitrary: first)
  case (Cons x xs)
  have sep: "emits (\<lambda>w. if first then Some w else emit '','' w) True (if first then [] else '','')"
    using emits_nothing emits_emit [of "'',''"] by (cases first) simp_all
  have hd: "emits (write_value M True (d + 1) x) (deep_ok M (d + 1) x) (placed_text True x)"
    using Cons.prems by simp
  have tl: "emits (write_elements M False d xs) (list_all (deep_ok M (d + 1)) xs)
      (joined False (map (placed_text True) xs))"
    using Cons by simp
  have "emits (\<lambda>w. Option.bind (if first then Some w else emit '','' w)
      (\<lambda>w. Option.bind (write_value M True (d + 1) x w) (write_elements M False d xs)))
      (list_all (deep_ok M (d + 1)) (x # xs)) (joined first (map (placed_text True) (x # xs)))"
    by (rule emits_cong [OF emits_bind [OF sep emits_bind [OF hd tl]]]) simp_all
  then show ?case by (simp add: emits_def)
qed (simp add: emits_def)

lemma emits_members:
  assumes "\<And>k v. (k, v) \<in> set kvs \<Longrightarrow> emits (write_value M False (d + 1) v) (deep_ok M (d + 1) v) (placed_text False v)"
  shows "emits (write_members M first d kvs) (list_all (\<lambda>kv. deep_ok M (d + 1) (snd kv)) kvs)
           (joined first (map member_text kvs))"
  using assms
proof (induction kvs arbitrary: first)
  case (Cons kv kvs)
  obtain k v where kv: "kv = (k, v)" by (cases kv)
  have sep: "emits (\<lambda>w. if first then Some w else emit '','' w) True (if first then [] else '','')"
    using emits_nothing emits_emit [of "'',''"] by (cases first) simp_all
  have val: "emits (write_value M False (d + 1) v) (deep_ok M (d + 1) v) (placed_text False v)"
    using Cons.prems [of k v] kv by simp
  have tl: "emits (write_members M False d kvs) (list_all (\<lambda>kv. deep_ok M (d + 1) (snd kv)) kvs)
      (joined False (map member_text kvs))"
    by (rule Cons.IH) (use Cons.prems in auto)
  have "emits (\<lambda>w. Option.bind (if first then Some w else emit '','' w)
      (\<lambda>w. Option.bind (emit_string k w) (\<lambda>w. Option.bind (emit '':'' w)
        (\<lambda>w. Option.bind (write_value M False (d + 1) v w) (write_members M False d kvs)))))
      (list_all (\<lambda>kv. deep_ok M (d + 1) (snd kv)) (kv # kvs)) (joined first (map member_text (kv # kvs)))"
    by (rule emits_cong [OF emits_bind [OF sep emits_bind [OF emits_string emits_bind [OF emits_emit emits_bind [OF val tl]]]]])
      (simp_all add: member_text_def kv)
  then show ?case by (simp add: emits_def kv)
qed (simp add: emits_def)

lemma elements_bytes: "length ts \<le> utf8_length (joined True ts @ '']'')"
proof -
  have "length us \<le> utf8_length (joined False us)" for us
    by (induction us) (auto simp: utf8_length_def)
  moreover have "1 \<le> utf8_length '']''" by (simp add: utf8_length_def)
  ultimately show ?thesis
    by (cases ts) (simp_all, metis add.commute add_mono le_add2 le_trans plus_1_eq_Suc)
qed

lemma placed_text_nonempty: "placed_text False v \<noteq> []"
proof (cases v)
  case (JVal x)
  then show ?thesis by (cases x) (auto simp: placed_text_def json_quote_def QUOTE_def)
qed (auto simp: placed_text_def)

lemma members_bytes: "length kvs * 4 \<le> utf8_length (joined True (map member_text kvs) @ ''}'')"
proof -
  have "4 \<le> utf8_length (member_text kv)" for kv
  proof -
    obtain k v where kv: "kv = (k, v)" by (cases kv)
    have "1 \<le> utf8_length (placed_text False v)"
      using placed_text_nonempty [of v] utf8_length_ge [of "placed_text False v"]
      by (cases "placed_text False v") auto
    then show ?thesis by (simp add: kv member_text_def json_quote_def QUOTE_def utf8_length_def)
  qed
  then have "length kvs * 4 \<le> utf8_length (joined b (map member_text kvs))" for b
    by (induction kvs arbitrary: b) (simp, metis (no_types, lifting) add_mono joined.simps(2) length_Cons list.simps(9)
        mult_Suc trans_le_add2 utf8_length_append)
  from this [of True] show ?thesis by simp
qed

lemma write_value_emits:
  "emits (write_value M inArray d v) (deep_ok M d v) (placed_text inArray v)"
proof (induction "size v" arbitrary: v d inArray rule: less_induct)
  case less
  show ?case
  proof (cases "M < d")
    case True
    then show ?thesis by (cases v) (simp_all add: emits_def write_value.simps)
  next
    case False
    show ?thesis
    proof (cases v)
      case (JVal x)
      have "emits (write_value M inArray d v) True (placed_text inArray v)"
      proof (cases x)
        case (VStr s)
        then show ?thesis
          using emits_string [of s] False JVal by (simp add: emits_def write_value.simps placed_text_def)
      qed (use emits_emit False JVal in \<open>simp_all add: emits_def write_value.simps placed_text_def\<close>)
      then show ?thesis using False JVal by simp
    next
      case (JArr xs)
      have "emits (write_value M True (d + 1) x) (deep_ok M (d + 1) x) (placed_text True x)" if "x \<in> set xs" for x
        using less [where v = x and d = "d + 1" and inArray = True] size_list_estimation' [OF that, of "size x" size] JArr by simp
      note E = emits_elements [where xs = xs and d = d and M = M and first = True, OF this]
      have "emits (\<lambda>w. if fst w < length xs then None
          else Option.bind (write_elements M True d xs w) (emit '']''))
          (list_all (deep_ok M (d + 1)) xs \<and> True) (joined True (map (placed_text True) xs) @ '']'')"
        using emits_guard [OF emits_bind [OF E emits_emit [of "'']''"]]] elements_bytes [of "map (placed_text True) xs"]
        by simp
      from emits_bind [OF emits_emit [of "''[''"] this]
      have "emits (write_value M inArray d v) (list_all (deep_ok M (d + 1)) xs)
          (''['' @ joined True (map (placed_text True) xs) @ '']'')"
        using False JArr by (simp add: emits_def write_value.simps)
      moreover have "map (placed_text True) xs = map (\<lambda>x. case historyJson x of Some t \<Rightarrow> t | None \<Rightarrow> []) xs"
        by (simp add: placed_text_def)
      ultimately show ?thesis
        using False JArr by (simp add: joined_join placed_text_def)
    next
      case (JObj kvs)
      let ?ms = "js_sort member_cmp kvs"
      have "emits (write_value M False (d + 1) v') (deep_ok M (d + 1) v') (placed_text False v')" if "(k, v') \<in> set ?ms" for k v'
        using less [where v = v' and d = "d + 1" and inArray = False] size_member [of k v' kvs] JObj that by simp
      note E = emits_members [where kvs = "js_sort member_cmp kvs" and d = d and M = M and first = True, OF this]
      have "emits (\<lambda>w. if fst w < length kvs * 4 then None
          else Option.bind (write_members M True d ?ms w) (emit ''}''))
          (list_all (\<lambda>kv. deep_ok M (d + 1) (snd kv)) ?ms \<and> True) (joined True (map member_text ?ms) @ ''}'')"
        using emits_guard [OF emits_bind [OF E emits_emit [of "''}''"]]] members_bytes [of ?ms] by simp
      from emits_bind [OF emits_emit [of "''{''"] this]
      have "emits (write_value M inArray d v) (list_all (\<lambda>kv. deep_ok M (d + 1) (snd kv)) ?ms)
          (''{'' @ joined True (map member_text ?ms) @ ''}'')"
        using False JObj by (simp add: emits_def write_value.simps)
      moreover have "list_all (\<lambda>kv. deep_ok M (d + 1) (snd kv)) ?ms = list_all (\<lambda>kv. deep_ok M (d + 1) (snd kv)) kvs"
        by (simp add: list_all_iff)
      moreover have "map member_text ?ms = map (\<lambda>(k, v). json_quote k @ '':'' @
             (case historyJson v of Some t \<Rightarrow> t | None \<Rightarrow> ''undefined'')) ?ms"
        by (simp add: member_text_def placed_text_def)
      ultimately show ?thesis
        using False JObj by (simp add: joined_join placed_text_def)
    qed
  qed
qed

text \<open>
  C10. The streaming digest is exactly the digest of the canonical text, or a refusal: for any list of
  values it hashes \<open>historyJson\<close> of each followed by a newline when every value is within the depth
  and the whole text within the bytes allowed, and returns null in every other case, so it never
  returns the digest of a prefix and never refuses a text that fits.
\<close>

theorem bounded_digest_exact:
  "boundedHistoryJsonSha256 hash vs maxBytes maxDepth =
   (let t = concat (map (\<lambda>v. placed_text False v @ [CHR 0x0A]) vs)
    in if list_all (deep_ok maxDepth 0) vs \<and> utf8_length t \<le> maxBytes then Some (hash t) else None)"
proof -
  let ?f = "\<lambda>w v. do { w \<leftarrow> w; w \<leftarrow> write_value maxDepth False 0 v w; emit [CHR 0x0A] w }"
  have none: "foldl ?f None us = None" for us by (induction us) simp_all
  have "foldl ?f (Some (r, buf)) us =
      (let t = concat (map (\<lambda>v. placed_text False v @ [CHR 0x0A]) us)
       in if list_all (deep_ok maxDepth 0) us \<and> utf8_length t \<le> r then Some (r - utf8_length t, buf @ t) else None)"
    for r buf us
  proof (induction us arbitrary: r buf)
    case (Cons v us)
    note E = emitsD [OF emits_bind [OF write_value_emits [of maxDepth False 0 v] emits_emit [of "[CHR 0x0A]"]]]
    show ?case
      by (auto simp: E Cons Let_def none simp flip: append_assoc)
  qed (simp add: Let_def)
  then show ?thesis by (simp add: boundedHistoryJsonSha256_def Let_def)
qed

end
