(* ===== verification/List_Query.thy ===== *)
theory List_Query
  imports Field_Projection History_Json
begin

text \<open>
  Filtering, search, sort and cursor pagination over in-memory collections
  (\<open>workers/list-query.ts\<close>).  A row is an object given by its own keys.  Arguments stand for what
  the module calls and does not define: the collection table, the schema check of the query
  (\<open>validate\<close>), SHA-256 (\<open>hash\<close>) and the collation of \<open>localeCompare\<close> (\<open>lc\<close>).  The ordering
  statements hold where the comparator is consistent, which is where the language fixes the result
  of a sort.
\<close>

section \<open>Configuration\<close>

type_synonym Row = "(string \<times> json) list"

definition row_get :: "Row \<Rightarrow> string \<Rightarrow> json" where
  "row_get row k = get_prop (JObj row) k"

record FilterSchema =
  fs_type :: "string option"
  fs_enum :: "string list option"
  fs_maxLength :: "nat option"
  fs_pattern :: "string option"
  fs_minimum :: "int option"
  fs_maximum :: "int option"

record QueryCollectionConfig =
  data_key :: string
  config_filters :: "(string \<times> FilterSchema) list"
  csv_filters :: "(string \<times> string) list"
  array_filters :: "(string \<times> string list) list"
  range_filters :: "string list"
  presence_filters :: "(string \<times> string) list"
  value_set_filters :: "(string \<times> string \<times> string list) list"
  search_keys :: "string list"
  sort_fields :: "string list"

record QueryError =
  err_parameter :: string
  err_reason :: "string option"
  err_message :: string

definition queryCollectionConfig :: "(string \<times> QueryCollectionConfig) list \<Rightarrow> string option \<Rightarrow> QueryCollectionConfig option" where
  "queryCollectionConfig table queryCollection =
     (case queryCollection of None \<Rightarrow> None | Some c \<Rightarrow> if c = [] then None else map_of table c)"

definition effectiveFilterNames :: "QueryCollectionConfig \<Rightarrow> string list \<Rightarrow> string list" where
  "effectiveFilterNames config queryFilterNames =
     (if 0 < length queryFilterNames
      then filter (\<lambda>name. map_of (config_filters config) name \<noteq> None) queryFilterNames
      else map fst (config_filters config))"

definition listQueryConfig :: "QueryCollectionConfig \<Rightarrow> string list \<Rightarrow> QueryCollectionConfig" where
  "listQueryConfig config queryFilterNames =
     config\<lparr>config_filters :=
       foldl (\<lambda>m name. case map_of (config_filters config) name of
                         Some schema \<Rightarrow> AList.update name schema m | None \<Rightarrow> m)
         [] (effectiveFilterNames config queryFilterNames)\<rparr>"

definition listQueryParamNamesForConfig :: "QueryCollectionConfig \<Rightarrow> string list \<Rightarrow> bool \<Rightarrow> string list" where
  "listQueryParamNamesForConfig config queryFilterNames csvResponse =
     (let filterNames = (if 0 < length queryFilterNames then effectiveFilterNames config queryFilterNames
                         else map fst (config_filters config));
          rangeNames = concat (map (\<lambda>field. [''min_'' @ field, ''max_'' @ field]) (range_filters config));
          names = [''q'', ''fields'', ''limit'', ''cursor'', ''page_snapshot'', ''sort'', ''order''] @
                  filterNames @ map fst (csv_filters config) @ map fst (array_filters config) @ rangeNames
      in if csvResponse then names @ [''format''] else names)"

definition listQueryParamNames :: "(string \<times> QueryCollectionConfig) list \<Rightarrow> string option \<Rightarrow> string list \<Rightarrow> string list" where
  "listQueryParamNames table queryCollection queryFilterNames =
     (case queryCollectionConfig table queryCollection of
        None \<Rightarrow> []
      | Some config \<Rightarrow> listQueryParamNamesForConfig config queryFilterNames False)"

definition canonicalListSearch :: "(string \<times> QueryCollectionConfig) list \<Rightarrow> params \<Rightarrow> string option \<Rightarrow> string list \<Rightarrow> params" where
  "canonicalListSearch table ps queryCollection queryFilterNames =
     foldl (\<lambda>out name. case params_get ps name of Some v \<Rightarrow> params_set name v out | None \<Rightarrow> out)
       [] (listQueryParamNames table queryCollection queryFilterNames)"

section \<open>Integer parameters\<close>

definition integerParam :: "string option \<Rightarrow> int option" where
  "integerParam v =
     (case v of
        None \<Rightarrow> None
      | Some s \<Rightarrow>
          if s = [] then None
          else if \<not> all_digits s then None
          else let parsed = string_to_number s
               in if is_safe_integer parsed \<and> 0 \<le> num_int parsed then Some (num_int parsed) else None)"

definition integerCeilingError :: "string \<Rightarrow> int \<Rightarrow> FilterSchema \<Rightarrow> QueryError option" where
  "integerCeilingError key parsed schema =
     (case fs_maximum schema of
        None \<Rightarrow> None
      | Some m \<Rightarrow>
          if parsed \<le> m then None
          else Some \<lparr>err_parameter = key, err_reason = None,
                     err_message = key @ '' must be an integer between 0 and '' @ string_of_int m @ ''.''\<rparr>)"

lemma integerParam_nat [simp]: "int n \<le> MAX_SAFE \<Longrightarrow> integerParam (Some (string_of_nat n)) = Some (int n)"
  by (simp add: integerParam_def string_to_number_digits to_double_nat_safe Let_def)

section \<open>Filters\<close>

text \<open>One filter parameter against one row, in the order the code tries the kinds of filter.\<close>

definition filter_matches :: "QueryCollectionConfig \<Rightarrow> params \<Rightarrow> Row \<Rightarrow> string \<Rightarrow> bool" where
  "filter_matches config ps row key =
     (case params_get ps key of
        None \<Rightarrow> True
      | Some expected \<Rightarrow>
          let expectedCi = lower expected;
              csvField = (case map_of (csv_filters config) key of Some f \<Rightarrow> f | None \<Rightarrow> [])
          in if csvField \<noteq> [] then js_string (row_get row csvField) \<in> set (split_on CHR '','' expected)
             else case map_of (value_set_filters config) key of
                    Some (field, vs) \<Rightarrow>
                      let matches = (case row_get row field of JVal (VStr s) \<Rightarrow> s \<in> set vs | _ \<Rightarrow> False)
                      in matches = (expectedCi = ''true'')
                  | None \<Rightarrow>
                  (case map_of (array_filters config) key of
                     Some arrayFields \<Rightarrow>
                       list_ex (\<lambda>field. case row_get row field of
                                  JArr vs \<Rightarrow> expectedCi \<in> set (map (\<lambda>v. lower (js_string v)) vs)
                                | _ \<Rightarrow> False) arrayFields
                   | None \<Rightarrow>
                     let presenceField = (case map_of (presence_filters config) key of Some f \<Rightarrow> f | None \<Rightarrow> [])
                     in if presenceField \<noteq> [] then
                          (\<not> nullish (row_get row presenceField) \<and> row_get row presenceField \<noteq> JStr []) = (expectedCi = ''true'')
                        else let v = row_get row key
                             in if nullish v then False
                                else case v of
                                       JArr vs \<Rightarrow> expectedCi \<in> set (map (\<lambda>v. lower (js_string v)) vs)
                                     | _ \<Rightarrow> lower (js_string v) = expectedCi))"

definition filterRows :: "Row list \<Rightarrow> params \<Rightarrow> string list \<Rightarrow> QueryCollectionConfig \<Rightarrow> Row list" where
  "filterRows rows ps keys config =
     filter (\<lambda>row. list_all (\<lambda>key. if \<not> params_has ps key then True else filter_matches config ps row key) keys) rows"

fun contradictoryRange :: "params \<Rightarrow> string list \<Rightarrow> QueryError option" where
  "contradictoryRange ps [] = None"
| "contradictoryRange ps (field # fs) =
     (let mn = params_get ps (''min_'' @ field); mx = params_get ps (''max_'' @ field)
      in case (mn, mx) of
           (Some a, Some b) \<Rightarrow>
             (case (string_to_number a, string_to_number b) of
                (Fin x, Fin y) \<Rightarrow>
                  if y < x
                  then Some \<lparr>err_parameter = ''min_'' @ field, err_reason = None,
                             err_message = ''min_'' @ field @ '' must not be greater than max_'' @ field @ ''.''\<rparr>
                  else contradictoryRange ps fs
              | _ \<Rightarrow> contradictoryRange ps fs)
         | _ \<Rightarrow> contradictoryRange ps fs)"

datatype bound_kind = MinBound | MaxBound

definition range_bounds :: "params \<Rightarrow> string list \<Rightarrow> (string \<times> jsnum \<times> bound_kind) list" where
  "range_bounds ps rangeFields =
     concat (map (\<lambda>field.
       (case params_get ps (''min_'' @ field) of Some v \<Rightarrow> [(field, string_to_number v, MinBound)] | None \<Rightarrow> []) @
       (case params_get ps (''max_'' @ field) of Some v \<Rightarrow> [(field, string_to_number v, MaxBound)] | None \<Rightarrow> [])) rangeFields)"

fun bound_matches :: "Row \<Rightarrow> string \<times> jsnum \<times> bound_kind \<Rightarrow> bool" where
  "bound_matches row (field, bnd, kind) =
     (case row_get row field of
        JVal (VNum v) \<Rightarrow> (case kind of MinBound \<Rightarrow> num_le bnd v | MaxBound \<Rightarrow> num_le v bnd)
      | _ \<Rightarrow> False)"

definition rangeFilterRows :: "Row list \<Rightarrow> params \<Rightarrow> string list \<Rightarrow> Row list" where
  "rangeFilterRows rows ps rangeFields =
     (let bounds = range_bounds ps rangeFields
      in if length bounds = 0 then rows else filter (\<lambda>row. list_all (bound_matches row) bounds) rows)"

section \<open>Search\<close>

definition search_haystack :: "string list \<Rightarrow> Row \<Rightarrow> string" where
  "search_haystack keys row =
     lower (join_with '' '' (map js_string (filter truthy
       (concat (map (\<lambda>key. case row_get row key of JArr vs \<Rightarrow> vs | v \<Rightarrow> [v]) keys)))))"

definition search_terms :: "string \<Rightarrow> string list" where
  "search_terms q = map lower (words_of [] (trim q))"

definition searchMatchingRows :: "Row list \<Rightarrow> string option \<Rightarrow> string list \<Rightarrow> Row list" where
  "searchMatchingRows rows q keys =
     (case q of
        None \<Rightarrow> rows
      | Some text \<Rightarrow>
          if text = [] \<or> length keys = 0 then rows
          else let terms = search_terms text
               in if length terms = 0 then rows
                  else filter (\<lambda>row. list_all (includes_text (search_haystack keys row)) terms) rows)"

definition searchRows :: "Row list \<Rightarrow> params \<Rightarrow> string list \<Rightarrow> Row list" where
  "searchRows rows ps keys = searchMatchingRows rows (params_get ps ''q'') keys"

section \<open>Sort\<close>

definition compareValues :: "(string \<Rightarrow> string \<Rightarrow> int) \<Rightarrow> json \<Rightarrow> json \<Rightarrow> int" where
  "compareValues lc a b =
     (case (a, b) of
        (JVal (VNum x), JVal (VNum y)) \<Rightarrow> num_cmp x y
      | _ \<Rightarrow> lc (if nullish a then [] else js_string a) (if nullish b then [] else js_string b))"

definition row_cmp :: "(string \<Rightarrow> string \<Rightarrow> int) \<Rightarrow> string \<Rightarrow> int \<Rightarrow> Row \<Rightarrow> Row \<Rightarrow> int" where
  "row_cmp lc key direction a b =
     (let cmp = compareValues lc (row_get a key) (row_get b key) * direction
      in if cmp \<noteq> 0 then cmp
         else if \<not> nullish (row_get a ''netuid'') \<and> \<not> nullish (row_get b ''netuid'')
         then num_cmp (json_number (row_get a ''netuid'')) (json_number (row_get b ''netuid''))
         else 0)"

definition sortRows :: "(string \<Rightarrow> string \<Rightarrow> int) \<Rightarrow> Row list \<Rightarrow> params \<Rightarrow> Row list" where
  "sortRows lc rows ps =
     (case params_get ps ''sort'' of
        None \<Rightarrow> rows
      | Some key \<Rightarrow>
          if key = [] then rows
          else let direction = (if params_get ps ''order'' = Some ''desc'' then -1 else 1);
                   missing = filter (\<lambda>row. nullish (row_get row key)) rows;
                   present = filter (\<lambda>row. \<not> nullish (row_get row key)) rows
               in js_sort (row_cmp lc key direction) present @ missing)"

section \<open>Pagination\<close>

definition MIN_LIMIT :: int where "MIN_LIMIT = 1"
definition MAX_LIMIT :: int where "MAX_LIMIT = 1000"
definition DEFAULT_LIMIT :: int where "DEFAULT_LIMIT = 100"

record PaginatedRows =
  pr_cursor :: int
  pr_limit :: int
  pr_next :: "int option"
  pr_desc :: bool
  pr_rows :: "Row list"
  pr_sort :: "string option"

definition paginateRows :: "Row list \<Rightarrow> params \<Rightarrow> int option \<Rightarrow> PaginatedRows" where
  "paginateRows rows ps defaultLimit =
     (let requestedLimit = integerParam (params_get ps ''limit'');
          requestedCursor = integerParam (params_get ps ''cursor'');
          n = int (length rows);
          shouldPage = (requestedLimit \<noteq> None \<or> requestedCursor \<noteq> None \<or> defaultLimit \<noteq> None \<or>
                        params_has ps ''page_snapshot'');
          wanted = (case requestedLimit of Some l \<Rightarrow> l
                    | None \<Rightarrow> (case defaultLimit of Some l \<Rightarrow> l | None \<Rightarrow> DEFAULT_LIMIT));
          bnd = (if shouldPage then min (max wanted MIN_LIMIT) MAX_LIMIT else n);
          cursor = min (max (case requestedCursor of Some c \<Rightarrow> c | None \<Rightarrow> 0) 0) n;
          next = cursor + bnd
      in \<lparr>pr_cursor = cursor, pr_limit = bnd, pr_next = (if next < n then Some next else None),
          pr_desc = ((case params_get ps ''sort'' of Some s \<Rightarrow> s \<noteq> [] | None \<Rightarrow> False) \<and>
                     params_get ps ''order'' = Some ''desc''),
          pr_rows = (if shouldPage then take (nat (next - cursor)) (drop (nat cursor) rows) else rows),
          pr_sort = (case params_get ps ''sort'' of Some s \<Rightarrow> if s = [] then None else Some s | None \<Rightarrow> None)\<rparr>)"

section \<open>The transform\<close>

definition CATALOG_MATCHED_ROWS_MAX :: nat where "CATALOG_MATCHED_ROWS_MAX = 5000"
definition CATALOG_HASH_BYTES_MAX :: nat where "CATALOG_HASH_BYTES_MAX = 16 * 1024 * 1024"
definition CATALOG_HASH_DEPTH_MAX :: nat where "CATALOG_HASH_DEPTH_MAX = 64"

record ListPaginationMeta =
  lm_collection :: string
  lm_total :: nat
  lm_returned :: nat
  lm_limit :: int
  lm_cursor :: int
  lm_next_cursor :: "int option"
  lm_snapshot :: "string option"
  lm_sort :: "string option"
  lm_desc :: bool

type_synonym list_result = "QueryError + (string \<times> json) list \<times> ListPaginationMeta option \<times> string list option"

definition as_rows :: "json \<Rightarrow> Row list" where
  "as_rows v = (case v of JArr xs \<Rightarrow> map (\<lambda>x. case x of JObj kvs \<Rightarrow> kvs | _ \<Rightarrow> []) xs | _ \<Rightarrow> [])"

definition budget_error :: QueryError where
  "budget_error =
     \<lparr>err_parameter = ''page_snapshot'', err_reason = Some ''catalog_budget_exceeded'',
      err_message = ''Checked catalog exceeds the '' @ string_of_nat CATALOG_MATCHED_ROWS_MAX @ ''-row, '' @
        string_of_nat CATALOG_HASH_BYTES_MAX @ ''-byte or '' @ string_of_nat CATALOG_HASH_DEPTH_MAX @
        ''-level verification budget. Narrow filters and start again; no partial page was returned.''\<rparr>"

definition page_param_error :: "params \<Rightarrow> QueryError option" where
  "page_param_error ps =
     (case find (\<lambda>name. params_has ps name \<and> integerParam (params_get ps name) = None) [''cursor'', ''limit''] of
        None \<Rightarrow> None
      | Some name \<Rightarrow>
          Some \<lparr>err_parameter = name, err_reason = None,
                err_message = name @ '' must be a non-negative safe integer in decimal digits.''\<rparr>)"

definition snapshot_values :: "(string \<Rightarrow> string \<Rightarrow> int) \<Rightarrow> string \<times> string \<Rightarrow> params \<Rightarrow> Row list \<Rightarrow> json list" where
  "snapshot_values lc scope snapshotParams sorted_rows =
     JObj [(''scope'', JArr [JStr (fst scope), JStr (snd scope)]),
           (''query'', JArr (map (\<lambda>(k, v). JArr [JStr k, JStr v])
              (js_sort (\<lambda>a b. lc (fst a) (fst b))
                (filter (\<lambda>(name, _). name \<notin> set [''cursor'', ''limit'', ''format'', ''page_snapshot'']) snapshotParams))))]
     # map JObj sorted_rows"

definition matched_rows :: "(string \<times> json) list \<Rightarrow> params \<Rightarrow> QueryCollectionConfig \<Rightarrow> Row list" where
  "matched_rows data ps config =
     rangeFilterRows
       (filterRows (searchRows (as_rows (get_prop (JObj data) (data_key config))) ps (search_keys config))
          ps (map fst (config_filters config)) config)
       ps (range_filters config)"

text \<open>
  The guarded page: the checks a \<open>page_snapshot\<close> adds, in their order, and the token of the result.
\<close>

definition page_guard ::
  "(string \<Rightarrow> string \<Rightarrow> int) \<Rightarrow> (string \<Rightarrow> string) \<Rightarrow> params \<Rightarrow> Row list \<Rightarrow> string \<times> string \<Rightarrow> params \<Rightarrow>
   string \<Rightarrow> QueryError + string" where
  "page_guard lc hash ps filtered snapshotScope snapshotParams requestedSnapshot =
     (if CATALOG_MATCHED_ROWS_MAX < length filtered then Inl budget_error
      else case page_param_error ps of
             Some e \<Rightarrow> Inl e
           | None \<Rightarrow>
               if requestedSnapshot = ''start'' \<and>
                  (let c = (case params_get ps ''cursor'' of Some c \<Rightarrow> string_to_number c | None \<Rightarrow> Fin 0)
                   in num_le (Fin 0) c \<and> c \<noteq> Fin 0)
               then Inl \<lparr>err_parameter = ''page_snapshot'', err_reason = None,
                         err_message = ''page_snapshot=start requires cursor 0.''\<rparr>
               else (case boundedHistoryJsonSha256 hash
                            (snapshot_values lc snapshotScope snapshotParams (sortRows lc filtered ps))
                            CATALOG_HASH_BYTES_MAX CATALOG_HASH_DEPTH_MAX of
                       None \<Rightarrow> Inl budget_error
                     | Some digest \<Rightarrow>
                         if requestedSnapshot \<noteq> ''start'' \<and> requestedSnapshot \<noteq> ''v1.'' @ digest
                         then Inl \<lparr>err_parameter = ''page_snapshot'', err_reason = Some ''catalog_changed'',
                                   err_message = ''Collection or query changed since the previous page; restart with page_snapshot=start at cursor 0.''\<rparr>
                         else Inr (''v1.'' @ digest)))"

definition applyListTransform ::
  "(string \<Rightarrow> string \<Rightarrow> int) \<Rightarrow> (string \<Rightarrow> string) \<Rightarrow> (string \<times> json) list \<Rightarrow> params \<Rightarrow> QueryCollectionConfig \<Rightarrow>
   int option \<Rightarrow> string \<times> string \<Rightarrow> params \<Rightarrow> list_result" where
  "applyListTransform lc hash data ps config defaultLimit snapshotScope snapshotParams =
     (let key = data_key config
      in case parseFieldsParam ps (unknownAgainstRows (map JObj (as_rows (get_prop (JObj data) key)))) key of
           Inl e \<Rightarrow> Inl \<lparr>err_parameter = parameter e, err_reason = None, err_message = message e\<rparr>
         | Inr projection \<Rightarrow>
             let filtered = matched_rows data ps config; sorted_rows = sortRows lc filtered ps;
                 guard = (case params_get ps ''page_snapshot'' of
                            None \<Rightarrow> Inr None
                          | Some s \<Rightarrow>
                              if s = [] then Inr None
                              else (case page_guard lc hash ps filtered snapshotScope snapshotParams s of
                                      Inl e \<Rightarrow> Inl e | Inr snapshot \<Rightarrow> Inr (Some snapshot)))
             in case guard of
                  Inl e \<Rightarrow> Inl e
                | Inr snapshot \<Rightarrow>
                    let page = paginateRows sorted_rows ps defaultLimit
                    in Inr (AList.update key (JArr (projectRows (map JObj (pr_rows page)) projection)) data,
                            Some \<lparr>lm_collection = key, lm_total = length sorted_rows,
                                  lm_returned = length (pr_rows page), lm_limit = pr_limit page,
                                  lm_cursor = pr_cursor page, lm_next_cursor = pr_next page,
                                  lm_snapshot = snapshot, lm_sort = pr_sort page, lm_desc = pr_desc page\<rparr>,
                            projectionMeta projection))"

text \<open>\<open>validate\<close> is the collection's own schema check of the parameters.\<close>

definition applyQueryFilters ::
  "(string \<times> QueryCollectionConfig) list \<Rightarrow> (params \<Rightarrow> string \<Rightarrow> string list \<Rightarrow> QueryError option) \<Rightarrow>
   (string \<Rightarrow> string \<Rightarrow> int) \<Rightarrow> (string \<Rightarrow> string) \<Rightarrow> (string \<times> json) list \<Rightarrow> params \<Rightarrow> string option \<Rightarrow> string list \<Rightarrow>
   int option \<Rightarrow> string \<Rightarrow> params \<Rightarrow> list_result" where
  "applyQueryFilters table validate lc hash data ps queryCollection queryFilterNames defaultLimit pathname snapshotParams =
     (let collection = (case queryCollection of Some c \<Rightarrow> c | None \<Rightarrow> [])
      in case queryCollectionConfig table (Some collection) of
           None \<Rightarrow> Inr (data, None, None)
         | Some config \<Rightarrow>
             (case get_prop (JObj data) (data_key config) of
                JArr _ \<Rightarrow>
                  (case (case validate ps collection queryFilterNames of
                           Some e \<Rightarrow> Some e
                         | None \<Rightarrow> contradictoryRange ps (range_filters config)) of
                     Some e \<Rightarrow> Inl e
                   | None \<Rightarrow> applyListTransform lc hash data ps (listQueryConfig config queryFilterNames)
                               defaultLimit (collection, pathname) snapshotParams)
              | _ \<Rightarrow>
                  if params_has ps ''page_snapshot''
                  then Inl \<lparr>err_parameter = ''page_snapshot'', err_reason = Some ''catalog_unavailable'',
                            err_message = ''Guarded collection is unavailable; retry from the first page.''\<rparr>
                  else Inr (data, None, None)))"

section \<open>Link header\<close>

text \<open>
  A URL is the text before its query, its search parameters and its fragment.  The caller's extra
  parameters are given as text.
\<close>

record URL =
  url_base :: string
  url_params :: params
  url_hash :: string

definition href :: "URL \<Rightarrow> string" where
  "href u = url_base u @ (if url_params u = [] then [] else CHR ''?'' # form_encode (url_params u)) @ url_hash u"

record Pagination =
  pg_cursor :: int
  pg_limit :: int
  pg_next_cursor :: "int option"
  pg_total :: int
  pg_snapshot :: "string option"

definition page_params :: "params \<Rightarrow> params \<Rightarrow> Pagination \<Rightarrow> int \<Rightarrow> params" where
  "page_params canonicalSearch extra pagination offset =
     (let ps = foldl (\<lambda>ps (name, v). params_set name v ps) canonicalSearch extra;
          ps = params_set ''limit'' (string_of_int (pg_limit pagination))
                 (params_set ''cursor'' (string_of_int offset) ps)
      in case pg_snapshot pagination of
           Some s \<Rightarrow> if s = [] then ps else params_set ''page_snapshot'' s ps
         | None \<Rightarrow> ps)"

definition page_links :: "Pagination \<Rightarrow> (int \<times> string) list" where
  "page_links p =
     (if 0 < pg_cursor p
      then [(0, ''first''), (max 0 (pg_cursor p - pg_limit p), ''prev'')] else []) @
     (case pg_next_cursor p of
        Some n \<Rightarrow> [(n, ''next''), ((pg_total p - 1) div pg_limit p * pg_limit p, ''last'')]
      | None \<Rightarrow> [])"

definition linkHeader :: "(string \<times> string) list \<Rightarrow> string" where
  "linkHeader links =
     join_with '', '' (map (\<lambda>(uri, rel). ''<'' @ uri @ ''>; rel='' @ QUOTE @ rel @ QUOTE) links)"

definition paginationLinkHeader :: "(string \<times> QueryCollectionConfig) list \<Rightarrow> URL \<Rightarrow> Pagination option \<Rightarrow>
    string option \<Rightarrow> string list \<Rightarrow> params \<Rightarrow> string option" where
  "paginationLinkHeader table url pagination queryCollection queryFilterNames extra =
     (case pagination of
        None \<Rightarrow> None
      | Some p \<Rightarrow>
          let canonicalSearch = (if queryCollection \<noteq> None \<and> queryCollection \<noteq> Some []
                                 then canonicalListSearch table (url_params url) queryCollection queryFilterNames
                                 else url_params url);
              pageUri = (\<lambda>offset. href (url\<lparr>url_params := page_params canonicalSearch extra p offset\<rparr>));
              links = map (\<lambda>(offset, rel). (pageUri offset, rel)) (page_links p)
          in if 0 < length links then Some (linkHeader links) else None)"

section \<open>Walking the pages\<close>

text \<open>The page at a cursor, and the walk along \<open>next_cursor\<close> from it.\<close>

definition page_at :: "Row list \<Rightarrow> params \<Rightarrow> int option \<Rightarrow> nat \<Rightarrow> PaginatedRows" where
  "page_at rows ps defaultLimit c = paginateRows rows (params_set ''cursor'' (string_of_nat c) ps) defaultLimit"

primrec walk_pages :: "nat \<Rightarrow> Row list \<Rightarrow> params \<Rightarrow> int option \<Rightarrow> nat \<Rightarrow> Row list list option" where
  "walk_pages 0 rows ps defaultLimit c = None"
| "walk_pages (Suc fuel) rows ps defaultLimit c =
     (let page = page_at rows ps defaultLimit c
      in case pr_next page of
           None \<Rightarrow> Some [pr_rows page]
         | Some n \<Rightarrow> map_option (\<lambda>pages. pr_rows page # pages) (walk_pages fuel rows ps defaultLimit (nat n)))"

lemma page_at_window:
  assumes "int (length rows) \<le> MAX_SAFE" and "c \<le> length rows"
  obtains l where "1 \<le> l" "l \<le> 1000" "pr_rows (page_at rows ps dl c) = take l (drop c rows)"
    "pr_next (page_at rows ps dl c) = (if c + l < length rows then Some (int (c + l)) else None)"
    "pr_cursor (page_at rows ps dl c) = int c" "pr_limit (page_at rows ps dl c) = int l"
proof -
  define wanted where "wanted = (case integerParam (params_get ps ''limit'') of Some l \<Rightarrow> l
      | None \<Rightarrow> (case dl of Some l \<Rightarrow> l | None \<Rightarrow> DEFAULT_LIMIT))"
  define l where "l = nat (min (max wanted MIN_LIMIT) MAX_LIMIT)"
  have l: "int l = min (max wanted MIN_LIMIT) MAX_LIMIT" unfolding l_def MIN_LIMIT_def MAX_LIMIT_def by linarith
  have c: "int c \<le> MAX_SAFE" using assms by linarith
  have page: "page_at rows ps dl c =
      \<lparr>pr_cursor = int c, pr_limit = int l,
       pr_next = (if int c + int l < int (length rows) then Some (int c + int l) else None),
       pr_desc = ((case params_get ps ''sort'' of Some s \<Rightarrow> s \<noteq> [] | None \<Rightarrow> False) \<and>
                  params_get ps ''order'' = Some ''desc''),
       pr_rows = take l (drop c rows),
       pr_sort = (case params_get ps ''sort'' of Some s \<Rightarrow> if s = [] then None else Some s | None \<Rightarrow> None)\<rparr>"
    using c assms(2)
    by (simp add: page_at_def paginateRows_def Let_def wanted_def [symmetric] l [symmetric] min_absorb1 del: of_nat_add)
  show ?thesis
    by (rule that [of l]) (use l in \<open>auto simp: page MIN_LIMIT_def MAX_LIMIT_def\<close>)
qed

text \<open>
  C39. Following \<open>next_cursor\<close> from the start reads the whole collection exactly once: the walk ends
  within one page per row, and its pages, none longer than the maximum, concatenate to all the rows
  in order, whatever the limit parameter, the caller's default or the other parameters say.
\<close>

theorem pages_partition:
  assumes "int (length rows) \<le> MAX_SAFE"
  shows "\<exists>pages. walk_pages (length rows + 1) rows ps defaultLimit 0 = Some pages \<and> concat pages = rows \<and>
           list_all (\<lambda>page. length page \<le> 1000) pages"
proof -
  have "\<exists>pages. walk_pages fuel rows ps defaultLimit c = Some pages \<and> concat pages = drop c rows \<and>
      list_all (\<lambda>page. length page \<le> 1000) pages"
    if "c \<le> length rows" "length rows - c < fuel" for fuel c
    using that
  proof (induction fuel arbitrary: c)
    case (Suc fuel)
    obtain l where l: "1 \<le> l" "l \<le> 1000" "pr_rows (page_at rows ps defaultLimit c) = take l (drop c rows)"
      "pr_next (page_at rows ps defaultLimit c) = (if c + l < length rows then Some (int (c + l)) else None)"
      using page_at_window [OF assms Suc.prems(1)] by metis
    show ?case
    proof (cases "c + l < length rows")
      case True
      then obtain pages where "walk_pages fuel rows ps defaultLimit (c + l) = Some pages"
        "concat pages = drop (c + l) rows" "list_all (\<lambda>page. length page \<le> 1000) pages"
        using Suc.IH [of "c + l"] Suc.prems l(1) by fastforce
      moreover have "nat (int (c + l)) = c + l" by simp
      moreover have "take l (drop c rows) @ drop (c + l) rows = drop c rows"
        by (metis add.commute append_take_drop_id drop_drop)
      ultimately show ?thesis
        using True l by (simp add: Let_def del: of_nat_add)
    next
      case False
      then show ?thesis using l by (simp add: Let_def)
    qed
  qed simp
  from this [of 0 "length rows + 1"] show ?thesis by simp
qed

lemma pages_partition_witness:
  "\<exists>pages. walk_pages 4 [[(''a'', JInt 1)], [], [(''b'', JNull)]] [(''limit'', ''2'')] None 0 = Some pages \<and>
     concat pages = [[(''a'', JInt 1)], [], [(''b'', JNull)]]"
  using pages_partition [of "[[(''a'', JInt 1)], [], [(''b'', JNull)]]" "[(''limit'', ''2'')]" None]
  by (auto simp: MAX_SAFE_def eval_nat_numeral simp del: walk_pages.simps)

section \<open>Sorted rows\<close>

definition numeric_at :: "string \<Rightarrow> Row \<Rightarrow> bool" where
  "numeric_at k row \<longleftrightarrow> (case row_get row k of JVal (VNum (Fin _)) \<Rightarrow> True | _ \<Rightarrow> False)"

definition number_at :: "string \<Rightarrow> Row \<Rightarrow> rat" where
  "number_at k row = (case row_get row k of JVal (VNum (Fin q)) \<Rightarrow> q | _ \<Rightarrow> 0)"

definition number_cmp :: "string \<Rightarrow> bool \<Rightarrow> Row \<Rightarrow> Row \<Rightarrow> int" where
  "number_cmp key descending a b =
     cmp_or (if descending then cmp_str (number_at key b) (number_at key a) else cmp_str (number_at key a) (number_at key b))
            (cmp_str (number_at ''netuid'' a) (number_at ''netuid'' b))"

interpretation number_order_asc: key_comparator "number_cmp key False"
  unfolding number_cmp_def if_False by (intro key_comparators)

interpretation number_order_desc: key_comparator "number_cmp key True"
  unfolding number_cmp_def if_True by (intro key_comparators)

lemma num_cmp_Fin: "num_cmp (Fin a) (Fin b) = cmp_str a b"
  by (auto simp: num_cmp_def cmp_str_def)

lemma numeric_atE:
  assumes "numeric_at k row"
  obtains q where "row_get row k = JNum (Fin q)"
  using assms by (auto simp: numeric_at_def split: json.splits jsval.splits jsnum.splits)

lemma row_cmp_number:
  assumes "numeric_at key a" "numeric_at key b" "numeric_at ''netuid'' a" "numeric_at ''netuid'' b"
  shows "row_cmp lc key (if descending then -1 else 1) a b = number_cmp key descending a b"
  using assms
  by (elim numeric_atE)
    (auto simp: row_cmp_def compareValues_def number_cmp_def number_at_def nullish_def num_cmp_Fin cmp_or_def cmp_str_def Let_def)

text \<open>
  Sorting by a numeric field orders the rows that have it by that field in the requested
  direction, equal ones by netuid, keeps every row exactly once, and leaves the rows without the
  field at the end in their original order whatever the direction.
\<close>

theorem sort_sinks_missing:
  assumes "params_get ps ''sort'' = Some key" "key \<noteq> []"
    and "list_all (\<lambda>row. numeric_at ''netuid'' row \<and> (nullish (row_get row key) \<or> numeric_at key row)) rows"
  defines "missing \<equiv> filter (\<lambda>row. nullish (row_get row key)) rows"
    and "descending \<equiv> params_get ps ''order'' = Some ''desc''"
  shows "\<exists>present. sortRows lc rows ps = present @ missing \<and>
           mset present = mset (filter (\<lambda>row. \<not> nullish (row_get row key)) rows) \<and>
           sorted_wrt (\<lambda>a b. if number_at key a = number_at key b then number_at ''netuid'' a \<le> number_at ''netuid'' b
                            else if descending then number_at key b \<le> number_at key a
                            else number_at key a \<le> number_at key b) present"
proof -
  let ?present = "filter (\<lambda>row. \<not> nullish (row_get row key)) rows"
  let ?out = "js_sort (row_cmp lc key (if descending then -1 else 1)) ?present"
  have out: "?out = js_sort (number_cmp key descending) ?present"
    using assms(3) by (intro js_sort_cong row_cmp_number) (auto simp: list_all_iff)
  have "sorted_wrt (\<lambda>a b. number_cmp key descending a b \<le> 0) ?out"
    unfolding out using number_order_asc.sorted_js_sort number_order_desc.sorted_js_sort by (cases descending) simp_all
  then have "sorted_wrt (\<lambda>a b. if number_at key a = number_at key b then number_at ''netuid'' a \<le> number_at ''netuid'' b
                            else if descending then number_at key b \<le> number_at key a
                            else number_at key a \<le> number_at key b) ?out"
    by (rule sorted_wrt_mono_rel [rotated]) (auto simp: number_cmp_def cmp_or_def cmp_str_def split: if_splits)
  then show ?thesis
    using assms(1,2) by (intro exI [of _ ?out]) (simp add: sortRows_def missing_def descending_def Let_def)
qed

lemma sort_sinks_missing_witness:
  "\<exists>present. sortRows cmp_str [[(''netuid'', JInt 1)], [(''netuid'', JInt 2), (''s'', JInt 5)]] [(''sort'', ''s'')] =
     present @ [[(''netuid'', JInt 1)]]"
  using sort_sinks_missing [of "[(''sort'', ''s'')]" "''s''" "[[(''netuid'', JInt 1)], [(''netuid'', JInt 2), (''s'', JInt 5)]]" cmp_str]
  by (auto simp: params_get_def numeric_at_def row_get_def nullish_def js_int_def)

text \<open>
  A field that holds numbers on some rows and text on others has no consistent order: two numbers
  compare as numbers and every other pair as text, and the two disagree.
\<close>

lemma mixed_values_cycle:
  "compareValues cmp_str (JInt 2) (JInt 10) < 0 \<and> compareValues cmp_str (JInt 10) (JStr ''1a'') < 0 \<and>
   compareValues cmp_str (JStr ''1a'') (JInt 2) < 0"
proof -
  have "number_to_string (js_int 10) = ''10''" "number_to_string (js_int 2) = ''2''"
    by (simp_all add: number_to_string_def js_int_def string_of_int_def string_of_nat.simps MAX_SAFE_def)
  moreover have "''10'' < ''1a''" "''1a'' < ''2''" by code_simp+
  ultimately show ?thesis
    by (simp add: compareValues_def nullish_def js_int_def num_cmp_def) (simp add: cmp_str_def js_int_def)
qed

section \<open>The window of the transform\<close>

text \<open>What a query asks of a row: every search term, every filter, every bound.\<close>

definition row_matches :: "QueryCollectionConfig \<Rightarrow> params \<Rightarrow> Row \<Rightarrow> bool" where
  "row_matches config ps row \<longleftrightarrow>
     (case params_get ps ''q'' of
        None \<Rightarrow> True
      | Some q \<Rightarrow> q = [] \<or> search_keys config = [] \<or>
                  list_all (includes_text (search_haystack (search_keys config) row)) (search_terms q)) \<and>
     list_all (\<lambda>key. params_has ps key \<longrightarrow> filter_matches config ps row key) (map fst (config_filters config)) \<and>
     list_all (bound_matches row) (range_bounds ps (range_filters config))"

lemma matched_rows_filter:
  "matched_rows data ps config = filter (row_matches config ps) (as_rows (get_prop (JObj data) (data_key config)))"
proof -
  let ?rows = "as_rows (get_prop (JObj data) (data_key config))"
  let ?f = "\<lambda>row. list_all (\<lambda>key. params_has ps key \<longrightarrow> filter_matches config ps row key) (map fst (config_filters config))"
  let ?s = "\<lambda>row. case params_get ps ''q'' of None \<Rightarrow> True
      | Some q \<Rightarrow> q = [] \<or> search_keys config = [] \<or>
                  list_all (includes_text (search_haystack (search_keys config) row)) (search_terms q)"
  have s: "searchRows rows ps (search_keys config) = filter ?s rows" for rows
    by (auto simp: searchRows_def searchMatchingRows_def Let_def split: option.split)
  have f: "filterRows rows ps (map fst (config_filters config)) config = filter ?f rows" for rows
    unfolding filterRows_def by (intro filter_cong refl arg_cong [of _ _ "\<lambda>P. list_all P _"]) (auto simp: list_all_iff)
  have r: "rangeFilterRows rows ps (range_filters config) =
      filter (\<lambda>row. list_all (bound_matches row) (range_bounds ps (range_filters config))) rows" for rows
    by (auto simp: rangeFilterRows_def Let_def)
  show ?thesis
    unfolding matched_rows_def s f r by (auto simp: row_matches_def intro!: filter_cong)
qed

lemma mset_sortRows [simp]: "mset (sortRows lc rows ps) = mset rows"
  by (auto simp: sortRows_def Let_def split: option.split)

lemma paginateRows_window:
  "pr_rows (paginateRows rows ps dl) =
     take (nat (pr_limit (paginateRows rows ps dl))) (drop (nat (pr_cursor (paginateRows rows ps dl))) rows)"
  "0 \<le> pr_cursor (paginateRows rows ps dl)" "pr_cursor (paginateRows rows ps dl) \<le> int (length rows)"
  "pr_next (paginateRows rows ps dl) =
     (let next = pr_cursor (paginateRows rows ps dl) + pr_limit (paginateRows rows ps dl)
      in if next < int (length rows) then Some next else None)"
  by (auto simp: paginateRows_def Let_def)

lemma page_guard_token:
  assumes "page_guard lc hash ps filtered scope sps s = Inr token" and "s \<noteq> ''start''"
  shows "s = token \<and> Some s = map_option (\<lambda>d. ''v1.'' @ d) (boundedHistoryJsonSha256 hash
           (snapshot_values lc scope sps (sortRows lc filtered ps)) CATALOG_HASH_BYTES_MAX CATALOG_HASH_DEPTH_MAX)"
  using assms by (auto simp: page_guard_def split: option.splits if_splits)

text \<open>
  C2. A list response that is not an error holds exactly a window of the right rows: the rows that
  match every search term, filter and bound, each once, in the requested order; the reported total
  counts all of them, the returned ones are the slice at the reported cursor and limit, narrowed by
  the accepted projection, the next cursor is the end of the slice when rows remain, and nothing else
  of the payload changes.  A guarded continuation is answered only when its token is the digest of
  that whole ordered result.
\<close>

theorem transform_window:
  assumes "applyListTransform lc hash data ps config dl scope sps = Inr (data', meta, proj)"
  defines "sorted_rows \<equiv> sortRows lc (filter (row_matches config ps) (as_rows (get_prop (JObj data) (data_key config)))) ps"
  shows "\<exists>m. meta = Some m \<and>
           mset sorted_rows = mset (filter (row_matches config ps) (as_rows (get_prop (JObj data) (data_key config)))) \<and>
           lm_total m = length sorted_rows \<and> 0 \<le> lm_cursor m \<and> lm_cursor m \<le> int (length sorted_rows) \<and>
           get_prop (JObj data') (data_key config) =
             JArr (projectRows (map JObj (take (nat (lm_limit m)) (drop (nat (lm_cursor m)) sorted_rows))) proj) \<and>
           lm_next_cursor m = (if lm_cursor m + lm_limit m < int (length sorted_rows)
                               then Some (lm_cursor m + lm_limit m) else None) \<and>
           (\<forall>k. k \<noteq> data_key config \<longrightarrow> get_prop (JObj data') k = get_prop (JObj data) k) \<and>
           (\<forall>s. params_get ps ''page_snapshot'' = Some s \<and> s \<noteq> [] \<and> s \<noteq> ''start'' \<longrightarrow>
              Some s = map_option (\<lambda>d. ''v1.'' @ d) (boundedHistoryJsonSha256 hash
                (snapshot_values lc scope sps sorted_rows) CATALOG_HASH_BYTES_MAX CATALOG_HASH_DEPTH_MAX))"
proof -
  let ?page = "paginateRows sorted_rows ps dl"
  obtain snap guard where guard: "guard = (case params_get ps ''page_snapshot'' of
                            None \<Rightarrow> Inr None
                          | Some s \<Rightarrow>
                              if s = [] then Inr None
                              else (case page_guard lc hash ps (matched_rows data ps config) scope sps s of
                                      Inl e \<Rightarrow> Inl e | Inr snapshot \<Rightarrow> Inr (Some snapshot)))" "guard = Inr snap"
    and data': "data' = AList.update (data_key config) (JArr (projectRows (map JObj (pr_rows ?page)) proj)) data"
    and meta: "meta = Some \<lparr>lm_collection = data_key config, lm_total = length sorted_rows,
        lm_returned = length (pr_rows ?page), lm_limit = pr_limit ?page, lm_cursor = pr_cursor ?page,
        lm_next_cursor = pr_next ?page, lm_snapshot = snap, lm_sort = pr_sort ?page, lm_desc = pr_desc ?page\<rparr>"
    using assms(1) unfolding applyListTransform_def Let_def matched_rows_filter sorted_rows_def [symmetric]
    by (auto simp: projectionMeta_def split: sum.splits)
  have snap: "\<forall>s. params_get ps ''page_snapshot'' = Some s \<and> s \<noteq> [] \<and> s \<noteq> ''start'' \<longrightarrow>
              Some s = map_option (\<lambda>d. ''v1.'' @ d) (boundedHistoryJsonSha256 hash
                (snapshot_values lc scope sps sorted_rows) CATALOG_HASH_BYTES_MAX CATALOG_HASH_DEPTH_MAX)"
  proof (intro allI impI)
    fix s assume s: "params_get ps ''page_snapshot'' = Some s \<and> s \<noteq> [] \<and> s \<noteq> ''start''"
    then obtain token where "page_guard lc hash ps (matched_rows data ps config) scope sps s = Inr token"
      using guard by (cases "page_guard lc hash ps (matched_rows data ps config) scope sps s") simp_all
    from page_guard_token [OF this] s
    show "Some s = map_option (\<lambda>d. ''v1.'' @ d) (boundedHistoryJsonSha256 hash
        (snapshot_values lc scope sps sorted_rows) CATALOG_HASH_BYTES_MAX CATALOG_HASH_DEPTH_MAX)"
      unfolding matched_rows_filter sorted_rows_def by blast
  qed
  have others: "get_prop (JObj (AList.update k v data)) k' = (if k' = k then v else get_prop (JObj data) k')" for k v k'
    by (simp add: update_conv)
  show ?thesis
    unfolding data' meta others
    using paginateRows_window [of sorted_rows ps dl] snap
    by (simp add: sorted_rows_def Let_def)
qed

lemma transform_window_witness:
  "\<exists>data' m. applyListTransform cmp_str id [(''rows'', JArr [JObj [(''a'', JInt 1)], JObj []])] [(''limit'', ''1'')]
       \<lparr>data_key = ''rows'', config_filters = [], csv_filters = [], array_filters = [], range_filters = [],
        presence_filters = [], value_set_filters = [], search_keys = [], sort_fields = []\<rparr>
       None ([], []) [] = Inr (data', Some m, None) \<and> lm_total m = 2 \<and> lm_next_cursor m = Some 1"
proof -
  let ?c = "\<lparr>data_key = ''rows'', config_filters = [], csv_filters = [], array_filters = [], range_filters = [],
        presence_filters = [], value_set_filters = [], search_keys = [], sort_fields = []\<rparr> :: QueryCollectionConfig"
  let ?d = "[(''rows'', JArr [JObj [(''a'', JInt 1)], JObj []])]"
  have "''1'' = string_of_nat 1" by (simp add: string_of_nat.simps)
  then have one: "integerParam (Some ''1'') = Some 1" using integerParam_nat [of 1] by (simp add: MAX_SAFE_def)
  obtain data' m where r: "applyListTransform cmp_str id ?d [(''limit'', ''1'')] ?c None ([], []) [] = Inr (data', Some m, None)"
    and m: "lm_limit m = 1" "lm_cursor m = 0"
    by (auto simp: applyListTransform_def parseFieldsParam_def params_get_def Let_def projectionMeta_def paginateRows_def
        one integerParam_def [of None] MIN_LIMIT_def MAX_LIMIT_def)
  from transform_window [OF r] obtain m' where "m = m'" "lm_total m' = 2"
    "lm_next_cursor m' = (if lm_cursor m' + lm_limit m' < 2 then Some (lm_cursor m' + lm_limit m') else None)"
    by (auto simp: sortRows_def params_get_def as_rows_def row_matches_def range_bounds_def)
  with r m show ?thesis by auto
qed

end
