(* ===== verification/Graphql_Limits.thy ===== *)
theory Graphql_Limits
  imports Js_Prelude
begin

text \<open>
  The request-shape limits of the GraphQL surface (\<open>src/graphql-limits.ts\<close>): the per-field weights,
  the depth and complexity walkers with their memo, cycle guard and early return, the two validation
  rules, and the netuid argument checks.  A selection is the part of the AST the walkers read.  A
  field's name is taken not to be that of an inherited property of plain objects.
\<close>

section \<open>Weights\<close>

definition GRAPHQL_MAX_DEPTH :: nat where "GRAPHQL_MAX_DEPTH = 7"
definition GRAPHQL_MAX_COMPLEXITY :: nat where "GRAPHQL_MAX_COMPLEXITY = 50"
definition DEFAULT_FIELD_COMPLEXITY :: nat where "DEFAULT_FIELD_COMPLEXITY = 1"
definition RELATIONSHIP_FIELD_COMPLEXITY :: nat where "RELATIONSHIP_FIELD_COMPLEXITY = 5"
definition LIVE_RPC_FIELD_COMPLEXITY :: nat where "LIVE_RPC_FIELD_COMPLEXITY = 10"

definition FIELD_COMPLEXITY_1 :: "(string \<times> nat) list" where
  "FIELD_COMPLEXITY_1 = [
    (''subnets'', RELATIONSHIP_FIELD_COMPLEXITY), (''subnet'', RELATIONSHIP_FIELD_COMPLEXITY),
    (''providers'', RELATIONSHIP_FIELD_COMPLEXITY), (''provider'', RELATIONSHIP_FIELD_COMPLEXITY),
    (''adapter'', RELATIONSHIP_FIELD_COMPLEXITY), (''economics'', RELATIONSHIP_FIELD_COMPLEXITY),
    (''surfaces'', RELATIONSHIP_FIELD_COMPLEXITY), (''endpoints'', RELATIONSHIP_FIELD_COMPLEXITY),
    (''provider_endpoints'', RELATIONSHIP_FIELD_COMPLEXITY),
    (''endpoint_pools'', RELATIONSHIP_FIELD_COMPLEXITY), (''rpc_pools'', RELATIONSHIP_FIELD_COMPLEXITY),
    (''endpoint_incidents'', RELATIONSHIP_FIELD_COMPLEXITY),
    (''source_snapshots'', RELATIONSHIP_FIELD_COMPLEXITY), (''gaps'', RELATIONSHIP_FIELD_COMPLEXITY),
    (''evidence'', RELATIONSHIP_FIELD_COMPLEXITY), (''block_extrinsics'', RELATIONSHIP_FIELD_COMPLEXITY),
    (''block_events'', RELATIONSHIP_FIELD_COMPLEXITY),
    (''block_chain_events'', RELATIONSHIP_FIELD_COMPLEXITY), (''profiles'', RELATIONSHIP_FIELD_COMPLEXITY),
    (''review_adapter_candidates'', RELATIONSHIP_FIELD_COMPLEXITY),
    (''review_enrichment_evidence'', RELATIONSHIP_FIELD_COMPLEXITY),
    (''review_enrichment_queue'', RELATIONSHIP_FIELD_COMPLEXITY),
    (''review_enrichment_targets'', RELATIONSHIP_FIELD_COMPLEXITY),
    (''review_gaps'', RELATIONSHIP_FIELD_COMPLEXITY),
    (''review_profile_completeness'', RELATIONSHIP_FIELD_COMPLEXITY),
    (''registry_summary'', RELATIONSHIP_FIELD_COMPLEXITY),
    (''source_health'', RELATIONSHIP_FIELD_COMPLEXITY), (''lineage'', RELATIONSHIP_FIELD_COMPLEXITY),
    (''rpc_endpoints'', RELATIONSHIP_FIELD_COMPLEXITY), (''changelog'', RELATIONSHIP_FIELD_COMPLEXITY),
    (''contracts'', RELATIONSHIP_FIELD_COMPLEXITY), (''build'', RELATIONSHIP_FIELD_COMPLEXITY),
    (''self_health'', RELATIONSHIP_FIELD_COMPLEXITY), (''health_history'', RELATIONSHIP_FIELD_COMPLEXITY),
    (''health'', RELATIONSHIP_FIELD_COMPLEXITY), (''opportunity_boards'', RELATIONSHIP_FIELD_COMPLEXITY),
    (''compare'', RELATIONSHIP_FIELD_COMPLEXITY), (''extrinsics'', RELATIONSHIP_FIELD_COMPLEXITY),
    (''chain_events'', RELATIONSHIP_FIELD_COMPLEXITY),
    (''chain_events_stats'', RELATIONSHIP_FIELD_COMPLEXITY), (''sudo'', RELATIONSHIP_FIELD_COMPLEXITY),
    (''extrinsic'', RELATIONSHIP_FIELD_COMPLEXITY),
    (''governance_config_changes'', RELATIONSHIP_FIELD_COMPLEXITY),
    (''validators'', RELATIONSHIP_FIELD_COMPLEXITY), (''validator'', RELATIONSHIP_FIELD_COMPLEXITY),
    (''validator_history'', RELATIONSHIP_FIELD_COMPLEXITY), (''accounts'', RELATIONSHIP_FIELD_COMPLEXITY),
    (''account'', RELATIONSHIP_FIELD_COMPLEXITY),
    (''account_registrations'', RELATIONSHIP_FIELD_COMPLEXITY),
    (''account_deregistrations'', RELATIONSHIP_FIELD_COMPLEXITY),
    (''account_serving'', RELATIONSHIP_FIELD_COMPLEXITY),
    (''account_axon_removals'', RELATIONSHIP_FIELD_COMPLEXITY),
    (''account_stake_moves'', RELATIONSHIP_FIELD_COMPLEXITY),
    (''account_identity'', RELATIONSHIP_FIELD_COMPLEXITY),
    (''account_identity_history'', RELATIONSHIP_FIELD_COMPLEXITY),
    (''account_counterparties'', RELATIONSHIP_FIELD_COMPLEXITY),
    (''account_transfers'', RELATIONSHIP_FIELD_COMPLEXITY),
    (''account_extrinsics'', RELATIONSHIP_FIELD_COMPLEXITY),
    (''account_events'', RELATIONSHIP_FIELD_COMPLEXITY),
    (''account_history'', RELATIONSHIP_FIELD_COMPLEXITY), (''blocks'', RELATIONSHIP_FIELD_COMPLEXITY),
    (''subnet_hyperparameters'', RELATIONSHIP_FIELD_COMPLEXITY),
    (''subnet_hyperparameters_history'', RELATIONSHIP_FIELD_COMPLEXITY),
    (''subnet_registrations'', RELATIONSHIP_FIELD_COMPLEXITY),
    (''subnet_deregistrations'', RELATIONSHIP_FIELD_COMPLEXITY),
    (''subnet_serving'', RELATIONSHIP_FIELD_COMPLEXITY),
    (''subnet_health_trends'', RELATIONSHIP_FIELD_COMPLEXITY),
    (''subnet_uptime'', RELATIONSHIP_FIELD_COMPLEXITY),
    (''subnet_health_incidents'', RELATIONSHIP_FIELD_COMPLEXITY),
    (''subnet_health_percentiles'', RELATIONSHIP_FIELD_COMPLEXITY),
    (''subnet_health'', RELATIONSHIP_FIELD_COMPLEXITY),
    (''agent_resources'', RELATIONSHIP_FIELD_COMPLEXITY), (''curation'', RELATIONSHIP_FIELD_COMPLEXITY),
    (''candidates'', RELATIONSHIP_FIELD_COMPLEXITY), (''saved_query'', RELATIONSHIP_FIELD_COMPLEXITY),
    (''fixtures'', RELATIONSHIP_FIELD_COMPLEXITY), (''fixture'', RELATIONSHIP_FIELD_COMPLEXITY),
    (''agent_catalog'', RELATIONSHIP_FIELD_COMPLEXITY), (''freshness'', RELATIONSHIP_FIELD_COMPLEXITY),
    (''top_holders'', RELATIONSHIP_FIELD_COMPLEXITY), (''search'', RELATIONSHIP_FIELD_COMPLEXITY),
    (''search_index'', RELATIONSHIP_FIELD_COMPLEXITY), (''domains'', RELATIONSHIP_FIELD_COMPLEXITY),
    (''domain_summary'', RELATIONSHIP_FIELD_COMPLEXITY),
    (''compare_validators'', RELATIONSHIP_FIELD_COMPLEXITY), (''coverage'', RELATIONSHIP_FIELD_COMPLEXITY),
    (''schemas'', RELATIONSHIP_FIELD_COMPLEXITY), (''coverage_depth'', RELATIONSHIP_FIELD_COMPLEXITY),
    (''subnet_volume'', RELATIONSHIP_FIELD_COMPLEXITY), (''subnet_ohlc'', RELATIONSHIP_FIELD_COMPLEXITY),
    (''subnet_stake_quote'', RELATIONSHIP_FIELD_COMPLEXITY),
    (''subnet_validator_economics'', RELATIONSHIP_FIELD_COMPLEXITY),
    (''validator_economics'', LIVE_RPC_FIELD_COMPLEXITY)]"

definition FIELD_COMPLEXITY_2 :: "(string \<times> nat) list" where
  "FIELD_COMPLEXITY_2 = [
    (''subnet_validator_economics_history'', RELATIONSHIP_FIELD_COMPLEXITY),
    (''subnet_validators'', RELATIONSHIP_FIELD_COMPLEXITY),
    (''subnet_event_summary'', RELATIONSHIP_FIELD_COMPLEXITY),
    (''subnet_gaps'', RELATIONSHIP_FIELD_COMPLEXITY), (''subnet_evidence'', RELATIONSHIP_FIELD_COMPLEXITY),
    (''subnet_candidates'', RELATIONSHIP_FIELD_COMPLEXITY),
    (''subnet_endpoints'', RELATIONSHIP_FIELD_COMPLEXITY),
    (''subnet_axon_removals'', RELATIONSHIP_FIELD_COMPLEXITY),
    (''subnet_weights'', RELATIONSHIP_FIELD_COMPLEXITY),
    (''subnet_stake_moves'', RELATIONSHIP_FIELD_COMPLEXITY),
    (''subnet_stake_transfers'', RELATIONSHIP_FIELD_COMPLEXITY),
    (''subnet_idle_stake'', RELATIONSHIP_FIELD_COMPLEXITY),
    (''subnet_stake_flow'', RELATIONSHIP_FIELD_COMPLEXITY),
    (''subnet_events'', RELATIONSHIP_FIELD_COMPLEXITY),
    (''subnet_history'', RELATIONSHIP_FIELD_COMPLEXITY),
    (''subnet_prometheus'', RELATIONSHIP_FIELD_COMPLEXITY),
    (''subnet_weight_setters'', RELATIONSHIP_FIELD_COMPLEXITY),
    (''subnet_yield'', RELATIONSHIP_FIELD_COMPLEXITY),
    (''subnet_yield_history'', RELATIONSHIP_FIELD_COMPLEXITY),
    (''subnet_performance'', RELATIONSHIP_FIELD_COMPLEXITY),
    (''subnet_performance_history'', RELATIONSHIP_FIELD_COMPLEXITY),
    (''subnet_concentration'', RELATIONSHIP_FIELD_COMPLEXITY),
    (''subnet_concentration_history'', RELATIONSHIP_FIELD_COMPLEXITY),
    (''subnet_holders'', RELATIONSHIP_FIELD_COMPLEXITY),
    (''chain_holders'', RELATIONSHIP_FIELD_COMPLEXITY),
    (''chain_concentration_history'', RELATIONSHIP_FIELD_COMPLEXITY),
    (''subnet_price_share_composition'', RELATIONSHIP_FIELD_COMPLEXITY),
    (''subnet_emission_pipeline_history'', RELATIONSHIP_FIELD_COMPLEXITY),
    (''emission_changes'', RELATIONSHIP_FIELD_COMPLEXITY),
    (''failure_reasons'', RELATIONSHIP_FIELD_COMPLEXITY), (''indexer_lag'', RELATIONSHIP_FIELD_COMPLEXITY),
    (''tao_usd'', RELATIONSHIP_FIELD_COMPLEXITY),
    (''subnet_surface_history'', RELATIONSHIP_FIELD_COMPLEXITY),
    (''neuron'', RELATIONSHIP_FIELD_COMPLEXITY), (''neuron_history'', RELATIONSHIP_FIELD_COMPLEXITY),
    (''subnet_identity_history'', RELATIONSHIP_FIELD_COMPLEXITY),
    (''subnet_trajectory'', RELATIONSHIP_FIELD_COMPLEXITY),
    (''subnet_metagraph'', RELATIONSHIP_FIELD_COMPLEXITY),
    (''subnet_overview'', RELATIONSHIP_FIELD_COMPLEXITY),
    (''subnet_profile'', RELATIONSHIP_FIELD_COMPLEXITY),
    (''chain_identity_history'', RELATIONSHIP_FIELD_COMPLEXITY),
    (''incidents'', RELATIONSHIP_FIELD_COMPLEXITY), (''global_incidents'', RELATIONSHIP_FIELD_COMPLEXITY),
    (''blocks_summary'', RELATIONSHIP_FIELD_COMPLEXITY), (''runtime'', RELATIONSHIP_FIELD_COMPLEXITY),
    (''block'', RELATIONSHIP_FIELD_COMPLEXITY), (''economics_trends'', RELATIONSHIP_FIELD_COMPLEXITY),
    (''emission_pipeline'', RELATIONSHIP_FIELD_COMPLEXITY),
    (''subnet_revenue'', RELATIONSHIP_FIELD_COMPLEXITY),
    (''chain_revenue_coverage'', RELATIONSHIP_FIELD_COMPLEXITY),
    (''subnet_movers'', RELATIONSHIP_FIELD_COMPLEXITY),
    (''chain_turnover'', RELATIONSHIP_FIELD_COMPLEXITY),
    (''subnet_turnover'', RELATIONSHIP_FIELD_COMPLEXITY),
    (''subnet_ownership_history'', RELATIONSHIP_FIELD_COMPLEXITY),
    (''subnet_conviction'', RELATIONSHIP_FIELD_COMPLEXITY),
    (''subnet_lease_history'', RELATIONSHIP_FIELD_COMPLEXITY),
    (''chain_calls'', RELATIONSHIP_FIELD_COMPLEXITY), (''chain_fees'', RELATIONSHIP_FIELD_COMPLEXITY),
    (''chain_activity'', RELATIONSHIP_FIELD_COMPLEXITY),
    (''chain_weights'', RELATIONSHIP_FIELD_COMPLEXITY), (''chain_serving'', RELATIONSHIP_FIELD_COMPLEXITY),
    (''chain_prometheus'', RELATIONSHIP_FIELD_COMPLEXITY),
    (''chain_deregistrations'', RELATIONSHIP_FIELD_COMPLEXITY),
    (''chain_registrations'', RELATIONSHIP_FIELD_COMPLEXITY),
    (''chain_axon_removals'', RELATIONSHIP_FIELD_COMPLEXITY),
    (''chain_weight_setters'', RELATIONSHIP_FIELD_COMPLEXITY),
    (''chain_signers'', RELATIONSHIP_FIELD_COMPLEXITY), (''health_trends'', RELATIONSHIP_FIELD_COMPLEXITY),
    (''rpc_usage'', RELATIONSHIP_FIELD_COMPLEXITY),
    (''validator_nominators'', RELATIONSHIP_FIELD_COMPLEXITY),
    (''chain_performance'', RELATIONSHIP_FIELD_COMPLEXITY),
    (''chain_yield'', RELATIONSHIP_FIELD_COMPLEXITY),
    (''chain_concentration'', RELATIONSHIP_FIELD_COMPLEXITY),
    (''chain_alpha_volume'', RELATIONSHIP_FIELD_COMPLEXITY),
    (''chain_idle_stake'', RELATIONSHIP_FIELD_COMPLEXITY),
    (''chain_stake_flow'', RELATIONSHIP_FIELD_COMPLEXITY),
    (''chain_stake_moves'', RELATIONSHIP_FIELD_COMPLEXITY),
    (''chain_stake_transfers'', RELATIONSHIP_FIELD_COMPLEXITY),
    (''chain_transfer_pairs'', RELATIONSHIP_FIELD_COMPLEXITY),
    (''chain_transfers'', RELATIONSHIP_FIELD_COMPLEXITY),
    (''account_prometheus'', RELATIONSHIP_FIELD_COMPLEXITY),
    (''account_stake_flow'', RELATIONSHIP_FIELD_COMPLEXITY),
    (''account_position_history'', RELATIONSHIP_FIELD_COMPLEXITY),
    (''account_portfolio'', RELATIONSHIP_FIELD_COMPLEXITY),
    (''account_positions'', RELATIONSHIP_FIELD_COMPLEXITY),
    (''account_subnets'', RELATIONSHIP_FIELD_COMPLEXITY),
    (''account_weight_setters'', RELATIONSHIP_FIELD_COMPLEXITY),
    (''account_entities'', RELATIONSHIP_FIELD_COMPLEXITY),
    (''registry_leaderboards'', RELATIONSHIP_FIELD_COMPLEXITY),
    (''subnet_recycled'', LIVE_RPC_FIELD_COMPLEXITY), (''subnet_burn'', LIVE_RPC_FIELD_COMPLEXITY),
    (''subnet_lease'', LIVE_RPC_FIELD_COMPLEXITY), (''account_balance'', LIVE_RPC_FIELD_COMPLEXITY),
    (''account_root_claim'', LIVE_RPC_FIELD_COMPLEXITY), (''account_children'', LIVE_RPC_FIELD_COMPLEXITY),
    (''account_parents'', LIVE_RPC_FIELD_COMPLEXITY), (''sudo_key'', LIVE_RPC_FIELD_COMPLEXITY),
    (''network_parameters'', LIVE_RPC_FIELD_COMPLEXITY),
    (''network_randomness'', LIVE_RPC_FIELD_COMPLEXITY),
    (''randomness_status'', LIVE_RPC_FIELD_COMPLEXITY), (''evm_address'', LIVE_RPC_FIELD_COMPLEXITY),
    (''evm_address_mapping'', LIVE_RPC_FIELD_COMPLEXITY)]"

definition FIELD_COMPLEXITY :: "(string \<times> nat) list" where
  "FIELD_COMPLEXITY = FIELD_COMPLEXITY_1 @ FIELD_COMPLEXITY_2"

definition fieldComplexity :: "string \<Rightarrow> nat" where
  "fieldComplexity fieldName =
     (case map_of FIELD_COMPLEXITY fieldName of Some w \<Rightarrow> w | None \<Rightarrow> DEFAULT_FIELD_COMPLEXITY)"

lemma fieldComplexity_bounds: "1 \<le> fieldComplexity n \<and> fieldComplexity n \<le> 10"
proof -
  have "list_all (\<lambda>(_, w). 1 \<le> w \<and> w \<le> 10) FIELD_COMPLEXITY"
    by (simp add: FIELD_COMPLEXITY_def FIELD_COMPLEXITY_1_def FIELD_COMPLEXITY_2_def
        RELATIONSHIP_FIELD_COMPLEXITY_def LIVE_RPC_FIELD_COMPLEXITY_def)
  then show ?thesis
    by (auto simp: fieldComplexity_def DEFAULT_FIELD_COMPLEXITY_def list_all_iff dest: map_of_SomeD split: option.split)
qed

section \<open>Documents\<close>

datatype selection =
    Field string "selection list option"
  | FragmentSpread string
  | InlineFragment "selection list"

datatype definition_node = OperationDefinition "selection list" | FragmentDefinition string "selection list"

type_synonym fragments = "(string \<times> selection list) list"

definition buildFragmentMap :: "definition_node list \<Rightarrow> fragments" where
  "buildFragmentMap defs =
     foldl (\<lambda>fragments def. case def of
              FragmentDefinition name body \<Rightarrow> AList.update name body fragments
            | _ \<Rightarrow> fragments) [] defs"

definition INTROSPECTION_ROOT_FIELDS :: "string list" where
  "INTROSPECTION_ROOT_FIELDS = [''__schema'', ''__type'']"

definition isIntrospectionRootField :: "selection \<Rightarrow> bool" where
  "isIntrospectionRootField sel = (case sel of Field name _ \<Rightarrow> name \<in> set INTROSPECTION_ROOT_FIELDS | _ \<Rightarrow> False)"

section \<open>The walkers\<close>

text \<open>
  One selection, and the loop over a selection set with its running value; each returns the memo,
  which the code mutates.  A fragment is entered only when it is not being visited, so the fragments
  that remain decrease, and else the selection gets smaller.
\<close>

type_synonym memo = "string \<rightharpoonup> nat"

lemma fragment_left:
  "map_of frs name = Some body \<Longrightarrow> name \<notin> visited \<Longrightarrow>
   fst ` set frs - insert name visited \<subset> fst ` set frs - visited"
  by (force dest: map_of_SomeD)

function (sequential) selection_depth :: "fragments \<Rightarrow> string set \<Rightarrow> nat \<Rightarrow> memo \<Rightarrow> selection \<Rightarrow> nat \<times> memo"
  and depth_loop :: "fragments \<Rightarrow> string set \<Rightarrow> nat \<Rightarrow> memo \<Rightarrow> nat \<Rightarrow> selection list \<Rightarrow> nat \<times> memo" where
  "selection_depth frs visited maximum memo (Field name None) = (0, memo)"
| "selection_depth frs visited maximum memo (Field name (Some body)) =
     (case depth_loop frs visited maximum memo 0 body of (d, m) \<Rightarrow> (1 + d, m))"
| "selection_depth frs visited maximum memo (InlineFragment body) = depth_loop frs visited maximum memo 0 body"
| "selection_depth frs visited maximum memo (FragmentSpread name) =
     (case map_of frs name of
        None \<Rightarrow> (0, memo)
      | Some body \<Rightarrow>
          if name \<in> visited then (0, memo)
          else (case memo name of
                  Some d \<Rightarrow> (d, memo)
                | None \<Rightarrow> (case depth_loop frs (insert name visited) maximum memo 0 body of
                             (d, m) \<Rightarrow> (d, m(name \<mapsto> d)))))"
| "depth_loop frs visited maximum memo deepest [] = (deepest, memo)"
| "depth_loop frs visited maximum memo deepest (sel # rest) =
     (if isIntrospectionRootField sel then depth_loop frs visited maximum memo deepest rest
      else case selection_depth frs visited maximum memo sel of
             (d, memo') \<Rightarrow>
               let deepest' = (if deepest < d then d else deepest)
               in if maximum < deepest' then (maximum + 1, memo')
                  else depth_loop frs visited maximum memo' deepest' rest)"
  by pat_completeness auto

termination
  by (relation "inv_image (less_than <*lex*> less_than) (\<lambda>x. case x of
        Inl (frs, visited, _, _, sel) \<Rightarrow> (card (fst ` set frs - visited), 2 * size sel)
      | Inr (frs, visited, _, _, _, sels) \<Rightarrow> (card (fst ` set frs - visited), 2 * size_list size sels + 1))")
    (auto intro!: psubset_card_mono fragment_left)

function (sequential) selection_cost :: "fragments \<Rightarrow> string set \<Rightarrow> nat \<Rightarrow> memo \<Rightarrow> selection \<Rightarrow> nat \<times> memo"
  and cost_loop :: "fragments \<Rightarrow> string set \<Rightarrow> nat \<Rightarrow> memo \<Rightarrow> nat \<Rightarrow> selection list \<Rightarrow> nat \<times> memo" where
  "selection_cost frs visited maximum memo (Field name None) = (fieldComplexity name, memo)"
| "selection_cost frs visited maximum memo (Field name (Some body)) =
     (case cost_loop frs visited maximum memo 0 body of (d, m) \<Rightarrow> (fieldComplexity name + d, m))"
| "selection_cost frs visited maximum memo (InlineFragment body) = cost_loop frs visited maximum memo 0 body"
| "selection_cost frs visited maximum memo (FragmentSpread name) =
     (case map_of frs name of
        None \<Rightarrow> (0, memo)
      | Some body \<Rightarrow>
          if name \<in> visited then (0, memo)
          else (case memo name of
                  Some d \<Rightarrow> (d, memo)
                | None \<Rightarrow> (case cost_loop frs (insert name visited) maximum memo 0 body of
                             (d, m) \<Rightarrow> (d, m(name \<mapsto> d)))))"
| "cost_loop frs visited maximum memo cnt [] = (cnt, memo)"
| "cost_loop frs visited maximum memo cnt (sel # rest) =
     (if isIntrospectionRootField sel then cost_loop frs visited maximum memo cnt rest
      else case selection_cost frs visited maximum memo sel of
             (d, memo') \<Rightarrow>
               let cnt' = cnt + d
               in if maximum < cnt' then (maximum + 1, memo')
                  else cost_loop frs visited maximum memo' cnt' rest)"
  by pat_completeness auto

termination
  by (relation "inv_image (less_than <*lex*> less_than) (\<lambda>x. case x of
        Inl (frs, visited, _, _, sel) \<Rightarrow> (card (fst ` set frs - visited), 2 * size sel)
      | Inr (frs, visited, _, _, _, sels) \<Rightarrow> (card (fst ` set frs - visited), 2 * size_list size sels + 1))")
    (auto intro!: psubset_card_mono fragment_left)

section \<open>The rules\<close>

definition operation_values :: "(selection list \<Rightarrow> nat) \<Rightarrow> definition_node list \<Rightarrow> nat list" where
  "operation_values walk defs =
     List.map_filter (\<lambda>def. case def of OperationDefinition sels \<Rightarrow> Some (walk sels) | _ \<Rightarrow> None) defs"

text \<open>The errors a rule reports for a document: a message and a code each.\<close>

definition maxDepthRule :: "nat \<Rightarrow> definition_node list \<Rightarrow> (string \<times> string) list" where
  "maxDepthRule maximum defs =
     (let fragments = buildFragmentMap defs
      in map (\<lambda>depth. (''Query depth '' @ string_of_nat depth @ '' exceeds the limit of '' @ string_of_nat maximum @ ''.'',
                      ''DEPTH_LIMIT_EXCEEDED''))
           (filter (\<lambda>depth. maximum < depth)
             (operation_values (\<lambda>sels. fst (depth_loop fragments {} maximum Map.empty 0 sels)) defs)))"

definition maxComplexityRule :: "nat \<Rightarrow> definition_node list \<Rightarrow> (string \<times> string) list" where
  "maxComplexityRule maximum defs =
     (let fragments = buildFragmentMap defs
      in map (\<lambda>complexity. (''Query complexity '' @ string_of_nat complexity @ '' exceeds the limit of '' @
                            string_of_nat maximum @ ''.'', ''COMPLEXITY_LIMIT_EXCEEDED''))
           (filter (\<lambda>complexity. maximum < complexity)
             (operation_values (\<lambda>sels. fst (cost_loop fragments {} maximum Map.empty 0 sels)) defs)))"

section \<open>Argument checks\<close>

text \<open>The message of the error thrown, if one is.\<close>

definition assertNetuidArgument :: "jsval \<Rightarrow> string option" where
  "assertNetuidArgument netuid =
     (case netuid of
        VNum n \<Rightarrow> if \<not> is_integer_num n \<or> num_int n < 0 then Some ''netuid must be a non-negative integer.'' else None
      | _ \<Rightarrow> Some ''netuid must be a non-negative integer.'')"

definition assertOptionalNetuidArgument :: "jsval \<Rightarrow> string option" where
  "assertOptionalNetuidArgument netuid = (if is_nullish netuid then None else assertNetuidArgument netuid)"

section \<open>What the walkers measure\<close>

text \<open>
  The value of a selection set with every fragment written out in place: fields add up (or nest), a
  fragment counts for what it contains, an introspection root field for nothing.  \<open>k\<close> bounds the
  nesting of fragments; for fragments that do not refer to themselves, ranks below it suffice.
\<close>

function (sequential) selection_value :: "(nat \<Rightarrow> nat \<Rightarrow> nat) \<Rightarrow> (string \<Rightarrow> nat) \<Rightarrow> (string \<Rightarrow> nat) \<Rightarrow> fragments \<Rightarrow> nat \<Rightarrow>
    selection \<Rightarrow> nat"
  and set_value :: "(nat \<Rightarrow> nat \<Rightarrow> nat) \<Rightarrow> (string \<Rightarrow> nat) \<Rightarrow> (string \<Rightarrow> nat) \<Rightarrow> fragments \<Rightarrow> nat \<Rightarrow>
    selection list \<Rightarrow> nat" where
  "selection_value comb leaf node frs k (Field name None) = leaf name"
| "selection_value comb leaf node frs k (Field name (Some body)) = node name + set_value comb leaf node frs k body"
| "selection_value comb leaf node frs k (InlineFragment body) = set_value comb leaf node frs k body"
| "selection_value comb leaf node frs k (FragmentSpread name) =
     (case map_of frs name of
        None \<Rightarrow> 0
      | Some body \<Rightarrow> (case k of 0 \<Rightarrow> 0 | Suc j \<Rightarrow> set_value comb leaf node frs j body))"
| "set_value comb leaf node frs k [] = 0"
| "set_value comb leaf node frs k (sel # rest) =
     (if isIntrospectionRootField sel then set_value comb leaf node frs k rest
      else comb (selection_value comb leaf node frs k sel) (set_value comb leaf node frs k rest))"
  by pat_completeness auto

termination
  by (relation "inv_image (less_than <*lex*> less_than) (\<lambda>x. case x of
        Inl (_, _, _, _, k, sel) \<Rightarrow> (k, 2 * size sel)
      | Inr (_, _, _, _, k, sels) \<Rightarrow> (k, 2 * size_list size sels + 1))") auto

definition document_depth :: "fragments \<Rightarrow> nat \<Rightarrow> selection list \<Rightarrow> nat" where
  "document_depth = set_value max (\<lambda>_. 0) (\<lambda>_. 1)"

definition document_cost :: "fragments \<Rightarrow> nat \<Rightarrow> selection list \<Rightarrow> nat" where
  "document_cost = set_value (+) fieldComplexity fieldComplexity"

text \<open>The fragments a selection spreads, and a ranking that shows that none contains itself.\<close>

fun spreads :: "selection \<Rightarrow> string set" where
  "spreads (Field _ None) = {}"
| "spreads (Field _ (Some body)) = \<Union> (spreads ` set body)"
| "spreads (InlineFragment body) = \<Union> (spreads ` set body)"
| "spreads (FragmentSpread name) = {name}"

definition set_spreads :: "selection list \<Rightarrow> string set" where
  "set_spreads sels = \<Union> (spreads ` set sels)"

definition ranked :: "(string \<Rightarrow> nat) \<Rightarrow> fragments \<Rightarrow> bool" where
  "ranked r frs \<longleftrightarrow>
     (\<forall>n body. map_of frs n = Some body \<longrightarrow> (\<forall>m \<in> set_spreads body. map_of frs m \<noteq> None \<longrightarrow> r m < r n))"

lemma rankedD: "ranked r frs \<Longrightarrow> map_of frs n = Some body \<Longrightarrow> m \<in> set_spreads body \<Longrightarrow> map_of frs m \<noteq> None \<Longrightarrow> r m < r n"
  by (auto simp: ranked_def)

lemma set_spreads_simps [simp]: "set_spreads [] = {}" "set_spreads (s # ss) = spreads s \<union> set_spreads ss"
  by (simp_all add: set_spreads_def)

lemma spreads_bodies [simp]:
  "spreads (Field n (Some body)) = set_spreads body" "spreads (InlineFragment body) = set_spreads body"
  by (simp_all add: set_spreads_def)

declare spreads.simps(2,3) [simp del]

lemma value_stable:
  assumes "ranked r frs"
  shows "(\<And>k'. (\<And>m. m \<in> spreads sel \<Longrightarrow> map_of frs m \<noteq> None \<Longrightarrow> r m < k \<and> r m < k') \<Longrightarrow>
            selection_value comb leaf node frs k sel = selection_value comb leaf node frs k' sel)"
    and "(\<And>k'. (\<And>m. m \<in> set_spreads sels \<Longrightarrow> map_of frs m \<noteq> None \<Longrightarrow> r m < k \<and> r m < k') \<Longrightarrow>
            set_value comb leaf node frs k sels = set_value comb leaf node frs k' sels)"
  using assms
proof (induction comb leaf node frs k sel and comb leaf node frs k sels
    rule: selection_value_set_value.induct)
  case (4 comb leaf node frs k name)
  show ?case
  proof (cases "map_of frs name")
    case (Some body)
    have "r name < k" "r name < k'" using 4(2) [of name] Some by auto
    then obtain j j' where j: "k = Suc j" "k' = Suc j'" by (cases k; cases k') auto
    have "r m < j \<and> r m < j'" if "m \<in> set_spreads body" "map_of frs m \<noteq> None" for m
      using rankedD [OF 4(3) Some that] \<open>r name < k\<close> \<open>r name < k'\<close> j by auto
    then show ?thesis using 4(1) [OF Some j(1) _ 4(3)] Some j by simp
  qed simp
next
  case (6 comb leaf node frs k sel rest)
  show ?case
  proof (cases "isIntrospectionRootField sel")
    case True
    then show ?thesis using 6 by simp
  next
    case False
    then show ?thesis using 6(2) [OF False, of k'] 6(3) [OF False, of k'] 6(4,5) by simp
  qed
qed simp_all

definition memo_ok :: "(selection list \<Rightarrow> nat) \<Rightarrow> nat \<Rightarrow> fragments \<Rightarrow> memo \<Rightarrow> bool" where
  "memo_ok val maximum frs memo \<longleftrightarrow>
     (\<forall>n d. memo n = Some d \<longrightarrow> (\<exists>body. map_of frs n = Some body \<and> d = min (Suc maximum) (val body)))"

definition vis_ok :: "(string \<Rightarrow> nat) \<Rightarrow> fragments \<Rightarrow> string set \<Rightarrow> string set \<Rightarrow> bool" where
  "vis_ok r frs visited S \<longleftrightarrow> (\<forall>v\<in>visited. \<forall>m\<in>S. map_of frs m \<noteq> None \<longrightarrow> r m < r v)"

lemma cost_loop_value:
  assumes "ranked r frs" and "\<And>n. map_of frs n \<noteq> None \<Longrightarrow> r n < K"
  shows "memo_ok (document_cost frs K) maximum frs memo \<Longrightarrow> vis_ok r frs visited (spreads sel) \<Longrightarrow>
           min (Suc maximum) (fst (selection_cost frs visited maximum memo sel)) =
             min (Suc maximum) (selection_value (+) fieldComplexity fieldComplexity frs K sel) \<and>
           memo_ok (document_cost frs K) maximum frs (snd (selection_cost frs visited maximum memo sel))"
    and "memo_ok (document_cost frs K) maximum frs memo \<Longrightarrow> vis_ok r frs visited (set_spreads sels) \<Longrightarrow> cnt \<le> maximum \<Longrightarrow>
           fst (cost_loop frs visited maximum memo cnt sels) = min (Suc maximum) (cnt + document_cost frs K sels) \<and>
           memo_ok (document_cost frs K) maximum frs (snd (cost_loop frs visited maximum memo cnt sels))"
  using assms
proof (induction frs visited maximum memo sel and frs visited maximum memo cnt sels
    rule: selection_cost_cost_loop.induct)
  case (2 frs visited maximum memo name body)
  show ?case
    using 2(1) [OF 2(2) _ _ 2(4,5)] 2(3)
    by (cases "cost_loop frs visited maximum memo 0 body") (auto simp: document_cost_def min_def split: if_splits)
next
  case (3 frs visited maximum memo body)
  then show ?case by (simp add: document_cost_def)
next
  case (4 frs visited maximum memo name)
  show ?case
  proof (cases "map_of frs name")
    case (Some body)
    have new: "name \<notin> visited" using 4(3) Some by (auto simp: vis_ok_def)
    have K: "r name < K" using 4(5) Some by simp
    then obtain J where J: "K = Suc J" by (cases K) auto
    have val: "selection_value (+) fieldComplexity fieldComplexity frs K (FragmentSpread name) = document_cost frs K body"
      unfolding document_cost_def using Some J K
      by (simp, intro value_stable(2) [OF 4(4)]) (auto dest: rankedD [OF 4(4) Some])
    show ?thesis
    proof (cases "memo name")
      case None
      have "vis_ok r frs (insert name visited) (set_spreads body)"
        using 4(3) Some rankedD [OF 4(4) Some] by (fastforce simp: vis_ok_def)
      from 4(1) [OF Some new None 4(2) this _ 4(4,5)] show ?thesis
        using val Some new None
        by (cases "cost_loop frs (insert name visited) maximum memo 0 body")
          (auto simp: document_cost_def memo_ok_def)
    next
      case (Some d)
      then have "d = min (Suc maximum) (document_cost frs K body)"
        using 4(2) \<open>map_of frs name = Some body\<close> by (fastforce simp: memo_ok_def)
      then show ?thesis using 4(2) val new Some \<open>map_of frs name = Some body\<close> by simp
    qed
  qed (use 4(2) in simp)
next
  case (6 frs visited maximum memo cnt sel rest)
  show ?case
  proof (cases "isIntrospectionRootField sel")
    case True
    then show ?thesis using 6(1) [OF True 6(4) _ 6(6,7,8)] 6(5) by (auto simp: document_cost_def vis_ok_def)
  next
    case False
    obtain d m where s: "selection_cost frs visited maximum memo sel = (d, m)" by (cases "selection_cost frs visited maximum memo sel")
    have d: "min (Suc maximum) d = min (Suc maximum) (selection_value (+) fieldComplexity fieldComplexity frs K sel)"
      and m: "memo_ok (document_cost frs K) maximum frs m"
      using 6(2) [OF False 6(4) _ 6(7,8)] 6(5) s by (auto simp: vis_ok_def)
    have rest: "vis_ok r frs visited (set_spreads rest)" using 6(5) by (auto simp: vis_ok_def)
    show ?thesis
      using 6(3) [OF False s [symmetric] refl _ m rest _ 6(7,8)] False s d m 6(6)
      by (auto simp: document_cost_def Let_def min_def max_def split: if_splits)
  qed
qed (auto simp: document_cost_def min_def)

lemma depth_loop_value:
  assumes "ranked r frs" and "\<And>n. map_of frs n \<noteq> None \<Longrightarrow> r n < K"
  shows "memo_ok (document_depth frs K) maximum frs memo \<Longrightarrow> vis_ok r frs visited (spreads sel) \<Longrightarrow>
           min (Suc maximum) (fst (selection_depth frs visited maximum memo sel)) =
             min (Suc maximum) (selection_value max (\<lambda>_. 0) (\<lambda>_. 1) frs K sel) \<and>
           memo_ok (document_depth frs K) maximum frs (snd (selection_depth frs visited maximum memo sel))"
    and "memo_ok (document_depth frs K) maximum frs memo \<Longrightarrow> vis_ok r frs visited (set_spreads sels) \<Longrightarrow> deepest \<le> maximum \<Longrightarrow>
           fst (depth_loop frs visited maximum memo deepest sels) = min (Suc maximum) (max deepest (document_depth frs K sels)) \<and>
           memo_ok (document_depth frs K) maximum frs (snd (depth_loop frs visited maximum memo deepest sels))"
  using assms
proof (induction frs visited maximum memo sel and frs visited maximum memo deepest sels
    rule: selection_depth_depth_loop.induct)
  case (2 frs visited maximum memo name body)
  show ?case
    using 2(1) [OF 2(2) _ _ 2(4,5)] 2(3)
    by (cases "depth_loop frs visited maximum memo 0 body") (auto simp: document_depth_def min_def split: if_splits)
next
  case (3 frs visited maximum memo body)
  then show ?case by (simp add: document_depth_def)
next
  case (4 frs visited maximum memo name)
  show ?case
  proof (cases "map_of frs name")
    case (Some body)
    have new: "name \<notin> visited" using 4(3) Some by (auto simp: vis_ok_def)
    have K: "r name < K" using 4(5) Some by simp
    then obtain J where J: "K = Suc J" by (cases K) auto
    have val: "selection_value max (\<lambda>_. 0) (\<lambda>_. 1) frs K (FragmentSpread name) = document_depth frs K body"
      unfolding document_depth_def using Some J K
      by (simp, intro value_stable(2) [OF 4(4)]) (auto dest: rankedD [OF 4(4) Some])
    show ?thesis
    proof (cases "memo name")
      case None
      have "vis_ok r frs (insert name visited) (set_spreads body)"
        using 4(3) Some rankedD [OF 4(4) Some] by (fastforce simp: vis_ok_def)
      from 4(1) [OF Some new None 4(2) this _ 4(4,5)] show ?thesis
        using val Some new None
        by (cases "depth_loop frs (insert name visited) maximum memo 0 body")
          (auto simp: document_depth_def memo_ok_def)
    next
      case (Some d)
      then have "d = min (Suc maximum) (document_depth frs K body)"
        using 4(2) \<open>map_of frs name = Some body\<close> by (fastforce simp: memo_ok_def)
      then show ?thesis using 4(2) val new Some \<open>map_of frs name = Some body\<close> by simp
    qed
  qed (use 4(2) in simp)
next
  case (6 frs visited maximum memo deepest sel rest)
  show ?case
  proof (cases "isIntrospectionRootField sel")
    case True
    then show ?thesis using 6(1) [OF True 6(4) _ 6(6,7,8)] 6(5) by (auto simp: document_depth_def vis_ok_def)
  next
    case False
    obtain d m where s: "selection_depth frs visited maximum memo sel = (d, m)" by (cases "selection_depth frs visited maximum memo sel")
    have d: "min (Suc maximum) d = min (Suc maximum) (selection_value max (\<lambda>_. 0) (\<lambda>_. 1) frs K sel)"
      and m: "memo_ok (document_depth frs K) maximum frs m"
      using 6(2) [OF False 6(4) _ 6(7,8)] 6(5) s by (auto simp: vis_ok_def)
    have rest: "vis_ok r frs visited (set_spreads rest)" using 6(5) by (auto simp: vis_ok_def)
    show ?thesis
      using 6(3) [OF False s [symmetric] refl _ m rest _ 6(7,8)] False s d m 6(6)
      by (auto simp: document_depth_def Let_def min_def max_def split: if_splits)
  qed
qed (auto simp: document_depth_def min_def)


lemma vis_ok_empty [simp]: "vis_ok r frs {} S" and memo_ok_empty [simp]: "memo_ok val maximum frs Map.empty"
  by (simp_all add: vis_ok_def memo_ok_def)

lemma operation_values_cong:
  "(\<And>sels. OperationDefinition sels \<in> set defs \<Longrightarrow> f sels = g sels) \<Longrightarrow> operation_values f defs = operation_values g defs"
  by (induction defs) (auto simp: operation_values_def List.map_filter_def split: definition_node.splits)

lemma filter_min_Suc: "filter (\<lambda>v. M < v) (map (min (Suc M)) xs) = replicate (length (filter (\<lambda>v. M < v) xs)) (Suc M)"
  by (induction xs) (auto simp: min_def)

lemma operation_values_comp: "operation_values (\<lambda>s. f (g s)) defs = map f (operation_values g defs)"
  by (induction defs) (auto simp: operation_values_def List.map_filter_def split: definition_node.splits)

section \<open>Properties\<close>

text \<open>
  C22. The complexity rule measures an operation with every fragment written out in place: for fragments
  none of which contains itself (a ranking below K shows it), the rule reports one error for each
  operation whose written-out cost exceeds the maximum and none for the others, and the number it
  reports is the maximum plus one, whatever the early returns and the memo of fragments cut short.
\<close>
theorem complexity_rule_exact:
  assumes "ranked r (buildFragmentMap defs)" and "\<And>n. map_of (buildFragmentMap defs) n \<noteq> None \<Longrightarrow> r n < K"
  shows "maxComplexityRule maximum defs =
           replicate (length (filter (\<lambda>v. maximum < v) (operation_values (document_cost (buildFragmentMap defs) K) defs)))
             (''Query complexity '' @ string_of_nat (Suc maximum) @ '' exceeds the limit of '' @
              string_of_nat maximum @ ''.'', ''COMPLEXITY_LIMIT_EXCEEDED'')"
proof -
  let ?frs = "buildFragmentMap defs"
  have "fst (cost_loop ?frs {} maximum Map.empty 0 sels) = min (Suc maximum) (document_cost ?frs K sels)" for sels
    using cost_loop_value(2) [OF assms, where memo = Map.empty and visited = "{}" and maximum = maximum and cnt = 0]
    by simp
  then show ?thesis
    unfolding maxComplexityRule_def Let_def
    by (simp add: operation_values_comp filter_min_Suc map_replicate)
qed

text \<open>
  The depth rule likewise: one error for each operation whose fields nest deeper than the maximum
  once its fragments are written out in place, none for the others; inline fragments and spreads add no
  level of their own.
\<close>
theorem depth_rule_exact:
  assumes "ranked r (buildFragmentMap defs)" and "\<And>n. map_of (buildFragmentMap defs) n \<noteq> None \<Longrightarrow> r n < K"
  shows "maxDepthRule maximum defs =
           replicate (length (filter (\<lambda>v. maximum < v) (operation_values (document_depth (buildFragmentMap defs) K) defs)))
             (''Query depth '' @ string_of_nat (Suc maximum) @ '' exceeds the limit of '' @
              string_of_nat maximum @ ''.'', ''DEPTH_LIMIT_EXCEEDED'')"
proof -
  let ?frs = "buildFragmentMap defs"
  have "fst (depth_loop ?frs {} maximum Map.empty 0 sels) = min (Suc maximum) (document_depth ?frs K sels)" for sels
    using depth_loop_value(2) [OF assms, where memo = Map.empty and visited = "{}" and maximum = maximum and deepest = 0]
    by simp
  then show ?thesis
    unfolding maxDepthRule_def Let_def
    by (simp add: operation_values_comp filter_min_Suc map_replicate)
qed


definition sample_document :: "definition_node list" where
  "sample_document =
     [OperationDefinition [FragmentSpread ''F'', Field ''__schema'' (Some [Field ''types'' None]), FragmentSpread ''F''],
      FragmentDefinition ''F'' [Field ''a'' (Some [Field ''b'' None])]]"

lemma sample_fragments: "buildFragmentMap sample_document = [(''F'', [Field ''a'' (Some [Field ''b'' None])])]"
  by (simp add: buildFragmentMap_def sample_document_def)

lemma sample_ranked: "ranked (\<lambda>_. 0) (buildFragmentMap sample_document)"
  by (auto simp: sample_fragments ranked_def split: if_splits)

theorem complexity_rule_exact_witness:
  "ranked (\<lambda>_. 0) (buildFragmentMap sample_document) \<and>
   maxComplexityRule 3 sample_document =
     [(''Query complexity 4 exceeds the limit of 3.'', ''COMPLEXITY_LIMIT_EXCEEDED'')]"
proof -
  have a: "fieldComplexity ''a'' = 1" "fieldComplexity ''b'' = 1" by code_simp+
  have "maxComplexityRule 3 sample_document =
      replicate (length (filter (\<lambda>v. 3 < v)
          (operation_values (document_cost (buildFragmentMap sample_document) 1) sample_document)))
        (''Query complexity '' @ string_of_nat (Suc 3) @ '' exceeds the limit of '' @ string_of_nat 3 @ ''.'',
         ''COMPLEXITY_LIMIT_EXCEEDED'')"
    by (rule complexity_rule_exact [OF sample_ranked]) simp
  moreover have "operation_values (document_cost (buildFragmentMap sample_document) 1) sample_document = [4]"
    unfolding sample_fragments
    by (simp add: sample_document_def operation_values_def List.map_filter_def document_cost_def
        isIntrospectionRootField_def INTROSPECTION_ROOT_FIELDS_def a)
  moreover have "string_of_nat (Suc 3) = ''4''" "string_of_nat 3 = ''3''" by code_simp+
  ultimately show ?thesis using sample_ranked by simp
qed

theorem depth_rule_exact_witness:
  "ranked (\<lambda>_. 0) (buildFragmentMap sample_document) \<and>
   maxDepthRule 0 sample_document = [(''Query depth 1 exceeds the limit of 0.'', ''DEPTH_LIMIT_EXCEEDED'')]"
proof -
  have "maxDepthRule 0 sample_document =
      replicate (length (filter (\<lambda>v. 0 < v)
          (operation_values (document_depth (buildFragmentMap sample_document) 1) sample_document)))
        (''Query depth '' @ string_of_nat (Suc 0) @ '' exceeds the limit of '' @ string_of_nat 0 @ ''.'',
         ''DEPTH_LIMIT_EXCEEDED'')"
    by (rule depth_rule_exact [OF sample_ranked]) simp
  moreover have "operation_values (document_depth (buildFragmentMap sample_document) 1) sample_document = [1]"
    unfolding sample_fragments
    by (simp add: sample_document_def operation_values_def List.map_filter_def document_depth_def
        isIntrospectionRootField_def INTROSPECTION_ROOT_FIELDS_def)
  moreover have "string_of_nat (Suc 0) = ''1''" "string_of_nat 0 = ''0''" by code_simp+
  ultimately show ?thesis using sample_ranked by simp
qed

end
