(* ===== verification/Ip_Safety.thy ===== *)
theory Ip_Safety
  imports Js_Prelude
begin

text \<open>
  The guards that keep outgoing requests off private networks: the IPv6 parser and the IPv4 addresses
  an IPv6 literal can carry (\<open>src/ip-safety.ts\<close>), and the four guards built on them, of webhook
  delivery (\<open>src/webhooks.ts\<close>), of the health prober (\<open>src/health-prober.ts\<close>,
  \<open>src/health-probe-core.ts\<close>) and of the RPC proxy (\<open>workers/request-handlers/rpc-proxy.ts\<close>).
  The platform's URL parser is an argument.
\<close>

section \<open>Parsing IPv6\<close>

text \<open>\<open>host.split("::")\<close>\<close>

fun split_double_colon :: "string \<Rightarrow> string list" where
  "split_double_colon [] = [[]]"
| "split_double_colon [x] = [[x]]"
| "split_double_colon (x # y # xs) =
     (if x = CHR '':'' \<and> y = CHR '':'' then [] # split_double_colon xs
      else (case split_double_colon (y # xs) of [] \<Rightarrow> [[x]] | s # ss \<Rightarrow> (x # s) # ss))"

definition is_hex_lower :: "char \<Rightarrow> bool" where
  "is_hex_lower c \<longleftrightarrow> is_digit c \<or> 97 \<le> (of_char c :: nat) \<and> (of_char c :: nat) \<le> 102"

definition is_hextet :: "string \<Rightarrow> bool" where
  "is_hextet part \<longleftrightarrow> 1 \<le> length part \<and> length part \<le> 4 \<and> list_all is_hex_lower part"

text \<open>\<open>Number.parseInt(part, 16)\<close> of a part that is one to four hexadecimal digits.\<close>

definition hextet_val :: "string \<Rightarrow> nat" where
  "hextet_val part = (case radix_digits 16 0 part of Some n \<Rightarrow> n | None \<Rightarrow> 0)"

definition hextet_bytes :: "string \<Rightarrow> nat list" where
  "hextet_bytes part = [take_bit 8 (drop_bit 8 (hextet_val part)), take_bit 8 (hextet_val part)]"

definition short_digits :: "string \<Rightarrow> bool" where
  "short_digits s \<longleftrightarrow> all_digits s \<and> length s \<le> 3"

definition octet_of :: "string \<Rightarrow> nat option" where
  "octet_of octet =
     (if \<not> short_digits octet then None
      else if 255 < nat_of_digits octet then None else Some (nat_of_digits octet))"

fun parse_parts :: "string list \<Rightarrow> nat list option" where
  "parse_parts [] = Some []"
| "parse_parts (part # rest) =
     (if CHR ''.'' \<in> set part then
        if rest \<noteq> [] then None
        else let octets = split_on CHR ''.'' part
             in if length octets \<noteq> 4 then None else traverse octet_of octets
      else if \<not> is_hextet part then None
      else (case parse_parts rest of None \<Rightarrow> None | Some bytes \<Rightarrow> Some (hextet_bytes part @ bytes)))"

definition parseGroups :: "string \<Rightarrow> nat list option" where
  "parseGroups segment = (if segment = [] then Some [] else parse_parts (split_on CHR '':'' segment))"

definition ipv6ToBytes :: "string \<Rightarrow> nat list option" where
  "ipv6ToBytes value =
     (let host = lower (trim value)
      in if CHR '':'' \<notin> set host then None
         else let host = takeWhile (\<lambda>c. c \<noteq> CHR ''%'') host; halves = split_double_colon host
              in if 2 < length halves then None
                 else case parseGroups (halves ! 0) of
                        None \<Rightarrow> None
                      | Some head \<Rightarrow>
                          if length halves = 2 then
                            (case parseGroups (halves ! 1) of
                               None \<Rightarrow> None
                             | Some tail \<Rightarrow>
                                 if 16 < length head + length tail then None
                                 else Some (head @ replicate (16 - (length head + length tail)) 0 @ tail))
                          else if length head = 16 then Some head else None)"

definition isZero :: "nat list \<Rightarrow> nat \<Rightarrow> nat \<Rightarrow> bool" where
  "isZero bytes start stop = list_all (\<lambda>b. b = 0) (take (stop - start) (drop start bytes))"

definition v4At :: "nat list \<Rightarrow> nat \<Rightarrow> nat list" where
  "v4At bytes i = take 4 (drop i bytes)"

definition embedded_ipv4 :: "nat list \<Rightarrow> nat list option" where
  "embedded_ipv4 bytes =
     (if isZero bytes 0 10 \<and> bytes ! 10 = 255 \<and> bytes ! 11 = 255 then Some (v4At bytes 12)
      else if isZero bytes 0 12 then Some (v4At bytes 12)
      else if bytes ! 0 = 32 \<and> bytes ! 1 = 2 then Some (v4At bytes 2)
      else if bytes ! 0 = 0 \<and> bytes ! 1 = 100 \<and> bytes ! 2 = 255 \<and> bytes ! 3 = 155 \<and> isZero bytes 4 12
      then Some (v4At bytes 12)
      else None)"

definition ipv6EmbeddedIpv4 :: "string \<Rightarrow> nat list option" where
  "ipv6EmbeddedIpv4 value = (case ipv6ToBytes value of None \<Rightarrow> None | Some bytes \<Rightarrow> embedded_ipv4 bytes)"

section \<open>Patterns\<close>

text \<open>
  A pattern anchored at the start is a list of character classes, one for each character it consumes;
  an alternation is a list of patterns.
\<close>

type_synonym pat = "(char \<Rightarrow> bool) list"

fun prefix_match :: "pat \<Rightarrow> string \<Rightarrow> bool" where
  "prefix_match [] s = True"
| "prefix_match (p # ps) [] = False"
| "prefix_match (p # ps) (c # cs) = (p c \<and> prefix_match ps cs)"

definition lit :: "string \<Rightarrow> pat" where
  "lit s = map (\<lambda>d c. c = d) s"

definition digits_in :: "nat \<Rightarrow> nat \<Rightarrow> char \<Rightarrow> bool" where
  "digits_in a b c \<longleftrightarrow> is_digit c \<and> a \<le> digit_val c \<and> digit_val c \<le> b"

definition any_match :: "pat list \<Rightarrow> string \<Rightarrow> bool" where
  "any_match ps s = list_ex (\<lambda>p. prefix_match p s) ps"

text \<open>\<open>172.16.0.0/12\<close> and the ranges the webhook guard and the literal guard of the prober list alike.\<close>

definition PATTERN_172 :: "pat list" where
  "PATTERN_172 = [lit ''172.1'' @ [digits_in 6 9] @ lit ''.'', lit ''172.2'' @ [digits_in 0 9] @ lit ''.'',
                  lit ''172.3'' @ [digits_in 0 1] @ lit ''.'']"

definition PATTERN_CGNAT :: "pat list" where
  "PATTERN_CGNAT = [lit ''100.6'' @ [digits_in 4 9] @ lit ''.'', lit ''100.'' @ [digits_in 7 9, digits_in 0 9] @ lit ''.'',
                    lit ''100.1'' @ [digits_in 0 1, digits_in 0 9] @ lit ''.'', lit ''100.12'' @ [digits_in 0 7] @ lit ''.'']"

definition PATTERN_SPECIAL :: "pat list" where
  "PATTERN_SPECIAL = [lit ''192.0.0.'', lit ''198.1'' @ [digits_in 8 9] @ lit ''.'',
                      lit ''22'' @ [digits_in 4 9] @ lit ''.'', lit ''2'' @ [digits_in 3 5, digits_in 0 9] @ lit ''.'']"

definition PRIVATE_IPV4_PATTERNS :: "pat list" where
  "PRIVATE_IPV4_PATTERNS =
     [lit ''0.'', lit ''10.'', lit ''127.'', lit ''169.254.'', lit ''192.168.''] @ PATTERN_172 @ PATTERN_CGNAT @ PATTERN_SPECIAL"

definition dotted :: "nat list \<Rightarrow> string" where
  "dotted octets = join_with ''.'' (map string_of_nat octets)"

definition ends_with :: "string \<Rightarrow> string \<Rightarrow> bool" where
  "ends_with t s = starts_with (rev t) (rev s)"

text \<open>\<open>.replace(/^\[|\]$/g, "")\<close>\<close>

definition strip_brackets :: "string \<Rightarrow> string" where
  "strip_brackets s =
     (let s' = (if s \<noteq> [] \<and> hd s = CHR ''['' then tl s else s)
      in if s' \<noteq> [] \<and> List.last s' = CHR '']'' then butlast s' else s')"

record url =
  protocol :: string
  username :: string
  password :: string
  port :: string
  hostname :: string

section \<open>The webhook guard\<close>

definition webhook_hostname :: "string \<Rightarrow> string" where
  "webhook_hostname value = strip_brackets (lower value)"

definition isIpv4Literal :: "string \<Rightarrow> bool" where
  "isIpv4Literal host =
     (let parts = split_on CHR ''.'' host
      in length parts = 4 \<and> list_all short_digits parts \<and> list_all (\<lambda>part. nat_of_digits part \<le> 255) parts)"

definition isPrivateIpv4Octets :: "nat list \<Rightarrow> bool" where
  "isPrivateIpv4Octets octets = any_match PRIVATE_IPV4_PATTERNS (dotted octets)"

definition isLiteralIp :: "string \<Rightarrow> bool" where
  "isLiteralIp host \<longleftrightarrow> isIpv4Literal host \<or> CHR '':'' \<in> set host"

definition isPublicWebhookAddress :: "string \<Rightarrow> bool" where
  "isPublicWebhookAddress value =
     (let host = webhook_hostname value
      in if host = [] then False
         else if CHR '':'' \<in> set host then
           if host = ''::1'' \<or> host = ''::'' \<or> starts_with ''fe'' host \<or> starts_with ''fc'' host \<or>
              starts_with ''fd'' host \<or> starts_with ''ff'' host \<or> starts_with ''::ffff:'' host
           then False
           else (case ipv6EmbeddedIpv4 host of Some v4 \<Rightarrow> \<not> isPrivateIpv4Octets v4 | None \<Rightarrow> True)
         else if isIpv4Literal host then \<not> any_match PRIVATE_IPV4_PATTERNS host
         else False)"

definition isPublicWebhookUrl :: "(string \<Rightarrow> url option) \<Rightarrow> string \<Rightarrow> bool" where
  "isPublicWebhookUrl parse value =
     (case parse value of
        None \<Rightarrow> False
      | Some u \<Rightarrow>
          if protocol u \<noteq> ''https:'' then False
          else if username u \<noteq> [] \<or> password u \<noteq> [] then False
          else if port u \<noteq> [] \<and> port u \<noteq> ''443'' then False
          else let host = webhook_hostname (hostname u)
               in if host = [] then False
                  else if host = ''localhost'' \<or> ends_with ''.localhost'' host then False
                  else if ends_with ''.internal'' host \<or> ends_with ''.local'' host then False
                  else if isLiteralIp host then isPublicWebhookAddress host
                  else CHR ''.'' \<in> set host)"

section \<open>The prober's guard on resolved addresses\<close>

text \<open>\<open>.replace(/^\[(.*)\]$/, "$1").replace(/\.$/, "")\<close>\<close>

definition unwrap_brackets :: "string \<Rightarrow> string" where
  "unwrap_brackets s =
     (let inner = butlast (tl s)
      in if 2 \<le> length s \<and> hd s = CHR ''['' \<and> List.last s = CHR '']'' \<and>
            list_all (\<lambda>c. (of_char c :: nat) \<notin> {10, 13}) inner
         then inner else s)"

definition strip_dot :: "string \<Rightarrow> string" where
  "strip_dot s = (if s \<noteq> [] \<and> List.last s = CHR ''.'' then butlast s else s)"

definition prober_hostname :: "string \<Rightarrow> string" where
  "prober_hostname value = strip_dot (unwrap_brackets (lower (trim value)))"

definition ipv4Octets :: "string \<Rightarrow> nat list option" where
  "ipv4Octets value =
     (let parts = split_on CHR ''.'' value
      in if length parts \<noteq> 4 then None
         else traverse (\<lambda>part. if all_digits part \<and> nat_of_digits part \<le> 255 then Some (nat_of_digits part) else None) parts)"

definition isUnsafeIpv4 :: "nat list \<Rightarrow> bool" where
  "isUnsafeIpv4 octets =
     (let a = octets ! 0; b = octets ! 1; c = octets ! 2; d = octets ! 3
      in a = 0 \<or> a = 10 \<or> (a = 100 \<and> b \<ge> 64 \<and> b \<le> 127) \<or> a = 127 \<or> (a = 169 \<and> b = 254) \<or>
         (a = 172 \<and> b \<ge> 16 \<and> b \<le> 31) \<or> (a = 192 \<and> b = 0 \<and> c = 0) \<or> (a = 192 \<and> b = 168) \<or>
         (a = 198 \<and> (b = 18 \<or> b = 19)) \<or> a \<ge> 224 \<or> (a = 255 \<and> b = 255 \<and> c = 255 \<and> d = 255))"

definition PATTERN_FE :: pat where
  "PATTERN_FE = lit ''fe'' @ [\<lambda>c. c \<in> {CHR ''8'', CHR ''9''} \<or> is_hex_lower c \<and> \<not> is_digit c, is_hex_lower] @ lit '':''"

definition isUnsafeIpAddress :: "string \<Rightarrow> bool" where
  "isUnsafeIpAddress value =
     (let host = prober_hostname value
      in case ipv4Octets host of
           Some v4 \<Rightarrow> isUnsafeIpv4 v4
         | None \<Rightarrow>
             (case ipv6EmbeddedIpv4 host of Some v4 \<Rightarrow> isUnsafeIpv4 v4 | None \<Rightarrow> False) \<or>
             host = ''::'' \<or> host = ''::1'' \<or> starts_with ''100:'' host \<or> starts_with ''64:ff9b:1:'' host \<or>
             starts_with ''fc'' host \<or> starts_with ''fd'' host \<or> prefix_match PATTERN_FE host \<or> starts_with ''ff'' host)"

section \<open>The prober's guard on literal hosts\<close>

definition UNSAFE_IPV4_PATTERNS :: "pat list" where
  "UNSAFE_IPV4_PATTERNS =
     [lit ''127.'', lit ''10.'', lit ''192.168.'', lit ''169.254.'', lit ''0.''] @ PATTERN_CGNAT @ PATTERN_SPECIAL"

definition unsafe_host_pattern :: "string \<Rightarrow> bool" where
  "unsafe_host_pattern host \<longleftrightarrow>
     lower host = ''localhost'' \<or> ends_with ''.localhost'' (lower host) \<or> ends_with ''.local'' (lower host) \<or>
     any_match UNSAFE_IPV4_PATTERNS host"

definition isUnsafeIpv6Literal :: "string \<Rightarrow> bool" where
  "isUnsafeIpv6Literal host \<longleftrightarrow>
     host = ''::1'' \<or> host = ''::'' \<or> starts_with ''fe'' host \<or> starts_with ''fc'' host \<or>
     starts_with ''fd'' host \<or> starts_with ''ff'' host"

definition isUnsafePublicUrl :: "(string \<Rightarrow> url option) \<Rightarrow> string \<Rightarrow> bool" where
  "isUnsafePublicUrl parse value =
     (case parse value of
        None \<Rightarrow> True
      | Some u \<Rightarrow>
          if protocol u \<notin> {''http:'', ''https:'', ''ws:'', ''wss:''} then True
          else let host = prober_hostname (hostname u)
               in if host = [] then True
                  else if any_match PATTERN_172 host then True
                  else if (case ipv6EmbeddedIpv4 host of
                             Some v4 \<Rightarrow> any_match PATTERN_172 (dotted v4) \<or> unsafe_host_pattern (dotted v4)
                           | None \<Rightarrow> False) then True
                  else if CHR '':'' \<in> set host then isUnsafeIpv6Literal host
                  else unsafe_host_pattern host)"

section \<open>Names resolved over DNS\<close>

text \<open>
  The answers of a DNS-over-HTTPS lookup: \<open>lookup host type\<close> is what the fetch of that query gives,
  nothing when it or the decoding of its body throws, else whether the response is ok and its body.
\<close>

type_synonym doh = "string \<Rightarrow> string \<Rightarrow> (bool \<times> json) option"

definition answer_data :: "json \<Rightarrow> string list" where
  "answer_data body =
     (case get_prop body ''Answer'' of
        JArr answers \<Rightarrow>
          map (\<lambda>answer. let data = get_prop answer ''data'' in trim (if truthy data then js_string data else [])) answers
      | _ \<Rightarrow> [])"

definition webhook_address_answers :: "json \<Rightarrow> string list" where
  "webhook_address_answers body =
     filter (\<lambda>data. isIpv4Literal (webhook_hostname data) \<or> CHR '':'' \<in> set (webhook_hostname data)) (answer_data body)"

definition resolveWebhookDnsJson :: "doh \<Rightarrow> string \<Rightarrow> string \<Rightarrow> string list" where
  "resolveWebhookDnsJson lookup host recordType =
     (case lookup host recordType of
        None \<Rightarrow> []
      | Some (ok, body) \<Rightarrow> if \<not> ok then [] else webhook_address_answers body)"

definition DNS_RECORD_TYPES :: "string list" where
  "DNS_RECORD_TYPES = [''A'', ''AAAA'']"

definition resolveWebhookHostnamesWithDoh :: "doh \<Rightarrow> string \<Rightarrow> string list" where
  "resolveWebhookHostnamesWithDoh lookup host =
     concat (map (resolveWebhookDnsJson lookup host) DNS_RECORD_TYPES)"

datatype dns_error = UnsafeDnsResult | OtherDnsError

datatype url_status = StatusOk | StatusUnsafe | StatusResolveError

definition resolvedWebhookUrlStatus ::
    "(string \<Rightarrow> url option) \<Rightarrow> string \<Rightarrow> (string \<Rightarrow> dns_error + string list) option \<Rightarrow> url_status" where
  "resolvedWebhookUrlStatus parse value resolver =
     (if \<not> isPublicWebhookUrl parse value then StatusUnsafe
      else case resolver of
             None \<Rightarrow> StatusOk
           | Some resolve \<Rightarrow>
               (let host = (case parse value of Some u \<Rightarrow> webhook_hostname (hostname u) | None \<Rightarrow> [])
                in if isLiteralIp host then StatusOk
                   else case resolve host of
                          Inl UnsafeDnsResult \<Rightarrow> StatusUnsafe
                        | Inl OtherDnsError \<Rightarrow> StatusResolveError
                        | Inr addresses \<Rightarrow>
                            if addresses \<noteq> [] \<and> list_all isPublicWebhookAddress addresses then StatusOk else StatusUnsafe))"

definition prober_address_answers :: "json \<Rightarrow> string list" where
  "prober_address_answers body =
     filter (\<lambda>data. ipv4Octets data \<noteq> None \<or> CHR '':'' \<in> set (prober_hostname data)) (answer_data body)"

definition resolveDnsJson :: "doh \<Rightarrow> string \<Rightarrow> string \<Rightarrow> string list option" where
  "resolveDnsJson lookup host recordType =
     (case lookup host recordType of
        None \<Rightarrow> None
      | Some (ok, body) \<Rightarrow> if \<not> ok then Some [] else Some (prober_address_answers body))"

definition workerResolvedUrlSafetyGuard :: "(string \<Rightarrow> url option) \<Rightarrow> doh \<Rightarrow> string \<Rightarrow> bool" where
  "workerResolvedUrlSafetyGuard parse lookup value =
     (if isUnsafePublicUrl parse value then True
      else case parse value of
             None \<Rightarrow> True
           | Some u \<Rightarrow>
               let host = prober_hostname (hostname u)
               in if ipv4Octets host \<noteq> None \<or> CHR '':'' \<in> set host then isUnsafeIpAddress host
                  else list_ex isUnsafeIpAddress
                         (concat (List.map_filter (resolveDnsJson lookup host) DNS_RECORD_TYPES)))"

section \<open>The RPC proxy's guard\<close>

definition rpc_isPrivateIpv4Octets :: "nat list \<Rightarrow> bool" where
  "rpc_isPrivateIpv4Octets octets =
     (let first_octet = octets ! 0; second = octets ! 1
      in first_octet = 0 \<or> first_octet = 10 \<or> first_octet = 127 \<or> (first_octet = 169 \<and> second = 254) \<or>
         (first_octet = 172 \<and> second \<ge> 16 \<and> second \<le> 31) \<or> (first_octet = 192 \<and> second = 168) \<or>
         (first_octet = 100 \<and> second \<ge> 64 \<and> second \<le> 127))"

definition parseIpv4Address :: "string \<Rightarrow> nat list option" where
  "parseIpv4Address host =
     (let parts = split_on CHR ''.'' host
      in if length parts = 4 \<and> list_all short_digits parts then
           let octets = map nat_of_digits parts
           in if list_all (\<lambda>octet. octet \<le> 255) octets then Some octets else None
         else None)"

definition isPrivateOrLocalHostname :: "string \<Rightarrow> bool" where
  "isPrivateOrLocalHostname host_name =
     (let host = strip_brackets (lower host_name)
      in if host = ''localhost'' \<or> ends_with ''.localhost'' host then True
         else case parseIpv4Address host of
                Some v4 \<Rightarrow> rpc_isPrivateIpv4Octets v4
              | None \<Rightarrow>
                  if host = ''::'' \<or> host = ''::1'' \<or> starts_with ''fc'' host \<or> starts_with ''fd'' host \<or>
                     starts_with ''fe80'' host then True
                  else (case ipv6EmbeddedIpv4 host of Some v4 \<Rightarrow> rpc_isPrivateIpv4Octets v4 | None \<Rightarrow> False))"

section \<open>The patterns as ranges\<close>

definition octet_match :: "pat \<Rightarrow> nat \<Rightarrow> bool" where
  "octet_match ps a \<longleftrightarrow> list_all2 (\<lambda>p c. p c) ps (string_of_nat a)"

lemma lit_append: "lit (s @ t) = lit s @ lit t" and lit_Cons: "lit (c # t) = (\<lambda>d. d = c) # lit t" and lit_Nil: "lit [] = []"
  by (simp_all add: lit_def)

lemma prefix_match_part:
  "(\<And>p. p \<in> set ps \<Longrightarrow> \<not> p d) \<Longrightarrow> d \<notin> set s \<Longrightarrow>
   prefix_match (ps @ (\<lambda>c. c = d) # qs) (s @ d # t) = (list_all2 (\<lambda>p c. p c) ps s \<and> prefix_match qs t)"
proof (induction ps arbitrary: s)
  case Nil
  then show ?case by (cases s) auto
next
  case (Cons p ps)
  then show ?case by (cases s) auto
qed

lemma dot_notin_nat [simp]: "CHR ''.'' \<notin> set (string_of_nat a)"
  by (rule digits_not_in [OF _ string_of_nat_digits]) (simp add: is_digit_def)

lemma digits_in_dot [simp]: "\<not> digits_in m n CHR ''.''"
  by (simp add: digits_in_def is_digit_def)

lemma octet_prefix:
  "list_all (\<lambda>p. \<not> p CHR ''.'') ps \<Longrightarrow>
   prefix_match (ps @ lit ''.'' @ qs) (string_of_nat a @ CHR ''.'' # t) = (octet_match ps a \<and> prefix_match qs t)"
  using prefix_match_part [of ps "CHR ''.''" "string_of_nat a" qs t]
  by (auto simp: lit_Cons lit_Nil octet_match_def list_all_iff)

lemma octet_lit: "octet_match (lit s) a \<longleftrightarrow> string_of_nat a = s"
proof -
  have "list_all2 (\<lambda>p c. p c) (lit s) t \<longleftrightarrow> t = s" for t
  proof (induction s arbitrary: t)
    case (Cons c s)
    then show ?case by (cases t) (auto simp: lit_Cons)
  qed (simp add: lit_def)
  then show ?thesis by (simp add: octet_match_def)
qed

lemma octet_cases:
  fixes a :: nat
  assumes "a < 256"
  obtains (one) z where "a = z" "z < 10" "string_of_nat a = [digit_char z]"
  | (two) y z where "a = 10 * y + z" "0 < y" "y < 10" "z < 10" "string_of_nat a = [digit_char y, digit_char z]"
  | (three) x y z where "a = 100 * x + 10 * y + z" "0 < x" "x < 3" "y < 10" "z < 10"
      "string_of_nat a = [digit_char x, digit_char y, digit_char z]"
proof -
  have low: "string_of_nat n = [digit_char n]" if "n < 10" for n
    using that by (simp add: string_of_nat.simps)
  have up: "string_of_nat n = string_of_nat (n div 10) @ [digit_char (n mod 10)]" if "\<not> n < 10" for n
    using that by (subst string_of_nat.simps) simp
  consider "a < 10" | "\<not> a < 10" "a < 100" | "\<not> a < 100" by linarith
  then show thesis
  proof cases
    case 1
    then show ?thesis using one [of a] low by simp
  next
    case 2
    have d: "a div 10 < 10" using 2(2) by linarith
    have "string_of_nat a = [digit_char (a div 10), digit_char (a mod 10)]"
      using up [OF 2(1)] low [OF d] by simp
    then show ?thesis using two [of "a div 10" "a mod 10"] 2 d by auto
  next
    case 3
    have d: "\<not> a < 10" "\<not> a div 10 < 10" "a div 10 div 10 < 10" "0 < a div 10 div 10" "a div 10 div 10 < 3"
      using 3 assms by linarith+
    have "string_of_nat a = [digit_char (a div 10 div 10), digit_char (a div 10 mod 10), digit_char (a mod 10)]"
      using up [OF d(1)] up [OF d(2)] low [OF d(3)] by simp
    moreover have "a = 100 * (a div 10 div 10) + 10 * (a div 10 mod 10) + a mod 10"
      using div_mult_mod_eq [of a 10] div_mult_mod_eq [of "a div 10" 10] by linarith
    ultimately show ?thesis using three d(4,5) by (metis mod_less_divisor zero_less_numeral)
  qed
qed

lemma digit_char_iff:
  assumes "n < 10"
  shows "digit_char n = CHR ''0'' \<longleftrightarrow> n = 0" "digit_char n = CHR ''1'' \<longleftrightarrow> n = 1" "digit_char n = CHR ''2'' \<longleftrightarrow> n = 2"
    "digit_char n = CHR ''3'' \<longleftrightarrow> n = 3" "digit_char n = CHR ''4'' \<longleftrightarrow> n = 4" "digit_char n = CHR ''5'' \<longleftrightarrow> n = 5"
    "digit_char n = CHR ''6'' \<longleftrightarrow> n = 6" "digit_char n = CHR ''7'' \<longleftrightarrow> n = 7" "digit_char n = CHR ''8'' \<longleftrightarrow> n = 8"
    "digit_char n = CHR ''9'' \<longleftrightarrow> n = 9"
proof -
  have "digit_char n = digit_char k \<longleftrightarrow> n = k" if "k < 10" for k
    using assms that by (metis digit_char_val)
  from this [of 0] this [of 1] this [of 2] this [of 3] this [of 4] this [of 5] this [of 6] this [of 7] this [of 8] this [of 9]
  show "digit_char n = CHR ''0'' \<longleftrightarrow> n = 0" "digit_char n = CHR ''1'' \<longleftrightarrow> n = 1" "digit_char n = CHR ''2'' \<longleftrightarrow> n = 2"
    "digit_char n = CHR ''3'' \<longleftrightarrow> n = 3" "digit_char n = CHR ''4'' \<longleftrightarrow> n = 4" "digit_char n = CHR ''5'' \<longleftrightarrow> n = 5"
    "digit_char n = CHR ''6'' \<longleftrightarrow> n = 6" "digit_char n = CHR ''7'' \<longleftrightarrow> n = 7" "digit_char n = CHR ''8'' \<longleftrightarrow> n = 8"
    "digit_char n = CHR ''9'' \<longleftrightarrow> n = 9" by simp_all
qed

lemma digits_in_char: "n < 10 \<Longrightarrow> digits_in lo hi (digit_char n) \<longleftrightarrow> lo \<le> n \<and> n \<le> hi"
  by (simp add: digits_in_def)

lemma octet_values [simp]:
  "octet_match (lit ''0'') a = (a = 0)" "octet_match (lit ''10'') a = (a = 10)"
  "octet_match (lit ''127'') a = (a = 127)" "octet_match (lit ''169'') a = (a = 169)"
  "octet_match (lit ''254'') a = (a = 254)" "octet_match (lit ''192'') a = (a = 192)"
  "octet_match (lit ''168'') a = (a = 168)" "octet_match (lit ''172'') a = (a = 172)"
  "octet_match (lit ''100'') a = (a = 100)" "octet_match (lit ''198'') a = (a = 198)"
proof -
  have e: "octet_match (lit s) a = (a = k)" if "string_of_nat k = s" for s k
    using that by (auto simp: octet_lit)
  show "octet_match (lit ''0'') a = (a = 0)" "octet_match (lit ''10'') a = (a = 10)"
    "octet_match (lit ''127'') a = (a = 127)" "octet_match (lit ''169'') a = (a = 169)"
    "octet_match (lit ''254'') a = (a = 254)" "octet_match (lit ''192'') a = (a = 192)"
    "octet_match (lit ''168'') a = (a = 168)" "octet_match (lit ''172'') a = (a = 172)"
    "octet_match (lit ''100'') a = (a = 100)" "octet_match (lit ''198'') a = (a = 198)"
    by (rule e, simp add: string_of_nat.simps)+
qed

lemmas octet_digits = octet_match_def lit_Cons lit_Nil digits_in_char digit_char_iff

lemma octet_172:
  assumes "a < 256"
  shows "octet_match (lit ''1'' @ [digits_in 6 9]) a \<or> octet_match (lit ''2'' @ [digits_in 0 9]) a \<or>
     octet_match (lit ''3'' @ [digits_in 0 1]) a \<longleftrightarrow> 16 \<le> a \<and> a \<le> 31"
  using assms
proof (cases a rule: octet_cases)
qed ((insert assms, auto simp: octet_digits; arith)+)

lemma octet_cgnat:
  assumes "a < 256"
  shows "octet_match (lit ''6'' @ [digits_in 4 9]) a \<or> octet_match [digits_in 7 9, digits_in 0 9] a \<or>
     octet_match (lit ''1'' @ [digits_in 0 1, digits_in 0 9]) a \<or> octet_match (lit ''12'' @ [digits_in 0 7]) a
     \<longleftrightarrow> 64 \<le> a \<and> a \<le> 127"
  using assms
proof (cases a rule: octet_cases)
qed ((insert assms, auto simp: octet_digits; arith)+)

lemma octet_198:
  assumes "a < 256"
  shows "octet_match (lit ''1'' @ [digits_in 8 9]) a \<longleftrightarrow> a = 18 \<or> a = 19"
  using assms
proof (cases a rule: octet_cases)
qed ((insert assms, auto simp: octet_digits; arith)+)

lemma octet_multicast:
  assumes "a < 256"
  shows "octet_match (lit ''22'' @ [digits_in 4 9]) a \<or> octet_match (lit ''2'' @ [digits_in 3 5, digits_in 0 9]) a
     \<longleftrightarrow> 224 \<le> a"
  using assms
proof (cases a rule: octet_cases)
  case (three x y z)
  have "octet_match (lit ''22'' @ [digits_in 4 9]) a \<longleftrightarrow> x = 2 \<and> y = 2 \<and> 4 \<le> z"
    "octet_match (lit ''2'' @ [digits_in 3 5, digits_in 0 9]) a \<longleftrightarrow> x = 2 \<and> 3 \<le> y \<and> y \<le> 5"
    using three(2-5) by (auto simp: octet_digits three(6))
  moreover have "x = 2 \<and> y = 2 \<and> 4 \<le> z \<or> x = 2 \<and> 3 \<le> y \<and> y \<le> 5 \<longleftrightarrow> 224 \<le> a"
  proof -
    consider "x = 1" | "x = 2" using three(2,3) by linarith
    then show ?thesis
    proof cases
      case 2
      then have "y = 0 \<or> y = 1 \<or> y = 2 \<or> y = 3 \<or> y = 4 \<or> y = 5" using three(1) assms by linarith
      then show ?thesis using 2 three(1,5) by auto
    qed (use three in simp)
  qed
  ultimately show ?thesis by simp
qed (simp_all add: octet_digits)

lemma dotted4: "dotted [a, b, c, d] = string_of_nat a @ CHR ''.'' # string_of_nat b @ CHR ''.'' # string_of_nat c @ CHR ''.'' # string_of_nat d"
  by (simp add: dotted_def)

text \<open>A pattern of octets: for each of the octets it fixes, the classes, and then a dot.\<close>

fun octets_pat :: "pat list \<Rightarrow> pat" where
  "octets_pat [] = []"
| "octets_pat (ps # pss) = ps @ lit ''.'' @ octets_pat pss"

lemma octets_pat_dotted:
  "list_all (list_all (\<lambda>p. \<not> p CHR ''.'')) [p] \<Longrightarrow> prefix_match (octets_pat [p]) (dotted [a, b, c, d]) = octet_match p a"
  "list_all (list_all (\<lambda>p. \<not> p CHR ''.'')) [p, q] \<Longrightarrow>
     prefix_match (octets_pat [p, q]) (dotted [a, b, c, d]) = (octet_match p a \<and> octet_match q b)"
  "list_all (list_all (\<lambda>p. \<not> p CHR ''.'')) [p, q, r] \<Longrightarrow>
     prefix_match (octets_pat [p, q, r]) (dotted [a, b, c, d]) = (octet_match p a \<and> octet_match q b \<and> octet_match r c)"
  by (simp_all add: dotted4 octet_prefix octet_prefix [where qs = "[]", simplified])

lemma octets_pat_forms:
  "lit ''0.'' = octets_pat [lit ''0'']" "lit ''10.'' = octets_pat [lit ''10'']" "lit ''127.'' = octets_pat [lit ''127'']"
  "lit ''169.254.'' = octets_pat [lit ''169'', lit ''254'']" "lit ''192.168.'' = octets_pat [lit ''192'', lit ''168'']"
  "lit ''172.1'' @ [p] @ lit ''.'' = octets_pat [lit ''172'', lit ''1'' @ [p]]"
  "lit ''172.2'' @ [p] @ lit ''.'' = octets_pat [lit ''172'', lit ''2'' @ [p]]"
  "lit ''172.3'' @ [p] @ lit ''.'' = octets_pat [lit ''172'', lit ''3'' @ [p]]"
  "lit ''100.6'' @ [p] @ lit ''.'' = octets_pat [lit ''100'', lit ''6'' @ [p]]"
  "lit ''100.'' @ [p, q] @ lit ''.'' = octets_pat [lit ''100'', [p, q]]"
  "lit ''100.1'' @ [p, q] @ lit ''.'' = octets_pat [lit ''100'', lit ''1'' @ [p, q]]"
  "lit ''100.12'' @ [p] @ lit ''.'' = octets_pat [lit ''100'', lit ''12'' @ [p]]"
  "lit ''192.0.0.'' = octets_pat [lit ''192'', lit ''0'', lit ''0'']"
  "lit ''198.1'' @ [p] @ lit ''.'' = octets_pat [lit ''198'', lit ''1'' @ [p]]"
  "lit ''22'' @ [p] @ lit ''.'' = octets_pat [lit ''22'' @ [p]]"
  "lit ''2'' @ [p, q] @ lit ''.'' = octets_pat [lit ''2'' @ [p, q]]"
  by (simp_all add: lit_def)

lemma lit_no_dot: "CHR ''.'' \<notin> set s \<Longrightarrow> list_all (\<lambda>p. \<not> p CHR ''.'') (lit s)"
  by (auto simp: lit_def list_all_iff)

lemma pattern_172_octets:
  "any_match PATTERN_172 (dotted [a, b, c, d]) \<longleftrightarrow>
     a = 172 \<and> (octet_match (lit ''1'' @ [digits_in 6 9]) b \<or> octet_match (lit ''2'' @ [digits_in 0 9]) b \<or>
                octet_match (lit ''3'' @ [digits_in 0 1]) b)"
  unfolding any_match_def PATTERN_172_def octets_pat_forms
  by (simp add: octets_pat_dotted lit_no_dot conj_disj_distribL del: octets_pat.simps)

lemma pattern_cgnat_octets:
  "any_match PATTERN_CGNAT (dotted [a, b, c, d]) \<longleftrightarrow>
     a = 100 \<and> (octet_match (lit ''6'' @ [digits_in 4 9]) b \<or> octet_match [digits_in 7 9, digits_in 0 9] b \<or>
        octet_match (lit ''1'' @ [digits_in 0 1, digits_in 0 9]) b \<or> octet_match (lit ''12'' @ [digits_in 0 7]) b)"
  unfolding any_match_def PATTERN_CGNAT_def octets_pat_forms
  by (simp add: octets_pat_dotted lit_no_dot conj_disj_distribL del: octets_pat.simps)

lemma pattern_special_octets:
  "any_match PATTERN_SPECIAL (dotted [a, b, c, d]) \<longleftrightarrow>
     (a = 192 \<and> b = 0 \<and> c = 0) \<or> (a = 198 \<and> octet_match (lit ''1'' @ [digits_in 8 9]) b) \<or>
     octet_match (lit ''22'' @ [digits_in 4 9]) a \<or> octet_match (lit ''2'' @ [digits_in 3 5, digits_in 0 9]) a"
  unfolding any_match_def PATTERN_SPECIAL_def octets_pat_forms
  by (simp add: octets_pat_dotted lit_no_dot del: octets_pat.simps)

lemma literal_octets:
  "any_match [lit ''0.'', lit ''10.'', lit ''127.'', lit ''169.254.'', lit ''192.168.''] (dotted [a, b, c, d]) \<longleftrightarrow>
     a = 0 \<or> a = 10 \<or> a = 127 \<or> (a = 169 \<and> b = 254) \<or> (a = 192 \<and> b = 168)"
  unfolding any_match_def octets_pat_forms
  by (simp add: octets_pat_dotted lit_no_dot del: octets_pat.simps)

lemma any_match_append: "any_match (ps @ qs) s \<longleftrightarrow> any_match ps s \<or> any_match qs s"
  by (simp add: any_match_def)

lemma isUnsafeIpv4_ranges:
  "isUnsafeIpv4 [a, b, c, d] \<longleftrightarrow>
     a = 0 \<or> a = 10 \<or> (a = 100 \<and> 64 \<le> b \<and> b \<le> 127) \<or> a = 127 \<or> (a = 169 \<and> b = 254) \<or>
     (a = 172 \<and> 16 \<le> b \<and> b \<le> 31) \<or> (a = 192 \<and> b = 0 \<and> c = 0) \<or> (a = 192 \<and> b = 168) \<or>
     (a = 198 \<and> (b = 18 \<or> b = 19)) \<or> 224 \<le> a"
proof -
  have "a = 255 \<and> b = 255 \<and> c = 255 \<and> d = 255 \<longrightarrow> 224 \<le> a" by simp
  moreover have "[a, b, c, d] ! 0 = a" "[a, b, c, d] ! 1 = b" "[a, b, c, d] ! 2 = c" "[a, b, c, d] ! 3 = d" by simp_all
  ultimately show ?thesis unfolding isUnsafeIpv4_def Let_def by (simp; cases "a = 255"; simp)
qed

lemma private_patterns_unsafe:
  assumes "a < 256" and "b < 256"
  shows "isPrivateIpv4Octets [a, b, c, d] \<longleftrightarrow> isUnsafeIpv4 [a, b, c, d]"
  unfolding isPrivateIpv4Octets_def PRIVATE_IPV4_PATTERNS_def any_match_append literal_octets pattern_172_octets
    pattern_cgnat_octets pattern_special_octets octet_172 [OF assms(2)] octet_cgnat [OF assms(2)] octet_198 [OF assms(2)]
    octet_multicast [OF assms(1)]
    isUnsafeIpv4_ranges
  by blast

lemma dotted_chars: "c \<in> set (dotted octets) \<Longrightarrow> is_digit c \<or> c = CHR ''.''"
proof (induction octets rule: induct_list012)
  case (2 a)
  then show ?case using string_of_nat_digits [of a] by (auto simp: dotted_def list_all_iff)
next
  case (3 a b octets)
  then show ?case using string_of_nat_digits [of a] by (auto simp: dotted_def list_all_iff)
qed (simp add: dotted_def)

lemma ends_with_set: "ends_with t s \<Longrightarrow> set t \<subseteq> set s"
  unfolding ends_with_def starts_with_def by (metis set_rev set_take_subset)

lemma lower_dotted: "lower (dotted octets) = dotted octets"
proof -
  have "lower_char c = c" if "c \<in> set (dotted octets)" for c
    using dotted_chars [OF that] by (auto simp: lower_char_def Let_def is_digit_def)
  then show ?thesis by (simp add: lower_def map_idI)
qed

lemma unsafe_host_pattern_octets:
  assumes "a < 256" and "b < 256"
  shows "any_match PATTERN_172 (dotted [a, b, c, d]) \<or> unsafe_host_pattern (dotted [a, b, c, d]) \<longleftrightarrow> isUnsafeIpv4 [a, b, c, d]"
proof -
  have "CHR ''l'' \<notin> set (dotted [a, b, c, d])" using dotted_chars [of "CHR ''l''"] by (auto simp: is_digit_def)
  then have "unsafe_host_pattern (dotted [a, b, c, d]) \<longleftrightarrow> any_match UNSAFE_IPV4_PATTERNS (dotted [a, b, c, d])"
    unfolding unsafe_host_pattern_def lower_dotted by (auto dest: ends_with_set)
  also have "\<dots> \<longleftrightarrow> any_match ([lit ''0.'', lit ''10.'', lit ''127.'', lit ''169.254.'', lit ''192.168.''] @ PATTERN_CGNAT @
      PATTERN_SPECIAL) (dotted [a, b, c, d])"
    unfolding UNSAFE_IPV4_PATTERNS_def by (auto simp: any_match_def)
  finally show ?thesis
    using private_patterns_unsafe [OF assms, of c d]
    unfolding isPrivateIpv4Octets_def PRIVATE_IPV4_PATTERNS_def any_match_append by blast
qed

section \<open>Addresses that carry an IPv4 address\<close>

text \<open>The bytes of the IPv4-mapped, IPv4-compatible, 6to4 and NAT64 forms.\<close>

definition tunnels :: "nat list \<Rightarrow> nat list \<Rightarrow> bool" where
  "tunnels v4 bytes \<longleftrightarrow> length v4 = 4 \<and>
     (bytes = replicate 10 0 @ [255, 255] @ v4 \<or> bytes = replicate 12 0 @ v4 \<or>
      (\<exists>rest. length rest = 10 \<and> bytes = [32, 2] @ v4 @ rest) \<or> bytes = [0, 100, 255, 155] @ replicate 8 0 @ v4)"

lemma zeros:
  "replicate 8 (0 :: nat) = [0, 0, 0, 0, 0, 0, 0, 0]" "replicate 10 (0 :: nat) = [0, 0, 0, 0, 0, 0, 0, 0, 0, 0]"
  "replicate 12 (0 :: nat) = [0, 0, 0, 0, 0, 0, 0, 0, 0, 0, 0, 0]"
  by (simp_all add: numeral_eq_Suc)

lemma embedded_ipv4_tunnels:
  assumes "tunnels v4 bytes"
  shows "embedded_ipv4 bytes = Some v4"
proof -
  obtain a b c d where v4: "v4 = [a, b, c, d]" using assms by (auto simp: tunnels_def length_Suc_conv numeral_eq_Suc)
  then show ?thesis
    using assms by (auto simp: tunnels_def zeros embedded_ipv4_def isZero_def v4At_def)
qed

text \<open>
  What the guards share: each has a host it reads from its input, a policy on IPv4 octets, and refuses
  every input whose host carries an address the policy refuses.
\<close>

locale tunnel_guard =
  fixes refuses :: "string \<Rightarrow> bool"
    and host_of :: "string \<Rightarrow> string"
    and refused :: "nat list \<Rightarrow> bool"
  assumes refuses_embedded: "ipv6EmbeddedIpv4 (host_of v) = Some v4 \<Longrightarrow> refused v4 \<Longrightarrow> refuses v"
begin

lemma refuses_tunnelled:
  "ipv6ToBytes (host_of v) = Some bytes \<Longrightarrow> tunnels v4 bytes \<Longrightarrow> refused v4 \<Longrightarrow> refuses v"
  using refuses_embedded [of v v4] by (simp add: ipv6EmbeddedIpv4_def embedded_ipv4_tunnels)

end

lemma lower_char_colon: "lower_char c = CHR '':'' \<longleftrightarrow> c = CHR '':''"
proof
  assume l: "lower_char c = CHR '':''"
  show "c = CHR '':''"
  proof (cases "lower_char c = c")
    case False
    then have "lower_char c = char_of (of_char c + 32 :: nat)" "of_char c \<le> (222 :: nat)" "65 \<le> (of_char c :: nat)"
      by (auto simp: lower_char_def Let_def split: if_splits)
    then have "of_char (lower_char c) = (of_char c + 32 :: nat)" by simp
    then show ?thesis using l \<open>65 \<le> (of_char c :: nat)\<close> by simp
  qed (use l in simp)
qed (simp add: lower_char_def)

lemma ipv6_has_colon: "ipv6EmbeddedIpv4 host = Some v4 \<Longrightarrow> CHR '':'' \<in> set host"
proof -
  assume "ipv6EmbeddedIpv4 host = Some v4"
  then have "CHR '':'' \<in> set (lower (trim host))"
    by (auto simp: ipv6EmbeddedIpv4_def ipv6ToBytes_def Let_def split: option.splits if_splits)
  then obtain c where c: "c \<in> set (trim host)" "lower_char c = CHR '':''" by (auto simp: lower_def)
  then have "c = CHR '':''" by (simp add: lower_char_colon)
  moreover have "set (trim host) \<subseteq> set host"
    by (auto simp: trim_def dest!: set_dropWhileD)
  ultimately show ?thesis using c(1) by auto
qed

lemma list_all2_set1: "list_all2 P xs ys \<Longrightarrow> \<forall>x\<in>set xs. \<exists>y. P x y"
  by (induction rule: list_all2_induct) auto

lemma part_with_colon: "CHR '':'' \<in> set host \<Longrightarrow> \<exists>part \<in> set (split_on CHR ''.'' host). \<not> list_all is_digit part"
proof -
  assume "CHR '':'' \<in> set host"
  then have "CHR '':'' \<in> \<Union> (set ` set (split_on CHR ''.'' host)) \<union> {CHR ''.''}"
    by (induction host) (auto split: list.splits if_splits)
  then show ?thesis by (force simp: list_all_iff is_digit_def)
qed

lemma colon_not_ipv4:
  assumes "CHR '':'' \<in> set host"
  shows "ipv4Octets host = None" and "parseIpv4Address host = None"
proof -
  obtain part where part: "part \<in> set (split_on CHR ''.'' host)" "\<not> list_all is_digit part"
    using part_with_colon [OF assms] by blast
  show "parseIpv4Address host = None"
    using part by (auto simp: parseIpv4Address_def Let_def short_digits_def all_digits_def list_all_iff)
  show "ipv4Octets host = None"
  proof (cases "ipv4Octets host")
    case (Some v4)
    then obtain y where "(if all_digits part \<and> nat_of_digits part \<le> 255 then Some (nat_of_digits part) else None) = Some y"
      using part(1) by (auto simp: ipv4Octets_def Let_def traverse_Some_iff dest!: list_all2_set1 split: if_splits)
    then show ?thesis using part(2) by (auto simp: all_digits_def split: if_splits)
  qed
qed

interpretation webhook_guard: tunnel_guard "\<lambda>v. \<not> isPublicWebhookAddress v" webhook_hostname isPrivateIpv4Octets
  by unfold_locales (auto simp: isPublicWebhookAddress_def Let_def dest: ipv6_has_colon)

interpretation resolved_guard: tunnel_guard isUnsafeIpAddress prober_hostname isUnsafeIpv4
  by unfold_locales (simp add: isUnsafeIpAddress_def Let_def colon_not_ipv4 [OF ipv6_has_colon])

definition url_host :: "(string \<Rightarrow> url option) \<Rightarrow> string \<Rightarrow> string" where
  "url_host parse value = (case parse value of None \<Rightarrow> [] | Some u \<Rightarrow> prober_hostname (hostname u))"

interpretation literal_guard: tunnel_guard "isUnsafePublicUrl parse" "url_host parse"
    "\<lambda>v4. any_match PATTERN_172 (dotted v4) \<or> unsafe_host_pattern (dotted v4)" for parse
  by unfold_locales (auto simp: isUnsafePublicUrl_def url_host_def Let_def split: option.splits)

interpretation rpc_guard: tunnel_guard isPrivateOrLocalHostname "\<lambda>v. strip_brackets (lower v)" rpc_isPrivateIpv4Octets
  by unfold_locales (simp add: isPrivateOrLocalHostname_def Let_def colon_not_ipv4 [OF ipv6_has_colon])

lemma four_octets:
  assumes "length v4 = 4" and "\<forall>n\<in>set v4. n < 256"
  obtains a b c d where "v4 = [a, b, c, d]" "a < 256" "b < 256" "c < 256" "d < 256"
  using assms by (auto simp: length_Suc_conv numeral_eq_Suc)

lemma ipv4_ranges_agree:
  assumes "length v4 = 4" and "\<forall>n\<in>set v4. n < 256"
  shows "isPrivateIpv4Octets v4 = isUnsafeIpv4 v4"
    and "(any_match PATTERN_172 (dotted v4) \<or> unsafe_host_pattern (dotted v4)) = isUnsafeIpv4 v4"
  using private_patterns_unsafe unsafe_host_pattern_octets by (metis four_octets [OF assms])+

section \<open>The parser on every way of writing an address\<close>

fun single_colons :: "string \<Rightarrow> bool" where
  "single_colons [] = True"
| "single_colons [x] = True"
| "single_colons (x # y # xs) = (\<not> (x = CHR '':'' \<and> y = CHR '':'') \<and> single_colons (y # xs))"

lemma single_colons_append:
  "CHR '':'' \<notin> set s \<Longrightarrow> single_colons (s @ t) = single_colons t"
proof (induction s)
  case (Cons c s)
  then show ?case by (cases "s @ t") (auto split: list.splits)
qed simp

lemma split_double_colon_single: "single_colons s \<Longrightarrow> split_double_colon s = [s]"
  by (induction s rule: split_double_colon.induct) auto

lemma split_double_colon_at:
  "single_colons s \<Longrightarrow> s = [] \<or> List.last s \<noteq> CHR '':'' \<Longrightarrow>
   split_double_colon (s @ CHR '':'' # CHR '':'' # t) = s # split_double_colon t"
proof (induction s rule: single_colons.induct)
  case (2 x)
  then show ?case by simp
qed auto

definition group_list :: "string list \<Rightarrow> bool" where
  "group_list gs \<longleftrightarrow> list_all (\<lambda>g. g \<noteq> [] \<and> CHR '':'' \<notin> set g) gs"

lemma joined_groups:
  "group_list gs \<Longrightarrow> single_colons (join_with '':'' gs) \<and>
     (join_with '':'' gs = [] \<or> List.last (join_with '':'' gs) \<noteq> CHR '':'') \<and>
     (gs \<noteq> [] \<longrightarrow> join_with '':'' gs \<noteq> [] \<and> hd (join_with '':'' gs) \<noteq> CHR '':'')"
proof (induction "'':''" gs rule: join_with.induct)
  case (2 s)
  then have s: "s \<noteq> []" "CHR '':'' \<notin> set s" by (auto simp: group_list_def)
  moreover have "List.last s \<in> set s" "hd s \<in> set s" using s(1) by simp_all
  ultimately show ?case using single_colons_append [of s "[]"] by (metis append_Nil2 join_with.simps(2) single_colons.simps(1))
next
  case (3 s t ss)
  then have g: "s \<noteq> []" "CHR '':'' \<notin> set s" and r: "group_list (t # ss)" by (auto simp: group_list_def)
  obtain c r where j: "join_with '':'' (t # ss) = c # r" "c \<noteq> CHR '':''"
    using 3(1) [OF r] by (cases "join_with '':'' (t # ss)") auto
  have "hd s \<in> set s" using g(1) by simp
  then have "hd s \<noteq> CHR '':''" using g(2) by metis
  then show ?case using 3(1) [OF r] g j by (simp add: single_colons_append)
qed simp

text \<open>The groups of a half: hextets, and at the end possibly a dotted quad.\<close>

definition written :: "string list \<Rightarrow> nat list option \<Rightarrow> string list" where
  "written gs v4 = gs @ (case v4 of None \<Rightarrow> [] | Some octets \<Rightarrow> [dotted octets])"

definition group_bytes :: "string list \<Rightarrow> nat list option \<Rightarrow> nat list" where
  "group_bytes gs v4 = concat (map hextet_bytes gs) @ (case v4 of None \<Rightarrow> [] | Some octets \<Rightarrow> octets)"

definition quad :: "nat list option \<Rightarrow> bool" where
  "quad v4 = (case v4 of None \<Rightarrow> True | Some octets \<Rightarrow> length octets = 4 \<and> list_all (\<lambda>n. n < 256) octets)"

lemma hextet_chars: "is_hextet g \<Longrightarrow> g \<noteq> [] \<and> CHR '':'' \<notin> set g \<and> CHR ''.'' \<notin> set g \<and> CHR ''%'' \<notin> set g"
  by (auto simp: is_hextet_def list_all_iff is_hex_lower_def is_digit_def)

lemma dotted_group:
  assumes "length octets = 4" and "list_all (\<lambda>n. n < 256) octets"
  shows "dotted octets \<noteq> []" "CHR '':'' \<notin> set (dotted octets)" "CHR ''.'' \<in> set (dotted octets)"
    "CHR ''%'' \<notin> set (dotted octets)" "parse_parts [dotted octets] = Some octets"
proof -
  obtain a b c d where v: "octets = [a, b, c, d]" "a < 256" "b < 256" "c < 256" "d < 256"
    using four_octets [OF assms(1) assms(2) [unfolded list_all_iff]] .
  show "dotted octets \<noteq> []" "CHR ''.'' \<in> set (dotted octets)" by (simp_all add: v dotted4)
  show "CHR '':'' \<notin> set (dotted octets)" "CHR ''%'' \<notin> set (dotted octets)"
    using dotted_chars [of "CHR '':''" octets] dotted_chars [of "CHR ''%''" octets] by (auto simp: is_digit_def)
  have short: "octet_of (string_of_nat n) = Some n" if "n < 256" for n
  proof -
    have "length (string_of_nat n) \<le> 3" using that by (cases n rule: octet_cases) simp_all
    then show ?thesis using that by (simp add: octet_of_def short_digits_def)
  qed
  have "split_on CHR ''.'' (dotted octets) = map string_of_nat octets"
    unfolding dotted_def v(1) by (rule split_on_join) auto
  then show "parse_parts [dotted octets] = Some octets"
    using v short \<open>CHR ''.'' \<in> set (dotted octets)\<close> by simp
qed

lemma parse_parts_written:
  assumes "list_all is_hextet gs" and "quad v4"
  shows "parse_parts (written gs v4) = Some (group_bytes gs v4)"
  using assms(1)
proof (induction gs)
  case Nil
  show ?case
    using assms(2) by (cases v4) (auto simp: written_def group_bytes_def quad_def dotted_group(5) simp del: parse_parts.simps(2))
next
  case (Cons g gs)
  then show ?case using hextet_chars [of g] by (simp add: written_def group_bytes_def)
qed

lemma written_groups: "list_all is_hextet gs \<Longrightarrow> quad v4 \<Longrightarrow> group_list (written gs v4)"
  using hextet_chars dotted_group by (auto simp: group_list_def written_def quad_def list_all_iff split: option.splits)

lemma parseGroups_written:
  assumes "list_all is_hextet gs" and "quad v4"
  shows "parseGroups (join_with '':'' (written gs v4)) = Some (group_bytes gs v4)"
proof (cases "written gs v4 = []")
  case True
  then show ?thesis by (simp add: parseGroups_def written_def group_bytes_def split: option.splits)
next
  case False
  have "split_on CHR '':'' (join_with '':'' (written gs v4)) = written gs v4"
    using False written_groups [OF assms] by (intro split_on_join) (auto simp: group_list_def list_all_iff)
  then show ?thesis
    using joined_groups [OF written_groups [OF assms]] False parse_parts_written [OF assms]
    by (simp add: parseGroups_def)
qed

lemma no_percent:
  assumes "list_all is_hextet gs" and "quad v4"
  shows "CHR ''%'' \<notin> set (join_with '':'' (written gs v4))"
proof -
  have "list_all (\<lambda>g. CHR ''%'' \<notin> set g) ss \<Longrightarrow> CHR ''%'' \<notin> set (join_with '':'' ss)" for ss
    by (induction "'':''" ss rule: join_with.induct) auto
  moreover have "list_all (\<lambda>g. CHR ''%'' \<notin> set g) (written gs v4)"
    using assms hextet_chars dotted_group by (auto simp: written_def quad_def list_all_iff split: option.splits)
  ultimately show ?thesis .
qed

lemma zone_cut: "CHR ''%'' \<notin> set s \<Longrightarrow> zone = [] \<or> hd zone = CHR ''%'' \<Longrightarrow> takeWhile (\<lambda>c. c \<noteq> CHR ''%'') (s @ zone) = s"
  by (cases zone) (auto simp: takeWhile_append)

lemma compressed_form:
  assumes hs: "list_all is_hextet hs" and ts: "list_all is_hextet ts" "quad dq" and zone: "zone = [] \<or> hd zone = CHR ''%''"
    and form: "lower (trim s) = join_with '':'' hs @ ''::'' @ join_with '':'' (written ts dq) @ zone"
  shows "ipv6ToBytes s =
           (let fill = 16 - int (2 * length hs + length (group_bytes ts dq))
            in if fill < 0 then None
               else Some (group_bytes hs None @ replicate (nat fill) 0 @ group_bytes ts dq))"
proof -
  let ?h = "join_with '':'' hs" and ?t = "join_with '':'' (written ts dq)"
  have q: "quad None" and w: "written hs None = hs" by (simp_all add: quad_def written_def)
  have h: "single_colons ?h" "?h = [] \<or> List.last ?h \<noteq> CHR '':''" "CHR ''%'' \<notin> set ?h" "parseGroups ?h = Some (group_bytes hs None)"
    using joined_groups [OF written_groups [OF hs q]] no_percent [OF hs q] parseGroups_written [OF hs q] unfolding w by auto
  have t: "single_colons ?t" "CHR ''%'' \<notin> set ?t" "parseGroups ?t = Some (group_bytes ts dq)"
    using joined_groups [OF written_groups [OF ts]] no_percent [OF ts] parseGroups_written [OF ts] by auto
  have cut: "takeWhile (\<lambda>c. c \<noteq> CHR ''%'') (lower (trim s)) = ?h @ CHR '':'' # CHR '':'' # ?t"
    unfolding form using zone_cut [of "?h @ ''::'' @ ?t" zone] h(3) t(2) zone by simp
  have split: "split_double_colon (?h @ CHR '':'' # CHR '':'' # ?t) = [?h, ?t]"
    using split_double_colon_at [OF h(1,2)] split_double_colon_single [OF t(1)] by simp
  have len: "length (group_bytes hs None) = 2 * length hs"
    by (induction hs) (simp_all add: group_bytes_def hextet_bytes_def)
  have colon: "CHR '':'' \<in> set (lower (trim s))" unfolding form by simp
  let ?n = "2 * length hs + length (group_bytes ts dq)"
  have "ipv6ToBytes s =
      (if 16 < ?n then None else Some (group_bytes hs None @ replicate (16 - ?n) 0 @ group_bytes ts dq))"
    unfolding ipv6ToBytes_def Let_def cut split using colon h(4) t(3) len by simp
  moreover have "nat (16 - int ?n) = 16 - ?n" by linarith
  ultimately show ?thesis by (simp only: Let_def) (simp add: not_less)
qed

lemma full_form:
  assumes ts: "list_all is_hextet ts" "quad dq" and zone: "zone = [] \<or> hd zone = CHR ''%''"
    and form: "lower (trim s) = join_with '':'' (written ts dq) @ zone" and full: "length (group_bytes ts dq) = 16"
  shows "ipv6ToBytes s = Some (group_bytes ts dq)"
proof -
  let ?t = "join_with '':'' (written ts dq)"
  have t: "single_colons ?t" "CHR ''%'' \<notin> set ?t" "parseGroups ?t = Some (group_bytes ts dq)"
    using joined_groups [OF written_groups [OF ts]] no_percent [OF ts] parseGroups_written [OF ts] by auto
  have cut: "takeWhile (\<lambda>c. c \<noteq> CHR ''%'') (lower (trim s)) = ?t"
    unfolding form using zone_cut [OF t(2) zone] .
  have "length (group_bytes gs w) = 2 * length gs + (case w of None \<Rightarrow> 0 | Some octets \<Rightarrow> length octets)" for gs w
    by (induction gs) (simp_all add: group_bytes_def hextet_bytes_def split: option.splits)
  then have "2 \<le> length ts" using full ts(2) by (auto simp: quad_def split: option.splits)
  then obtain g g' gs where "written ts dq = g # g' # gs" by (cases ts; cases "tl ts") (auto simp: written_def)
  then have "CHR '':'' \<in> set ?t" by simp
  then have "CHR '':'' \<in> set (lower (trim s))" unfolding form by simp
  then show ?thesis
    unfolding ipv6ToBytes_def Let_def cut split_double_colon_single [OF t(1)] using t(3) full by simp
qed

text \<open>Evaluating hextets.\<close>

lemmas hextet_eval = is_hextet_def is_hex_lower_def is_digit_def hextet_bytes_def hextet_val_def hex_digit_val_def Let_def
  drop_bit_eq_div take_bit_eq_mod

section \<open>Properties of the guards\<close>

lemma empty_run_accepted:
  "ipv6ToBytes ''1:2:3:4:5::6:7:8'' = Some [0, 1, 0, 2, 0, 3, 0, 4, 0, 5, 0, 6, 0, 7, 0, 8]"
proof -
  have h: "list_all is_hextet [''1'', ''2'', ''3'', ''4'', ''5'']" "list_all is_hextet [''6'', ''7'', ''8'']" "quad None"
    by (simp_all add: is_hextet_def is_hex_lower_def is_digit_def quad_def)
  have t: "lower (trim ''1:2:3:4:5::6:7:8'') =
      join_with '':'' [''1'', ''2'', ''3'', ''4'', ''5''] @ ''::'' @ join_with '':'' (written [''6'', ''7'', ''8''] None) @ []"
    by (simp add: lower_def trim_def is_space_def lower_char_def written_def)
  show ?thesis
    by (simp add: compressed_form [OF h disjI1 [OF refl] t] group_bytes_def hextet_eval)
qed

text \<open>
  The parser reads every way of writing an IPv6 address: groups of one to four hexadecimal digits in
  either case, a run of zeros left out at any place, a dotted quad at the end and a zone, each give the
  sixteen bytes they denote; more groups than fit are refused.
\<close>
theorem ipv6_forms_parse:
  assumes "list_all is_hextet hs" and "list_all is_hextet ts" and "quad dq" and "zone = [] \<or> hd zone = CHR ''%''"
  shows "(lower (trim s) = join_with '':'' hs @ ''::'' @ join_with '':'' (written ts dq) @ zone \<longrightarrow>
            ipv6ToBytes s =
              (let fill = 16 - int (2 * length hs + length (group_bytes ts dq))
               in if fill < 0 then None
                  else Some (group_bytes hs None @ replicate (nat fill) 0 @ group_bytes ts dq))) \<and>
         (lower (trim s) = join_with '':'' (written ts dq) @ zone \<and> length (group_bytes ts dq) = 16 \<longrightarrow>
            ipv6ToBytes s = Some (group_bytes ts dq))"
  using compressed_form [OF assms, of s] full_form [OF assms(2-4), of s] by (intro conjI impI) (blast, blast)

theorem ipv6_forms_parse_witness:
  "ipv6ToBytes ''64:FF9B::10.0.0.1%eth0'' = Some [0, 100, 255, 155, 0, 0, 0, 0, 0, 0, 0, 0, 10, 0, 0, 1]"
proof -
  have "lower (trim ''64:FF9B::10.0.0.1%eth0'') =
      join_with '':'' [''64'', ''ff9b''] @ ''::'' @ join_with '':'' (written [] (Some [10, 0, 0, 1])) @ ''%eth0''"
    by (simp add: lower_def trim_def is_space_def lower_char_def written_def dotted_def string_of_nat.simps char_of_def bit_0)
  then show ?thesis
    using ipv6_forms_parse [where hs = "[''64'', ''ff9b'']" and ts = "[]" and dq = "Some [10, 0, 0, 1]" and zone = "''%eth0''"
        and s = "''64:FF9B::10.0.0.1%eth0''"]
    by (simp add: hextet_eval quad_def group_bytes_def zeros)
qed

text \<open>
  The guards agree on IPv4: for four octets, the webhook guard's patterns on the dotted text, the
  prober's comparisons of the octets and the literal guard's patterns refuse the same addresses, and the
  RPC proxy's refuses these except the protocol assignments, the benchmarking range and everything from
  224.0.0.0 up.
\<close>
theorem ipv4_policies_agree:
  assumes "length v4 = 4" and "\<forall>n\<in>set v4. n < 256"
  shows "isPrivateIpv4Octets v4 = isUnsafeIpv4 v4 \<and>
         (any_match PATTERN_172 (dotted v4) \<or> unsafe_host_pattern (dotted v4)) = isUnsafeIpv4 v4 \<and>
         (rpc_isPrivateIpv4Octets v4 \<longleftrightarrow>
            isUnsafeIpv4 v4 \<and> \<not> (v4 ! 0 = 192 \<and> v4 ! 1 = 0 \<or> v4 ! 0 = 198 \<or> 224 \<le> v4 ! 0))"
proof -
  obtain a b c d where v: "v4 = [a, b, c, d]" using four_octets [OF assms] .
  have "rpc_isPrivateIpv4Octets [a, b, c, d] \<longleftrightarrow> a = 0 \<or> a = 10 \<or> a = 127 \<or> (a = 169 \<and> b = 254) \<or>
      (a = 172 \<and> 16 \<le> b \<and> b \<le> 31) \<or> (a = 192 \<and> b = 168) \<or> (a = 100 \<and> 64 \<le> b \<and> b \<le> 127)"
    by (simp add: rpc_isPrivateIpv4Octets_def Let_def)
  then have "rpc_isPrivateIpv4Octets v4 \<longleftrightarrow>
      isUnsafeIpv4 v4 \<and> \<not> (v4 ! 0 = 192 \<and> v4 ! 1 = 0 \<or> v4 ! 0 = 198 \<or> 224 \<le> v4 ! 0)"
    unfolding v isUnsafeIpv4_ranges by auto
  with ipv4_ranges_agree [OF assms] show ?thesis by blast
qed

theorem ipv4_policies_agree_witness:
  "isPrivateIpv4Octets [172, 31, 9, 1] \<and> isUnsafeIpv4 [172, 31, 9, 1] \<and> isUnsafeIpv4 [198, 19, 0, 1] \<and>
   \<not> rpc_isPrivateIpv4Octets [198, 19, 0, 1]"
  using ipv4_policies_agree [of "[172, 31, 9, 1]"] ipv4_policies_agree [of "[198, 19, 0, 1]"]
  by (simp add: isUnsafeIpv4_ranges)

text \<open>
  No guard lets a private IPv4 address through inside an IPv6 literal: whatever the way the literal
  is written, if it denotes an IPv4-mapped, IPv4-compatible, 6to4 or NAT64 address around an IPv4 address
  of the private ranges, then the webhook guard, both guards of the prober and, for the ranges it knows,
  the RPC proxy refuse it.
\<close>
theorem tunnelled_private_refused:
  assumes v4: "length v4 = 4" "\<forall>n\<in>set v4. n < 256" "isUnsafeIpv4 v4" and bytes: "tunnels v4 bytes"
  shows "(ipv6ToBytes (webhook_hostname w) = Some bytes \<longrightarrow> \<not> isPublicWebhookAddress w) \<and>
         (ipv6ToBytes (prober_hostname p) = Some bytes \<longrightarrow> isUnsafeIpAddress p) \<and>
         (parse u = Some url \<and> ipv6ToBytes (prober_hostname (hostname url)) = Some bytes \<longrightarrow> isUnsafePublicUrl parse u) \<and>
         (ipv6ToBytes (strip_brackets (lower r)) = Some bytes \<and> rpc_isPrivateIpv4Octets v4 \<longrightarrow> isPrivateOrLocalHostname r)"
proof -
  note same = ipv4_ranges_agree [OF v4(1,2)]
  have "ipv6ToBytes (webhook_hostname w) = Some bytes \<longrightarrow> \<not> isPublicWebhookAddress w"
    using webhook_guard.refuses_tunnelled bytes v4(3) same(1) by blast
  moreover have "ipv6ToBytes (prober_hostname p) = Some bytes \<longrightarrow> isUnsafeIpAddress p"
    using resolved_guard.refuses_tunnelled bytes v4(3) by blast
  moreover have "parse u = Some url \<and> ipv6ToBytes (prober_hostname (hostname url)) = Some bytes \<longrightarrow> isUnsafePublicUrl parse u"
    using literal_guard.refuses_tunnelled [of parse u bytes v4] bytes v4(3) same(2) by (simp add: url_host_def)
  moreover have "ipv6ToBytes (strip_brackets (lower r)) = Some bytes \<and> rpc_isPrivateIpv4Octets v4 \<longrightarrow> isPrivateOrLocalHostname r"
    using rpc_guard.refuses_tunnelled bytes by blast
  ultimately show ?thesis by blast
qed

theorem tunnelled_private_refused_witness:
  "\<not> isPublicWebhookAddress ''[64:ff9b::7f00:1]'' \<and> isUnsafeIpAddress ''::FFFF:10.0.0.1'' \<and>
   isPrivateOrLocalHostname ''[2002:a9fe:a9fe::1]''"
proof -
  have t: "tunnels [127, 0, 0, 1] ([0, 100, 255, 155] @ replicate 8 0 @ [127, 0, 0, 1])"
    "tunnels [10, 0, 0, 1] (replicate 10 0 @ [255, 255] @ [10, 0, 0, 1])"
    by (simp_all add: tunnels_def)
  have t2: "tunnels [169, 254, 169, 254] ([32, 2] @ [169, 254, 169, 254] @ [0, 0, 0, 0, 0, 0, 0, 0, 0, 1])"
    by (simp add: tunnels_def)
  note forms = webhook_hostname_def prober_hostname_def unwrap_brackets_def strip_dot_def strip_brackets_def lower_def trim_def
    is_space_def lower_char_def written_def dotted_def string_of_nat.simps Let_def char_of_def bit_0
  have p1: "ipv6ToBytes (webhook_hostname ''[64:ff9b::7f00:1]'') = Some ([0, 100, 255, 155] @ replicate 8 0 @ [127, 0, 0, 1])"
    by (subst compressed_form [where hs = "[''64'', ''ff9b'']" and ts = "[''7f00'', ''1'']" and zone = "[]" and dq = None])
      (simp_all add: forms hextet_eval group_bytes_def quad_def)
  have p2: "ipv6ToBytes (prober_hostname ''::FFFF:10.0.0.1'') = Some (replicate 10 0 @ [255, 255] @ [10, 0, 0, 1])"
    by (subst compressed_form [where hs = "[]" and ts = "[''ffff'']" and zone = "[]" and dq = "Some [10, 0, 0, 1]"])
      (simp_all add: forms hextet_eval group_bytes_def quad_def)
  have p3: "ipv6ToBytes (strip_brackets (lower ''[2002:a9fe:a9fe::1]'')) =
      Some ([32, 2] @ [169, 254, 169, 254] @ [0, 0, 0, 0, 0, 0, 0, 0, 0, 1])"
    by (subst compressed_form [where hs = "[''2002'', ''a9fe'', ''a9fe'']" and ts = "[''1'']" and zone = "[]" and dq = None])
      (simp_all add: forms hextet_eval group_bytes_def quad_def zeros)
  have u: "isUnsafeIpv4 [127, 0, 0, 1]" "isUnsafeIpv4 [10, 0, 0, 1]" "isUnsafeIpv4 [169, 254, 169, 254]"
    by (simp_all add: isUnsafeIpv4_ranges)
  have "\<not> isPublicWebhookAddress ''[64:ff9b::7f00:1]''"
    using tunnelled_private_refused [OF _ _ u(1) t(1), THEN conjunct1] p1 by simp
  moreover have "isUnsafeIpAddress ''::FFFF:10.0.0.1''"
    using tunnelled_private_refused [OF _ _ u(2) t(2), THEN conjunct2, THEN conjunct1] p2 by simp
  moreover have "rpc_isPrivateIpv4Octets [169, 254, 169, 254]" by (simp add: rpc_isPrivateIpv4Octets_def)
  then have "isPrivateOrLocalHostname ''[2002:a9fe:a9fe::1]''"
    using tunnelled_private_refused [OF _ _ u(3) t2, THEN conjunct2, THEN conjunct2, THEN conjunct2] p3 by simp
  ultimately show ?thesis by simp
qed

lemma last_digit_dotted: "octets \<noteq> [] \<Longrightarrow> is_digit (List.last (dotted octets)) \<and> is_digit (hd (dotted octets))"
proof (induction octets rule: induct_list012)
  case (2 a)
  have "List.last (string_of_nat a) \<in> set (string_of_nat a)" "hd (string_of_nat a) \<in> set (string_of_nat a)" by simp_all
  then show ?case using string_of_nat_digits [of a] by (simp add: dotted_def list_all_iff)
next
  case (3 a b octets)
  have "hd (string_of_nat a) \<in> set (string_of_nat a)" by simp
  moreover have "dotted (b # octets) \<noteq> []" by (cases octets) (simp_all add: dotted_def)
  ultimately show ?case using 3(2) string_of_nat_digits [of a] by (auto simp: dotted_def list_all_iff)
qed simp

lemma webhook_hostname_dotted: "octets \<noteq> [] \<Longrightarrow> webhook_hostname (dotted octets) = dotted octets"
  using last_digit_dotted [of octets]
  by (auto simp: webhook_hostname_def lower_dotted strip_brackets_def Let_def is_digit_def)

lemma dotted_literal:
  assumes "length v4 = 4" and "\<forall>n\<in>set v4. n < 256"
  shows "isIpv4Literal (dotted v4)" and "CHR '':'' \<notin> set (dotted v4)" and "v4 \<noteq> []"
proof -
  have q: "list_all (\<lambda>n. n < 256) v4" using assms(2) by (simp add: list_all_iff)
  have s: "split_on CHR ''.'' (dotted v4) = map string_of_nat v4"
    unfolding dotted_def using assms(1) by (intro split_on_join) auto
  have "traverse octet_of (map string_of_nat v4) = Some v4"
    using dotted_group(3,5) [OF assms(1) q] s assms(1) by simp
  then have "\<forall>n\<in>set v4. octet_of (string_of_nat n) \<noteq> None"
    by (auto simp: traverse_Some_iff dest!: list_all2_set1)
  then show "isIpv4Literal (dotted v4)"
    using s assms by (auto simp: isIpv4Literal_def Let_def list_all_iff octet_of_def split: if_splits)
  show "CHR '':'' \<notin> set (dotted v4)" by (rule dotted_group(2) [OF assms(1) q])
  show "v4 \<noteq> []" using assms(1) by auto
qed

lemma webhook_canonical_ipv4:
  assumes "length v4 = 4" and "\<forall>n\<in>set v4. n < 256"
  shows "isPublicWebhookAddress (dotted v4) \<longleftrightarrow> \<not> isUnsafeIpv4 v4"
  unfolding isPublicWebhookAddress_def Let_def webhook_hostname_dotted [OF dotted_literal(3) [OF assms]]
  using dotted_literal [OF assms] ipv4_ranges_agree(1) [OF assms] dotted_group(1) [of v4] assms
  by (simp add: isPrivateIpv4Octets_def list_all_iff)

lemma leading_zero_reading:
  "isPublicWebhookAddress ''010.0.0.1'' \<and> isUnsafeIpAddress ''010.0.0.1''"
  by code_simp

lemma answer_resolved:
  assumes "type \<in> set DNS_RECORD_TYPES" and "lookup host type = Some (True, body)" and "data \<in> set (answer_data body)"
    and "isIpv4Literal (webhook_hostname data) \<or> CHR '':'' \<in> set (webhook_hostname data)"
  shows "data \<in> set (resolveWebhookHostnamesWithDoh lookup host)"
proof -
  have "data \<in> set (resolveWebhookDnsJson lookup host type)"
    using assms(2-4) by (auto simp: resolveWebhookDnsJson_def webhook_address_answers_def)
  then show ?thesis using assms(1) by (auto simp: resolveWebhookHostnamesWithDoh_def)
qed



end
