(* ===== verification/Work_Group.thy ===== *)
theory Work_Group
  imports Js_Prelude
begin

text \<open>
  The bounded lifetime of queued and scheduled work (\<open>src/native-work-group.ts\<close>): the group's state,
  the calls on it (\<open>track\<close>, \<open>run\<close>, a scope's \<open>invoke\<close>, \<open>close\<close>) and the reactions the code registers (a
  consumer that settles, an operation that ends, the two timers, the draining loop) as steps.  The work
  itself, the caller's operations and consumers, ends or not at any time: every order of the steps is
  possible that the code's own guards allow.
\<close>

section \<open>State\<close>

record work_options =
  group_name :: string
  executionTimeoutMillis :: jsnum
  drainTimeoutMillis :: jsnum

text \<open>What the promise an \<open>invoke\<close> returns has settled to: the race of the consumer and the abort.\<close>

datatype race = Unsettled | ByConsumer | ByAbort string

text \<open>The variables of one call of \<open>run\<close>; \<open>abort_reason\<close> is the state of its controller's signal.\<close>

record work_run =
  run_key :: string
  operationDone :: bool
  consumerPending :: bool
  invoked :: bool
  released :: bool
  abort_reason :: "string option"
  race_state :: race

datatype closing_state = NotClosing | Racing | CloseRejected | CloseResolved

text \<open>
  Tasks and runs are numbered in the order of their creation; \<open>draining\<close> holds the tasks and consumers
  the draining loop waits for.
\<close>

record work_group =
  is_open :: bool
  drained :: bool
  draining :: "(nat set \<times> nat set) option"
  closing :: closing_state
  drainReason :: "string option"
  active :: "nat set"
  consumers :: "nat set"
  controllers :: "nat set"
  counts :: "string \<rightharpoonup> int"
  runs :: "nat \<rightharpoonup> work_run"
  next_task :: nat

definition new_run :: "string \<Rightarrow> work_run" where
  "new_run key = \<lparr>run_key = key, operationDone = False, consumerPending = False, invoked = False, released = False,
                  abort_reason = None, race_state = Unsettled\<rparr>"

definition deadline_ok :: "jsnum \<Rightarrow> bool" where
  "deadline_ok t \<longleftrightarrow> is_safe_integer t \<and> 0 < num_int t \<and> num_int t \<le> 3600000"

definition createNativeWorkGroup :: "work_options \<Rightarrow> string + work_group" where
  "createNativeWorkGroup opts =
     (if \<not> list_all deadline_ok [executionTimeoutMillis opts, drainTimeoutMillis opts]
      then Inl ''Native work deadlines must be positive bounded milliseconds''
      else Inr \<lparr>is_open = True, drained = False, draining = None, closing = NotClosing, drainReason = None, active = {},
                consumers = {}, controllers = {}, counts = Map.empty, runs = Map.empty, next_task = 0\<rparr>)"

datatype phase = Ready | Closing | Closed

definition state_of :: "work_group \<Rightarrow> phase" where
  "state_of g = (if is_open g then Ready else if drained g then Closed else Closing)"

section \<open>The calls\<close>

definition closed_error :: "work_options \<Rightarrow> string" where
  "closed_error opts = group_name opts @ '' transport is closed''"

definition track_task :: "work_options \<Rightarrow> work_group \<Rightarrow> string + (nat \<times> work_group)" where
  "track_task opts g =
     (if \<not> is_open g then Inl (closed_error opts)
      else Inr (next_task g, g\<lparr>active := insert (next_task g) (active g), next_task := Suc (next_task g)\<rparr>))"

definition count_of :: "work_group \<Rightarrow> string \<Rightarrow> int" where
  "count_of g key = (case counts g key of None \<Rightarrow> 0 | Some n \<Rightarrow> n)"

text \<open>The outcome of \<open>run\<close>: an error, the caller's answer at capacity, or a new task.\<close>

datatype run_outcome = RunError string | AtCapacity | Started nat

definition run_work :: "work_options \<Rightarrow> work_group \<Rightarrow> string \<Rightarrow> jsnum \<Rightarrow> run_outcome \<times> work_group" where
  "run_work opts g key maxConcurrent =
     (if \<not> is_open g then (RunError (closed_error opts), g)
      else if \<not> is_safe_integer maxConcurrent \<or> num_int maxConcurrent \<le> 0 \<or> 100 < num_int maxConcurrent
      then (RunError ''Native work concurrency is invalid'', g)
      else if num_int maxConcurrent \<le> count_of g key then (AtCapacity, g)
      else let g1 = g\<lparr>counts := (counts g)(key \<mapsto> count_of g key + 1)\<rparr>
           in case track_task opts g1 of
                Inl e \<Rightarrow> (RunError e, g1)
              | Inr (r, g2) \<Rightarrow> (Started r, g2\<lparr>runs := (runs g2)(r \<mapsto> new_run key)\<rparr>))"

definition update_run :: "nat \<Rightarrow> (work_run \<Rightarrow> work_run) \<Rightarrow> work_group \<Rightarrow> work_group" where
  "update_run r f g = g\<lparr>runs := (runs g)(r := map_option f (runs g r))\<rparr>"

text \<open>\<open>release()\<close> of a run.\<close>

definition release :: "nat \<Rightarrow> work_group \<Rightarrow> work_group" where
  "release r g =
     (case runs g r of
        None \<Rightarrow> g
      | Some w \<Rightarrow>
          if operationDone w \<and> \<not> consumerPending w \<and> \<not> released w
          then (update_run r (\<lambda>w. w\<lparr>released := True\<rparr>) g)
                 \<lparr>counts := (counts g)(run_key w \<mapsto> the (counts g (run_key w)) - 1)\<rparr>
          else g)"

text \<open>\<open>controller.abort(reason)\<close> and the listener it calls: a signal that is aborted stays as it is.\<close>

definition abort_with :: "string \<Rightarrow> work_run \<Rightarrow> work_run" where
  "abort_with reason w =
     (if abort_reason w \<noteq> None then w
      else w\<lparr>abort_reason := Some reason, race_state := (if race_state w = Unsettled then ByAbort reason else race_state w)\<rparr>)"

definition invoke_scope :: "nat \<Rightarrow> work_group \<Rightarrow> string + work_group" where
  "invoke_scope r g =
     (case runs g r of
        None \<Rightarrow> Inl ''Native work scope is closed''
      | Some w \<Rightarrow>
          if invoked w \<or> operationDone w then Inl ''Native work scope is closed''
          else let w1 = w\<lparr>invoked := True, consumerPending := True\<rparr>;
                   w2 = (case drainReason g of Some reason \<Rightarrow> abort_with reason w1 | None \<Rightarrow> w1)
               in Inr (g\<lparr>runs := (runs g)(r \<mapsto> w2), controllers := insert r (controllers g),
                         consumers := insert r (consumers g)\<rparr>))"

text \<open>The \<open>finally\<close> of a consumer that settled, and that of an operation that ended.\<close>

definition consumer_settled :: "nat \<Rightarrow> work_group \<Rightarrow> work_group" where
  "consumer_settled r g =
     release r (update_run r (\<lambda>w. w\<lparr>consumerPending := False,
                                     race_state := (if race_state w = Unsettled then ByConsumer else race_state w)\<rparr>)
       (g\<lparr>controllers := controllers g - {r}, consumers := consumers g - {r}\<rparr>))"

definition operation_ended :: "nat \<Rightarrow> work_group \<Rightarrow> work_group" where
  "operation_ended r g = release r (update_run r (\<lambda>w. w\<lparr>operationDone := True\<rparr>) g)"

text \<open>One round of the draining loop, and \<open>close()\<close>, which starts it unless it runs already.\<close>

definition drain_round :: "work_group \<Rightarrow> work_group" where
  "drain_round g =
     (if active g \<noteq> {} \<or> consumers g \<noteq> {} then g\<lparr>draining := Some (active g, consumers g)\<rparr>
      else g\<lparr>draining := Some ({}, {}), drained := True\<rparr>)"

definition close_group :: "work_group \<Rightarrow> work_group" where
  "close_group g =
     (if closing g \<noteq> NotClosing then g
      else let g1 = g\<lparr>is_open := False, closing := Racing\<rparr>
           in if draining g1 = None then drain_round g1 else g1)"

text \<open>The drain deadline: it is remembered, every controller is aborted, and the pending close rejects.\<close>

definition drain_expired :: "work_options \<Rightarrow> work_group \<Rightarrow> work_group" where
  "drain_expired opts g =
     (let reason = group_name opts @ '' drain deadline exceeded; unfinished operations remain''
      in g\<lparr>drainReason := Some reason,
           runs := (\<lambda>r. if r \<in> controllers g then map_option (abort_with reason) (runs g r) else runs g r),
           closing := CloseRejected\<rparr>)"

section \<open>The steps\<close>

datatype work_event =
    Track | RunWork string jsnum | Invoke nat | ExecutionDeadline nat | ConsumerSettled nat | OperationEnded nat
  | TaskSettled nat | Close | DrainRound | DrainDeadline | CloseFailed | CloseDone

inductive work_step :: "work_options \<Rightarrow> work_group \<Rightarrow> work_event \<Rightarrow> work_group \<Rightarrow> bool" for opts where
  track: "track_task opts g = Inr (r, g') \<Longrightarrow> work_step opts g Track g'"
| run: "run_work opts g key maxConcurrent = (outcome, g') \<Longrightarrow> work_step opts g (RunWork key maxConcurrent) g'"
| invoke: "invoke_scope r g = Inr g' \<Longrightarrow> work_step opts g (Invoke r) g'"
| execution_deadline: "r \<in> controllers g \<Longrightarrow> runs g r = Some w \<Longrightarrow> race_state w = Unsettled \<Longrightarrow>
    work_step opts g (ExecutionDeadline r)
      (update_run r (abort_with (group_name opts @ '' execution deadline exceeded'')) g)"
| consumer: "r \<in> consumers g \<Longrightarrow> work_step opts g (ConsumerSettled r) (consumer_settled r g)"
| operation: "runs g r = Some w \<Longrightarrow> \<not> operationDone w \<Longrightarrow> work_step opts g (OperationEnded r) (operation_ended r g)"
| task: "r \<in> active g \<Longrightarrow> (case runs g r of Some w \<Rightarrow> operationDone w | None \<Rightarrow> True) \<Longrightarrow>
    work_step opts g (TaskSettled r) (g\<lparr>active := active g - {r}\<rparr>)"
| close: "work_step opts g Close (close_group g)"
| drain: "draining g = Some (tasks, cs) \<Longrightarrow> \<not> drained g \<Longrightarrow> tasks \<inter> active g = {} \<Longrightarrow> cs \<inter> consumers g = {} \<Longrightarrow>
    work_step opts g DrainRound (drain_round g)"
| drain_deadline: "closing g = Racing \<Longrightarrow> \<not> drained g \<Longrightarrow> work_step opts g DrainDeadline (drain_expired opts g)"
| close_failed: "closing g = CloseRejected \<Longrightarrow> work_step opts g CloseFailed (g\<lparr>closing := NotClosing\<rparr>)"
| close_done: "closing g = Racing \<Longrightarrow> drained g \<Longrightarrow> work_step opts g CloseDone (g\<lparr>closing := CloseResolved\<rparr>)"

inductive work_path :: "work_options \<Rightarrow> work_group \<Rightarrow> work_event list \<Rightarrow> work_group \<Rightarrow> bool" for opts where
  path_Nil: "work_path opts g [] g"
| path_snoc: "work_path opts g es h \<Longrightarrow> work_step opts h e h' \<Longrightarrow> work_path opts g (es @ [e]) h'"

inductive_cases work_path_snocE: "work_path opts g (es @ [e]) h"
inductive_simps work_path_Nil_iff [simp]: "work_path opts g [] h"

text \<open>The relation as a function: an event leads to one state, or its guard does not hold.\<close>

fun perform :: "work_options \<Rightarrow> work_event \<Rightarrow> work_group \<Rightarrow> work_group option" where
  "perform opts Track g = (case track_task opts g of Inr (r, h) \<Rightarrow> Some h | Inl e \<Rightarrow> None)"
| "perform opts (RunWork key m) g = Some (snd (run_work opts g key m))"
| "perform opts (Invoke r) g = (case invoke_scope r g of Inr h \<Rightarrow> Some h | Inl e \<Rightarrow> None)"
| "perform opts (ExecutionDeadline r) g =
     (case runs g r of
        Some w \<Rightarrow> if r \<in> controllers g \<and> race_state w = Unsettled
                  then Some (update_run r (abort_with (group_name opts @ '' execution deadline exceeded'')) g) else None
      | None \<Rightarrow> None)"
| "perform opts (ConsumerSettled r) g = (if r \<in> consumers g then Some (consumer_settled r g) else None)"
| "perform opts (OperationEnded r) g =
     (case runs g r of Some w \<Rightarrow> if operationDone w then None else Some (operation_ended r g) | None \<Rightarrow> None)"
| "perform opts (TaskSettled r) g =
     (if r \<in> active g \<and> (case runs g r of Some w \<Rightarrow> operationDone w | None \<Rightarrow> True)
      then Some (g\<lparr>active := active g - {r}\<rparr>) else None)"
| "perform opts Close g = Some (close_group g)"
| "perform opts DrainRound g =
     (case draining g of
        Some (tasks, cs) \<Rightarrow>
          if \<not> drained g \<and> tasks \<inter> active g = {} \<and> cs \<inter> consumers g = {} then Some (drain_round g) else None
      | None \<Rightarrow> None)"
| "perform opts DrainDeadline g = (if closing g = Racing \<and> \<not> drained g then Some (drain_expired opts g) else None)"
| "perform opts CloseFailed g = (if closing g = CloseRejected then Some (g\<lparr>closing := NotClosing\<rparr>) else None)"
| "perform opts CloseDone g = (if closing g = Racing \<and> drained g then Some (g\<lparr>closing := CloseResolved\<rparr>) else None)"

lemma work_step_iff: "work_step opts g e h \<longleftrightarrow> perform opts e g = Some h"
proof
  assume "work_step opts g e h"
  then show "perform opts e g = Some h" by cases simp_all
next
  assume "perform opts e g = Some h"
  then show "work_step opts g e h"
    by (cases e) (auto intro: work_step.intros simp: work_step.run prod_eq_iff split: sum.splits option.splits if_splits)
qed

fun perform_all :: "work_options \<Rightarrow> work_event list \<Rightarrow> work_group \<Rightarrow> work_group option" where
  "perform_all opts [] g = Some g"
| "perform_all opts (e # es) g = (case perform opts e g of None \<Rightarrow> None | Some h \<Rightarrow> perform_all opts es h)"

lemma path_Cons: "work_step opts g e h \<Longrightarrow> work_path opts h es k \<Longrightarrow> work_path opts g (e # es) k"
proof (induction es arbitrary: k rule: rev_induct)
  case Nil
  then show ?case using path_snoc [OF path_Nil, of opts g e] by simp
next
  case (snoc f fs)
  from snoc(3) obtain m where "work_path opts h fs m" "work_step opts m f k" by (rule work_path_snocE) auto
  then show ?case using path_snoc [of opts g "e # fs" m f k] snoc by simp
qed

lemma perform_all_path: "perform_all opts es g = Some h \<Longrightarrow> work_path opts g es h"
  by (induction es arbitrary: g) (auto simp: path_Nil work_step_iff [symmetric] intro: path_Cons split: option.splits)

section \<open>Counting slots\<close>

text \<open>A run holds a slot of its key until it is released; it is live while its operation or its consumer is.\<close>

definition holders :: "work_group \<Rightarrow> string \<Rightarrow> nat set" where
  "holders g key = {r. \<exists>w. runs g r = Some w \<and> run_key w = key \<and> \<not> released w}"

definition live :: "work_group \<Rightarrow> string \<Rightarrow> nat set" where
  "live g key = {r. \<exists>w. runs g r = Some w \<and> run_key w = key \<and> (\<not> operationDone w \<or> consumerPending w)}"

definition counts_ok :: "work_group \<Rightarrow> bool" where
  "counts_ok g \<longleftrightarrow> finite (dom (runs g)) \<and> (\<forall>key. count_of g key = int (card (holders g key)))"

lemma finite_holders: "finite (dom (runs g)) \<Longrightarrow> finite (holders g key)"
  by (rule finite_subset [rotated]) (auto simp: holders_def)

lemma counts_ok_cong:
  "counts_ok g \<Longrightarrow> counts h = counts g \<Longrightarrow>
   (\<And>r. map_option (\<lambda>w. (run_key w, released w)) (runs h r) = map_option (\<lambda>w. (run_key w, released w)) (runs g r)) \<Longrightarrow>
   counts_ok h"
proof -
  assume ok: "counts_ok g" and c: "counts h = counts g"
    and r: "\<And>r. map_option (\<lambda>w. (run_key w, released w)) (runs h r) = map_option (\<lambda>w. (run_key w, released w)) (runs g r)"
  have "runs h r = None \<longleftrightarrow> runs g r = None" for r using r [of r] by (cases "runs h r"; cases "runs g r") auto
  then have "dom (runs h) = dom (runs g)" by (simp add: dom_def)
  moreover have "holders h key = holders g key" for key
  proof (intro set_eqI)
    fix r
    show "r \<in> holders h key \<longleftrightarrow> r \<in> holders g key"
      using r [of r] by (cases "runs h r"; cases "runs g r") (auto simp: holders_def)
  qed
  ultimately show ?thesis using ok c by (simp add: counts_ok_def count_of_def)
qed

lemma counts_ok_update:
  assumes "counts_ok g" and "counts h = counts g" and "runs h = (runs g)(r := map_option f (runs g r))"
    and "\<And>w. run_key (f w) = run_key w" "\<And>w. released (f w) = released w"
  shows "counts_ok h"
  using assms(1,2)
proof (rule counts_ok_cong)
  show "map_option (\<lambda>w. (run_key w, released w)) (runs h q) = map_option (\<lambda>w. (run_key w, released w)) (runs g q)" for q
    using assms(3-5) by (cases "runs g r") auto
qed

lemma update_run_simps [simp]:
  "is_open (update_run r f g) = is_open g" "drained (update_run r f g) = drained g" "draining (update_run r f g) = draining g"
  "closing (update_run r f g) = closing g" "drainReason (update_run r f g) = drainReason g" "active (update_run r f g) = active g"
  "consumers (update_run r f g) = consumers g" "controllers (update_run r f g) = controllers g" "counts (update_run r f g) = counts g"
  "next_task (update_run r f g) = next_task g" "runs (update_run r f g) = (runs g)(r := map_option f (runs g r))"
  by (simp_all add: update_run_def)

lemma release_simps [simp]:
  "is_open (release r g) = is_open g" "drained (release r g) = drained g" "draining (release r g) = draining g"
  "closing (release r g) = closing g" "drainReason (release r g) = drainReason g" "active (release r g) = active g"
  "consumers (release r g) = consumers g" "controllers (release r g) = controllers g" "next_task (release r g) = next_task g"
  by (simp_all add: release_def split: option.split)

lemma runs_release:
  "runs (release r g) = (runs g)(r := map_option (\<lambda>w. w\<lparr>released := released w \<or> operationDone w \<and> \<not> consumerPending w\<rparr>) (runs g r))"
proof -
  have "w\<lparr>released := True\<rparr> = w" if "released w" for w :: work_run using that by (cases w) simp
  moreover have "w\<lparr>released := False\<rparr> = w" if "\<not> released w" for w :: work_run using that by (cases w) simp
  ultimately show ?thesis by (auto simp: release_def fun_eq_iff split: option.split)
qed

lemma counts_ok_release:
  assumes "counts_ok g"
  shows "counts_ok (release r g)"
proof (cases "\<exists>w. runs g r = Some w \<and> operationDone w \<and> \<not> consumerPending w \<and> \<not> released w")
  case False
  then have "release r g = g" by (auto simp: release_def split: option.split)
  then show ?thesis using assms by simp
next
  case True
  then obtain w where w: "runs g r = Some w" "operationDone w" "\<not> consumerPending w" "\<not> released w" by blast
  have fin: "finite (holders g k)" for k using assms by (simp add: counts_ok_def finite_holders)
  have mem: "r \<in> holders g (run_key w)" using w by (simp add: holders_def)
  then have "0 < card (holders g (run_key w))" using fin by (auto simp: card_gt_0_iff)
  then have c: "counts g (run_key w) = Some (int (card (holders g (run_key w))))"
    using assms by (auto simp: counts_ok_def count_of_def split: option.splits)
  have cs: "counts (release r g) = (counts g)(run_key w \<mapsto> the (counts g (run_key w)) - 1)"
    using w by (simp add: release_def)
  have h: "holders (release r g) k = (if k = run_key w then holders g k - {r} else holders g k)" for k
    using w by (auto simp: holders_def runs_release)
  have "count_of (release r g) k = int (card (holders (release r g) k))" for k
  proof (cases "k = run_key w")
    case True
    then show ?thesis using c mem fin h cs by (simp add: count_of_def card_Diff_singleton) (metis One_nat_def Suc_leI \<open>0 < card (holders g (run_key w))\<close> of_nat_1 of_nat_diff)
  next
    case False
    then show ?thesis using assms h cs by (simp add: counts_ok_def count_of_def)
  qed
  moreover have "dom (runs (release r g)) = dom (runs g)" by (auto simp: runs_release split: if_splits)
  ultimately show ?thesis using assms by (simp add: counts_ok_def)
qed

section \<open>Invariants\<close>

text \<open>How a run's flags, the three sets and the slot agree.\<close>

definition runs_ok :: "work_group \<Rightarrow> bool" where
  "runs_ok g \<longleftrightarrow>
     (\<forall>r w. runs g r = Some w \<longrightarrow>
        r < next_task g \<and> (released w \<longleftrightarrow> operationDone w \<and> \<not> consumerPending w) \<and>
        (consumerPending w \<longleftrightarrow> r \<in> consumers g) \<and> (\<not> operationDone w \<longrightarrow> r \<in> active g) \<and>
        (abort_reason w \<noteq> None \<longrightarrow> race_state w \<noteq> Unsettled)) \<and>
     consumers g \<subseteq> dom (runs g) \<and> controllers g = consumers g \<and> active g \<subseteq> {..<next_task g}"

text \<open>How the phases of closing agree with the work that is left.\<close>

definition phases_ok :: "work_group \<Rightarrow> bool" where
  "phases_ok g \<longleftrightarrow>
     (is_open g \<longrightarrow> draining g = None \<and> \<not> drained g \<and> drainReason g = None) \<and>
     (\<not> is_open g \<longrightarrow> draining g \<noteq> None) \<and>
     (drained g \<longrightarrow> active g = {} \<and> consumers g = {}) \<and>
     (\<forall>tasks cs. draining g = Some (tasks, cs) \<longrightarrow> active g \<subseteq> tasks \<and> (tasks = {} \<longrightarrow> consumers g \<subseteq> cs)) \<and>
     (drainReason g \<noteq> None \<longrightarrow> (\<forall>r\<in>controllers g. \<forall>w. runs g r = Some w \<longrightarrow> abort_reason w \<noteq> None))"

definition group_ok :: "work_group \<Rightarrow> bool" where
  "group_ok g \<longleftrightarrow> runs_ok g \<and> phases_ok g \<and> counts_ok g"

lemma abort_with_simps [simp]:
  "run_key (abort_with s w) = run_key w" "operationDone (abort_with s w) = operationDone w"
  "consumerPending (abort_with s w) = consumerPending w" "invoked (abort_with s w) = invoked w"
  "released (abort_with s w) = released w" "abort_reason (abort_with s w) \<noteq> None"
  by (simp_all add: abort_with_def)

lemma abort_with_Some [simp]: "\<exists>y. abort_reason (abort_with s w) = Some y"
  by (auto simp: abort_with_def)

lemma abort_with_race [simp]:
  "abort_reason w \<noteq> None \<longrightarrow> race_state w \<noteq> Unsettled \<Longrightarrow> race_state (abort_with s w) \<noteq> Unsettled"
  by (auto simp: abort_with_def)

lemma release_runs_eq:
  "runs (release r g) q = (if q = r then map_option (\<lambda>w. w\<lparr>released := released w \<or> operationDone w \<and> \<not> consumerPending w\<rparr>) (runs g r)
    else runs g q)"
  by (simp add: runs_release)

text \<open>The three parts, step by step.\<close>

lemma created_ok: "createNativeWorkGroup opts = Inr g \<Longrightarrow> group_ok g"
  by (auto simp: createNativeWorkGroup_def group_ok_def runs_ok_def phases_ok_def counts_ok_def count_of_def holders_def
      split: if_splits)

lemma track_ok:
  assumes "group_ok g" and "track_task opts g = Inr (r, h)"
  shows "group_ok h"
proof -
  have h: "is_open g" "h = g\<lparr>active := insert (next_task g) (active g), next_task := Suc (next_task g)\<rparr>"
    using assms(2) by (auto simp: track_task_def split: if_splits)
  have "runs_ok h"
  proof -
    have g: "runs_ok g" using assms(1) by (simp add: group_ok_def)
    have "r < Suc (next_task g)" if "runs g r = Some w" for r w using g that by (auto simp: runs_ok_def intro: less_SucI)
    moreover have "active g \<subseteq> {..<Suc (next_task g)}" using g by (auto simp: runs_ok_def intro: less_SucI)
    ultimately show ?thesis using g by (simp add: h(2) runs_ok_def)
  qed
  moreover have "phases_ok h" using assms(1) h(1) by (simp add: h(2) group_ok_def phases_ok_def)
  moreover have "counts_ok h" using assms(1) by (auto simp: h group_ok_def intro: counts_ok_cong)
  ultimately show ?thesis by (simp add: group_ok_def)
qed

lemma run_work_cases:
  assumes "run_work opts g key m = (outcome, h)"
  obtains "h = g" "\<And>r. outcome \<noteq> Started r"
  | "is_open g" "outcome = Started (next_task g)" "count_of g key < num_int m" "is_safe_integer m"
    "h = g\<lparr>counts := (counts g)(key \<mapsto> count_of g key + 1), active := insert (next_task g) (active g),
           next_task := Suc (next_task g), runs := (runs g)(next_task g \<mapsto> new_run key)\<rparr>"
proof (cases "is_open g \<and> is_safe_integer m \<and> 0 < num_int m \<and> num_int m \<le> 100 \<and> count_of g key < num_int m")
  case True
  then have "\<not> num_int m \<le> 0" "\<not> 100 < num_int m" "\<not> num_int m \<le> count_of g key" by simp_all
  with True assms show ?thesis by (intro that(2)) (simp_all add: run_work_def track_task_def Let_def)
next
  case False
  with assms have "h = g \<and> (\<forall>r. outcome \<noteq> Started r)" by (auto simp: run_work_def not_le not_less split: if_splits)
  then show ?thesis by (intro that(1)) simp_all
qed

lemma run_ok:
  assumes ok: "group_ok g" and "run_work opts g key m = (outcome, h)"
  shows "group_ok h"
  using assms(2)
proof (cases rule: run_work_cases)
  case 2
  have g: "runs_ok g" using ok by (simp add: group_ok_def)
  have below: "r < next_task g" if "runs g r = Some w" for r w using g that unfolding runs_ok_def by blast
  then have new: "runs g (next_task g) = None" by (cases "runs g (next_task g)") auto
  have "next_task g \<notin> consumers g" using g new unfolding runs_ok_def by blast
  moreover have "active g \<subseteq> {..<Suc (next_task g)}" using g unfolding runs_ok_def by auto
  moreover have "r < Suc (next_task g)" if "runs g r = Some w" for r w using below [OF that] by simp
  ultimately have "runs_ok h" using g unfolding runs_ok_def 2(5) by (auto simp: new_run_def)
  moreover have "phases_ok h" using ok 2(1) by (simp add: 2(5) group_ok_def phases_ok_def)
  moreover have "counts_ok h"
  proof -
    have "holders h k = (if k = key then insert (next_task g) (holders g k) else holders g k)" for k
      using new by (auto simp: holders_def 2(5) new_run_def)
    moreover have "next_task g \<notin> holders g k" for k using new by (simp add: holders_def)
    moreover have "finite (holders g k)" for k using ok by (simp add: group_ok_def counts_ok_def finite_holders)
    ultimately show ?thesis using ok by (simp add: counts_ok_def group_ok_def count_of_def 2(5))
  qed
  ultimately show ?thesis by (simp add: group_ok_def)
qed (use ok in simp)

lemma invoke_ok:
  assumes ok: "group_ok g" and "invoke_scope r g = Inr h"
  shows "group_ok h"
proof -
  obtain w where w: "runs g r = Some w" "\<not> invoked w" "\<not> operationDone w"
    using assms(2) by (auto simp: invoke_scope_def split: option.splits if_splits)
  define w2 where "w2 = (case drainReason g of Some reason \<Rightarrow> abort_with reason (w\<lparr>invoked := True, consumerPending := True\<rparr>)
    | None \<Rightarrow> w\<lparr>invoked := True, consumerPending := True\<rparr>)"
  have w2: "run_key w2 = run_key w" "operationDone w2 = operationDone w" "consumerPending w2" "released w2 = released w"
    "drainReason g \<noteq> None \<longrightarrow> abort_reason w2 \<noteq> None"
    "(abort_reason w \<noteq> None \<longrightarrow> race_state w \<noteq> Unsettled) \<Longrightarrow> abort_reason w2 \<noteq> None \<longrightarrow> race_state w2 \<noteq> Unsettled"
    by (simp_all add: w2_def split: option.split del: not_None_eq)
  have h: "h = g\<lparr>runs := (runs g)(r \<mapsto> w2), controllers := insert r (controllers g), consumers := insert r (consumers g)\<rparr>"
    using assms(2) w by (simp add: invoke_scope_def w2_def Let_def)
  have a: "r \<in> active g" using ok w by (auto simp: group_ok_def runs_ok_def)
  have "runs_ok h" using ok w w2 by (auto simp: h group_ok_def runs_ok_def)
  moreover have "phases_ok h" using ok a w2(5) by (auto simp: h group_ok_def phases_ok_def)
  moreover have "counts_ok h"
    by (rule counts_ok_cong [of g]) (use ok w w2 in \<open>auto simp: h group_ok_def\<close>)
  ultimately show ?thesis by (simp add: group_ok_def)
qed

lemma consumer_ok:
  assumes ok: "group_ok g" and "r \<in> consumers g"
  shows "group_ok (consumer_settled r g)"
proof -
  have c: "counts_ok (consumer_settled r g)"
    unfolding consumer_settled_def
    by (rule counts_ok_release, rule counts_ok_update [OF _ _ update_run_simps(11)], rule counts_ok_cong [of g])
      (use ok in \<open>simp_all add: group_ok_def\<close>)
  have "runs_ok (consumer_settled r g)"
    using ok by (auto simp: consumer_settled_def group_ok_def runs_ok_def release_runs_eq runs_release split: if_splits)
  moreover have "phases_ok (consumer_settled r g)"
    using ok by (auto simp: consumer_settled_def group_ok_def phases_ok_def release_runs_eq split: if_splits)
  ultimately show ?thesis using c by (simp add: group_ok_def)
qed

lemma operation_ok:
  assumes ok: "group_ok g" and "runs g r = Some w"
  shows "group_ok (operation_ended r g)"
proof -
  have c: "counts_ok (operation_ended r g)"
    unfolding operation_ended_def
    by (rule counts_ok_release, rule counts_ok_update [OF _ _ update_run_simps(11)]) (use ok in \<open>simp_all add: group_ok_def\<close>)
  have "runs_ok (operation_ended r g)"
    using ok by (auto simp: operation_ended_def group_ok_def runs_ok_def release_runs_eq runs_release split: if_splits)
  moreover have "phases_ok (operation_ended r g)"
    using ok by (auto simp: operation_ended_def group_ok_def phases_ok_def release_runs_eq split: if_splits)
  ultimately show ?thesis using c by (simp add: group_ok_def)
qed

lemma abort_ok:
  assumes ok: "group_ok g"
  shows "group_ok (update_run r (abort_with reason) g)"
proof -
  have "counts_ok (update_run r (abort_with reason) g)"
    by (rule counts_ok_update [OF _ _ update_run_simps(11)]) (use ok in \<open>simp_all add: group_ok_def\<close>)
  moreover have "runs_ok (update_run r (abort_with reason) g)" using ok by (auto simp: group_ok_def runs_ok_def)
  moreover have "phases_ok (update_run r (abort_with reason) g)"
    using ok by (auto simp: group_ok_def phases_ok_def)
  ultimately show ?thesis by (simp add: group_ok_def)
qed

lemma task_ok:
  assumes ok: "group_ok g" and "case runs g r of Some w \<Rightarrow> operationDone w | None \<Rightarrow> True"
  shows "group_ok (g\<lparr>active := active g - {r}\<rparr>)"
proof -
  have "runs_ok (g\<lparr>active := active g - {r}\<rparr>)" using assms by (auto simp: group_ok_def runs_ok_def)
  moreover have "phases_ok (g\<lparr>active := active g - {r}\<rparr>)" using ok by (auto simp: group_ok_def phases_ok_def)
  moreover have "counts_ok (g\<lparr>active := active g - {r}\<rparr>)" by (rule counts_ok_cong [of g]) (use ok in \<open>simp_all add: group_ok_def\<close>)
  ultimately show ?thesis by (simp add: group_ok_def)
qed

lemma group_ok_phases:
  assumes "group_ok g" and "runs h = runs g" "counts h = counts g" "active h = active g" "consumers h = consumers g"
    "controllers h = controllers g" "next_task h = next_task g" and "phases_ok h"
  shows "group_ok h"
proof -
  have "counts_ok h" by (rule counts_ok_cong [of g]) (use assms in \<open>simp_all add: group_ok_def\<close>)
  then show ?thesis using assms by (simp add: group_ok_def runs_ok_def)
qed

lemma drain_round_ok: "group_ok g \<Longrightarrow> \<not> is_open g \<Longrightarrow> group_ok (drain_round g)"
  by (rule group_ok_phases [of g]) (auto simp: drain_round_def group_ok_def phases_ok_def)

lemma close_ok: "group_ok g \<Longrightarrow> group_ok (close_group g)"
  by (rule group_ok_phases [of g])
    (auto simp: close_group_def drain_round_def group_ok_def phases_ok_def Let_def)

lemma drain_expired_ok:
  assumes ok: "group_ok g" and closed: "\<not> is_open g"
  shows "group_ok (drain_expired opts g)"
proof -
  have "runs_ok (drain_expired opts g)"
    using ok by (auto simp: drain_expired_def Let_def group_ok_def runs_ok_def split: if_splits)
  moreover have "phases_ok (drain_expired opts g)"
    using ok closed by (auto simp: drain_expired_def Let_def group_ok_def phases_ok_def)
  moreover have "counts_ok (drain_expired opts g)"
    by (rule counts_ok_cong [of g]) (use ok in \<open>auto simp: drain_expired_def Let_def group_ok_def option.map_comp comp_def\<close>)
  ultimately show ?thesis by (simp add: group_ok_def)
qed

text \<open>A pending close means the group is closed to new work.\<close>

definition closing_ok :: "work_group \<Rightarrow> bool" where
  "closing_ok g \<longleftrightarrow> group_ok g \<and> (is_open g \<longrightarrow> closing g = NotClosing)"

lemma step_ok:
  assumes "work_step opts g e h" and "closing_ok g"
  shows "closing_ok h"
  using assms
proof (induction rule: work_step.induct)
  case (track g r g')
  then show ?case using track_ok by (auto simp: closing_ok_def track_task_def split: if_splits)
next
  case (run g key m outcome g')
  then have "group_ok g'" using run_ok by (auto simp: closing_ok_def)
  with run(2) show ?case by (cases rule: run_work_cases [OF run(1)]) (auto simp: closing_ok_def)
next
  case (invoke r g g')
  then have "group_ok g'" using invoke_ok by (auto simp: closing_ok_def)
  then show ?case using invoke by (auto simp: closing_ok_def invoke_scope_def Let_def split: option.splits if_splits)
next
  case (close g)
  then have "group_ok (close_group g)" using close_ok by (simp add: closing_ok_def)
  then show ?case using close by (auto simp: closing_ok_def close_group_def drain_round_def Let_def)
next
  case (drain g tasks cs)
  then have "\<not> is_open g" by (auto simp: closing_ok_def group_ok_def phases_ok_def)
  then show ?case using drain drain_round_ok by (auto simp: closing_ok_def drain_round_def)
next
  case (drain_deadline g)
  then have "\<not> is_open g" by (auto simp: closing_ok_def)
  then show ?case using drain_deadline drain_expired_ok [of g] by (auto simp: closing_ok_def drain_expired_def Let_def)
next
  case (consumer r g)
  then show ?case using consumer_ok by (auto simp: closing_ok_def consumer_settled_def)
next
  case (operation g r w)
  then show ?case using operation_ok by (auto simp: closing_ok_def operation_ended_def)
next
  case (execution_deadline r g w)
  then show ?case using abort_ok by (auto simp: closing_ok_def)
next
  case (task r g)
  then show ?case using task_ok by (auto simp: closing_ok_def)
next
  case (close_failed g)
  have "group_ok (g\<lparr>closing := NotClosing\<rparr>)"
    by (rule group_ok_phases [of g]) (use close_failed in \<open>simp_all add: closing_ok_def group_ok_def phases_ok_def\<close>)
  then show ?case by (simp add: closing_ok_def)
next
  case (close_done g)
  have "group_ok (g\<lparr>closing := CloseResolved\<rparr>)"
    by (rule group_ok_phases [of g]) (use close_done in \<open>simp_all add: closing_ok_def group_ok_def phases_ok_def\<close>)
  moreover have "\<not> is_open g" using close_done by (auto simp: closing_ok_def)
  ultimately show ?case by (simp add: closing_ok_def)
qed

lemma path_ok:
  assumes "work_path opts g es h" and "closing_ok g"
  shows "closing_ok h"
  using assms by (induction rule: work_path.induct) (auto intro: step_ok)

lemma created_closing_ok: "createNativeWorkGroup opts = Inr g \<Longrightarrow> closing_ok g"
  using created_ok [of opts g] by (auto simp: closing_ok_def createNativeWorkGroup_def split: if_splits)

section \<open>Properties\<close>

text \<open>A slot is held exactly while the run is live.\<close>

lemma holders_live: "group_ok g \<Longrightarrow> holders g key = live g key"
  by (auto simp: holders_def live_def group_ok_def runs_ok_def)

lemma count_is_live: "group_ok g \<Longrightarrow> count_of g key = int (card (live g key))"
  by (simp add: holders_live [symmetric]) (simp add: group_ok_def counts_ok_def)

lemma live_subset_cong:
  "(\<And>r w. runs h r = Some w \<Longrightarrow> run_key w = key \<Longrightarrow> \<not> operationDone w \<or> consumerPending w \<Longrightarrow>
      \<exists>v. runs g r = Some v \<and> run_key v = key \<and> (\<not> operationDone v \<or> consumerPending v)) \<Longrightarrow> live h key \<subseteq> live g key"
  by (fastforce simp: live_def)

lemma finite_live: "group_ok g \<Longrightarrow> finite (live g key)"
  by (simp add: holders_live [symmetric] group_ok_def counts_ok_def finite_holders)

lemma step_live:
  assumes "work_step opts g e h" and ok: "closing_ok g"
  shows "live h key \<subseteq> live g key \<or> (\<exists>m. e = RunWork key m \<and> int (card (live h key)) \<le> num_int m)"
  using assms
proof (induction rule: work_step.induct)
  case (run g k m outcome g')
  have ok': "group_ok g'" using run(1,2) run_ok by (auto simp: closing_ok_def)
  from run(1) show ?case
  proof (cases rule: run_work_cases)
    case 2
    show ?thesis
    proof (cases "k = key")
      case True
      have "int (card (live g' key)) = count_of g key + 1"
        unfolding count_is_live [OF ok', symmetric] by (simp add: count_of_def 2(5) True)
      then show ?thesis using 2(3) True by auto
    next
      case False
      then show ?thesis by (auto simp: 2(5) live_def new_run_def)
    qed
  qed simp
next
  case (invoke r g g')
  then have "live g' key \<subseteq> live g key"
    by (intro live_subset_cong) (auto simp: invoke_scope_def Let_def split: option.splits if_splits)
  then show ?case by simp
next
  case (consumer r g)
  have "live (consumer_settled r g) key \<subseteq> live g key"
    by (rule live_subset_cong) (auto simp: consumer_settled_def runs_release split: if_splits)
  then show ?case by simp
next
  case (operation g r w)
  have "live (operation_ended r g) key \<subseteq> live g key"
    by (rule live_subset_cong) (auto simp: operation_ended_def runs_release split: if_splits)
  then show ?case by simp
qed (auto simp: live_def track_task_def close_group_def drain_round_def drain_expired_def Let_def split: if_splits)

lemma path_live:
  assumes "work_path opts g es h" and "closing_ok g" and "finite (live g key)" "card (live g key) \<le> M"
    and "\<And>m. RunWork key m \<in> set es \<Longrightarrow> num_int m \<le> int M"
  shows "card (live h key) \<le> M"
  using assms
proof (induction rule: work_path.induct)
  case (path_snoc g es h e h')
  have h: "closing_ok h" using path_ok path_snoc by blast
  have card: "card (live h key) \<le> M" using path_snoc by simp
  from step_live [OF path_snoc(2) h] show ?case
  proof
    assume "live h' key \<subseteq> live h key"
    then show ?thesis using card card_mono finite_live h by (metis closing_ok_def le_trans)
  next
    assume "\<exists>m. e = RunWork key m \<and> int (card (live h' key)) \<le> num_int m"
    then show ?thesis using path_snoc(7) by force
  qed
qed simp

lemma closed_step:
  assumes "work_step opts g e h" and "closing_ok g" and "state_of g = Closed"
  shows "state_of h = Closed \<and> runs h = runs g"
proof -
  have idle: "active g = {}" "consumers g = {}" "controllers g = {}" "drained g" "\<not> is_open g" "draining g \<noteq> None"
    using assms(2,3) by (auto simp: closing_ok_def group_ok_def runs_ok_def phases_ok_def state_of_def split: if_splits)
  have ended: "runs g r = Some w \<Longrightarrow> operationDone w" for r w
    using assms(2) idle(1) by (auto simp: closing_ok_def group_ok_def runs_ok_def)
  from assms(1) show ?thesis
    by cases (use idle ended in \<open>auto simp: state_of_def track_task_def run_work_def invoke_scope_def close_group_def Let_def
        split: if_splits option.splits\<close>)
qed

lemma closed_path:
  assumes "work_path opts g es h" and "closing_ok g" and "state_of g = Closed"
  shows "state_of h = Closed \<and> runs h = runs g"
  using assms
proof (induction rule: work_path.induct)
  case (path_snoc g es h e h')
  then show ?case using closed_step [OF path_snoc(2)] path_ok [OF path_snoc(1)] by simp
qed simp

text \<open>How many rounds the draining loop can still take.\<close>

definition rounds_left :: "work_group \<Rightarrow> nat" where
  "rounds_left g =
     (if drained g then 0
      else case draining g of None \<Rightarrow> 2 | Some (tasks, cs) \<Rightarrow> if tasks = {} then 1 else 2)"

lemma rounds_step:
  assumes "work_step opts g e h" and "closing_ok g"
  shows "rounds_left h + (if e = DrainRound then 1 else 0) \<le> rounds_left g"
  using assms
proof (induction rule: work_step.induct)
  case (drain g tasks cs)
  then have "active g \<subseteq> tasks" "tasks = {} \<longrightarrow> consumers g \<subseteq> cs"
    by (auto simp: closing_ok_def group_ok_def phases_ok_def)
  then have "active g = {}" "tasks = {} \<longrightarrow> consumers g = {}" using drain by auto
  then show ?case using drain by (auto simp: drain_round_def rounds_left_def)
next
  case (run g key m outcome g')
  from run(1) show ?case by (cases rule: run_work_cases) (auto simp: rounds_left_def)
next
  case (close g)
  then show ?case by (auto simp: close_group_def drain_round_def rounds_left_def Let_def split: option.split)
qed (auto simp: rounds_left_def track_task_def invoke_scope_def consumer_settled_def operation_ended_def drain_expired_def Let_def
    split: option.splits if_splits)

lemma rounds_path:
  assumes "work_path opts g es h" and "closing_ok g"
  shows "rounds_left h + length (filter (\<lambda>e. e = DrainRound) es) \<le> rounds_left g"
  using assms
proof (induction rule: work_path.induct)
  case (path_snoc g es h e h')
  then show ?case using rounds_step [OF path_snoc(2)] path_ok [OF path_snoc(1)] by (auto split: if_splits)
qed simp

text \<open>
  C6. Concurrency is bounded: whatever calls, settlements, deadlines and closings happen in whatever
  order, if no call of run for a key allows more than M, then at most M runs of the key have an
  operation or a consumer that is still going, and the group's counter for the key is exactly their
  number, so no slot is lost or given back twice.
\<close>
theorem concurrency_bounded:
  assumes "createNativeWorkGroup opts = Inr g0" and "work_path opts g0 es g"
    and "\<And>m. RunWork key m \<in> set es \<Longrightarrow> num_int m \<le> int M"
  shows "card (live g key) \<le> M \<and> count_of g key = int (card (live g key))"
proof -
  have start: "live g0 key = {}" using assms(1) by (auto simp: createNativeWorkGroup_def live_def split: if_splits)
  have ok: "closing_ok g0" by (rule created_closing_ok [OF assms(1)])
  then have "group_ok g" using path_ok [OF assms(2)] by (simp add: closing_ok_def)
  moreover have "card (live g key) \<le> M" by (rule path_live [OF assms(2) ok]) (use start assms(3) in simp_all)
  ultimately show ?thesis using count_is_live by simp
qed

text \<open>
  C27. Closing is orderly: once the drain deadline has passed, every consumer that is still going has had
  its signal aborted and its caller answered; and in the closed state nothing is going: no task, no
  consumer, no live run, and after any further calls the group is still closed with the same runs, so
  none is ever started again.
\<close>
theorem closing_is_orderly:
  assumes "createNativeWorkGroup opts = Inr g0" and "work_path opts g0 es g"
  shows "(drainReason g \<noteq> None \<longrightarrow>
            (\<forall>r\<in>consumers g. \<exists>w. runs g r = Some w \<and> abort_reason w \<noteq> None \<and> race_state w \<noteq> Unsettled)) \<and>
         (state_of g = Closed \<longrightarrow>
            active g = {} \<and> consumers g = {} \<and> (\<forall>key. live g key = {}) \<and>
            (\<forall>key m. run_work opts g key m = (RunError (closed_error opts), g)) \<and>
            (\<forall>es' h. work_path opts g es' h \<longrightarrow> state_of h = Closed \<and> runs h = runs g))"
proof -
  have ok: "closing_ok g" using path_ok [OF assms(2)] created_closing_ok [OF assms(1)] by simp
  have "\<exists>w. runs g r = Some w \<and> abort_reason w \<noteq> None \<and> race_state w \<noteq> Unsettled"
    if "drainReason g \<noteq> None" "r \<in> consumers g" for r
  proof -
    have "runs_ok g" "phases_ok g" using ok by (simp_all add: closing_ok_def group_ok_def)
    moreover note \<open>r \<in> consumers g\<close>
    ultimately obtain w where "runs g r = Some w" "r \<in> controllers g" by (auto simp: runs_ok_def)
    then have "abort_reason w \<noteq> None" using \<open>phases_ok g\<close> \<open>drainReason g \<noteq> None\<close> by (auto simp: phases_ok_def)
    then show ?thesis using \<open>runs_ok g\<close> \<open>runs g r = Some w\<close> by (simp add: runs_ok_def)
  qed
  moreover have "active g = {}" "consumers g = {}" "live g key = {}" "run_work opts g key m = (RunError (closed_error opts), g)"
    if "state_of g = Closed" for key m
    using ok that by (auto simp: closing_ok_def group_ok_def runs_ok_def phases_ok_def state_of_def live_def run_work_def split: if_splits)
  ultimately show ?thesis using closed_path ok by blast
qed

text \<open>
  The draining loop ends: whatever happens, it waits again at most once after its first wait, so at
  most two of its rounds come after close, and the second leaves the group closed.
\<close>
theorem draining_ends:
  assumes "createNativeWorkGroup opts = Inr g0" and "work_path opts g0 es g"
  shows "length (filter (\<lambda>e. e = DrainRound) es) \<le> 2 \<and>
         (length (filter (\<lambda>e. e = DrainRound) es) = 2 \<longrightarrow> state_of g = Closed)"
proof -
  have ok: "closing_ok g0" by (rule created_closing_ok [OF assms(1)])
  have "rounds_left g0 = 2" using assms(1) by (auto simp: createNativeWorkGroup_def rounds_left_def split: if_splits)
  with rounds_path [OF assms(2) ok] have l: "rounds_left g + length (filter (\<lambda>e. e = DrainRound) es) \<le> 2" by simp
  have "state_of g = Closed" if "rounds_left g = 0"
    using that path_ok [OF assms(2) ok]
    by (auto simp: rounds_left_def state_of_def closing_ok_def group_ok_def phases_ok_def split: if_splits option.splits)
  then show ?thesis using l by auto
qed

section \<open>A run of the group\<close>

definition sample_options :: work_options where
  "sample_options = \<lparr>group_name = ''queue'', executionTimeoutMillis = js_int 1000, drainTimeoutMillis = js_int 1000\<rparr>"

text \<open>Two calls at a limit of one, a close whose deadline passes, a late consumer, and the end of the work.\<close>

definition sample_before :: "work_event list" where
  "sample_before = [RunWork ''k'' (js_int 1), RunWork ''k'' (js_int 1), Close, DrainDeadline, Invoke 0]"

definition sample_after :: "work_event list" where
  "sample_after = [OperationEnded 0, TaskSettled 0, CloseFailed, ConsumerSettled 0, DrainRound]"

definition sample_start :: work_group where
  "sample_start = (case createNativeWorkGroup sample_options of Inr g \<Rightarrow> g | Inl e \<Rightarrow> undefined)"

lemma sample_created: "createNativeWorkGroup sample_options = Inr sample_start"
  by (simp add: sample_start_def createNativeWorkGroup_def sample_options_def deadline_ok_def MAX_SAFE_def)

lemmas sample_run = sample_options_def sample_before_def sample_after_def sample_start_def createNativeWorkGroup_def
  deadline_ok_def MAX_SAFE_def run_work_def track_task_def count_of_def new_run_def close_group_def drain_round_def
  drain_expired_def invoke_scope_def abort_with_def operation_ended_def consumer_settled_def release_def update_run_def Let_def

lemma sample_middle:
  "\<exists>g. perform_all sample_options sample_before sample_start = Some g \<and> drainReason g \<noteq> None \<and> consumers g = {0} \<and>
       live g ''k'' = {0} \<and> perform_all sample_options sample_after g \<noteq> None \<and>
       state_of (the (perform_all sample_options sample_after g)) = Closed"
  by (simp add: sample_run) (auto simp: live_def state_of_def split: if_splits)

theorem concurrency_bounded_witness:
  "\<exists>g. work_path sample_options sample_start sample_before g \<and> live g ''k'' = {0} \<and> card (live g ''k'') \<le> 1 \<and>
       count_of g ''k'' = 1"
proof -
  obtain g where g: "perform_all sample_options sample_before sample_start = Some g" "live g ''k'' = {0}"
    using sample_middle by blast
  have "card (live g ''k'') \<le> 1 \<and> count_of g ''k'' = int (card (live g ''k''))"
    by (rule concurrency_bounded [OF sample_created perform_all_path [OF g(1)]]) (auto simp: sample_before_def)
  with g(2) perform_all_path [OF g(1)] show ?thesis by (intro exI [of _ g]) simp
qed

theorem closing_is_orderly_witness:
  "\<exists>g. work_path sample_options sample_start sample_before g \<and> consumers g = {0} \<and>
       (\<exists>w. runs g 0 = Some w \<and> abort_reason w \<noteq> None \<and> race_state w \<noteq> Unsettled)"
proof -
  obtain g where g: "perform_all sample_options sample_before sample_start = Some g" "drainReason g \<noteq> None" "consumers g = {0}"
    using sample_middle by blast
  show ?thesis
    using closing_is_orderly [OF sample_created perform_all_path [OF g(1)]] g perform_all_path by (intro exI [of _ g]) simp
qed

lemma perform_all_append:
  "perform_all opts (es @ fs) g = (case perform_all opts es g of None \<Rightarrow> None | Some h \<Rightarrow> perform_all opts fs h)"
  by (induction es arbitrary: g) (auto split: option.split)

theorem draining_ends_witness:
  "\<exists>h. work_path sample_options sample_start (sample_before @ sample_after) h \<and> state_of h = Closed \<and>
       length (filter (\<lambda>e. e = DrainRound) (sample_before @ sample_after)) \<le> 2"
proof -
  obtain g h where g: "perform_all sample_options sample_before sample_start = Some g"
    "perform_all sample_options sample_after g = Some h" "state_of h = Closed"
    using sample_middle by fastforce
  then have "work_path sample_options sample_start (sample_before @ sample_after) h"
    by (intro perform_all_path) (simp add: perform_all_append)
  then show ?thesis using draining_ends [OF sample_created] g(3) by blast
qed

end
