(* ===== verification/Csv_Export.thy ===== *)
theory Csv_Export
  imports History_Json
begin

text \<open>
  The CSV export of the API (\<open>workers/csv.ts\<close>) with the entity tags it answers conditional requests by
  (\<open>weakEtag\<close>, \<open>opaqueTag\<close> and \<open>ifNoneMatchSatisfied\<close> of \<open>workers/http.ts\<close>): the cells and their
  escaping, the whole body, the streamed body with its pulls, content negotiation, and the response.
  A row is a JSON tree; a column is looked up among the row's own properties.  SHA-256 of a text, as
  bytes, is an argument.
\<close>

section \<open>Cells\<close>

definition SPREADSHEET_FORMULA_PREFIX :: "char list" where
  "SPREADSHEET_FORMULA_PREFIX = [CHR ''='', CHR ''+'', CHR ''-'', CHR ''@'', CHR 0x09, CHR 0x0D, CHR 0x0A]"

definition stringifyCell :: "json \<Rightarrow> string" where
  "stringifyCell v =
     (if nullish v then []
      else case v of
             JArr xs \<Rightarrow>
               join_with '';''
                 (map (\<lambda>entry. case entry of
                         JVal x \<Rightarrow> if is_nullish x then [] else js_string entry
                       | _ \<Rightarrow> (case json_stringify entry of Some t \<Rightarrow> t | None \<Rightarrow> [])) xs)
           | JObj kvs \<Rightarrow> (case json_stringify v of Some t \<Rightarrow> t | None \<Rightarrow> [])
           | JVal x \<Rightarrow> js_string v)"

definition guard_formula :: "string \<Rightarrow> string" where
  "guard_formula t = (if t \<noteq> [] \<and> hd t \<in> set SPREADSHEET_FORMULA_PREFIX then CHR 0x27 # t else t)"

definition needs_quotes :: "string \<Rightarrow> bool" where
  "needs_quotes t \<longleftrightarrow> list_ex (\<lambda>c. c \<in> {CHR 0x22, CHR '','', CHR 0x0D, CHR 0x0A}) t"

definition double_quotes :: "string \<Rightarrow> string" where
  "double_quotes t = concat (map (\<lambda>c. if c = CHR 0x22 then [CHR 0x22, CHR 0x22] else [c]) t)"

definition escape_text :: "string \<Rightarrow> string" where
  "escape_text safeText = (if \<not> needs_quotes safeText then safeText else QUOTE @ double_quotes safeText @ QUOTE)"

definition escapeCell :: "json \<Rightarrow> string" where
  "escapeCell v = escape_text (guard_formula (stringifyCell v))"

section \<open>The body\<close>

definition row_keys :: "json \<Rightarrow> string list" where
  "row_keys row = (case row of JObj kvs \<Rightarrow> map fst kvs | _ \<Rightarrow> [])"

definition normalizeColumns :: "json list \<Rightarrow> string list option \<Rightarrow> string list" where
  "normalizeColumns rows columns =
     (case columns of
        Some (c # cs) \<Rightarrow> c # cs
      | _ \<Rightarrow> foldl (\<lambda>names key. if key \<in> set names then names else names @ [key]) [] (concat (map row_keys rows)))"

definition CRLF :: string where
  "CRLF = [CHR 0x0D, CHR 0x0A]"

definition row_cells :: "json \<Rightarrow> string list \<Rightarrow> json list" where
  "row_cells row header = map (\<lambda>column. case row of JObj _ \<Rightarrow> get_prop row column | _ \<Rightarrow> JUndef) header"

definition csvLineForRow :: "json \<Rightarrow> string list \<Rightarrow> string" where
  "csvLineForRow row header = join_with '','' (map escapeCell (row_cells row header))"

definition header_line :: "string list \<Rightarrow> string" where
  "header_line header = join_with '','' (map (\<lambda>c. escapeCell (JStr c)) header)"

definition rowsToCsv :: "json list \<Rightarrow> string list option \<Rightarrow> string" where
  "rowsToCsv rows columns =
     (let header = normalizeColumns rows columns
      in if header = [] then []
         else join_with CRLF (header_line header # map (\<lambda>row. csvLineForRow row header) rows))"

section \<open>The streamed body\<close>

definition CSV_STREAM_ROWS_PER_CHUNK :: nat where
  "CSV_STREAM_ROWS_PER_CHUNK = 128"

text \<open>The state the pulls share, and one pull: the chunk it enqueues, if any, and whether it closes.\<close>

record csv_stream =
  stream_index :: nat
  sentHeader :: bool

definition csv_pull :: "json list \<Rightarrow> string list \<Rightarrow> csv_stream \<Rightarrow> string option \<times> bool \<times> csv_stream" where
  "csv_pull rows header st =
     (if \<not> sentHeader st then
        (Some (if rows \<noteq> [] then header_line header @ CRLF else header_line header), rows = [], st\<lparr>sentHeader := True\<rparr>)
      else
        let chunk = take CSV_STREAM_ROWS_PER_CHUNK (drop (stream_index st) rows);
            index = stream_index st + length chunk;
            body = join_with CRLF (map (\<lambda>row. csvLineForRow row header) chunk);
            chunkText = (if index < length rows then body @ CRLF else body)
        in (if chunkText \<noteq> [] then Some chunkText else None, length rows \<le> index, st\<lparr>stream_index := index\<rparr>))"

text \<open>The consumer pulls until the stream is closed.\<close>

function pull_all :: "json list \<Rightarrow> string list \<Rightarrow> csv_stream \<Rightarrow> string list" where
  "pull_all rows header st =
     (case csv_pull rows header st of
        (chunk, finished, st') \<Rightarrow> (case chunk of Some t \<Rightarrow> [t] | None \<Rightarrow> []) @ (if finished then [] else pull_all rows header st'))"
  by pat_completeness auto
termination
  by (relation "measure (\<lambda>(rows, header, st). 2 * (length rows - stream_index st) + (if sentHeader st then 0 else 1))")
    (auto simp: csv_pull_def Let_def CSV_STREAM_ROWS_PER_CHUNK_def split: if_splits)

declare pull_all.simps [simp del]

definition csvBodyStream :: "json list \<Rightarrow> string list option \<Rightarrow> string list" where
  "csvBodyStream rows columns =
     (let header = normalizeColumns rows columns
      in if header = [] then [] else pull_all rows header \<lparr>stream_index = 0, sentHeader = False\<rparr>)"

section \<open>The file name\<close>

definition stem_char :: "char \<Rightarrow> bool" where
  "stem_char c \<longleftrightarrow>
     (let n = (of_char c :: nat)
      in 65 \<le> n \<and> n \<le> 90 \<or> 97 \<le> n \<and> n \<le> 122 \<or> 48 \<le> n \<and> n \<le> 57 \<or> c \<in> {CHR ''.'', CHR ''_'', CHR ''-''})"

text \<open>\<open>.replace(/[^A-Za-z0-9._-]+/g, "-")\<close>: each run of other characters becomes one hyphen.\<close>

fun hyphenate :: "bool \<Rightarrow> string \<Rightarrow> string" where
  "hyphenate in_run [] = []"
| "hyphenate in_run (c # cs) =
     (if stem_char c then c # hyphenate False cs
      else if in_run then hyphenate True cs else CHR ''-'' # hyphenate True cs)"

definition strip_hyphens :: "string \<Rightarrow> string" where
  "strip_hyphens s = rev (dropWhile (\<lambda>c. c = CHR ''-'') (rev (dropWhile (\<lambda>c. c = CHR ''-'') s)))"

definition drop_csv :: "string \<Rightarrow> string" where
  "drop_csv s = (let n = length s - 4 in if 4 \<le> length s \<and> lower (drop n s) = ''.csv'' then take n s else s)"

definition csvFilename :: "string option \<Rightarrow> string" where
  "csvFilename filename =
     (let name = (case filename of Some f \<Rightarrow> if f = [] then ''export'' else f | None \<Rightarrow> ''export'');
          stem = strip_hyphens (hyphenate False (drop_csv name))
      in (if stem = [] then ''export'' else stem) @ ''.csv'')"

section \<open>Negotiation\<close>

definition num_lt :: "jsnum \<Rightarrow> jsnum \<Rightarrow> bool" where
  "num_lt x y \<longleftrightarrow> num_le x y \<and> \<not> num_le y x"

definition num_max :: "jsnum \<Rightarrow> jsnum \<Rightarrow> jsnum" where
  "num_max x y = (if x = NaN \<or> y = NaN then NaN else if num_le x y then y else x)"

definition acceptQuality :: "string list \<Rightarrow> jsnum" where
  "acceptQuality ps =
     (case find (starts_with ''q='') ps of
        None \<Rightarrow> js_int 1
      | Some qParam \<Rightarrow>
          let q = string_to_number (drop 2 qParam)
          in if \<not> is_finite_num q then js_int 0
             else if num_lt q (js_int 0) \<or> num_lt (js_int 1) q then js_int 0 else q)"

definition accept_part :: "jsnum \<times> jsnum \<Rightarrow> string \<Rightarrow> jsnum \<times> jsnum" where
  "accept_part q part =
     (case map (\<lambda>v. lower (trim v)) (split_on CHR '';'' part) of
        [] \<Rightarrow> q
      | mediaType # ps \<Rightarrow>
          if mediaType = ''text/csv'' then (num_max (fst q) (acceptQuality ps), snd q)
          else if mediaType = ''application/json'' then (fst q, num_max (snd q) (acceptQuality ps))
          else q)"

definition acceptsCsv :: "string \<Rightarrow> bool" where
  "acceptsCsv header =
     (let (csvQuality, jsonQuality) = foldl accept_part (js_int 0, js_int 0) (split_on CHR '','' header)
      in num_lt (js_int 0) csvQuality \<and> num_le jsonQuality csvQuality)"

definition csvRequested :: "params \<Rightarrow> string option \<Rightarrow> bool" where
  "csvRequested ps accept =
     (let format = map_option lower (params_get ps ''format'')
      in if format = Some ''csv'' then True
         else if format = Some ''json'' then False
         else acceptsCsv (case accept of Some h \<Rightarrow> h | None \<Rightarrow> []))"

section \<open>Entity tags and the response\<close>

definition weakEtag :: "(string \<Rightarrow> nat list) \<Rightarrow> string \<Rightarrow> string" where
  "weakEtag sha256 body =
     ''W/'' @ QUOTE @ take 32 (concat (map (\<lambda>b. [hex_char (b div 16), hex_char (b mod 16)]) (sha256 body))) @ QUOTE"

definition opaqueTag :: "string \<Rightarrow> string" where
  "opaqueTag tag = (if starts_with ''W/'' tag then drop 2 tag else tag)"

record request =
  req_method :: string
  if_none_match :: "string option"

definition ifNoneMatchSatisfied :: "request \<Rightarrow> string option \<Rightarrow> bool" where
  "ifNoneMatchSatisfied req etag =
     (case (if_none_match req, etag) of
        (Some header, Some tag) \<Rightarrow>
          if header = [] \<or> tag = [] then False
          else list_ex (\<lambda>candidate. candidate = ''*'' \<or> opaqueTag candidate = opaqueTag tag)
                 (map trim (split_on CHR '','' header))
      | _ \<Rightarrow> False)"

datatype csv_body = NoBody | WholeBody string | StreamedBody "string list"

record csv_response =
  status :: nat
  disposition :: string
  etag :: "string option"
  body :: csv_body

definition csvResponse :: "(string \<Rightarrow> nat list) \<Rightarrow> json list \<Rightarrow> string option \<Rightarrow> request option \<Rightarrow> string list option \<Rightarrow> bool \<Rightarrow> csv_response" where
  "csvResponse sha256 rows filename req columns stream =
     (let disp = ''attachment; filename='' @ QUOTE @ csvFilename filename @ QUOTE;
          is_head = (case req of Some r \<Rightarrow> req_method r = ''HEAD'' | None \<Rightarrow> False);
          conditional = (case req of Some r \<Rightarrow> (case if_none_match r of Some h \<Rightarrow> h \<noteq> [] | None \<Rightarrow> False) | None \<Rightarrow> False)
      in if stream \<and> \<not> is_head \<and> \<not> conditional then
           \<lparr>status = 200, disposition = disp, etag = None, body = StreamedBody (csvBodyStream rows columns)\<rparr>
         else let text = rowsToCsv rows columns; tag = weakEtag sha256 text
              in if (case req of Some r \<Rightarrow> ifNoneMatchSatisfied r (Some tag) | None \<Rightarrow> False)
                 then \<lparr>status = 304, disposition = disp, etag = Some tag, body = NoBody\<rparr>
                 else \<lparr>status = 200, disposition = disp, etag = Some tag,
                       body = (if is_head then NoBody else WholeBody text)\<rparr>)"

section \<open>Reading CSV\<close>

text \<open>
  A reader of the format: fields are separated by commas and records by line ends; a field that starts
  with a quote ends at the next quote that is not doubled, any other at a comma or a line end.
\<close>

fun read_quoted :: "string \<Rightarrow> string \<times> string" where
  "read_quoted [] = ([], [])"
| "read_quoted (c # cs) =
     (if c = CHR 0x22 then
        (case cs of
           d # ds \<Rightarrow> if d = CHR 0x22 then (case read_quoted ds of (t, r) \<Rightarrow> (CHR 0x22 # t, r)) else ([], cs)
         | [] \<Rightarrow> ([], []))
      else (case read_quoted cs of (t, r) \<Rightarrow> (c # t, r)))"

definition plain_char :: "char \<Rightarrow> bool" where
  "plain_char c \<longleftrightarrow> c \<notin> {CHR '','', CHR 0x0D, CHR 0x0A}"

definition read_field :: "string \<Rightarrow> string \<times> string" where
  "read_field s =
     (case s of
        c # cs \<Rightarrow> if c = CHR 0x22 then read_quoted cs else (takeWhile plain_char s, dropWhile plain_char s)
      | [] \<Rightarrow> ([], []))"

lemma read_quoted_length: "length (snd (read_quoted s)) \<le> length s"
proof (induction s rule: read_quoted.induct)
  case (2 c cs)
  show ?case
  proof (cases "c = CHR 0x22")
    case True
    show ?thesis
    proof (cases cs)
      case (Cons d ds)
      have "d = CHR 0x22 \<Longrightarrow> length (snd (read_quoted ds)) \<le> length ds" using 2(1) True Cons by blast
      then show ?thesis using True Cons by (auto simp: case_prod_beta)
    qed (simp add: True)
  next
    case False
    then show ?thesis using 2(2) by (simp add: case_prod_beta)
  qed
qed simp

lemma read_field_length: "length (snd (read_field s)) \<le> length s"
proof (cases s)
  case (Cons c cs)
  show ?thesis
    using read_quoted_length [of cs] length_dropWhile_le [of plain_char s] unfolding Cons by (simp add: read_field_def)
qed (simp add: read_field_def)

function read_csv :: "string \<Rightarrow> string list list" where
  "read_csv s =
     (case read_field s of
        (field, r) \<Rightarrow>
          (case r of
             [] \<Rightarrow> [[field]]
           | c # r' \<Rightarrow>
               if c = CHR '','' then (case read_csv r' of [] \<Rightarrow> [[field]] | rec # recs \<Rightarrow> (field # rec) # recs)
               else [field] # read_csv (if c = CHR 0x0D \<and> r' \<noteq> [] \<and> hd r' = CHR 0x0A then tl r' else r')))"
  by pat_completeness auto
termination
proof (relation "measure length")
  fix s field r c r'
  assume *: "(field, r) = read_field s" "r = c # r'"
  then have l: "length r' < length s" using read_field_length [of s] by (metis Suc_le_eq length_Cons snd_conv)
  show "(r', s) \<in> measure length" using l by simp
  show "(if c = CHR 0x0D \<and> r' \<noteq> [] \<and> hd r' = CHR 0x0A then tl r' else r', s) \<in> measure length"
    using l by (cases r') auto
qed simp

declare read_csv.simps [simp del]

lemma read_quoted_doubled: "r = [] \<or> hd r \<noteq> CHR 0x22 \<Longrightarrow> read_quoted (double_quotes t @ CHR 0x22 # r) = (t, r)"
proof (induction t)
  case Nil
  then show ?case by (cases r) (simp_all add: double_quotes_def)
next
  case (Cons c t)
  then show ?case by (simp add: double_quotes_def)
qed

lemma read_field_escaped:
  assumes "r = [] \<or> \<not> plain_char (hd r)"
  shows "read_field (escape_text t @ r) = (t, r)"
proof (cases "needs_quotes t")
  case True
  have "r = [] \<or> hd r \<noteq> CHR 0x22" using assms(1) by (auto simp: plain_char_def)
  from read_quoted_doubled [OF this] show ?thesis
    using True by (simp add: escape_text_def read_field_def QUOTE_def)
next
  case False
  then have plain: "list_all plain_char t" "CHR 0x22 \<notin> set t"
    by (auto simp: needs_quotes_def list_ex_iff list_all_iff plain_char_def)
  then have t: "takeWhile plain_char (t @ r) = t" "dropWhile plain_char (t @ r) = r"
    using assms(1) by (cases r; auto simp: list_all_iff takeWhile_append dropWhile_append)+
  show ?thesis
  proof (cases t)
    case Nil
    then show ?thesis using assms(1) t by (cases r) (auto simp: escape_text_def needs_quotes_def read_field_def plain_char_def)
  next
    case (Cons c cs)
    then have "c \<noteq> CHR 0x22" using plain(2) by auto
    then show ?thesis using t Cons False by (simp add: escape_text_def read_field_def)
  qed
qed

lemma read_csv_record:
  assumes "ts \<noteq> []" and "r = [] \<or> (\<exists>r'. r = CRLF @ r')"
  shows "read_csv (join_with '','' (map escape_text ts) @ r) = (if r = [] then [ts] else ts # read_csv (drop 2 r))"
  using assms(1)
proof (induction ts rule: list_nonempty_induct)
  case (single t)
  have "read_field (escape_text t @ r) = (t, r)"
    using assms(2) by (intro read_field_escaped) (auto simp: CRLF_def plain_char_def)
  then show ?case using assms(2) by (subst read_csv.simps) (auto simp: CRLF_def)
next
  case (cons t ts)
  obtain u us where ts: "ts = u # us" using cons(1) by (cases ts) auto
  have "read_field (escape_text t @ CHR '','' # join_with '','' (map escape_text ts) @ r) =
      (t, CHR '','' # join_with '','' (map escape_text ts) @ r)"
    by (intro read_field_escaped) (auto simp: plain_char_def)
  then show ?case using cons(2) ts by (subst read_csv.simps) simp
qed

lemma read_csv_records:
  assumes "tss \<noteq> []" and "\<forall>ts\<in>set tss. ts \<noteq> []"
  shows "read_csv (join_with CRLF (map (\<lambda>ts. join_with '','' (map escape_text ts)) tss)) = tss"
  using assms
proof (induction tss rule: list_nonempty_induct)
  case (single ts)
  then show ?case using read_csv_record [of ts "[]"] by simp
next
  case (cons ts tss)
  obtain us uss where tss: "tss = us # uss" using cons(1) by (cases tss) auto
  show ?case
    using read_csv_record [of ts "CRLF @ join_with CRLF (map (\<lambda>ts. join_with '','' (map escape_text ts)) tss)"] cons tss
    by (simp add: CRLF_def)
qed

section \<open>The stream\<close>

lemma join_with_append:
  "xs \<noteq> [] \<Longrightarrow> ys \<noteq> [] \<Longrightarrow> join_with sep (xs @ ys) = join_with sep xs @ sep @ join_with sep ys"
proof (induction sep xs rule: join_with.induct)
  case (2 sep s)
  then show ?case by (cases ys) auto
qed auto

abbreviation row_lines :: "json list \<Rightarrow> string list \<Rightarrow> string list" where
  "row_lines rows header \<equiv> map (\<lambda>row. csvLineForRow row header) rows"

lemma pull_rows:
  "stream_index st < length rows \<Longrightarrow> sentHeader st \<Longrightarrow>
   concat (pull_all rows header st) = join_with CRLF (row_lines (drop (stream_index st) rows) header)"
proof (induction rows header st rule: pull_all.induct)
  case (1 rows header st)
  define i where "i = stream_index st"
  define chunk where "chunk = take CSV_STREAM_ROWS_PER_CHUNK (drop i rows)"
  have ne: "chunk \<noteq> []" using 1(2) by (simp add: chunk_def i_def CSV_STREAM_ROWS_PER_CHUNK_def)
  have split: "drop i rows = chunk @ drop (i + length chunk) rows"
    unfolding chunk_def by (simp add: min_def add.commute drop_drop [symmetric] del: drop_drop) (metis append_take_drop_id drop_drop drop_all le_cases append_Nil2 add.commute)
  have pull: "csv_pull rows header st =
      (let body = join_with CRLF (row_lines chunk header);
           chunkText = (if i + length chunk < length rows then body @ CRLF else body)
       in (if chunkText \<noteq> [] then Some chunkText else None, length rows \<le> i + length chunk,
           st\<lparr>stream_index := i + length chunk\<rparr>))"
    using 1(3) by (simp add: csv_pull_def chunk_def i_def Let_def)
  show ?case
  proof (cases "i + length chunk < length rows")
    case True
    have "concat (pull_all rows header (st\<lparr>stream_index := i + length chunk\<rparr>)) =
        join_with CRLF (row_lines (drop (i + length chunk) rows) header)"
      using 1(1) [OF pull [unfolded Let_def, symmetric] refl] True 1(3) by simp
    moreover have "drop (i + length chunk) rows \<noteq> []" using True by simp
    ultimately show ?thesis
      using True ne split join_with_append [of "row_lines chunk header" "row_lines (drop (i + length chunk) rows) header" CRLF]
      by (subst pull_all.simps) (simp add: pull Let_def i_def [symmetric] CRLF_def)
  next
    case False
    then have "drop i rows = chunk" using split by simp
    then show ?thesis using False by (subst pull_all.simps) (simp add: pull Let_def i_def [symmetric])
  qed
qed

lemma stream_is_body: "concat (csvBodyStream rows columns) = rowsToCsv rows columns"
proof (cases "normalizeColumns rows columns = []")
  case False
  let ?h = "normalizeColumns rows columns"
  show ?thesis
  proof (cases rows)
    case Nil
    then show ?thesis
      using False by (simp add: csvBodyStream_def rowsToCsv_def Let_def) (subst pull_all.simps, simp add: csv_pull_def)
  next
    case (Cons row rest)
    then have "concat (pull_all rows ?h \<lparr>stream_index = 0, sentHeader = True\<rparr>) = join_with CRLF (row_lines rows ?h)"
      using pull_rows [of "\<lparr>stream_index = 0, sentHeader = True\<rparr>" rows ?h] by simp
    then show ?thesis
      using False Cons by (simp add: csvBodyStream_def rowsToCsv_def Let_def) (subst pull_all.simps, simp add: csv_pull_def)
  qed
qed (simp add: csvBodyStream_def rowsToCsv_def)

section \<open>The file name\<close>

lemma hyphenate_chars: "c \<in> set (hyphenate b s) \<Longrightarrow> stem_char c"
  by (induction b s rule: hyphenate.induct) (auto simp: stem_char_def split: if_splits)

lemma csvFilename_chars: "c \<in> set (csvFilename f) \<Longrightarrow> stem_char c"
proof -
  assume c: "c \<in> set (csvFilename f)"
  have lits: "c \<in> set ''export'' \<union> set ''.csv'' \<Longrightarrow> stem_char c" by (auto simp: stem_char_def)
  show ?thesis
  proof (cases "c \<in> set ''export'' \<union> set ''.csv''")
    case False
    then show ?thesis
      using c by (auto simp: csvFilename_def Let_def strip_hyphens_def dest!: set_dropWhileD hyphenate_chars split: if_splits)
  qed (rule lits)
qed

section \<open>Properties\<close>

lemma stringify_text: "stringifyCell (JStr s) = s"
  by (simp add: stringifyCell_def nullish_def)

lemma guarded: "t = guard_formula u \<Longrightarrow> t = [] \<or> hd t \<notin> set SPREADSHEET_FORMULA_PREFIX"
  by (auto simp: guard_formula_def SPREADSHEET_FORMULA_PREFIX_def)

text \<open>
  C25. A CSV export reads back as the table it was made from: the first record is the columns, and each
  row gives the texts of its cells under them, whatever commas, quotes and line ends they hold; a text
  that a spreadsheet would take for a formula has an apostrophe put before it and no other text is
  changed, so no field a reader sees starts a formula.
\<close>
theorem csv_reads_back:
  assumes "normalizeColumns rows columns = header" and "header \<noteq> []"
  shows "read_csv (rowsToCsv rows columns) =
           map guard_formula header # map (\<lambda>row. map (\<lambda>v. guard_formula (stringifyCell v)) (row_cells row header)) rows \<and>
         (\<forall>fields\<in>set (read_csv (rowsToCsv rows columns)). \<forall>field\<in>set fields.
            field = [] \<or> hd field \<notin> set SPREADSHEET_FORMULA_PREFIX)"
proof -
  let ?table = "map guard_formula header # map (\<lambda>row. map (\<lambda>v. guard_formula (stringifyCell v)) (row_cells row header)) rows"
  have "rowsToCsv rows columns = join_with CRLF (map (\<lambda>ts. join_with '','' (map escape_text ts)) ?table)"
    using assms by (simp add: rowsToCsv_def Let_def header_line_def csvLineForRow_def escapeCell_def [abs_def] stringify_text
        comp_def)
  moreover have "\<forall>ts\<in>set ?table. ts \<noteq> []" using assms(2) by (auto simp: row_cells_def)
  ultimately have r: "read_csv (rowsToCsv rows columns) = ?table" using read_csv_records [of ?table] by simp
  have "\<forall>fields\<in>set ?table. \<forall>field\<in>set fields. \<exists>u. field = guard_formula u" by auto
  then show ?thesis unfolding r using guarded by blast
qed

text \<open>
  What a client receives does not depend on how it is sent: a streamed response gives, chunk after
  chunk, exactly the text of the whole body; a conditional request is answered with 304 and no body only
  when a tag it names is that of the current text; and the file name of every response is made of
  letters, digits, dots, hyphens and underscores alone.
\<close>
theorem csv_response_faithful:
  shows "(case body (csvResponse sha256 rows filename req columns stream) of
            StreamedBody chunks \<Rightarrow> concat chunks = rowsToCsv rows columns
          | WholeBody text \<Rightarrow> text = rowsToCsv rows columns
          | NoBody \<Rightarrow> (\<exists>r. req = Some r \<and> (req_method r = ''HEAD'' \<or> if_none_match r \<noteq> None))) \<and>
         (status (csvResponse sha256 rows filename req columns stream) = 304 \<longleftrightarrow>
            (\<exists>r. req = Some r \<and> ifNoneMatchSatisfied r (Some (weakEtag sha256 (rowsToCsv rows columns))))) \<and>
         (\<exists>name. disposition (csvResponse sha256 rows filename req columns stream) =
            ''attachment; filename='' @ QUOTE @ name @ QUOTE \<and> list_all stem_char name)"
  (is "?b \<and> ?s \<and> ?d")
proof (intro conjI)
  have inm: "if_none_match r \<noteq> None \<and> the (if_none_match r) \<noteq> []" if "ifNoneMatchSatisfied r t" for r t
    using that by (auto simp: ifNoneMatchSatisfied_def split: option.splits if_splits)
  show ?b
    using stream_is_body inm by (auto simp: csvResponse_def Let_def split: option.split)
  show ?s
  proof (cases req)
    case (Some r)
    let ?t = "Some (weakEtag sha256 (rowsToCsv rows columns))"
    show ?thesis
      using inm [of r ?t] by (cases "ifNoneMatchSatisfied r ?t") (auto simp: Some csvResponse_def Let_def split: option.split)
  qed (simp add: csvResponse_def Let_def)
  show ?d
    using csvFilename_chars by (intro exI [of _ "csvFilename filename"]) (simp add: csvResponse_def Let_def list_all_iff)
qed

theorem csv_response_faithful_witness:
  "\<exists>chunks. body (csvResponse (\<lambda>_. []) [JObj [(''a'', JNull)]] None None None True) = StreamedBody chunks \<and>
     concat chunks = rowsToCsv [JObj [(''a'', JNull)]] None"
proof -
  let ?r = "csvResponse (\<lambda>_. []) [JObj [(''a'', JNull)]] None None None True"
  obtain chunks where c: "body ?r = StreamedBody chunks" by (simp add: csvResponse_def)
  from csv_response_faithful [where ?sha256.0 = "\<lambda>_. []" and rows = "[JObj [(''a'', JNull)]]" and filename = None and req = None and columns = None and stream = True] c show ?thesis by simp
qed

theorem csv_reads_back_witness:
  "read_csv (rowsToCsv [JObj [(''a'', JStr ''=1''), (''b'', JStr (''x,'' @ QUOTE))], JObj [(''b'', JNull)]] None) =
     [[''a'', ''b''], [CHR 0x27 # ''=1'', ''x,'' @ QUOTE], [[], []]]"
proof -
  let ?rows = "[JObj [(''a'', JStr ''=1''), (''b'', JStr (''x,'' @ QUOTE))], JObj [(''b'', JNull)]]"
  have h: "normalizeColumns ?rows None = [''a'', ''b'']" by (simp add: normalizeColumns_def row_keys_def)
  have g: "guard_formula ''a'' = ''a''" "guard_formula ''b'' = ''b''" "guard_formula ''=1'' = CHR 0x27 # ''=1''"
    "guard_formula (''x,'' @ QUOTE) = ''x,'' @ QUOTE" "guard_formula [] = []"
    by (simp_all add: guard_formula_def SPREADSHEET_FORMULA_PREFIX_def)
  have c: "map (\<lambda>v. guard_formula (stringifyCell v)) (row_cells (JObj [(''a'', JStr ''=1''), (''b'', JStr (''x,'' @ QUOTE))]) [''a'', ''b'']) =
      [CHR 0x27 # ''=1'', ''x,'' @ QUOTE]"
    "map (\<lambda>v. guard_formula (stringifyCell v)) (row_cells (JObj [(''b'', JNull)]) [''a'', ''b'']) = [[], []]"
    using g by (simp_all add: row_cells_def stringify_text) (simp_all add: stringifyCell_def nullish_def)
  show ?thesis using csv_reads_back [OF h] g c by simp
qed

lemma accept_part_csv: "fst (accept_part q part) \<noteq> fst q \<Longrightarrow> lower (trim (hd (split_on CHR '';'' part))) = ''text/csv''"
  by (cases "split_on CHR '';'' part") (auto simp: accept_part_def split: if_splits)

text \<open>CSV is sent only when the request names it, by its format or among the media types it accepts.\<close>

lemma csv_only_when_named:
  assumes "csvRequested ps accept"
  shows "map_option lower (params_get ps ''format'') = Some ''csv'' \<or>
         (\<exists>h. accept = Some h \<and> (\<exists>part\<in>set (split_on CHR '','' h). lower (trim (hd (split_on CHR '';'' part))) = ''text/csv''))"
proof (cases "map_option lower (params_get ps ''format'') = Some ''csv''")
  case False
  then have a: "acceptsCsv (case accept of Some h \<Rightarrow> h | None \<Rightarrow> [])"
    using assms by (auto simp: csvRequested_def Let_def split: if_splits)
  have keep: "fst (foldl accept_part q parts) = fst q"
    if "\<forall>part\<in>set parts. lower (trim (hd (split_on CHR '';'' part))) \<noteq> ''text/csv''" for q parts
    using that by (induction parts arbitrary: q) (auto dest: accept_part_csv)
  have "\<exists>part\<in>set (split_on CHR '','' h). lower (trim (hd (split_on CHR '';'' part))) = ''text/csv''"
    if "acceptsCsv h" for h
  proof (rule ccontr)
    assume "\<not> ?thesis"
    then have "fst (foldl accept_part (js_int 0, js_int 0) (split_on CHR '','' h)) = js_int 0" by (subst keep) auto
    then show False using that by (auto simp: acceptsCsv_def num_lt_def case_prod_beta)
  qed
  with a show ?thesis
    by (cases accept) (auto simp: acceptsCsv_def num_lt_def accept_part_def trim_def lower_def js_int_def)
qed simp

end
