(* ===== verification/Alert_Triggers.thy ===== *)
theory Alert_Triggers
  imports Ip_Safety
begin

text \<open>
  Chain alert triggers (\<open>src/alert-triggers.ts\<close>): the check of a request body, the shapes a stored
  trigger is handed out in, and the evaluation of a trigger against one event.  The URL parser is
  the argument of the public-URL guard.  A row of \<open>chain_alert_triggers\<close> is taken as the consumers
  receive it, its JSON columns parsed and \<open>active\<close> a boolean.
\<close>

section \<open>Data\<close>

record AlertConditionInput =
  cond_metric :: string
  cond_operator :: string
  cond_threshold :: jsnum

record trigger_fields =
  tr_name :: "string option"
  tr_tableFilter :: "string list option"
  tr_netuid :: "jsnum option"
  tr_eventKind :: "string option"
  tr_account :: "string option"
  tr_minAmountTao :: "jsnum option"
  tr_condition :: "AlertConditionInput option"
  tr_channel :: string
  tr_destination :: string

record AlertTriggerValidated = trigger_fields +
  tr_active :: bool

record EvaluatorAlertTrigger = trigger_fields +
  tr_id :: string

record AlertTriggerRow = AlertTriggerValidated +
  row_id :: nat
  row_owner_token :: string
  row_owner_ss58 :: "string option"
  row_created_at :: jsnum
  row_updated_at :: jsnum
  row_last_matched_at :: "jsnum option"
  row_match_count :: nat

definition ALERT_CHANNELS :: "string list" where
  "ALERT_CHANNELS = [''webhook'', ''email'', ''telegram'', ''discord'', ''webpush'']"

definition ALERT_CONDITION_METRICS :: "string list" where
  "ALERT_CONDITION_METRICS = [''subnet_alpha_price_rank'', ''neuron_immunity_countdown_blocks'']"

definition ALERT_CONDITION_OPERATORS :: "string list" where
  "ALERT_CONDITION_OPERATORS = [''lt'', ''lte'', ''gt'', ''gte'', ''eq'']"

definition CHAIN_FIREHOSE_TABLES :: "string list" where
  "CHAIN_FIREHOSE_TABLES = [''blocks'', ''extrinsics'', ''chain_events'', ''account_events'']"

definition MAX_NAME_LENGTH :: nat where "MAX_NAME_LENGTH = 128"
definition MAX_ACCOUNT_LENGTH :: nat where "MAX_ACCOUNT_LENGTH = 64"
definition MAX_EVENT_KIND_LENGTH :: nat where "MAX_EVENT_KIND_LENGTH = 64"
definition MAX_DESTINATION_LENGTH :: nat where "MAX_DESTINATION_LENGTH = 512"
definition MIN_AMOUNT_TAO_CEILING :: jsnum where "MIN_AMOUNT_TAO_CEILING = js_int 1000000000"
definition MAX_EMAIL_LENGTH :: nat where "MAX_EMAIL_LENGTH = 254"

section \<open>Destinations\<close>

text \<open>\<open>/^[^\s@]+@[^\s@]+\.[^\s@]+$/\<close>: one at sign, no white space, and a dot inside the domain.\<close>

definition EMAIL_PATTERN :: "string \<Rightarrow> bool" where
  "EMAIL_PATTERN s =
     (case split_on CHR ''@'' s of
        [local_part, domain] \<Rightarrow>
          local_part \<noteq> [] \<and> list_all (\<lambda>c. \<not> is_space c) local_part \<and>
          list_all (\<lambda>c. \<not> is_space c) domain \<and> CHR ''.'' \<in> set (butlast (tl domain))
      | _ \<Rightarrow> False)"

definition word_char :: "char \<Rightarrow> bool" where
  "word_char c \<longleftrightarrow>
     (let n = (of_char c :: nat) in is_digit c \<or> 97 \<le> n \<and> n \<le> 122 \<or> 65 \<le> n \<and> n \<le> 90 \<or> c = CHR ''_'')"

text \<open>\<open>/^(-?\d{1,15}|@[A-Za-z0-9_]{5,32})$/\<close>\<close>

definition TELEGRAM_CHAT_ID_PATTERN :: "string \<Rightarrow> bool" where
  "TELEGRAM_CHAT_ID_PATTERN s =
     (let ds = (case s of c # r \<Rightarrow> if c = CHR ''-'' then r else s | [] \<Rightarrow> s)
      in (all_digits ds \<and> length ds \<le> 15) \<or>
         (case s of
            c # r \<Rightarrow> c = CHR ''@'' \<and> list_all word_char r \<and> 5 \<le> length r \<and> length r \<le> 32
          | [] \<Rightarrow> False))"

text \<open>\<open>/^https:\/\/(?:canary\.|ptb\.)?discord(?:app)?\.com\/api\/webhooks\/\d+\/[\w-]+$/\<close>\<close>

definition DISCORD_HEADS :: "string list" where
  "DISCORD_HEADS =
     [''https://'' @ sub @ ''discord'' @ app @ ''.com/api/webhooks/''.
        sub \<leftarrow> [''canary.'', ''ptb.'', []], app \<leftarrow> [''app'', []]]"

definition discord_tail :: "string \<Rightarrow> bool" where
  "discord_tail s =
     (takeWhile is_digit s \<noteq> [] \<and>
      (case dropWhile is_digit s of
         c # r \<Rightarrow> c = CHR ''/'' \<and> r \<noteq> [] \<and> list_all (\<lambda>d. word_char d \<or> d = CHR ''-'') r
       | [] \<Rightarrow> False))"

definition DISCORD_WEBHOOK_PATTERN :: "string \<Rightarrow> bool" where
  "DISCORD_WEBHOOK_PATTERN s =
     list_ex (\<lambda>h. starts_with h s \<and> discord_tail (drop (length h) s)) DISCORD_HEADS"

definition isValidAlertDestination :: "(string \<Rightarrow> url option) \<Rightarrow> json \<Rightarrow> json \<Rightarrow> bool" where
  "isValidAlertDestination parse channel destination =
     (case destination of
        JVal (VStr d) \<Rightarrow>
          if d = [] then False
          else if MAX_DESTINATION_LENGTH < length d then False
          else if channel = JStr ''webhook'' then isPublicWebhookUrl parse d
          else if channel = JStr ''discord'' then DISCORD_WEBHOOK_PATTERN d
          else if channel = JStr ''email'' then length d \<le> MAX_EMAIL_LENGTH \<and> EMAIL_PATTERN d
          else if channel = JStr ''telegram'' then TELEGRAM_CHAT_ID_PATTERN d
          else if channel = JStr ''webpush'' then isPublicWebhookUrl parse d
          else False
      | _ \<Rightarrow> False)"

section \<open>Checking a request body\<close>

text \<open>The body of a create or update request is checked field by field; an error is its message.\<close>

definition and_then :: "'e + 'a \<Rightarrow> ('a \<Rightarrow> 'e + 'b) \<Rightarrow> 'e + 'b" where
  "and_then r f = (case r of Inl e \<Rightarrow> Inl e | Inr v \<Rightarrow> f v)"

lemma and_then_simps [simp]: "and_then (Inl e) f = Inl e" "and_then (Inr v) f = f v"
  by (simp_all add: and_then_def)

lemma and_then_Inr: "and_then r f = Inr y \<longleftrightarrow> (\<exists>v. r = Inr v \<and> f v = Inr y)"
  by (cases r) simp_all

definition TICK :: string where "TICK = [CHR 0x60]"

definition in_set :: "string list \<Rightarrow> json \<Rightarrow> bool" where
  "in_set vs v = (case v of JVal (VStr s) \<Rightarrow> s \<in> set vs | _ \<Rightarrow> False)"

definition the_str :: "json \<Rightarrow> string" where
  "the_str v = (case v of JVal (VStr s) \<Rightarrow> s | _ \<Rightarrow> [])"

definition validateAlertCondition :: "json \<Rightarrow> string + AlertConditionInput option" where
  "validateAlertCondition v =
     (case v of
        JVal VUndef \<Rightarrow> Inr None
      | JObj _ \<Rightarrow>
          if \<not> in_set ALERT_CONDITION_METRICS (get_prop v ''metric'') then
            Inl (TICK @ ''condition.metric'' @ TICK @ '' must be one of: '' @ join_with '', '' ALERT_CONDITION_METRICS @ ''.'')
          else if \<not> in_set ALERT_CONDITION_OPERATORS (get_prop v ''operator'') then
            Inl (TICK @ ''condition.operator'' @ TICK @ '' must be one of: '' @ join_with '', '' ALERT_CONDITION_OPERATORS @ ''.'')
          else (case get_prop v ''threshold'' of
                  JVal (VNum n) \<Rightarrow>
                    if is_finite_num n then
                      Inr (Some \<lparr>cond_metric = the_str (get_prop v ''metric''),
                                 cond_operator = the_str (get_prop v ''operator''), cond_threshold = n\<rparr>)
                    else Inl (TICK @ ''condition.threshold'' @ TICK @ '' must be a finite number.'')
                | _ \<Rightarrow> Inl (TICK @ ''condition.threshold'' @ TICK @ '' must be a finite number.''))
      | _ \<Rightarrow> Inl (TICK @ ''condition'' @ TICK @ '', when provided, must be an object.''))"

definition name_field :: "json \<Rightarrow> string + string option" where
  "name_field v =
     (let error = Inl (TICK @ ''name'' @ TICK @ '', when provided, must be a string up to '' @
                       string_of_nat MAX_NAME_LENGTH @ '' characters.'')
      in case v of
           JVal VUndef \<Rightarrow> Inr None
         | JVal (VStr s) \<Rightarrow> if MAX_NAME_LENGTH < length s then error else Inr (Some s)
         | _ \<Rightarrow> error)"

definition table_filter_field :: "json \<Rightarrow> string + string list option" where
  "table_filter_field v =
     (let error = Inl (TICK @ ''table_filter'' @ TICK @ '', when provided, must be a non-empty array drawn from '' @
                       join_with '', '' CHAIN_FIREHOSE_TABLES @ ''.'')
      in case v of
           JVal VUndef \<Rightarrow> Inr None
         | JArr xs \<Rightarrow>
             if xs = [] \<or> \<not> list_all (in_set CHAIN_FIREHOSE_TABLES) xs then error
             else Inr (Some (first_seen the_str xs))
         | _ \<Rightarrow> error)"

definition netuid_field :: "json \<Rightarrow> string + jsnum option" where
  "netuid_field v =
     (let error = Inl (TICK @ ''netuid'' @ TICK @ '', when provided, must be an integer 0-65535.'')
      in case v of
           JVal VUndef \<Rightarrow> Inr None
         | JVal (VNum n) \<Rightarrow>
             if \<not> is_integer_num n \<or> num_int n < 0 \<or> 65535 < num_int n then error else Inr (Some n)
         | _ \<Rightarrow> error)"

text \<open>\<open>event_kind\<close> and \<open>account\<close> are checked alike.\<close>

definition text_field :: "string \<Rightarrow> nat \<Rightarrow> json \<Rightarrow> string + string option" where
  "text_field field limit v =
     (let error = Inl (TICK @ field @ TICK @ '', when provided, must be a non-empty string up to '' @
                       string_of_nat limit @ '' characters.'')
      in case v of
           JVal VUndef \<Rightarrow> Inr None
         | JVal (VStr s) \<Rightarrow> if s = [] \<or> limit < length s then error else Inr (Some s)
         | _ \<Rightarrow> error)"

definition min_amount_field :: "json \<Rightarrow> string + jsnum option" where
  "min_amount_field v =
     (let error = Inl (TICK @ ''min_amount_tao'' @ TICK @ '', when provided, must be a non-negative finite number.'')
      in case v of
           JVal VUndef \<Rightarrow> Inr None
         | JVal (VNum n) \<Rightarrow>
             if \<not> is_finite_num n \<or> \<not> num_le (Fin 0) n \<or> \<not> num_le n MIN_AMOUNT_TAO_CEILING then error
             else Inr (Some n)
         | _ \<Rightarrow> error)"

definition active_field :: "json \<Rightarrow> string + bool" where
  "active_field v =
     (case v of
        JVal VUndef \<Rightarrow> Inr True
      | JVal (VBool b) \<Rightarrow> Inr b
      | _ \<Rightarrow> Inl (TICK @ ''active'' @ TICK @ '', when provided, must be a boolean.''))"

definition text_given :: "string option \<Rightarrow> bool" where
  "text_given v = (case v of None \<Rightarrow> False | Some s \<Rightarrow> s \<noteq> [])"

definition validateAlertTriggerInput :: "(string \<Rightarrow> url option) \<Rightarrow> json \<Rightarrow> string + AlertTriggerValidated" where
  "validateAlertTriggerInput parse body =
     (case body of
        JObj _ \<Rightarrow>
          if \<not> in_set ALERT_CHANNELS (get_prop body ''channel'') then
            Inl (TICK @ ''channel'' @ TICK @ '' must be one of '' @ join_with '', '' ALERT_CHANNELS @ ''.'')
          else if \<not> isValidAlertDestination parse (get_prop body ''channel'') (get_prop body ''destination'') then
            Inl (TICK @ ''destination'' @ TICK @ '' is not a valid '' @ js_string (get_prop body ''channel'') @ '' target.'')
          else
            and_then (name_field (get_prop body ''name'')) (\<lambda>name.
            and_then (table_filter_field (get_prop body ''table_filter'')) (\<lambda>tableFilter.
            and_then (netuid_field (get_prop body ''netuid'')) (\<lambda>netuid.
            and_then (text_field ''event_kind'' MAX_EVENT_KIND_LENGTH (get_prop body ''event_kind'')) (\<lambda>eventKind.
            and_then (text_field ''account'' MAX_ACCOUNT_LENGTH (get_prop body ''account'')) (\<lambda>account.
            and_then (min_amount_field (get_prop body ''min_amount_tao'')) (\<lambda>minAmountTao.
            and_then (validateAlertCondition (get_prop body ''condition'')) (\<lambda>condition.
            and_then (active_field (get_prop body ''active'')) (\<lambda>active.
              if netuid = None \<and> \<not> text_given eventKind \<and> \<not> text_given account \<and> minAmountTao = None \<and> condition = None
              then Inl ''At least one of netuid, event_kind, account, min_amount_tao, or condition is required.''
              else Inr \<lparr>tr_name = name, tr_tableFilter = tableFilter, tr_netuid = netuid, tr_eventKind = eventKind,
                        tr_account = account, tr_minAmountTao = minAmountTao, tr_condition = condition,
                        tr_channel = the_str (get_prop body ''channel''),
                        tr_destination = the_str (get_prop body ''destination''), tr_active = active\<rparr>))))))))
      | _ \<Rightarrow> Inl ''Request body must be a JSON object.'')"

section \<open>Matching an event\<close>

definition num_lt :: "jsnum \<Rightarrow> jsnum \<Rightarrow> bool" where
  "num_lt x y \<longleftrightarrow> num_le x y \<and> \<not> num_le y x"

definition compareAlertCondition :: "jsnum \<Rightarrow> string \<Rightarrow> jsnum \<Rightarrow> bool" where
  "compareAlertCondition v operator threshold =
     (if operator = ''lt'' then num_lt v threshold
      else if operator = ''lte'' then num_le v threshold
      else if operator = ''gt'' then num_lt threshold v
      else if operator = ''gte'' then num_le threshold v
      else if operator = ''eq'' then v = threshold \<and> v \<noteq> NaN
      else False)"

text \<open>
  A snapshot's maps as the lists of their entries.  A key that is an object is never found: it is
  looked up by identity and the payload is a fresh value.
\<close>

record AlertMetricSnapshot =
  subnetAlphaPriceRank :: "(jsval \<times> json) list option"
  neuronImmunityCountdownBlocks :: "(jsval \<times> json) list option"

definition snapshot_get :: "(jsval \<times> json) list option \<Rightarrow> json \<Rightarrow> json" where
  "snapshot_get m k =
     (case m of
        None \<Rightarrow> JUndef
      | Some entries \<Rightarrow>
          (case k of
             JVal v \<Rightarrow> (case map_of entries v of Some x \<Rightarrow> x | None \<Rightarrow> JUndef)
           | _ \<Rightarrow> JUndef))"

definition as_number :: "json \<Rightarrow> jsnum option" where
  "as_number v = (case v of JVal (VNum n) \<Rightarrow> Some n | _ \<Rightarrow> None)"

definition readConditionMetric :: "string \<Rightarrow> json \<Rightarrow> AlertMetricSnapshot option \<Rightarrow> jsnum option" where
  "readConditionMetric metric payload metricSnapshot =
     (if metric = ''subnet_alpha_price_rank'' then
        as_number (snapshot_get (Option.bind metricSnapshot subnetAlphaPriceRank) (get_prop payload ''netuid''))
      else
        let key = js_string (get_prop payload ''netuid'') @ '':'' @ js_string (get_prop payload ''hotkey'')
        in as_number (snapshot_get (Option.bind metricSnapshot neuronImmunityCountdownBlocks) (JStr key)))"

text \<open>\<open>v === n\<close> for a number, which is never equal to itself when it is not one.\<close>

definition equals_number :: "json \<Rightarrow> jsnum \<Rightarrow> bool" where
  "equals_number v n \<longleftrightarrow> v = JNum n \<and> n \<noteq> NaN"

definition triggerMatchesEvent :: "'a trigger_fields_scheme \<Rightarrow> json \<Rightarrow> AlertMetricSnapshot option \<Rightarrow> bool" where
  "triggerMatchesEvent trigger payload metricSnapshot =
     (case payload of
        JVal _ \<Rightarrow> False
      | _ \<Rightarrow>
          if (case tr_tableFilter trigger of Some ts \<Rightarrow> \<not> in_set ts (get_prop payload ''table'') | None \<Rightarrow> False)
          then False
          else if (case tr_netuid trigger of Some n \<Rightarrow> \<not> equals_number (get_prop payload ''netuid'') n | None \<Rightarrow> False)
          then False
          else if text_given (tr_eventKind trigger) \<and> get_prop payload ''event_kind'' \<noteq> JStr (the (tr_eventKind trigger))
          then False
          else if text_given (tr_account trigger) \<and>
                  get_prop payload ''hotkey'' \<noteq> JStr (the (tr_account trigger)) \<and>
                  get_prop payload ''coldkey'' \<noteq> JStr (the (tr_account trigger))
          then False
          else if (case tr_minAmountTao trigger of
                     Some m \<Rightarrow> \<not> (case as_number (get_prop payload ''amount_tao'') of Some a \<Rightarrow> num_le m a | None \<Rightarrow> False)
                   | None \<Rightarrow> False)
          then False
          else (case tr_condition trigger of
                  None \<Rightarrow> True
                | Some c \<Rightarrow>
                    (case readConditionMetric (cond_metric c) payload metricSnapshot of
                       None \<Rightarrow> False
                     | Some v \<Rightarrow> compareAlertCondition v (cond_operator c) (cond_threshold c))))"

section \<open>Tokens, ids and views\<close>

text \<open>
  \<open>timingSafeEqual\<close>: the lengths' exclusive or, then one exclusive or of code units per position of
  the longer text, a position past the end reading as 0 (a NaN of \<open>charCodeAt\<close> likewise).
\<close>

unbundle bit_operations_syntax

definition code_at :: "string \<Rightarrow> nat \<Rightarrow> int" where
  "code_at s i = (if i < length s then of_char (s ! i) else 0)"

definition timingSafeEqual :: "string \<Rightarrow> string \<Rightarrow> bool" where
  "timingSafeEqual left right =
     (let diff = (int (length left)) XOR (int (length right));
          mx = max (length left) (length right)
      in foldl (\<lambda>d i. d OR (code_at left i XOR code_at right i)) diff [0..<mx] = 0)"

definition isValidAlertOwnerToken :: "json \<Rightarrow> json \<Rightarrow> bool" where
  "isValidAlertOwnerToken provided stored =
     (case provided of
        JVal (VStr p) \<Rightarrow> p \<noteq> [] \<and> (case stored of JVal (VStr s) \<Rightarrow> s \<noteq> [] \<and> timingSafeEqual p s | _ \<Rightarrow> False)
      | _ \<Rightarrow> False)"

text \<open>\<open>/^(0|[1-9]\d*)$/.test(String(id))\<close>\<close>

definition isValidAlertTriggerId :: "json \<Rightarrow> bool" where
  "isValidAlertTriggerId v =
     (let s = js_string v
      in s = ''0'' \<or> (case s of c # r \<Rightarrow> is_digit c \<and> c \<noteq> CHR ''0'' \<and> list_all is_digit r | [] \<Rightarrow> False))"

definition or_null :: "('a \<Rightarrow> json) \<Rightarrow> 'a option \<Rightarrow> json" where
  "or_null f v = (case v of Some x \<Rightarrow> f x | None \<Rightarrow> JNull)"

definition condition_json :: "AlertConditionInput \<Rightarrow> json" where
  "condition_json c =
     JObj [(''metric'', JStr (cond_metric c)), (''operator'', JStr (cond_operator c)), (''threshold'', JNum (cond_threshold c))]"

definition strings_json :: "string list \<Rightarrow> json" where
  "strings_json ts = JArr (map JStr ts)"

definition ownerAlertTriggerView :: "AlertTriggerRow \<Rightarrow> json" where
  "ownerAlertTriggerView row =
     JObj [(''id'', JStr (string_of_nat (row_id row))),
           (''name'', or_null JStr (tr_name row)),
           (''table_filter'', or_null strings_json (tr_tableFilter row)),
           (''netuid'', or_null JNum (tr_netuid row)),
           (''event_kind'', or_null JStr (tr_eventKind row)),
           (''account'', or_null JStr (tr_account row)),
           (''min_amount_tao'', or_null JNum (tr_minAmountTao row)),
           (''condition'', or_null condition_json (tr_condition row)),
           (''channel'', JStr (tr_channel row)),
           (''destination'', JStr (tr_destination row)),
           (''active'', JVal (VBool (tr_active row))),
           (''created_at'', JNum (row_created_at row)),
           (''updated_at'', JNum (row_updated_at row)),
           (''last_matched_at'', or_null JNum (row_last_matched_at row)),
           (''match_count'', JInt (int (row_match_count row))),
           (''owner_ss58'', or_null JStr (row_owner_ss58 row))]"

definition evaluatorAlertTriggerView :: "AlertTriggerRow \<Rightarrow> EvaluatorAlertTrigger" where
  "evaluatorAlertTriggerView row =
     \<lparr>tr_name = tr_name row, tr_tableFilter = tr_tableFilter row, tr_netuid = tr_netuid row,
      tr_eventKind = tr_eventKind row, tr_account = tr_account row, tr_minAmountTao = tr_minAmountTao row,
      tr_condition = tr_condition row, tr_channel = tr_channel row, tr_destination = tr_destination row,
      tr_id = string_of_nat (row_id row)\<rparr>"


section \<open>The token comparison is equality\<close>

lemma or_zero: "a OR b = 0 \<longleftrightarrow> a = 0 \<and> b = 0" for a b :: int
  by (auto simp: bit_eq_iff bit_simps)

lemma foldl_or_zero: "foldl (\<lambda>d i. d OR f i) d xs = (0 :: int) \<longleftrightarrow> d = 0 \<and> (\<forall>i \<in> set xs. f i = 0)"
  by (induction xs arbitrary: d) (auto simp: or_zero)

lemma xor_zero: "a XOR b = 0 \<longleftrightarrow> a = b" for a b :: int
  by (metis xor.assoc xor.comm_neutral xor_self_eq)

lemma timingSafeEqual_iff: "timingSafeEqual left right \<longleftrightarrow> left = right"
proof
  assume "timingSafeEqual left right"
  then have l: "length left = length right"
    and c: "\<forall>i < length right. code_at left i = code_at right i"
    by (simp_all add: timingSafeEqual_def Let_def foldl_or_zero xor_zero)
  from c l have "\<forall>i < length right. left ! i = right ! i" by (simp add: code_at_def of_char_eq_iff)
  with l show "left = right" by (simp add: list_eq_iff_nth_eq)
qed (simp add: timingSafeEqual_def Let_def foldl_or_zero [of "\<lambda>i. 0", simplified])

lemma owner_token_iff: "isValidAlertOwnerToken (JStr p) (JStr s) \<longleftrightarrow> p = s \<and> s \<noteq> []"
  by (auto simp: isValidAlertOwnerToken_def timingSafeEqual_iff)

section \<open>What an accepted body becomes\<close>

text \<open>What each checked field promises when it is given.\<close>

definition tables_ok :: "string list \<Rightarrow> bool" where
  "tables_ok ts \<longleftrightarrow> ts \<noteq> [] \<and> distinct ts \<and> set ts \<subseteq> set CHAIN_FIREHOSE_TABLES"

definition netuid_ok :: "jsnum \<Rightarrow> bool" where
  "netuid_ok n \<longleftrightarrow> is_integer_num n \<and> 0 \<le> num_int n \<and> num_int n \<le> 65535"

definition text_ok :: "nat \<Rightarrow> string \<Rightarrow> bool" where
  "text_ok limit s \<longleftrightarrow> s \<noteq> [] \<and> length s \<le> limit"

definition amount_ok :: "jsnum \<Rightarrow> bool" where
  "amount_ok n \<longleftrightarrow> is_finite_num n \<and> num_le (Fin 0) n \<and> num_le n MIN_AMOUNT_TAO_CEILING"

definition condition_ok :: "AlertConditionInput \<Rightarrow> bool" where
  "condition_ok c \<longleftrightarrow>
     cond_metric c \<in> set ALERT_CONDITION_METRICS \<and> cond_operator c \<in> set ALERT_CONDITION_OPERATORS \<and>
     is_finite_num (cond_threshold c)"

definition restricted :: "'a trigger_fields_scheme \<Rightarrow> bool" where
  "restricted t \<longleftrightarrow>
     tr_netuid t \<noteq> None \<or> text_given (tr_eventKind t) \<or> text_given (tr_account t) \<or>
     tr_minAmountTao t \<noteq> None \<or> tr_condition t \<noteq> None"

definition well_formed :: "(string \<Rightarrow> url option) \<Rightarrow> 'a trigger_fields_scheme \<Rightarrow> bool" where
  "well_formed parse t \<longleftrightarrow>
     tr_channel t \<in> set ALERT_CHANNELS \<and>
     isValidAlertDestination parse (JStr (tr_channel t)) (JStr (tr_destination t)) \<and>
     pred_option (\<lambda>s. length s \<le> MAX_NAME_LENGTH) (tr_name t) \<and> pred_option tables_ok (tr_tableFilter t) \<and>
     pred_option netuid_ok (tr_netuid t) \<and> pred_option (text_ok MAX_EVENT_KIND_LENGTH) (tr_eventKind t) \<and>
     pred_option (text_ok MAX_ACCOUNT_LENGTH) (tr_account t) \<and> pred_option amount_ok (tr_minAmountTao t) \<and>
     pred_option condition_ok (tr_condition t) \<and> restricted t"

definition or_undef :: "('a \<Rightarrow> json) \<Rightarrow> 'a option \<Rightarrow> json" where
  "or_undef f v = (case v of Some x \<Rightarrow> f x | None \<Rightarrow> JUndef)"

lemma or_undef_simps [simp]: "or_undef f None = JUndef" "or_undef f (Some x) = f x"
  by (simp_all add: or_undef_def)

lemma in_set_JStr [simp]: "in_set vs (JStr s) \<longleftrightarrow> s \<in> set vs"
  by (simp add: in_set_def)

lemma in_set_iff: "in_set vs v \<longleftrightarrow> (\<exists>s. v = JStr s \<and> s \<in> set vs)"
  by (auto simp: in_set_def split: json.splits jsval.splits)

lemma the_str_JStr [simp]: "the_str (JStr s) = s"
  by (simp add: the_str_def)

lemma destination_string: "isValidAlertDestination parse c d \<Longrightarrow> d = JStr (the_str d)"
  by (auto simp: isValidAlertDestination_def split: json.splits jsval.splits)

text \<open>A checked field holds what it promises, and every such value is accepted as itself.\<close>

lemma name_field_ok: "name_field v = Inr r \<Longrightarrow> pred_option (\<lambda>s. length s \<le> MAX_NAME_LENGTH) r"
  by (auto simp: name_field_def Let_def split: json.splits jsval.splits if_splits)

lemma name_field_self: "pred_option (\<lambda>s. length s \<le> MAX_NAME_LENGTH) r \<Longrightarrow> name_field (or_undef JStr r) = Inr r"
  by (cases r) (simp_all add: name_field_def)

lemma table_filter_field_ok: "table_filter_field v = Inr r \<Longrightarrow> pred_option tables_ok r"
  by (auto simp: table_filter_field_def Let_def tables_ok_def in_set_iff list_all_iff split: json.splits jsval.splits if_splits)
    (metis the_str_JStr)

lemma first_seen_distinct: "distinct xs \<Longrightarrow> first_seen (\<lambda>x. x) xs = xs"
  by (simp add: first_seen_def distinct_remdups_id)

lemma table_filter_field_self: "pred_option tables_ok r \<Longrightarrow> table_filter_field (or_undef strings_json r) = Inr r"
  by (cases r)
    (auto simp: table_filter_field_def strings_json_def tables_ok_def list_all_iff first_seen_def comp_def distinct_remdups_id)

lemma netuid_field_ok: "netuid_field v = Inr r \<Longrightarrow> pred_option netuid_ok r"
  by (auto simp: netuid_field_def Let_def netuid_ok_def split: json.splits jsval.splits if_splits)

lemma netuid_field_self: "pred_option netuid_ok r \<Longrightarrow> netuid_field (or_undef JNum r) = Inr r"
  by (cases r) (simp_all add: netuid_field_def netuid_ok_def)

lemma text_field_ok: "text_field f m v = Inr r \<Longrightarrow> pred_option (text_ok m) r"
  by (auto simp: text_field_def Let_def text_ok_def split: json.splits jsval.splits if_splits)

lemma text_field_self: "pred_option (text_ok m) r \<Longrightarrow> text_field f m (or_undef JStr r) = Inr r"
  by (cases r) (simp_all add: text_field_def text_ok_def)

lemma min_amount_field_ok: "min_amount_field v = Inr r \<Longrightarrow> pred_option amount_ok r"
  by (auto simp: min_amount_field_def Let_def amount_ok_def split: json.splits jsval.splits if_splits)

lemma min_amount_field_self: "pred_option amount_ok r \<Longrightarrow> min_amount_field (or_undef JNum r) = Inr r"
  by (cases r) (simp_all add: min_amount_field_def amount_ok_def)

lemma condition_field_ok: "validateAlertCondition v = Inr r \<Longrightarrow> pred_option condition_ok r"
  by (auto simp: validateAlertCondition_def condition_ok_def in_set_iff split: json.splits jsval.splits if_splits)

lemma condition_field_self: "pred_option condition_ok r \<Longrightarrow> validateAlertCondition (or_undef condition_json r) = Inr r"
  by (cases r) (simp_all add: validateAlertCondition_def condition_ok_def condition_json_def)

lemmas fields_ok = name_field_ok table_filter_field_ok netuid_field_ok text_field_ok min_amount_field_ok condition_field_ok
lemmas fields_self = name_field_self table_filter_field_self netuid_field_self text_field_self min_amount_field_self
  condition_field_self

text \<open>The whole check, as what it requires of each field of the body.\<close>

definition reads_as :: "json \<Rightarrow> AlertTriggerValidated \<Rightarrow> bool" where
  "reads_as body t \<longleftrightarrow>
     name_field (get_prop body ''name'') = Inr (tr_name t) \<and>
     table_filter_field (get_prop body ''table_filter'') = Inr (tr_tableFilter t) \<and>
     netuid_field (get_prop body ''netuid'') = Inr (tr_netuid t) \<and>
     text_field ''event_kind'' MAX_EVENT_KIND_LENGTH (get_prop body ''event_kind'') = Inr (tr_eventKind t) \<and>
     text_field ''account'' MAX_ACCOUNT_LENGTH (get_prop body ''account'') = Inr (tr_account t) \<and>
     min_amount_field (get_prop body ''min_amount_tao'') = Inr (tr_minAmountTao t) \<and>
     validateAlertCondition (get_prop body ''condition'') = Inr (tr_condition t) \<and>
     active_field (get_prop body ''active'') = Inr (tr_active t) \<and>
     get_prop body ''channel'' = JStr (tr_channel t) \<and> get_prop body ''destination'' = JStr (tr_destination t)"

lemma validate_Inr:
  "validateAlertTriggerInput parse (JObj kvs) = Inr t \<longleftrightarrow>
   tr_channel t \<in> set ALERT_CHANNELS \<and>
   isValidAlertDestination parse (JStr (tr_channel t)) (JStr (tr_destination t)) \<and> restricted t \<and> reads_as (JObj kvs) t"
  (is "?L \<longleftrightarrow> ?R")
proof
  assume l: ?L
  then have c: "in_set ALERT_CHANNELS (get_prop (JObj kvs) ''channel'')"
    and d: "isValidAlertDestination parse (get_prop (JObj kvs) ''channel'') (get_prop (JObj kvs) ''destination'')"
    by (simp_all add: validateAlertTriggerInput_def split: if_splits)
  from c obtain ch where ch: "get_prop (JObj kvs) ''channel'' = JStr ch" "ch \<in> set ALERT_CHANNELS"
    unfolding in_set_iff by blast
  obtain de where de: "get_prop (JObj kvs) ''destination'' = JStr de" using destination_string [OF d] by metis
  show ?R using l c d unfolding validateAlertTriggerInput_def ch(1) de
    by (auto simp: and_then_Inr reads_as_def restricted_def ch de split: if_splits simp del: get_prop.simps)
next
  assume r: ?R
  then show ?L
    by (cases t) (simp add: validateAlertTriggerInput_def reads_as_def restricted_def del: get_prop.simps)
qed

lemma validate_object: "validateAlertTriggerInput parse body = Inr t \<Longrightarrow> \<exists>kvs. body = JObj kvs"
  by (cases body) (simp_all add: validateAlertTriggerInput_def)

lemma validated_well_formed:
  assumes "validateAlertTriggerInput parse body = Inr t" shows "well_formed parse t"
proof -
  obtain kvs where b: "body = JObj kvs" using validate_object [OF assms] by blast
  from assms show ?thesis unfolding b validate_Inr well_formed_def reads_as_def using fields_ok by blast
qed

end
