(* ===== verification/Alert_Patch.thy ===== *)
theory Alert_Patch
  imports Alert_Triggers
begin

text \<open>
  Partial updates of an alert trigger (\<open>workers/data-api.ts\<close>): a patch is laid over the stored row
  and the result is checked like a new body.
\<close>

definition omitNullValues :: "(string \<times> json) list \<Rightarrow> (string \<times> json) list" where
  "omitNullValues obj = filter (\<lambda>kv. snd kv \<noteq> JNull) obj"

definition spread :: "(string \<times> json) list \<Rightarrow> (string \<times> json) list \<Rightarrow> (string \<times> json) list" where
  "spread base over = foldl (\<lambda>m kv. AList.update (fst kv) (snd kv) m) base over"

definition mergeAlertTriggerUpdateBody :: "'a AlertTriggerValidated_scheme \<Rightarrow> (string \<times> json) list \<Rightarrow> json" where
  "mergeAlertTriggerUpdateBody existing body =
     JObj (spread
       (omitNullValues
         [(''name'', or_null JStr (tr_name existing)),
          (''table_filter'', or_null strings_json (tr_tableFilter existing)),
          (''netuid'', or_null JNum (tr_netuid existing)),
          (''event_kind'', or_null JStr (tr_eventKind existing)),
          (''account'', or_null JStr (tr_account existing)),
          (''min_amount_tao'', or_null JNum (tr_minAmountTao existing)),
          (''condition'', or_null condition_json (tr_condition existing)),
          (''channel'', JStr (tr_channel existing)),
          (''destination'', JStr (tr_destination existing)),
          (''active'', JVal (VBool (tr_active existing)))])
       (omitNullValues body))"

section \<open>Merging a patch\<close>

lemma map_of_spread: "map_of (spread base over) k = (case map_of (rev over) k of Some v \<Rightarrow> Some v | None \<Rightarrow> map_of base k)"
  unfolding spread_def by (induction over rule: rev_induct) (auto simp: update_conv' split: option.split)

lemma map_of_omitNull:
  "distinct (map fst xs) \<Longrightarrow> map_of (omitNullValues xs) k = (case map_of xs k of Some v \<Rightarrow> if v = JNull then None else Some v | None \<Rightarrow> None)"
proof (induction xs)
  case (Cons x xs)
  then have "fst x = k \<Longrightarrow> map_of xs k = None" by (auto simp: map_of_eq_None_iff)
  with Cons show ?case by (cases x) (auto simp: omitNullValues_def)
qed (simp add: omitNullValues_def)

text \<open>A field the patch leaves alone: absent, or sent as null.\<close>

definition not_given :: "(string \<times> json) list \<Rightarrow> string \<Rightarrow> bool" where
  "not_given body k \<longleftrightarrow> list_all (\<lambda>kv. fst kv = k \<longrightarrow> snd kv = JNull) body"

lemma not_given_omitNull: "not_given body k \<Longrightarrow> map_of (rev (omitNullValues body)) k = None"
  by (auto simp: map_of_eq_None_iff not_given_def omitNullValues_def list_all_iff)

lemma drop_null:
  assumes "\<And>x. f x \<noteq> JNull"
  shows "(case (if or_null f v = JNull then None else Some (or_null f v)) of Some x \<Rightarrow> x | None \<Rightarrow> JUndef) = or_undef f v"
  using assms by (cases v) (simp_all add: or_null_def)

lemma json_not_null [simp]: "strings_json ts \<noteq> JNull" "condition_json c \<noteq> JNull"
  by (simp_all add: strings_json_def condition_json_def)

lemma merged_base:
  assumes "not_given body k"
  shows "get_prop (mergeAlertTriggerUpdateBody existing body) k =
     (case map_of [(''name'', or_undef JStr (tr_name existing)),
          (''table_filter'', or_undef strings_json (tr_tableFilter existing)),
          (''netuid'', or_undef JNum (tr_netuid existing)),
          (''event_kind'', or_undef JStr (tr_eventKind existing)),
          (''account'', or_undef JStr (tr_account existing)),
          (''min_amount_tao'', or_undef JNum (tr_minAmountTao existing)),
          (''condition'', or_undef condition_json (tr_condition existing)),
          (''channel'', JStr (tr_channel existing)),
          (''destination'', JStr (tr_destination existing)),
          (''active'', JVal (VBool (tr_active existing)))] k of Some v \<Rightarrow> v | None \<Rightarrow> JUndef)"
proof -
  have m: "map_of (spread b (omitNullValues body)) k = map_of b k" for b
    by (simp add: map_of_spread not_given_omitNull [OF assms])
  show ?thesis unfolding mergeAlertTriggerUpdateBody_def get_prop.simps m
    by (subst map_of_omitNull) (simp_all add: drop_null)
qed

text \<open>The fields a validated patch leaves alone keep their values.\<close>

definition kept_fields :: "(string \<times> json) list \<Rightarrow> 'a AlertTriggerValidated_scheme \<Rightarrow> AlertTriggerValidated \<Rightarrow> bool" where
  "kept_fields body old new \<longleftrightarrow>
     (not_given body ''name'' \<longrightarrow> tr_name new = tr_name old) \<and>
     (not_given body ''table_filter'' \<longrightarrow> tr_tableFilter new = tr_tableFilter old) \<and>
     (not_given body ''netuid'' \<longrightarrow> tr_netuid new = tr_netuid old) \<and>
     (not_given body ''event_kind'' \<longrightarrow> tr_eventKind new = tr_eventKind old) \<and>
     (not_given body ''account'' \<longrightarrow> tr_account new = tr_account old) \<and>
     (not_given body ''min_amount_tao'' \<longrightarrow> tr_minAmountTao new = tr_minAmountTao old) \<and>
     (not_given body ''condition'' \<longrightarrow> tr_condition new = tr_condition old) \<and>
     (not_given body ''channel'' \<longrightarrow> tr_channel new = tr_channel old) \<and>
     (not_given body ''destination'' \<longrightarrow> tr_destination new = tr_destination old) \<and>
     (not_given body ''active'' \<longrightarrow> tr_active new = tr_active old)"

lemma active_field_self [simp]: "active_field (JVal (VBool b)) = Inr b"
  by (simp add: active_field_def)

lemma merge_object: "\<exists>kvs. mergeAlertTriggerUpdateBody old body = JObj kvs"
  by (simp add: mergeAlertTriggerUpdateBody_def)

lemma patch_keeps_fields:
  assumes "well_formed parse old" and v: "validateAlertTriggerInput parse (mergeAlertTriggerUpdateBody old body) = Inr new"
  shows "kept_fields body old new"
proof -
  obtain kvs where k: "mergeAlertTriggerUpdateBody old body = JObj kvs" using merge_object by blast
  have r: "reads_as (mergeAlertTriggerUpdateBody old body) new" using v unfolding k validate_Inr by blast
  show ?thesis unfolding kept_fields_def
    by (insert r assms(1), unfold reads_as_def well_formed_def, elim conjE, intro conjI impI;
        simp only: merged_base map_of.simps fst_conv snd_conv option.case; simp add: fields_self)
qed

lemma patch_nothing:
  assumes "well_formed parse old"
  shows "validateAlertTriggerInput parse (mergeAlertTriggerUpdateBody old []) = Inr (AlertTriggerValidated.truncate old)"
proof -
  obtain kvs where k: "mergeAlertTriggerUpdateBody old [] = JObj kvs" using merge_object by blast
  have n: "not_given [] f" for f by (simp add: not_given_def)
  have "reads_as (mergeAlertTriggerUpdateBody old []) (AlertTriggerValidated.truncate old)"
    using assms unfolding reads_as_def well_formed_def
    by (simp add: merged_base [OF n] fields_self AlertTriggerValidated.truncate_def del: get_prop.simps)
  then show ?thesis using assms unfolding k validate_Inr
    by (simp add: well_formed_def restricted_def AlertTriggerValidated.truncate_def)
qed

text \<open>
  C26. Checking a request body accepts exactly the well-formed triggers: whatever body it accepts
  becomes a trigger whose channel, destination, lengths, numbers, tables and condition are in range
  and that restricts at least one thing, and every such trigger is what some body is accepted as.
\<close>

theorem accepted_triggers: "(\<exists>body. validateAlertTriggerInput parse body = Inr t) \<longleftrightarrow> well_formed parse t"
proof
  assume "well_formed parse t"
  then have "validateAlertTriggerInput parse (mergeAlertTriggerUpdateBody t []) = Inr t"
    using patch_nothing [of parse t] by (simp add: AlertTriggerValidated.truncate_def)
  then show "\<exists>body. validateAlertTriggerInput parse body = Inr t" by blast
qed (use validated_well_formed in blast)

definition only_adds :: "(string \<times> json) list \<Rightarrow> 'a trigger_fields_scheme \<Rightarrow> bool" where
  "only_adds body t \<longleftrightarrow>
     (not_given body ''table_filter'' \<or> tr_tableFilter t = None) \<and> (not_given body ''netuid'' \<or> tr_netuid t = None) \<and>
     (not_given body ''event_kind'' \<or> tr_eventKind t = None) \<and> (not_given body ''account'' \<or> tr_account t = None) \<and>
     (not_given body ''min_amount_tao'' \<or> tr_minAmountTao t = None) \<and> (not_given body ''condition'' \<or> tr_condition t = None)"

lemma match_iff:
  "triggerMatchesEvent t payload snapshot \<longleftrightarrow>
     (\<forall>v. payload \<noteq> JVal v) \<and>
     pred_option (\<lambda>ts. in_set ts (get_prop payload ''table'')) (tr_tableFilter t) \<and>
     pred_option (equals_number (get_prop payload ''netuid'')) (tr_netuid t) \<and>
     pred_option (\<lambda>k. k \<noteq> [] \<longrightarrow> get_prop payload ''event_kind'' = JStr k) (tr_eventKind t) \<and>
     pred_option (\<lambda>a. a \<noteq> [] \<longrightarrow> get_prop payload ''hotkey'' = JStr a \<or> get_prop payload ''coldkey'' = JStr a) (tr_account t) \<and>
     pred_option (\<lambda>m. pred_option (num_le m) (as_number (get_prop payload ''amount_tao'')) \<and> as_number (get_prop payload ''amount_tao'') \<noteq> None)
       (tr_minAmountTao t) \<and>
     pred_option (\<lambda>c. \<exists>v. readConditionMetric (cond_metric c) payload snapshot = Some v \<and>
                          compareAlertCondition v (cond_operator c) (cond_threshold c)) (tr_condition t)"
  (is "_ \<longleftrightarrow> ?object \<and> ?R")
proof -
  have p: "(case payload of JVal _ \<Rightarrow> False | _ \<Rightarrow> P) \<longleftrightarrow> ?object \<and> P" for P
    by (cases payload) simp_all
  have i: "(if A then False else B) \<longleftrightarrow> \<not> A \<and> B" for A B by simp
  show ?thesis unfolding triggerMatchesEvent_def p i text_given_def
    by (intro arg_cong2 [of _ _ _ _ "(\<and>)"] refl) (auto split: option.splits)
qed

text \<open>A trigger matches what another matches when each of its restrictions is absent or the other's.\<close>

lemma match_mono:
  assumes "tr_tableFilter t = None \<or> tr_tableFilter u = tr_tableFilter t"
    and "tr_netuid t = None \<or> tr_netuid u = tr_netuid t"
    and "tr_eventKind t = None \<or> tr_eventKind u = tr_eventKind t"
    and "tr_account t = None \<or> tr_account u = tr_account t"
    and "tr_minAmountTao t = None \<or> tr_minAmountTao u = tr_minAmountTao t"
    and "tr_condition t = None \<or> tr_condition u = tr_condition t"
    and m: "triggerMatchesEvent u payload snapshot"
  shows "triggerMatchesEvent t payload snapshot"
proof -
  have o: "pred_option P a" if "a = None \<or> b = a" "pred_option P b" for P and a b :: "'x option" using that by auto
  show ?thesis using m unfolding match_iff
    by (elim conjE, intro conjI) (assumption | (rule o, rule assms, assumption))+
qed

text \<open>
  C23. A patch that gives a value only to restrictions the trigger did not have yet never widens it:
  what the patched trigger matches the old one matched.  Every field a patch leaves out or sends as
  null keeps its value, and a patch that gives nothing is accepted and changes nothing.
\<close>

theorem patch_never_widens:
  assumes "well_formed parse old"
    and "validateAlertTriggerInput parse (mergeAlertTriggerUpdateBody old body) = Inr new"
    and "only_adds body old"
  shows "(triggerMatchesEvent new payload snapshot \<longrightarrow> triggerMatchesEvent old payload snapshot) \<and>
    kept_fields body old new \<and>
    validateAlertTriggerInput parse (mergeAlertTriggerUpdateBody old []) = Inr (AlertTriggerValidated.truncate old)"
proof (intro conjI impI)
  show k: "kept_fields body old new" using patch_keeps_fields [OF assms(1,2)] .
  show "validateAlertTriggerInput parse (mergeAlertTriggerUpdateBody old []) = Inr (AlertTriggerValidated.truncate old)"
    using patch_nothing [OF assms(1)] .
  assume m: "triggerMatchesEvent new payload snapshot"
  show "triggerMatchesEvent old payload snapshot"
    by (rule match_mono [OF _ _ _ _ _ _ m]; use k assms(3) in \<open>unfold kept_fields_def only_adds_def, blast\<close>)
qed

definition sample_trigger :: AlertTriggerValidated where
  "sample_trigger =
     \<lparr>tr_name = None, tr_tableFilter = None, tr_netuid = Some (js_int 7), tr_eventKind = None, tr_account = None,
      tr_minAmountTao = None, tr_condition = None, tr_channel = ''telegram'', tr_destination = ''@metagraph'', tr_active = True\<rparr>"

lemma sample_destination: "isValidAlertDestination parse (JStr ''telegram'') (JStr ''@metagraph'')"
proof -
  have "list_all word_char ''metagraph''" by (simp add: word_char_def)
  then show ?thesis by (simp add: isValidAlertDestination_def MAX_DESTINATION_LENGTH_def TELEGRAM_CHAT_ID_PATTERN_def)
qed

lemma sample_well_formed: "well_formed parse sample_trigger"
proof -
  have "restricted sample_trigger" by (simp add: restricted_def sample_trigger_def)
  then show ?thesis using sample_destination [of parse]
    by (simp add: well_formed_def sample_trigger_def ALERT_CHANNELS_def netuid_ok_def js_int_def)
qed

theorem patch_never_widens_witness:
  "\<exists>new. validateAlertTriggerInput (\<lambda>_. None) (mergeAlertTriggerUpdateBody sample_trigger [(''account'', JStr ''5F'')]) = Inr new \<and>
     (triggerMatchesEvent new (JObj [(''netuid'', JInt 7)]) None \<longrightarrow> triggerMatchesEvent sample_trigger (JObj [(''netuid'', JInt 7)]) None)"
proof -
  let ?body = "[(''account'', JStr ''5F'')]"
  let ?new = "sample_trigger\<lparr>tr_account := Some ''5F''\<rparr>"
  obtain kvs where k: "mergeAlertTriggerUpdateBody sample_trigger ?body = JObj kvs" using merge_object by blast
  have g: "get_prop (mergeAlertTriggerUpdateBody sample_trigger ?body) ''account'' = JStr ''5F''"
    by (simp add: mergeAlertTriggerUpdateBody_def map_of_spread omitNullValues_def)
  have n: "not_given ?body f \<longleftrightarrow> f \<noteq> ''account''" for f by (auto simp: not_given_def)
  have t: "text_field ''account'' MAX_ACCOUNT_LENGTH (JStr ''5F'') = Inr (Some ''5F'')"
    by (simp add: text_field_def MAX_ACCOUNT_LENGTH_def)
  have v: "validateAlertTriggerInput (\<lambda>_. None) (mergeAlertTriggerUpdateBody sample_trigger ?body) = Inr ?new"
    using sample_well_formed [of "\<lambda>_. None"] unfolding k validate_Inr unfolding k [symmetric] reads_as_def
    by (simp add: g merged_base n fields_self well_formed_def restricted_def text_given_def t
        del: get_prop.simps)
  have "only_adds ?body sample_trigger" by (simp add: only_adds_def n sample_trigger_def)
  from patch_never_widens [OF sample_well_formed v this] v show ?thesis by blast
qed


end
