(* ===== verification/Alert_Routes.thy ===== *)
theory Alert_Routes
  imports Alert_Patch
begin

text \<open>
  The alert-trigger routes of \<open>workers/data-api.ts\<close> over their two tables.  A handler runs from a
  store to a response and the store it leaves.  Each SQL statement commits by itself and may throw;
  which ones do is the store's schedule of faults, so every partial failure is a run of the model.
  An id too large for the column throws on some stores and matches no row on others; both are runs.
  Handlers are taken one at a time.  Arguments (fields of \<open>alert_env\<close>) stand for the URL parser,
  \<open>JSON.parse\<close>, the token check of \<open>wallet-auth.ts\<close>, the random token, the rate limiter and the clock.
\<close>

section \<open>Tables, statements, requests\<close>

record delivery_row =
  dl_id :: nat
  dl_trigger_id :: nat
  dl_delivered_at :: int
  dl_success :: bool
  dl_status_code :: "int option"
  dl_retry_count :: nat
  dl_response_snippet :: "string option"

record alert_store =
  st_triggers :: "AlertTriggerRow list"
  st_deliveries :: "delivery_row list"
  st_next_trigger :: nat
  st_next_delivery :: nat
  st_faults :: "bool list"

record alert_request =
  rq_method :: string
  rq_pathname :: string
  rq_headers :: "(string \<times> string) list"
  rq_raw :: string

record alert_response =
  rs_status :: nat
  rs_body :: json

record alert_env =
  env_url_parse :: "string \<Rightarrow> url option"
  env_json_parse :: "string \<Rightarrow> json option"
  env_verify_token :: "string \<Rightarrow> string \<Rightarrow> string option"
  env_owner_token :: string
  env_rate_limiter :: "(alert_request \<Rightarrow> bool) option"
  env_now :: jsnum
  env_watch_secret :: string
  env_create_token :: string
  env_internal_token :: string
  env_store_bound :: bool

type_synonym 'a sql = "alert_store \<Rightarrow> 'a option \<times> alert_store"

definition sql_return :: "'a \<Rightarrow> 'a sql" where
  "sql_return x s = (Some x, s)"

definition sql_bind :: "'a sql \<Rightarrow> ('a \<Rightarrow> 'b sql) \<Rightarrow> 'b sql" where
  "sql_bind m f s = (case m s of (None, s') \<Rightarrow> (None, s') | (Some x, s') \<Rightarrow> f x s')"

text \<open>One statement: it throws and changes nothing, or runs.\<close>

definition statement :: "(alert_store \<Rightarrow> ('a \<times> alert_store) option) \<Rightarrow> 'a sql" where
  "statement f s =
     (let s' = s\<lparr>st_faults := tl (st_faults s)\<rparr>
      in if st_faults s \<noteq> [] \<and> hd (st_faults s) then (None, s')
         else case f s' of None \<Rightarrow> (None, s') | Some (x, s'') \<Rightarrow> (Some x, s''))"

definition has_id :: "string \<Rightarrow> AlertTriggerRow \<Rightarrow> bool" where
  "has_id tid row \<longleftrightarrow> row_id row = nat_of_digits tid"

definition select_trigger :: "string \<Rightarrow> AlertTriggerRow option sql" where
  "select_trigger tid = statement (\<lambda>s. Some (List.find (has_id tid) (st_triggers s), s))"

definition select_triggers :: "(AlertTriggerRow \<Rightarrow> bool) \<Rightarrow> AlertTriggerRow list sql" where
  "select_triggers P = statement (\<lambda>s. Some (filter P (st_triggers s), s))"

definition insert_trigger :: "string \<Rightarrow> AlertTriggerValidated \<Rightarrow> string option \<Rightarrow> jsnum \<Rightarrow> AlertTriggerRow sql" where
  "insert_trigger token v owner now = statement (\<lambda>s.
     let row = AlertTriggerValidated.extend (AlertTriggerValidated.truncate v)
                 \<lparr>row_id = st_next_trigger s, row_owner_token = token, row_owner_ss58 = owner,
                  row_created_at = now, row_updated_at = now, row_last_matched_at = None, row_match_count = 0\<rparr>
     in Some (row, s\<lparr>st_triggers := st_triggers s @ [row], st_next_trigger := Suc (st_next_trigger s)\<rparr>))"

definition set_trigger :: "AlertTriggerValidated \<Rightarrow> jsnum \<Rightarrow> AlertTriggerRow \<Rightarrow> AlertTriggerRow" where
  "set_trigger v now row =
     row\<lparr>tr_name := tr_name v, tr_tableFilter := tr_tableFilter v, tr_netuid := tr_netuid v,
         tr_eventKind := tr_eventKind v, tr_account := tr_account v, tr_minAmountTao := tr_minAmountTao v,
         tr_condition := tr_condition v, tr_channel := tr_channel v, tr_destination := tr_destination v,
         tr_active := tr_active v, row_updated_at := now\<rparr>"

definition update_trigger :: "string \<Rightarrow> AlertTriggerValidated \<Rightarrow> jsnum \<Rightarrow> AlertTriggerRow option sql" where
  "update_trigger tid v now = statement (\<lambda>s.
     let rows = map (\<lambda>row. if has_id tid row then set_trigger v now row else row) (st_triggers s)
     in Some (List.find (has_id tid) rows, s\<lparr>st_triggers := rows\<rparr>))"

text \<open>The delivery log references its trigger and is deleted with it.\<close>

definition delete_trigger :: "string \<Rightarrow> unit sql" where
  "delete_trigger tid = statement (\<lambda>s.
     Some ((), s\<lparr>st_triggers := filter (\<lambda>row. \<not> has_id tid row) (st_triggers s),
                 st_deliveries := filter (\<lambda>d. dl_trigger_id d \<noteq> nat_of_digits tid) (st_deliveries s)\<rparr>))"

section \<open>Requests and responses\<close>

definition header :: "alert_request \<Rightarrow> string \<Rightarrow> string" where
  "header rq h = (case map_of (rq_headers rq) h of Some v \<Rightarrow> v | None \<Rightarrow> [])"

definition writeJson :: "json \<Rightarrow> nat \<Rightarrow> alert_response" where
  "writeJson data code = \<lparr>rs_status = code, rs_body = data\<rparr>"

definition error_json :: "string \<Rightarrow> nat \<Rightarrow> alert_response" where
  "error_json message code = writeJson (JObj [(''error'', JStr message)]) code"

definition ALERT_TRIGGER_CREATE_TOKEN_HEADER :: string where
  "ALERT_TRIGGER_CREATE_TOKEN_HEADER = ''x-alert-trigger-create-token''"
definition ALERT_TRIGGER_OWNER_TOKEN_HEADER :: string where
  "ALERT_TRIGGER_OWNER_TOKEN_HEADER = ''x-alert-trigger-owner-token''"
definition ALERT_TRIGGERS_INTERNAL_TOKEN_HEADER :: string where
  "ALERT_TRIGGERS_INTERNAL_TOKEN_HEADER = ''x-alert-triggers-internal-token''"
definition WATCH_TRIGGER_TOKEN_HEADER :: string where
  "WATCH_TRIGGER_TOKEN_HEADER = ''x-watch-trigger-token''"
definition WATCH_TRIGGERS_MAX_PER_ADDRESS :: nat where "WATCH_TRIGGERS_MAX_PER_ADDRESS = 5"
definition ALERT_TRIGGER_MAX_BODY_BYTES :: nat where "ALERT_TRIGGER_MAX_BODY_BYTES = 8192"
definition ALERT_DELIVERY_RESPONSE_SNIPPET_MAX_BYTES :: nat where "ALERT_DELIVERY_RESPONSE_SNIPPET_MAX_BYTES = 500"
definition ALERT_TRIGGER_DELIVERY_LOG_RETAIN :: nat where "ALERT_TRIGGER_DELIVERY_LOG_RETAIN = 20"

definition utf8Bytes :: "string \<Rightarrow> nat" where
  "utf8Bytes s = sum_list (map (\<lambda>c. if (of_char c :: nat) < 128 then 1 else 2) s)"

definition withAlertTriggersSql :: "alert_env \<Rightarrow> alert_response sql \<Rightarrow> alert_store \<Rightarrow> alert_response \<times> alert_store" where
  "withAlertTriggersSql env fn s =
     (if \<not> env_store_bound env then (error_json ''no user-state store bound'' 503, s)
      else case fn s of
             (Some response, s') \<Rightarrow> (response, s')
           | (None, s') \<Rightarrow> (error_json ''write failed'' 502, s'))"

definition readAlertTriggerBody :: "alert_env \<Rightarrow> alert_request \<Rightarrow> alert_response + json" where
  "readAlertTriggerBody env rq =
     (let len = (if header rq ''content-length'' = [] then Fin 0 else string_to_number (header rq ''content-length''))
      in if num_lt (js_int (int ALERT_TRIGGER_MAX_BODY_BYTES)) len then Inl (error_json ''body too large'' 413)
         else if ALERT_TRIGGER_MAX_BODY_BYTES < utf8Bytes (rq_raw rq) then Inl (error_json ''body too large'' 413)
         else if rq_raw rq = [] then Inr JNull
         else case env_json_parse env (rq_raw rq) of
                Some v \<Rightarrow> Inr v
              | None \<Rightarrow> Inl (error_json ''body must be JSON'' 400))"

definition requireAlertTriggerOwner :: "alert_request \<Rightarrow> string \<Rightarrow> alert_response option" where
  "requireAlertTriggerOwner rq storedOwnerToken =
     (if isValidAlertOwnerToken (JStr (header rq ALERT_TRIGGER_OWNER_TOKEN_HEADER)) (JStr storedOwnerToken) then None
      else Some (error_json ''no such trigger'' 404))"

definition resolveAlertTriggerCreateAuth :: "alert_request \<Rightarrow> alert_env \<Rightarrow> alert_response + string option" where
  "resolveAlertTriggerCreateAuth rq env =
     (let operatorToken = header rq ALERT_TRIGGER_CREATE_TOKEN_HEADER;
          watchToken = header rq WATCH_TRIGGER_TOKEN_HEADER
      in if operatorToken \<noteq> [] \<and> watchToken \<noteq> [] then
           Inl (error_json (''provide at most one of '' @ ALERT_TRIGGER_CREATE_TOKEN_HEADER @ '' or '' @ WATCH_TRIGGER_TOKEN_HEADER) 400)
         else if watchToken \<noteq> [] then
           (if env_watch_secret env = [] then
              Inl (error_json ''wallet-verified alert issuance is not provisioned on this deployment'' 503)
            else case env_verify_token env (env_watch_secret env) watchToken of
                   None \<Rightarrow> Inl (error_json (''invalid or expired '' @ WATCH_TRIGGER_TOKEN_HEADER) 401)
                 | Some ss58 \<Rightarrow> Inr (Some ss58))
         else if env_create_token env = [] then
           Inl (error_json ''alert trigger creation is not provisioned on this deployment'' 503)
         else if operatorToken = [] \<or> \<not> timingSafeEqual operatorToken (env_create_token env) then
           Inl (error_json (''provide a valid '' @ ALERT_TRIGGER_CREATE_TOKEN_HEADER @ '' or '' @ WATCH_TRIGGER_TOKEN_HEADER @ '' header'') 401)
         else Inr None)"

definition requireVerifiedWatchSs58 :: "alert_request \<Rightarrow> alert_env \<Rightarrow> alert_response + string" where
  "requireVerifiedWatchSs58 rq env =
     (if env_watch_secret env = [] then
        Inl (error_json ''wallet-verified alert issuance is not provisioned on this deployment'' 503)
      else case env_verify_token env (env_watch_secret env) (header rq WATCH_TRIGGER_TOKEN_HEADER) of
             None \<Rightarrow> Inl (error_json (''invalid or expired '' @ WATCH_TRIGGER_TOKEN_HEADER) 401)
           | Some ss58 \<Rightarrow> Inr ss58)"

text \<open>The gate of the internal routes, which differ in the text of the first error.\<close>

definition internal_gate :: "string \<Rightarrow> alert_request \<Rightarrow> alert_env \<Rightarrow> alert_response option" where
  "internal_gate message rq env =
     (let provided = header rq ALERT_TRIGGERS_INTERNAL_TOKEN_HEADER
      in if env_internal_token env = [] then Some (error_json message 503)
         else if provided = [] \<or> \<not> timingSafeEqual provided (env_internal_token env) then
           Some (error_json (''provide a valid '' @ ALERT_TRIGGERS_INTERNAL_TOKEN_HEADER @ '' header'') 401)
         else None)"

section \<open>Creating, reading, changing and deleting one trigger\<close>

definition owner_response :: "AlertTriggerRow option \<Rightarrow> alert_response" where
  "owner_response row = writeJson (or_null ownerAlertTriggerView row) 200"

definition handleAlertTriggerCreate :: "alert_request \<Rightarrow> alert_env \<Rightarrow> alert_store \<Rightarrow> alert_response \<times> alert_store" where
  "handleAlertTriggerCreate rq env s =
     (case resolveAlertTriggerCreateAuth rq env of
        Inl response \<Rightarrow> (response, s)
      | Inr ownerSs58 \<Rightarrow>
        if (case env_rate_limiter env of Some ok \<Rightarrow> \<not> ok rq | None \<Rightarrow> False) then
          (error_json ''too many alert trigger creation requests; slow down'' 429, s)
        else (case readAlertTriggerBody env rq of
        Inl response \<Rightarrow> (response, s)
      | Inr body \<Rightarrow> (case validateAlertTriggerInput (env_url_parse env) body of
        Inl e \<Rightarrow> (error_json e 400, s)
      | Inr v \<Rightarrow> withAlertTriggersSql env (
          sql_bind (if text_given ownerSs58 then select_triggers (\<lambda>r. row_owner_ss58 r = ownerSs58 \<and> tr_active r)
                    else sql_return []) (\<lambda>counted.
            if text_given ownerSs58 \<and> WATCH_TRIGGERS_MAX_PER_ADDRESS \<le> length counted then
              sql_return (error_json (''this address already has '' @ string_of_nat WATCH_TRIGGERS_MAX_PER_ADDRESS @
                '' active triggers -- the maximum per verified address. Delete one to create another.'') 403)
            else sql_bind (insert_trigger (env_owner_token env) v ownerSs58 (env_now env)) (\<lambda>row.
              sql_return (writeJson
                (case ownerAlertTriggerView row of
                   JObj kvs \<Rightarrow> JObj (AList.update ''owner_token'' (JStr (env_owner_token env)) kvs)
                 | other \<Rightarrow> other) 201)))) s)))"

definition handleAlertTriggerGet :: "alert_request \<Rightarrow> alert_env \<Rightarrow> string \<Rightarrow> alert_store \<Rightarrow> alert_response \<times> alert_store" where
  "handleAlertTriggerGet rq env tid s =
     (if \<not> isValidAlertTriggerId (JStr tid) then (error_json ''malformed trigger id'' 400, s)
      else withAlertTriggersSql env (sql_bind (select_trigger tid) (\<lambda>found.
        case found of
          None \<Rightarrow> sql_return (error_json ''no such trigger'' 404)
        | Some row \<Rightarrow>
            (case requireAlertTriggerOwner rq (row_owner_token row) of
               Some authError \<Rightarrow> sql_return authError
             | None \<Rightarrow> sql_return (owner_response (Some row))))) s)"

definition runAlertTriggerUpdate :: "alert_env \<Rightarrow> string \<Rightarrow> json \<Rightarrow> alert_response sql" where
  "runAlertTriggerUpdate env tid merged =
     (case validateAlertTriggerInput (env_url_parse env) merged of
        Inl e \<Rightarrow> sql_return (error_json e 400)
      | Inr v \<Rightarrow> sql_bind (update_trigger tid v (env_now env)) (\<lambda>row. sql_return (owner_response row)))"

definition handleAlertTriggerUpdate :: "alert_request \<Rightarrow> alert_env \<Rightarrow> string \<Rightarrow> alert_store \<Rightarrow> alert_response \<times> alert_store" where
  "handleAlertTriggerUpdate rq env tid s =
     (if \<not> isValidAlertTriggerId (JStr tid) then (error_json ''malformed trigger id'' 400, s)
      else case readAlertTriggerBody env rq of
        Inl response \<Rightarrow> (response, s)
      | Inr (JObj body) \<Rightarrow>
          withAlertTriggersSql env (sql_bind (select_trigger tid) (\<lambda>found.
            case found of
              None \<Rightarrow> sql_return (error_json ''no such trigger'' 404)
            | Some existing \<Rightarrow>
                (case requireAlertTriggerOwner rq (row_owner_token existing) of
                   Some authError \<Rightarrow> sql_return authError
                 | None \<Rightarrow> runAlertTriggerUpdate env tid (mergeAlertTriggerUpdateBody existing body)))) s
      | Inr _ \<Rightarrow> (error_json ''Request body must be a JSON object.'' 400, s))"

definition deleted_response :: "string \<Rightarrow> alert_response" where
  "deleted_response tid = writeJson (JObj [(''id'', JStr tid), (''deleted'', JVal (VBool True))]) 200"

definition handleAlertTriggerDelete :: "alert_request \<Rightarrow> alert_env \<Rightarrow> string \<Rightarrow> alert_store \<Rightarrow> alert_response \<times> alert_store" where
  "handleAlertTriggerDelete rq env tid s =
     (if \<not> isValidAlertTriggerId (JStr tid) then (error_json ''malformed trigger id'' 400, s)
      else withAlertTriggersSql env (sql_bind (select_trigger tid) (\<lambda>found.
        case found of
          None \<Rightarrow> sql_return (error_json ''no such trigger'' 404)
        | Some existing \<Rightarrow>
            (case requireAlertTriggerOwner rq (row_owner_token existing) of
               Some authError \<Rightarrow> sql_return authError
             | None \<Rightarrow> sql_bind (delete_trigger tid) (\<lambda>_. sql_return (deleted_response tid))))) s)"


section \<open>The address-scoped routes\<close>

definition owned_by :: "string \<Rightarrow> AlertTriggerRow option \<Rightarrow> bool" where
  "owned_by ss58 found \<longleftrightarrow> (case found of Some row \<Rightarrow> row_owner_ss58 row = Some ss58 | None \<Rightarrow> False)"

definition newest_first :: "('a \<Rightarrow> int) \<Rightarrow> 'a list \<Rightarrow> 'a list" where
  "newest_first f xs = js_sort (\<lambda>x y. f y - f x) xs"

definition handleWatchTriggersList :: "alert_request \<Rightarrow> alert_env \<Rightarrow> alert_store \<Rightarrow> alert_response \<times> alert_store" where
  "handleWatchTriggersList rq env s =
     (case requireVerifiedWatchSs58 rq env of
        Inl response \<Rightarrow> (response, s)
      | Inr ss58 \<Rightarrow>
          withAlertTriggersSql env (sql_bind (select_triggers (\<lambda>r. row_owner_ss58 r = Some ss58)) (\<lambda>rows.
            sql_return (writeJson (JObj [(''triggers'',
              JArr (map ownerAlertTriggerView (newest_first (\<lambda>r. num_int (row_created_at r)) rows)))]) 200))) s)"

definition handleWatchTriggerUpdate :: "alert_request \<Rightarrow> alert_env \<Rightarrow> string \<Rightarrow> alert_store \<Rightarrow> alert_response \<times> alert_store" where
  "handleWatchTriggerUpdate rq env tid s =
     (if \<not> isValidAlertTriggerId (JStr tid) then (error_json ''malformed trigger id'' 400, s)
      else case requireVerifiedWatchSs58 rq env of
        Inl response \<Rightarrow> (response, s)
      | Inr ss58 \<Rightarrow> (case readAlertTriggerBody env rq of
        Inl response \<Rightarrow> (response, s)
      | Inr (JObj body) \<Rightarrow>
          withAlertTriggersSql env (sql_bind (select_trigger tid) (\<lambda>found.
            if \<not> owned_by ss58 found then sql_return (error_json ''no such trigger'' 404)
            else runAlertTriggerUpdate env tid (mergeAlertTriggerUpdateBody (the found) body))) s
      | Inr _ \<Rightarrow> (error_json ''Request body must be a JSON object.'' 400, s)))"

definition handleWatchTriggerDelete :: "alert_request \<Rightarrow> alert_env \<Rightarrow> string \<Rightarrow> alert_store \<Rightarrow> alert_response \<times> alert_store" where
  "handleWatchTriggerDelete rq env tid s =
     (if \<not> isValidAlertTriggerId (JStr tid) then (error_json ''malformed trigger id'' 400, s)
      else case requireVerifiedWatchSs58 rq env of
        Inl response \<Rightarrow> (response, s)
      | Inr ss58 \<Rightarrow>
          withAlertTriggersSql env (sql_bind (select_trigger tid) (\<lambda>found.
            if \<not> owned_by ss58 found then sql_return (error_json ''no such trigger'' 404)
            else sql_bind (delete_trigger tid) (\<lambda>_. sql_return (deleted_response tid)))) s)"

definition deliveryRecordView :: "delivery_row \<Rightarrow> json" where
  "deliveryRecordView d =
     JObj [(''id'', JStr (string_of_nat (dl_id d))), (''delivered_at'', JInt (dl_delivered_at d)),
           (''success'', JVal (VBool (dl_success d))), (''status_code'', or_null JInt (dl_status_code d)),
           (''retry_count'', JInt (int (dl_retry_count d))), (''response_snippet'', or_null JStr (dl_response_snippet d))]"

definition select_deliveries :: "string \<Rightarrow> delivery_row list sql" where
  "select_deliveries tid = statement (\<lambda>s.
     Some (take ALERT_TRIGGER_DELIVERY_LOG_RETAIN
             (newest_first dl_delivered_at (filter (\<lambda>d. dl_trigger_id d = nat_of_digits tid) (st_deliveries s))), s))"

definition handleWatchTriggerDeliveries :: "alert_request \<Rightarrow> alert_env \<Rightarrow> string \<Rightarrow> alert_store \<Rightarrow> alert_response \<times> alert_store" where
  "handleWatchTriggerDeliveries rq env tid s =
     (if \<not> isValidAlertTriggerId (JStr tid) then (error_json ''malformed trigger id'' 400, s)
      else case requireVerifiedWatchSs58 rq env of
        Inl response \<Rightarrow> (response, s)
      | Inr ss58 \<Rightarrow>
          withAlertTriggersSql env (sql_bind (select_trigger tid) (\<lambda>found.
            if \<not> owned_by ss58 found then sql_return (error_json ''no such trigger'' 404)
            else sql_bind (select_deliveries tid) (\<lambda>rows.
              sql_return (writeJson (JObj [(''deliveries'', JArr (map deliveryRecordView rows))]) 200)))) s)"

section \<open>Dispatch\<close>

definition path_segments :: "string \<Rightarrow> string list" where
  "path_segments path = filter (\<lambda>p. p \<noteq> []) (split_on CHR ''/'' path)"

definition segment :: "nat \<Rightarrow> alert_request \<Rightarrow> string" where
  "segment i rq = (let ps = path_segments (rq_pathname rq) in if i < length ps then ps ! i else [])"

definition handleAlertTriggersRoute :: "alert_request \<Rightarrow> alert_env \<Rightarrow> alert_store \<Rightarrow> alert_response \<times> alert_store" where
  "handleAlertTriggersRoute rq env s =
     (let tid = segment 4 rq; sub = segment 5 rq
      in if tid = [] \<and> sub = [] \<and> rq_method rq = ''POST'' then handleAlertTriggerCreate rq env s
         else if tid \<noteq> [] \<and> sub = [] \<and> rq_method rq = ''GET'' then handleAlertTriggerGet rq env tid s
         else if tid \<noteq> [] \<and> sub = [] \<and> rq_method rq = ''PATCH'' then handleAlertTriggerUpdate rq env tid s
         else if tid \<noteq> [] \<and> sub = [] \<and> rq_method rq = ''DELETE'' then handleAlertTriggerDelete rq env tid s
         else (error_json ''Use POST /api/v1/alerts/triggers, or GET/PATCH/DELETE /api/v1/alerts/triggers/{id}.'' 405, s))"

definition handleWatchTriggersRoute :: "alert_request \<Rightarrow> alert_env \<Rightarrow> alert_store \<Rightarrow> alert_response \<times> alert_store" where
  "handleWatchTriggersRoute rq env s =
     (let tid = segment 4 rq; sub = segment 5 rq
      in if tid = [] \<and> rq_method rq = ''GET'' then handleWatchTriggersList rq env s
         else if tid \<noteq> [] \<and> sub = ''deliveries'' \<and> rq_method rq = ''GET'' then handleWatchTriggerDeliveries rq env tid s
         else if tid \<noteq> [] \<and> sub = [] \<and> rq_method rq = ''PATCH'' then handleWatchTriggerUpdate rq env tid s
         else if tid \<noteq> [] \<and> sub = [] \<and> rq_method rq = ''DELETE'' then handleWatchTriggerDelete rq env tid s
         else (error_json (''Use GET /api/v1/watch/triggers, PATCH/DELETE /api/v1/watch/triggers/{id}, or '' @
                           ''GET /api/v1/watch/triggers/{id}/deliveries.'') 405, s))"

section \<open>The evaluator's routes\<close>

definition handleAlertTriggersActiveList :: "alert_request \<Rightarrow> alert_env \<Rightarrow> alert_store \<Rightarrow> (alert_response + EvaluatorAlertTrigger list) \<times> alert_store" where
  "handleAlertTriggersActiveList rq env s =
     (case internal_gate ''the alert-triggers internal list is not provisioned on this deployment'' rq env of
        Some response \<Rightarrow> (Inl response, s)
      | None \<Rightarrow>
          if \<not> env_store_bound env then (Inl (error_json ''no user-state store bound'' 503), s)
          else (case select_triggers tr_active s of
                  (Some rows, s') \<Rightarrow> (Inr (map evaluatorAlertTriggerView rows), s')
                | (None, s') \<Rightarrow> (Inl (error_json ''write failed'' 502), s')))"

definition CHUNK :: nat where "CHUNK = 90"

fun chunks :: "'a list \<Rightarrow> 'a list list" where
  "chunks [] = []"
| "chunks (x # xs) = (x # take (CHUNK - 1) xs) # chunks (drop (CHUNK - 1) xs)"

text \<open>\<open>UPDATE ... SET match_count = match_count + 1, last_matched_at = ? WHERE id IN (...) RETURNING id\<close>\<close>

definition bump_matched :: "jsnum \<Rightarrow> string list \<Rightarrow> nat sql" where
  "bump_matched now ids = statement (\<lambda>s.
     let hit = (\<lambda>row. row_id row \<in> set (map nat_of_digits ids))
     in Some (length (filter hit (st_triggers s)),
              s\<lparr>st_triggers := map (\<lambda>row. if hit row
                   then row\<lparr>row_match_count := Suc (row_match_count row), row_last_matched_at := Some now\<rparr>
                   else row) (st_triggers s)\<rparr>))"

fun bump_chunks :: "jsnum \<Rightarrow> string list list \<Rightarrow> nat \<Rightarrow> nat sql" where
  "bump_chunks now [] n = sql_return n"
| "bump_chunks now (c # cs) n = sql_bind (bump_matched now c) (\<lambda>m. bump_chunks now cs (n + m))"

definition array_items :: "json \<Rightarrow> json list" where
  "array_items v = (case v of JArr xs \<Rightarrow> xs | _ \<Rightarrow> [])"

definition handleAlertTriggersMatchedWriteback :: "alert_request \<Rightarrow> alert_env \<Rightarrow> alert_store \<Rightarrow> alert_response \<times> alert_store" where
  "handleAlertTriggersMatchedWriteback rq env s =
     (case internal_gate ''the alert-triggers match write-back is not provisioned on this deployment'' rq env of
        Some response \<Rightarrow> (response, s)
      | None \<Rightarrow> (case readAlertTriggerBody env rq of
          Inl response \<Rightarrow> (response, s)
        | Inr body \<Rightarrow>
            let ids = map js_string (filter isValidAlertTriggerId (array_items (get_prop body ''trigger_ids'')))
            in if ids = [] then (error_json ''trigger_ids must be a non-empty array of trigger ids'' 400, s)
               else withAlertTriggersSql env (sql_bind (bump_chunks (env_now env) (chunks ids) 0) (\<lambda>n.
                      sql_return (writeJson (JObj [(''updated'', JInt (int n))]) 200))) s))"

text \<open>The insert of the delivery log refuses a trigger that is not there (its foreign key).\<close>

definition insert_delivery :: "json \<Rightarrow> unit sql" where
  "insert_delivery r = statement (\<lambda>s.
     let tid = nat_of_digits (js_string (get_prop r ''trigger_id''));
         d = \<lparr>dl_id = st_next_delivery s, dl_trigger_id = tid,
              dl_delivered_at = (case get_prop r ''delivered_at'' of JVal (VNum n) \<Rightarrow> num_int n | _ \<Rightarrow> 0),
              dl_success = (get_prop r ''success'' = JVal (VBool True)),
              dl_status_code = (case get_prop r ''status_code'' of
                                  JVal (VNum n) \<Rightarrow> if is_integer_num n then Some (num_int n) else None | _ \<Rightarrow> None),
              dl_retry_count = 0,
              dl_response_snippet = (case get_prop r ''response_snippet'' of
                                       JVal (VStr t) \<Rightarrow> Some (take ALERT_DELIVERY_RESPONSE_SNIPPET_MAX_BYTES t) | _ \<Rightarrow> None)\<rparr>
     in if list_ex (\<lambda>row. row_id row = tid) (st_triggers s)
        then Some ((), s\<lparr>st_deliveries := st_deliveries s @ [d], st_next_delivery := Suc (st_next_delivery s)\<rparr>)
        else None)"

definition prune_deliveries :: "string \<Rightarrow> unit sql" where
  "prune_deliveries tid = statement (\<lambda>s.
     let mine = (\<lambda>d. dl_trigger_id d = nat_of_digits tid);
         kept = map dl_id (take ALERT_TRIGGER_DELIVERY_LOG_RETAIN (newest_first dl_delivered_at (filter mine (st_deliveries s))))
     in Some ((), s\<lparr>st_deliveries := filter (\<lambda>d. \<not> (mine d \<and> dl_id d \<notin> set kept)) (st_deliveries s)\<rparr>))"

fun each_statement :: "('a \<Rightarrow> unit sql) \<Rightarrow> 'a list \<Rightarrow> unit sql" where
  "each_statement f [] = sql_return ()"
| "each_statement f (x # xs) = sql_bind (f x) (\<lambda>_. each_statement f xs)"

definition delivery_record_ok :: "json \<Rightarrow> bool" where
  "delivery_record_ok r =
     (case r of
        JVal _ \<Rightarrow> False
      | _ \<Rightarrow> isValidAlertTriggerId (get_prop r ''trigger_id'') \<and>
             (case get_prop r ''delivered_at'' of JVal (VNum n) \<Rightarrow> is_integer_num n | _ \<Rightarrow> False))"

definition write_deliveries :: "json list \<Rightarrow> unit sql" where
  "write_deliveries records =
     sql_bind (each_statement insert_delivery records) (\<lambda>_.
       each_statement prune_deliveries (first_seen (\<lambda>r. js_string (get_prop r ''trigger_id'')) records))"

definition handleAlertTriggersDeliveryLogWrite :: "alert_request \<Rightarrow> alert_env \<Rightarrow> alert_store \<Rightarrow> alert_response \<times> alert_store" where
  "handleAlertTriggersDeliveryLogWrite rq env s =
     (case internal_gate ''the alert-triggers delivery-log write-back is not provisioned on this deployment'' rq env of
        Some response \<Rightarrow> (response, s)
      | None \<Rightarrow> (case readAlertTriggerBody env rq of
          Inl response \<Rightarrow> (response, s)
        | Inr body \<Rightarrow>
            let records = filter delivery_record_ok (array_items (get_prop body ''records''))
            in if records = [] then (error_json ''records must be a non-empty array of delivery outcomes'' 400, s)
               else withAlertTriggersSql env (sql_bind (write_deliveries records) (\<lambda>_.
                      sql_return (writeJson (JObj [(''inserted'', JInt (int (length records)))]) 200))) s))"

section \<open>What an unauthorised caller sees\<close>

lemma select_then:
  "withAlertTriggersSql env (sql_bind (select_trigger tid) f) s =
   (if \<not> env_store_bound env then (error_json ''no user-state store bound'' 503, s)
    else let s' = s\<lparr>st_faults := tl (st_faults s)\<rparr>
         in if st_faults s \<noteq> [] \<and> hd (st_faults s) then (error_json ''write failed'' 502, s')
            else withAlertTriggersSql env (f (List.find (has_id tid) (st_triggers s))) s')"
  by (simp add: withAlertTriggersSql_def sql_bind_def select_trigger_def statement_def Let_def)

text \<open>The caller shows neither the trigger's token nor an address that owns it, or there is no such trigger.\<close>

definition denied :: "alert_request \<Rightarrow> alert_env \<Rightarrow> alert_store \<Rightarrow> bool" where
  "denied rq env s \<longleftrightarrow>
     (case List.find (has_id (segment 4 rq)) (st_triggers s) of
        None \<Rightarrow> True
      | Some row \<Rightarrow>
          (row_owner_token row = [] \<or> header rq ALERT_TRIGGER_OWNER_TOKEN_HEADER \<noteq> row_owner_token row) \<and>
          (case requireVerifiedWatchSs58 rq env of Inr ss58 \<Rightarrow> row_owner_ss58 row \<noteq> Some ss58 | Inl _ \<Rightarrow> True))"

definition forget_faults :: "alert_store \<Rightarrow> alert_store" where
  "forget_faults s = s\<lparr>st_faults := []\<rparr>"

text \<open>The refusal, which does not look at the tables.\<close>

definition refusal :: "alert_env \<Rightarrow> bool list \<Rightarrow> alert_response" where
  "refusal env faults =
     (if \<not> env_store_bound env then error_json ''no user-state store bound'' 503
      else if faults \<noteq> [] \<and> hd faults then error_json ''write failed'' 502
      else error_json ''no such trigger'' 404)"

definition refuses :: "alert_env \<Rightarrow> alert_store \<Rightarrow> alert_response \<times> alert_store \<Rightarrow> bool" where
  "refuses env s r \<longleftrightarrow> fst r = refusal env (st_faults s) \<and> forget_faults (snd r) = forget_faults s"

lemma select_refused:
  assumes "f (List.find (has_id tid) (st_triggers s)) = sql_return (error_json ''no such trigger'' 404)"
  shows "refuses env s (withAlertTriggersSql env (sql_bind (select_trigger tid) f) s)"
  unfolding select_then refuses_def using assms
  by (simp add: Let_def refusal_def forget_faults_def withAlertTriggersSql_def sql_return_def)

lemma not_owner: "row_owner_token row = [] \<or> header rq ALERT_TRIGGER_OWNER_TOKEN_HEADER \<noteq> row_owner_token row \<Longrightarrow>
   requireAlertTriggerOwner rq (row_owner_token row) = Some (error_json ''no such trigger'' 404)"
  by (auto simp: requireAlertTriggerOwner_def owner_token_iff)


text \<open>A handler is blind to two stores when it answers both alike and leaves the tables of the first as they were.\<close>

definition blind :: "(alert_store \<Rightarrow> alert_response \<times> alert_store) \<Rightarrow> alert_store \<Rightarrow> alert_store \<Rightarrow> bool" where
  "blind h s1 s2 \<longleftrightarrow> fst (h s1) = fst (h s2) \<and> forget_faults (snd (h s1)) = forget_faults s1"

lemma blind_const [simp]: "blind (\<lambda>s. (r, s)) s1 s2"
  by (simp add: blind_def)

lemma blind_select:
  assumes "f (List.find (has_id tid) (st_triggers s1)) = sql_return (error_json ''no such trigger'' 404)"
    and "f (List.find (has_id tid) (st_triggers s2)) = sql_return (error_json ''no such trigger'' 404)"
    and "st_faults s1 = st_faults s2"
  shows "blind (\<lambda>s. withAlertTriggersSql env (sql_bind (select_trigger tid) f) s) s1 s2"
  using select_refused [where f = f, OF assms(1)] select_refused [where f = f, OF assms(2)] assms(3)
  by (simp add: blind_def refuses_def)

lemma blind_if: "(c \<Longrightarrow> blind f s1 s2) \<Longrightarrow> (\<not> c \<Longrightarrow> blind g s1 s2) \<Longrightarrow> blind (\<lambda>s. if c then f s else g s) s1 s2"
  by (cases c) simp_all

lemma blind_sum: "(\<And>r. x = Inl r \<Longrightarrow> blind (f r) s1 s2) \<Longrightarrow> (\<And>v. x = Inr v \<Longrightarrow> blind (g v) s1 s2) \<Longrightarrow>
   blind (\<lambda>s. case x of Inl r \<Rightarrow> f r s | Inr v \<Rightarrow> g v s) s1 s2"
  by (cases x) simp_all

lemma blind_object: "(\<And>kvs. v = JObj kvs \<Longrightarrow> blind (g kvs) s1 s2) \<Longrightarrow>
   blind (\<lambda>s. case v of JVal _ \<Rightarrow> (r, s) | JArr _ \<Rightarrow> (r, s) | JObj kvs \<Rightarrow> g kvs s) s1 s2"
  by (cases v) simp_all

lemmas blind_steps = blind_if blind_sum blind_object blind_const

lemma denied_owner:
  assumes "denied rq env s"
  shows "(case List.find (has_id (segment 4 rq)) (st_triggers s) of
            None \<Rightarrow> sql_return (error_json ''no such trigger'' 404)
          | Some row \<Rightarrow> (case requireAlertTriggerOwner rq (row_owner_token row) of
                           None \<Rightarrow> f row | Some authError \<Rightarrow> sql_return authError)) =
         sql_return (error_json ''no such trigger'' 404)"
proof (cases "List.find (has_id (segment 4 rq)) (st_triggers s)")
  case (Some row)
  with assms have "requireAlertTriggerOwner rq (row_owner_token row) = Some (error_json ''no such trigger'' 404)"
    by (intro not_owner) (simp add: denied_def)
  with Some show ?thesis by simp
qed simp

lemma denied_address:
  assumes "denied rq env s" and "requireVerifiedWatchSs58 rq env = Inr ss58"
  shows "(if \<not> owned_by ss58 (List.find (has_id (segment 4 rq)) (st_triggers s)) then r else r') = r"
  using assms by (auto simp: denied_def owned_by_def split: option.splits)

lemma denied_blind:
  assumes d: "denied rq env s1" "denied rq env s2" and fl: "st_faults s1 = st_faults s2"
  shows "blind (handleAlertTriggerGet rq env (segment 4 rq)) s1 s2" and "blind (handleAlertTriggerUpdate rq env (segment 4 rq)) s1 s2"
    and "blind (handleAlertTriggerDelete rq env (segment 4 rq)) s1 s2" and "blind (handleWatchTriggerUpdate rq env (segment 4 rq)) s1 s2"
    and "blind (handleWatchTriggerDelete rq env (segment 4 rq)) s1 s2" and "blind (handleWatchTriggerDeliveries rq env (segment 4 rq)) s1 s2"
proof -
  note defs = handleAlertTriggerGet_def [abs_def] handleAlertTriggerUpdate_def [abs_def] handleAlertTriggerDelete_def [abs_def]
    handleWatchTriggerUpdate_def [abs_def] handleWatchTriggerDelete_def [abs_def] handleWatchTriggerDeliveries_def [abs_def]
  show "blind (handleAlertTriggerGet rq env (segment 4 rq)) s1 s2" "blind (handleAlertTriggerUpdate rq env (segment 4 rq)) s1 s2"
    "blind (handleAlertTriggerDelete rq env (segment 4 rq)) s1 s2" "blind (handleWatchTriggerUpdate rq env (segment 4 rq)) s1 s2"
    "blind (handleWatchTriggerDelete rq env (segment 4 rq)) s1 s2" "blind (handleWatchTriggerDeliveries rq env (segment 4 rq)) s1 s2"
    unfolding defs
    by (rule blind_steps blind_select denied_owner denied_address d fl | assumption)+
qed

text \<open>
  C7. The trigger routes are no oracle: to a caller who shows neither a trigger's token nor an
  address that owns it, every request naming an id is answered the same whether the trigger exists
  or not, whatever the tables hold, and leaves them as they were.
\<close>

theorem no_existence_oracle:
  assumes "segment 4 rq \<noteq> []" and "denied rq env s1" and "denied rq env s2" and "st_faults s1 = st_faults s2"
  shows "fst (handleAlertTriggersRoute rq env s1) = fst (handleAlertTriggersRoute rq env s2) \<and>
    forget_faults (snd (handleAlertTriggersRoute rq env s1)) = forget_faults s1 \<and>
    fst (handleWatchTriggersRoute rq env s1) = fst (handleWatchTriggersRoute rq env s2) \<and>
    forget_faults (snd (handleWatchTriggersRoute rq env s1)) = forget_faults s1"
  using denied_blind [OF assms(2-4)] assms(1)
  by (simp add: handleAlertTriggersRoute_def handleWatchTriggersRoute_def blind_def Let_def)

definition sample_row :: AlertTriggerRow where
  "sample_row = AlertTriggerValidated.extend sample_trigger
     \<lparr>row_id = 1, row_owner_token = ''abc'', row_owner_ss58 = None, row_created_at = js_int 0, row_updated_at = js_int 0,
      row_last_matched_at = None, row_match_count = 0\<rparr>"

definition sample_store :: "AlertTriggerRow list \<Rightarrow> alert_store" where
  "sample_store rows = \<lparr>st_triggers = rows, st_deliveries = [], st_next_trigger = 2, st_next_delivery = 1, st_faults = []\<rparr>"

definition sample_env :: alert_env where
  "sample_env =
     \<lparr>env_url_parse = (\<lambda>_. None), env_json_parse = (\<lambda>_. None), env_verify_token = (\<lambda>_ _. None), env_owner_token = ''t'',
      env_rate_limiter = None, env_now = js_int 1, env_watch_secret = [], env_create_token = [], env_internal_token = [],
      env_store_bound = True\<rparr>"

definition sample_get :: alert_request where
  "sample_get = \<lparr>rq_method = ''GET'', rq_pathname = ''/api/v1/alerts/triggers/1'', rq_headers = [], rq_raw = []\<rparr>"

lemma sample_segment: "segment 4 sample_get = ''1''"
  by (simp add: segment_def path_segments_def sample_get_def)

theorem no_existence_oracle_witness:
  "List.find (has_id ''1'') (st_triggers (sample_store [sample_row])) \<noteq> None \<and>
   fst (handleAlertTriggersRoute sample_get sample_env (sample_store [sample_row])) =
   fst (handleAlertTriggersRoute sample_get sample_env (sample_store []))"
proof -
  have r: "row_id sample_row = 1" "row_owner_token sample_row = ''abc''"
    by (simp_all add: sample_row_def AlertTriggerValidated.extend_def)
  have n: "nat_of_digits ''1'' = 1" by (simp add: nat_of_digits_def digit_val_def)
  have "denied sample_get sample_env (sample_store [sample_row])"
    unfolding denied_def sample_segment
    by (simp add: sample_store_def has_id_def n r header_def sample_get_def requireVerifiedWatchSs58_def sample_env_def)
  moreover have "denied sample_get sample_env (sample_store [])" by (simp add: denied_def sample_store_def)
  moreover have "st_faults (sample_store [sample_row]) = st_faults (sample_store [])" by (simp add: sample_store_def)
  ultimately show ?thesis using no_existence_oracle [of sample_get sample_env "sample_store [sample_row]" "sample_store []"]
    by (simp add: sample_segment) (simp add: sample_store_def has_id_def n r)
qed

section \<open>Invariants of the tables\<close>

text \<open>
  What a property of the tables has to promise for each statement, so that every handler keeps it.
  A statement that throws leaves the tables as they were.
\<close>

definition keeps :: "(alert_store \<Rightarrow> bool) \<Rightarrow> 'a sql \<Rightarrow> bool" where
  "keeps I m \<longleftrightarrow> (\<forall>s. I s \<longrightarrow> I (snd (m s)))"

definition handles :: "(alert_store \<Rightarrow> bool) \<Rightarrow> (alert_store \<Rightarrow> 'r \<times> alert_store) \<Rightarrow> bool" where
  "handles I h \<longleftrightarrow> (\<forall>s. I s \<longrightarrow> I (snd (h s)))"

lemma handles_const: "handles I (\<lambda>s. (r, s))"
  by (simp add: handles_def)

lemma handles_if: "(c \<Longrightarrow> handles I f) \<Longrightarrow> (\<not> c \<Longrightarrow> handles I g) \<Longrightarrow> handles I (\<lambda>s. if c then f s else g s)"
  by (cases c) simp_all

lemma handles_sum: "(\<And>r. x = Inl r \<Longrightarrow> handles I (f r)) \<Longrightarrow> (\<And>v. x = Inr v \<Longrightarrow> handles I (g v)) \<Longrightarrow>
   handles I (\<lambda>s. case x of Inl r \<Rightarrow> f r s | Inr v \<Rightarrow> g v s)"
  by (cases x) simp_all

lemma handles_option: "(\<And>r. x = Some r \<Longrightarrow> handles I (f r)) \<Longrightarrow> (x = None \<Longrightarrow> handles I g) \<Longrightarrow>
   handles I (\<lambda>s. case x of None \<Rightarrow> g s | Some r \<Rightarrow> f r s)"
  by (cases x) simp_all

lemma handles_object: "(\<And>kvs. v = JObj kvs \<Longrightarrow> handles I (g kvs)) \<Longrightarrow>
   handles I (\<lambda>s. case v of JVal _ \<Rightarrow> (r, s) | JArr _ \<Rightarrow> (r, s) | JObj kvs \<Rightarrow> g kvs s)"
  by (cases v) (simp_all add: handles_def)

lemmas handles_steps = handles_if handles_sum handles_option handles_object handles_const

locale alert_invariant =
  fixes I :: "alert_store \<Rightarrow> bool" and parse :: "string \<Rightarrow> url option"
  assumes faults: "I s \<Longrightarrow> I (s\<lparr>st_faults := f\<rparr>)"
    and insert: "well_formed parse v \<Longrightarrow> token \<noteq> [] \<Longrightarrow> keeps I (insert_trigger token v owner now)"
    and update: "well_formed parse v \<Longrightarrow> keeps I (update_trigger tid v now)"
    and delete: "keeps I (delete_trigger tid)"
    and bump: "keeps I (bump_matched now ids)"
    and log: "keeps I (insert_delivery r)"
    and prune: "keeps I (prune_deliveries tid)"
begin

lemma keeps_return: "keeps I (sql_return x)"
  by (simp add: keeps_def sql_return_def)

lemma keeps_bind: "keeps I m \<Longrightarrow> (\<And>x. keeps I (f x)) \<Longrightarrow> keeps I (sql_bind m f)"
  unfolding keeps_def sql_bind_def by (auto split: option.split prod.split; metis snd_conv)

lemma keeps_read: "keeps I (select_trigger tid)" "keeps I (select_triggers P)" "keeps I (select_deliveries tid)"
  by (auto simp: keeps_def select_trigger_def select_triggers_def select_deliveries_def statement_def Let_def faults)

lemma keeps_bumps: "keeps I (bump_chunks now cs n)"
  by (induction cs arbitrary: n) (auto intro: keeps_return keeps_bind bump)

lemma keeps_each: "(\<And>x. keeps I (f x)) \<Longrightarrow> keeps I (each_statement f xs)"
  by (induction xs) (auto intro: keeps_return keeps_bind)

lemma with_sql: "keeps I m \<Longrightarrow> handles I (withAlertTriggersSql env m)"
  unfolding keeps_def handles_def withAlertTriggersSql_def by (auto split: option.split prod.split; metis snd_conv)

lemma keeps_if: "(c \<Longrightarrow> keeps I m) \<Longrightarrow> (\<not> c \<Longrightarrow> keeps I n) \<Longrightarrow> keeps I (if c then m else n)"
  by simp

lemma keeps_option: "(\<And>r. x = Some r \<Longrightarrow> keeps I (f r)) \<Longrightarrow> (x = None \<Longrightarrow> keeps I g) \<Longrightarrow>
   keeps I (case x of None \<Rightarrow> g | Some r \<Rightarrow> f r)"
  by (cases x) simp_all

lemma keeps_update: "env_url_parse env = parse \<Longrightarrow> keeps I (runAlertTriggerUpdate env tid merged)"
  unfolding runAlertTriggerUpdate_def
  by (auto split: sum.split intro!: keeps_return keeps_bind update dest: validated_well_formed)

lemmas keeps_rules = keeps_bind keeps_return keeps_read keeps_bumps keeps_each keeps_if keeps_option delete log prune

lemma handlers:
  assumes p: "env_url_parse env = parse" and t: "env_owner_token env \<noteq> []"
  shows "handles I (handleAlertTriggerCreate rq env)" "handles I (handleAlertTriggerGet rq env tid)"
    "handles I (handleAlertTriggerUpdate rq env tid)" "handles I (handleAlertTriggerDelete rq env tid)"
    "handles I (handleWatchTriggersList rq env)" "handles I (handleWatchTriggerUpdate rq env tid)"
    "handles I (handleWatchTriggerDelete rq env tid)" "handles I (handleWatchTriggerDeliveries rq env tid)"
  unfolding handleAlertTriggerCreate_def [abs_def] handleAlertTriggerGet_def [abs_def] handleAlertTriggerUpdate_def [abs_def]
    handleAlertTriggerDelete_def [abs_def] handleWatchTriggersList_def [abs_def] handleWatchTriggerUpdate_def [abs_def]
    handleWatchTriggerDelete_def [abs_def] handleWatchTriggerDeliveries_def [abs_def]
  by (rule handles_steps with_sql keeps_rules keeps_update insert p t | (drule validated_well_formed, simp add: p; fail))+

lemma evaluator_handlers:
  "handles I (handleAlertTriggersMatchedWriteback rq env)" "handles I (handleAlertTriggersDeliveryLogWrite rq env)"
  unfolding handleAlertTriggersMatchedWriteback_def [abs_def] handleAlertTriggersDeliveryLogWrite_def [abs_def] write_deliveries_def Let_def
  by (rule handles_steps with_sql keeps_rules)+

lemma routes:
  assumes "env_url_parse env = parse" and "env_owner_token env \<noteq> []"
  shows "handles I (handleAlertTriggersRoute rq env)" "handles I (handleWatchTriggersRoute rq env)"
  unfolding handleAlertTriggersRoute_def [abs_def] handleWatchTriggersRoute_def [abs_def] Let_def
  by (rule handles_steps handlers assms)+

end

lemma keeps_statement:
  assumes "\<And>s f. I s \<Longrightarrow> I (s\<lparr>st_faults := f\<rparr>)" and "\<And>s x s'. I s \<Longrightarrow> f s = Some (x, s') \<Longrightarrow> I s'"
  shows "keeps I (statement f)"
proof (unfold keeps_def, intro allI impI)
  fix s assume "I s"
  then have "I (s\<lparr>st_faults := tl (st_faults s)\<rparr>)" by (rule assms(1))
  then show "I (snd (statement f s))" using assms(2)
    by (auto simp: statement_def Let_def split: option.split)
qed

lemmas statements = insert_trigger_def update_trigger_def delete_trigger_def bump_matched_def insert_delivery_def prune_deliveries_def

text \<open>Ids are unique and below the counters, and the delivery log refers to triggers that exist.\<close>

definition ids_law :: "nat list \<Rightarrow> nat \<Rightarrow> delivery_row list \<Rightarrow> nat \<Rightarrow> bool" where
  "ids_law ids n dls m \<longleftrightarrow>
     distinct ids \<and> (\<forall>i \<in> set ids. i < n) \<and> distinct (map dl_id dls) \<and>
     (\<forall>d \<in> set dls. dl_id d < m \<and> dl_trigger_id d \<in> set ids)"

definition ids_ok :: "alert_store \<Rightarrow> bool" where
  "ids_ok s \<longleftrightarrow> ids_law (map row_id (st_triggers s)) (st_next_trigger s) (st_deliveries s) (st_next_delivery s)"

text \<open>Every stored trigger is one the check of a body accepts, and has an owner token.\<close>

definition rows_ok :: "(string \<Rightarrow> url option) \<Rightarrow> alert_store \<Rightarrow> bool" where
  "rows_ok parse s \<longleftrightarrow> (\<forall>row \<in> set (st_triggers s). well_formed parse row \<and> row_owner_token row \<noteq> [])"

lemma row_id_set_trigger [simp]: "row_id (set_trigger v now row) = row_id row" "row_owner_token (set_trigger v now row) = row_owner_token row"
  by (simp_all add: set_trigger_def)

lemma map_if_same: "(\<And>x. f (g x) = f x) \<Longrightarrow> map f (map (\<lambda>x. if P x then g x else x) xs) = map f xs"
  by simp

lemma row_id_extend [simp]: "row_id (AlertTriggerValidated.extend v \<lparr>row_id = i, row_owner_token = t, row_owner_ss58 = o',
   row_created_at = c, row_updated_at = u, row_last_matched_at = l, row_match_count = k\<rparr>) = i"
  "row_owner_token (AlertTriggerValidated.extend v \<lparr>row_id = i, row_owner_token = t, row_owner_ss58 = o',
   row_created_at = c, row_updated_at = u, row_last_matched_at = l, row_match_count = k\<rparr>) = t"
  by (simp_all add: AlertTriggerValidated.extend_def)

lemma distinct_map_filterI: "distinct (map f xs) \<Longrightarrow> distinct (map f (filter P xs))"
  by (induction xs) auto

lemma law_insert: "ids_law ids n dls m \<Longrightarrow> ids_law (ids @ [n]) (Suc n) dls m"
  by (auto simp: ids_law_def less_Suc_eq)

lemma law_delete: "ids_law (map row_id rows) n dls m \<Longrightarrow>
   ids_law (map row_id (filter (\<lambda>r. row_id r \<noteq> i) rows)) n (filter (\<lambda>d. dl_trigger_id d \<noteq> i) dls) m"
  by (auto simp: ids_law_def distinct_map_filterI)

lemma law_log: "ids_law ids n dls m \<Longrightarrow> dl_id d = m \<Longrightarrow> dl_trigger_id d \<in> set ids \<Longrightarrow> ids_law ids n (dls @ [d]) (Suc m)"
  by (auto simp: ids_law_def less_Suc_eq)

lemma law_prune: "ids_law ids n dls m \<Longrightarrow> ids_law ids n (filter P dls) m"
  by (auto simp: ids_law_def distinct_map_filterI)

interpretation ids: alert_invariant ids_ok parse for parse
proof unfold_locales
  fix s :: alert_store and f assume "ids_ok s"
  then show "ids_ok (s\<lparr>st_faults := f\<rparr>)" by (simp add: ids_ok_def)
next
  fix v token owner now
  show "keeps ids_ok (insert_trigger token v owner now)"
    unfolding insert_trigger_def
    by (rule keeps_statement) (auto simp: ids_ok_def Let_def intro: law_insert)
next
  fix v tid now
  show "keeps ids_ok (update_trigger tid v now)"
    unfolding update_trigger_def
    by (rule keeps_statement) (auto simp: ids_ok_def Let_def comp_def if_distrib cong: if_cong)
next
  fix tid
  show "keeps ids_ok (delete_trigger tid)"
    unfolding delete_trigger_def
    by (rule keeps_statement) (auto simp: ids_ok_def Let_def has_id_def intro: law_delete)
next
  fix now ids
  show "keeps ids_ok (bump_matched now ids)"
    unfolding bump_matched_def
    by (rule keeps_statement) (auto simp: ids_ok_def Let_def comp_def if_distrib cong: if_cong)
next
  fix r
  show "keeps ids_ok (insert_delivery r)"
    unfolding insert_delivery_def
    by (rule keeps_statement) (auto simp: ids_ok_def Let_def list_ex_iff intro!: law_log image_eqI [OF sym] split: if_splits)
next
  fix tid
  show "keeps ids_ok (prune_deliveries tid)"
    unfolding prune_deliveries_def
    by (rule keeps_statement) (auto simp: ids_ok_def Let_def intro: law_prune)
qed

lemma well_formed_extend [simp]: "well_formed parse (AlertTriggerValidated.extend (AlertTriggerValidated.truncate v) m) = well_formed parse v"
  by (simp add: well_formed_def restricted_def AlertTriggerValidated.extend_def AlertTriggerValidated.truncate_def)

lemma well_formed_set [simp]: "well_formed parse (set_trigger v now row) = well_formed parse v"
  by (simp add: well_formed_def restricted_def set_trigger_def)

lemma well_formed_bump [simp]: "well_formed parse (row\<lparr>row_match_count := k, row_last_matched_at := l\<rparr>) = well_formed parse row"
  by (simp add: well_formed_def restricted_def)

interpretation rows: alert_invariant "rows_ok parse" parse for parse
proof unfold_locales
  fix s :: alert_store and f assume "rows_ok parse s"
  then show "rows_ok parse (s\<lparr>st_faults := f\<rparr>)" by (simp add: rows_ok_def)
next
  fix v :: AlertTriggerValidated and owner now and token :: string assume "well_formed parse v" "token \<noteq> []"
  then show "keeps (rows_ok parse) (insert_trigger token v owner now)"
    unfolding insert_trigger_def by (intro keeps_statement) (auto simp: rows_ok_def Let_def)
next
  fix v :: AlertTriggerValidated and tid now assume "well_formed parse v"
  then show "keeps (rows_ok parse) (update_trigger tid v now)"
    unfolding update_trigger_def by (intro keeps_statement) (auto simp: rows_ok_def Let_def)
next
  show "keeps (rows_ok parse) (delete_trigger tid)" for tid
    unfolding delete_trigger_def by (rule keeps_statement) (auto simp: rows_ok_def)
next
  show "keeps (rows_ok parse) (bump_matched now ids)" for now ids
    unfolding bump_matched_def by (rule keeps_statement) (auto simp: rows_ok_def Let_def)
next
  show "keeps (rows_ok parse) (insert_delivery r)" for r
    unfolding insert_delivery_def by (rule keeps_statement) (auto simp: rows_ok_def Let_def split: if_splits)
next
  show "keeps (rows_ok parse) (prune_deliveries tid)" for tid
    unfolding prune_deliveries_def by (rule keeps_statement) (auto simp: rows_ok_def Let_def)
qed

text \<open>
  C12. Whatever requests arrive and whichever statements fail, the alert tables stay sound: ids are
  unique, every delivery belongs to a stored trigger, and every stored trigger is well formed and
  has an owner token.
\<close>

theorem tables_stay_sound:
  assumes "env_owner_token env \<noteq> []" and "ids_ok s" and "rows_ok (env_url_parse env) s"
  shows "\<forall>h \<in> {handleAlertTriggersRoute rq env, handleWatchTriggersRoute rq env,
               handleAlertTriggersMatchedWriteback rq env, handleAlertTriggersDeliveryLogWrite rq env}.
           ids_ok (snd (h s)) \<and> rows_ok (env_url_parse env) (snd (h s))"
  using ids.routes [OF refl assms(1)] rows.routes [OF refl assms(1)] ids.evaluator_handlers rows.evaluator_handlers assms(2,3)
  by (simp add: handles_def)

theorem tables_stay_sound_witness:
  "ids_ok (snd (handleAlertTriggersRoute sample_get sample_env (sample_store [sample_row])))"
proof -
  have "row_id sample_row = 1" "row_owner_token sample_row = ''abc''" "well_formed (env_url_parse sample_env) sample_row"
    using sample_well_formed [of "env_url_parse sample_env"]
    by (simp_all add: sample_row_def well_formed_def restricted_def AlertTriggerValidated.extend_def)
  then have "ids_ok (sample_store [sample_row])" "rows_ok (env_url_parse sample_env) (sample_store [sample_row])"
    by (simp_all add: ids_ok_def ids_law_def rows_ok_def sample_store_def)
  then show ?thesis using tables_stay_sound [of sample_env "sample_store [sample_row]" sample_get] by (simp add: sample_env_def)
qed

end
