(* ===== verification/Alert_Writeback.thy ===== *)
theory Alert_Writeback
  imports Alert_Routes
begin

text \<open>
  What the evaluator's write-backs and the address-scoped routes do to the alert tables: match counts
  written in chunks, the delivery log cut to the newest entries, and the cap on active triggers.
\<close>

section \<open>Match counts\<close>

lemma concat_chunks [simp]: "concat (chunks xs) = xs"
  by (induction xs rule: chunks.induct) simp_all

lemma chunks_length: "c \<in> set (chunks xs) \<Longrightarrow> length c \<le> CHUNK"
  by (induction xs rule: chunks.induct) (auto simp: CHUNK_def)

definition matched_row :: "jsnum \<Rightarrow> string list \<Rightarrow> AlertTriggerRow \<Rightarrow> AlertTriggerRow" where
  "matched_row now ids row =
     (if row_id row \<in> nat_of_digits ` set ids
      then row\<lparr>row_match_count := Suc (row_match_count row), row_last_matched_at := Some now\<rparr> else row)"

lemma row_id_matched [simp]: "row_id (matched_row now ids row) = row_id row"
  by (simp add: matched_row_def)

lemma bump_matched_run:
  "st_faults s = [] \<Longrightarrow> bump_matched now ids s =
     (Some (length (filter (\<lambda>row. row_id row \<in> nat_of_digits ` set ids) (st_triggers s))),
      s\<lparr>st_triggers := map (matched_row now ids) (st_triggers s)\<rparr>)"
  by (simp add: bump_matched_def statement_def Let_def matched_row_def [abs_def])

lemma matched_twice:
  assumes "distinct (map nat_of_digits (c @ d))"
  shows "matched_row now d (matched_row now c row) = matched_row now (c @ d) row"
  using assms by (auto simp: matched_row_def)

lemma matched_count:
  assumes "distinct (map nat_of_digits (c @ d))"
  shows "length (filter (\<lambda>row. row_id row \<in> nat_of_digits ` set c) rows) +
         length (filter (\<lambda>row. row_id row \<in> nat_of_digits ` set d) rows) =
         length (filter (\<lambda>row. row_id row \<in> nat_of_digits ` set (c @ d)) rows)"
  using assms by (induction rows) auto

lemma bump_chunks_run:
  assumes "st_faults s = []" and "distinct (map nat_of_digits (concat cs))"
  shows "bump_chunks now cs n s =
     (Some (n + length (filter (\<lambda>row. row_id row \<in> nat_of_digits ` set (concat cs)) (st_triggers s))),
      s\<lparr>st_triggers := map (matched_row now (concat cs)) (st_triggers s)\<rparr>)"
  using assms
proof (induction cs arbitrary: n s)
  case Nil
  then show ?case by (simp add: sql_return_def matched_row_def)
next
  case (Cons c cs)
  let ?s = "s\<lparr>st_triggers := map (matched_row now c) (st_triggers s)\<rparr>"
  have d: "distinct (map nat_of_digits (c @ concat cs))" using Cons.prems(2) by simp
  have e: "filter (\<lambda>row. row_id row \<in> X) (map (matched_row now c) rows) =
           map (matched_row now c) (filter (\<lambda>row. row_id row \<in> X) rows)" for X rows
    by (simp add: filter_map comp_def)
  have "bump_chunks now (c # cs) n s = bump_chunks now cs (n + length (filter (\<lambda>row. row_id row \<in> nat_of_digits ` set c) (st_triggers s))) ?s"
    using Cons.prems(1) by (simp add: sql_bind_def bump_matched_run)
  also have "\<dots> = (Some (n + length (filter (\<lambda>row. row_id row \<in> nat_of_digits ` set (c @ concat cs)) (st_triggers s))),
      s\<lparr>st_triggers := map (matched_row now (c @ concat cs)) (st_triggers s)\<rparr>)"
    using Cons.prems d
    by (subst Cons.IH) (simp_all add: e matched_count [OF d, symmetric] matched_twice [OF d, symmetric] comp_def del: set_append)
  finally show ?case by simp
qed

text \<open>
  Writing back a batch of matches counts each listed trigger exactly once and stamps it, leaves
  every other trigger alone, reports how many there were, and binds at most ninety ids a statement,
  however many triggers matched.
\<close>

theorem matches_counted_once:
  assumes "st_faults s = []" and "distinct (map nat_of_digits ids)"
  shows "bump_chunks now (chunks ids) 0 s =
     (Some (length (filter (\<lambda>row. row_id row \<in> nat_of_digits ` set ids) (st_triggers s))),
      s\<lparr>st_triggers := map (matched_row now ids) (st_triggers s)\<rparr>) \<and>
    list_all (\<lambda>c. length c \<le> 90) (chunks ids)"
  using bump_chunks_run [where cs = "chunks ids", OF assms(1)] assms(2) chunks_length [of _ ids]
  by (simp add: list_all_iff CHUNK_def)

theorem matches_counted_once_witness:
  "fst (bump_chunks (js_int 9) (chunks [''1'', ''2'']) 0 (sample_store [sample_row])) = Some 1"
proof -
  have r: "row_id sample_row = 1" by (simp add: sample_row_def)
  have d: "nat_of_digits ''1'' = 1" "nat_of_digits ''2'' = 2" by (simp_all add: nat_of_digits_def digit_val_def)
  have "st_faults (sample_store [sample_row]) = []" "distinct (map nat_of_digits [''1'', ''2''])"
    by (simp_all add: sample_store_def d)
  from matches_counted_once [OF this, of "js_int 9"] show ?thesis by (simp add: sample_store_def r d)
qed

section \<open>The delivery log\<close>

lemma keepsD: "keeps I m \<Longrightarrow> I s \<Longrightarrow> m s = (x, s') \<Longrightarrow> I s'"
  unfolding keeps_def by (metis snd_conv)

interpretation newest: comparator "\<lambda>x y. f y - f x" for f :: "'a \<Rightarrow> int"
  by unfold_locales auto

text \<open>What pruning leaves of one trigger's deliveries.\<close>

definition retained :: "delivery_row list \<Rightarrow> delivery_row list" where
  "retained ds = filter (\<lambda>d. dl_id d \<in> dl_id ` set (take ALERT_TRIGGER_DELIVERY_LOG_RETAIN (newest_first dl_delivered_at ds))) ds"

definition deliveries_of :: "nat \<Rightarrow> alert_store \<Rightarrow> delivery_row list" where
  "deliveries_of i s = filter (\<lambda>d. dl_trigger_id d = i) (st_deliveries s)"

lemma retained_is:
  assumes "distinct (map dl_id ds)"
  shows "distinct (retained ds)" and "set (retained ds) = set (take ALERT_TRIGGER_DELIVERY_LOG_RETAIN (newest_first dl_delivered_at ds))"
proof -
  have "set (take n (newest_first dl_delivered_at ds)) \<subseteq> set ds" for n
    using set_take_subset [of n "newest_first dl_delivered_at ds"] by (simp add: newest_first_def)
  then show "set (retained ds) = set (take ALERT_TRIGGER_DELIVERY_LOG_RETAIN (newest_first dl_delivered_at ds))"
    using assms unfolding retained_def by (auto simp: distinct_map dest: inj_onD)
  show "distinct (retained ds)" using assms by (simp add: retained_def distinct_map)
qed

lemma retained_newest:
  assumes "distinct (map dl_id ds)"
  shows "length (retained ds) = min ALERT_TRIGGER_DELIVERY_LOG_RETAIN (length ds)"
    and "k \<in> set (retained ds) \<Longrightarrow> d \<in> set ds - set (retained ds) \<Longrightarrow> dl_delivered_at d \<le> dl_delivered_at k"
proof -
  let ?n = ALERT_TRIGGER_DELIVERY_LOG_RETAIN and ?xs = "newest_first dl_delivered_at ds"
  have m: "mset ?xs = mset ds" by (simp add: newest_first_def)
  have "distinct ?xs" using assms m by (metis distinct_map mset_eq_imp_distinct_iff)
  then have "length (take ?n ?xs) = card (set (retained ds))"
    unfolding retained_is(2) [OF assms] by (metis distinct_card distinct_take)
  also have "\<dots> = length (retained ds)" using retained_is(1) [OF assms] by (rule distinct_card)
  finally show "length (retained ds) = min ?n (length ds)" using mset_eq_length [OF m] by simp
  assume k: "k \<in> set (retained ds)" and d: "d \<in> set ds - set (retained ds)"
  have "sorted_wrt (\<lambda>x y. dl_delivered_at y - dl_delivered_at x \<le> 0) (take ?n ?xs @ drop ?n ?xs)"
    unfolding append_take_drop_id newest_first_def by (rule newest.sorted_js_sort)
  moreover have "d \<in> set (drop ?n ?xs)"
    using d m unfolding retained_is(2) [OF assms] by (metis Diff_iff Un_iff append_take_drop_id set_append set_mset_mset)
  ultimately show "dl_delivered_at d \<le> dl_delivered_at k"
    using k unfolding retained_is(2) [OF assms] sorted_wrt_append by auto
qed

lemma retained_idem:
  assumes "distinct (map dl_id ds)"
  shows "retained (retained ds) = retained ds"
proof -
  let ?n = ALERT_TRIGGER_DELIVERY_LOG_RETAIN
  have "length (newest_first dl_delivered_at (retained ds)) \<le> ?n"
    using retained_newest(1) [OF assms] by (simp add: newest_first_def)
  then have "take ?n (newest_first dl_delivered_at (retained ds)) = newest_first dl_delivered_at (retained ds)" by simp
  then show ?thesis unfolding retained_def [of "retained ds"] by (simp add: newest_first_def)
qed

lemma prune_run:
  assumes "prune_deliveries tid s = (Some (), s')" and "ids_ok s"
  shows "deliveries_of i s' = (if i = nat_of_digits tid then retained (deliveries_of i s) else deliveries_of i s)"
proof -
  have f: "st_deliveries s' = filter (\<lambda>d. \<not> (dl_trigger_id d = nat_of_digits tid \<and>
      dl_id d \<notin> set (map dl_id (take ALERT_TRIGGER_DELIVERY_LOG_RETAIN (newest_first dl_delivered_at (deliveries_of (nat_of_digits tid) s))))))
      (st_deliveries s)"
    using assms(1) unfolding prune_deliveries_def statement_def deliveries_of_def by (auto simp: Let_def split: if_splits)
  show ?thesis unfolding deliveries_of_def f filter_filter
    by (auto simp: retained_def deliveries_of_def intro!: filter_cong)
qed

lemma distinct_deliveries_of: "ids_ok s \<Longrightarrow> distinct (map dl_id (deliveries_of i s))"
  by (simp add: ids_ok_def ids_law_def deliveries_of_def distinct_map_filterI)

lemma prunes_run:
  assumes "each_statement prune_deliveries tids s = (Some (), s')" and "ids_ok s"
  shows "deliveries_of i s' = (if i \<in> nat_of_digits ` set tids then retained (deliveries_of i s) else deliveries_of i s)"
  using assms
proof (induction tids arbitrary: s)
  case (Cons t tids)
  then obtain s1 where s1: "prune_deliveries t s = (Some (), s1)" and rest: "each_statement prune_deliveries tids s1 = (Some (), s')"
    by (auto simp: sql_bind_def split: prod.splits option.splits)
  have "ids_ok s1" by (rule keepsD [OF ids.prune Cons.prems(2) s1])
  from Cons.IH [OF rest this] prune_run [OF s1 Cons.prems(2), of i] show ?case
    using retained_idem [OF distinct_deliveries_of [OF Cons.prems(2)]] by auto
qed (simp add: sql_return_def)

lemma inserts_other:
  assumes "each_statement insert_delivery records s = (Some (), s')"
    and "i \<notin> (\<lambda>r. nat_of_digits (js_string (get_prop r ''trigger_id''))) ` set records"
  shows "deliveries_of i s' = deliveries_of i s"
  using assms
proof (induction records arbitrary: s)
  case (Cons r records)
  then obtain s1 where s1: "insert_delivery r s = (Some (), s1)" and rest: "each_statement insert_delivery records s1 = (Some (), s')"
    by (auto simp: sql_bind_def split: prod.splits option.splits)
  have "deliveries_of i s1 = deliveries_of i s"
    using s1 Cons.prems(2) by (auto simp: insert_delivery_def statement_def deliveries_of_def Let_def split: if_splits)
  with Cons.IH [OF rest] Cons.prems(2) show ?case by simp
qed (simp add: sql_return_def)

text \<open>
  When a batch of delivery outcomes is written, each trigger it names is left with at most
  twenty entries, the newest ones, counting the batch itself, and the log of every other trigger is
  untouched.
\<close>

theorem delivery_log_bounded:
  assumes "ids_ok s" and "write_deliveries records s = (Some (), s')"
  shows "\<exists>s1. each_statement insert_delivery records s = (Some (), s1) \<and>
    (\<forall>i. if i \<in> (\<lambda>r. nat_of_digits (js_string (get_prop r ''trigger_id''))) ` set records
         then length (deliveries_of i s') = min 20 (length (deliveries_of i s1)) \<and>
              set (deliveries_of i s') \<subseteq> set (deliveries_of i s1) \<and>
              (\<forall>k \<in> set (deliveries_of i s'). \<forall>d \<in> set (deliveries_of i s1) - set (deliveries_of i s').
                 dl_delivered_at d \<le> dl_delivered_at k)
         else deliveries_of i s' = deliveries_of i s)"
proof -
  let ?tid = "\<lambda>r. js_string (get_prop r ''trigger_id'')"
  obtain s1 where s1: "each_statement insert_delivery records s = (Some (), s1)"
    and p: "each_statement prune_deliveries (first_seen ?tid records) s1 = (Some (), s')"
    using assms(2) by (auto simp: write_deliveries_def sql_bind_def split: prod.splits option.splits)
  have ok: "ids_ok s1" by (rule keepsD [OF ids.keeps_each assms(1) s1]) (rule ids.log)
  let ?touched = "(\<lambda>r. nat_of_digits (?tid r)) ` set records"
  have e: "deliveries_of i s' = (if i \<in> ?touched then retained (deliveries_of i s1) else deliveries_of i s1)" for i
    using prunes_run [OF p ok, of i] by (simp add: image_image)
  have d: "distinct (map dl_id (deliveries_of i s1))" for i by (rule distinct_deliveries_of [OF ok])
  have sub: "set (retained ds) \<subseteq> set ds" for ds by (auto simp: retained_def)
  have t: "length (deliveries_of i s') = min 20 (length (deliveries_of i s1)) \<and> set (deliveries_of i s') \<subseteq> set (deliveries_of i s1) \<and>
       (\<forall>k \<in> set (deliveries_of i s'). \<forall>d \<in> set (deliveries_of i s1) - set (deliveries_of i s').
          dl_delivered_at d \<le> dl_delivered_at k)" if "i \<in> ?touched" for i
    using that sub retained_newest(1) [OF d, of i] retained_newest(2) [OF d, of _ i]
    unfolding e by (simp only: if_P ALERT_TRIGGER_DELIVERY_LOG_RETAIN_def) blast
  have o: "deliveries_of i s' = deliveries_of i s" if "i \<notin> ?touched" for i
    using inserts_other [OF s1 that] that unfolding e by (simp only: if_False)
  show ?thesis
    by (rule exI [of _ s1], rule conjI [OF s1], rule allI, split if_split, rule conjI, rule impI, erule t, rule impI, erule o)
qed

definition sample_outcome :: json where
  "sample_outcome = JObj [(''trigger_id'', JStr ''1''), (''delivered_at'', JInt 5)]"

theorem delivery_log_bounded_witness:
  "\<exists>s1. each_statement insert_delivery [sample_outcome] (sample_store [sample_row]) = (Some (), s1)"
proof -
  have r: "row_id sample_row = 1" by (simp add: sample_row_def)
  have d: "nat_of_digits ''1'' = 1" by (simp add: nat_of_digits_def digit_val_def)
  let ?s = "snd (write_deliveries [sample_outcome] (sample_store [sample_row]))"
  have "fst (write_deliveries [sample_outcome] (sample_store [sample_row])) = Some ()"
    by (simp add: write_deliveries_def sql_bind_def insert_delivery_def prune_deliveries_def statement_def sample_store_def
        sample_outcome_def first_seen_def sql_return_def Let_def r d)
  then have w: "write_deliveries [sample_outcome] (sample_store [sample_row]) = (Some (), ?s)" by (metis prod.collapse)
  have i: "ids_ok (sample_store [sample_row])" by (simp add: ids_ok_def ids_law_def sample_store_def r)
  from delivery_log_bounded [OF i w] show ?thesis by blast
qed

section \<open>The cap on active triggers of an address\<close>

definition active_of :: "string \<Rightarrow> alert_store \<Rightarrow> AlertTriggerRow list" where
  "active_of a s = filter (\<lambda>r. row_owner_ss58 r = Some a \<and> tr_active r) (st_triggers s)"

lemma active_faults [simp]: "active_of a (s\<lparr>st_faults := f\<rparr>) = active_of a s"
  by (simp add: active_of_def)

lemma insert_active:
  "length (active_of a (snd (insert_trigger token v owner now s))) \<le> Suc (length (active_of a s))"
  by (auto simp: insert_trigger_def statement_def active_of_def Let_def split: option.split)

lemma select_triggers_then:
  "sql_bind (select_triggers P) f s =
   (let s' = s\<lparr>st_faults := tl (st_faults s)\<rparr>
    in if st_faults s \<noteq> [] \<and> hd (st_faults s) then (None, s') else f (filter P (st_triggers s)) s')"
  by (simp add: sql_bind_def select_triggers_def statement_def Let_def)

lemma capped_insert:
  assumes "length (active_of a s) \<le> WATCH_TRIGGERS_MAX_PER_ADDRESS"
  shows "length (active_of a (snd (sql_bind (select_triggers (\<lambda>r. row_owner_ss58 r = Some a \<and> tr_active r)) (\<lambda>counted.
     if WATCH_TRIGGERS_MAX_PER_ADDRESS \<le> length counted then sql_return e
     else sql_bind (insert_trigger token v owner now) (\<lambda>row. sql_return (f row))) s)))
    \<le> WATCH_TRIGGERS_MAX_PER_ADDRESS"
proof -
  let ?s = "s\<lparr>st_faults := tl (st_faults s)\<rparr>"
  have i: "snd (sql_bind (insert_trigger token v owner now) (\<lambda>row. sql_return (f row)) s') = snd (insert_trigger token v owner now s')" for s'
    by (simp add: sql_bind_def sql_return_def split: prod.split option.split)
  show ?thesis
    using assms insert_active [of a token v owner now ?s]
    by (auto simp: select_triggers_then Let_def sql_return_def i active_of_def)
qed

lemma with_sql_store: "snd (withAlertTriggersSql env m s) = (if env_store_bound env then snd (m s) else s)"
  by (simp add: withAlertTriggersSql_def split: prod.split option.split)

text \<open>
  Creating triggers never takes a verified address past five active ones.
\<close>

theorem create_respects_cap:
  assumes "resolveAlertTriggerCreateAuth rq env = Inr (Some a)" and "a \<noteq> []"
    and "length (active_of a s) \<le> 5"
  shows "length (active_of a (snd (handleAlertTriggerCreate rq env s))) \<le> 5"
proof -
  have t: "text_given (Some a)" using assms(2) by (simp add: text_given_def)
  have c: "length (active_of a s) \<le> WATCH_TRIGGERS_MAX_PER_ADDRESS" using assms(3) by (simp add: WATCH_TRIGGERS_MAX_PER_ADDRESS_def)
  have "length (active_of a (snd (handleAlertTriggerCreate rq env s))) \<le> WATCH_TRIGGERS_MAX_PER_ADDRESS"
    using c by (simp add: handleAlertTriggerCreate_def assms(1) t with_sql_store capped_insert split: sum.split option.split)
  then show ?thesis by (simp add: WATCH_TRIGGERS_MAX_PER_ADDRESS_def)
qed

definition sample_wallet_env :: alert_env where
  "sample_wallet_env = sample_env\<lparr>env_verify_token := (\<lambda>_ _. Some ''5F''), env_watch_secret := ''s''\<rparr>"

definition sample_create :: alert_request where
  "sample_create = \<lparr>rq_method = ''POST'', rq_pathname = ''/api/v1/alerts/triggers'',
     rq_headers = [(''x-watch-trigger-token'', ''w'')], rq_raw = []\<rparr>"

theorem create_respects_cap_witness:
  "length (active_of ''5F'' (snd (handleAlertTriggerCreate sample_create sample_wallet_env (sample_store [sample_row])))) \<le> 5"
proof -
  have "resolveAlertTriggerCreateAuth sample_create sample_wallet_env = Inr (Some ''5F'')"
    by (simp add: resolveAlertTriggerCreateAuth_def header_def sample_create_def sample_wallet_env_def sample_env_def
        ALERT_TRIGGER_CREATE_TOKEN_HEADER_def WATCH_TRIGGER_TOKEN_HEADER_def)
  moreover have "length (active_of ''5F'' (sample_store [sample_row])) \<le> 5" by (simp add: active_of_def sample_store_def)
  ultimately show ?thesis by (intro create_respects_cap) simp_all
qed

text \<open>
  A patch is not counted against the cap: an address whose active triggers are at any number can
  resume a paused one.
\<close>

lemma resume_accepted:
  assumes "well_formed parse old"
  shows "validateAlertTriggerInput parse (mergeAlertTriggerUpdateBody old [(''active'', JVal (VBool True))]) =
    Inr (AlertTriggerValidated.truncate (old\<lparr>tr_active := True\<rparr>))"
proof -
  let ?body = "[(''active'', JVal (VBool True))]"
  obtain kvs where k: "mergeAlertTriggerUpdateBody old ?body = JObj kvs" using merge_object by blast
  have g: "get_prop (mergeAlertTriggerUpdateBody old ?body) ''active'' = JVal (VBool True)"
    by (simp add: mergeAlertTriggerUpdateBody_def map_of_spread omitNullValues_def)
  have n: "not_given ?body f \<longleftrightarrow> f \<noteq> ''active''" for f by (auto simp: not_given_def)
  show ?thesis using assms unfolding k validate_Inr unfolding k [symmetric] reads_as_def
    by (simp add: g merged_base n fields_self well_formed_def restricted_def AlertTriggerValidated.truncate_def del: get_prop.simps)
qed

lemma resume_past_cap:
  assumes r: "st_triggers s = rows @ [row]" "distinct (map row_id (rows @ [row]))" "row_id row = nat_of_digits tid"
    and "row_owner_ss58 row = Some a" "\<not> tr_active row" "well_formed (env_url_parse env) row" "st_faults s = []"
  shows "length (active_of a (snd (runAlertTriggerUpdate env tid
           (mergeAlertTriggerUpdateBody row [(''active'', JVal (VBool True))]) s))) = Suc (length (active_of a s))"
proof -
  let ?v = "AlertTriggerValidated.truncate (row\<lparr>tr_active := True\<rparr>)"
  have "map (\<lambda>x. if has_id tid x then set_trigger ?v (env_now env) x else x) rows = rows"
    using r(2,3) by (intro map_idI) (force simp: has_id_def)
  then have "st_triggers (snd (update_trigger tid ?v (env_now env) s)) = rows @ [set_trigger ?v (env_now env) row]"
    using assms(7) r(1,3) by (simp add: update_trigger_def statement_def Let_def has_id_def)
  then have "st_triggers (snd (runAlertTriggerUpdate env tid (mergeAlertTriggerUpdateBody row [(''active'', JVal (VBool True))]) s)) =
      rows @ [set_trigger ?v (env_now env) row]"
    by (auto simp: runAlertTriggerUpdate_def resume_accepted [OF assms(6)] sql_bind_def sql_return_def split: prod.split option.split)
  then show ?thesis using assms(4,5) r(1) by (simp add: active_of_def set_trigger_def AlertTriggerValidated.truncate_def)
qed

text \<open>The limit on a stored snippet counts code units, not bytes.\<close>

lemma snippet_longer_than_limit:
  "\<exists>t. utf8Bytes (take ALERT_DELIVERY_RESPONSE_SNIPPET_MAX_BYTES t) = 2 * ALERT_DELIVERY_RESPONSE_SNIPPET_MAX_BYTES"
proof (rule exI [of _ "replicate 500 (char_of (233::nat))"])
  show "utf8Bytes (take ALERT_DELIVERY_RESPONSE_SNIPPET_MAX_BYTES (replicate 500 (char_of (233::nat)))) =
     2 * ALERT_DELIVERY_RESPONSE_SNIPPET_MAX_BYTES"
    by (simp add: utf8Bytes_def ALERT_DELIVERY_RESPONSE_SNIPPET_MAX_BYTES_def sum_list_replicate map_replicate)
qed

end
