(* ===== verification/Webhooks.thy ===== *)
theory Webhooks
  imports Alert_Triggers History_Json
begin

text \<open>
  Change-feed webhooks (\<open>src/webhooks.ts\<close>): what a subscription may ask for, the change event built
  from a publish, which subscriptions it selects, one delivery with its HTTP attempts, and the record
  and summary of outcomes.  The URL parser, DNS, the digests and the subscriber's answers are
  arguments.  The lists of an event's kinds and netuids are arrays, as the builder makes them.
\<close>

section \<open>Keys and ids\<close>

definition WEBHOOK_KV_PREFIX :: string where "WEBHOOK_KV_PREFIX = ''webhooks:sub:''"
definition WEBHOOK_DELIVERY_PREFIX :: string where "WEBHOOK_DELIVERY_PREFIX = ''webhooks:delivery:''"

definition subscriptionStorageKey :: "string \<Rightarrow> string" where
  "subscriptionStorageKey i = WEBHOOK_KV_PREFIX @ i"

definition deliveryStoragePrefix :: "string \<Rightarrow> string" where
  "deliveryStoragePrefix subscriptionId = WEBHOOK_DELIVERY_PREFIX @ subscriptionId @ '':''"

definition deliveryStorageKey :: "string \<Rightarrow> string \<Rightarrow> string" where
  "deliveryStorageKey subscriptionId eventId = deliveryStoragePrefix subscriptionId @ eventId"

text \<open>\<open>/^[0-9a-f]{8}-[0-9a-f]{4}-[0-9a-f]{4}-[0-9a-f]{4}-[0-9a-f]{12}$/i\<close>\<close>

definition isValidSubscriptionId :: "json \<Rightarrow> bool" where
  "isValidSubscriptionId v =
     (let ps = split_on CHR ''-'' (js_string v)
      in map length ps = [8, 4, 4, 4, 12] \<and> list_all (list_all (\<lambda>c. is_hex_lower (lower_char c))) ps)"

section \<open>Subscriptions\<close>

definition MAX_FILTER_NETUIDS :: nat where "MAX_FILTER_NETUIDS = 64"
definition MAX_FILTER_KINDS :: nat where "MAX_FILTER_KINDS = 8"
definition VALID_CHANGE_KINDS :: "string list" where "VALID_CHANGE_KINDS = [''subnets'', ''artifacts'']"

record Filters =
  f_netuids :: "jsnum list option"
  f_kinds :: "string list option"

definition netuid_value :: "json \<Rightarrow> jsnum option" where
  "netuid_value v =
     (case v of
        JVal (VNum n) \<Rightarrow> if is_integer_num n \<and> 0 \<le> num_int n \<and> num_int n \<le> 65535 then Some n else None
      | _ \<Rightarrow> None)"

definition kind_value :: "json \<Rightarrow> string option" where
  "kind_value v = (case v of JVal (VStr s) \<Rightarrow> if s \<in> set VALID_CHANGE_KINDS then Some s else None | _ \<Rightarrow> None)"

text \<open>
  One facet: absent, or an array of at most so many values, each checked; repetitions are dropped and
  the rest sorted.  \<open>None\<close> is the refusal of the whole filter.
\<close>

definition facet :: "nat \<Rightarrow> (json \<Rightarrow> 'v option) \<Rightarrow> ('v \<Rightarrow> 'v \<Rightarrow> int) \<Rightarrow> json \<Rightarrow> 'v list option option" where
  "facet limit check cmp v =
     (case v of
        JVal VUndef \<Rightarrow> Some None
      | JArr xs \<Rightarrow>
          if limit < length xs then None
          else (case traverse check xs of
                  None \<Rightarrow> None
                | Some vs \<Rightarrow> Some (Some (js_sort cmp (first_seen (\<lambda>x. x) vs))))
      | _ \<Rightarrow> None)"

definition normalizeFilters :: "json \<Rightarrow> Filters option" where
  "normalizeFilters filters =
     (if nullish filters then Some \<lparr>f_netuids = None, f_kinds = None\<rparr>
      else case filters of
             JObj _ \<Rightarrow>
               (case facet MAX_FILTER_NETUIDS netuid_value num_cmp (get_prop filters ''netuids'') of
                  None \<Rightarrow> None
                | Some netuids \<Rightarrow>
                    (case facet MAX_FILTER_KINDS kind_value cmp_str (get_prop filters ''kinds'') of
                       None \<Rightarrow> None
                     | Some kinds \<Rightarrow> Some \<lparr>f_netuids = netuids, f_kinds = kinds\<rparr>))
           | _ \<Rightarrow> None)"

definition filters_json :: "Filters \<Rightarrow> json" where
  "filters_json f =
     JObj ((case f_netuids f of Some ns \<Rightarrow> [(''netuids'', JArr (map JNum ns))] | None \<Rightarrow> []) @
           (case f_kinds f of Some ks \<Rightarrow> [(''kinds'', JArr (map JStr ks))] | None \<Rightarrow> []))"

record Subscription =
  sub_url :: string
  sub_filters :: Filters
  sub_secret :: "string option"

definition validateSubscriptionInput :: "(string \<Rightarrow> url option) \<Rightarrow> json \<Rightarrow> string + Subscription" where
  "validateSubscriptionInput parse input =
     (case input of
        JObj _ \<Rightarrow>
          if \<not> (case get_prop input ''url'' of JVal (VStr u) \<Rightarrow> isPublicWebhookUrl parse u | _ \<Rightarrow> False) then
            Inl (TICK @ ''url'' @ TICK @ '' must be a public https:// URL (no credentials, no private/loopback hosts, default port).'')
          else (case normalizeFilters (get_prop input ''filters'') of
            None \<Rightarrow> Inl (TICK @ ''filters'' @ TICK @ '' must be an object {netuids?: integer[], kinds?: ('' @ QUOTE @ ''subnets'' @ QUOTE @
                         ''|'' @ QUOTE @ ''artifacts'' @ QUOTE @ '')[]}.'')
          | Some filters \<Rightarrow>
              let error = Inl (TICK @ ''secret'' @ TICK @ '', when provided, must be a 16-256 character string.'');
                  ok = (\<lambda>secret. Inr \<lparr>sub_url = the_str (get_prop input ''url''), sub_filters = filters, sub_secret = secret\<rparr>)
              in case get_prop input ''secret'' of
                   JVal VUndef \<Rightarrow> ok None
                 | JVal (VStr s) \<Rightarrow> if length s < 16 \<or> 256 < length s then error else ok (Some s)
                 | _ \<Rightarrow> error)
      | _ \<Rightarrow> Inl ''Request body must be a JSON object.'')"

section \<open>The change event\<close>

definition NETUID_ARTIFACT_DIRS :: "string list" where
  "NETUID_ARTIFACT_DIRS =
     [''subnets'', ''surfaces'', ''profiles'', ''endpoints'', ''candidates'', ''evidence'', ''health/subnets'',
      ''health/badges'', ''verification/subnets'', ''review/gaps'']"

text \<open>A directory of the list, at the start of the text or after a slash, is its end.\<close>

definition ends_in_dir :: "string \<Rightarrow> bool" where
  "ends_in_dir p =
     list_ex (\<lambda>d. ends_with d p \<and> (length p = length d \<or> p ! (length p - length d - 1) = CHR ''/'')) NETUID_ARTIFACT_DIRS"

text \<open>
  \<open>/(?:^|\/)(?:subnets|...)\/(\d+)\.json$/\<close>: read from the end, the digits are all those before the
  extension, because a slash must precede them.
\<close>

definition netuidFromArtifactPath :: "string \<Rightarrow> jsnum option" where
  "netuidFromArtifactPath artifactPath =
     (if \<not> ends_with ''.json'' artifactPath then None
      else let stem = rev (take (length artifactPath - 5) artifactPath);
               digits = rev (takeWhile is_digit stem);
               rest = rev (dropWhile is_digit stem)
           in if digits \<noteq> [] \<and> rest \<noteq> [] \<and> List.last rest = CHR ''/'' \<and> ends_in_dir (butlast rest)
              then Some (string_to_number digits) else None)"

definition artifactPaths :: "json \<Rightarrow> string list" where
  "artifactPaths entries =
     (case entries of
        JArr xs \<Rightarrow>
          List.map_filter (\<lambda>entry.
            case (case entry of JVal (VStr s) \<Rightarrow> entry | _ \<Rightarrow> get_prop entry ''path'') of
              JVal (VStr s) \<Rightarrow> if s \<noteq> [] then Some s else None
            | _ \<Rightarrow> None) xs
      | _ \<Rightarrow> [])"

definition recordOrNull :: "json \<Rightarrow> json" where
  "recordOrNull v = (case v of JObj _ \<Rightarrow> v | _ \<Rightarrow> JNull)"

definition object_or_empty :: "json \<Rightarrow> json" where
  "object_or_empty v = (case v of JVal _ \<Rightarrow> JObj [] | _ \<Rightarrow> v)"

definition array_or_empty :: "json \<Rightarrow> json list" where
  "array_or_empty v = (case v of JArr xs \<Rightarrow> xs | _ \<Rightarrow> [])"

definition entry_netuid :: "json \<Rightarrow> jsnum option" where
  "entry_netuid entry =
     (case entry of
        JVal (VNum n) \<Rightarrow> Some n
      | _ \<Rightarrow> (case get_prop entry ''netuid'' of JVal (VNum n) \<Rightarrow> Some n | _ \<Rightarrow> None))"

definition coalesce :: "json \<Rightarrow> json \<Rightarrow> json" where
  "coalesce a b = (if nullish a then b else a)"

definition JLen :: "'a list \<Rightarrow> json" where
  "JLen xs = JInt (int (length xs))"

definition buildChangeEvent :: "json \<Rightarrow> json \<Rightarrow> json" where
  "buildChangeEvent changelog pointer =
     (let cl = coalesce (recordOrNull changelog) (JObj []); ptr = coalesce (recordOrNull pointer) (JObj []);
          artifacts = object_or_empty (get_prop cl ''artifacts'');
          subnets = object_or_empty (get_prop cl ''subnets'');
          added = artifactPaths (get_prop artifacts ''added'');
          modified = artifactPaths (get_prop artifacts ''modified'');
          removed = artifactPaths (get_prop artifacts ''removed'');
          subnetsAdded = array_or_empty (get_prop subnets ''added'');
          subnetsRemoved = array_or_empty (get_prop subnets ''removed'');
          subnetsRenamed = array_or_empty (get_prop subnets ''renamed'');
          netuids = first_seen (\<lambda>x. x)
            (List.map_filter entry_netuid (subnetsAdded @ subnetsRemoved @ subnetsRenamed) @
             List.map_filter netuidFromArtifactPath (added @ modified @ removed));
          hasArtifactChanges = 0 < length added + length modified + length removed;
          hasSubnetChanges = 0 < length subnetsAdded + length subnetsRemoved + length subnetsRenamed
      in JObj
          [(''type'', JStr ''metagraph.publish''),
           (''published_at'', coalesce (get_prop ptr ''published_at'') JNull),
           (''generated_at'', coalesce (get_prop cl ''generated_at'') JNull),
           (''contract_version'', coalesce (get_prop cl ''contract_version'') (coalesce (get_prop ptr ''contract_version'') JNull)),
           (''change_kinds'', JArr (map JStr ((if hasSubnetChanges then [''subnets''] else []) @
                                              (if hasArtifactChanges then [''artifacts''] else [])))),
           (''affected_netuids'', JArr (map JNum (js_sort num_cmp netuids))),
           (''summary'', JObj
             [(''artifacts'', JObj [(''added'', JLen added), (''modified'', JLen modified), (''removed'', JLen removed)]),
              (''subnets'', JObj [(''added'', JLen subnetsAdded), (''removed'', JLen subnetsRemoved), (''renamed'', JLen subnetsRenamed)])]),
           (''subnets'', JObj [(''added'', JArr subnetsAdded), (''removed'', JArr subnetsRemoved), (''renamed'', JArr subnetsRenamed)]),
           (''artifacts'', JObj [(''added'', strings_json added), (''modified'', strings_json modified), (''removed'', strings_json removed)])])"

section \<open>Which subscriptions an event selects\<close>

text \<open>\<open>new Set(xs).has(v)\<close> for values that are not objects.\<close>

definition set_has :: "json list \<Rightarrow> json \<Rightarrow> bool" where
  "set_has xs v = (case v of JVal _ \<Rightarrow> v \<in> set xs | _ \<Rightarrow> False)"

definition facet_matches :: "json \<Rightarrow> json \<Rightarrow> bool" where
  "facet_matches facet_filter event_values =
     (case facet_filter of
        JArr wanted \<Rightarrow> list_ex (set_has (array_or_empty event_values)) wanted
      | _ \<Rightarrow> True)"

definition eventMatchesFilters :: "json \<Rightarrow> json \<Rightarrow> bool" where
  "eventMatchesFilters event filters =
     (if \<not> truthy filters \<or> (get_prop filters ''netuids'' = JUndef \<and> get_prop filters ''kinds'' = JUndef) then True
      else if \<not> facet_matches (get_prop filters ''kinds'') (get_prop event ''change_kinds'') then False
      else if \<not> facet_matches (get_prop filters ''netuids'') (get_prop event ''affected_netuids'') then False
      else True)"

section \<open>One delivery\<close>

text \<open>
  The answer to one HTTP attempt: a status, or a throw, which is a timeout or not.  What a delivery
  answers, with how often it posted and how long it slept between attempts.
\<close>

datatype fetch_outcome = HttpStatus nat | FetchTimeout | FetchError

record DeliveryResult =
  dr_status :: string
  dr_reason :: "string option"
  dr_status_code :: "nat option"
  dr_attempts :: "nat option"
  dr_retryable :: "bool option"

definition plain_result :: "string \<Rightarrow> string option \<Rightarrow> DeliveryResult" where
  "plain_result st reason =
     \<lparr>dr_status = st, dr_reason = reason, dr_status_code = None, dr_attempts = None, dr_retryable = None\<rparr>"

fun transient_reason :: "fetch_outcome \<Rightarrow> string" where
  "transient_reason (HttpStatus code) = ''http-'' @ string_of_nat code"
| "transient_reason FetchTimeout = ''timeout''"
| "transient_reason FetchError = ''network-error''"

text \<open>What one attempt decides: a result, or (no result) another attempt.\<close>

fun attempt_result :: "nat \<Rightarrow> fetch_outcome \<Rightarrow> DeliveryResult option" where
  "attempt_result attempt (HttpStatus code) =
     (if 200 \<le> code \<and> code < 300 then
        Some \<lparr>dr_status = ''delivered'', dr_reason = None, dr_status_code = Some code, dr_attempts = Some attempt, dr_retryable = None\<rparr>
      else if 300 \<le> code \<and> code < 400 then
        Some \<lparr>dr_status = ''failed'', dr_reason = Some ''redirect-not-followed'', dr_status_code = Some code,
              dr_attempts = Some attempt, dr_retryable = Some False\<rparr>
      else if 400 \<le> code \<and> code < 500 \<and> code \<noteq> 429 then
        Some \<lparr>dr_status = ''failed'', dr_reason = Some (''http-'' @ string_of_nat code), dr_status_code = Some code,
              dr_attempts = Some attempt, dr_retryable = Some False\<rparr>
      else None)"
| "attempt_result attempt _ = None"

text \<open>The loop over attempts, the number left counted down; the posts made and the sleeps come with the result.\<close>

fun attempt_loop :: "(nat \<Rightarrow> fetch_outcome) \<Rightarrow> nat \<Rightarrow> nat \<Rightarrow> string \<Rightarrow> nat \<Rightarrow> DeliveryResult \<times> nat \<times> nat list" where
  "attempt_loop fetchFn maxAttempts backoffBaseMs lastReason 0 =
     (\<lparr>dr_status = ''failed'', dr_reason = Some lastReason, dr_status_code = None, dr_attempts = Some maxAttempts,
       dr_retryable = Some True\<rparr>, 0, [])"
| "attempt_loop fetchFn maxAttempts backoffBaseMs lastReason (Suc left) =
     (let attempt = maxAttempts - left
      in case attempt_result attempt (fetchFn attempt) of
           Some result \<Rightarrow> (result, 1, [])
         | None \<Rightarrow>
             let (result, posts, sleeps) =
                   attempt_loop fetchFn maxAttempts backoffBaseMs (transient_reason (fetchFn attempt)) left
             in (result, Suc posts, (if attempt < maxAttempts then [backoffBaseMs * 2 ^ (attempt - 1)] else []) @ sleeps))"

definition deliverChangeEvent ::
    "(string \<Rightarrow> url option) \<Rightarrow> json \<Rightarrow> json \<Rightarrow> (nat \<Rightarrow> fetch_outcome) \<Rightarrow> nat \<Rightarrow> nat \<Rightarrow>
     (string \<Rightarrow> dns_error + string list) option \<Rightarrow> DeliveryResult \<times> nat \<times> nat list" where
  "deliverChangeEvent parse subscription event fetchFn maxAttempts backoffBaseMs resolver =
     (let stop = (\<lambda>r. (r, 0, []))
      in case get_prop subscription ''url'' of
           JVal (VStr u) \<Rightarrow>
             if \<not> isPublicWebhookUrl parse u then stop (plain_result ''skipped'' (Some ''unsafe-url''))
             else if \<not> eventMatchesFilters event (get_prop subscription ''filters'') then stop (plain_result ''filtered'' None)
             else (case get_prop subscription ''secret'' of
                     JVal (VStr secret) \<Rightarrow>
                       if secret = [] then stop (plain_result ''skipped'' (Some ''no-secret''))
                       else (case resolvedWebhookUrlStatus parse u resolver of
                               StatusResolveError \<Rightarrow>
                                 stop ((plain_result ''failed'' (Some ''resolve-error''))\<lparr>dr_retryable := Some True\<rparr>)
                             | StatusUnsafe \<Rightarrow> stop (plain_result ''skipped'' (Some ''unsafe-url''))
                             | StatusOk \<Rightarrow> attempt_loop fetchFn maxAttempts backoffBaseMs ''unknown'' maxAttempts)
                   | _ \<Rightarrow> stop (plain_result ''skipped'' (Some ''no-secret'')))
         | _ \<Rightarrow> stop (plain_result ''skipped'' (Some ''invalid'')))"

section \<open>Delivery records\<close>

datatype disposition = Delivered | RetryLater | Dead

definition disposition_state :: "disposition \<Rightarrow> string" where
  "disposition_state d = (case d of Delivered \<Rightarrow> ''delivered'' | RetryLater \<Rightarrow> ''pending'' | Dead \<Rightarrow> ''dead'')"

definition nat_or_null :: "nat option \<Rightarrow> json" where
  "nat_or_null = or_null (\<lambda>n. JInt (int n))"

definition deliveryRecordFor ::
    "string \<Rightarrow> string \<Rightarrow> DeliveryResult \<Rightarrow> disposition \<Rightarrow> nat \<Rightarrow> string \<Rightarrow> string option \<Rightarrow> json" where
  "deliveryRecordFor subscriptionId eventId result disp atts nowIso nextAttemptAt =
     JObj [(''subscription_id'', JStr subscriptionId), (''event_id'', JStr eventId),
           (''state'', JStr (disposition_state disp)), (''round'', JInt (int atts)),
           (''reason'', or_null JStr (dr_reason result)), (''status_code'', nat_or_null (dr_status_code result)),
           (''last_attempt_at'', JStr nowIso),
           (''next_attempt_at'', if disp = RetryLater then or_null JStr nextAttemptAt else JNull)]"

text \<open>\<open>a > b\<close> of two stored times: both texts by code units.\<close>

definition later_attempt :: "json \<Rightarrow> json \<Rightarrow> bool" where
  "later_attempt a b \<longleftrightarrow> the_str (get_prop b ''last_attempt_at'') < the_str (get_prop a ''last_attempt_at'')"

definition summary_step :: "nat \<times> nat \<times> json option \<Rightarrow> json \<Rightarrow> nat \<times> nat \<times> json option" where
  "summary_step acc r =
     (let (pending, deadLetter, latest) = acc;
          st = get_prop r ''state'';
          d = (if st = JStr ''dead'' then deadLetter + 1 else deadLetter);
          p = (if st \<noteq> JStr ''dead'' \<and> st \<noteq> JStr ''delivered'' then pending + 1 else pending);
          l = (if st \<noteq> JStr ''delivered'' \<and> (case latest of None \<Rightarrow> True | Some x \<Rightarrow> later_attempt r x) then Some r else latest)
      in (p, d, l))"

definition is_record :: "json \<Rightarrow> bool" where
  "is_record v = (case v of JVal _ \<Rightarrow> False | _ \<Rightarrow> True)"

definition summarizeDeliveryRecords :: "json list \<Rightarrow> json" where
  "summarizeDeliveryRecords records =
     (let (pending, deadLetter, latest) = foldl summary_step (0, 0, None) (filter is_record records)
      in JObj
          [(''status'', JStr (if 0 < deadLetter then ''dead_letter'' else if 0 < pending then ''retrying'' else ''ok'')),
           (''pending'', JInt (int pending)), (''dead_letter'', JInt (int deadLetter)),
           (''last_failure'', or_null (\<lambda>r. JObj
             [(''event_id'', get_prop r ''event_id''), (''attempts'', get_prop r ''round''), (''reason'', get_prop r ''reason''),
              (''status_code'', get_prop r ''status_code''), (''state'', get_prop r ''state''),
              (''last_attempt_at'', get_prop r ''last_attempt_at''), (''next_attempt_at'', get_prop r ''next_attempt_at'')]) latest)])"

definition publicSubscriptionView :: "json \<Rightarrow> json" where
  "publicSubscriptionView r =
     (case r of
        JVal _ \<Rightarrow> JNull
      | _ \<Rightarrow> JObj [(''id'', get_prop r ''id''), (''url'', get_prop r ''url''),
                    (''filters'', if truthy (get_prop r ''filters'') then get_prop r ''filters'' else JObj []),
                    (''created_at'', coalesce (get_prop r ''created_at'') JNull),
                    (''active'', JVal (VBool (get_prop r ''active'' \<noteq> JVal (VBool False))))])"

section \<open>What a delivery does\<close>

definition exhausted :: "nat \<Rightarrow> string \<Rightarrow> DeliveryResult" where
  "exhausted maxAttempts reason =
     \<lparr>dr_status = ''failed'', dr_reason = Some reason, dr_status_code = None, dr_attempts = Some maxAttempts, dr_retryable = Some True\<rparr>"

text \<open>The loop stops at the first attempt that decides, and is exhausted when none does.\<close>

definition deciding :: "(nat \<Rightarrow> fetch_outcome) \<Rightarrow> nat \<Rightarrow> bool" where
  "deciding fetchFn k \<longleftrightarrow> attempt_result k (fetchFn k) \<noteq> None"

lemma attempt_loop_find:
  assumes "left \<le> m"
  shows "case attempt_loop fetchFn m b reason left of (result, posts, sleeps) \<Rightarrow>
     (case List.find (deciding fetchFn) [Suc (m - left)..<Suc m] of
        Some k \<Rightarrow> attempt_result k (fetchFn k) = Some result \<and> posts = k - (m - left)
      | None \<Rightarrow> result = exhausted m (if left = 0 then reason else transient_reason (fetchFn m)) \<and> posts = left)"
  using assms
proof (induction left arbitrary: reason)
  case (Suc left)
  let ?k = "m - left"
  have k: "[Suc (m - Suc left)..<Suc m] = ?k # [Suc ?k..<Suc m]" using Suc.prems by (simp add: upt_conv_Cons Suc_diff_Suc del: upt_Suc)
  have pos: "?k - (m - Suc left) = 1" "\<And>j. Suc ?k \<le> j \<Longrightarrow> j - (m - Suc left) = Suc (j - ?k)" using Suc.prems by auto
  have ge: "Suc ?k \<le> j" if "List.find P [Suc ?k..<Suc m] = Some j" for P j
  proof -
    from that have "j \<in> set [Suc ?k..<Suc m]" unfolding find_Some_iff by (metis nth_mem)
    then show ?thesis by (auto simp del: upt_Suc)
  qed
  show ?case
  proof (cases "attempt_result ?k (fetchFn ?k)")
    case None
    have "left = 0 \<Longrightarrow> ?k = m" by simp
    with None Suc.IH [of "transient_reason (fetchFn ?k)"] Suc.prems show ?thesis
      unfolding k by (auto simp: deciding_def Let_def pos(2) simp del: upt_Suc dest: ge split: prod.splits option.splits if_splits)
  qed (use Suc.prems in \<open>simp add: k deciding_def del: upt_Suc\<close>)
qed (simp add: exhausted_def)

lemma find_upt:
  "List.find P [Suc 0..<Suc m] = Some k \<longleftrightarrow> 1 \<le> k \<and> k \<le> m \<and> P k \<and> (\<forall>j. 1 \<le> j \<and> j < k \<longrightarrow> \<not> P j)"
  unfolding find_Some_iff
proof
  assume "\<exists>i<length [Suc 0..<Suc m]. P ([Suc 0..<Suc m] ! i) \<and> k = [Suc 0..<Suc m] ! i \<and> (\<forall>j<i. \<not> P ([Suc 0..<Suc m] ! j))"
  then obtain i where i: "i < m" "P (Suc i)" "k = Suc i" "\<forall>j<i. \<not> P (Suc j)" by (auto simp del: upt_Suc)
  then show "1 \<le> k \<and> k \<le> m \<and> P k \<and> (\<forall>j. 1 \<le> j \<and> j < k \<longrightarrow> \<not> P j)" by (auto simp: less_Suc_eq_0_disj Suc_le_eq gr0_conv_Suc)
next
  assume k: "1 \<le> k \<and> k \<le> m \<and> P k \<and> (\<forall>j. 1 \<le> j \<and> j < k \<longrightarrow> \<not> P j)"
  then show "\<exists>i<length [Suc 0..<Suc m]. P ([Suc 0..<Suc m] ! i) \<and> k = [Suc 0..<Suc m] ! i \<and> (\<forall>j<i. \<not> P ([Suc 0..<Suc m] ! j))"
    by (intro exI [of _ "k - 1"]) (auto simp del: upt_Suc)
qed

lemma attempts_made:
  assumes "attempt_loop fetchFn m b reason m = (result, posts, sleeps)"
  shows "posts \<le> m \<and> (\<forall>k. 1 \<le> k \<and> k < posts \<longrightarrow> \<not> deciding fetchFn k) \<and>
    (if 0 < posts \<and> deciding fetchFn posts then attempt_result posts (fetchFn posts) = Some result
     else posts = m \<and> dr_retryable result = Some True \<and> dr_status result = ''failed'')"
proof (cases "List.find (deciding fetchFn) [Suc 0..<Suc m]")
  note f = attempt_loop_find [where left = m and m = m and fetchFn = fetchFn and b = b and reason = reason, unfolded assms]
  case None
  then have "\<forall>j \<in> {1..m}. \<not> deciding fetchFn j" by (auto simp: find_None_iff simp del: upt_Suc)
  with f None show ?thesis by (auto simp: exhausted_def simp del: upt_Suc)
next
  note f = attempt_loop_find [where left = m and m = m and fetchFn = fetchFn and b = b and reason = reason, unfolded assms]
  case (Some k)
  then have "1 \<le> k \<and> k \<le> m \<and> deciding fetchFn k \<and> (\<forall>j. 1 \<le> j \<and> j < k \<longrightarrow> \<not> deciding fetchFn j)" unfolding find_upt by blast
  with f Some show ?thesis by (auto simp del: upt_Suc)
qed

lemma deliver_runs_loop:
  assumes "deliverChangeEvent parse subscription event fetchFn m b resolver = (result, posts, sleeps)"
  shows "(posts = 0 \<and> dr_status result \<noteq> ''delivered'') \<or>
    (\<exists>u secret. get_prop subscription ''url'' = JStr u \<and> isPublicWebhookUrl parse u \<and>
        resolvedWebhookUrlStatus parse u resolver = StatusOk \<and> eventMatchesFilters event (get_prop subscription ''filters'') \<and>
        get_prop subscription ''secret'' = JStr secret \<and> secret \<noteq> [] \<and>
        attempt_loop fetchFn m b ''unknown'' m = (result, posts, sleeps))"
  using assms unfolding deliverChangeEvent_def Let_def plain_result_def
  by (auto split: json.splits jsval.splits if_splits url_status.splits)


definition sample_subscription :: json where
  "sample_subscription = JObj [(''url'', JStr ''https://a.b''), (''secret'', JStr ''0123456789abcdef'')]"

definition sample_parse :: "string \<Rightarrow> url option" where
  "sample_parse v = Some \<lparr>protocol = ''https:'', username = [], password = [], port = [], hostname = ''a.b''\<rparr>"


end
