(* ===== verification/Webhook_Queue.thy ===== *)
theory Webhook_Queue
  imports Webhooks Queue_Delivery
begin

text \<open>
  Webhook deliveries on a queue: the rules of \<open>src/webhook-queue.ts\<close> and, of \<open>workers/api.ts\<close>, the
  fan-out that enqueues one message per selected subscription and the consumer of a batch.  The KV
  store, \<open>JSON.parse\<close>, the digest of an event's text and the delivery itself are arguments.
\<close>

section \<open>Messages and the retry schedule\<close>

record WebhookDeliveryMessage =
  wm_subscription_id :: string
  wm_event_id :: string
  wm_body :: string

definition WEBHOOK_QUEUE_MAX_ATTEMPTS :: nat where "WEBHOOK_QUEUE_MAX_ATTEMPTS = 8"
definition WEBHOOK_QUEUE_BASE_DELAY_SECONDS :: nat where "WEBHOOK_QUEUE_BASE_DELAY_SECONDS = 5 * 60"
definition WEBHOOK_QUEUE_MAX_DELAY_SECONDS :: nat where "WEBHOOK_QUEUE_MAX_DELAY_SECONDS = 12 * 60 * 60"

text \<open>\<open>atts\<close> is the count of attempts the queue reports, a whole number.\<close>

definition webhookRetryDelaySeconds :: "nat \<Rightarrow> nat \<Rightarrow> nat \<Rightarrow> nat" where
  "webhookRetryDelaySeconds atts baseSeconds maxSeconds =
     (let round = (if 1 \<le> atts then atts else 1);
          doublings = min (round - 1) 32
      in min (baseSeconds * 2 ^ doublings) maxSeconds)"

definition nonempty_string :: "json \<Rightarrow> bool" where
  "nonempty_string v = (case v of JVal (VStr s) \<Rightarrow> s \<noteq> [] | _ \<Rightarrow> False)"

definition validWebhookDeliveryMessage :: "json \<Rightarrow> bool" where
  "validWebhookDeliveryMessage m =
     (case m of
        JVal _ \<Rightarrow> False
      | _ \<Rightarrow> nonempty_string (get_prop m ''subscription_id'') \<and> nonempty_string (get_prop m ''event_id'') \<and>
             nonempty_string (get_prop m ''body''))"

definition read_message :: "json \<Rightarrow> WebhookDeliveryMessage" where
  "read_message m =
     \<lparr>wm_subscription_id = the_str (get_prop m ''subscription_id''), wm_event_id = the_str (get_prop m ''event_id''),
      wm_body = the_str (get_prop m ''body'')\<rparr>"

definition classifyWebhookBatch :: "json list \<Rightarrow> WebhookDeliveryMessage list \<times> nat" where
  "classifyWebhookBatch messages =
     foldl (\<lambda>(valid, invalid) m. if validWebhookDeliveryMessage m then (valid @ [read_message m], invalid) else (valid, invalid + 1))
       ([], 0) messages"

section \<open>Fan-out\<close>

definition WEBHOOK_QUEUE_MESSAGE_MAX_BYTES :: nat where "WEBHOOK_QUEUE_MESSAGE_MAX_BYTES = 128 * 1024"

definition message_json :: "WebhookDeliveryMessage \<Rightarrow> json" where
  "message_json m = JObj [(''subscription_id'', JStr (wm_subscription_id m)), (''event_id'', JStr (wm_event_id m)), (''body'', JStr (wm_body m))]"

definition message_length :: "WebhookDeliveryMessage \<Rightarrow> nat" where
  "message_length m = (case json_stringify (message_json m) of Some t \<Rightarrow> length t | None \<Rightarrow> 0)"

definition plan_step ::
    "string \<Rightarrow> string \<Rightarrow> (json \<Rightarrow> bool) \<Rightarrow> nat \<Rightarrow> WebhookDeliveryMessage list \<times> nat \<times> nat \<Rightarrow> json \<Rightarrow>
     WebhookDeliveryMessage list \<times> nat \<times> nat" where
  "plan_step eventId bodyText selects maxBytes acc subscription =
     (let (messages, skipped, oversize) = acc
      in if \<not> nonempty_string (get_prop subscription ''id'') then (messages, skipped + 1, oversize)
         else if \<not> selects subscription then (messages, skipped + 1, oversize)
         else let message = \<lparr>wm_subscription_id = the_str (get_prop subscription ''id''), wm_event_id = eventId, wm_body = bodyText\<rparr>
              in if maxBytes < message_length message then (messages, skipped, oversize + 1)
                 else (messages @ [message], skipped, oversize))"

definition planWebhookFanOut ::
    "json list \<Rightarrow> string \<Rightarrow> string \<Rightarrow> (json \<Rightarrow> bool) \<Rightarrow> nat \<Rightarrow> WebhookDeliveryMessage list \<times> nat \<times> nat" where
  "planWebhookFanOut subscriptions eventId bodyText selects maxBytes =
     foldl (plan_step eventId bodyText selects maxBytes) ([], 0, 0) subscriptions"

definition stringify :: "json \<Rightarrow> string" where
  "stringify v = (case json_stringify v of Some t \<Rightarrow> t | None \<Rightarrow> [])"

definition webhookEventId :: "(string \<Rightarrow> string) \<Rightarrow> string \<Rightarrow> string" where
  "webhookEventId sha256Hex bodyText = take 32 (sha256Hex bodyText)"

definition fan_out_messages :: "(string \<Rightarrow> string) \<Rightarrow> json list \<Rightarrow> json \<Rightarrow> WebhookDeliveryMessage list \<times> nat \<times> nat" where
  "fan_out_messages sha256Hex stored event =
     (let bodyText = stringify event
      in planWebhookFanOut (filter truthy stored) (webhookEventId sha256Hex bodyText) bodyText
           (\<lambda>subscription. eventMatchesFilters event (get_prop subscription ''filters'')) WEBHOOK_QUEUE_MESSAGE_MAX_BYTES)"

text \<open>Some member of \<open>changes\<close> is an array that is not empty.\<close>

definition has_change :: "json \<Rightarrow> bool" where
  "has_change changes =
     (case changes of
        JObj kvs \<Rightarrow> list_ex (\<lambda>kv. array_or_empty (snd kv) \<noteq> []) kvs
      | JArr xs \<Rightarrow> list_ex (\<lambda>v. array_or_empty v \<noteq> []) xs
      | _ \<Rightarrow> False)"

definition shouldDispatchChangeEvent :: "json \<Rightarrow> string \<Rightarrow> string option \<Rightarrow> bool" where
  "shouldDispatchChangeEvent event eventId lastDispatchedId =
     (if \<not> truthy event \<or> eventId = [] then False
      else if Some eventId = lastDispatchedId then False
      else has_change (get_prop event ''changes''))"

text \<open>
  One tick of the trigger, over the stored subscriptions, the id dispatched last, and which messages
  the queue takes.  All sends are started; when one is refused the tick throws, and the id is not
  recorded.
\<close>

record dispatch_state =
  ds_last :: "string option"
  ds_sent :: "WebhookDeliveryMessage list"

definition dispatchWebhooksFromChangelog ::
    "(string \<Rightarrow> string) \<Rightarrow> json list \<Rightarrow> json \<Rightarrow> (WebhookDeliveryMessage \<Rightarrow> bool) \<Rightarrow> dispatch_state \<Rightarrow>
     (string option + nat) \<times> dispatch_state" where
  "dispatchWebhooksFromChangelog sha256Hex stored event accepts s =
     (let eventId = webhookEventId sha256Hex (stringify event)
      in if \<not> shouldDispatchChangeEvent event eventId (ds_last s) then (Inl (Some ''unchanged''), s)
         else let (messages, skipped, oversize) = fan_out_messages sha256Hex stored event;
                  s' = s\<lparr>ds_sent := ds_sent s @ filter accepts messages\<rparr>
              in if \<not> list_all accepts messages then (Inl None, s')
                 else (Inr (length messages), s'\<lparr>ds_last := Some eventId\<rparr>))"

section \<open>Grouping a batch\<close>

definition subscription_of :: "json \<Rightarrow> string option" where
  "subscription_of m = (case get_prop m ''subscription_id'' of JVal (VStr s) \<Rightarrow> if s = [] then None else Some s | _ \<Rightarrow> None)"

definition group_step ::
    "('m \<Rightarrow> json) \<Rightarrow> (string \<times> 'm list) list \<times> 'm list list \<Rightarrow> 'm \<Rightarrow> (string \<times> 'm list) list \<times> 'm list list" where
  "group_step body_of acc m =
     (let (groups, ungrouped) = acc
      in case subscription_of (body_of m) of
           None \<Rightarrow> (groups, ungrouped @ [[m]])
         | Some i \<Rightarrow> (bucket_push i m groups, ungrouped))"

definition groupWebhookBatchBySubscription :: "('m \<Rightarrow> json) \<Rightarrow> 'm list \<Rightarrow> 'm list list" where
  "groupWebhookBatchBySubscription body_of messages =
     (let (groups, ungrouped) = foldl (group_step body_of) ([], []) messages
      in map snd groups @ ungrouped)"

section \<open>Consuming a batch\<close>

definition webhookDeliveryDisposition :: "DeliveryResult \<Rightarrow> nat \<Rightarrow> nat \<Rightarrow> disposition" where
  "webhookDeliveryDisposition result atts maxAttempts =
     (if dr_status result = ''delivered'' then Delivered
      else if dr_status result = ''skipped'' then Dead
      else if dr_retryable result \<noteq> Some True then Dead
      else if maxAttempts \<le> atts then Dead else RetryLater)"

record queue_message =
  qm_id :: string
  qm_body :: json
  qm_attempts :: nat

text \<open>
  What the consumer calls: the KV read (which may throw), \<open>JSON.parse\<close>, the delivery of one event's
  text to one subscription (which may throw), and the clock in milliseconds.
\<close>

record consumer_env =
  ce_kv_get :: "string \<Rightarrow> unit + json"
  ce_json_parse :: "string \<Rightarrow> json option"
  ce_deliver :: "json \<Rightarrow> json \<Rightarrow> string \<Rightarrow> unit + DeliveryResult"
  ce_now :: int

text \<open>A message's verdict is a call on the batch, none when the KV read throws; the record it puts comes with it.\<close>

definition is_string :: "json \<Rightarrow> bool" where
  "is_string v = (case v of JVal (VStr _) \<Rightarrow> True | _ \<Rightarrow> False)"

definition readable_message :: "json \<Rightarrow> bool" where
  "readable_message v \<longleftrightarrow>
     truthy v \<and> is_string (get_prop v ''subscription_id'') \<and> is_string (get_prop v ''event_id'') \<and> is_string (get_prop v ''body'')"

definition deliverOne :: "consumer_env \<Rightarrow> queue_message \<Rightarrow> delivery_call option \<times> (string \<times> json) option" where
  "deliverOne env message =
     (let ack = AckMessage (qm_id message); atts = qm_attempts message
      in if \<not> readable_message (qm_body message) then (Some ack, None)
         else let m = read_message (qm_body message)
              in case ce_kv_get env (subscriptionStorageKey (wm_subscription_id m)) of
                Inl _ \<Rightarrow> (None, None)
              | Inr subscription \<Rightarrow>
                  if \<not> truthy subscription then (Some ack, None)
                  else (case ce_json_parse env (wm_body m) of
                    Some (JObj kvs) \<Rightarrow>
                      let result = (case ce_deliver env subscription (JObj kvs) (wm_body m) of
                                      Inr r \<Rightarrow> r
                                    | Inl _ \<Rightarrow> (plain_result ''failed'' None)\<lparr>dr_retryable := Some True\<rparr>);
                          disp = webhookDeliveryDisposition result atts WEBHOOK_QUEUE_MAX_ATTEMPTS;
                          delay = webhookRetryDelaySeconds atts WEBHOOK_QUEUE_BASE_DELAY_SECONDS WEBHOOK_QUEUE_MAX_DELAY_SECONDS;
                          record_json = deliveryRecordFor (wm_subscription_id m) (wm_event_id m) result disp atts
                            (iso_datetime (ce_now env)) (Some (iso_datetime (ce_now env + int delay * 1000)))
                      in (Some (if disp = RetryLater then RetryMessage (qm_id message) (Some (js_int (int delay))) else ack),
                          Some (deliveryStorageKey (wm_subscription_id m) (wm_event_id m), record_json))
                  | _ \<Rightarrow> (Some ack, None)))"

text \<open>One group is consumed serially: a message whose KV read throws ends it.\<close>

fun consume_group :: "consumer_env \<Rightarrow> queue_message list \<Rightarrow> delivery_call list" where
  "consume_group env [] = []"
| "consume_group env (m # ms) =
     (case fst (deliverOne env m) of
        None \<Rightarrow> []
      | Some c \<Rightarrow> c # consume_group env ms)"

section \<open>The published promise\<close>

lemma retry_before_last: "webhookDeliveryDisposition r k WEBHOOK_QUEUE_MAX_ATTEMPTS = RetryLater \<Longrightarrow> k < 8"
  by (auto simp: webhookDeliveryDisposition_def WEBHOOK_QUEUE_MAX_ATTEMPTS_def split: if_splits)

text \<open>
  A message as the queue redelivers it: attempt \<open>k\<close> ends as \<open>r k\<close>; when that is retried the next
  attempt comes after the delay.  The number of attempts made and the seconds waited in all.
\<close>

function redelivered :: "(nat \<Rightarrow> DeliveryResult) \<Rightarrow> nat \<Rightarrow> nat \<times> nat" where
  "redelivered r k =
     (if webhookDeliveryDisposition (r k) k WEBHOOK_QUEUE_MAX_ATTEMPTS = RetryLater
      then (let (n, t) = redelivered r (Suc k)
            in (Suc n, webhookRetryDelaySeconds k WEBHOOK_QUEUE_BASE_DELAY_SECONDS WEBHOOK_QUEUE_MAX_DELAY_SECONDS + t))
      else (1, 0))"
  by pat_completeness auto
termination
  by (relation "measure (\<lambda>(r, k). 8 - k)") (auto dest: retry_before_last)

declare redelivered.simps [simp del]

lemma retry_delay: "1 \<le> k \<Longrightarrow> k < 8 \<Longrightarrow>
   webhookRetryDelaySeconds k WEBHOOK_QUEUE_BASE_DELAY_SECONDS WEBHOOK_QUEUE_MAX_DELAY_SECONDS = 300 * 2 ^ (k - 1)"
proof -
  assume k: "1 \<le> k" "k < 8"
  then have "(2::nat) ^ (k - 1) \<le> 2 ^ 6" by (intro power_increasing) auto
  with k show ?thesis
    by (simp add: webhookRetryDelaySeconds_def WEBHOOK_QUEUE_BASE_DELAY_SECONDS_def WEBHOOK_QUEUE_MAX_DELAY_SECONDS_def Let_def)
qed

lemma redelivered_bound:
  assumes "1 \<le> k" and "k \<le> 8" and "redelivered r k = (n, t)"
  shows "1 \<le> n \<and> n + k \<le> 9 \<and> t + 300 * 2 ^ (k - 1) = 300 * 2 ^ (k + n - 2) \<and>
    (\<forall>j. k \<le> j \<and> Suc j < k + n \<longrightarrow> webhookDeliveryDisposition (r j) j WEBHOOK_QUEUE_MAX_ATTEMPTS = RetryLater) \<and>
    webhookDeliveryDisposition (r (k + n - 1)) (k + n - 1) WEBHOOK_QUEUE_MAX_ATTEMPTS \<noteq> RetryLater"
  using assms
proof (induction r k arbitrary: n t rule: redelivered.induct)
  case (1 r k)
  show ?case
  proof (cases "webhookDeliveryDisposition (r k) k WEBHOOK_QUEUE_MAX_ATTEMPTS = RetryLater")
    case True
    then have k8: "k < 8" by (rule retry_before_last)
    obtain n' t' where r: "redelivered r (Suc k) = (n', t')" by fastforce
    from 1(4) True r retry_delay [OF 1(2) k8] have n: "n = Suc n'" and t: "t = 300 * 2 ^ (k - 1) + t'"
      by (simp_all add: redelivered.simps [of r k])
    have IH: "1 \<le> n' \<and> n' + Suc k \<le> 9 \<and> t' + 300 * 2 ^ (Suc k - 1) = 300 * 2 ^ (Suc k + n' - 2) \<and>
      (\<forall>j. Suc k \<le> j \<and> Suc j < Suc k + n' \<longrightarrow> webhookDeliveryDisposition (r j) j WEBHOOK_QUEUE_MAX_ATTEMPTS = RetryLater) \<and>
      webhookDeliveryDisposition (r (Suc k + n' - 1)) (Suc k + n' - 1) WEBHOOK_QUEUE_MAX_ATTEMPTS \<noteq> RetryLater"
      using 1(1) [OF True _ _ r] k8 by simp
    have p: "300 * (2::nat) ^ (k - 1) + 300 * 2 ^ (k - 1) = 300 * 2 ^ k" using 1(2) by (cases k) simp_all
    have j: "webhookDeliveryDisposition (r j) j WEBHOOK_QUEUE_MAX_ATTEMPTS = RetryLater" if "k \<le> j" "Suc j < k + n" for j
      using that IH True n by (cases "j = k") auto
    show ?thesis using IH p n t j by auto
  next
    case False
    with 1(4) have "n = 1" "t = 0" by (simp_all add: redelivered.simps [of r k])
    with 1(2,3) False show ?thesis by auto
  qed
qed

text \<open>
  A delivery is attempted at most eight times and its attempts lie within twelve hours of each
  other: every failed attempt that may succeed later is followed by another, after delays that
  start at five minutes and double, and the last attempt is one that ends the matter.
\<close>

theorem redelivery_promise:
  assumes "redelivered r 1 = (n, t)"
  shows "1 \<le> n \<and> n \<le> 8 \<and> t = 300 * (2 ^ (n - 1) - 1) \<and> t < 12 * 60 * 60 \<and>
    (\<forall>j. 1 \<le> j \<and> j < n \<longrightarrow> webhookDeliveryDisposition (r j) j WEBHOOK_QUEUE_MAX_ATTEMPTS = RetryLater) \<and>
    webhookDeliveryDisposition (r n) n WEBHOOK_QUEUE_MAX_ATTEMPTS \<noteq> RetryLater"
proof -
  have b: "1 \<le> n \<and> n + 1 \<le> 9 \<and> t + 300 = 300 * 2 ^ (n - 1) \<and>
    (\<forall>j. 1 \<le> j \<and> Suc j < 1 + n \<longrightarrow> webhookDeliveryDisposition (r j) j WEBHOOK_QUEUE_MAX_ATTEMPTS = RetryLater) \<and>
    webhookDeliveryDisposition (r n) n WEBHOOK_QUEUE_MAX_ATTEMPTS \<noteq> RetryLater"
    using redelivered_bound [OF _ _ assms] by simp
  then have "t + 300 = 300 * 2 ^ (n - 1)" by blast
  then have t: "t = 300 * (2 ^ (n - 1) - 1)" unfolding diff_mult_distrib2 by linarith
  have "(2::nat) ^ (n - 1) \<le> 2 ^ 7" using b by (intro power_increasing) auto
  with b t show ?thesis by simp
qed

theorem redelivery_promise_witness:
  "\<exists>t. redelivered (\<lambda>_. (plain_result ''failed'' None)\<lparr>dr_retryable := Some True\<rparr>) 1 = (8, t) \<and> t < 12 * 60 * 60"
proof -
  let ?r = "\<lambda>_ :: nat. (plain_result ''failed'' None)\<lparr>dr_retryable := Some True\<rparr>"
  obtain n t where r: "redelivered ?r 1 = (n, t)" by fastforce
  note p = redelivery_promise [OF r]
  have "webhookDeliveryDisposition (?r n) n WEBHOOK_QUEUE_MAX_ATTEMPTS \<noteq> RetryLater" using p by blast
  then have "8 \<le> n" by (simp add: webhookDeliveryDisposition_def plain_result_def WEBHOOK_QUEUE_MAX_ATTEMPTS_def split: if_splits)
  with p have "n = 8" by simp
  with r p show ?thesis by blast
qed

section \<open>The trigger\<close>

text \<open>
  The trigger never fires: the event it builds has no member of the name the dispatch rule looks
  for, so whatever was published, every tick reports unchanged and enqueues nothing.
\<close>

theorem published_changes_not_dispatched:
  "dispatchWebhooksFromChangelog sha256Hex stored (buildChangeEvent changelog pointer) accepts s = (Inl (Some ''unchanged''), s)"
proof -
  have "get_prop (buildChangeEvent changelog pointer) ''changes'' = JUndef" by (simp add: buildChangeEvent_def Let_def)
  then show ?thesis by (simp add: dispatchWebhooksFromChangelog_def shouldDispatchChangeEvent_def has_change_def Let_def)
qed

section \<open>The plan of a fan-out\<close>

definition owed_message :: "string \<Rightarrow> string \<Rightarrow> json \<Rightarrow> WebhookDeliveryMessage" where
  "owed_message eventId bodyText subscription =
     \<lparr>wm_subscription_id = the_str (get_prop subscription ''id''), wm_event_id = eventId, wm_body = bodyText\<rparr>"

lemma plan_fold:
  "foldl (plan_step eventId bodyText selects maxBytes) (ms, a, b) subscriptions =
     (ms @ filter (\<lambda>m. message_length m \<le> maxBytes)
        (map (owed_message eventId bodyText) (filter (\<lambda>x. nonempty_string (get_prop x ''id'') \<and> selects x) subscriptions)),
      a + length (filter (\<lambda>x. \<not> (nonempty_string (get_prop x ''id'') \<and> selects x)) subscriptions),
      b + length (filter (\<lambda>m. maxBytes < message_length m)
        (map (owed_message eventId bodyText) (filter (\<lambda>x. nonempty_string (get_prop x ''id'') \<and> selects x) subscriptions))))"
  by (induction subscriptions arbitrary: ms a b)
    (auto simp: plan_step_def owed_message_def Let_def not_le split: if_splits)

lemma plan_counts:
  "length (filter R (map f (filter Q xs))) + length (filter (\<lambda>x. \<not> Q x) xs) + length (filter (\<lambda>m. \<not> R m) (map f (filter Q xs))) = length xs"
  by (induction xs) auto

text \<open>
  A fan-out owes one message to each stored subscription that has an id and whose filters select
  the event, in their order; it plans exactly those that fit the queue's limit, all with the same
  body and event id, and accounts for every other subscription as skipped or oversize.
\<close>

theorem fan_out_exact:
  "\<exists>messages skipped oversize. fan_out_messages sha256Hex stored event = (messages, skipped, oversize) \<and>
    messages = filter (\<lambda>m. message_length m \<le> 128 * 1024)
      (map (owed_message (webhookEventId sha256Hex (stringify event)) (stringify event))
        (filter (\<lambda>x. nonempty_string (get_prop x ''id'') \<and> eventMatchesFilters event (get_prop x ''filters'')) (filter truthy stored))) \<and>
    length messages + skipped + oversize = length (filter truthy stored)"
  unfolding fan_out_messages_def planWebhookFanOut_def Let_def plan_fold WEBHOOK_QUEUE_MESSAGE_MAX_BYTES_def append_Nil add_0 not_le [symmetric]
  by (intro exI, rule conjI, rule refl, rule conjI, rule refl, rule plan_counts)

section \<open>The groups of a batch\<close>

lemma keys_bucket_push: "map fst (bucket_push k v m) = (if k \<in> set (map fst m) then map fst m else map fst m @ [k])"
  by (auto simp: bucket_push_def update_keys map_of_eq_None_iff split: option.split)

lemma keys_bucket_by: "map fst (bucket_by f xs) = first_seen f xs"
proof (induction xs rule: rev_induct)
  case (snoc x xs)
  have "set (map fst (bucket_by f xs)) = f ` set xs" using snoc by simp
  with snoc show ?case by (simp add: bucket_by_snoc keys_bucket_push first_seen_def)
qed (simp add: first_seen_def)

lemma bucket_by_closed: "bucket_by f xs = map (\<lambda>k. (k, filter (\<lambda>x. f x = k) xs)) (first_seen f xs)"
proof -
  have "bucket_by f xs = map (\<lambda>k. (k, the (map_of (bucket_by f xs) k))) (map fst (bucket_by f xs))"
    by (rule alist_from_keys) (rule distinct_bucket_by)
  also have "\<dots> = map (\<lambda>k. (k, filter (\<lambda>x. f x = k) xs)) (first_seen f xs)"
    unfolding keys_bucket_by by (intro map_cong refl) (auto simp: map_of_bucket_by)
  finally show ?thesis .
qed

definition has_subscription :: "('m \<Rightarrow> json) \<Rightarrow> 'm \<Rightarrow> bool" where
  "has_subscription body_of m \<longleftrightarrow> subscription_of (body_of m) \<noteq> None"

lemma group_fold:
  "foldl (group_step body_of) ([], []) ms =
     (bucket_by (\<lambda>m. the (subscription_of (body_of m))) (filter (has_subscription body_of) ms),
      map (\<lambda>m. [m]) (filter (\<lambda>m. \<not> has_subscription body_of m) ms))"
  by (induction ms rule: rev_induct) (auto simp: group_step_def has_subscription_def bucket_by_snoc split: option.split)

text \<open>
  Grouping a batch makes one group per subscription, in the order the subscriptions first appear
  and each holding that subscription's messages in their order, and one group for every message
  without a readable subscription; no message is lost or duplicated.
\<close>

theorem groups_partition_batch:
  "groupWebhookBatchBySubscription body_of ms =
     map (\<lambda>i. filter (\<lambda>m. subscription_of (body_of m) = Some i) ms)
       (first_seen (\<lambda>m. the (subscription_of (body_of m))) (filter (has_subscription body_of) ms)) @
     map (\<lambda>m. [m]) (filter (\<lambda>m. \<not> has_subscription body_of m) ms) \<and>
   mset (concat (groupWebhookBatchBySubscription body_of ms)) = mset ms"
proof
  let ?f = "\<lambda>m. the (subscription_of (body_of m))" and ?r = "filter (has_subscription body_of) ms"
  have e: "filter (\<lambda>m. ?f m = i) ?r = filter (\<lambda>m. subscription_of (body_of m) = Some i) ms" for i
    unfolding filter_filter by (rule filter_cong) (auto simp: has_subscription_def)
  have g: "groupWebhookBatchBySubscription body_of ms = map snd (bucket_by ?f ?r) @ map (\<lambda>m. [m]) (filter (\<lambda>m. \<not> has_subscription body_of m) ms)"
    by (simp add: groupWebhookBatchBySubscription_def group_fold)
  show "groupWebhookBatchBySubscription body_of ms =
     map (\<lambda>i. filter (\<lambda>m. subscription_of (body_of m) = Some i) ms) (first_seen ?f ?r) @
     map (\<lambda>m. [m]) (filter (\<lambda>m. \<not> has_subscription body_of m) ms)"
    unfolding g bucket_by_closed map_map comp_def snd_conv e ..
  have c: "concat (map (\<lambda>m. [m]) xs) = xs" for xs :: "'a list" by (induction xs) simp_all
  show "mset (concat (groupWebhookBatchBySubscription body_of ms)) = mset ms"
    unfolding g concat_append map_append mset_append mset_bucket_by c by (induction ms) simp_all
qed

section \<open>The verdicts of a batch\<close>

text \<open>A delay is always one the queue takes.\<close>

lemma delay_range: "webhookRetryDelaySeconds k b WEBHOOK_QUEUE_MAX_DELAY_SECONDS \<le> 43200"
  by (simp add: webhookRetryDelaySeconds_def WEBHOOK_QUEUE_MAX_DELAY_SECONDS_def Let_def)

lemma retryDecision_delay: "d \<le> 43200 \<Longrightarrow> retryDecision (Some (js_int (int d))) = Inr (RetryDecision (Some (int d)))"
  by (simp add: retryDecision_def queueDelaySeconds_def js_int_def MAX_SAFE_def)

text \<open>What the consumer decides for one message, and which call that is.\<close>

definition own_verdict :: "consumer_env \<Rightarrow> queue_message \<Rightarrow> QueueDecision" where
  "own_verdict env m =
     (case fst (deliverOne env m) of
        Some (RetryMessage i (Some (Fin d))) \<Rightarrow> RetryDecision (Some \<lfloor>d\<rfloor>)
      | _ \<Rightarrow> AckDecision)"

lemma own_call:
  assumes "fst (deliverOne env m) = Some c"
  shows "message_verdict i c = (if i = qm_id m then Some (own_verdict env m) else None)" and "batch_verdict c = None"
proof -
  let ?d = "webhookRetryDelaySeconds (qm_attempts m) WEBHOOK_QUEUE_BASE_DELAY_SECONDS WEBHOOK_QUEUE_MAX_DELAY_SECONDS"
  have "c = AckMessage (qm_id m) \<or> c = RetryMessage (qm_id m) (Some (js_int (int ?d)))"
    using assms unfolding deliverOne_def Let_def by (auto split: if_splits sum.splits option.splits json.splits)
  then show "message_verdict i c = (if i = qm_id m then Some (own_verdict env m) else None)" "batch_verdict c = None"
    using assms retryDecision_delay [OF delay_range] by (auto simp: own_verdict_def js_int_def)
qed

lemma own_first:
  assumes "distinct (map qm_id ms)" and "m \<in> set ms" and "set H \<subseteq> set ms"
    and "\<forall>x \<in> set H. fst (deliverOne env x) \<noteq> None"
  shows "first_verdict (message_verdict (qm_id m)) (map (\<lambda>x. the (fst (deliverOne env x))) H) =
     (if m \<in> set H then Some (own_verdict env m) else None)"
  using assms(3,4)
proof (induction H)
  case (Cons x H)
  then obtain c where c: "fst (deliverOne env x) = Some c" by auto
  have "x \<in> set ms" using Cons.prems by simp
  then have "qm_id m = qm_id x \<longleftrightarrow> m = x" using assms(1,2) by (auto simp: distinct_map dest: inj_onD)
  with Cons own_call(1) [OF c, of "qm_id m"] show ?case by (simp add: first_verdict_Cons c)
qed simp

lemma no_batch_verdict:
  "\<forall>x \<in> set H. fst (deliverOne env x) \<noteq> None \<Longrightarrow> first_verdict batch_verdict (map (\<lambda>x. the (fst (deliverOne env x))) H) = None"
  by (induction H) (auto simp: first_verdict_Cons own_call(2))

lemma retried_early: "own_verdict env m = RetryDecision d \<Longrightarrow> qm_attempts m < 8"
  unfolding own_verdict_def deliverOne_def Let_def
  by (auto dest: retry_before_last split: if_splits sum.splits option.splits json.splits)

definition payload_of :: "queue_message \<Rightarrow> json QueuePayload" where
  "payload_of m = \<lparr>qp_id = qm_id m, createdAtMs = 0, attempts = qm_attempts m, body = qm_body m\<rparr>"

text \<open>
  In whatever order the groups of a batch are worked through, each handled message gets its own
  verdict and no other's; when a read fails, the messages not reached are retried; and a message is
  retried by the consumer only before its eighth attempt, with a delay the queue accepts.
\<close>

theorem batch_verdicts:
  assumes "distinct (map qm_id ms)" and "set H \<subseteq> set ms" and "\<forall>m \<in> set H. fst (deliverOne env m) \<noteq> None"
  shows "fst (finish (map payload_of ms) failed
      (foldl (\<lambda>d c. deliver c d) new_delivery (map (\<lambda>m. the (fst (deliverOne env m))) H))) =
    map (\<lambda>m. if m \<in> set H then own_verdict env m else if failed then RetryDecision None else AckDecision) ms \<and>
    (\<forall>m \<in> set H. \<forall>d. own_verdict env m = RetryDecision d \<longrightarrow> qm_attempts m < 8)"
proof
  show "\<forall>m \<in> set H. \<forall>d. own_verdict env m = RetryDecision d \<longrightarrow> qm_attempts m < 8" using retried_early by blast
  show "fst (finish (map payload_of ms) failed
      (foldl (\<lambda>d c. deliver c d) new_delivery (map (\<lambda>m. the (fst (deliverOne env m))) H))) =
    map (\<lambda>m. if m \<in> set H then own_verdict env m else if failed then RetryDecision None else AckDecision) ms"
    unfolding finish_verdicts no_batch_verdict [OF assms(3)]
    by (simp add: payload_of_def own_first [OF assms(1) _ assms(2,3)])
qed

definition sample_consumer :: consumer_env where
  "sample_consumer =
     \<lparr>ce_kv_get = (\<lambda>_. Inr (JObj [])), ce_json_parse = (\<lambda>_. Some (JObj [])),
      ce_deliver = (\<lambda>_ _ _. Inl ()), ce_now = 0\<rparr>"

definition sample_message :: "string \<Rightarrow> nat \<Rightarrow> queue_message" where
  "sample_message i k = \<lparr>qm_id = i, qm_body = JObj [(''subscription_id'', JStr i), (''event_id'', JStr ''e''), (''body'', JStr ''{}'')], qm_attempts = k\<rparr>"

theorem batch_verdicts_witness:
  "fst (finish (map payload_of [sample_message ''a'' 1, sample_message ''b'' 8]) False
      (foldl (\<lambda>d c. deliver c d) new_delivery
        (map (\<lambda>m. the (fst (deliverOne sample_consumer m))) [sample_message ''b'' 8, sample_message ''a'' 1]))) =
   [RetryDecision (Some 300), AckDecision]"
proof -
  let ?ms = "[sample_message ''a'' 1, sample_message ''b'' 8]" and ?H = "[sample_message ''b'' 8, sample_message ''a'' 1]"
  have d: "fst (deliverOne sample_consumer (sample_message i k)) =
      Some (if k < 8 then RetryMessage i (Some (js_int (int (webhookRetryDelaySeconds k 300 43200)))) else AckMessage i)" for i k
    by (simp add: deliverOne_def sample_consumer_def sample_message_def readable_message_def is_string_def read_message_def
        webhookDeliveryDisposition_def plain_result_def WEBHOOK_QUEUE_MAX_ATTEMPTS_def WEBHOOK_QUEUE_BASE_DELAY_SECONDS_def
        WEBHOOK_QUEUE_MAX_DELAY_SECONDS_def Let_def)
  have "distinct (map qm_id ?ms)" by (simp add: sample_message_def)
  moreover have "set ?H \<subseteq> set ?ms" by simp
  moreover have "\<forall>m \<in> set ?H. fst (deliverOne sample_consumer m) \<noteq> None" by (simp add: d)
  ultimately show ?thesis using batch_verdicts [of ?ms ?H sample_consumer False]
    by (simp add: own_verdict_def d webhookRetryDelaySeconds_def js_int_def)
qed

end
