(* ===== verification/Map_Bounded.thy ===== *)
theory Map_Bounded
  imports Js_Prelude
begin

text \<open>
  The bounded-concurrency map of \<open>src/webhooks.ts\<close> that drives the queue consumer and the alerter's
  fan-out: a fixed number of workers share a cursor over the items, each waits for one call at a
  time and puts its result at the item's index.  Calls settle in any order, so the pool is a step
  relation: one step is one call settling, after which its worker takes the next item or ends.
\<close>

section \<open>The pool\<close>

record 'r pool =
  cursor :: nat
  flight :: "nat option list"
  results :: "'r option list"
  rejected :: bool

definition worker_count :: "nat \<Rightarrow> nat \<Rightarrow> nat" where
  "worker_count concurrency n = max 1 (min concurrency n)"

text \<open>A worker at the head of its loop: it takes the item at the cursor, or is done.\<close>

definition take_next :: "nat \<Rightarrow> nat \<Rightarrow> 'r pool \<Rightarrow> 'r pool" where
  "take_next n w p =
     (if cursor p < n then p\<lparr>flight := (flight p)[w := Some (cursor p)], cursor := Suc (cursor p)\<rparr>
      else p\<lparr>flight := (flight p)[w := None]\<rparr>)"

definition empty_pool :: "nat \<Rightarrow> nat \<Rightarrow> 'r pool" where
  "empty_pool workers n =
     \<lparr>cursor = 0, flight = replicate workers None, results = replicate n None, rejected = False\<rparr>"

text \<open>The workers are started one after the other, each up to its first call.\<close>

definition start_pool :: "nat \<Rightarrow> nat \<Rightarrow> 'r pool" where
  "start_pool concurrency n =
     (let workers = worker_count concurrency n
      in foldl (\<lambda>p w. take_next n w p) (empty_pool workers n) [0..<workers])"

text \<open>The call of worker \<open>w\<close> returned a value, or threw: then the worker ends and the whole map rejects.\<close>

definition settle :: "nat \<Rightarrow> nat \<Rightarrow> nat \<Rightarrow> 'r \<Rightarrow> 'r pool \<Rightarrow> 'r pool" where
  "settle n w i r p = take_next n w (p\<lparr>results := (results p)[i := Some r]\<rparr>)"

definition reject :: "nat \<Rightarrow> 'r pool \<Rightarrow> 'r pool" where
  "reject w p = p\<lparr>flight := (flight p)[w := None], rejected := True\<rparr>"

text \<open>\<open>f i\<close> is what the call on item \<open>i\<close> comes to: a value, or a throw.\<close>

inductive pool_step :: "nat \<Rightarrow> (nat \<Rightarrow> 'r option) \<Rightarrow> 'r pool \<Rightarrow> 'r pool \<Rightarrow> bool" for n f where
  settled: "w < length (flight p) \<Longrightarrow> flight p ! w = Some i \<Longrightarrow> f i = Some r \<Longrightarrow> pool_step n f p (settle n w i r p)"
| thrown: "w < length (flight p) \<Longrightarrow> flight p ! w = Some i \<Longrightarrow> f i = None \<Longrightarrow> pool_step n f p (reject w p)"

inductive pool_path :: "nat \<Rightarrow> (nat \<Rightarrow> 'r option) \<Rightarrow> 'r pool \<Rightarrow> nat \<Rightarrow> 'r pool \<Rightarrow> bool" for n f where
  path_refl: "pool_path n f p 0 p"
| path_step: "pool_path n f p k q \<Longrightarrow> pool_step n f q q' \<Longrightarrow> pool_path n f p (Suc k) q'"

inductive_cases pool_stepE: "pool_step n f p q"

definition in_flight :: "'r pool \<Rightarrow> nat list" where
  "in_flight p = List.map_filter (\<lambda>x. x) (flight p)"

section \<open>The invariant\<close>

text \<open>
  Every item is waiting beyond the cursor, in the hands of exactly one worker, or settled with its
  own value or a throw; a worker is idle only when nothing is waiting or it threw.
\<close>

definition pool_ok :: "nat \<Rightarrow> nat \<Rightarrow> (nat \<Rightarrow> 'r option) \<Rightarrow> nat \<Rightarrow> 'r pool \<Rightarrow> bool" where
  "pool_ok workers n f k p \<longleftrightarrow>
     cursor p \<le> n \<and> length (flight p) = workers \<and> length (results p) = n \<and>
     distinct (in_flight p) \<and> (\<forall>i \<in> set (in_flight p). i < cursor p) \<and>
     (\<forall>i < n. results p ! i = (if i < cursor p \<and> i \<notin> set (in_flight p) then f i else None)) \<and>
     length (in_flight p) + k = cursor p \<and>
     (rejected p \<longleftrightarrow> (\<exists>i < cursor p. i \<notin> set (in_flight p) \<and> f i = None)) \<and>
     (rejected p \<or> None \<notin> set (flight p) \<or> cursor p = n)"

lemma map_filter_id: "List.map_filter (\<lambda>x. x) (xs @ y # ys) =
   List.map_filter (\<lambda>x. x) xs @ (case y of Some j \<Rightarrow> [j] | None \<Rightarrow> []) @ List.map_filter (\<lambda>x. x) ys"
  by (simp add: map_filter_Cons split: option.split)

lemma flight_split:
  assumes "w < length xs" and "xs ! w = Some i"
  shows "\<exists>A B. List.map_filter (\<lambda>x. x) xs = A @ i # B \<and>
     (\<forall>y. List.map_filter (\<lambda>x. x) (xs[w := y]) = A @ (case y of Some j \<Rightarrow> [j] | None \<Rightarrow> []) @ B)"
proof (intro exI conjI allI)
  have "xs = take w xs @ xs ! w # drop (Suc w) xs" using assms(1) by (rule id_take_nth_drop)
  then show "List.map_filter (\<lambda>x. x) xs =
     List.map_filter (\<lambda>x. x) (take w xs) @ i # List.map_filter (\<lambda>x. x) (drop (Suc w) xs)"
    using assms(2) map_filter_id [of "take w xs" "xs ! w" "drop (Suc w) xs"] by simp
  show "List.map_filter (\<lambda>x. x) (xs[w := y]) = List.map_filter (\<lambda>x. x) (take w xs) @
      (case y of Some j \<Rightarrow> [j] | None \<Rightarrow> []) @ List.map_filter (\<lambda>x. x) (drop (Suc w) xs)" for y
    unfolding upd_conv_take_nth_drop [OF assms(1)] by (rule map_filter_id)
qed

lemma settle_ok:
  assumes ok: "pool_ok workers n f k p" and w: "w < length (flight p)" "flight p ! w = Some i" and r: "f i = Some r"
  shows "pool_ok workers n f (Suc k) (settle n w i r p)"
proof -
  obtain A B where s: "in_flight p = A @ i # B"
    and u: "List.map_filter (\<lambda>x. x) ((flight p)[w := y]) = A @ (case y of Some j \<Rightarrow> [j] | None \<Rightarrow> []) @ B" for y
    using flight_split [OF w] unfolding in_flight_def by blast
  have i: "i < cursor p" "i < n" using ok unfolding pool_ok_def s by auto
  have None_upd: "None \<notin> set ((flight p)[w := Some j])" if "None \<notin> set (flight p)" for j
    using that set_update_subset_insert [of "flight p" w "Some j"] by auto
  show ?thesis
  proof (cases "cursor p < n")
    case True
    then have f: "in_flight (settle n w i r p) = A @ cursor p # B" by (simp add: settle_def take_next_def in_flight_def u)
    show ?thesis unfolding pool_ok_def f using ok i r True None_upd unfolding pool_ok_def s
      by (auto simp: settle_def take_next_def nth_list_update less_Suc_eq)
  next
    case False
    then have f: "in_flight (settle n w i r p) = A @ B" by (simp add: settle_def take_next_def in_flight_def u)
    show ?thesis unfolding pool_ok_def f using ok i r False unfolding pool_ok_def s
      by (auto simp: settle_def take_next_def nth_list_update)
  qed
qed

lemma reject_ok:
  assumes ok: "pool_ok workers n f k p" and w: "w < length (flight p)" "flight p ! w = Some i" and r: "f i = None"
  shows "pool_ok workers n f (Suc k) (reject w p)"
proof -
  obtain A B where s: "in_flight p = A @ i # B"
    and u: "List.map_filter (\<lambda>x. x) ((flight p)[w := y]) = A @ (case y of Some j \<Rightarrow> [j] | None \<Rightarrow> []) @ B" for y
    using flight_split [OF w] unfolding in_flight_def by blast
  have f: "in_flight (reject w p) = A @ B" by (simp add: reject_def in_flight_def u)
  show ?thesis unfolding pool_ok_def f using ok r unfolding pool_ok_def s by (auto simp: reject_def)
qed

lemma pool_path_ok: "pool_path n f p k q \<Longrightarrow> pool_ok workers n f 0 p \<Longrightarrow> pool_ok workers n f k q"
  by (induction rule: pool_path.induct) (auto elim: pool_stepE intro: settle_ok reject_ok)

lemma start_prefix:
  assumes "j \<le> workers" and "workers \<le> n"
  shows "foldl (\<lambda>p w. take_next n w p) (empty_pool workers n) [0..<j] =
     \<lparr>cursor = j, flight = map Some [0..<j] @ replicate (workers - j) None, results = replicate n None, rejected = False\<rparr>"
  using assms
proof (induction j)
  case (Suc j)
  then have "replicate (workers - j) None = None # replicate (workers - Suc j) (None :: nat option)"
    by (metis Suc_diff_Suc Suc_le_eq replicate_Suc)
  with Suc show ?case by (simp add: take_next_def list_update_append)
qed (simp add: empty_pool_def)

lemma map_filter_Some: "List.map_filter (\<lambda>x. x) (map Some xs) = xs"
  by (induction xs) (simp_all add: map_filter_Cons)

lemma start_ok: "pool_ok (worker_count c n) n f 0 (start_pool c n)"
proof (cases n)
  case 0
  then show ?thesis
    by (simp add: start_pool_def worker_count_def empty_pool_def take_next_def pool_ok_def in_flight_def map_filter_Cons)
next
  case (Suc m)
  then have w: "worker_count c n \<le> n" by (simp add: worker_count_def)
  show ?thesis
    unfolding start_pool_def Let_def start_prefix [OF order.refl w]
    using w by (auto simp: pool_ok_def in_flight_def map_filter_Some)
qed

lemma map_filter_length: "length (List.map_filter (\<lambda>x. x) xs) \<le> length xs"
  by (induction xs) (auto simp: map_filter_Cons split: option.split)

text \<open>In every state the pool reaches: the invariant, with the workers it was started with.\<close>

lemma reached_ok: "pool_path n f (start_pool c n) k q \<Longrightarrow> pool_ok (worker_count c n) n f k q"
  by (erule pool_path_ok) (rule start_ok)

section \<open>What the map promises\<close>

lemma pool_facts:
  assumes "pool_path n f (start_pool c n) k q"
  shows "length (in_flight q) \<le> max 1 (min c n)"
    and "k + length (in_flight q) = cursor q \<and> cursor q \<le> n \<and>
      distinct (in_flight q) \<and> (\<forall>i \<in> set (in_flight q). i < cursor q)"
    and "rejected q \<longleftrightarrow> (\<exists>i < cursor q. i \<notin> set (in_flight q) \<and> f i = None)"
    and "in_flight q = [] \<Longrightarrow> \<not> rejected q \<Longrightarrow>
      k = n \<and> results q = map f [0..<n] \<and> (\<forall>i < n. f i \<noteq> None)"
    and "in_flight q \<noteq> [] \<Longrightarrow> \<exists>q'. pool_step n f q q'"
proof -
  have ok: "pool_ok (worker_count c n) n f k q" using assms by (rule reached_ok)
  show "length (in_flight q) \<le> max 1 (min c n)"
    using map_filter_length [of "flight q"] ok unfolding in_flight_def pool_ok_def worker_count_def by simp
  show "k + length (in_flight q) = cursor q \<and> cursor q \<le> n \<and>
      distinct (in_flight q) \<and> (\<forall>i \<in> set (in_flight q). i < cursor q)"
    using ok unfolding pool_ok_def by linarith
  show "rejected q \<longleftrightarrow> (\<exists>i < cursor q. i \<notin> set (in_flight q) \<and> f i = None)"
    using ok unfolding pool_ok_def by blast
  show "k = n \<and> results q = map f [0..<n] \<and> (\<forall>i < n. f i \<noteq> None)" if e: "in_flight q = []" "\<not> rejected q"
  proof -
    have "flight q \<noteq> []" using ok unfolding pool_ok_def worker_count_def by auto
    then have "None \<in> set (flight q)"
      using e(1) by (cases "flight q") (auto simp: in_flight_def map_filter_Cons split: option.splits)
    then have c: "cursor q = n" using ok e(2) unfolding pool_ok_def by blast
    show ?thesis using ok e c unfolding pool_ok_def by (auto intro: nth_equalityI)
  qed
  show "\<exists>q'. pool_step n f q q'" if busy: "in_flight q \<noteq> []"
  proof -
    obtain i where "i \<in> set (in_flight q)" using busy by (cases "in_flight q") auto
    then have "Some i \<in> set (flight q)" by (auto simp: in_flight_def List.map_filter_def)
    then obtain w where w: "w < length (flight q)" "flight q ! w = Some i" by (auto simp: in_set_conv_nth)
    show ?thesis using settled [OF w] thrown [OF w] by (cases "f i") blast+
  qed
qed

text \<open>
  C38. However the calls settle, the bounded map never has more calls in flight than it has workers,
  has called each item at most once and in input order, and after at most one settlement per item
  nothing is left; a call that throws makes the whole map reject, and when none has, the results
  stand at their items' indexes whatever the order they came in.
\<close>

theorem pool_bounded_and_ordered:
  assumes "pool_path n f (start_pool c n) k q"
  shows "length (in_flight q) \<le> max 1 (min c n) \<and>
    k + length (in_flight q) = cursor q \<and> cursor q \<le> n \<and> distinct (in_flight q) \<and>
    (rejected q \<longleftrightarrow> (\<exists>i < cursor q. i \<notin> set (in_flight q) \<and> f i = None)) \<and>
    (in_flight q = [] \<and> \<not> rejected q \<longrightarrow> k = n \<and> results q = map f [0..<n] \<and> (\<forall>i < n. f i \<noteq> None)) \<and>
    (in_flight q \<noteq> [] \<longrightarrow> (\<exists>q'. pool_step n f q q'))"
  using pool_facts [OF assms] by blast

text \<open>The step of a worker picked by a schedule, to run the pool on an example.\<close>

definition settle_next :: "nat \<Rightarrow> (nat \<Rightarrow> 'r option) \<Rightarrow> nat \<Rightarrow> 'r pool \<Rightarrow> 'r pool" where
  "settle_next n f w q = (case flight q ! w of None \<Rightarrow> q | Some i \<Rightarrow>
     (case f i of Some r \<Rightarrow> settle n w i r q | None \<Rightarrow> reject w q))"

lemma next_path:
  assumes "pool_path n f p k q" and "w < length (flight q)" and "flight q ! w = Some i"
  shows "pool_path n f p (Suc k) (settle_next n f w q)"
  using path_step [OF assms(1) settled [OF assms(2,3)]] path_step [OF assms(1) thrown [OF assms(2,3)]]
  by (simp add: settle_next_def assms(3) split: option.split)

text \<open>Three items on two workers, the second call settling first and the third item's throwing.\<close>

theorem pool_bounded_and_ordered_witness:
  "let f = (\<lambda>i. if i = 2 then None else Some (10 * i)); s1 = settle_next 3 f 1 (start_pool 2 3 :: nat pool);
       s2 = settle_next 3 f 1 s1; s3 = settle_next 3 f 0 s2
   in length (in_flight s1) \<le> 2 \<and> in_flight s3 = [] \<and> rejected s3 \<and> results s3 = [Some 0, Some 10, None]"
proof -
  define f where "f = (\<lambda>i :: nat. if i = 2 then None else Some (10 * i))"
  let ?p = "start_pool 2 3 :: nat pool"
  note e = start_pool_def worker_count_def empty_pool_def take_next_def settle_next_def settle_def reject_def upt_rec numeral_eq_Suc
  have s1: "pool_path 3 f ?p (Suc 0) (settle_next 3 f 1 ?p)"
    by (rule next_path [OF path_refl, where i = 1]) (simp_all add: e)
  have s2: "pool_path 3 f ?p (Suc (Suc 0)) (settle_next 3 f 1 (settle_next 3 f 1 ?p))"
    by (rule next_path [OF s1, where i = 2]) (simp_all add: e f_def)
  have s3: "pool_path 3 f ?p (Suc (Suc (Suc 0))) (settle_next 3 f 0 (settle_next 3 f 1 (settle_next 3 f 1 ?p)))"
    by (rule next_path [OF s2, where i = 0]) (simp_all add: e f_def)
  have "length (in_flight (settle_next 3 f 1 ?p)) \<le> 2"
    using pool_bounded_and_ordered [OF s1] by simp
  moreover have "in_flight (settle_next 3 f 0 (settle_next 3 f 1 (settle_next 3 f 1 ?p))) = []"
    and "results (settle_next 3 f 0 (settle_next 3 f 1 (settle_next 3 f 1 ?p))) = [Some 0, Some 10, None]"
    by (simp_all add: e f_def in_flight_def map_filter_Cons)
  moreover have "rejected (settle_next 3 f 0 (settle_next 3 f 1 (settle_next 3 f 1 ?p)))"
    by (simp add: e f_def)
  ultimately show ?thesis unfolding f_def Let_def by blast
qed

end
