(* ===== verification/Json_Text.thy ===== *)
theory Json_Text
  imports History_Json
begin

text \<open>
  \<open>JSON.parse\<close>: the JSON grammar read into the trees of the development, and what it gives backs of a
  text \<open>JSON.stringify\<close> wrote.  Strings are of code units below 256, so a text whose escapes name
  others is read as no value.  A later member of the same name replaces the earlier one's value.
\<close>

section \<open>The reader\<close>

definition json_space :: "char \<Rightarrow> bool" where
  "json_space c \<longleftrightarrow> (of_char c :: nat) \<in> {9, 10, 13, 32}"

abbreviation skip_ws :: "string \<Rightarrow> string" where "skip_ws \<equiv> dropWhile json_space"

definition unescape :: "char \<Rightarrow> char option" where
  "unescape c =
     (let n = (of_char c :: nat)
      in if n = 34 \<or> n = 92 \<or> n = 47 then Some c
         else if n = 98 then Some (char_of (8 :: nat))
         else if n = 116 then Some (char_of (9 :: nat))
         else if n = 110 then Some (char_of (10 :: nat))
         else if n = 102 then Some (char_of (12 :: nat))
         else if n = 114 then Some (char_of (13 :: nat)) else None)"

definition hex_unit :: "char \<Rightarrow> char \<Rightarrow> char \<Rightarrow> char \<Rightarrow> char option" where
  "hex_unit a b c d =
     (case (hex_digit_val a, hex_digit_val b, hex_digit_val c, hex_digit_val d) of
        (Some w, Some x, Some y, Some z) \<Rightarrow> if w = 0 \<and> x = 0 then Some (char_of (16 * y + z)) else None
      | _ \<Rightarrow> None)"

text \<open>A string after its opening quote, and what follows its closing one.\<close>

fun string_body :: "string \<Rightarrow> (string \<times> string) option" where
  "string_body [] = None"
| "string_body (c # cs) =
     (if c = CHR 0x22 then Some ([], cs)
      else if (of_char c :: nat) < 32 then None
      else if c = CHR 0x5C then
        (case cs of
           [] \<Rightarrow> None
         | e # r \<Rightarrow>
             if e = CHR ''u'' then
               (case r of
                  a # b # h # l # r' \<Rightarrow>
                    (case hex_unit a b h l of
                       None \<Rightarrow> None
                     | Some x \<Rightarrow> map_option (\<lambda>(s, t). (x # s, t)) (string_body r'))
                | _ \<Rightarrow> None)
             else (case unescape e of
                     None \<Rightarrow> None
                   | Some x \<Rightarrow> map_option (\<lambda>(s, t). (x # s, t)) (string_body r)))
      else map_option (\<lambda>(s, t). (c # s, t)) (string_body cs))"

text \<open>The number at the front of a text, as its literal, and what follows it.\<close>

definition fraction_part :: "string \<Rightarrow> (string \<times> string) option" where
  "fraction_part s =
     (case s of
        c # r \<Rightarrow> if c = CHR ''.'' then
            (let ds = takeWhile is_digit r
             in if ds = [] then None else Some (c # ds, dropWhile is_digit r))
          else Some ([], s)
      | [] \<Rightarrow> Some ([], s))"

definition exponent_text :: "string \<Rightarrow> (string \<times> string) option" where
  "exponent_text s =
     (case s of
        e # r \<Rightarrow> if e = CHR ''e'' \<or> e = CHR ''E'' then
            (let sg = (case r of c # _ \<Rightarrow> if c = CHR ''+'' \<or> c = CHR ''-'' then [c] else [] | [] \<Rightarrow> []);
                 r' = drop (length sg) r; ds = takeWhile is_digit r'
             in if ds = [] then None else Some (e # sg @ ds, dropWhile is_digit r'))
          else Some ([], s)
      | [] \<Rightarrow> Some ([], s))"

definition number_text :: "string \<Rightarrow> (string \<times> string) option" where
  "number_text s =
     (let sg = (case s of c # _ \<Rightarrow> if c = CHR ''-'' then [c] else [] | [] \<Rightarrow> []); r = drop (length sg) s;
          whole = takeWhile is_digit r
      in if whole = [] \<or> (hd whole = CHR ''0'' \<and> whole \<noteq> ''0'') then None
         else case fraction_part (dropWhile is_digit r) of
                None \<Rightarrow> None
              | Some (fr, r1) \<Rightarrow> (case exponent_text r1 of None \<Rightarrow> None | Some (ex, r2) \<Rightarrow> Some (sg @ whole @ fr @ ex, r2)))"

definition scalar_text :: "string \<Rightarrow> (json \<times> string) option" where
  "scalar_text s =
     (if take 4 s = ''null'' then Some (JNull, drop 4 s)
      else if take 4 s = ''true'' then Some (JVal (VBool True), drop 4 s)
      else if take 5 s = ''false'' then Some (JVal (VBool False), drop 5 s)
      else map_option (\<lambda>(t, r). (JNum (string_to_number t), r)) (number_text s))"

text \<open>\<open>fuel\<close> bounds the depth of the recursion; \<open>JSON_parse\<close> starts with enough for any text.\<close>

fun parse_value :: "nat \<Rightarrow> string \<Rightarrow> (json \<times> string) option"
  and parse_items :: "nat \<Rightarrow> string \<Rightarrow> json list \<Rightarrow> (json \<times> string) option"
  and parse_members :: "nat \<Rightarrow> string \<Rightarrow> (string \<times> json) list \<Rightarrow> (json \<times> string) option" where
  "parse_value 0 s = None"
| "parse_value (Suc fuel) s =
     (case skip_ws s of
        [] \<Rightarrow> None
      | c # r \<Rightarrow>
          if c = CHR 0x22 then map_option (\<lambda>(t, r'). (JStr t, r')) (string_body r)
          else if c = CHR ''['' then
            (case skip_ws r of
               d # r' \<Rightarrow> if d = CHR '']'' then Some (JArr [], r') else parse_items fuel r []
             | [] \<Rightarrow> None)
          else if c = CHR ''{'' then
            (case skip_ws r of
               d # r' \<Rightarrow> if d = CHR ''}'' then Some (JObj [], r') else parse_members fuel r []
             | [] \<Rightarrow> None)
          else scalar_text (c # r))"
| "parse_items 0 s vs = None"
| "parse_items (Suc fuel) s vs =
     (case parse_value fuel s of
        None \<Rightarrow> None
      | Some (v, r) \<Rightarrow>
          (case skip_ws r of
             [] \<Rightarrow> None
           | c # r' \<Rightarrow>
               if c = CHR '','' then parse_items fuel r' (vs @ [v])
               else if c = CHR '']'' then Some (JArr (vs @ [v]), r') else None))"
| "parse_members 0 s kvs = None"
| "parse_members (Suc fuel) s kvs =
     (case skip_ws s of
        [] \<Rightarrow> None
      | q # r \<Rightarrow>
          if q \<noteq> CHR 0x22 then None
          else (case string_body r of
                  None \<Rightarrow> None
                | Some (k, r1) \<Rightarrow>
                    (case skip_ws r1 of
                       [] \<Rightarrow> None
                     | c # r2 \<Rightarrow>
                         if c \<noteq> CHR '':'' then None
                         else (case parse_value fuel r2 of
                                 None \<Rightarrow> None
                               | Some (v, r3) \<Rightarrow>
                                   (case skip_ws r3 of
                                      [] \<Rightarrow> None
                                    | d # r4 \<Rightarrow>
                                        if d = CHR '','' then parse_members fuel r4 (AList.update k v kvs)
                                        else if d = CHR ''}'' then Some (JObj (AList.update k v kvs), r4) else None)))))"

definition JSON_parse :: "string \<Rightarrow> json option" where
  "JSON_parse s =
     (case parse_value (2 * length s + 2) s of
        None \<Rightarrow> None
      | Some (v, r) \<Rightarrow> if skip_ws r = [] then Some v else None)"

declare parse_value.simps [simp del] parse_items.simps [simp del] parse_members.simps [simp del]

lemma separators_no_space [simp]: "\<not> json_space CHR '',''" "\<not> json_space CHR '']''" "\<not> json_space CHR ''}''" "\<not> json_space CHR '':''"
  "\<not> json_space CHR 0x22" "\<not> json_space CHR ''[''" "\<not> json_space CHR ''{''"
  by (simp_all add: json_space_def)

section \<open>The fuel\<close>

lemma skip_ws_length: "skip_ws s = c # r \<Longrightarrow> length r < length s"
  by (metis length_Cons length_dropWhile_le less_eq_Suc_le)

lemma string_body_shorter: "string_body s = Some (t, r) \<Longrightarrow> length r < length s"
proof (induction s arbitrary: t rule: string_body.induct)
  case (2 c cs)
  then show ?case by (auto split: if_splits list.splits option.splits prod.splits; fastforce)
qed simp

lemma fraction_part_shorter: "fraction_part s = Some (t, r) \<Longrightarrow> length r \<le> length s"
  using length_dropWhile_le [of is_digit "tl s"]
  by (cases s) (auto simp: fraction_part_def Let_def split: if_splits)

lemma number_text_shorter:
  assumes "number_text s = Some (t, r)"
  shows "length r < length s"
proof -
  define sg where "sg = (case s of c # _ \<Rightarrow> if c = CHR ''-'' then [c] else [] | [] \<Rightarrow> [])"
  define s1 where "s1 = drop (length sg) s"
  obtain fr r1 ex where w: "takeWhile is_digit s1 \<noteq> []" and fr: "fraction_part (dropWhile is_digit s1) = Some (fr, r1)"
    and ex: "exponent_text r1 = Some (ex, r)"
    using assms by (auto simp: number_text_def Let_def sg_def s1_def split: if_splits option.splits)
  have le: "length (dropWhile is_digit x) \<le> length x" for x by (rule length_dropWhile_le)
  have "length r \<le> length r1"
    using ex le [of "drop (length (case tl r1 of c # _ \<Rightarrow> if c = CHR ''+'' \<or> c = CHR ''-'' then [c] else [] | [] \<Rightarrow> [])) (tl r1)"]
    by (auto simp: exponent_text_def Let_def split: list.splits if_splits)
  also have "length r1 \<le> length (dropWhile is_digit s1)"
    using fr by (rule fraction_part_shorter)
  also have "length (dropWhile is_digit s1) < length s1"
    using w by (metis append_self_conv2 length_append length_greater_0_conv less_add_same_cancel2 takeWhile_dropWhile_id)
  also have "length s1 \<le> length s" by (simp add: s1_def)
  finally show ?thesis .
qed

lemma scalar_text_shorter: "scalar_text s = Some (v, r) \<Longrightarrow> length r < length s"
  by (cases s) (auto simp: scalar_text_def split: if_splits dest: number_text_shorter)

lemma parse_shorter:
  "parse_value fuel s = Some (v, r) \<Longrightarrow> length r < length s"
  "parse_items fuel s vs = Some (v, r) \<Longrightarrow> length r < length s"
  "parse_members fuel s kvs = Some (v, r) \<Longrightarrow> length r < length s"
proof (induction fuel s and fuel s vs and fuel s kvs arbitrary: v r and v r and v r rule: parse_value_parse_items_parse_members.induct)
  case (2 fuel s)
  obtain c cs where s: "skip_ws s = c # cs" using "2.prems" by (auto simp: parse_value.simps split: list.splits)
  have "length r < Suc (length cs)"
  proof (cases "c = CHR ''['' \<or> c = CHR ''{''")
    case False
    then show ?thesis
      using "2.prems" s by (auto simp: parse_value.simps split: if_splits dest: string_body_shorter scalar_text_shorter intro: less_SucI)
  next
    case True
    obtain d ds where d: "skip_ws cs = d # ds"
    proof (cases "skip_ws cs")
      case Nil
      then show thesis using True "2.prems" s by (auto simp: parse_value.simps simp del: dropWhile_eq_Nil_conv)
    qed (rule that)
    show ?thesis
    proof (cases "c = CHR ''[''")
      case True
      then show ?thesis using "2.prems" s d "2.IH"(1) [OF s _ True d] skip_ws_length [OF d]
        by (auto simp: parse_value.simps split: if_splits intro: less_SucI)
    next
      case False
      then have c: "c = CHR ''{''" using True by simp
      then show ?thesis using "2.prems" s d "2.IH"(2) [OF s _ False c d] skip_ws_length [OF d]
        by (auto simp: parse_value.simps split: if_splits intro: less_SucI)
    qed
  qed
  then show ?case using skip_ws_length [OF s] by simp
next
  case (4 fuel s vs)
  obtain w r1 c r2 where v: "parse_value fuel s = Some (w, r1)" and c: "skip_ws r1 = c # r2"
    using "4.prems" by (auto simp: parse_items.simps split: list.splits option.splits)
  have "length r1 < length s" by (rule "4.IH"(1) [OF v])
  moreover have "length r2 < length r1" by (rule skip_ws_length [OF c])
  moreover have "length r \<le> length r2"
    using "4.prems" v c "4.IH"(2) [OF v refl c] by (auto simp: parse_items.simps split: if_splits intro: less_imp_le)
  ultimately show ?case by simp
next
  case (6 fuel s kvs)
  obtain r0 k r1 c r2 w r3 d r4 where p: "skip_ws s = CHR 0x22 # r0" "string_body r0 = Some (k, r1)" "skip_ws r1 = CHR '':'' # r2"
    "parse_value fuel r2 = Some (w, r3)" "skip_ws r3 = d # r4"
    using "6.prems" by (auto simp: parse_members.simps split: list.splits option.splits if_splits)
  have "length r3 < length r2" using "6.IH"(1) p by simp
  moreover have "length r \<le> length r4"
    using "6.prems" p "6.IH"(2) by (auto simp: parse_members.simps split: if_splits intro: less_imp_le)
  ultimately show ?case
    using skip_ws_length [OF p(1)] string_body_shorter [OF p(2)] skip_ws_length [OF p(3)] skip_ws_length [OF p(5)] by simp
qed (simp_all add: parse_value.simps parse_items.simps parse_members.simps)

text \<open>From a fuel of twice the length on, more of it reads nothing else.\<close>

lemma fuel_enough:
  "2 * length s + 1 \<le> fuel \<Longrightarrow> 2 * length s + 1 \<le> m \<Longrightarrow> parse_value fuel s = parse_value m s"
  "2 * length s + 2 \<le> fuel \<Longrightarrow> 2 * length s + 2 \<le> m \<Longrightarrow> parse_items fuel s vs = parse_items m s vs"
  "2 * length s + 2 \<le> fuel \<Longrightarrow> 2 * length s + 2 \<le> m \<Longrightarrow> parse_members fuel s kvs = parse_members m s kvs"
proof (induction fuel s and fuel s vs and fuel s kvs arbitrary: m and m and m rule: parse_value_parse_items_parse_members.induct)
  case (2 fuel s)
  obtain m' where m: "m = Suc m'" using "2.prems"(2) by (cases m) auto
  show ?case
  proof (cases "skip_ws s")
    case (Cons c r)
    have l: "length r < length s" by (rule skip_ws_length [OF Cons])
    then have b: "2 * length r + 2 \<le> fuel" "2 * length r + 2 \<le> m'" using "2.prems" m by simp_all
    show ?thesis
    proof (cases "skip_ws r")
      case (Cons d r')
      note I = "2.IH"(1) [OF \<open>skip_ws s = c # r\<close> _ _ Cons _ b] and M = "2.IH"(2) [OF \<open>skip_ws s = c # r\<close> _ _ _ Cons _ b]
      show ?thesis using \<open>skip_ws s = c # r\<close> Cons I M m by (simp add: parse_value.simps)
    qed (use \<open>skip_ws s = c # r\<close> m in \<open>simp add: parse_value.simps del: dropWhile_eq_Nil_conv\<close>)
  qed (simp add: m parse_value.simps del: dropWhile_eq_Nil_conv)
next
  case (4 fuel s vs)
  obtain m' where m: "m = Suc m'" using "4.prems"(2) by (cases m) auto
  have v: "parse_value fuel s = parse_value m' s" by (rule "4.IH"(1)) (use "4.prems" m in simp_all)
  show ?case
  proof (cases "parse_value fuel s")
    case (Some p)
    obtain w r1 where p: "p = (w, r1)" by (cases p)
    have both: "parse_value fuel s = Some (w, r1)" "parse_value m' s = Some (w, r1)" using v Some p by simp_all
    show ?thesis
    proof (cases "skip_ws r1")
      case (Cons c r2)
      have "length r2 < length s" using parse_shorter(1) [OF Some [unfolded p]] skip_ws_length [OF Cons] by simp
      then have "parse_items fuel r2 (vs @ [w]) = parse_items m' r2 (vs @ [w])" if "c = CHR '',''"
        using "4.IH"(2) [OF Some [unfolded p] refl Cons that] "4.prems" m by simp
      then show ?thesis using both Cons m by (simp add: parse_items.simps)
    qed (use both m in \<open>simp add: parse_items.simps del: dropWhile_eq_Nil_conv\<close>)
  qed (use v m in \<open>simp add: parse_items.simps\<close>)
next
  case (6 fuel s kvs)
  obtain m' where m: "m = Suc m'" using "6.prems"(2) by (cases m) auto
  show ?case
  proof (cases "\<exists>r0 k r1 r2. skip_ws s = CHR 0x22 # r0 \<and> string_body r0 = Some (k, r1) \<and> skip_ws r1 = CHR '':'' # r2")
    case True
    then obtain r0 k r1 r2 where p: "skip_ws s = CHR 0x22 # r0" "string_body r0 = Some (k, r1)" "skip_ws r1 = CHR '':'' # r2" by blast
    have l: "length r2 < length s" using skip_ws_length [OF p(1)] string_body_shorter [OF p(2)] skip_ws_length [OF p(3)] by simp
    then have v: "parse_value fuel r2 = parse_value m' r2"
      using "6.IH"(1) [OF p(1) _ p(2) refl p(3)] "6.prems" m by simp
    show ?thesis
    proof (cases "parse_value fuel r2")
      case (Some q)
      obtain w r3 where q: "q = (w, r3)" by (cases q)
      have both: "parse_value fuel r2 = Some (w, r3)" "parse_value m' r2 = Some (w, r3)" using v Some q by simp_all
      show ?thesis
      proof (cases "skip_ws r3")
        case (Cons d r4)
        have "length r4 < length s" using l parse_shorter(1) [OF Some [unfolded q]] skip_ws_length [OF Cons] by simp
        then have "parse_members fuel r4 (AList.update k w kvs) = parse_members m' r4 (AList.update k w kvs)" if "d = CHR '',''"
          using "6.IH"(2) [OF p(1) _ p(2) refl p(3) _ Some [unfolded q] refl Cons that] "6.prems" m by simp
        then show ?thesis using both Cons p m by (simp add: parse_members.simps)
      qed (use both p m in \<open>simp add: parse_members.simps del: dropWhile_eq_Nil_conv\<close>)
    qed (use v p m in \<open>simp add: parse_members.simps\<close>)
  next
    case False
    show ?thesis
    proof (cases "skip_ws s")
      case (Cons q r0)
      show ?thesis
      proof (cases "string_body r0")
        case (Some p)
        obtain k r1 where p: "p = (k, r1)" by (cases p)
        show ?thesis using False Cons Some p by (cases "skip_ws r1") (auto simp: m parse_members.simps simp del: dropWhile_eq_Nil_conv)
      qed (simp add: Cons m parse_members.simps)
    qed (simp add: m parse_members.simps del: dropWhile_eq_Nil_conv)
  qed
qed simp_all

section \<open>Strings\<close>

lemma unescape_escaped:
  assumes "escape_char c = [CHR 0x5C, e]"
  shows "e \<noteq> CHR ''u'' \<and> unescape e = Some c"
proof -
  have n: "char_of (of_char c :: nat) = c" by simp
  show ?thesis
    using assms
    by (auto simp: escape_char_def unescape_def Let_def split: if_splits) (use n in metis)+
qed

lemma hex_digit_val_hex_char: "d < 16 \<Longrightarrow> hex_digit_val (hex_char d) = Some d"
  by (auto simp: hex_digit_val_def hex_char_def digit_char_def Let_def)

lemma escape_cases:
  obtains (plain) "escape_char c = [c]" "c \<noteq> CHR 0x22" "c \<noteq> CHR 0x5C" "32 \<le> (of_char c :: nat)"
    | (short) e where "escape_char c = [CHR 0x5C, e]"
    | (hex) "escape_char c = CHR 0x5C # ''u00'' @ [hex_char (of_char c div 16), hex_char (of_char c mod 16)]" "(of_char c :: nat) < 32"
proof (cases "escape_char c = [c]")
  case True
  have "c \<noteq> CHR 0x22" "c \<noteq> CHR 0x5C" using True by (auto simp: escape_char_def)
  moreover have "32 \<le> (of_char c :: nat)" using True by (auto simp: escape_char_def Let_def split: if_splits)
  ultimately show thesis using True by (rule plain [rotated])
next
  case False
  then show thesis using short hex by (auto simp: escape_char_def Let_def split: if_splits)
qed

lemma string_body_escaped: "string_body (escape_body s @ CHR 0x22 # rest) = Some (s, rest)"
proof (induction s)
  case (Cons c s)
  have eb: "escape_body (c # s) = escape_char c @ escape_body s" by (simp add: escape_body_def)
  show ?case
  proof (cases c rule: escape_cases)
    case plain
    then show ?thesis using Cons by (simp add: eb)
  next
    case (short e)
    then show ?thesis using Cons unescape_escaped [OF short] by (simp add: eb)
  next
    case hex
    have "(of_char c :: nat) div 16 < 16" "(of_char c :: nat) mod 16 < 16" using hex(2) by auto
    moreover have "16 * ((of_char c :: nat) div 16) + of_char c mod 16 = of_char c" by simp
    moreover have "hex_digit_val CHR ''0'' = Some 0" by (simp add: hex_digit_val_def)
    ultimately have "hex_unit CHR ''0'' CHR ''0'' (hex_char (of_char c div 16)) (hex_char (of_char c mod 16)) = Some c"
      by (simp add: hex_unit_def hex_digit_val_hex_char)
    then show ?thesis using Cons hex(1) by (simp add: eb)
  qed
qed (simp add: escape_body_def)

section \<open>Numbers\<close>

lemma string_to_number_int:
  assumes "\<bar>i\<bar> \<le> MAX_SAFE"
  shows "string_to_number (string_of_int i) = js_int i"
proof (cases "i < 0")
  case False
  then have "string_of_int i = string_of_nat (nat i)" by (simp add: string_of_int_def)
  then show ?thesis using assms False string_to_number_digits [of "string_of_nat (nat i)"] to_double_nat_safe [of "nat i"] by simp
next
  case True
  define ds where "ds = string_of_nat (nat (- i))"
  have d: "list_all is_digit ds" "ds \<noteq> []" by (simp_all add: ds_def string_of_nat_digits)
  have sp: "\<not> is_space CHR ''-''" by (simp add: is_space_def)
  have tr: "trim (CHR ''-'' # ds) = CHR ''-'' # ds" "trim ds = ds"
    by (rule trim_no_space; use d sp in \<open>auto simp: list_all_iff dest: is_digit_not_space\<close>)+
  have inf: "ds \<noteq> ''Infinity''" using d(1) by (auto simp: is_digit_def)
  have "string_to_number ds = to_double (of_nat (nat (- i)))"
    using string_to_number_digits [of ds] by (simp add: ds_def)
  moreover have "decimal_literal ds = Some (of_nat (nat_of_digits ds))"
    using d by (simp add: decimal_literal_def exponent_part_def scale_pow_def)
  then have "unsigned_literal ds = to_double (of_nat (nat (- i)))"
    using inf by (simp add: unsigned_literal_def ds_def)
  moreover have "to_double (of_nat (nat (- i))) = js_int (- i)" using to_double_nat_safe [of "nat (- i)"] True assms by simp
  ultimately show ?thesis
    using True tr by (simp add: string_of_int_def string_to_number_def neg_num_def js_int_def ds_def [symmetric])
qed

text \<open>What may follow a value inside a text: nothing, a comma or a closing bracket.\<close>

definition value_ends :: "string \<Rightarrow> bool" where
  "value_ends rest \<longleftrightarrow> (case rest of [] \<Rightarrow> True | c # _ \<Rightarrow> c = CHR '','' \<or> c = CHR '']'' \<or> c = CHR ''}'')"

lemma digits_then:
  assumes "list_all is_digit ds" and "value_ends rest"
  shows "takeWhile is_digit (ds @ rest) = ds" "dropWhile is_digit (ds @ rest) = rest"
proof -
  have "takeWhile is_digit rest = []" "dropWhile is_digit rest = rest"
    using assms(2) by (auto simp: value_ends_def is_digit_def split: list.splits)
  then show "takeWhile is_digit (ds @ rest) = ds" "dropWhile is_digit (ds @ rest) = rest"
    using assms(1) by (auto simp: list_all_iff takeWhile_append dropWhile_append)
qed

lemma no_leading_zero: "hd (string_of_nat n) = CHR ''0'' \<Longrightarrow> string_of_nat n = ''0''"
proof (induction n rule: less_induct)
  case (less n)
  show ?case
  proof (cases "n < 10")
    case True
    then show ?thesis using less.prems by (simp add: string_of_nat.simps [of n])
  next
    case False
    then have s: "string_of_nat n = string_of_nat (n div 10) @ [digit_char (n mod 10)]" by (simp add: string_of_nat.simps [of n])
    then have "string_of_nat (n div 10) = ''0''" using less False by (simp add: hd_append)
    also have "''0'' = string_of_nat 0" by (simp add: string_of_nat.simps)
    finally have "n div 10 = 0" by simp
    then show ?thesis using False by simp
  qed
qed

lemma number_text_int:
  assumes "value_ends rest"
  shows "number_text (string_of_int i @ rest) = Some (string_of_int i, rest)"
proof -
  have tail: "fraction_part rest = Some ([], rest)" "exponent_text rest = Some ([], rest)"
    using assms by (auto simp: fraction_part_def exponent_text_def value_ends_def split: list.splits)
  have "takeWhile is_digit (string_of_nat n @ rest) = string_of_nat n" "dropWhile is_digit (string_of_nat n @ rest) = rest" for n
    by (rule digits_then [OF string_of_nat_digits assms])+
  moreover have "string_of_nat n \<noteq> [] \<and> \<not> (hd (string_of_nat n) = CHR ''0'' \<and> string_of_nat n \<noteq> ''0'')" for n
    using no_leading_zero by auto
  moreover have "(case string_of_nat n @ rest of c # _ \<Rightarrow> if c = CHR ''-'' then [c] else [] | [] \<Rightarrow> []) = []" for n
    using string_of_nat_digits [of n] string_of_nat_nonempty [of n]
    by (cases "string_of_nat n") (auto simp: is_digit_def)
  ultimately show ?thesis
    by (simp add: number_text_def Let_def string_of_int_def tail)
qed

lemma string_of_int_head:
  obtains c r where "string_of_int i = c # r" "is_digit c \<or> c = CHR ''-''"
proof (cases "i < 0")
  case False
  then show thesis using that string_of_nat_digits [of "nat i"] string_of_nat_nonempty [of "nat i"]
    by (cases "string_of_nat (nat i)") (auto simp: string_of_int_def)
qed (use that in \<open>auto simp: string_of_int_def\<close>)

lemma scalar_text_int:
  assumes "\<bar>i\<bar> \<le> MAX_SAFE" and "value_ends rest"
  shows "scalar_text (string_of_int i @ rest) = Some (JNum (js_int i), rest)"
proof -
  obtain c r where "string_of_int i = c # r" "is_digit c \<or> c = CHR ''-''"
    by (rule string_of_int_head)
  then have "take 4 (string_of_int i @ rest) \<noteq> ''null''" "take 4 (string_of_int i @ rest) \<noteq> ''true''"
    "take 5 (string_of_int i @ rest) \<noteq> ''false''"
    by (auto simp: is_digit_def)
  then show ?thesis
    using number_text_int [OF assms(2)] string_to_number_int [OF assms(1)] by (simp add: scalar_text_def)
qed

section \<open>What JSON.stringify wrote is read back\<close>

text \<open>Values JSON keeps: no undefined, whole numbers in the safe range, member names unlike.\<close>

function kept_by_json :: "json \<Rightarrow> bool" where
  "kept_by_json (JVal v) =
     (case v of VUndef \<Rightarrow> False | VNum n \<Rightarrow> is_safe_integer n | _ \<Rightarrow> True)"
| "kept_by_json (JArr xs) = list_all kept_by_json xs"
| "kept_by_json (JObj kvs) = (distinct (map fst kvs) \<and> list_all (\<lambda>kv. kept_by_json (snd kv)) kvs)"
  by pat_completeness auto
termination
proof (relation "measure size")
  show "(x, JArr xs) \<in> measure size" if "x \<in> set xs" for x xs
    using size_list_estimation' [OF that, of "size x" size] by simp
  show "(snd kv, JObj kvs) \<in> measure size" if "kv \<in> set kvs" for kv kvs
    using that size_member [of "fst kv" "snd kv" kvs] by simp
qed simp

definition reads_back :: "json \<Rightarrow> bool" where
  "reads_back v \<longleftrightarrow> (\<exists>t. json_stringify v = Some t \<and> t \<noteq> [] \<and> \<not> json_space (hd t) \<and> hd t \<noteq> CHR '']'' \<and>
     (\<forall>fuel rest. 2 * length t + 1 \<le> fuel \<longrightarrow> value_ends rest \<longrightarrow> parse_value fuel (t @ rest) = Some (v, rest)))"

lemma skip_ws_here [simp]: "s \<noteq> [] \<Longrightarrow> \<not> json_space (hd s) \<Longrightarrow> skip_ws s = s"
  by (cases s) auto

lemma skip_ws_append [simp]: "s \<noteq> [] \<Longrightarrow> \<not> json_space (hd s) \<Longrightarrow> skip_ws (s @ r) = s @ r"
  by (cases s) auto

definition items_text :: "json list \<Rightarrow> string" where
  "items_text xs = join_with '','' (map (\<lambda>x. the (json_stringify x)) xs)"

lemma parse_items_back:
  "(\<forall>x\<in>set xs. reads_back x) \<Longrightarrow> xs \<noteq> [] \<Longrightarrow> 2 * length (items_text xs) + 2 \<le> fuel \<Longrightarrow>
    parse_items fuel (items_text xs @ CHR '']'' # rest) vs = Some (JArr (vs @ xs), rest)"
proof (induction xs arbitrary: fuel vs)
  case (Cons x xs)
  obtain t where t: "json_stringify x = Some t" "t \<noteq> []"
    and p: "\<And>fuel rest. 2 * length t + 1 \<le> fuel \<Longrightarrow> value_ends rest \<Longrightarrow> parse_value fuel (t @ rest) = Some (x, rest)"
    using Cons.prems(1) by (auto simp: reads_back_def)
  obtain f where f: "fuel = Suc f" using Cons.prems(3) by (cases fuel) auto
  show ?case
  proof (cases xs)
    case Nil
    then have j: "items_text (x # xs) = t" using t by (simp add: items_text_def)
    have "parse_value f (t @ CHR '']'' # rest) = Some (x, CHR '']'' # rest)"
      by (rule p) (use Cons.prems(3) f j in \<open>simp_all add: value_ends_def\<close>)
    then show ?thesis using Nil f j by (simp add: parse_items.simps)
  next
    case (Cons y ys)
    have j: "items_text (x # xs) = t @ CHR '','' # items_text xs"
      using t Cons by (simp add: items_text_def)
    have len: "2 * length t + 1 \<le> f" "2 * length (items_text xs) + 2 \<le> f"
      using Cons.prems(3) f j t(2) by (cases t; simp)+
    have "parse_value f (t @ CHR '','' # items_text xs @ CHR '']'' # rest) = Some (x, CHR '','' # items_text xs @ CHR '']'' # rest)"
      by (rule p [OF len(1)]) (simp add: value_ends_def)
    moreover have "parse_items f (items_text xs @ CHR '']'' # rest) (vs @ [x]) = Some (JArr ((vs @ [x]) @ xs), rest)"
      by (rule Cons.IH) (use Cons.prems(1) Cons len in simp_all)
    ultimately show ?thesis using f by (simp add: j parse_items.simps)
  qed
qed simp

definition member_text :: "string \<times> json \<Rightarrow> string" where
  "member_text kv = json_quote (fst kv) @ '':'' @ the (json_stringify (snd kv))"

definition members_text :: "(string \<times> json) list \<Rightarrow> string" where
  "members_text kvs = join_with '','' (map member_text kvs)"

lemma parse_member_back:
  assumes "json_stringify v = Some t" "t \<noteq> []"
    and p: "parse_value f (t @ rest) = Some (v, rest)" and r: "rest = d # r4" "\<not> json_space d"
  shows "parse_members (Suc f) (member_text (k, v) @ rest) kvs =
    (if d = CHR '','' then parse_members f r4 (AList.update k v kvs)
     else if d = CHR ''}'' then Some (JObj (AList.update k v kvs), r4) else None)"
proof -
  have "member_text (k, v) @ rest = CHR 0x22 # escape_body k @ CHR 0x22 # CHR '':'' # t @ rest"
    using assms(1) by (simp add: member_text_def json_quote_def QUOTE_def)
  then show ?thesis using p r by (simp add: string_body_escaped parse_members.simps)
qed

lemma parse_members_back:
  "(\<forall>kv\<in>set kvs. reads_back (snd kv)) \<Longrightarrow> distinct (map fst (acc @ kvs)) \<Longrightarrow> kvs \<noteq> [] \<Longrightarrow>
    2 * length (members_text kvs) + 2 \<le> fuel \<Longrightarrow>
    parse_members fuel (members_text kvs @ CHR ''}'' # rest) acc = Some (JObj (acc @ kvs), rest)"
proof (induction kvs arbitrary: fuel acc)
  case (Cons kv kvs)
  obtain k v where kv: "kv = (k, v)" by (cases kv)
  obtain t where t: "json_stringify v = Some t" "t \<noteq> []"
    and p: "\<And>fuel rest. 2 * length t + 1 \<le> fuel \<Longrightarrow> value_ends rest \<Longrightarrow> parse_value fuel (t @ rest) = Some (v, rest)"
    using Cons.prems(1) kv by (auto simp: reads_back_def)
  obtain f where f: "fuel = Suc f" using Cons.prems(4) by (cases fuel) auto
  have m: "length t < length (member_text kv)" using t kv by (simp add: member_text_def)
  have up: "AList.update k v acc = acc @ [(k, v)]"
    using Cons.prems(2) kv by (induction acc) auto
  show ?case
  proof (cases kvs)
    case Nil
    then have j: "members_text (kv # kvs) = member_text (k, v)" using kv by (simp add: members_text_def)
    have "parse_value f (t @ CHR ''}'' # rest) = Some (v, CHR ''}'' # rest)"
      by (rule p) (use Cons.prems(4) f j m kv in \<open>simp_all add: value_ends_def\<close>)
    from parse_member_back [OF t this refl] show ?thesis unfolding f j using Nil kv up by simp
  next
    case (Cons y ys)
    have j: "members_text (kv # kvs) = member_text (k, v) @ CHR '','' # members_text kvs"
      using Cons kv by (simp add: members_text_def)
    have len: "2 * length t + 1 \<le> f" "2 * length (members_text kvs) + 2 \<le> f"
      using Cons.prems(4) f j m kv by simp_all
    have "parse_value f (t @ CHR '','' # members_text kvs @ CHR ''}'' # rest) = Some (v, CHR '','' # members_text kvs @ CHR ''}'' # rest)"
      by (rule p [OF len(1)]) (simp add: value_ends_def)
    note one = parse_member_back [OF t this refl separators_no_space(1)]
    have rest: "parse_members f (members_text kvs @ CHR ''}'' # rest) (acc @ [(k, v)]) = Some (JObj ((acc @ [(k, v)]) @ kvs), rest)"
      by (rule Cons.IH) (use Cons.prems(1,2) Cons len kv in simp_all)
    show ?thesis unfolding f j append_assoc append_Cons one using rest kv up by simp
  qed
qed simp

lemma stringify_members:
  assumes "\<forall>kv\<in>set kvs. reads_back (snd kv)"
  shows "json_stringify (JObj kvs) = Some (CHR ''{'' # members_text kvs @ ''}'')"
proof -
  have "concat (map (\<lambda>kv. case json_stringify (snd kv) of Some t \<Rightarrow> [json_quote (fst kv) @ '':'' @ t] | None \<Rightarrow> []) kvs) = map member_text kvs"
    using assms by (induction kvs) (auto simp: reads_back_def member_text_def)
  then show ?thesis by (simp add: members_text_def)
qed

lemma stringify_items:
  assumes "\<forall>x\<in>set xs. reads_back x"
  shows "json_stringify (JArr xs) = Some (CHR ''['' # items_text xs @ '']'')"
proof -
  have "map (\<lambda>x. case json_stringify x of Some t \<Rightarrow> t | None \<Rightarrow> ''null'') xs = map (\<lambda>x. the (json_stringify x)) xs"
    using assms by (auto simp: reads_back_def)
  then show ?thesis by (simp only: items_text_def json_stringify.simps) simp
qed

lemma reads_backI:
  assumes "json_stringify v = Some (c # t)" "\<not> json_space c" "c \<noteq> CHR '']''"
    and "\<And>fuel rest. 2 * length t + 2 \<le> fuel \<Longrightarrow> value_ends rest \<Longrightarrow> parse_value (Suc fuel) (c # t @ rest) = Some (v, rest)"
  shows "reads_back v"
  unfolding reads_back_def
proof (intro exI [of _ "c # t"] conjI allI impI)
  fix fuel rest
  assume "2 * length (c # t) + 1 \<le> fuel" "value_ends rest"
  then show "parse_value fuel ((c # t) @ rest) = Some (v, rest)" using assms(4) by (cases fuel) simp_all
qed (use assms in simp_all)

lemma reads_back_scalar:
  assumes "kept_by_json (JVal v)"
  shows "reads_back (JVal v)"
proof (cases v)
  case VNull
  then show ?thesis
    by (intro reads_backI [where c = "CHR ''n''" and t = "''ull''"]) (simp_all add: parse_value.simps scalar_text_def json_space_def)
next
  case (VBool b)
  then show ?thesis
    by (cases b; intro reads_backI [where c = "if b then CHR ''t'' else CHR ''f''" and t = "if b then ''rue'' else ''alse''"])
      (simp_all add: parse_value.simps scalar_text_def json_space_def)
next
  case (VStr s)
  then show ?thesis
    by (intro reads_backI [where c = "CHR 0x22" and t = "escape_body s @ QUOTE"])
      (simp_all add: parse_value.simps json_quote_def QUOTE_def string_body_escaped)
next
  case (VNum n)
  then obtain i where i: "n = js_int i" "\<bar>i\<bar> \<le> MAX_SAFE" using assms by (auto elim: is_safe_integerE)
  have written: "json_stringify (JVal v) = Some (string_of_int i)"
    using VNum i by (simp add: number_to_string_def js_int_def)
  obtain c r where c: "string_of_int i = c # r" "is_digit c \<or> c = CHR ''-''"
    by (rule string_of_int_head)
  have sp: "\<not> json_space c" "c \<noteq> CHR '']''" "c \<noteq> CHR 0x22" "c \<noteq> CHR ''[''" "c \<noteq> CHR ''{''"
    using c(2) by (auto simp: json_space_def is_digit_def)
  show ?thesis
  proof (rule reads_backI [OF _ sp(1,2)])
    show "json_stringify (JVal v) = Some (c # r)" using written c by simp
    show "parse_value (Suc fuel) (c # r @ rest) = Some (JVal v, rest)" if "value_ends rest" for fuel rest
      using scalar_text_int [OF i(2) that] c sp VNum i by (simp add: parse_value.simps)
  qed
qed (use assms in simp)

text \<open>The round trip, for any value JSON keeps.\<close>

lemma kept_reads_back: "kept_by_json v \<Longrightarrow> reads_back v"
proof (induction v rule: kept_by_json.induct)
  case (1 v)
  then show ?case by (rule reads_back_scalar)
next
  case (2 xs)
  then have backs: "\<forall>x\<in>set xs. reads_back x" by (simp add: list_all_iff)
  show ?case
  proof (rule reads_backI [OF stringify_items [OF backs]])
    fix fuel rest
    assume fuel: "2 * length (items_text xs @ '']'') + 2 \<le> fuel"
    show "parse_value (Suc fuel) (CHR ''['' # (items_text xs @ '']'') @ rest) = Some (JArr xs, rest)"
    proof (cases xs)
      case Nil
      then show ?thesis by (simp add: parse_value.simps items_text_def)
    next
      case (Cons x ys)
      then obtain t where t: "json_stringify x = Some t" "t \<noteq> []" "\<not> json_space (hd t)" "hd t \<noteq> CHR '']''"
        using backs by (auto simp: reads_back_def)
      then obtain r where h: "items_text xs = hd t # r"
        using Cons by (cases ys; cases t) (auto simp: items_text_def)
      have "parse_items fuel (items_text xs @ CHR '']'' # rest) [] = Some (JArr ([] @ xs), rest)"
        by (rule parse_items_back [OF backs]) (use Cons fuel in simp_all)
      then show ?thesis using t h by (simp add: parse_value.simps)
    qed
  qed simp_all
next
  case (3 kvs)
  then have backs: "\<forall>kv\<in>set kvs. reads_back (snd kv)" and d: "distinct (map fst kvs)" by (auto simp: list_all_iff)
  show ?case
  proof (rule reads_backI [OF stringify_members [OF backs]])
    fix fuel rest
    assume fuel: "2 * length (members_text kvs @ ''}'') + 2 \<le> fuel"
    show "parse_value (Suc fuel) (CHR ''{'' # (members_text kvs @ ''}'') @ rest) = Some (JObj kvs, rest)"
    proof (cases kvs)
      case Nil
      then show ?thesis by (simp add: parse_value.simps members_text_def)
    next
      case (Cons kv ys)
      then obtain r where h: "members_text kvs = CHR 0x22 # r"
        by (cases ys) (auto simp: members_text_def member_text_def json_quote_def QUOTE_def)
      have "parse_members fuel (members_text kvs @ CHR ''}'' # rest) [] = Some (JObj ([] @ kvs), rest)"
        by (rule parse_members_back [OF backs]) (use Cons d fuel in simp_all)
      then show ?thesis using h by (simp add: parse_value.simps)
    qed
  qed simp_all
qed

lemma json_parse_stringify:
  assumes "kept_by_json v"
  obtains t where "json_stringify v = Some t" "JSON_parse t = Some v"
proof -
  obtain t where t: "json_stringify v = Some t"
    and p: "\<And>fuel rest. 2 * length t + 1 \<le> fuel \<Longrightarrow> value_ends rest \<Longrightarrow> parse_value fuel (t @ rest) = Some (v, rest)"
    using kept_reads_back [OF assms] by (auto simp: reads_back_def)
  have "parse_value (2 * length t + 2) (t @ []) = Some (v, [])" by (rule p) (simp_all add: value_ends_def)
  then have "JSON_parse t = Some v" by (simp add: JSON_parse_def)
  with t that show thesis by blast
qed

end
