(* ===== verification/Text_Codecs.thy ===== *)
theory Text_Codecs
  imports Json_Text
begin

text \<open>
  The encodings of the platform the code calls: UTF-8 (\<open>TextEncoder\<close>, \<open>TextDecoder\<close>), base64
  (\<open>btoa\<close>, \<open>atob\<close>), and the base64url pair of \<open>src/wallet-auth.ts\<close> on top of them.  Code units are
  below 256, so a character is at most two bytes; a byte string is a string of its bytes.
\<close>

section \<open>UTF-8\<close>

definition utf8_encode :: "string \<Rightarrow> string" where
  "utf8_encode s = concat (map (\<lambda>c. let n = of_char c :: nat
     in if n < 128 then [c] else [char_of (192 + n div 64), char_of (128 + n mod 64)]) s)"

fun utf8_decode :: "string \<Rightarrow> string" where
  "utf8_decode [] = []"
| "utf8_decode (c # cs) =
     (if (of_char c :: nat) < 128 then c # utf8_decode cs
      else (case cs of
              [] \<Rightarrow> []
            | d # ds \<Rightarrow> char_of ((of_char c - 192) * 64 + (of_char d - 128) :: nat) # utf8_decode ds))"

lemma utf8_encode_Cons: "utf8_encode (c # s) =
   (if (of_char c :: nat) < 128 then [c] else [char_of (192 + (of_char c :: nat) div 64), char_of (128 + (of_char c :: nat) mod 64)]) @ utf8_encode s"
  by (simp add: utf8_encode_def Let_def)

lemma utf8_roundtrip: "utf8_decode (utf8_encode s) = s"
proof (induction s)
  case (Cons c s)
  show ?case
  proof (cases "(of_char c :: nat) < 128")
    case False
    let ?n = "of_char c :: nat"
    have n: "?n < 256" by simp
    then have "?n div 64 < 4" by (intro less_mult_imp_div_less) simp
    then have hi: "192 + ?n div 64 < 256" by simp
    have "?n mod 64 < 64" by simp
    then have lo: "128 + ?n mod 64 < 256" by linarith
    have a: "(of_char (char_of (192 + ?n div 64) :: char) :: nat) = 192 + ?n div 64" using hi by simp
    have b: "(of_char (char_of (128 + ?n mod 64) :: char) :: nat) = 128 + ?n mod 64" using lo by simp
    have "utf8_decode (char_of (192 + ?n div 64) # char_of (128 + ?n mod 64) # utf8_encode s) =
        char_of ((192 + ?n div 64 - 192) * 64 + (128 + ?n mod 64 - 128)) # s"
      unfolding utf8_decode.simps(2) [of "char_of (192 + ?n div 64)"] a list.case b Cons by simp
    also have "(192 + ?n div 64 - 192) * 64 + (128 + ?n mod 64 - 128) = ?n" by simp
    finally show ?thesis using False by (simp add: utf8_encode_Cons)
  qed (simp add: utf8_encode_Cons Cons)
qed (simp add: utf8_encode_def)

lemma utf8_decodes: "utf8_encode s = b \<Longrightarrow> utf8_decode b = s"
  using utf8_roundtrip by auto

section \<open>Base 64\<close>

definition b64_char :: "nat \<Rightarrow> char" where
  "b64_char n =
     (if n < 26 then char_of (65 + n) else if n < 52 then char_of (71 + n)
      else if n < 62 then char_of (n - 4) else if n = 62 then CHR ''+'' else CHR ''/'')"

definition b64_val :: "char \<Rightarrow> nat option" where
  "b64_val c =
     (let n = (of_char c :: nat)
      in if 65 \<le> n \<and> n \<le> 90 then Some (n - 65)
         else if 97 \<le> n \<and> n \<le> 122 then Some (n - 71)
         else if 48 \<le> n \<and> n \<le> 57 then Some (n + 4)
         else if n = 43 then Some 62 else if n = 47 then Some 63 else None)"

fun btoa :: "string \<Rightarrow> string" where
  "btoa [] = []"
| "btoa [a] = (let n = (of_char a :: nat) in [b64_char (n div 4), b64_char (n mod 4 * 16), CHR ''='', CHR ''=''])"
| "btoa [a, b] =
     (let n = (of_char a :: nat); m = (of_char b :: nat)
      in [b64_char (n div 4), b64_char (n mod 4 * 16 + m div 16), b64_char (m mod 16 * 4), CHR ''=''])"
| "btoa (a # b # c # r) =
     (let n = (of_char a :: nat); m = (of_char b :: nat); l = (of_char c :: nat)
      in b64_char (n div 4) # b64_char (n mod 4 * 16 + m div 16) # b64_char (m mod 16 * 4 + l div 64) # b64_char (l mod 64) # btoa r)"

text \<open>
  \<open>atob\<close>: white space is dropped, at most two signs of padding are taken off a text of whole
  quadruples, and a text of another length than base 64 has or with another character is refused.
\<close>

fun sextets :: "nat list \<Rightarrow> string" where
  "sextets [a, b] = [char_of (a * 4 + b div 16)]"
| "sextets [a, b, c] = [char_of (a * 4 + b div 16), char_of (b mod 16 * 16 + c div 4)]"
| "sextets (a # b # c # d # r) =
     char_of (a * 4 + b div 16) # char_of (b mod 16 * 16 + c div 4) # char_of (c mod 4 * 64 + d) # sextets r"
| "sextets _ = []"

definition unpadded :: "string \<Rightarrow> string" where
  "unpadded s =
     (if length s mod 4 \<noteq> 0 then s
      else let s1 = (if s \<noteq> [] \<and> last s = CHR ''='' then butlast s else s)
           in if s1 \<noteq> s \<and> s1 \<noteq> [] \<and> last s1 = CHR ''='' then butlast s1 else s1)"

definition atob :: "string \<Rightarrow> string option" where
  "atob text0 =
     (let s = unpadded (filter (\<lambda>c. (of_char c :: nat) \<notin> {9, 10, 12, 13, 32}) text0); vs = map b64_val s
      in if length s mod 4 = 1 \<or> None \<in> set vs then None else Some (sextets (map the vs)))"

section \<open>base64url\<close>

definition base64UrlEncodeBytes :: "string \<Rightarrow> string" where
  "base64UrlEncodeBytes bytes =
     rev (dropWhile (\<lambda>c. c = CHR ''='') (rev (map (\<lambda>c. if c = CHR ''/'' then CHR ''_'' else c)
       (map (\<lambda>c. if c = CHR ''+'' then CHR ''-'' else c) (btoa bytes)))))"

definition base64UrlDecodeToBytes :: "string \<Rightarrow> string option" where
  "base64UrlDecodeToBytes encoded =
     (let padded = map (\<lambda>c. if c = CHR ''_'' then CHR ''/'' else c) (map (\<lambda>c. if c = CHR ''-'' then CHR ''+'' else c) encoded);
          pad = (if length padded mod 4 = 0 then [] else replicate (4 - length padded mod 4) CHR ''='')
      in atob (padded @ pad))"

text \<open>The digits of a byte string, without padding.\<close>

fun sixes :: "string \<Rightarrow> nat list" where
  "sixes [] = []"
| "sixes [a] = (let n = (of_char a :: nat) in [n div 4, n mod 4 * 16])"
| "sixes [a, b] = (let n = (of_char a :: nat); m = (of_char b :: nat) in [n div 4, n mod 4 * 16 + m div 16, m mod 16 * 4])"
| "sixes (a # b # c # r) =
     (let n = (of_char a :: nat); m = (of_char b :: nat); l = (of_char c :: nat)
      in n div 4 # (n mod 4 * 16 + m div 16) # (m mod 16 * 4 + l div 64) # (l mod 64) # sixes r)"

definition padding :: "string \<Rightarrow> string" where
  "padding s = (if length s mod 3 = 0 then [] else if length s mod 3 = 1 then ''=='' else ''='')"

lemma digits_of:
  fixes b q :: nat
  shows "q < 16 \<Longrightarrow> (b * 16 + q) div 16 = b" "q < 16 \<Longrightarrow> (b * 16 + q) mod 16 = q"
    "q < 4 \<Longrightarrow> (b * 4 + q) div 4 = b" "q < 4 \<Longrightarrow> (b * 4 + q) mod 4 = q"
  by simp_all

lemma high_bits:
  fixes m :: nat
  shows "m < 256 \<Longrightarrow> m div 16 < 16" "m < 256 \<Longrightarrow> m div 64 < 4" "m < 256 \<Longrightarrow> m div 4 < 64"
  by (simp_all add: less_mult_imp_div_less)

lemma six_bits:
  fixes n m l :: nat
  shows "m < 256 \<Longrightarrow> n div 4 * 4 + (n mod 4 * 16 + m div 16) div 16 = n"
    "m < 256 \<Longrightarrow> l < 256 \<Longrightarrow> (n mod 4 * 16 + m div 16) mod 16 * 16 + (m mod 16 * 4 + l div 64) div 4 = m"
    "l < 256 \<Longrightarrow> (m mod 16 * 4 + l div 64) mod 4 * 64 + l mod 64 = l"
    "m < 256 \<Longrightarrow> n mod 4 * 16 + m div 16 < 64" "l < 256 \<Longrightarrow> m mod 16 * 4 + l div 64 < 64" "l mod 64 < 64"
proof -
  have "n mod 4 < 4" "m mod 16 < 16" by simp_all
  then show "m < 256 \<Longrightarrow> n mod 4 * 16 + m div 16 < 64" "l < 256 \<Longrightarrow> m mod 16 * 4 + l div 64 < 64"
    using high_bits(1) [of m] high_bits(2) [of l] by linarith+
qed (simp_all add: digits_of high_bits)

lemma six_bits_end:
  fixes n m :: nat
  shows "n div 4 * 4 + n mod 4 * 16 div 16 = n"
    "m < 256 \<Longrightarrow> (n mod 4 * 16 + m div 16) mod 16 * 16 + m mod 16 * 4 div 4 = m"
    "n mod 4 * 16 < 64" "m mod 16 * 4 < 64"
proof -
  show "m < 256 \<Longrightarrow> (n mod 4 * 16 + m div 16) mod 16 * 16 + m mod 16 * 4 div 4 = m"
    by (simp add: digits_of high_bits)
  have "n mod 4 < 4" "m mod 16 < 16" by simp_all
  then show "n mod 4 * 16 < 64" "m mod 16 * 4 < 64" by linarith+
qed simp

lemma of_char_bound: "(of_char c :: nat) < 256"
  by simp

lemma sixes_bound: "x \<in> set (sixes s) \<Longrightarrow> x < 64"
  by (induction s rule: sixes.induct)
    (auto simp only: sixes.simps Let_def list.set six_bits six_bits_end of_char_bound insert_iff empty_iff high_bits)

lemma sextets_sixes: "sextets (sixes s) = s"
  by (induction s rule: sixes.induct)
    (simp_all only: sixes.simps sextets.simps Let_def six_bits six_bits_end of_char_bound char_of_char)

lemma btoa_sixes: "btoa s = map b64_char (sixes s) @ padding s"
  by (induction s rule: sixes.induct) (simp_all add: Let_def padding_def)

lemma sixes_length: "length (sixes s) mod 4 = (if length s mod 3 = 0 then 0 else length s mod 3 + 1)"
proof (induction s rule: sixes.induct)
  case (4 a b c r)
  have "length (sixes (a # b # c # r)) mod 4 = length (sixes r) mod 4" by (simp add: Let_def)
  moreover have "length (a # b # c # r) mod 3 = length r mod 3" by simp
  ultimately show ?case using 4 by (simp only:)
qed (simp_all add: Let_def)

lemma b64_val_char: "n < 64 \<Longrightarrow> b64_val (b64_char n) = Some n"
  by (auto simp: b64_val_def b64_char_def Let_def)

definition url_char :: "char \<Rightarrow> char" where
  "url_char c = (if c = CHR ''+'' then CHR ''-'' else if c = CHR ''/'' then CHR ''_'' else c)"

definition unurl_char :: "char \<Rightarrow> char" where
  "unurl_char c = (if c = CHR ''-'' then CHR ''+'' else if c = CHR ''_'' then CHR ''/'' else c)"

lemma b64_char_code:
  "n < 64 \<Longrightarrow> (of_char (b64_char n) :: nat) = (if n < 26 then 65 + n else if n < 52 then 71 + n else if n < 62 then n - 4 else if n = 62 then 43 else 47)"
  by (simp add: b64_char_def)

lemma b64_char_not:
  assumes "n < 64"
  shows "b64_char n \<noteq> CHR ''=''" "b64_char n \<noteq> CHR ''-''" "b64_char n \<noteq> CHR ''_''" "b64_char n \<noteq> CHR ''.''"
    "(of_char (b64_char n) :: nat) \<notin> {9, 10, 12, 13, 32}"
proof -
  have "(of_char (b64_char n) :: nat) \<notin> {61, 45, 95, 46, 9, 10, 12, 13, 32}" using assms by (auto simp: b64_char_code)
  then show "b64_char n \<noteq> CHR ''=''" "b64_char n \<noteq> CHR ''-''" "b64_char n \<noteq> CHR ''_''" "b64_char n \<noteq> CHR ''.''"
    "(of_char (b64_char n) :: nat) \<notin> {9, 10, 12, 13, 32}" by auto
qed

lemma unurl_url: "n < 64 \<Longrightarrow> unurl_char (url_char (b64_char n)) = b64_char n"
  using b64_char_not [of n] by (auto simp: url_char_def unurl_char_def)

lemma dropWhile_rev_end:
  assumes "\<forall>c\<in>set ys. P c" and "\<forall>c\<in>set xs. \<not> P c"
  shows "rev (dropWhile P (rev (xs @ ys))) = xs"
proof -
  have "dropWhile P (zs @ rev xs) = dropWhile P (rev xs)" if "\<forall>c\<in>set zs. P c" for zs
    using that by (induction zs) auto
  from this [of "rev ys"] have "dropWhile P (rev ys @ rev xs) = dropWhile P (rev xs)" using assms(1) by simp
  moreover have "dropWhile P (rev xs) = rev xs" using assms(2) by (cases "rev xs") (auto simp: rev_swap)
  ultimately show ?thesis by simp
qed

lemma base64UrlEncode_sixes: "base64UrlEncodeBytes s = map (\<lambda>n. url_char (b64_char n)) (sixes s)"
proof -
  have url_map: "map (\<lambda>c. if c = CHR ''/'' then CHR ''_'' else c) (map (\<lambda>c. if c = CHR ''+'' then CHR ''-'' else c) xs) = map url_char xs" for xs
    by (auto simp: url_char_def)
  then have "base64UrlEncodeBytes s = rev (dropWhile (\<lambda>c. c = CHR ''='') (rev (map (\<lambda>n. url_char (b64_char n)) (sixes s) @ map url_char (padding s))))"
    unfolding base64UrlEncodeBytes_def url_map by (simp add: btoa_sixes o_def)
  also have "\<dots> = map (\<lambda>n. url_char (b64_char n)) (sixes s)"
  proof (rule dropWhile_rev_end)
    have "url_char (b64_char n) \<noteq> CHR ''=''" if "n \<in> set (sixes s)" for n
      using b64_char_not(1) [OF sixes_bound [OF that]] by (simp add: url_char_def)
    then show "\<forall>c\<in>set (map (\<lambda>n. url_char (b64_char n)) (sixes s)). c \<noteq> CHR ''=''" by auto
  qed (simp add: padding_def url_char_def)
  finally show ?thesis .
qed

lemma unpadded_padding:
  assumes "\<forall>c\<in>set e. c \<noteq> CHR ''=''" and "length e mod 4 = (if length s mod 3 = 0 then 0 else length s mod 3 + 1)"
  shows "unpadded (e @ padding s) = e"
proof -
  have "length s mod 3 = 0 \<or> length s mod 3 = 1 \<or> length s mod 3 = 2" by auto
  then consider "padding s = []" | "padding s = ''=''" "length e mod 4 = 3" | "padding s = ''==''" "length e mod 4 = 2"
    using assms(2) by (auto simp: padding_def)
  moreover have no_last: "\<not> (e \<noteq> [] \<and> last e = CHR ''='')" using assms(1) last_in_set [of e] by blast
  ultimately show ?thesis
  proof cases
    case 1
    then show ?thesis using no_last by (auto simp: unpadded_def Let_def)
  next
    case 2
    have "(length e + 1) mod 4 = 0" using 2(2) by presburger
    then show ?thesis using \<open>(length e + 1) mod 4 = 0\<close> 2(1) no_last by (auto simp: unpadded_def Let_def)
  next
    case 3
    have "(length e + 2) mod 4 = 0" using 3(2) by presburger
    then show ?thesis using \<open>(length e + 2) mod 4 = 0\<close> 3(1) by (simp add: unpadded_def Let_def butlast_append)
  qed
qed

lemma base64url_roundtrip: "base64UrlDecodeToBytes (base64UrlEncodeBytes s) = Some s"
proof -
  define e where "e = map b64_char (sixes s)"
  have len: "length e mod 4 = (if length s mod 3 = 0 then 0 else length s mod 3 + 1)" by (simp add: e_def sixes_length)
  have back_map: "map (\<lambda>c. if c = CHR ''_'' then CHR ''/'' else c) (map (\<lambda>c. if c = CHR ''-'' then CHR ''+'' else c) xs) = map unurl_char xs" for xs
    by (auto simp: unurl_char_def)
  have pd: "map (\<lambda>c. if c = CHR ''_'' then CHR ''/'' else c) (map (\<lambda>c. if c = CHR ''-'' then CHR ''+'' else c) (base64UrlEncodeBytes s)) = e"
  proof -
    have "map unurl_char (base64UrlEncodeBytes s) = e" using sixes_bound unurl_url by (simp add: base64UrlEncode_sixes e_def)
    then show ?thesis by (simp only: back_map)
  qed
  have three: "length s mod 3 = 0 \<or> length s mod 3 = 1 \<or> length s mod 3 = 2" by auto
  then have pad: "(if length e mod 4 = 0 then [] else replicate (4 - length e mod 4) CHR ''='') = padding s"
    unfolding len padding_def by (elim disjE) (simp_all add: numeral_2_eq_2)
  have ok: "c \<noteq> CHR ''=''" "(of_char c :: nat) \<notin> {9, 10, 12, 13, 32}" if "c \<in> set e" for c
    using that sixes_bound b64_char_not by (auto simp: e_def)
  have "filter (\<lambda>c. (of_char c :: nat) \<notin> {9, 10, 12, 13, 32}) (e @ padding s) = e @ padding s"
    using ok(2) by (auto simp: filter_id_conv padding_def split: if_splits)
  moreover have "unpadded (e @ padding s) = e" using ok(1) len by (intro unpadded_padding) auto
  moreover have "map b64_val e = map Some (sixes s)" using sixes_bound b64_val_char by (simp add: e_def)
  moreover have "length e mod 4 \<noteq> 1" using len by simp
  moreover have "None \<notin> set (map Some (sixes s))" "map the (map Some (sixes s)) = sixes s" by (auto simp: o_def)
  ultimately have "atob (e @ padding s) = Some s"
    by (simp only: atob_def Let_def sextets_sixes) simp
  then show ?thesis unfolding base64UrlDecodeToBytes_def Let_def pd pad .
qed

lemma base64url_no_dot: "CHR ''.'' \<notin> set (base64UrlEncodeBytes s)"
  using sixes_bound b64_char_not by (fastforce simp: base64UrlEncode_sixes url_char_def split: if_splits)

lemma base64url_nonempty: "s \<noteq> [] \<Longrightarrow> base64UrlEncodeBytes s \<noteq> []"
  by (cases s rule: sixes.cases) (simp_all add: base64UrlEncode_sixes Let_def)

end
