(* ===== verification/Pg_Queue.thy ===== *)
theory Pg_Queue
  imports Queue_Delivery Text_Codecs "HOL-Library.Product_Lexorder"
begin

text \<open>
  The durable queue of the native deployment (\<open>src/pg-queue.ts\<close>) over the tables of
  \<open>migrations/postgres/0026_jobs.sql\<close>: sending, the claim of a batch under a lease, and its
  settlement.  Every transport transaction takes the row of \<open>jobs.capacity\<close> first, so transactions
  are serial and each is a function on the tables that either commits or changes nothing.  A byte is
  a character, a time is in milliseconds; the database's clock and the random ids are arguments.
\<close>

section \<open>Policies\<close>

definition PG_QUEUE_NAMES :: "string list" where
  "PG_QUEUE_NAMES =
     [''probe-jobs'', ''webhook-deliveries'', ''sync-batches'', ''probe-jobs-dlq'', ''webhook-deliveries-dlq'', ''sync-batches-dlq'']"

record Policy =
  pq_name :: string
  max_batch_size :: nat
  max_batch_timeout :: nat
  max_retries :: nat
  max_concurrency :: nat
  retry_delay :: nat
  dead_letter_queue :: "string option"

definition policy :: "string \<Rightarrow> nat \<Rightarrow> nat \<Rightarrow> nat \<Rightarrow> nat \<Rightarrow> nat \<Rightarrow> string option \<Rightarrow> Policy" where
  "policy n batch timeout retries concurrency delay dead =
     \<lparr>pq_name = n, max_batch_size = batch, max_batch_timeout = timeout, max_retries = retries,
      max_concurrency = concurrency, retry_delay = delay, dead_letter_queue = dead\<rparr>"

definition policyValues :: "Policy list" where
  "policyValues =
     [policy ''probe-jobs'' 5 15 3 2 0 (Some ''probe-jobs-dlq''),
      policy ''webhook-deliveries'' 10 5 8 4 0 (Some ''webhook-deliveries-dlq''),
      policy ''sync-batches'' 10 5 5 2 0 (Some ''sync-batches-dlq''),
      policy ''probe-jobs-dlq'' 100 30 0 1 0 None,
      policy ''webhook-deliveries-dlq'' 100 30 0 1 0 None,
      policy ''sync-batches-dlq'' 100 30 100 1 600 None]"

definition policy_of :: "Policy list \<Rightarrow> string \<Rightarrow> Policy option" where
  "policy_of ps queue = List.find (\<lambda>p. pq_name p = queue) ps"

section \<open>The tables\<close>

datatype ContentType = JsonType | TextType | BytesType | V8Type

record message_row =
  m_id :: string
  m_queue :: string
  m_original_queue :: string
  m_content_type :: ContentType
  m_body :: string
  m_created :: int
  m_available :: int
  m_attempts :: nat
  m_original_attempts :: nat
  m_delivery :: "string option"
  m_parked_at :: "int option"

record delivery_row =
  l_id :: string
  l_queue :: string
  l_expires :: int

record capacity_row =
  max_messages :: nat
  max_bytes :: nat
  message_count :: nat
  body_bytes :: nat

record jobs =
  activated :: bool
  policies :: "Policy list"
  capacity :: "capacity_row option"
  msgs :: "message_row list"
  deliveries :: "delivery_row list"

datatype queue_error =
    InvalidLimit string | ExecutionAfterLease | CapacityDiffers | NotActivated | PolicyDiffers | UnknownQueue
  | NotSerializable | TextNotString | ContentMismatch | BodyTooLarge | TooManyMessages | V8Body | BatchTooLarge
  | DelayInvalid | LeaseNotOwned | MembershipDiffers | ConstraintFailed

text \<open>A statement: its answer, or the error that rolls the transaction back.\<close>

type_synonym 'a statement = "jobs \<Rightarrow> queue_error + 'a \<times> jobs"

definition update_messages :: "(message_row \<Rightarrow> bool) \<Rightarrow> (message_row \<Rightarrow> message_row) \<Rightarrow> jobs \<Rightarrow> jobs" where
  "update_messages P f j = j\<lparr>msgs := map (\<lambda>m. if P m then f m else m) (msgs j)\<rparr>"

text \<open>
  An insert fails on a taken id or when the counting trigger leaves the capacity row out of its
  bounds; a delete counts back.
\<close>

definition insert_message :: "message_row \<Rightarrow> jobs \<Rightarrow> queue_error + jobs" where
  "insert_message m j =
     (case capacity j of
        None \<Rightarrow> Inl ConstraintFailed
      | Some c \<Rightarrow>
          if m_id m \<in> m_id ` set (msgs j) \<or> max_messages c < Suc (message_count c) \<or>
             max_bytes c < body_bytes c + length (m_body m) then Inl ConstraintFailed
          else Inr (j\<lparr>msgs := msgs j @ [m],
                      capacity := Some (c\<lparr>message_count := Suc (message_count c), body_bytes := body_bytes c + length (m_body m)\<rparr>)\<rparr>))"

definition bytes_of :: "message_row list \<Rightarrow> nat" where
  "bytes_of ms = sum_list (map (\<lambda>m. length (m_body m)) ms)"

definition delete_messages :: "(message_row \<Rightarrow> bool) \<Rightarrow> jobs \<Rightarrow> jobs" where
  "delete_messages P j =
     j\<lparr>msgs := filter (\<lambda>m. \<not> P m) (msgs j),
       capacity := map_option (\<lambda>c. c\<lparr>message_count := message_count c - length (filter P (msgs j)),
                                     body_bytes := body_bytes c - bytes_of (filter P (msgs j))\<rparr>) (capacity j)\<rparr>"

definition insert_delivery_row :: "delivery_row \<Rightarrow> jobs \<Rightarrow> queue_error + jobs" where
  "insert_delivery_row d j =
     (if l_id d \<in> l_id ` set (deliveries j) then Inl ConstraintFailed else Inr (j\<lparr>deliveries := deliveries j @ [d]\<rparr>))"

text \<open>The delivery a message points to, and whether it has expired by a time.\<close>

definition delivery_of :: "jobs \<Rightarrow> message_row \<Rightarrow> delivery_row option" where
  "delivery_of j m = (case m_delivery m of None \<Rightarrow> None | Some i \<Rightarrow> List.find (\<lambda>d. l_id d = i) (deliveries j))"

definition unleased :: "jobs \<Rightarrow> int \<Rightarrow> message_row \<Rightarrow> bool" where
  "unleased j now m = (case delivery_of j m of None \<Rightarrow> True | Some d \<Rightarrow> l_expires d \<le> now)"

section \<open>The transport\<close>

record PgQueueLimits =
  lim_messages :: nat
  lim_bytes :: nat
  lim_lease :: nat
  lim_execution :: nat
  lim_drain :: nat

definition limit_error :: "PgQueueLimits \<Rightarrow> queue_error option" where
  "limit_error limits =
     (case List.find (\<lambda>(nm, v, ceiling). v < 1 \<or> ceiling < v)
        [(''maxMessages'', lim_messages limits, 100000), (''maxBytes'', lim_bytes limits, 1073741824),
         (''leaseMilliseconds'', lim_lease limits, 3600000), (''executionTimeoutMillis'', lim_execution limits, 3600000),
         (''drainTimeoutMillis'', lim_drain limits, 3600000)] of
        Some (nm, _) \<Rightarrow> Some (InvalidLimit nm)
      | None \<Rightarrow> if lim_lease limits \<le> lim_execution limits then Some ExecutionAfterLease else None)"

definition capacity_matches :: "PgQueueLimits \<Rightarrow> jobs \<Rightarrow> bool" where
  "capacity_matches limits j =
     (case capacity j of
        None \<Rightarrow> False
      | Some c \<Rightarrow> max_messages c = lim_messages limits \<and> max_bytes c = lim_bytes limits)"

definition transact :: "PgQueueLimits \<Rightarrow> 'a statement \<Rightarrow> jobs \<Rightarrow> (queue_error + 'a) \<times> jobs" where
  "transact limits operation j =
     (if \<not> capacity_matches limits j then (Inl CapacityDiffers, j)
      else if \<not> activated j then (Inl NotActivated, j)
      else case operation j of
             Inl e \<Rightarrow> (Inl e, j)
           | Inr (r, j') \<Rightarrow> (Inr r, j'))"

text \<open>Starting the transport: the rows of the policy table must be exactly the expected ones.\<close>

definition policies_expected :: "Policy list \<Rightarrow> bool" where
  "policies_expected rows \<longleftrightarrow>
     length rows = length PG_QUEUE_NAMES \<and>
     list_all (\<lambda>r. pq_name r \<in> set PG_QUEUE_NAMES \<and> policy_of policyValues (pq_name r) = Some r) rows"

definition createPgQueueTransport :: "PgQueueLimits \<Rightarrow> jobs \<Rightarrow> (queue_error + Policy list) \<times> jobs" where
  "createPgQueueTransport limits j =
     (case limit_error limits of
        Some e \<Rightarrow> (Inl e, j)
      | None \<Rightarrow>
          if \<not> activated j then (Inl NotActivated, j)
          else let j' = (case capacity j of
                           Some _ \<Rightarrow> j
                         | None \<Rightarrow> j\<lparr>capacity := Some \<lparr>max_messages = lim_messages limits, max_bytes = lim_bytes limits,
                                                        message_count = 0, body_bytes = 0\<rparr>\<rparr>)
               in if \<not> capacity_matches limits j' then (Inl CapacityDiffers, j)
                  else if \<not> policies_expected (policies j') then (Inl PolicyDiffers, j)
                  else (Inr (policies j'), j'))"

text \<open>
  The delivery loop's metrics of a queue: what is waiting and due.  Its sums are the database's; the
  oldest time is absent when nothing waits.
\<close>

record queue_metrics =
  backlogCount :: nat
  backlogBytes :: nat
  oldest :: "int option"

definition due :: "jobs \<Rightarrow> int \<Rightarrow> string \<Rightarrow> message_row \<Rightarrow> bool" where
  "due j now queue m \<longleftrightarrow> m_queue m = queue \<and> m_parked_at m = None \<and> m_available m \<le> now \<and> unleased j now m"

definition queue_metrics_of :: "jobs \<Rightarrow> int \<Rightarrow> string \<Rightarrow> queue_metrics" where
  "queue_metrics_of j now queue =
     (let rows = filter (due j now queue) (msgs j)
      in \<lparr>backlogCount = length rows, backlogBytes = bytes_of rows,
          oldest = (if rows = [] then None else Some (Min (m_created ` set rows)))\<rparr>)"

section \<open>Sending\<close>

text \<open>A body as the sender hands it over: a value of the language, or an \<open>ArrayBuffer\<close>.\<close>

datatype queue_body = BodyValue json | BodyBuffer string

definition encode_body :: "queue_body \<Rightarrow> ContentType \<Rightarrow> queue_error + string" where
  "encode_body b t =
     (let sized = (\<lambda>result. if 131072 < length result then Inl BodyTooLarge else Inr result)
      in case t of
           JsonType \<Rightarrow>
             (case (case b of BodyValue v \<Rightarrow> json_stringify v | BodyBuffer _ \<Rightarrow> Some ''{}'') of
                None \<Rightarrow> Inl NotSerializable
              | Some txt \<Rightarrow> sized (utf8_encode txt))
         | TextType \<Rightarrow>
             (case b of BodyValue (JVal (VStr s)) \<Rightarrow> sized (utf8_encode s) | _ \<Rightarrow> Inl TextNotString)
         | BytesType \<Rightarrow> (case b of BodyBuffer bs \<Rightarrow> sized bs | _ \<Rightarrow> Inl ContentMismatch)
         | V8Type \<Rightarrow> Inl ContentMismatch)"

definition decode_body :: "(string \<Rightarrow> json option) \<Rightarrow> message_row \<Rightarrow> queue_body option" where
  "decode_body json_parse m =
     (case m_content_type m of
        JsonType \<Rightarrow> map_option BodyValue (json_parse (utf8_decode (m_body m)))
      | TextType \<Rightarrow> Some (BodyValue (JStr (utf8_decode (m_body m))))
      | _ \<Rightarrow> Some (BodyBuffer (m_body m)))"

record send_request =
  sr_body :: queue_body
  sr_type :: "ContentType option"
  sr_delay :: "jsnum option"

record encoded_row =
  e_body :: string
  e_type :: ContentType
  e_delay :: int

text \<open>The rows of one send, checked message by message; nothing is stored when one is refused.\<close>

definition encode_step :: "int \<Rightarrow> encoded_row list \<times> nat \<Rightarrow> send_request \<Rightarrow> queue_error + encoded_row list \<times> nat" where
  "encode_step batchDelay acc message =
     (let (rows, total) = acc; t = (case sr_type message of None \<Rightarrow> JsonType | Some t \<Rightarrow> t)
      in if length rows = 100 then Inl TooManyMessages
         else if t = V8Type then Inl V8Body
         else (case encode_body (sr_body message) t of
                 Inl e \<Rightarrow> Inl e
               | Inr b \<Rightarrow>
                   if 262144 < total + length b then Inl BatchTooLarge
                   else (case queueDelaySeconds (sr_delay message) batchDelay of
                           Inl _ \<Rightarrow> Inl DelayInvalid
                         | Inr d \<Rightarrow> Inr (rows @ [\<lparr>e_body = b, e_type = t, e_delay = d\<rparr>], total + length b))))"

fun encode_batch :: "int \<Rightarrow> encoded_row list \<times> nat \<Rightarrow> send_request list \<Rightarrow> queue_error + encoded_row list" where
  "encode_batch batchDelay acc [] = Inr (fst acc)"
| "encode_batch batchDelay acc (m # ms) =
     (case encode_step batchDelay acc m of
        Inl e \<Rightarrow> Inl e
      | Inr acc' \<Rightarrow> encode_batch batchDelay acc' ms)"

definition new_message :: "string \<Rightarrow> int \<Rightarrow> string \<Rightarrow> encoded_row \<Rightarrow> message_row" where
  "new_message queue now i row =
     \<lparr>m_id = i, m_queue = queue, m_original_queue = queue, m_content_type = e_type row, m_body = e_body row,
      m_created = now, m_available = now + e_delay row * 1000, m_attempts = 0, m_original_attempts = 0,
      m_delivery = None, m_parked_at = None\<rparr>"

fun insert_rows :: "message_row list \<Rightarrow> jobs \<Rightarrow> queue_error + jobs" where
  "insert_rows [] j = Inr j"
| "insert_rows (m # ms) j = (case insert_message m j of Inl e \<Rightarrow> Inl e | Inr j' \<Rightarrow> insert_rows ms j')"

definition enqueue ::
    "PgQueueLimits \<Rightarrow> Policy list \<Rightarrow> string \<Rightarrow> send_request list \<Rightarrow> jsnum option \<Rightarrow> (nat \<Rightarrow> string) \<Rightarrow> int \<Rightarrow>
     jobs \<Rightarrow> (queue_error + queue_metrics) \<times> jobs" where
  "enqueue limits ps queue input delaySeconds randomUUID now j =
     (case policy_of ps queue of
        None \<Rightarrow> (Inl UnknownQueue, j)
      | Some _ \<Rightarrow>
          (case queueDelaySeconds delaySeconds 0 of
             Inl _ \<Rightarrow> (Inl DelayInvalid, j)
           | Inr batchDelay \<Rightarrow>
               (case encode_batch batchDelay ([], 0) input of
                  Inl e \<Rightarrow> (Inl e, j)
                | Inr rows \<Rightarrow>
                    transact limits (\<lambda>j. case insert_rows (map (\<lambda>(i, row). new_message queue now (randomUUID i) row) (enumerate 0 rows)) j of
                        Inl e \<Rightarrow> Inl e
                      | Inr j' \<Rightarrow> Inr (queue_metrics_of j' now queue, j')) j)))"

section \<open>Claiming a batch\<close>

text \<open>A message that has used its attempts moves to the dead-letter queue, or is parked where there is none.\<close>

definition exhaust :: "Policy \<Rightarrow> int \<Rightarrow> message_row \<Rightarrow> message_row" where
  "exhaust p now m =
     (case dead_letter_queue p of
        Some q \<Rightarrow> m\<lparr>m_queue := q, m_original_attempts := m_attempts m, m_attempts := 0, m_delivery := None, m_available := now\<rparr>
      | None \<Rightarrow> m\<lparr>m_parked_at := Some now, m_delivery := None\<rparr>)"

definition exhausted :: "Policy \<Rightarrow> string \<Rightarrow> int \<Rightarrow> jobs \<Rightarrow> jobs" where
  "exhausted p i now = update_messages (\<lambda>m. m_id m = i) (exhaust p now)"

definition abandoned_rows :: "Policy \<Rightarrow> int \<Rightarrow> jobs \<Rightarrow> message_row list" where
  "abandoned_rows p now j =
     take (max_batch_size p) (sort_key (\<lambda>m. (m_available m, m_id m))
       (filter (\<lambda>m. m_queue m = pq_name p \<and> (case delivery_of j m of None \<Rightarrow> False | Some d \<Rightarrow> l_expires d \<le> now) \<and>
          max_retries p < m_attempts m) (msgs j)))"

definition cleanup :: "jobs \<Rightarrow> jobs" where
  "cleanup j = j\<lparr>deliveries := filter (\<lambda>d. list_ex (\<lambda>m. m_delivery m = Some (l_id d)) (msgs j)) (deliveries j)\<rparr>"

definition live_deliveries :: "jobs \<Rightarrow> int \<Rightarrow> string \<Rightarrow> delivery_row list" where
  "live_deliveries j now queue = filter (\<lambda>d. l_queue d = queue \<and> now < l_expires d) (deliveries j)"

definition due_rows :: "Policy \<Rightarrow> int \<Rightarrow> jobs \<Rightarrow> message_row list" where
  "due_rows p now j =
     take (max_batch_size p) (sort_key (\<lambda>m. (m_available m, m_created m, m_id m)) (filter (due j now (pq_name p)) (msgs j)))"

datatype claim_result = ClaimCapacity | ClaimEmpty | ClaimWaiting | Claimed queue_metrics string "message_row list"

definition claim_rows :: "PgQueueLimits \<Rightarrow> Policy \<Rightarrow> string \<Rightarrow> int \<Rightarrow> message_row list \<Rightarrow> claim_result statement" where
  "claim_rows limits p uuid now rows j =
     (case insert_delivery_row \<lparr>l_id = uuid, l_queue = pq_name p, l_expires = now + int (lim_lease limits)\<rparr> j of
        Inl e \<Rightarrow> Inl e
      | Inr j1 \<Rightarrow>
          let ids = map m_id rows;
              j2 = update_messages (\<lambda>m. m_id m \<in> set ids) (\<lambda>m. m\<lparr>m_delivery := Some uuid, m_attempts := Suc (m_attempts m)\<rparr>) j1
          in Inr (Claimed (queue_metrics_of j2 now (pq_name p)) uuid (map (\<lambda>m. m\<lparr>m_attempts := Suc (m_attempts m)\<rparr>) rows), j2))"

definition claim :: "PgQueueLimits \<Rightarrow> Policy \<Rightarrow> string \<Rightarrow> int \<Rightarrow> jobs \<Rightarrow> (queue_error + claim_result) \<times> jobs" where
  "claim limits p uuid now =
     transact limits (\<lambda>j.
       let j1 = cleanup (foldl (\<lambda>j m. exhausted p (m_id m) now j) j (abandoned_rows p now j))
       in if max_concurrency p \<le> length (live_deliveries j1 now (pq_name p)) then Inr (ClaimCapacity, j1)
          else let rows = due_rows p now j1
               in case rows of
                    [] \<Rightarrow> Inr (ClaimEmpty, j1)
                  | first # _ \<Rightarrow>
                      if length rows < max_batch_size p \<and> now - m_available first < int (max_batch_timeout p) * 1000
                      then Inr (ClaimWaiting, j1)
                      else claim_rows limits p uuid now rows j1)"

section \<open>Settling a batch\<close>

record PgQueueRunResult =
  acknowledged :: nat
  retried :: nat
  deadLettered :: nat
  parked :: nat

definition emptyResult :: PgQueueRunResult where
  "emptyResult = \<lparr>acknowledged = 0, retried = 0, deadLettered = 0, parked = 0\<rparr>"

definition settle_row :: "Policy \<Rightarrow> string \<Rightarrow> int \<Rightarrow> PgQueueRunResult \<times> jobs \<Rightarrow> message_row \<times> QueueDecision \<Rightarrow> PgQueueRunResult \<times> jobs" where
  "settle_row p i now acc rd =
     (let (result, j) = acc; (row, decision) = rd;
          own = (\<lambda>m. m_id m = m_id row \<and> m_delivery m = Some i)
      in case decision of
           AckDecision \<Rightarrow> (result\<lparr>acknowledged := Suc (acknowledged result)\<rparr>, delete_messages own j)
         | RetryDecision delaySeconds \<Rightarrow>
             if max_retries p < m_attempts row then
               (if dead_letter_queue p \<noteq> None then result\<lparr>deadLettered := Suc (deadLettered result)\<rparr>
                else result\<lparr>parked := Suc (parked result)\<rparr>, exhausted p (m_id row) now j)
             else
               (result\<lparr>retried := Suc (retried result)\<rparr>,
                update_messages own (\<lambda>m. m\<lparr>m_delivery := None, m_available :=
                  now + (case delaySeconds of Some d \<Rightarrow> d | None \<Rightarrow> int (retry_delay p)) * 1000\<rparr>) j))"

definition settle_members :: "Policy \<Rightarrow> string \<Rightarrow> message_row list \<Rightarrow> QueueDecision list \<Rightarrow> int \<Rightarrow> PgQueueRunResult statement" where
  "settle_members p i rows ds now j =
     (let (result, j1) = foldl (settle_row p i now) (emptyResult, j) (zip rows ds)
      in Inr (result, j1\<lparr>deliveries := filter (\<lambda>d. l_id d \<noteq> i) (deliveries j1)\<rparr>))"

definition membership_differs :: "string \<Rightarrow> message_row list \<Rightarrow> jobs \<Rightarrow> bool" where
  "membership_differs i rows j =
     (let members = filter (\<lambda>m. m_delivery m = Some i) (msgs j)
      in length members \<noteq> length rows \<or> list_ex (\<lambda>m. \<not> list_ex (\<lambda>r. m_id r = m_id m) rows) members)"

definition settle_lease ::
    "PgQueueLimits \<Rightarrow> Policy \<Rightarrow> string \<Rightarrow> message_row list \<Rightarrow> QueueDecision list \<Rightarrow> int \<Rightarrow> jobs \<Rightarrow>
     (queue_error + PgQueueRunResult) \<times> jobs" where
  "settle_lease limits p i rows ds now =
     transact limits (\<lambda>j.
       case List.find (\<lambda>d. l_id d = i) (deliveries j) of
         None \<Rightarrow> Inl LeaseNotOwned
       | Some owned \<Rightarrow>
           if l_queue owned \<noteq> pq_name p \<or> l_expires owned \<le> now then Inl LeaseNotOwned
           else if membership_differs i rows j then Inl MembershipDiffers
           else settle_members p i rows ds now j)"

text \<open>The decisions a handler's calls on the delivered batch come to.\<close>

definition payload_row :: "(string \<Rightarrow> json option) \<Rightarrow> message_row \<Rightarrow> queue_body option QueuePayload" where
  "payload_row json_parse m =
     \<lparr>qp_id = m_id m, createdAtMs = of_int (m_created m), attempts = m_attempts m, body = decode_body json_parse m\<rparr>"

definition batch_decisions :: "(string \<Rightarrow> json option) \<Rightarrow> message_row list \<Rightarrow> bool \<Rightarrow> delivery_call list \<Rightarrow> QueueDecision list" where
  "batch_decisions json_parse rows failed calls =
     fst (finish (map (payload_row json_parse) rows) failed (foldl (\<lambda>d c. deliver c d) new_delivery calls))"

end
