(* ===== verification/Pg_Lease.thy ===== *)
theory Pg_Lease
  imports Pg_Queue
begin

text \<open>
  What the transactions of the durable queue keep: the tables stay sound, the payloads of the
  messages never change, and a lease that has not expired is left alone by every transaction but the
  settlement of its own run.
\<close>

section \<open>Sound tables\<close>

definition payload :: "message_row \<Rightarrow> string \<times> string \<times> ContentType \<times> int \<times> string" where
  "payload m = (m_id m, m_body m, m_content_type m, m_created m, m_original_queue m)"

definition link_ok :: "delivery_row list \<Rightarrow> message_row \<Rightarrow> bool" where
  "link_ok ds m \<longleftrightarrow>
     (m_parked_at m \<noteq> None \<longrightarrow> m_delivery m = None) \<and>
     (\<forall>i. m_delivery m = Some i \<longrightarrow> (\<exists>d \<in> set ds. l_id d = i \<and> l_queue d = m_queue m))"

definition counted :: "jobs \<Rightarrow> bool" where
  "counted j \<longleftrightarrow>
     (case capacity j of
        None \<Rightarrow> msgs j = []
      | Some c \<Rightarrow> message_count c = length (msgs j) \<and> body_bytes c = bytes_of (msgs j) \<and>
                  length (msgs j) \<le> max_messages c \<and> bytes_of (msgs j) \<le> max_bytes c)"

definition jobs_ok :: "jobs \<Rightarrow> bool" where
  "jobs_ok j \<longleftrightarrow>
     distinct (map m_id (msgs j)) \<and> distinct (map l_id (deliveries j)) \<and>
     (\<forall>m \<in> set (msgs j). link_ok (deliveries j) m) \<and> counted j"

lemma jobs_okI:
  assumes "distinct (map m_id (msgs j))" "distinct (map l_id (deliveries j))"
    "\<And>m. m \<in> set (msgs j) \<Longrightarrow> link_ok (deliveries j) m" "counted j"
  shows "jobs_ok j"
  using assms unfolding jobs_ok_def by blast

lemma jobs_okD:
  assumes "jobs_ok j"
  shows "distinct (map m_id (msgs j))" "distinct (map l_id (deliveries j))"
    "m \<in> set (msgs j) \<Longrightarrow> link_ok (deliveries j) m" "counted j"
  using assms unfolding jobs_ok_def by blast+

text \<open>The view one lease has of the tables: its row and its members.\<close>

definition lease_view :: "string \<Rightarrow> jobs \<Rightarrow> message_row list \<times> delivery_row list" where
  "lease_view i j = (filter (\<lambda>m. m_delivery m = Some i) (msgs j), filter (\<lambda>d. l_id d = i) (deliveries j))"

lemma delivery_of_Some:
  assumes "jobs_ok j"
  shows "delivery_of j m = Some d \<longleftrightarrow> m_delivery m = Some (l_id d) \<and> d \<in> set (deliveries j)"
proof -
  have d: "distinct (map l_id (deliveries j))" using assms by (rule jobs_okD)
  have "List.find (\<lambda>d. l_id d = i) ds = Some x \<longleftrightarrow> l_id x = i \<and> x \<in> set ds" if "distinct (map l_id ds)" for ds i x
    using that by (induction ds) auto
  from this [OF d] show ?thesis by (auto simp: delivery_of_def split: option.split)
qed

lemma find_delivery: "jobs_ok j \<Longrightarrow> List.find (\<lambda>d. l_id d = i) (deliveries j) = Some d \<longleftrightarrow> l_id d = i \<and> d \<in> set (deliveries j)"
  using delivery_of_Some [of j "undefined\<lparr>m_delivery := Some i\<rparr>" d] by (auto simp: delivery_of_def)

subsection \<open>The statements keep the tables sound\<close>

lemma update_msgs: "msgs (update_messages P f j) = map (\<lambda>m. if P m then f m else m) (msgs j)"
  and update_deliveries [simp]: "deliveries (update_messages P f j) = deliveries j"
  and update_capacity [simp]: "capacity (update_messages P f j) = capacity j"
  by (simp_all add: update_messages_def)

lemma update_ok:
  assumes "jobs_ok j" and "\<And>m. m \<in> set (msgs j) \<Longrightarrow> P m \<Longrightarrow> payload (f m) = payload m \<and> link_ok (deliveries j) (f m)"
  shows "jobs_ok (update_messages P f j)" and "map payload (msgs (update_messages P f j)) = map payload (msgs j)"
proof -
  have p: "map payload (msgs (update_messages P f j)) = map payload (msgs j)"
    using assms(2) by (simp add: update_msgs)
  then show "map payload (msgs (update_messages P f j)) = map payload (msgs j)" .
  have ids: "map m_id (msgs (update_messages P f j)) = map m_id (msgs j)"
    using arg_cong [OF p, of "map fst"] by (simp add: payload_def comp_def)
  have "map (\<lambda>m. length (m_body m)) (msgs (update_messages P f j)) = map (\<lambda>m. length (m_body m)) (msgs j)"
    using arg_cong [OF p, of "map (\<lambda>x. length (fst (snd x)))"] by (simp add: payload_def comp_def)
  then have b: "bytes_of (msgs (update_messages P f j)) = bytes_of (msgs j)" unfolding bytes_of_def by (rule arg_cong)
  have l: "length (msgs (update_messages P f j)) = length (msgs j)" by (simp add: update_msgs)
  show "jobs_ok (update_messages P f j)"
  proof (rule jobs_okI)
    show "distinct (map m_id (msgs (update_messages P f j)))" unfolding ids using assms(1) by (rule jobs_okD)
    show "distinct (map l_id (deliveries (update_messages P f j)))" using jobs_okD(2) [OF assms(1)] by simp
    show "link_ok (deliveries (update_messages P f j)) m" if "m \<in> set (msgs (update_messages P f j))" for m
      using that jobs_okD(3) [OF assms(1)] assms(2) by (auto simp: update_msgs split: if_splits)
    show "counted (update_messages P f j)" using jobs_okD(4) [OF assms(1)] l b unfolding counted_def
      by (cases "capacity j") (auto simp: update_msgs)
  qed
qed

lemma update_view:
  assumes "\<And>m. m \<in> set (msgs j) \<Longrightarrow> P m \<Longrightarrow> m_delivery m \<noteq> Some i \<and> m_delivery (f m) \<noteq> Some i"
  shows "lease_view i (update_messages P f j) = lease_view i j"
proof -
  have "filter (\<lambda>m. m_delivery m = Some i) (map (\<lambda>m. if P m then f m else m) ms) = filter (\<lambda>m. m_delivery m = Some i) ms"
    if "\<And>m. m \<in> set ms \<Longrightarrow> P m \<Longrightarrow> m_delivery m \<noteq> Some i \<and> m_delivery (f m) \<noteq> Some i" for ms
    using that by (induction ms) auto
  then show ?thesis using assms by (simp add: lease_view_def update_msgs)
qed

lemma bytes_split: "bytes_of (filter P ms) + bytes_of (filter (\<lambda>m. \<not> P m) ms) = bytes_of ms"
  by (induction ms) (auto simp: bytes_of_def)

lemma delete_ok:
  assumes "jobs_ok j"
  shows "jobs_ok (delete_messages P j)"
proof (rule jobs_okI)
  show "distinct (map m_id (msgs (delete_messages P j)))"
    using jobs_okD(1) [OF assms] by (simp add: delete_messages_def distinct_map_filter)
  show "distinct (map l_id (deliveries (delete_messages P j)))" using jobs_okD(2) [OF assms] by (simp add: delete_messages_def)
  show "link_ok (deliveries (delete_messages P j)) m" if "m \<in> set (msgs (delete_messages P j))" for m
    using that jobs_okD(3) [OF assms] by (simp add: delete_messages_def)
  have "length (filter P (msgs j)) + length (filter (\<lambda>m. \<not> P m) (msgs j)) = length (msgs j)" by (rule sum_length_filter_compl)
  then show "counted (delete_messages P j)"
    using jobs_okD(4) [OF assms] bytes_split [of P "msgs j"] unfolding counted_def
    by (cases "capacity j") (simp_all add: delete_messages_def, linarith)
qed

lemma delete_view:
  "(\<And>m. m \<in> set (msgs j) \<Longrightarrow> P m \<Longrightarrow> m_delivery m \<noteq> Some i) \<Longrightarrow> lease_view i (delete_messages P j) = lease_view i j"
  by (auto simp: lease_view_def delete_messages_def intro!: filter_cong)

lemma insert_ok:
  assumes "jobs_ok j" and "insert_message m j = Inr j'" and "m_delivery m = None"
  shows "jobs_ok j' \<and> msgs j' = msgs j @ [m] \<and> deliveries j' = deliveries j"
proof -
  obtain c where c: "capacity j = Some c" "m_id m \<notin> m_id ` set (msgs j)" "Suc (message_count c) \<le> max_messages c"
    "body_bytes c + length (m_body m) \<le> max_bytes c"
    and j': "j' = j\<lparr>msgs := msgs j @ [m], capacity := Some (c\<lparr>message_count := Suc (message_count c), body_bytes := body_bytes c + length (m_body m)\<rparr>)\<rparr>"
    using assms(2) by (auto simp: insert_message_def not_less split: option.splits if_splits)
  have "jobs_ok j'"
  proof (rule jobs_okI)
    show "distinct (map m_id (msgs j'))" using jobs_okD(1) [OF assms(1)] c(2) by (simp add: j')
    show "distinct (map l_id (deliveries j'))" using jobs_okD(2) [OF assms(1)] by (simp add: j')
    show "link_ok (deliveries j') x" if "x \<in> set (msgs j')" for x
      using that jobs_okD(3) [OF assms(1)] assms(3) by (auto simp: j' link_ok_def)
    show "counted j'" using jobs_okD(4) [OF assms(1)] c by (simp add: counted_def j' bytes_of_def)
  qed
  then show ?thesis by (simp add: j')
qed

lemma insert_rows_ok:
  "jobs_ok j \<Longrightarrow> insert_rows ms j = Inr j' \<Longrightarrow> \<forall>m \<in> set ms. m_delivery m = None \<Longrightarrow>
   jobs_ok j' \<and> msgs j' = msgs j @ ms \<and> deliveries j' = deliveries j"
proof (induction ms arbitrary: j)
  case (Cons m ms)
  then obtain j1 where j1: "insert_message m j = Inr j1" "insert_rows ms j1 = Inr j'" by (auto split: sum.splits)
  have "jobs_ok j1 \<and> msgs j1 = msgs j @ [m] \<and> deliveries j1 = deliveries j" using insert_ok [OF Cons.prems(1) j1(1)] Cons.prems(3) by simp
  with Cons.IH [of j1] j1(2) Cons.prems(3) show ?case by simp
qed simp

lemma cleanup_ok: "jobs_ok j \<Longrightarrow> jobs_ok (cleanup j)"
proof (rule jobs_okI)
  assume j: "jobs_ok j"
  show "distinct (map m_id (msgs (cleanup j)))" using jobs_okD(1) [OF j] by (simp add: cleanup_def)
  show "distinct (map l_id (deliveries (cleanup j)))" using jobs_okD(2) [OF j] by (simp add: cleanup_def distinct_map_filter)
  show "link_ok (deliveries (cleanup j)) m" if "m \<in> set (msgs (cleanup j))" for m
  proof -
    have m: "m \<in> set (msgs j)" using that by (simp add: cleanup_def)
    then have "\<exists>m' \<in> set (msgs j). m_delivery m' = Some i" if "m_delivery m = Some i" for i using that by blast
    then show ?thesis using jobs_okD(3) [OF j m] unfolding link_ok_def cleanup_def by (simp add: list_ex_iff) blast
  qed
  show "counted (cleanup j)" using jobs_okD(4) [OF j] unfolding counted_def by (cases "capacity j") (simp_all add: cleanup_def)
qed

lemma cleanup_view:
  assumes "fst (lease_view i j) \<noteq> []"
  shows "lease_view i (cleanup j) = lease_view i j"
proof -
  obtain m where "m \<in> set (msgs j)" "m_delivery m = Some i"
    using assms by (auto simp: lease_view_def filter_empty_conv)
  then have "list_ex (\<lambda>m. m_delivery m = Some i) (msgs j)" by (auto simp: list_ex_iff)
  then show ?thesis by (auto simp: lease_view_def cleanup_def intro!: filter_cong)
qed

subsection \<open>A claim\<close>

lemma exhaust_link: "link_ok ds (exhaust p now m)" and exhaust_payload: "payload (exhaust p now m) = payload m"
  and exhaust_free: "m_delivery (exhaust p now m) = None"
  by (simp_all add: exhaust_def link_ok_def payload_def split: option.split)

lemma exhausted_ok:
  assumes "jobs_ok j"
  shows "jobs_ok (exhausted p i now j)" and "map payload (msgs (exhausted p i now j)) = map payload (msgs j)"
    and "deliveries (exhausted p i now j) = deliveries j"
  unfolding exhausted_def using update_ok [OF assms, of _ "exhaust p now"] by (simp_all add: exhaust_link exhaust_payload)

lemma exhausted_view:
  "(\<And>m. m \<in> set (msgs j) \<Longrightarrow> m_id m = i \<Longrightarrow> m_delivery m \<noteq> Some k) \<Longrightarrow> lease_view k (exhausted p i now j) = lease_view k j"
  unfolding exhausted_def by (rule update_view) (simp add: exhaust_free)

lemma abandon_fold:
  "jobs_ok j \<Longrightarrow>
   jobs_ok (foldl (\<lambda>j m. exhausted p (m_id m) now j) j rows) \<and>
   map payload (msgs (foldl (\<lambda>j m. exhausted p (m_id m) now j) j rows)) = map payload (msgs j) \<and>
   deliveries (foldl (\<lambda>j m. exhausted p (m_id m) now j) j rows) = deliveries j \<and>
   ((\<forall>m \<in> set (msgs j). m_id m \<in> m_id ` set rows \<longrightarrow> m_delivery m \<noteq> Some k) \<longrightarrow>
      lease_view k (foldl (\<lambda>j m. exhausted p (m_id m) now j) j rows) = lease_view k j)"
proof (induction rows arbitrary: j)
  case (Cons r rows)
  let ?j = "exhausted p (m_id r) now j"
  note IH = Cons.IH [OF exhausted_ok(1) [OF Cons.prems, of p "m_id r" now]]
  have "\<forall>m \<in> set (msgs ?j). m_id m \<in> m_id ` set rows \<longrightarrow> m_delivery m \<noteq> Some k"
    if "\<forall>m \<in> set (msgs j). m_id m \<in> m_id ` set (r # rows) \<longrightarrow> m_delivery m \<noteq> Some k"
    using that by (auto simp: exhausted_def update_msgs exhaust_free)
  moreover have "lease_view k ?j = lease_view k j"
    if "\<forall>m \<in> set (msgs j). m_id m \<in> m_id ` set (r # rows) \<longrightarrow> m_delivery m \<noteq> Some k"
    using that by (intro exhausted_view) auto
  ultimately have "(\<forall>m \<in> set (msgs j). m_id m \<in> m_id ` set (r # rows) \<longrightarrow> m_delivery m \<noteq> Some k) \<longrightarrow>
      lease_view k (foldl (\<lambda>j m. exhausted p (m_id m) now j) ?j rows) = lease_view k j"
    using IH by metis
  with IH show ?case unfolding foldl.simps exhausted_ok(2,3) [OF Cons.prems, of p "m_id r" now] by blast
qed simp

definition lease_alive :: "int \<Rightarrow> string \<Rightarrow> jobs \<Rightarrow> bool" where
  "lease_alive now i j \<longleftrightarrow> fst (lease_view i j) \<noteq> [] \<and> snd (lease_view i j) \<noteq> [] \<and> (\<forall>d \<in> set (snd (lease_view i j)). now < l_expires d)"

lemma alive_not_unleased:
  assumes "jobs_ok j" and "lease_alive now i j" and "m_delivery m = Some i"
  shows "\<exists>d. delivery_of j m = Some d \<and> now < l_expires d"
proof -
  obtain d where d: "d \<in> set (deliveries j)" "l_id d = i" "now < l_expires d"
    using assms(2) by (auto simp: lease_alive_def lease_view_def filter_empty_conv)
  then have "delivery_of j m = Some d" using delivery_of_Some [OF assms(1), of m d] assms(3) by simp
  with d show ?thesis by blast
qed

lemma row_unique:
  assumes "jobs_ok j" "m \<in> set (msgs j)" "r \<in> set (msgs j)" "m_id m = m_id r"
  shows "m = r"
  using jobs_okD(1) [OF assms(1)] assms(2-4) by (auto simp: distinct_map dest: inj_onD)

lemma taken_in: "m \<in> set (take n (sort_key f (filter P xs))) \<Longrightarrow> m \<in> set xs \<and> P m"
  by (drule in_set_takeD) simp

lemma abandoned_in: "m \<in> set (abandoned_rows p now j) \<Longrightarrow> m \<in> set (msgs j) \<and> (\<exists>d. delivery_of j m = Some d \<and> l_expires d \<le> now)"
  unfolding abandoned_rows_def by (drule taken_in) (simp split: option.splits)

lemma due_in: "m \<in> set (due_rows p now j) \<Longrightarrow> m \<in> set (msgs j) \<and> due j now (pq_name p) m"
  unfolding due_rows_def by (rule taken_in)

lemma due_distinct: "jobs_ok j \<Longrightarrow> distinct (map m_id (due_rows p now j))"
proof -
  assume "jobs_ok j"
  then have "distinct (map m_id (filter (due j now (pq_name p)) (msgs j)))" by (intro distinct_map_filter jobs_okD)
  then have "distinct (map m_id (sort_key (\<lambda>m. (m_available m, m_created m, m_id m)) (filter (due j now (pq_name p)) (msgs j))))"
    unfolding distinct_map by simp
  then show ?thesis unfolding due_rows_def take_map [symmetric] by (rule distinct_take)
qed

text \<open>What a claim does to the tables before it takes rows: the abandoned are exhausted and the empty leases go.\<close>

definition claim_base :: "Policy \<Rightarrow> int \<Rightarrow> jobs \<Rightarrow> jobs" where
  "claim_base p now j = cleanup (foldl (\<lambda>j m. exhausted p (m_id m) now j) j (abandoned_rows p now j))"

lemma claim_base_ok:
  assumes j: "jobs_ok j"
  shows "jobs_ok (claim_base p now j)" and "map payload (msgs (claim_base p now j)) = map payload (msgs j)"
    and "set (deliveries (claim_base p now j)) \<subseteq> set (deliveries j)"
    and "length (live_deliveries (claim_base p now j) now q) \<le> length (live_deliveries j now q)"
    and "lease_alive now k j \<Longrightarrow> lease_view k (claim_base p now j) = lease_view k j"
proof -
  let ?j = "foldl (\<lambda>j m. exhausted p (m_id m) now j) j (abandoned_rows p now j)"
  note a = abandon_fold [OF j, where rows = "abandoned_rows p now j" and p = p and now = now]
  show "jobs_ok (claim_base p now j)" unfolding claim_base_def using a by (intro cleanup_ok) blast
  show "map payload (msgs (claim_base p now j)) = map payload (msgs j)" unfolding claim_base_def cleanup_def using a by simp
  show "set (deliveries (claim_base p now j)) \<subseteq> set (deliveries j)" unfolding claim_base_def cleanup_def using a by auto
  have "length (filter P (filter Q ds)) \<le> length (filter P ds)" for P Q and ds :: "delivery_row list"
    unfolding filter_filter by (induction ds) auto
  then show "length (live_deliveries (claim_base p now j) now q) \<le> length (live_deliveries j now q)"
    unfolding claim_base_def cleanup_def live_deliveries_def using a by simp
  show "lease_view k (claim_base p now j) = lease_view k j" if k: "lease_alive now k j"
  proof -
    have "\<forall>m \<in> set (msgs j). m_id m \<in> m_id ` set (abandoned_rows p now j) \<longrightarrow> m_delivery m \<noteq> Some k"
    proof (intro ballI impI notI)
      fix m assume m: "m \<in> set (msgs j)" "m_id m \<in> m_id ` set (abandoned_rows p now j)" "m_delivery m = Some k"
      then obtain r where r: "r \<in> set (abandoned_rows p now j)" "m_id m = m_id r" by blast
      then have "m = r" using abandoned_in m(1) row_unique [OF j] by blast
      with abandoned_in [OF r(1)] alive_not_unleased [OF j k m(3)] show False by auto
    qed
    with a have v: "lease_view k ?j = lease_view k j" by blast
    with k have "fst (lease_view k ?j) \<noteq> []" unfolding lease_alive_def by simp
    from cleanup_view [OF this] v show ?thesis unfolding claim_base_def by simp
  qed
qed

text \<open>A transaction either commits its operation or leaves the tables as they were.\<close>

lemma transact_cases:
  assumes "transact limits operation j = (res, j')"
  shows "(\<exists>e. res = Inl e) \<and> j' = j \<or> (\<exists>r. res = Inr r \<and> operation j = Inr (r, j'))"
  using assms unfolding transact_def by (auto split: if_splits sum.splits prod.splits)

lemma payload_parts:
  assumes "map payload ms = map payload ms'"
  shows "map m_id ms = map m_id ms'" "bytes_of ms = bytes_of ms'" "length ms = length ms'"
proof -
  show "map m_id ms = map m_id ms'" using arg_cong [OF assms, of "map fst"] by (simp add: payload_def comp_def)
  have "map (\<lambda>m. length (m_body m)) ms = map (\<lambda>m. length (m_body m)) ms'"
    using arg_cong [OF assms, of "map (\<lambda>x. length (fst (snd x)))"] by (simp add: payload_def comp_def)
  then show "bytes_of ms = bytes_of ms'" unfolding bytes_of_def by (rule arg_cong)
  show "length ms = length ms'" using assms by (rule map_eq_imp_length_eq)
qed

lemma insert_delivery_ok:
  assumes "jobs_ok j" and "insert_delivery_row d j = Inr j'"
  shows "jobs_ok j'" "msgs j' = msgs j" "deliveries j' = deliveries j @ [d]" "l_id d \<notin> l_id ` set (deliveries j)"
proof -
  show n: "l_id d \<notin> l_id ` set (deliveries j)" and d: "deliveries j' = deliveries j @ [d]" and m: "msgs j' = msgs j"
    using assms(2) by (auto simp: insert_delivery_row_def split: if_splits)
  have c: "capacity j' = capacity j" using assms(2) by (auto simp: insert_delivery_row_def split: if_splits)
  show "jobs_ok j'"
  proof (rule jobs_okI)
    show "distinct (map m_id (msgs j'))" unfolding m by (rule jobs_okD(1) [OF assms(1)])
    show "distinct (map l_id (deliveries j'))" using jobs_okD(2) [OF assms(1)] n by (simp add: d)
    show "link_ok (deliveries j') x" if "x \<in> set (msgs j')" for x
      using that jobs_okD(3) [OF assms(1)] unfolding link_ok_def d m by fastforce
    show "counted j'" using jobs_okD(4) [OF assms(1)] unfolding counted_def m c .
  qed
qed

text \<open>Taking the rows of a claim: they become exactly the members of the new lease.\<close>

definition taken :: "string \<Rightarrow> message_row \<Rightarrow> message_row" where
  "taken uuid m = m\<lparr>m_delivery := Some uuid, m_attempts := Suc (m_attempts m)\<rparr>"

lemma taken_bumped: "taken uuid m = (m\<lparr>m_attempts := Suc (m_attempts m)\<rparr>)\<lparr>m_delivery := Some uuid\<rparr>"
  by (simp add: taken_def)

lemma claim_rows_ok:
  assumes j: "jobs_ok j" and rows: "set rows \<subseteq> set (msgs j)" "\<forall>m \<in> set rows. due j now (pq_name p) m"
    and c: "claim_rows limits p uuid now rows j = Inr (res, j')"
  shows "jobs_ok j'" and "map payload (msgs j') = map payload (msgs j)"
    and "deliveries j' = deliveries j @ [\<lparr>l_id = uuid, l_queue = pq_name p, l_expires = now + int (lim_lease limits)\<rparr>]"
    and "lease_alive now k j \<Longrightarrow> lease_view k j' = lease_view k j"
    and "fst (lease_view uuid j') = map (taken uuid) (filter (\<lambda>m. m \<in> set rows) (msgs j))"
    and "snd (lease_view uuid j') = [\<lparr>l_id = uuid, l_queue = pq_name p, l_expires = now + int (lim_lease limits)\<rparr>]"
    and "\<exists>me. res = Claimed me uuid (map (\<lambda>m. m\<lparr>m_attempts := Suc (m_attempts m)\<rparr>) rows)"
proof -
  let ?d = "\<lparr>l_id = uuid, l_queue = pq_name p, l_expires = now + int (lim_lease limits)\<rparr>"
  obtain j1 where j1: "insert_delivery_row ?d j = Inr j1" and j': "j' = update_messages (\<lambda>m. m_id m \<in> set (map m_id rows)) (taken uuid) j1"
    and res: "\<exists>me. res = Claimed me uuid (map (\<lambda>m. m\<lparr>m_attempts := Suc (m_attempts m)\<rparr>) rows)"
    using c by (auto simp: claim_rows_def taken_def [abs_def] Let_def split: sum.splits)
  note d = insert_delivery_ok [OF j j1]
  have own: "m \<in> set rows" if a: "m \<in> set (msgs j)" and b: "m_id m \<in> set (map m_id rows)" for m
  proof -
    obtain r where "r \<in> set rows" "m_id m = m_id r" using b by auto
    with row_unique [OF j a, of r] rows(1) show ?thesis by auto
  qed
  have upd: "payload (taken uuid m) = payload m \<and> link_ok (deliveries j1) (taken uuid m)"
    if "m \<in> set (msgs j1)" "m_id m \<in> set (map m_id rows)" for m
  proof -
    have "due j now (pq_name p) m" using that own rows(2) unfolding d(2) by blast
    then have "m_parked_at m = None" "m_queue m = pq_name p" by (simp_all add: due_def)
    then show ?thesis by (simp add: d(3) taken_def payload_def link_ok_def)
  qed
  show "jobs_ok j'" "map payload (msgs j') = map payload (msgs j)"
    unfolding j' using update_ok [OF d(1) upd] by (simp_all add: d(2))
  show "deliveries j' = deliveries j @ [?d]" by (simp add: j' d(3))
  show "lease_view k j' = lease_view k j" if k: "lease_alive now k j"
  proof -
    have "uuid \<noteq> k" using k d(4) by (auto simp: lease_alive_def lease_view_def filter_empty_conv)
    moreover from this have "lease_view k j1 = lease_view k j" by (simp add: lease_view_def d(2,3))
    moreover have "m_delivery m \<noteq> Some k" if "m \<in> set (msgs j1)" "m_id m \<in> set (map m_id rows)" for m
    proof
      assume "m_delivery m = Some k"
      from alive_not_unleased [OF j k this] have "\<not> unleased j now m" by (auto simp: unleased_def)
      moreover have "due j now (pq_name p) m" using that own rows(2) unfolding d(2) by blast
      ultimately show False by (simp add: due_def)
    qed
    ultimately show ?thesis unfolding j' by (subst update_view) (auto simp: taken_def)
  qed
  have none: "m_delivery m \<noteq> Some uuid" if "m \<in> set (msgs j)" for m
    using jobs_okD(3) [OF j that] d(4) by (auto simp: link_ok_def)
  have "filter (\<lambda>m. m_delivery m = Some uuid) (map (\<lambda>m. if m_id m \<in> set (map m_id rows) then taken uuid m else m) ms) =
      map (taken uuid) (filter (\<lambda>m. m \<in> set rows) ms)" if "set ms \<subseteq> set (msgs j)" for ms
    using that
  proof (induction ms)
    case (Cons m ms)
    then have "m_delivery m \<noteq> Some uuid" "m_id m \<in> set (map m_id rows) \<longleftrightarrow> m \<in> set rows" using none own by auto
    with Cons show ?case by (simp add: taken_def)
  qed simp
  then show "fst (lease_view uuid j') = map (taken uuid) (filter (\<lambda>m. m \<in> set rows) (msgs j))"
    by (simp add: lease_view_def j' update_msgs d(2))
  have "filter (\<lambda>x. l_id x = uuid) (deliveries j) = []" using d(4) by (auto simp: filter_empty_conv)
  then show "snd (lease_view uuid j') = [?d]" by (simp add: lease_view_def j' d(3))
  show "\<exists>me. res = Claimed me uuid (map (\<lambda>m. m\<lparr>m_attempts := Suc (m_attempts m)\<rparr>) rows)" by (rule res)
qed

lemma claim_cases:
  assumes "claim limits p uuid now j = (res, j')"
  shows "(\<exists>e. res = Inl e) \<and> j' = j \<or>
    res \<in> {Inr ClaimCapacity, Inr ClaimEmpty, Inr ClaimWaiting} \<and> j' = claim_base p now j \<or>
    (\<exists>r. res = Inr r \<and> due_rows p now (claim_base p now j) \<noteq> [] \<and>
       claim_rows limits p uuid now (due_rows p now (claim_base p now j)) (claim_base p now j) = Inr (r, j') \<and>
       length (live_deliveries (claim_base p now j) now (pq_name p)) < max_concurrency p)"
  using transact_cases [OF assms [unfolded claim_def claim_base_def [symmetric] Let_def]]
  by (auto split: if_splits list.splits)

lemma claim_kept:
  assumes j: "jobs_ok j" and c: "claim limits p uuid now j = (res, j')"
  shows "jobs_ok j'" and "map payload (msgs j') = map payload (msgs j)"
    and "lease_alive now k j \<Longrightarrow> lease_view k j' = lease_view k j"
    and "length (live_deliveries j' now q) \<le> length (live_deliveries j now q) \<or>
         q = pq_name p \<and> length (live_deliveries j' now q) \<le> max_concurrency p"
proof -
  let ?b = "claim_base p now j"
  note b = claim_base_ok [OF j, where p = p and now = now]
  have rows: "set (due_rows p now ?b) \<subseteq> set (msgs ?b)" "\<forall>m \<in> set (due_rows p now ?b). due ?b now (pq_name p) m"
    using due_in by blast+
  consider "j' = j" | "j' = ?b" | r where "claim_rows limits p uuid now (due_rows p now ?b) ?b = Inr (r, j')"
      "length (live_deliveries ?b now (pq_name p)) < max_concurrency p"
    using claim_cases [OF c] by blast
  then have "jobs_ok j' \<and> map payload (msgs j') = map payload (msgs j) \<and>
      (lease_alive now k j \<longrightarrow> lease_view k j' = lease_view k j) \<and>
      (length (live_deliveries j' now q) \<le> length (live_deliveries j now q) \<or>
       q = pq_name p \<and> length (live_deliveries j' now q) \<le> max_concurrency p)"
  proof cases
    case 3
    note r = claim_rows_ok [OF b(1) rows 3(1)]
    have a: "lease_view k j' = lease_view k j" if "lease_alive now k j"
      using r(4) [of k] b(5) [OF that] that unfolding lease_alive_def by metis
    have l: "length (live_deliveries j' now q) \<le> length (live_deliveries j now q) \<or>
       q = pq_name p \<and> length (live_deliveries j' now q) \<le> max_concurrency p"
      using b(4) [of q] 3(2) by (auto simp: live_deliveries_def r(3))
    show ?thesis using r(1,2) b(2) a l by simp
  qed (use j b in auto)
  then show "jobs_ok j'" and "map payload (msgs j') = map payload (msgs j)"
    and "lease_alive now k j \<Longrightarrow> lease_view k j' = lease_view k j"
    and "length (live_deliveries j' now q) \<le> length (live_deliveries j now q) \<or>
         q = pq_name p \<and> length (live_deliveries j' now q) \<le> max_concurrency p"
    by blast+
qed

text \<open>What a run holds in memory, and that the tables agree with it.\<close>

record held_run =
  h_id :: string
  h_policy :: Policy
  h_rows :: "message_row list"
  h_expires :: int

definition lease_held :: "held_run \<Rightarrow> jobs \<Rightarrow> bool" where
  "lease_held h j \<longleftrightarrow>
     snd (lease_view (h_id h) j) = [\<lparr>l_id = h_id h, l_queue = pq_name (h_policy h), l_expires = h_expires h\<rparr>] \<and>
     set (fst (lease_view (h_id h) j)) = (\<lambda>m. m\<lparr>m_delivery := Some (h_id h)\<rparr>) ` set (h_rows h) \<and>
     distinct (map m_id (h_rows h)) \<and> h_rows h \<noteq> []"

lemma held_alive: "lease_held h j \<Longrightarrow> now < h_expires h \<Longrightarrow> lease_alive now (h_id h) j"
  by (auto simp: lease_held_def lease_alive_def)

lemma held_view: "lease_view (h_id h) j' = lease_view (h_id h) j \<Longrightarrow> lease_held h j' = lease_held h j"
  by (simp add: lease_held_def)

lemma claim_holds:
  assumes j: "jobs_ok j" and c: "claim limits p uuid now j = (Inr (Claimed me i rows), j')"
  shows "i = uuid \<and> lease_held \<lparr>h_id = uuid, h_policy = p, h_rows = rows, h_expires = now + int (lim_lease limits)\<rparr> j' \<and>
    rows = map (\<lambda>m. m\<lparr>m_attempts := Suc (m_attempts m)\<rparr>) (due_rows p now (claim_base p now j))"
proof -
  let ?b = "claim_base p now j"
  have rows: "set (due_rows p now ?b) \<subseteq> set (msgs ?b)" "\<forall>m \<in> set (due_rows p now ?b). due ?b now (pq_name p) m"
    using due_in by blast+
  have r: "claim_rows limits p uuid now (due_rows p now ?b) ?b = Inr (Claimed me i rows, j')" and n: "due_rows p now ?b \<noteq> []"
    using claim_cases [OF c] by auto
  note b = claim_base_ok(1) [OF j, where p = p and now = now]
  note e = claim_rows_ok [OF b rows r]
  have rs: "i = uuid" "rows = map (\<lambda>m. m\<lparr>m_attempts := Suc (m_attempts m)\<rparr>) (due_rows p now ?b)" using e(7) by auto
  have "set (filter (\<lambda>m. m \<in> set (due_rows p now ?b)) (msgs ?b)) = set (due_rows p now ?b)" using rows(1) by auto
  then have "set (fst (lease_view uuid j')) = (\<lambda>m. m\<lparr>m_delivery := Some uuid\<rparr>) ` set rows"
    unfolding e(5) rs(2) taken_bumped [abs_def] by (simp add: image_image)
  moreover have "map m_id rows = map m_id (due_rows p now ?b)" by (simp add: rs(2))
  then have "distinct (map m_id rows)" using due_distinct [OF b, of p now] by (simp only:)
  moreover have "rows \<noteq> []" using n by (simp add: rs(2))
  ultimately have "lease_held \<lparr>h_id = uuid, h_policy = p, h_rows = rows, h_expires = now + int (lim_lease limits)\<rparr> j'"
    using e(6) unfolding lease_held_def by simp
  with rs show ?thesis by blast
qed

subsection \<open>A send\<close>

lemma enqueue_kept:
  assumes j: "jobs_ok j" and c: "enqueue limits ps queue input d randomUUID now j = (res, j')"
  shows "jobs_ok j'" and "lease_view k j' = lease_view k j" and "deliveries j' = deliveries j"
    and "case res of Inl _ \<Rightarrow> j' = j
      | Inr _ \<Rightarrow> \<exists>rows batchDelay. queueDelaySeconds d 0 = Inr batchDelay \<and> encode_batch batchDelay ([], 0) input = Inr rows \<and>
          msgs j' = msgs j @ map (\<lambda>(i, row). new_message queue now (randomUUID i) row) (enumerate 0 rows)"
proof -
  have "jobs_ok j' \<and> lease_view k j' = lease_view k j \<and> deliveries j' = deliveries j \<and> (case res of Inl _ \<Rightarrow> j' = j
      | Inr _ \<Rightarrow> \<exists>rows batchDelay. queueDelaySeconds d 0 = Inr batchDelay \<and> encode_batch batchDelay ([], 0) input = Inr rows \<and>
          msgs j' = msgs j @ map (\<lambda>(i, row). new_message queue now (randomUUID i) row) (enumerate 0 rows))"
  proof (cases res)
    case (Inl e)
    have "j' = j" using c Inl unfolding enqueue_def by (auto simp: transact_def split: option.splits sum.splits if_splits)
    with j Inl show ?thesis by simp
  next
    case (Inr me)
    obtain rows batchDelay j1 where r: "queueDelaySeconds d 0 = Inr batchDelay" "encode_batch batchDelay ([], 0) input = Inr rows"
      "insert_rows (map (\<lambda>(i, row). new_message queue now (randomUUID i) row) (enumerate 0 rows)) j = Inr j1" "j' = j1"
      using c Inr unfolding enqueue_def by (auto simp: transact_def split: option.splits sum.splits if_splits)
    let ?ms = "map (\<lambda>(i, row). new_message queue now (randomUUID i) row) (enumerate 0 rows)"
    have n: "\<forall>m \<in> set ?ms. m_delivery m = None" by (auto simp: new_message_def)
    have o: "jobs_ok j' \<and> msgs j' = msgs j @ ?ms \<and> deliveries j' = deliveries j"
      using insert_rows_ok [OF j r(3) n] r(4) by simp
    moreover from n have "filter (\<lambda>m. m_delivery m = Some k) ?ms = []" by (simp add: filter_empty_conv del: set_map)
    ultimately show ?thesis using r Inr by (simp add: lease_view_def)
  qed
  then show "jobs_ok j'" and "lease_view k j' = lease_view k j" and "deliveries j' = deliveries j"
    and "case res of Inl _ \<Rightarrow> j' = j
      | Inr _ \<Rightarrow> \<exists>rows batchDelay. queueDelaySeconds d 0 = Inr batchDelay \<and> encode_batch batchDelay ([], 0) input = Inr rows \<and>
          msgs j' = msgs j @ map (\<lambda>(i, row). new_message queue now (randomUUID i) row) (enumerate 0 rows)"
    by blast+
qed

end
