(* ===== verification/Pg_Settle.thy ===== *)
theory Pg_Settle
  imports Pg_Lease
begin

text \<open>
  The settlement of a lease: what it does to each of its members, what it counts, and that it
  touches nothing else.
\<close>

section \<open>One member\<close>

text \<open>What becomes of a member: gone, or exhausted, or released until its delay is over.\<close>

definition settled_as :: "Policy \<Rightarrow> int \<Rightarrow> message_row \<times> QueueDecision \<Rightarrow> message_row \<Rightarrow> message_row option" where
  "settled_as p now rd m =
     (case snd rd of
        AckDecision \<Rightarrow> None
      | RetryDecision d \<Rightarrow>
          Some (if max_retries p < m_attempts (fst rd) then exhaust p now m
                else m\<lparr>m_delivery := None, m_available := now + (case d of Some s \<Rightarrow> s | None \<Rightarrow> int (retry_delay p)) * 1000\<rparr>))"

lemma settled_free: "settled_as p now rd m = Some m' \<Longrightarrow> m_delivery m' = None \<and> payload m' = payload m"
proof -
  have "payload (m\<lparr>m_delivery := None, m_available := x\<rparr>) = payload m" for x by (simp add: payload_def)
  then show "settled_as p now rd m = Some m' \<Longrightarrow> m_delivery m' = None \<and> payload m' = payload m"
    by (auto simp: settled_as_def exhaust_free exhaust_payload split: QueueDecision.splits if_splits)
qed

definition find_row :: "(message_row \<times> QueueDecision) list \<Rightarrow> string \<Rightarrow> (message_row \<times> QueueDecision) option" where
  "find_row rds i = List.find (\<lambda>rd. m_id (fst rd) = i) rds"

text \<open>What a settlement makes of a message: its rows are settled, the others stay.\<close>

definition after_settling :: "Policy \<Rightarrow> int \<Rightarrow> (message_row \<times> QueueDecision) list \<Rightarrow> message_row \<Rightarrow> message_row option" where
  "after_settling p now rds m =
     (case find_row rds (m_id m) of None \<Rightarrow> Some m | Some rd \<Rightarrow> settled_as p now rd m)"

lemma map_filter_update: "List.map_filter (\<lambda>m. Some (if P m then f m else m)) ms = map (\<lambda>m. if P m then f m else m) ms"
  by (induction ms) (simp_all add: map_filter_Cons)

lemma map_filter_delete: "List.map_filter (\<lambda>m. if P m then None else Some m) ms = filter (\<lambda>m. \<not> P m) ms"
  by (induction ms) (simp_all add: map_filter_Cons)

lemma map_filter_then:
  "List.map_filter g (List.map_filter f ms) = List.map_filter (\<lambda>m. case f m of None \<Rightarrow> None | Some x \<Rightarrow> g x) ms"
  by (induction ms) (simp_all add: map_filter_Cons split: option.split)

lemma in_map_filter: "y \<in> set (List.map_filter f xs) \<longleftrightarrow> (\<exists>x \<in> set xs. f x = Some y)"
  by (induction xs) (auto simp: map_filter_Cons split: option.split)

lemma map_filter_same: "(\<And>m. m \<in> set ms \<Longrightarrow> f m = g m) \<Longrightarrow> List.map_filter f ms = List.map_filter g ms"
proof (induction ms)
  case (Cons m ms)
  then have "f m = g m" "List.map_filter f ms = List.map_filter g ms" by simp_all
  then show ?case by (simp add: map_filter_Cons split: option.split)
qed simp

definition row_kind :: "Policy \<Rightarrow> message_row \<times> QueueDecision \<Rightarrow> PgQueueRunResult \<Rightarrow> PgQueueRunResult" where
  "row_kind p rd result =
     (case snd rd of
        AckDecision \<Rightarrow> result\<lparr>acknowledged := Suc (acknowledged result)\<rparr>
      | RetryDecision _ \<Rightarrow>
          if max_retries p < m_attempts (fst rd) then
            (if dead_letter_queue p \<noteq> None then result\<lparr>deadLettered := Suc (deadLettered result)\<rparr>
             else result\<lparr>parked := Suc (parked result)\<rparr>)
          else result\<lparr>retried := Suc (retried result)\<rparr>)"

lemma settle_row_effect:
  assumes j: "jobs_ok j" and own: "\<And>m. m \<in> set (msgs j) \<Longrightarrow> m_id m = m_id (fst rd) \<Longrightarrow> m_delivery m = Some i"
    and s: "settle_row p i now (result, j) rd = (result', j')"
  shows "jobs_ok j'" and "deliveries j' = deliveries j" and "result' = row_kind p rd result"
    and "msgs j' = List.map_filter (\<lambda>m. if m_id m = m_id (fst rd) then settled_as p now rd m else Some m) (msgs j)"
    and "k \<noteq> i \<Longrightarrow> lease_view k j' = lease_view k j"
proof -
  obtain r d where rd: "rd = (r, d)" by (cases rd)
  have id: "m_id m = m_id r \<and> m_delivery m = Some i \<longleftrightarrow> m_id m = m_id r" if "m \<in> set (msgs j)" for m
    using own [OF that] by (auto simp: rd)
  let ?rel = "\<lambda>x m. m\<lparr>m_delivery := None, m_available := now + (case x of Some s \<Rightarrow> s | None \<Rightarrow> int (retry_delay p)) * 1000\<rparr>"
  have rel: "payload (?rel x m) = payload m \<and> link_ok (deliveries j) (?rel x m)" if "m \<in> set (msgs j)" for m x
    using jobs_okD(3) [OF j that] by (simp add: payload_def link_ok_def)
  consider "d = AckDecision" "j' = delete_messages (\<lambda>m. m_id m = m_id r \<and> m_delivery m = Some i) j"
    | x where "d = RetryDecision x" "max_retries p < m_attempts r" "j' = exhausted p (m_id r) now j"
    | x where "d = RetryDecision x" "\<not> max_retries p < m_attempts r"
        "j' = update_messages (\<lambda>m. m_id m = m_id r \<and> m_delivery m = Some i) (?rel x) j"
    using s unfolding rd settle_row_def Let_def by (cases d) (auto split: if_splits)
  then have "jobs_ok j' \<and> deliveries j' = deliveries j \<and>
     msgs j' = List.map_filter (\<lambda>m. if m_id m = m_id r then settled_as p now rd m else Some m) (msgs j) \<and>
     (k \<noteq> i \<longrightarrow> lease_view k j' = lease_view k j)"
  proof cases
    case 1
    have "msgs j' = List.map_filter (\<lambda>m. if m_id m = m_id r then settled_as p now rd m else Some m) (msgs j)"
    proof -
      have "msgs j' = List.map_filter (\<lambda>m. if m_id m = m_id r \<and> m_delivery m = Some i then None else Some m) (msgs j)"
        unfolding 1 map_filter_delete by (simp add: delete_messages_def)
      also have "\<dots> = List.map_filter (\<lambda>m. if m_id m = m_id r then settled_as p now rd m else Some m) (msgs j)"
        by (rule map_filter_same) (simp add: id settled_as_def rd 1)
      finally show ?thesis .
    qed
    moreover have "jobs_ok j'" unfolding 1 by (rule delete_ok [OF j])
    moreover have "lease_view k j' = lease_view k j" if "k \<noteq> i" unfolding 1 using that by (intro delete_view) auto
    moreover have "deliveries j' = deliveries j" unfolding 1 by (simp add: delete_messages_def)
    ultimately show ?thesis by blast
  next
    case 2
    have "msgs j' = List.map_filter (\<lambda>m. if m_id m = m_id r then settled_as p now rd m else Some m) (msgs j)"
      unfolding 2 exhausted_def update_msgs map_filter_update [symmetric]
      by (rule map_filter_same) (simp add: settled_as_def rd 2)
    moreover have "lease_view k j' = lease_view k j" if "k \<noteq> i"
      unfolding 2 using own that by (intro exhausted_view) (auto simp: rd)
    ultimately show ?thesis using exhausted_ok [OF j] unfolding 2 by simp
  next
    case 3
    have "msgs j' = List.map_filter (\<lambda>m. if m_id m = m_id r then settled_as p now rd m else Some m) (msgs j)"
      unfolding 3 update_msgs map_filter_update [symmetric]
      by (rule map_filter_same) (use 3 id in \<open>simp add: settled_as_def rd\<close>)
    moreover have "lease_view k j' = lease_view k j" if "k \<noteq> i"
      unfolding 3 using that by (intro update_view) auto
    moreover have "jobs_ok j'" unfolding 3 using rel by (intro update_ok(1) [OF j])
    ultimately show ?thesis unfolding 3 by simp
  qed
  then show "jobs_ok j'" "deliveries j' = deliveries j"
    "msgs j' = List.map_filter (\<lambda>m. if m_id m = m_id (fst rd) then settled_as p now rd m else Some m) (msgs j)"
    "k \<noteq> i \<Longrightarrow> lease_view k j' = lease_view k j"
    by (simp_all add: rd)
  show "result' = row_kind p rd result"
    using s unfolding rd settle_row_def row_kind_def Let_def by (auto split: QueueDecision.splits if_splits)
qed

section \<open>All members\<close>

lemma settle_rows_effect:
  "jobs_ok j \<Longrightarrow> distinct (map (\<lambda>rd. m_id (fst rd)) rds) \<Longrightarrow>
   (\<And>m. m \<in> set (msgs j) \<Longrightarrow> find_row rds (m_id m) \<noteq> None \<Longrightarrow> m_delivery m = Some i) \<Longrightarrow>
   foldl (settle_row p i now) (result, j) rds = (result', j') \<Longrightarrow>
   jobs_ok j' \<and> deliveries j' = deliveries j \<and> result' = foldl (\<lambda>r rd. row_kind p rd r) result rds \<and>
   msgs j' = List.map_filter (after_settling p now rds) (msgs j) \<and>
   (k \<noteq> i \<longrightarrow> lease_view k j' = lease_view k j)"
proof (induction rds arbitrary: j result)
  case Nil
  then show ?case by (simp add: after_settling_def find_row_def map_filter_update [where P = "\<lambda>_. False", simplified])
next
  case (Cons rd rds)
  obtain r1 j1 where s: "settle_row p i now (result, j) rd = (r1, j1)" by fastforce
  have own: "m_delivery m = Some i" if "m \<in> set (msgs j)" "m_id m = m_id (fst rd)" for m
    using Cons.prems(3) [OF that(1)] that(2) by (simp add: find_row_def)
  note e = settle_row_effect [OF Cons.prems(1) own s]
  have j1: "msgs j1 = List.map_filter (\<lambda>m. if m_id m = m_id (fst rd) then settled_as p now rd m else Some m) (msgs j)"
    by (rule e(4))
  have fresh: "find_row rds (m_id (fst rd)) = None"
  proof -
    have "m_id (fst rd) \<notin> (\<lambda>rd. m_id (fst rd)) ` set rds" using Cons.prems(2) by simp
    then show ?thesis unfolding find_row_def find_None_iff by (metis image_eqI)
  qed
  have own1: "m_delivery m = Some i" if m: "m \<in> set (msgs j1)" "find_row rds (m_id m) \<noteq> None" for m
  proof -
    obtain m0 where m0: "m0 \<in> set (msgs j)" "(if m_id m0 = m_id (fst rd) then settled_as p now rd m0 else Some m0) = Some m"
      using m(1) unfolding j1 in_map_filter by blast
    have "m_id m = m_id m0" using m0(2) settled_free [of p now rd m0 m] by (auto simp: payload_def split: if_splits)
    then have "m_id m0 \<noteq> m_id (fst rd)" using m(2) fresh by auto
    then have "m = m0" using m0(2) by simp
    with m0(1) m(2) show ?thesis using Cons.prems(3) by (auto simp: find_row_def)
  qed
  have f: "foldl (settle_row p i now) (r1, j1) rds = (result', j')" using Cons.prems(4) s by simp
  have d: "distinct (map (\<lambda>rd. m_id (fst rd)) rds)" using Cons.prems(2) by simp
  note IH = Cons.IH [OF e(1) d own1 f]
  have step: "(case if m_id m = m_id (fst rd) then settled_as p now rd m else Some m of None \<Rightarrow> None | Some x \<Rightarrow> after_settling p now rds x) =
      after_settling p now (rd # rds) m" for m
  proof (cases "m_id m = m_id (fst rd)")
    case True
    have "after_settling p now rds x = Some x" if "settled_as p now rd m = Some x" for x
      using settled_free [OF that] True fresh by (simp add: after_settling_def payload_def)
    with True show ?thesis by (auto simp: after_settling_def find_row_def split: option.split)
  qed (simp add: after_settling_def find_row_def)
  have "msgs j' = List.map_filter (after_settling p now (rd # rds)) (msgs j)"
    using IH unfolding j1 map_filter_then step by blast
  with IH e show ?case by simp
qed

section \<open>The settlement\<close>

text \<open>With as many members as rows, every member a row, each message of a row's id is a member.\<close>

lemma members_are_rows:
  assumes j: "jobs_ok j" and d: "distinct (map m_id rows)"
    and l: "length (filter (\<lambda>m. m_delivery m = Some i) (msgs j)) = length rows"
    and s: "\<forall>m \<in> set (msgs j). m_delivery m = Some i \<longrightarrow> m_id m \<in> m_id ` set rows"
    and m: "m \<in> set (msgs j)" "m_id m \<in> m_id ` set rows"
  shows "m_delivery m = Some i"
proof -
  let ?ms = "filter (\<lambda>m. m_delivery m = Some i) (msgs j)"
  have "distinct (map m_id ?ms)" using jobs_okD(1) [OF j] by (rule distinct_map_filter)
  then have "card (m_id ` set ?ms) = length ?ms" using distinct_card [of "map m_id ?ms"] by simp
  moreover have "card (m_id ` set rows) = length rows" using distinct_card [OF d] by simp
  moreover have "m_id ` set ?ms \<subseteq> m_id ` set rows" using s by auto
  ultimately have "m_id ` set ?ms = m_id ` set rows" using l by (intro card_subset_eq) auto
  then obtain m' where "m' \<in> set (msgs j)" "m_delivery m' = Some i" "m_id m = m_id m'" using m(2) by auto
  then show ?thesis using row_unique [OF j m(1)] by metis
qed

definition tally :: "Policy \<Rightarrow> (message_row \<times> QueueDecision) list \<Rightarrow> PgQueueRunResult" where
  "tally p rds = foldl (\<lambda>r rd. row_kind p rd r) emptyResult rds"

lemma tally_total: "acknowledged (tally p rds) + retried (tally p rds) + deadLettered (tally p rds) + parked (tally p rds) = length rds"
proof -
  have "acknowledged (foldl (\<lambda>r rd. row_kind p rd r) r0 rds) + retried (foldl (\<lambda>r rd. row_kind p rd r) r0 rds) +
     deadLettered (foldl (\<lambda>r rd. row_kind p rd r) r0 rds) + parked (foldl (\<lambda>r rd. row_kind p rd r) r0 rds) =
     acknowledged r0 + retried r0 + deadLettered r0 + parked r0 + length rds" for r0
    by (induction rds arbitrary: r0) (auto simp: row_kind_def split: QueueDecision.split)
  then show ?thesis by (simp add: tally_def emptyResult_def)
qed

lemma find_row_zip:
  assumes "length ds = length rows"
  shows "find_row (zip rows ds) x = None \<longleftrightarrow> x \<notin> m_id ` set rows"
proof -
  have "fst ` set (zip rows ds) = set rows" using map_fst_zip [OF assms [symmetric]] by (metis set_map)
  then have "x \<in> m_id ` set rows \<longleftrightarrow> (\<exists>rd \<in> set (zip rows ds). m_id (fst rd) = x)"
    by (metis (no_types, lifting) image_iff)
  then show ?thesis unfolding find_row_def find_None_iff by blast
qed

lemma settle_success:
  assumes j: "jobs_ok j" and d: "distinct (map m_id rows)" and n: "length ds = length rows"
    and s: "settle_lease limits p i rows ds now j = (Inr r, j')"
  shows "jobs_ok j'" and "r = tally p (zip rows ds)"
    and "msgs j' = List.map_filter (after_settling p now (zip rows ds)) (msgs j)"
    and "deliveries j' = filter (\<lambda>d. l_id d \<noteq> i) (deliveries j)"
    and "k \<noteq> i \<Longrightarrow> lease_view k j' = lease_view k j"
    and "\<exists>own \<in> set (deliveries j). l_id own = i \<and> l_queue own = pq_name p \<and> now < l_expires own"
proof -
  let ?rds = "zip rows ds"
  have "(case List.find (\<lambda>d. l_id d = i) (deliveries j) of None \<Rightarrow> Inl LeaseNotOwned
       | Some owned \<Rightarrow> if l_queue owned \<noteq> pq_name p \<or> l_expires owned \<le> now then Inl LeaseNotOwned
           else if membership_differs i rows j then Inl MembershipDiffers
           else settle_members p i rows ds now j) = Inr (r, j')"
    using transact_cases [OF s [unfolded settle_lease_def]] by blast
  then obtain own where o: "List.find (\<lambda>d. l_id d = i) (deliveries j) = Some own" "l_queue own = pq_name p" "now < l_expires own"
    and mem: "\<not> membership_differs i rows j" and op: "settle_members p i rows ds now j = Inr (r, j')"
    by (cases "List.find (\<lambda>d. l_id d = i) (deliveries j)") (simp_all split: if_split_asm)
  obtain j1 where f: "foldl (settle_row p i now) (emptyResult, j) ?rds = (r, j1)"
    and j': "j' = j1\<lparr>deliveries := filter (\<lambda>d. l_id d \<noteq> i) (deliveries j1)\<rparr>"
    using op by (auto simp: settle_members_def split: prod.splits)
  have members: "\<forall>m \<in> set (msgs j). m_delivery m = Some i \<longrightarrow> m_id m \<in> m_id ` set rows"
  proof (intro ballI impI)
    fix m assume "m \<in> set (msgs j)" "m_delivery m = Some i"
    then obtain r where "r \<in> set rows" "m_id r = m_id m"
      using mem unfolding membership_differs_def Let_def list_ex_iff set_filter by blast
    then show "m_id m \<in> m_id ` set rows" by (metis imageI)
  qed
  have count: "length (filter (\<lambda>m. m_delivery m = Some i) (msgs j)) = length rows"
    using mem unfolding membership_differs_def Let_def by blast
  have own: "m_delivery m = Some i" if "m \<in> set (msgs j)" "find_row ?rds (m_id m) \<noteq> None" for m
    using members_are_rows [OF j d count members that(1)] that(2) find_row_zip [OF n] by simp
  have ids: "distinct (map (\<lambda>rd. m_id (fst rd)) ?rds)"
  proof -
    have "map (\<lambda>rd. m_id (fst rd)) ?rds = map m_id (map fst ?rds)" by simp
    then show ?thesis unfolding map_fst_zip [OF n [symmetric]] using d by (simp only:)
  qed
  note e = settle_rows_effect [OF j ids own f]
  have e1: "msgs j1 = List.map_filter (after_settling p now ?rds) (msgs j)" using e by blast
  have free: "m_delivery m \<noteq> Some i" if m: "m \<in> set (msgs j1)" for m
  proof -
    obtain m0 where m0: "m0 \<in> set (msgs j)" "after_settling p now ?rds m0 = Some m"
      using m unfolding e1 in_map_filter by blast
    show ?thesis
    proof (cases "find_row ?rds (m_id m0)")
      case None
      with m0 members find_row_zip [OF n] show ?thesis by (auto simp: after_settling_def)
    next
      case (Some rd)
      with m0(2) settled_free [of p now rd m0 m] show ?thesis by (simp add: after_settling_def)
    qed
  qed
  have j1: "jobs_ok j1" "deliveries j1 = deliveries j" using e by blast+
  show "deliveries j' = filter (\<lambda>d. l_id d \<noteq> i) (deliveries j)" by (simp add: j' j1(2))
  show "r = tally p ?rds" using e unfolding tally_def by blast
  show "msgs j' = List.map_filter (after_settling p now ?rds) (msgs j)" using e by (simp add: j')
  show "lease_view k j' = lease_view k j" if "k \<noteq> i"
  proof -
    have "lease_view k j' = lease_view k j1" using that by (auto simp: lease_view_def j' intro!: filter_cong)
    with e that show ?thesis by metis
  qed
  show "\<exists>own \<in> set (deliveries j). l_id own = i \<and> l_queue own = pq_name p \<and> now < l_expires own"
    using o find_delivery [OF j] by blast
  show "jobs_ok j'"
  proof (rule jobs_okI)
    show "distinct (map m_id (msgs j'))" using jobs_okD(1) [OF j1(1)] by (simp add: j')
    show "distinct (map l_id (deliveries j'))" using jobs_okD(2) [OF j1(1)] by (simp add: j' distinct_map_filter)
    show "link_ok (deliveries j') m" if "m \<in> set (msgs j')" for m
    proof -
      have m: "m \<in> set (msgs j1)" using that by (simp add: j')
      show ?thesis using jobs_okD(3) [OF j1(1) m] free [OF m] unfolding link_ok_def j' by auto
    qed
    show "counted j'" using jobs_okD(4) [OF j1(1)] unfolding counted_def by (cases "capacity j1") (simp_all add: j')
  qed
qed

lemma settle_refused:
  "settle_lease limits p i rows ds now j = (Inl e, j') \<Longrightarrow> j' = j"
  unfolding settle_lease_def by (drule transact_cases) auto

text \<open>A run that settles in time always can.\<close>

lemma settle_in_time:
  assumes j: "jobs_ok j" and h: "lease_held h j" and n: "length ds = length (h_rows h)"
    and t: "capacity_matches limits j" "activated j" "now < h_expires h"
  shows "\<exists>r j'. settle_lease limits (h_policy h) (h_id h) (h_rows h) ds now j = (Inr r, j')"
proof -
  let ?i = "h_id h"
  have v: "filter (\<lambda>d. l_id d = ?i) (deliveries j) = [\<lparr>l_id = ?i, l_queue = pq_name (h_policy h), l_expires = h_expires h\<rparr>]"
    and ms: "set (filter (\<lambda>m. m_delivery m = Some ?i) (msgs j)) = (\<lambda>m. m\<lparr>m_delivery := Some ?i\<rparr>) ` set (h_rows h)"
    and d: "distinct (map m_id (h_rows h))"
    using h by (simp_all add: lease_held_def lease_view_def)
  have "\<lparr>l_id = ?i, l_queue = pq_name (h_policy h), l_expires = h_expires h\<rparr> \<in> set (filter (\<lambda>d. l_id d = ?i) (deliveries j))"
    unfolding v by simp
  then have f: "List.find (\<lambda>d. l_id d = ?i) (deliveries j) = Some \<lparr>l_id = ?i, l_queue = pq_name (h_policy h), l_expires = h_expires h\<rparr>"
    using find_delivery [OF j] by simp
  have "m_id ` set (filter (\<lambda>m. m_delivery m = Some ?i) (msgs j)) = m_id ` set (h_rows h)"
    unfolding ms by (simp add: image_image)
  moreover have "card (m_id ` set (filter (\<lambda>m. m_delivery m = Some ?i) (msgs j))) = length (filter (\<lambda>m. m_delivery m = Some ?i) (msgs j))"
    using distinct_card [OF distinct_map_filter [OF jobs_okD(1) [OF j]]] by simp
  moreover have "card (m_id ` set (h_rows h)) = length (h_rows h)" using distinct_card [OF d] by simp
  ultimately have l: "length (filter (\<lambda>m. m_delivery m = Some ?i) (msgs j)) = length (h_rows h)" by simp
  have s: "\<not> membership_differs ?i (h_rows h) j"
    unfolding membership_differs_def Let_def list_ex_iff ms using l by auto
  obtain r j' where m: "settle_members (h_policy h) ?i (h_rows h) ds now j = Inr (r, j')"
    by (simp add: settle_members_def split_beta)
  show ?thesis unfolding settle_lease_def transact_def using t f s m by simp
qed

end
