(* ===== verification/Pg_System.thy ===== *)
theory Pg_System
  imports Pg_Settle
begin

text \<open>
  The durable queue with its workers: any number of processes send, claim, settle and crash in any
  order while the database's clock runs on.  A claim that succeeds leaves its worker with a run in
  memory; a worker settles a run with the decisions its handler made, or never.
\<close>

section \<open>The steps\<close>

record pg_system =
  sys_jobs :: jobs
  sys_now :: int
  sys_runs :: "held_run list"

definition without_run :: "held_run \<Rightarrow> held_run list \<Rightarrow> held_run list" where
  "without_run h = filter (\<lambda>x. h_id x \<noteq> h_id h)"

text \<open>A random id is never drawn twice: a claim's is not the one of a run still in memory.\<close>

inductive pg_step ::
    "(string \<Rightarrow> json option) \<Rightarrow> PgQueueLimits \<Rightarrow> Policy list \<Rightarrow> pg_system \<Rightarrow> pg_system \<Rightarrow> bool"
  for json_parse limits ps where
  tick: "sys_now s \<le> t \<Longrightarrow> pg_step json_parse limits ps s (s\<lparr>sys_now := t\<rparr>)"
| send: "enqueue limits ps queue input delay uuids (sys_now s) (sys_jobs s) = (res, j) \<Longrightarrow>
    pg_step json_parse limits ps s (s\<lparr>sys_jobs := j\<rparr>)"
| claimed: "p \<in> set ps \<Longrightarrow> uuid \<notin> h_id ` set (sys_runs s) \<Longrightarrow>
    claim limits p uuid (sys_now s) (sys_jobs s) = (Inr (Claimed me i rows), j) \<Longrightarrow>
    pg_step json_parse limits ps s (s\<lparr>sys_jobs := j, sys_runs :=
      \<lparr>h_id = i, h_policy = p, h_rows = rows, h_expires = sys_now s + int (lim_lease limits)\<rparr> # sys_runs s\<rparr>)"
| idle: "p \<in> set ps \<Longrightarrow> claim limits p uuid (sys_now s) (sys_jobs s) = (res, j) \<Longrightarrow>
    (\<forall>me i rows. res \<noteq> Inr (Claimed me i rows)) \<Longrightarrow> pg_step json_parse limits ps s (s\<lparr>sys_jobs := j\<rparr>)"
| settle: "h \<in> set (sys_runs s) \<Longrightarrow>
    settle_lease limits (h_policy h) (h_id h) (h_rows h) (batch_decisions json_parse (h_rows h) failed calls) (sys_now s) (sys_jobs s) = (res, j) \<Longrightarrow>
    pg_step json_parse limits ps s (s\<lparr>sys_jobs := j, sys_runs := without_run h (sys_runs s)\<rparr>)"
| crash: "h \<in> set (sys_runs s) \<Longrightarrow> pg_step json_parse limits ps s (s\<lparr>sys_runs := without_run h (sys_runs s)\<rparr>)"

inductive_cases pg_stepE: "pg_step json_parse limits ps s s'"

abbreviation pg_steps where
  "pg_steps json_parse limits ps \<equiv> (pg_step json_parse limits ps)\<^sup>*\<^sup>*"

text \<open>A transport just started on sound tables, with no lease left and no run.\<close>

definition pg_start :: "PgQueueLimits \<Rightarrow> Policy list \<Rightarrow> pg_system \<Rightarrow> bool" where
  "pg_start limits ps s \<longleftrightarrow>
     (\<exists>j. jobs_ok j \<and> deliveries j = [] \<and> createPgQueueTransport limits j = (Inr ps, sys_jobs s)) \<and> sys_runs s = []"

section \<open>The invariant\<close>

definition sys_ok :: "PgQueueLimits \<Rightarrow> Policy list \<Rightarrow> pg_system \<Rightarrow> bool" where
  "sys_ok limits ps s \<longleftrightarrow>
     jobs_ok (sys_jobs s) \<and> capacity_matches limits (sys_jobs s) \<and> activated (sys_jobs s) \<and>
     distinct (map h_id (sys_runs s)) \<and> (\<forall>h \<in> set (sys_runs s). distinct (map m_id (h_rows h))) \<and>
     (\<forall>h \<in> set (sys_runs s). sys_now s < h_expires h \<longrightarrow> lease_held h (sys_jobs s)) \<and>
     (\<forall>h \<in> set (sys_runs s). \<forall>d \<in> set (deliveries (sys_jobs s)). l_id d = h_id h \<longrightarrow> l_expires d = h_expires h) \<and>
     (\<forall>p \<in> set ps. length (live_deliveries (sys_jobs s) (sys_now s) (pq_name p)) \<le> max_concurrency p)"

lemma sys_okI:
  assumes "jobs_ok (sys_jobs s)" "capacity_matches limits (sys_jobs s)" "activated (sys_jobs s)"
    "distinct (map h_id (sys_runs s))" "\<And>h. h \<in> set (sys_runs s) \<Longrightarrow> distinct (map m_id (h_rows h))"
    "\<And>h. h \<in> set (sys_runs s) \<Longrightarrow> sys_now s < h_expires h \<Longrightarrow> lease_held h (sys_jobs s)"
    "\<And>h d. h \<in> set (sys_runs s) \<Longrightarrow> d \<in> set (deliveries (sys_jobs s)) \<Longrightarrow> l_id d = h_id h \<Longrightarrow> l_expires d = h_expires h"
    "\<And>p. p \<in> set ps \<Longrightarrow> length (live_deliveries (sys_jobs s) (sys_now s) (pq_name p)) \<le> max_concurrency p"
  shows "sys_ok limits ps s"
  using assms unfolding sys_ok_def by blast

lemma sys_okD:
  assumes "sys_ok limits ps s"
  shows "jobs_ok (sys_jobs s)" "capacity_matches limits (sys_jobs s)" "activated (sys_jobs s)"
    "distinct (map h_id (sys_runs s))" "h \<in> set (sys_runs s) \<Longrightarrow> distinct (map m_id (h_rows h))"
    "h \<in> set (sys_runs s) \<Longrightarrow> sys_now s < h_expires h \<Longrightarrow> lease_held h (sys_jobs s)"
    "h \<in> set (sys_runs s) \<Longrightarrow> d \<in> set (deliveries (sys_jobs s)) \<Longrightarrow> l_id d = h_id h \<Longrightarrow> l_expires d = h_expires h"
    "p \<in> set ps \<Longrightarrow> length (live_deliveries (sys_jobs s) (sys_now s) (pq_name p)) \<le> max_concurrency p"
  using assms unfolding sys_ok_def by blast+

text \<open>The settings of the tables are changed by no transaction.\<close>

definition same_settings :: "jobs \<Rightarrow> jobs \<Rightarrow> bool" where
  "same_settings j j' \<longleftrightarrow> activated j' = activated j \<and> (\<forall>limits. capacity_matches limits j' = capacity_matches limits j)"

lemma same_settings_refl [simp]: "same_settings j j"
  by (simp add: same_settings_def)

lemma same_settings_trans: "same_settings j j1 \<Longrightarrow> same_settings j1 j2 \<Longrightarrow> same_settings j j2"
  by (simp add: same_settings_def)

lemma settings_statement:
  "same_settings j (update_messages P f j)" "same_settings j (delete_messages P j)" "same_settings j (cleanup j)"
  "same_settings j (exhausted p i now j)" "same_settings j (j\<lparr>deliveries := ds\<rparr>)"
  "insert_delivery_row d j = Inr j' \<Longrightarrow> same_settings j j'" "insert_message m j = Inr j' \<Longrightarrow> same_settings j j'"
  by (auto simp: same_settings_def update_messages_def delete_messages_def cleanup_def exhausted_def capacity_matches_def
      insert_delivery_row_def insert_message_def split: option.splits if_splits)

lemma settings_insert_rows: "insert_rows ms j = Inr j' \<Longrightarrow> same_settings j j'"
  by (induction ms arbitrary: j) (auto split: sum.splits intro: same_settings_trans settings_statement)

lemma settings_abandon: "same_settings j (foldl (\<lambda>j m. exhausted p (m_id m) now j) j rows)"
  by (induction rows arbitrary: j) (auto intro: same_settings_trans settings_statement)

lemma settings_claim_base: "same_settings j (claim_base p now j)"
  unfolding claim_base_def by (rule same_settings_trans [OF settings_abandon settings_statement(3)])

lemma settings_claim:
  assumes "claim limits p uuid now j = (res, j')"
  shows "same_settings j j'"
proof -
  have "same_settings j1 j'" if "claim_rows limits p uuid now rows j1 = Inr (r, j')" for rows r j1
    using that by (auto simp: claim_rows_def Let_def split: sum.splits intro: same_settings_trans settings_statement)
  with claim_cases [OF assms] settings_claim_base [of j p now] show ?thesis by (auto intro: same_settings_trans)
qed

lemma settings_settle_rows: "foldl (settle_row p i now) (r, j) rds = (r', j') \<Longrightarrow> same_settings j j'"
proof (induction rds arbitrary: r j)
  case (Cons rd rds)
  obtain r1 j1 where s: "settle_row p i now (r, j) rd = (r1, j1)" by fastforce
  then have "same_settings j j1"
    by (auto simp: settle_row_def Let_def settings_statement split: prod.splits QueueDecision.splits if_splits)
  with Cons s show ?case by (auto intro: same_settings_trans)
qed simp

lemma settings_settle:
  assumes "settle_lease limits p i rows ds now j = (res, j')"
  shows "same_settings j j'"
proof -
  have "same_settings j j'" if m: "settle_members p i rows ds now j = Inr (r, j')" for r
  proof -
    obtain j1 where "foldl (settle_row p i now) (emptyResult, j) (zip rows ds) = (r, j1)"
      "j' = j1\<lparr>deliveries := filter (\<lambda>d. l_id d \<noteq> i) (deliveries j1)\<rparr>"
      using m by (auto simp: settle_members_def split: prod.splits)
    then show ?thesis by (metis same_settings_trans settings_settle_rows settings_statement(5))
  qed
  with transact_cases [OF assms [unfolded settle_lease_def]] show ?thesis
    by (auto split: option.splits if_splits)
qed

lemma settings_enqueue: "enqueue limits ps queue input d uuids now j = (res, j') \<Longrightarrow> same_settings j j'"
  by (auto simp: enqueue_def transact_def split: option.splits sum.splits if_splits intro: settings_insert_rows)

section \<open>Every step keeps it\<close>

lemma live_mono:
  assumes "set (deliveries j') \<subseteq> set (deliveries j)" "distinct (map l_id (deliveries j'))" "now \<le> t"
  shows "length (live_deliveries j' t q) \<le> length (live_deliveries j now q)"
proof -
  have "distinct (live_deliveries j' t q)" using assms(2) by (simp add: live_deliveries_def distinct_map)
  then have "length (live_deliveries j' t q) = card (set (live_deliveries j' t q))" by (simp add: distinct_card)
  also have "\<dots> \<le> card (set (live_deliveries j now q))"
    using assms(1,3) by (intro card_mono) (auto simp: live_deliveries_def)
  also have "\<dots> \<le> length (live_deliveries j now q)" by (rule card_length)
  finally show ?thesis .
qed

lemma claim_deliveries:
  assumes "jobs_ok j" "claim limits p uuid now j = (res, j')" "d \<in> set (deliveries j')"
  shows "d \<in> set (deliveries j) \<or> l_id d = uuid \<and> (\<exists>me i rows. res = Inr (Claimed me i rows))"
proof -
  let ?b = "claim_base p now j"
  have rows: "set (due_rows p now ?b) \<subseteq> set (msgs ?b)" "\<forall>m \<in> set (due_rows p now ?b). due ?b now (pq_name p) m"
    using due_in by blast+
  note b = claim_base_ok [OF assms(1), where p = p and now = now]
  from claim_cases [OF assms(2)] show ?thesis
  proof (elim disjE exE conjE)
    fix r assume c: "claim_rows limits p uuid now (due_rows p now ?b) ?b = Inr (r, j')" and r: "res = Inr r"
    note e = claim_rows_ok(3,7) [OF b(1) rows c]
    from e(1) assms(3) b(3) have "d \<in> set (deliveries j) \<or> l_id d = uuid" by auto
    with e(2) r show ?thesis by blast
  qed (use b(3) assms(3) in auto)
qed

lemma held_stays:
  assumes "lease_held h j" "now < h_expires h" "\<And>k. lease_alive now k j \<Longrightarrow> lease_view k j' = lease_view k j"
  shows "lease_held h j'"
  using assms held_alive [OF assms(1,2)] held_view by blast

lemma claim_keeps_ok:
  assumes ok: "sys_ok limits ps s" and p: "p \<in> set ps" "policies_expected ps"
    and c: "claim limits p uuid (sys_now s) (sys_jobs s) = (res, j)"
    and new: "rs = sys_runs s \<and> (\<forall>me i rows. res \<noteq> Inr (Claimed me i rows)) \<or>
       uuid \<notin> h_id ` set (sys_runs s) \<and> (\<exists>me i rows. res = Inr (Claimed me i rows) \<and>
         rs = \<lparr>h_id = i, h_policy = p, h_rows = rows, h_expires = sys_now s + int (lim_lease limits)\<rparr> # sys_runs s)"
  shows "sys_ok limits ps (s\<lparr>sys_jobs := j, sys_runs := rs\<rparr>)"
proof -
  note k = claim_kept [OF sys_okD(1) [OF ok] c]
  have n: "h \<in> set (sys_runs s) \<or>
      lease_held h j \<and> h_id h = uuid \<and> h_expires h = sys_now s + int (lim_lease limits) \<and> (\<exists>me i rows. res = Inr (Claimed me i rows))"
    if "h \<in> set rs" for h
    using that new
  proof (elim disjE conjE exE)
    fix me i rows
    assume r: "res = Inr (Claimed me i rows)" and "h \<in> set rs"
      and "rs = \<lparr>h_id = i, h_policy = p, h_rows = rows, h_expires = sys_now s + int (lim_lease limits)\<rparr> # sys_runs s"
    moreover have "i = uuid \<and> lease_held \<lparr>h_id = uuid, h_policy = p, h_rows = rows, h_expires = sys_now s + int (lim_lease limits)\<rparr> j"
      using claim_holds [OF sys_okD(1) [OF ok] c [unfolded r]] by blast
    ultimately show ?thesis by auto
  qed simp
  have ids: "distinct (map h_id rs)" using new
  proof (elim disjE conjE exE)
    fix me i rows
    assume r: "res = Inr (Claimed me i rows)" and "uuid \<notin> h_id ` set (sys_runs s)"
      and "rs = \<lparr>h_id = i, h_policy = p, h_rows = rows, h_expires = sys_now s + int (lim_lease limits)\<rparr> # sys_runs s"
    moreover have "i = uuid" using claim_holds [OF sys_okD(1) [OF ok] c [unfolded r]] by blast
    ultimately show ?thesis using sys_okD(4) [OF ok] by simp
  qed (simp add: sys_okD(4) [OF ok])
  show ?thesis
  proof (rule sys_okI; simp)
    show "jobs_ok j" by (rule k)
    show "capacity_matches limits j" "activated j"
      using settings_claim [OF c] sys_okD(2,3) [OF ok] unfolding same_settings_def by simp_all
    show "distinct (map h_id rs)" by (rule ids)
    show "distinct (map m_id (h_rows h))" if "h \<in> set rs" for h
      using n [OF that] sys_okD(5) [OF ok] by (auto simp: lease_held_def)
    show "lease_held h j" if "h \<in> set rs" "sys_now s < h_expires h" for h
      using n [OF that(1)] held_stays [OF sys_okD(6) [OF ok] that(2) k(3)] that(2) by blast
    show "l_expires d = h_expires h" if "h \<in> set rs" "d \<in> set (deliveries j)" "l_id d = h_id h" for h d
      using n [OF that(1)]
    proof (elim disjE conjE)
      assume h: "h \<in> set (sys_runs s)"
      then have "l_id d \<noteq> uuid \<or> (\<forall>me i rows. res \<noteq> Inr (Claimed me i rows))" using new that(3) by auto
      then have "d \<in> set (deliveries (sys_jobs s))" using claim_deliveries [OF sys_okD(1) [OF ok] c that(2)] by blast
      then show ?thesis using sys_okD(7) [OF ok h] that(3) by blast
    next
      assume "lease_held h j" "h_id h = uuid"
      moreover have "d \<in> set (snd (lease_view (h_id h) j))" using that by (simp add: lease_view_def)
      ultimately show ?thesis by (simp add: lease_held_def)
    qed
    show "length (live_deliveries j (sys_now s) (pq_name q)) \<le> max_concurrency q" if q: "q \<in> set ps" for q
    proof -
      have "q = p" if "pq_name q = pq_name p"
        using p q that unfolding policies_expected_def list_all_iff by (metis option.inject)
      then show ?thesis using k(4) [of "pq_name q"] sys_okD(8) [OF ok q] by fastforce
    qed
  qed
qed

lemma batch_decisions_length [simp]: "length (batch_decisions json_parse rows failed calls) = length rows"
  by (simp add: batch_decisions_def finish_def)

lemma settle_keeps_ok:
  assumes ok: "sys_ok limits ps s" and h: "h \<in> set (sys_runs s)" and n: "length ds = length (h_rows h)"
    and c: "settle_lease limits (h_policy h) (h_id h) (h_rows h) ds (sys_now s) (sys_jobs s) = (res, j)"
  shows "sys_ok limits ps (s\<lparr>sys_jobs := j, sys_runs := without_run h (sys_runs s)\<rparr>)"
proof -
  have sub: "x \<in> set (sys_runs s)" "h_id x \<noteq> h_id h" if "x \<in> set (without_run h (sys_runs s))" for x
    using that by (auto simp: without_run_def)
  have k: "jobs_ok j \<and> (\<forall>k. k \<noteq> h_id h \<longrightarrow> lease_view k j = lease_view k (sys_jobs s)) \<and>
      set (deliveries j) \<subseteq> set (deliveries (sys_jobs s))"
  proof (cases res)
    case (Inl e)
    then show ?thesis using settle_refused c sys_okD(1) [OF ok] by blast
  next
    case (Inr r)
    note e = settle_success [OF sys_okD(1) [OF ok] sys_okD(5) [OF ok h] n c [unfolded Inr]]
    from e(4) have "set (deliveries j) \<subseteq> set (deliveries (sys_jobs s))" by auto
    with e(1,5) show ?thesis by blast
  qed
  then have j: "jobs_ok j" by blast
  show ?thesis
  proof (rule sys_okI; simp)
    show "jobs_ok j" by (rule j)
    show "capacity_matches limits j" "activated j"
      using settings_settle [OF c] sys_okD(2,3) [OF ok] unfolding same_settings_def by simp_all
    show "distinct (map h_id (without_run h (sys_runs s)))"
      unfolding without_run_def using sys_okD(4) [OF ok] by (rule distinct_map_filter)
    show "distinct (map m_id (h_rows x))" if "x \<in> set (without_run h (sys_runs s))" for x
      using sub(1) [OF that] by (rule sys_okD(5) [OF ok])
    show "lease_held x j" if "x \<in> set (without_run h (sys_runs s))" "sys_now s < h_expires x" for x
      using sys_okD(6) [OF ok sub(1) [OF that(1)] that(2)] held_view [of x j "sys_jobs s"] k sub(2) [OF that(1)] by blast
    show "l_expires d = h_expires x" if "x \<in> set (without_run h (sys_runs s))" "d \<in> set (deliveries j)" "l_id d = h_id x" for x d
      using sys_okD(7) [OF ok sub(1) [OF that(1)]] that(2,3) k by blast
    show "length (live_deliveries j (sys_now s) (pq_name q)) \<le> max_concurrency q" if "q \<in> set ps" for q
      using live_mono [OF _ jobs_okD(2) [OF j] order.refl, of "sys_jobs s" "sys_now s" "pq_name q"] k sys_okD(8) [OF ok that] by linarith
  qed
qed

lemma queue_step_ok:
  assumes "pg_step json_parse limits ps s s'" and ok: "sys_ok limits ps s" and ps: "policies_expected ps"
  shows "sys_ok limits ps s'"
  using assms(1)
proof cases
  case (tick t)
  have "length (live_deliveries (sys_jobs s) t q) \<le> length (live_deliveries (sys_jobs s) (sys_now s) q)" for q
    using tick(2) by (intro live_mono jobs_okD(2) [OF sys_okD(1) [OF ok]]) auto
  then show ?thesis using ok tick unfolding sys_ok_def by (fastforce intro: order.trans)
next
  case (send queue input delay uuids res j)
  note k = enqueue_kept [OF sys_okD(1) [OF ok] send(2)]
  have l: "live_deliveries j t q = live_deliveries (sys_jobs s) t q" for t q by (simp add: live_deliveries_def k(3))
  show ?thesis unfolding send(1)
  proof (rule sys_okI; simp)
    show "jobs_ok j" by (rule k)
    show "capacity_matches limits j" "activated j"
      using settings_enqueue [OF send(2)] sys_okD(2,3) [OF ok] unfolding same_settings_def by simp_all
    show "distinct (map h_id (sys_runs s))" by (rule sys_okD [OF ok])
    show "distinct (map m_id (h_rows h))" if "h \<in> set (sys_runs s)" for h using that by (rule sys_okD [OF ok])
    show "lease_held h j" if "h \<in> set (sys_runs s)" "sys_now s < h_expires h" for h
      using sys_okD(6) [OF ok that] held_view [OF k(2)] by blast
    show "l_expires d = h_expires h" if "h \<in> set (sys_runs s)" "d \<in> set (deliveries j)" "l_id d = h_id h" for h d
      using sys_okD(7) [OF ok that(1)] that(2,3) unfolding k(3) by blast
    show "length (live_deliveries j (sys_now s) (pq_name p)) \<le> max_concurrency p" if "p \<in> set ps" for p
      unfolding l using that by (rule sys_okD [OF ok])
  qed
next
  case (claimed p uuid me i rows j)
  then show ?thesis using claim_keeps_ok [OF ok claimed(2) ps claimed(4)] by blast
next
  case (idle p uuid res j)
  then show ?thesis using claim_keeps_ok [OF ok idle(2) ps idle(3), of "sys_runs s"] by simp
next
  case (settle h failed calls res j)
  then show ?thesis using settle_keeps_ok [OF ok settle(2) _ settle(3)] by simp
next
  case (crash h)
  then show ?thesis using ok unfolding sys_ok_def without_run_def by (simp add: distinct_map_filter)
qed

end
