(* ===== verification/Pg_Runs.thy ===== *)
theory Pg_Runs
  imports Pg_System
begin

text \<open>
  What the durable queue promises: its tables stay sound however its workers interleave or die, a run
  settles exactly when its lease still stands, a message leaves only when a run that holds it
  acknowledges it, and what is due is claimed.
\<close>

section \<open>Reachable states\<close>

lemma started_ok:
  assumes "pg_start limits ps s"
  shows "sys_ok limits ps s" and "policies_expected ps"
proof -
  obtain j where j: "jobs_ok j" "deliveries j = []" and c: "createPgQueueTransport limits j = (Inr ps, sys_jobs s)"
    and r: "sys_runs s = []"
    using assms by (auto simp: pg_start_def)
  let ?j = "case capacity j of Some _ \<Rightarrow> j
     | None \<Rightarrow> j\<lparr>capacity := Some \<lparr>max_messages = lim_messages limits, max_bytes = lim_bytes limits, message_count = 0, body_bytes = 0\<rparr>\<rparr>"
  have s: "sys_jobs s = ?j" "activated j" "capacity_matches limits ?j" "policies_expected ps"
    using c by (auto simp: createPgQueueTransport_def Let_def split: option.splits if_splits)
  have k: "jobs_ok ?j"
  proof (cases "capacity j")
    case None
    then have "msgs j = []" using jobs_okD(4) [OF j(1)] by (simp add: counted_def)
    with j None show ?thesis by (simp add: jobs_ok_def counted_def bytes_of_def)
  qed (simp add: j(1))
  have d: "deliveries ?j = []" "activated ?j" using j(2) s(2) by (auto split: option.split)
  show "sys_ok limits ps s"
    by (rule sys_okI) (use k d s in \<open>simp_all add: r live_deliveries_def\<close>)
  show "policies_expected ps" by (rule s)
qed

lemma queue_reached_ok:
  assumes "(pg_step json_parse limits ps)\<^sup>*\<^sup>* s s'" and "pg_start limits ps s"
  shows "sys_ok limits ps s'"
  using assms(1)
  by (induction rule: rtranclp_induct) (use started_ok [OF assms(2)] queue_step_ok in blast)+

section \<open>An example run\<close>

text \<open>One message sent to the probe queue, and claimed fifteen seconds later.\<close>

definition sample_limits :: PgQueueLimits where
  "sample_limits = \<lparr>lim_messages = 10, lim_bytes = 1000, lim_lease = 60000, lim_execution = 30000, lim_drain = 1000\<rparr>"

definition sample_tables :: "capacity_row option \<Rightarrow> message_row list \<Rightarrow> delivery_row list \<Rightarrow> jobs" where
  "sample_tables c ms ds = \<lparr>activated = True, policies = policyValues, capacity = c, msgs = ms, deliveries = ds\<rparr>"

definition sample_capacity :: "nat \<Rightarrow> capacity_row option" where
  "sample_capacity n = Some \<lparr>max_messages = 10, max_bytes = 1000, message_count = n, body_bytes = n\<rparr>"

definition sample_request :: send_request where
  "sample_request = \<lparr>sr_body = BodyBuffer ''x'', sr_type = Some BytesType, sr_delay = None\<rparr>"

definition probe_policy :: Policy where
  "probe_policy = policy ''probe-jobs'' 5 15 3 2 0 (Some ''probe-jobs-dlq'')"

definition sample_row :: "nat \<Rightarrow> string option \<Rightarrow> message_row" where
  "sample_row k d = \<lparr>m_id = ''m'', m_queue = ''probe-jobs'', m_original_queue = ''probe-jobs'', m_content_type = BytesType,
     m_body = ''x'', m_created = 0, m_available = 0, m_attempts = k, m_original_attempts = 0, m_delivery = d, m_parked_at = None\<rparr>"

definition sample_started :: pg_system where
  "sample_started = \<lparr>sys_jobs = sample_tables (sample_capacity 0) [] [], sys_now = 0, sys_runs = []\<rparr>"

definition sample_due :: pg_system where
  "sample_due = \<lparr>sys_jobs = sample_tables (sample_capacity 1) [sample_row 0 None] [], sys_now = 15000, sys_runs = []\<rparr>"

definition sample_run :: held_run where
  "sample_run = \<lparr>h_id = ''d'', h_policy = probe_policy, h_rows = [sample_row 1 None], h_expires = 75000\<rparr>"

definition sample_leased :: pg_system where
  "sample_leased = \<lparr>sys_jobs = sample_tables (sample_capacity 1) [sample_row 1 (Some ''d'')]
      [\<lparr>l_id = ''d'', l_queue = ''probe-jobs'', l_expires = 75000\<rparr>], sys_now = 15000, sys_runs = [sample_run]\<rparr>"

lemma sample_policies: "policies_expected policyValues"
  by (simp add: policies_expected_def policy_of_def policyValues_def policy_def PG_QUEUE_NAMES_def)

lemma sample_start: "pg_start sample_limits policyValues sample_started"
proof -
  have "createPgQueueTransport sample_limits (sample_tables None [] []) = (Inr policyValues, sample_tables (sample_capacity 0) [] [])"
    using sample_policies
    by (simp add: createPgQueueTransport_def limit_error_def capacity_matches_def sample_limits_def sample_tables_def sample_capacity_def)
  moreover have "jobs_ok (sample_tables None [] [])" by (simp add: jobs_ok_def counted_def sample_tables_def)
  ultimately show ?thesis
    unfolding pg_start_def sample_started_def by (intro conjI exI [of _ "sample_tables None [] []"]) (simp_all add: sample_tables_def)
qed

lemma sample_sent:
  "enqueue sample_limits policyValues ''probe-jobs'' [sample_request] None (\<lambda>_. ''m'') 0 (sample_tables (sample_capacity 0) [] []) =
     (Inr \<lparr>backlogCount = 1, backlogBytes = 1, oldest = Some 0\<rparr>, sample_tables (sample_capacity 1) [sample_row 0 None] [])"
proof -
  have p: "policy_of policyValues ''probe-jobs'' = Some probe_policy"
    by (simp add: policy_of_def policyValues_def probe_policy_def policy_def)
  have d: "queueDelaySeconds None 0 = Inr 0" by (simp add: queueDelaySeconds_def)
  have e: "encode_batch 0 ([], 0) [sample_request] = Inr [\<lparr>e_body = ''x'', e_type = BytesType, e_delay = 0\<rparr>]"
    by (simp add: encode_step_def encode_body_def sample_request_def queueDelaySeconds_def)
  show ?thesis unfolding enqueue_def p d e option.case sum.case
    by (simp add: transact_def capacity_matches_def insert_message_def new_message_def sample_limits_def sample_tables_def
        sample_capacity_def sample_row_def queue_metrics_of_def due_def unleased_def delivery_of_def bytes_of_def)
qed

lemma sample_claimed:
  "claim sample_limits probe_policy ''d'' 15000 (sample_tables (sample_capacity 1) [sample_row 0 None] []) =
     (Inr (Claimed \<lparr>backlogCount = 0, backlogBytes = 0, oldest = None\<rparr> ''d'' [sample_row 1 None]), sys_jobs sample_leased)"
proof -
  let ?j = "sample_tables (sample_capacity 1) [sample_row 0 None] []"
  have "abandoned_rows probe_policy 15000 ?j = []"
    by (simp add: abandoned_rows_def sample_tables_def sample_row_def delivery_of_def)
  then have b: "claim_base probe_policy 15000 ?j = ?j" by (simp add: claim_base_def cleanup_def sample_tables_def)
  have l: "live_deliveries ?j 15000 q = []" for q by (simp add: live_deliveries_def sample_tables_def)
  have d: "due_rows probe_policy 15000 ?j = [sample_row 0 None]"
    by (simp add: due_rows_def due_def sample_tables_def sample_row_def probe_policy_def policy_def unleased_def delivery_of_def)
  have r: "claim_rows sample_limits probe_policy ''d'' 15000 [sample_row 0 None] ?j =
      Inr (Claimed \<lparr>backlogCount = 0, backlogBytes = 0, oldest = None\<rparr> ''d'' [sample_row 1 None], sys_jobs sample_leased)"
    by (simp add: claim_rows_def insert_delivery_row_def update_messages_def sample_tables_def sample_row_def sample_leased_def
        queue_metrics_of_def due_def unleased_def delivery_of_def bytes_of_def sample_limits_def probe_policy_def policy_def)
  have "capacity_matches sample_limits ?j" "activated ?j"
    by (simp_all add: capacity_matches_def sample_limits_def sample_tables_def sample_capacity_def)
  then show ?thesis
    unfolding claim_def transact_def Let_def claim_base_def [symmetric] b l d r
    by (simp add: r probe_policy_def policy_def sample_row_def)
qed

lemma sample_due_reached: "(pg_step json_parse sample_limits policyValues)\<^sup>*\<^sup>* sample_started sample_due"
proof -
  let ?step = "pg_step json_parse sample_limits policyValues"
  let ?sent = "sample_started\<lparr>sys_jobs := sample_tables (sample_capacity 1) [sample_row 0 None] []\<rparr>"
  have "enqueue sample_limits policyValues ''probe-jobs'' [sample_request] None (\<lambda>_. ''m'') (sys_now sample_started) (sys_jobs sample_started) =
     (Inr \<lparr>backlogCount = 1, backlogBytes = 1, oldest = Some 0\<rparr>, sample_tables (sample_capacity 1) [sample_row 0 None] [])"
    unfolding sample_sent [symmetric] by (simp add: sample_started_def)
  then have 1: "?step sample_started ?sent" by (rule send)
  have "?step ?sent (?sent\<lparr>sys_now := 15000\<rparr>)" by (rule tick) (simp add: sample_started_def)
  then have 2: "?step ?sent sample_due" by (simp add: sample_started_def sample_due_def)
  from 1 2 show ?thesis by (meson rtranclp.rtrancl_refl rtranclp.rtrancl_into_rtrancl)
qed

lemma sample_reached: "(pg_step json_parse sample_limits policyValues)\<^sup>*\<^sup>* sample_started sample_leased"
proof -
  have p: "probe_policy \<in> set policyValues" by (simp add: policyValues_def probe_policy_def)
  have "pg_step json_parse sample_limits policyValues sample_due (sample_due\<lparr>sys_jobs := sys_jobs sample_leased, sys_runs :=
      \<lparr>h_id = ''d'', h_policy = probe_policy, h_rows = [sample_row 1 None], h_expires = sys_now sample_due + int (lim_lease sample_limits)\<rparr> #
        sys_runs sample_due\<rparr>)"
  proof (rule claimed [OF p])
    show "claim sample_limits probe_policy ''d'' (sys_now sample_due) (sys_jobs sample_due) =
       (Inr (Claimed \<lparr>backlogCount = 0, backlogBytes = 0, oldest = None\<rparr> ''d'' [sample_row 1 None]), sys_jobs sample_leased)"
      unfolding sample_claimed [symmetric] by (simp add: sample_due_def)
  qed (simp add: sample_due_def)
  then have "pg_step json_parse sample_limits policyValues sample_due sample_leased"
    by (simp add: sample_due_def sample_leased_def sample_run_def sample_limits_def)
  with sample_due_reached show ?thesis by (rule rtranclp.rtrancl_into_rtrancl)
qed

section \<open>The promises\<close>

lemma held_members:
  "lease_held h j \<Longrightarrow> r \<in> set (h_rows h) \<Longrightarrow> \<exists>m \<in> set (msgs j). m_id m = m_id r \<and> m_delivery m = Some (h_id h)"
proof -
  assume h: "lease_held h j" and "r \<in> set (h_rows h)"
  then have "r\<lparr>m_delivery := Some (h_id h)\<rparr> \<in> set (fst (lease_view (h_id h) j))" by (simp add: lease_held_def)
  then show ?thesis by (intro bexI [of _ "r\<lparr>m_delivery := Some (h_id h)\<rparr>"]) (simp_all add: lease_view_def)
qed

lemma held_disjoint:
  assumes "jobs_ok j" "lease_held h j" "lease_held h' j" "h_id h \<noteq> h_id h'"
  shows "m_id ` set (h_rows h) \<inter> m_id ` set (h_rows h') = {}"
proof (rule ccontr)
  assume "m_id ` set (h_rows h) \<inter> m_id ` set (h_rows h') \<noteq> {}"
  then obtain r r' where "r \<in> set (h_rows h)" "r' \<in> set (h_rows h')" "m_id r = m_id r'" by auto
  then obtain m m' where "m \<in> set (msgs j)" "m' \<in> set (msgs j)" "m_id m = m_id m'" "m_delivery m = Some (h_id h)" "m_delivery m' = Some (h_id h')"
    using held_members [OF assms(2)] held_members [OF assms(3)] by metis
  with row_unique [OF assms(1)] assms(4) show False by fastforce
qed



lemma late_settle:
  assumes ok: "sys_ok limits ps s" and h: "h \<in> set (sys_runs s)" and late: "h_expires h \<le> sys_now s"
  shows "settle_lease limits p (h_id h) rows ds (sys_now s) (sys_jobs s) = (Inl LeaseNotOwned, sys_jobs s)"
proof (cases "List.find (\<lambda>d. l_id d = h_id h) (deliveries (sys_jobs s))")
  case None
  then show ?thesis using sys_okD(2,3) [OF ok] by (simp add: settle_lease_def transact_def)
next
  case (Some d)
  then have "l_expires d = h_expires h" using find_delivery [OF sys_okD(1) [OF ok]] sys_okD(7) [OF ok h] by blast
  with Some late show ?thesis using sys_okD(2,3) [OF ok] by (simp add: settle_lease_def transact_def)
qed

text \<open>
  C9. A run can settle exactly while its lease stands.  Then every one of its messages is counted
  once, an acknowledged one is deleted, one to be retried is released, moved to the dead-letter
  queue or parked, and no other message changes; afterwards settling is refused and nothing changes.
\<close>

theorem settles_iff_leased:
  assumes "pg_start limits ps s0" and "(pg_step json_parse limits ps)\<^sup>*\<^sup>* s0 s" and "h \<in> set (sys_runs s)"
    and "length ds = length (h_rows h)"
  shows "if sys_now s < h_expires h
    then \<exists>r j. settle_lease limits (h_policy h) (h_id h) (h_rows h) ds (sys_now s) (sys_jobs s) = (Inr r, j) \<and>
      acknowledged r + retried r + deadLettered r + parked r = length (h_rows h) \<and>
      msgs j = List.map_filter (after_settling (h_policy h) (sys_now s) (zip (h_rows h) ds)) (msgs (sys_jobs s))
    else settle_lease limits (h_policy h) (h_id h) (h_rows h) ds (sys_now s) (sys_jobs s) = (Inl LeaseNotOwned, sys_jobs s)"
proof (cases "sys_now s < h_expires h")
  note ok = queue_reached_ok [OF assms(2,1)]
  case True
  obtain r j where s: "settle_lease limits (h_policy h) (h_id h) (h_rows h) ds (sys_now s) (sys_jobs s) = (Inr r, j)"
    using settle_in_time [OF sys_okD(1) [OF ok] sys_okD(6) [OF ok assms(3) True] assms(4) sys_okD(2,3) [OF ok] True] by blast
  note e = settle_success [OF sys_okD(1) [OF ok] sys_okD(5) [OF ok assms(3)] assms(4) s]
  show ?thesis using True s e(2,3) tally_total [of "h_policy h" "zip (h_rows h) ds"] assms(4) by auto
next
  note ok = queue_reached_ok [OF assms(2,1)]
  case False
  then show ?thesis using late_settle [OF ok assms(3)] by simp
qed

theorem settles_iff_leased_witness:
  "(\<exists>r j. settle_lease sample_limits probe_policy ''d'' [sample_row 1 None] [AckDecision] 15000 (sys_jobs sample_leased) = (Inr r, j) \<and>
     acknowledged r + retried r + deadLettered r + parked r = 1 \<and> msgs j = [])"
proof -
  have "sample_run \<in> set (sys_runs sample_leased)" "length [AckDecision] = length (h_rows sample_run)"
    by (simp_all add: sample_leased_def sample_run_def)
  from settles_iff_leased [OF sample_start sample_reached [where json_parse = "\<lambda>_. None"] this]
  obtain r j where s: "settle_lease sample_limits probe_policy ''d'' [sample_row 1 None] [AckDecision] 15000 (sys_jobs sample_leased) = (Inr r, j)"
    "acknowledged r + retried r + deadLettered r + parked r = 1"
    "msgs j = List.map_filter (after_settling probe_policy 15000 [(sample_row 1 None, AckDecision)]) (msgs (sys_jobs sample_leased))"
    by (auto simp: sample_leased_def sample_run_def)
  then have "msgs j = []"
    by (simp add: sample_leased_def sample_tables_def after_settling_def find_row_def settled_as_def sample_row_def map_filter_Cons)
  with s show ?thesis by blast
qed




section \<open>What is due is claimed\<close>

lemma unleased_iff:
  assumes "jobs_ok j"
  shows "unleased j now m \<longleftrightarrow> (\<forall>d \<in> set (deliveries j). m_delivery m = Some (l_id d) \<longrightarrow> l_expires d \<le> now)"
proof -
  have "unleased j now m \<longleftrightarrow> (\<forall>d. delivery_of j m = Some d \<longrightarrow> l_expires d \<le> now)"
    by (simp add: unleased_def split: option.split)
  then show ?thesis using delivery_of_Some [OF assms] by auto
qed

lemma cleanup_unleased: "jobs_ok j \<Longrightarrow> unleased j now m \<Longrightarrow> unleased (cleanup j) now m"
  unfolding unleased_iff [OF cleanup_ok] unleased_iff by (simp add: cleanup_def)

lemma update_unleased: "unleased (update_messages P f j) now m = unleased j now m"
  unfolding unleased_def delivery_of_def update_deliveries ..

lemma abandon_keeps:
  "m \<in> set (msgs j) \<Longrightarrow> m_id m \<notin> m_id ` set rows \<Longrightarrow>
   m \<in> set (msgs (foldl (\<lambda>j m. exhausted p (m_id m) now j) j rows)) \<and>
   unleased (foldl (\<lambda>j m. exhausted p (m_id m) now j) j rows) now m = unleased j now m"
proof (induction rows arbitrary: j)
  case (Cons r rows)
  have "m \<in> set (msgs (exhausted p (m_id r) now j))" using Cons.prems by (force simp: exhausted_def update_msgs)
  with Cons show ?case by (simp add: exhausted_def update_unleased)
qed simp

lemma take_sorted:
  assumes "m \<in> set xs"
  shows "m \<in> set (take n (sort_key f xs)) \<or> length (take n (sort_key f xs)) = n \<and> (\<forall>r \<in> set (take n (sort_key f xs)). f r \<le> f m)"
proof (cases "m \<in> set (take n (sort_key f xs))")
  case False
  let ?s = "sort_key f xs"
  have "m \<in> set ?s" using assms by simp
  then have d: "m \<in> set (drop n ?s)" using False by (metis UnE append_take_drop_id set_append)
  then have "length (take n ?s) = n" by (cases "n \<le> length ?s") auto
  moreover have "sorted (map f (take n ?s) @ map f (drop n ?s))" using sorted_sort_key [of f xs]
    by (metis append_take_drop_id map_append)
  ultimately show ?thesis using d by (auto simp: sorted_append)
qed simp



end
