(* ===== verification/Pg_Cron.thy ===== *)
theory Pg_Cron
  imports Native_Cron "HOL-Library.Product_Lexorder"
begin

text \<open>
  The durable cron of the native deployment (\<open>src/pg-cron.ts\<close>) over the tables of
  \<open>migrations/postgres/0030_cron.sql\<close>: registering an inventory, planning what has become due, the
  claim of a due instant under a lease, and its settlement.  Every transaction locks the one policy
  row first, so transactions are serial and each is a function on the tables that commits or changes
  nothing.  Times are milliseconds; the database's clock and the random tokens are arguments.
\<close>

section \<open>The tables\<close>

datatype run_state = Running | Succeeded | Declined | HandlerFailed | BackgroundFailed | Aborted | LeaseExhausted

record schedule_row =
  s_owner :: string
  s_cron :: string
  s_start :: int
  s_cursor :: int
  s_pending :: "int option"
  s_skipped :: int

record run_row =
  r_owner :: string
  r_cron :: string
  r_at :: int
  r_token :: string
  r_attempts :: nat
  r_started :: int
  r_lease :: int
  r_state :: run_state
  r_finished :: "int option"
  r_ok :: "bool option"
  r_skipped :: "bool option"

record skip_row =
  k_owner :: string
  k_cron :: string
  k_through :: int
  k_first :: int
  k_last :: int
  k_slots :: int

record cron_policy =
  cp_concurrent :: nat
  cp_lease :: nat
  cp_execution :: nat
  cp_attempts :: nat
  cp_history :: nat

record cron_tables =
  t_policy :: "cron_policy option"
  t_schedules :: "schedule_row list"
  t_runs :: "run_row list"
  t_skips :: "skip_row list"

type_synonym cron_key = "string \<times> string"

definition skey :: "schedule_row \<Rightarrow> cron_key" where "skey s = (s_owner s, s_cron s)"
definition rkey :: "run_row \<Rightarrow> cron_key" where "rkey r = (r_owner r, r_cron r)"
definition kkey :: "skip_row \<Rightarrow> cron_key" where "kkey k = (k_owner k, k_cron k)"

text \<open>
  The \<open>CHECK\<close> constraints of the rows.  The foreign keys need no check of their own: every receipt and
  run is written for a schedule the same transaction read, and no schedule is ever deleted.
\<close>

abbreviation safe_time :: "int \<Rightarrow> bool" where
  "safe_time x \<equiv> 0 \<le> x \<and> x \<le> MAX_SAFE"

definition check_schedule :: "schedule_row \<Rightarrow> bool" where
  "check_schedule s \<longleftrightarrow>
     s_owner s \<in> {''api'', ''data'', ''registry''} \<and> 9 \<le> length (s_cron s) \<and> length (s_cron s) \<le> 128 \<and>
     safe_time (s_start s) \<and> -1 \<le> s_cursor s \<and> s_cursor s \<le> MAX_SAFE \<and> s_start s - 1 \<le> s_cursor s \<and>
     (case s_pending s of None \<Rightarrow> True | Some p \<Rightarrow> safe_time p \<and> s_start s \<le> p \<and> p \<le> s_cursor s) \<and>
     safe_time (s_skipped s)"

definition check_skip :: "skip_row \<Rightarrow> bool" where
  "check_skip k \<longleftrightarrow>
     safe_time (k_through k) \<and> 0 \<le> k_first k \<and> k_first k \<le> k_through k \<and>
     k_first k \<le> k_last k \<and> k_last k \<le> k_through k \<and> 1 \<le> k_slots k \<and> k_slots k \<le> MAX_SAFE"

definition check_run :: "run_row \<Rightarrow> bool" where
  "check_run r \<longleftrightarrow>
     safe_time (r_at r) \<and> 1 \<le> r_attempts r \<and> r_attempts r \<le> 100 \<and>
     r_at r \<le> r_started r \<and> r_started r \<le> MAX_SAFE \<and> r_started r \<le> r_lease r \<and> r_lease r \<le> MAX_SAFE \<and>
     (case r_finished r of None \<Rightarrow> True | Some f \<Rightarrow> r_started r \<le> f \<and> f \<le> MAX_SAFE) \<and>
     (r_state r = Running \<longleftrightarrow> r_finished r = None)"

text \<open>\<open>UPDATE ... SET f WHERE P\<close>: fails where a written row breaks its checks.\<close>

definition update_where :: "('r \<Rightarrow> bool) \<Rightarrow> ('r \<Rightarrow> 'r) \<Rightarrow> 'r list \<Rightarrow> 'r list" where
  "update_where P f = map (\<lambda>r. if P r then f r else r)"

section \<open>Starting the scheduler\<close>

record NativeCronLimits =
  maxConcurrent :: nat
  leaseMilliseconds :: nat
  executionTimeoutMillis :: nat
  drainTimeoutMillis :: nat
  maxAttempts :: nat
  historyLimit :: nat

datatype cron_failure =
    InvalidCronLimit string | ExecutionBeyondLease | InventorySize | InventoryInvalid | CronUnsupported cron_error
  | CronPolicyDiffers | InventoryDiffers | StartInvalid | StartDiffers | WindowInvalid cron_error | CronConstraint

definition update_schedules ::
    "(schedule_row \<Rightarrow> bool) \<Rightarrow> (schedule_row \<Rightarrow> schedule_row) \<Rightarrow> cron_tables \<Rightarrow> cron_failure + cron_tables" where
  "update_schedules P f t =
     (if list_ex (\<lambda>s. P s \<and> \<not> check_schedule (f s)) (t_schedules t) then Inl CronConstraint
      else Inr (t\<lparr>t_schedules := update_where P f (t_schedules t)\<rparr>))"

definition update_runs ::
    "(run_row \<Rightarrow> bool) \<Rightarrow> (run_row \<Rightarrow> run_row) \<Rightarrow> cron_tables \<Rightarrow> cron_failure + cron_tables" where
  "update_runs P f t =
     (if list_ex (\<lambda>r. P r \<and> \<not> check_run (f r)) (t_runs t) then Inl CronConstraint
      else Inr (t\<lparr>t_runs := update_where P f (t_runs t)\<rparr>))"

text \<open>\<open>operation\<close>, then \<open>next_step\<close> on what it left, unless it failed.\<close>

definition cron_then :: "'e + 'a \<Rightarrow> ('a \<Rightarrow> 'e + 'b) \<Rightarrow> 'e + 'b" where
  "cron_then operation next_step = (case operation of Inl e \<Rightarrow> Inl e | Inr x \<Rightarrow> next_step x)"

definition cron_limit_error :: "NativeCronLimits \<Rightarrow> cron_failure option" where
  "cron_limit_error limits =
     (case List.find (\<lambda>(nm, v, mx). v < 1 \<or> mx < v)
        [(''maxConcurrent'', maxConcurrent limits, 100), (''leaseMilliseconds'', leaseMilliseconds limits, 3600000),
         (''executionTimeoutMillis'', executionTimeoutMillis limits, 3600000),
         (''drainTimeoutMillis'', drainTimeoutMillis limits, 3600000),
         (''maxAttempts'', maxAttempts limits, 100), (''historyLimit'', historyLimit limits, 10000)] of
        Some (nm, _) \<Rightarrow> Some (InvalidCronLimit nm)
      | None \<Rightarrow> if leaseMilliseconds limits \<le> executionTimeoutMillis limits then Some ExecutionBeyondLease else None)"

type_synonym inventory = "(cron_key \<times> nat list) list"

fun build_inventory :: "inventory \<Rightarrow> cron_key list \<Rightarrow> cron_failure + inventory" where
  "build_inventory entries [] = Inr entries"
| "build_inventory entries (d # ds) =
     (if fst d \<notin> {''api'', ''data'', ''registry''} \<or> map_of entries d \<noteq> None then Inl InventoryInvalid
      else case parseNativeCron (snd d) of
             Inl e \<Rightarrow> Inl (CronUnsupported e)
           | Inr offsets \<Rightarrow> build_inventory (entries @ [(d, offsets)]) ds)"

definition limits_policy :: "NativeCronLimits \<Rightarrow> cron_policy" where
  "limits_policy limits =
     \<lparr>cp_concurrent = maxConcurrent limits, cp_lease = leaseMilliseconds limits, cp_execution = executionTimeoutMillis limits,
      cp_attempts = maxAttempts limits, cp_history = historyLimit limits\<rparr>"

definition createPgCronScheduler ::
    "cron_key list \<Rightarrow> NativeCronLimits \<Rightarrow> cron_tables \<Rightarrow> (cron_failure + inventory) \<times> cron_tables" where
  "createPgCronScheduler definitions limits t =
     (case cron_limit_error limits of
        Some e \<Rightarrow> (Inl e, t)
      | None \<Rightarrow>
          if length definitions < 1 \<or> 100 < length definitions then (Inl InventorySize, t)
          else (case build_inventory [] definitions of
                  Inl e \<Rightarrow> (Inl e, t)
                | Inr entries \<Rightarrow>
                    (case t_policy t of
                       None \<Rightarrow> (Inr entries, t\<lparr>t_policy := Some (limits_policy limits)\<rparr>)
                     | Some p \<Rightarrow> if p \<noteq> limits_policy limits then (Inl CronPolicyDiffers, t) else (Inr entries, t))))"

definition cron_transact ::
    "NativeCronLimits \<Rightarrow> (cron_tables \<Rightarrow> cron_failure + 'a \<times> cron_tables) \<Rightarrow> cron_tables \<Rightarrow> (cron_failure + 'a) \<times> cron_tables" where
  "cron_transact limits operation t =
     (if t_policy t \<noteq> Some (limits_policy limits) then (Inl CronPolicyDiffers, t)
      else case operation t of
             Inl e \<Rightarrow> (Inl e, t)
           | Inr (r, t') \<Rightarrow> (Inr r, t'))"

definition cron_schedules :: "inventory \<Rightarrow> cron_tables \<Rightarrow> cron_failure + schedule_row list" where
  "cron_schedules entries t =
     (let rows = sort_key skey (t_schedules t)
      in if rows \<noteq> [] \<and> (length rows \<noteq> length entries \<or> list_ex (\<lambda>row. map_of entries (skey row) = None) rows)
         then Inl InventoryDiffers else Inr rows)"

section \<open>Registering and planning\<close>

text \<open>\<open>INSERT ... ON CONFLICT (owner, cron) DO NOTHING\<close>, once per definition.\<close>

fun insert_schedules :: "int \<Rightarrow> cron_key list \<Rightarrow> cron_tables \<Rightarrow> cron_failure + cron_tables" where
  "insert_schedules start [] t = Inr t"
| "insert_schedules start (d # ds) t =
     (let row = \<lparr>s_owner = fst d, s_cron = snd d, s_start = start, s_cursor = start - 1, s_pending = None, s_skipped = 0\<rparr>
      in if \<not> check_schedule row then Inl CronConstraint
         else insert_schedules start ds
           (if d \<in> skey ` set (t_schedules t) then t else t\<lparr>t_schedules := t_schedules t @ [row]\<rparr>))"

definition register :: "NativeCronLimits \<Rightarrow> inventory \<Rightarrow> jsnum \<Rightarrow> cron_tables \<Rightarrow> (cron_failure + unit) \<times> cron_tables" where
  "register limits entries startAtMs t =
     (if \<not> is_safe_integer startAtMs \<or> num_int startAtMs < 0 then (Inl StartInvalid, t)
      else cron_transact limits (\<lambda>t.
        cron_then (insert_schedules (num_int startAtMs) (map fst entries) t) (\<lambda>t1.
        cron_then (cron_schedules entries t1) (\<lambda>rows.
          if list_ex (\<lambda>row. s_start row \<noteq> num_int startAtMs) rows then Inl StartDiffers else Inr ((), t1)))) t)"

text \<open>All but the newest so many, by a time that is unique among them.\<close>

definition beyond_newest :: "nat \<Rightarrow> ('r \<Rightarrow> int) \<Rightarrow> 'r list \<Rightarrow> 'r list" where
  "beyond_newest n f xs = drop n (rev (sort_key f xs))"

definition run_id :: "run_row \<Rightarrow> cron_key \<times> int" where "run_id r = (rkey r, r_at r)"
definition skip_id :: "skip_row \<Rightarrow> cron_key \<times> int" where "skip_id x = (kkey x, k_through x)"

definition settled_runs :: "cron_key \<Rightarrow> run_row list \<Rightarrow> run_row list" where
  "settled_runs k = filter (\<lambda>r. rkey r = k \<and> r_state r \<noteq> Running)"

definition prune :: "NativeCronLimits \<Rightarrow> cron_key \<Rightarrow> cron_tables \<Rightarrow> cron_tables" where
  "prune limits k t =
     (let old_runs = map run_id (beyond_newest (historyLimit limits) r_at (settled_runs k (t_runs t)));
          old_skips = map skip_id (beyond_newest (historyLimit limits) k_through (filter (\<lambda>x. kkey x = k) (t_skips t)))
      in t\<lparr>t_runs := filter (\<lambda>r. run_id r \<notin> set old_runs) (t_runs t),
           t_skips := filter (\<lambda>x. skip_id x \<notin> set old_skips) (t_skips t)\<rparr>)"

record planned_slot =
  pl_owner :: string
  pl_cron :: string
  pl_at :: int
  pl_skipped :: int

definition insert_skip :: "skip_row \<Rightarrow> cron_tables \<Rightarrow> cron_failure + cron_tables" where
  "insert_skip x t =
     (if \<not> check_skip x \<or> skip_id x \<in> skip_id ` set (t_skips t) then Inl CronConstraint
      else Inr (t\<lparr>t_skips := t_skips t @ [x]\<rparr>))"

definition plan_row :: "NativeCronLimits \<Rightarrow> inventory \<Rightarrow> int \<Rightarrow> schedule_row \<Rightarrow> cron_tables \<Rightarrow> cron_failure + planned_slot list \<times> cron_tables" where
  "plan_row limits entries now row t =
     (let k = skey row; own = (\<lambda>s. skey s = k); cursor = s_cursor row
      in if now \<le> cursor then Inr ([], t)
         else case cron_window (the (map_of entries k)) (js_int cursor) (js_int now) of
           Inl e \<Rightarrow> Inl (WindowInvalid e)
         | Inr due \<Rightarrow>
             if cw_count due = 0
             then cron_then (update_schedules own (\<lambda>s. s\<lparr>s_cursor := now\<rparr>) t) (\<lambda>t1. Inr ([], t1))
             else let skipped = cw_count due - 1 + (if s_pending row \<noteq> None then 1 else 0);
                      last_at = the (cw_last due);
                      skip = \<lparr>k_owner = fst k, k_cron = snd k, k_through = now,
                              k_first = (case s_pending row of Some p \<Rightarrow> p | None \<Rightarrow> the (cw_first due)),
                              k_last = (case cw_previous due of Some p \<Rightarrow> p | None \<Rightarrow> the (s_pending row)), k_slots = skipped\<rparr>
                  in cron_then (if skipped = 0 then Inr t else insert_skip skip t) (\<lambda>t1.
                     cron_then (update_schedules own
                       (\<lambda>s. s\<lparr>s_cursor := now, s_pending := Some last_at, s_skipped := s_skipped s + skipped\<rparr>) t1) (\<lambda>t2.
                       Inr ([\<lparr>pl_owner = fst k, pl_cron = snd k, pl_at = last_at, pl_skipped = skipped\<rparr>], prune limits k t2))))"

fun plan_rows :: "NativeCronLimits \<Rightarrow> inventory \<Rightarrow> int \<Rightarrow> schedule_row list \<Rightarrow> planned_slot list \<Rightarrow> cron_tables \<Rightarrow> cron_failure + planned_slot list \<times> cron_tables" where
  "plan_rows limits entries now [] planned t = Inr (planned, t)"
| "plan_rows limits entries now (row # rows) planned t =
     cron_then (plan_row limits entries now row t) (\<lambda>(slots, t').
       plan_rows limits entries now rows (planned @ slots) t')"

definition plan :: "NativeCronLimits \<Rightarrow> inventory \<Rightarrow> int \<Rightarrow> cron_tables \<Rightarrow> (cron_failure + planned_slot list) \<times> cron_tables" where
  "plan limits entries now =
     cron_transact limits (\<lambda>t. cron_then (cron_schedules entries t) (\<lambda>rows. plan_rows limits entries now rows [] t))"

section \<open>Claiming and settling\<close>

definition active_runs :: "int \<Rightarrow> cron_tables \<Rightarrow> run_row list" where
  "active_runs now t = filter (\<lambda>r. r_state r = Running \<and> now < r_lease r) (t_runs t)"

text \<open>Each schedule beside its running row, if it has one: the left join of the claim.\<close>

definition joined_runs :: "cron_tables \<Rightarrow> (schedule_row \<times> run_row option) list" where
  "joined_runs t =
     concat (map (\<lambda>s. let rs = filter (\<lambda>r. rkey r = skey s \<and> r_state r = Running) (t_runs t)
                      in if rs = [] then [(s, None)] else map (\<lambda>r. (s, Some r)) rs) (t_schedules t))"

definition claimable :: "int \<Rightarrow> schedule_row \<times> run_row option \<Rightarrow> bool" where
  "claimable now x =
     (case snd x of
        Some r \<Rightarrow> r_lease r \<le> now
      | None \<Rightarrow> (case s_pending (fst x) of Some p \<Rightarrow> p \<le> now | None \<Rightarrow> False))"

definition claim_time :: "schedule_row \<times> run_row option \<Rightarrow> int" where
  "claim_time x = (case snd x of Some r \<Rightarrow> r_at r | None \<Rightarrow> the (s_pending (fst x)))"

datatype cron_claim = CronCapacity | CronEmpty | CronExhausted cron_key int | CronClaimed cron_key int string

definition insert_run :: "run_row \<Rightarrow> cron_tables \<Rightarrow> cron_failure + cron_tables" where
  "insert_run r t =
     (if \<not> check_run r \<or> run_id r \<in> run_id ` set (t_runs t) \<or>
         list_ex (\<lambda>x. rkey x = rkey r \<and> r_state x = Running) (t_runs t) then Inl CronConstraint
      else Inr (t\<lparr>t_runs := t_runs t @ [r]\<rparr>))"

definition claim_row :: "NativeCronLimits \<Rightarrow> int \<Rightarrow> string \<Rightarrow> schedule_row \<times> run_row option \<Rightarrow> cron_tables \<Rightarrow> cron_failure + cron_claim \<times> cron_tables" where
  "claim_row limits now token x t =
     (let k = skey (fst x); slot = claim_time x; lease = now + int (leaseMilliseconds limits)
      in case snd x of
           Some r \<Rightarrow>
             if maxAttempts limits \<le> r_attempts r
             then cron_then (update_runs (\<lambda>r. run_id r = (k, slot)) (\<lambda>r. r\<lparr>r_state := LeaseExhausted, r_finished := Some now\<rparr>) t)
                    (\<lambda>t1. Inr (CronExhausted k slot, prune limits k t1))
             else cron_then (update_runs (\<lambda>r. run_id r = (k, slot))
                      (\<lambda>r. r\<lparr>r_token := token, r_attempts := Suc (r_attempts r), r_started := now, r_lease := lease\<rparr>) t)
                    (\<lambda>t1. Inr (CronClaimed k slot token, t1))
         | None \<Rightarrow>
             cron_then (insert_run \<lparr>r_owner = fst k, r_cron = snd k, r_at = slot, r_token = token, r_attempts = 1, r_started = now,
                         r_lease = lease, r_state = Running, r_finished = None, r_ok = None, r_skipped = None\<rparr> t) (\<lambda>t1.
             cron_then (update_schedules (\<lambda>s. skey s = k) (\<lambda>s. s\<lparr>s_pending := None\<rparr>) t1)
               (\<lambda>t2. Inr (CronClaimed k slot token, t2))))"

definition cron_claim :: "NativeCronLimits \<Rightarrow> inventory \<Rightarrow> int \<Rightarrow> string \<Rightarrow> cron_tables \<Rightarrow> (cron_failure + cron_claim) \<times> cron_tables" where
  "cron_claim limits entries now token =
     cron_transact limits (\<lambda>t. cron_then (cron_schedules entries t) (\<lambda>_.
        if maxConcurrent limits \<le> length (active_runs now t) then Inr (CronCapacity, t)
        else (case sort_key (\<lambda>x. (claim_time x, skey (fst x))) (filter (claimable now) (joined_runs t)) of
                [] \<Rightarrow> Inr (CronEmpty, t)
              | x # _ \<Rightarrow> claim_row limits now token x t)))"

text \<open>What a handler came to: a result, or a throw that carries one or not.\<close>

datatype cron_consumed = Returned json | ThrewBackground json | Threw

definition boolean_flag :: "json \<Rightarrow> string \<Rightarrow> bool option" where
  "boolean_flag v nm = (case v of JVal _ \<Rightarrow> None | _ \<Rightarrow> (case get_prop v nm of JVal (VBool b) \<Rightarrow> Some b | _ \<Rightarrow> None))"

definition consumed_result :: "cron_consumed \<Rightarrow> json" where
  "consumed_result c = (case c of Returned v \<Rightarrow> v | ThrewBackground v \<Rightarrow> v | Threw \<Rightarrow> JUndef)"

definition cron_outcome :: "cron_consumed \<Rightarrow> bool \<Rightarrow> run_state" where
  "cron_outcome c aborted =
     (case c of
        Returned v \<Rightarrow> if boolean_flag v ''ok'' = Some False \<or> boolean_flag v ''skipped'' = Some True then Declined else Succeeded
      | ThrewBackground _ \<Rightarrow> if aborted then Aborted else BackgroundFailed
      | Threw \<Rightarrow> if aborted then Aborted else HandlerFailed)"

text \<open>The settlement of a claimed instant; the answer is whether the row was still the claim's.\<close>

definition cron_settle ::
    "NativeCronLimits \<Rightarrow> cron_key \<Rightarrow> int \<Rightarrow> string \<Rightarrow> cron_consumed \<Rightarrow> bool \<Rightarrow> int \<Rightarrow> cron_tables \<Rightarrow> (cron_failure + bool) \<times> cron_tables" where
  "cron_settle limits k slot token c aborted now =
     cron_transact limits (\<lambda>t.
       let own = (\<lambda>r. run_id r = (k, slot) \<and> r_token r = token \<and> r_state r = Running \<and> now < r_lease r);
           flags = consumed_result c
       in cron_then (update_runs own
              (\<lambda>r. r\<lparr>r_state := cron_outcome c aborted, r_finished := Some now,
                     r_ok := boolean_flag flags ''ok'', r_skipped := boolean_flag flags ''skipped''\<rparr>) t)
            (\<lambda>t1. Inr (length (filter own (t_runs t)) = 1, prune limits k t1)))"

end
