(* ===== verification/Pg_Cron_Rows.thy ===== *)
theory Pg_Cron_Rows
  imports Pg_Cron
begin

text \<open>
  The tables of the durable cron at rest: what is true of their rows between two transactions, with
  the history of the instants ever taken for execution and of those whose execution was finished.
\<close>

section \<open>Statements\<close>

lemma set_update_where: "set (update_where P f xs) = (\<lambda>x. if P x then f x else x) ` set xs"
  by (simp add: update_where_def)

lemma map_update_where: "(\<And>x. g (f x) = g x) \<Longrightarrow> map g (update_where P f xs) = map g xs"
  by (simp add: update_where_def)

lemma filter_update_le:
  "(\<And>x. x \<in> set xs \<Longrightarrow> P x \<Longrightarrow> A (f x) \<Longrightarrow> A x) \<Longrightarrow> length (filter A (update_where P f xs)) \<le> length (filter A xs)"
  unfolding update_where_def by (induction xs) (auto simp: le_Suc_eq)

lemma filter_update_one:
  "distinct (map g xs) \<Longrightarrow> (\<And>x. P x \<Longrightarrow> g x = c) \<Longrightarrow> length (filter A (update_where P f xs)) \<le> Suc (length (filter A xs))"
proof (induction xs)
  case (Cons x xs)
  show ?case
  proof (cases "P x")
    case True
    then have "g x = c" using Cons.prems(2) by simp
    have "\<not> P y" if "y \<in> set xs" for y
    proof
      assume "P y"
      then have "g y = g x" using Cons.prems(2) \<open>g x = c\<close> by simp
      moreover have "g y \<in> g ` set xs" using that by simp
      ultimately show False using Cons.prems(1) by simp
    qed
    then have "update_where P f xs = xs" by (simp add: update_where_def map_idI)
    then show ?thesis by (simp add: update_where_def)
  next
    case False
    then show ?thesis using Cons by (simp add: update_where_def)
  qed
qed (simp add: update_where_def)

lemma cron_then_simps [simp]: "cron_then (Inl e) g = Inl e" "cron_then (Inr x) g = g x"
  by (simp_all add: cron_then_def)

lemma key_updates [simp]:
  "skey (s\<lparr>s_cursor := c\<rparr>) = skey s" "skey (s\<lparr>s_pending := p\<rparr>) = skey s" "skey (s\<lparr>s_skipped := n\<rparr>) = skey s"
  "run_id (r\<lparr>r_state := st\<rparr>) = run_id r" "run_id (r\<lparr>r_finished := fi\<rparr>) = run_id r" "run_id (r\<lparr>r_ok := a\<rparr>) = run_id r"
  "run_id (r\<lparr>r_skipped := b\<rparr>) = run_id r" "run_id (r\<lparr>r_token := tk\<rparr>) = run_id r" "run_id (r\<lparr>r_attempts := m\<rparr>) = run_id r"
  "run_id (r\<lparr>r_started := n'\<rparr>) = run_id r" "run_id (r\<lparr>r_lease := l\<rparr>) = run_id r"
  by (simp_all add: skey_def run_id_def rkey_def)

lemma rkey_run_id: "rkey r = fst (run_id r)"
  by (simp add: run_id_def)

section \<open>Pruning\<close>

lemma kept_newest:
  assumes "distinct (map g xs)"
  shows "length (filter (\<lambda>x. g x \<notin> set (map g (beyond_newest n f xs))) xs) \<le> n"
proof -
  define ys where "ys = rev (sort_key f xs)"
  have m: "mset ys = mset xs" by (simp add: ys_def)
  then have ss: "set ys = set xs" by (metis set_mset_mset)
  have "distinct xs" "inj_on g (set xs)" using assms by (simp_all add: distinct_map)
  then have d: "distinct ys" "inj_on g (set ys)" using m ss mset_eq_imp_distinct_iff by (metis, simp)
  let ?Q = "\<lambda>x. g x \<notin> g ` set (drop n ys)"
  have "\<not> ?Q x" if "x \<in> set (drop n ys)" for x using that by simp
  then have "filter ?Q (drop n ys) = []" by (simp add: filter_empty_conv)
  then have "filter ?Q ys = filter ?Q (take n ys)" by (metis append_Nil2 append_take_drop_id filter_append)
  then have "length (filter ?Q ys) \<le> n" by (metis length_filter_le length_take min.bounded_iff order_trans min.cobounded2)
  moreover have "length (filter ?Q xs) = length (filter ?Q ys)" using m by (metis mset_filter size_mset)
  ultimately show ?thesis by (simp add: beyond_newest_def ys_def)
qed

definition running :: "run_row list \<Rightarrow> run_row list" where
  "running = filter (\<lambda>r. r_state r = Running)"

lemma prune_simps [simp]: "t_schedules (prune limits k t) = t_schedules t" "t_policy (prune limits k t) = t_policy t"
  by (simp_all add: prune_def Let_def)

lemma prune_rows:
  obtains P Q where "t_runs (prune limits k t) = filter P (t_runs t)" "t_skips (prune limits k t) = filter Q (t_skips t)"
proof
  show "t_runs (prune limits k t) = filter (\<lambda>r. run_id r \<notin> set (map run_id (beyond_newest (historyLimit limits) r_at (settled_runs k (t_runs t))))) (t_runs t)"
    by (simp add: prune_def Let_def)
  show "t_skips (prune limits k t) = filter (\<lambda>x. skip_id x \<notin> set (map skip_id (beyond_newest (historyLimit limits) k_through (filter (\<lambda>x. kkey x = k) (t_skips t))))) (t_skips t)"
    by (simp add: prune_def Let_def)
qed

lemma set_beyond_newest: "set (beyond_newest n f xs) \<subseteq> set xs"
  using set_drop_subset [of n "rev (sort_key f xs)"] by (simp add: beyond_newest_def)

lemma prune_running:
  assumes "distinct (map run_id (t_runs t))"
  shows "running (t_runs (prune limits k t)) = running (t_runs t)"
proof -
  have inj: "inj_on run_id (set (t_runs t))" using assms by (simp add: distinct_map)
  have "run_id r \<notin> run_id ` set (beyond_newest (historyLimit limits) r_at (settled_runs k (t_runs t)))"
    if r: "r \<in> set (t_runs t)" "r_state r = Running" for r
  proof
    assume "run_id r \<in> run_id ` set (beyond_newest (historyLimit limits) r_at (settled_runs k (t_runs t)))"
    then obtain r' where r': "r' \<in> set (settled_runs k (t_runs t))" "run_id r = run_id r'"
      using set_beyond_newest by fast
    then have "r' \<in> set (t_runs t)" "r_state r' \<noteq> Running" by (simp_all add: settled_runs_def)
    with inj_onD [OF inj r'(2) r(1)] r(2) show False by simp
  qed
  then show ?thesis by (auto simp: running_def prune_def Let_def intro!: filter_cong)
qed

lemma prune_bounds:
  assumes "distinct (map run_id (t_runs t))" and "distinct (map skip_id (t_skips t))"
    and "\<And>k'. k' \<noteq> k \<Longrightarrow> length (settled_runs k' (t_runs t)) \<le> historyLimit limits"
    and "\<And>k'. k' \<noteq> k \<Longrightarrow> length (filter (\<lambda>x. kkey x = k') (t_skips t)) \<le> historyLimit limits"
  shows "length (settled_runs k' (t_runs (prune limits k t))) \<le> historyLimit limits"
    "length (filter (\<lambda>x. kkey x = k') (t_skips (prune limits k t))) \<le> historyLimit limits"
proof -
  let ?n = "historyLimit limits"
  obtain P Q where PQ: "t_runs (prune limits k t) = filter P (t_runs t)" "t_skips (prune limits k t) = filter Q (t_skips t)"
    by (rule prune_rows)
  have drop: "length (filter A (filter B xs)) \<le> length (filter A xs)" for A B and xs :: "'r list"
    by (induction xs) auto
  have mine: "length (settled_runs k (t_runs (prune limits k t))) \<le> ?n"
  proof -
    have "distinct (map run_id (settled_runs k (t_runs t)))"
      unfolding settled_runs_def by (rule distinct_map_filter [OF assms(1)])
    from kept_newest [OF this, of ?n r_at] show ?thesis
      by (simp add: prune_def Let_def settled_runs_def conj_ac)
  qed
  have mine_skips: "length (filter (\<lambda>x. kkey x = k) (t_skips (prune limits k t))) \<le> ?n"
  proof -
    have "distinct (map skip_id (filter (\<lambda>x. kkey x = k) (t_skips t)))"
      by (rule distinct_map_filter [OF assms(2)])
    from kept_newest [OF this, of ?n k_through] show ?thesis
      by (simp add: prune_def Let_def conj_ac)
  qed
  show "length (settled_runs k' (t_runs (prune limits k t))) \<le> ?n"
  proof (cases "k' = k")
    case False
    have "length (settled_runs k' (filter P (t_runs t))) \<le> length (settled_runs k' (t_runs t))"
      unfolding settled_runs_def by (rule drop)
    then show ?thesis using assms(3) [OF False] PQ by simp
  qed (use mine in simp)
  show "length (filter (\<lambda>x. kkey x = k') (t_skips (prune limits k t))) \<le> ?n"
  proof (cases "k' = k")
    case False
    then show ?thesis using assms(4) [OF False] PQ drop [of "\<lambda>x. kkey x = k'" Q "t_skips t"] by simp
  qed (use mine_skips in simp)
qed

end
