(* ===== verification/Pg_Cron_Plan.thy ===== *)
theory Pg_Cron_Plan
  imports Pg_Cron_Rows
begin

text \<open>
  What holds of the cron's tables between transactions, and that planning keeps it: every instant of
  an expression between the schedule's start and its cursor is counted once, as skipped, as the one
  still pending, or as taken for execution.
\<close>

section \<open>The invariant\<close>

definition slots :: "schedule_row \<Rightarrow> int set" where
  "slots s = {x \<in> cron_instants (s_cron s). s_start s \<le> x \<and> x \<le> s_cursor s}"

definition taken_at :: "(cron_key \<times> int) list \<Rightarrow> cron_key \<Rightarrow> int set" where
  "taken_at taken k = {x. (k, x) \<in> set taken}"

definition pending_count :: "schedule_row \<Rightarrow> int" where
  "pending_count s = (if s_pending s \<noteq> None then 1 else 0)"

definition schedule_ok :: "int \<Rightarrow> (cron_key \<times> int) list \<Rightarrow> schedule_row \<Rightarrow> bool" where
  "schedule_ok now taken s \<longleftrightarrow>
     check_schedule s \<and> (s_cursor s \<le> now \<or> s_cursor s = s_start s - 1) \<and>
     int (card (slots s)) = s_skipped s + pending_count s + int (card (taken_at taken (skey s))) \<and>
     taken_at taken (skey s) \<subseteq> slots s \<and>
     (\<forall>p. s_pending s = Some p \<longrightarrow> p \<in> slots s \<and> (\<forall>x\<in>taken_at taken (skey s). x < p))"

definition settings_ok :: "NativeCronLimits \<Rightarrow> inventory \<Rightarrow> (cron_key \<times> int) list \<Rightarrow> cron_tables \<Rightarrow> bool" where
  "settings_ok limits entries taken t \<longleftrightarrow>
     t_policy t = Some (limits_policy limits) \<and> distinct (map skey (t_schedules t)) \<and>
     (t_schedules t = [] \<or> skey ` set (t_schedules t) = fst ` set entries) \<and>
     fst ` set taken \<subseteq> skey ` set (t_schedules t)"

definition skips_ok :: "cron_tables \<Rightarrow> bool" where
  "skips_ok t \<longleftrightarrow>
     distinct (map skip_id (t_skips t)) \<and>
     (\<forall>x\<in>set (t_skips t). check_skip x \<and> (\<exists>s\<in>set (t_schedules t). skey s = kkey x \<and> k_through x \<le> s_cursor s))"

definition runs_ok :: "NativeCronLimits \<Rightarrow> int \<Rightarrow> (cron_key \<times> int) list \<Rightarrow> (cron_key \<times> int) list \<Rightarrow> run_row list \<Rightarrow> bool" where
  "runs_ok limits now taken finished rs \<longleftrightarrow>
     distinct (map run_id rs) \<and> distinct (map rkey (running rs)) \<and>
     (\<forall>r\<in>set rs. check_run r \<and> r_started r \<le> now \<and> r_attempts r \<le> maxAttempts limits \<and>
        (r_state r \<noteq> Running \<longrightarrow> run_id r \<in> set finished)) \<and>
     distinct taken \<and> distinct finished \<and>
     set taken = set finished \<union> run_id ` set (running rs) \<and> set finished \<inter> run_id ` set (running rs) = {}"

definition bounded_ok :: "NativeCronLimits \<Rightarrow> int \<Rightarrow> cron_tables \<Rightarrow> bool" where
  "bounded_ok limits now t \<longleftrightarrow>
     length (active_runs now t) \<le> maxConcurrent limits \<and>
     (\<forall>k. length (settled_runs k (t_runs t)) \<le> historyLimit limits) \<and>
     (\<forall>k. length (filter (\<lambda>x. kkey x = k) (t_skips t)) \<le> historyLimit limits)"

definition clock_ok :: "NativeCronLimits \<Rightarrow> int \<Rightarrow> bool" where
  "clock_ok limits now \<longleftrightarrow> 0 \<le> now \<and> now + int (leaseMilliseconds limits) \<le> MAX_SAFE"

definition inventory_ok :: "inventory \<Rightarrow> bool" where
  "inventory_ok entries \<longleftrightarrow> distinct (map fst entries) \<and> (\<forall>(k, os)\<in>set entries. parseNativeCron (snd k) = Inr os)"

definition tables_ok ::
    "NativeCronLimits \<Rightarrow> inventory \<Rightarrow> int \<Rightarrow> (cron_key \<times> int) list \<Rightarrow> (cron_key \<times> int) list \<Rightarrow> cron_tables \<Rightarrow> bool" where
  "tables_ok limits entries now taken finished t \<longleftrightarrow>
     settings_ok limits entries taken t \<and> (\<forall>s\<in>set (t_schedules t). schedule_ok now taken s) \<and>
     skips_ok t \<and> runs_ok limits now taken finished (t_runs t) \<and> bounded_ok limits now t"

definition limits_ok :: "NativeCronLimits \<Rightarrow> bool" where
  "limits_ok limits \<longleftrightarrow> cron_limit_error limits = None"

lemma limits_okD:
  assumes "limits_ok limits"
  shows "1 \<le> maxConcurrent limits" "1 \<le> leaseMilliseconds limits" "1 \<le> maxAttempts limits" "maxAttempts limits \<le> 100"
    "1 \<le> historyLimit limits"
  using assms by (auto simp: limits_ok_def cron_limit_error_def not_less split: option.splits if_splits)

lemma tables_okD:
  assumes "tables_ok limits entries now taken finished t"
  shows "settings_ok limits entries taken t" "\<And>s. s \<in> set (t_schedules t) \<Longrightarrow> schedule_ok now taken s"
    "skips_ok t" "runs_ok limits now taken finished (t_runs t)" "bounded_ok limits now t"
  using assms by (simp_all add: tables_ok_def)

lemma tables_okI:
  "settings_ok limits entries taken t \<Longrightarrow> (\<And>s. s \<in> set (t_schedules t) \<Longrightarrow> schedule_ok now taken s) \<Longrightarrow>
   skips_ok t \<Longrightarrow> runs_ok limits now taken finished (t_runs t) \<Longrightarrow> bounded_ok limits now t \<Longrightarrow>
   tables_ok limits entries now taken finished t"
  by (simp add: tables_ok_def)

lemma runs_okD:
  assumes "runs_ok limits now taken finished rs"
  shows "distinct (map run_id rs)" "distinct (map rkey (running rs))"
    "\<And>r. r \<in> set rs \<Longrightarrow> check_run r" "\<And>r. r \<in> set rs \<Longrightarrow> r_started r \<le> now"
    "\<And>r. r \<in> set rs \<Longrightarrow> r_attempts r \<le> maxAttempts limits"
    "\<And>r. r \<in> set rs \<Longrightarrow> r_state r \<noteq> Running \<Longrightarrow> run_id r \<in> set finished"
    "distinct taken" "distinct finished" "set taken = set finished \<union> run_id ` set (running rs)"
    "set finished \<inter> run_id ` set (running rs) = {}"
  using assms by (simp_all add: runs_ok_def)

lemma bounded_okD:
  assumes "bounded_ok limits now t"
  shows "length (active_runs now t) \<le> maxConcurrent limits" "length (settled_runs k (t_runs t)) \<le> historyLimit limits"
    "length (filter (\<lambda>x. kkey x = k) (t_skips t)) \<le> historyLimit limits"
  using assms unfolding bounded_ok_def by blast+

section \<open>Reading the registered schedules\<close>

lemma schedules_read:
  assumes "settings_ok limits entries taken t" and "inventory_ok entries"
  shows "cron_schedules entries t = Inr (sort_key skey (t_schedules t))"
proof (cases "t_schedules t = []")
  case False
  then have keys: "skey ` set (t_schedules t) = fst ` set entries" and d: "distinct (map skey (t_schedules t))"
    using assms(1) by (auto simp: settings_ok_def)
  have "length (t_schedules t) = card (skey ` set (t_schedules t))"
    using d by (metis distinct_card length_map set_map)
  also have "\<dots> = length entries"
    using assms(2) keys by (metis distinct_card inventory_ok_def length_map set_map)
  finally have "length (t_schedules t) = length entries" .
  moreover have "map_of entries (skey s) \<noteq> None" if "s \<in> set (t_schedules t)" for s
    using keys that by (metis imageI map_of_eq_None_iff)
  ultimately show ?thesis by (simp add: cron_schedules_def Let_def list_ex_iff)
qed (simp add: cron_schedules_def)

lemma schedule_offsets:
  assumes "settings_ok limits entries taken t" and "inventory_ok entries" and "s \<in> set (t_schedules t)"
  shows "parseNativeCron (s_cron s) = Inr (the (map_of entries (skey s)))"
proof -
  have "t_schedules t \<noteq> []" using assms(3) by auto
  then have "skey s \<in> fst ` set entries" using assms(1,3) by (auto simp: settings_ok_def)
  then obtain os where "map_of entries (skey s) = Some os"
    by (metis map_of_eq_None_iff not_None_eq)
  moreover from this have "(skey s, os) \<in> set entries" by (rule map_of_SomeD)
  then have "parseNativeCron (snd (skey s)) = Inr os" using assms(2) by (auto simp: inventory_ok_def)
  ultimately show ?thesis by (simp add: skey_def)
qed

section \<open>A planned schedule\<close>

lemma finite_slots [simp]: "s_start s \<ge> 0 \<Longrightarrow> finite (slots s)"
  by (rule finite_subset [of _ "{0..s_cursor s}"]) (auto simp: slots_def)

lemma window_opens:
  assumes "-1 \<le> c" and "c < now" and "now \<le> MAX_SAFE"
  obtains due where "cron_window os (js_int c) (js_int now) = Inr due"
proof -
  have "is_safe_integer (js_int c)" "is_safe_integer (js_int now)" "num_int (js_int c) = c" "num_int (js_int now) = now"
    using assms by (auto simp: MAX_SAFE_def)
  then show thesis using assms that by (simp add: cron_window_def Let_def)
qed


text \<open>The instants between the cursor and the clock, and the slots once the cursor stands at the clock.\<close>

definition fresh_slots :: "schedule_row \<Rightarrow> int \<Rightarrow> int set" where
  "fresh_slots s now = {x \<in> cron_instants (s_cron s). s_cursor s < x \<and> x \<le> now}"

lemma advanced_slots:
  assumes "check_schedule s" and "s_cursor s < now" and "s_cron s' = s_cron s" "s_start s' = s_start s" "s_cursor s' = now"
  shows "slots s' = slots s \<union> fresh_slots s now" "slots s \<inter> fresh_slots s now = {}" "finite (slots s)" "finite (fresh_slots s now)"
proof -
  have c: "s_start s - 1 \<le> s_cursor s" "0 \<le> s_start s" using assms(1) by (simp_all add: check_schedule_def)
  show "slots s' = slots s \<union> fresh_slots s now" using assms(2-) c by (auto simp: slots_def fresh_slots_def)
  show "slots s \<inter> fresh_slots s now = {}" by (auto simp: slots_def fresh_slots_def)
  show "finite (slots s)" using c by simp
  show "finite (fresh_slots s now)" by (rule finite_subset [of _ "{s_cursor s..now}"]) (auto simp: fresh_slots_def)
qed

lemma window_of_fresh:
  assumes "parseNativeCron (s_cron s) = Inr os" and "cron_window os (js_int (s_cursor s)) (js_int now) = Inr due"
  defines "D \<equiv> fresh_slots s now"
  shows "cw_count due = int (card D)" "cw_first due = (if D = {} then None else Some (Min D))"
    "cw_last due = (if D = {} then None else Some (Max D))"
    "cw_previous due = (if card D \<le> 1 then None else Some (Max (D - {Max D})))"
  using window_counts [OF assms(1,2)] by (simp_all add: D_def fresh_slots_def)

lemma slots_bound:
  assumes "slots s \<subseteq> {0..now}" and "now < MAX_SAFE"
  shows "int (card (slots s)) \<le> MAX_SAFE"
proof (cases "0 \<le> now")
  case True
  have "card (slots s) \<le> card {0..now}" using assms(1) by (intro card_mono) simp_all
  with True assms(2) show ?thesis by simp
next
  case False
  then have "slots s = {}" using assms(1) by auto
  then show ?thesis by (simp add: MAX_SAFE_def)
qed

lemma schedule_okD:
  assumes "schedule_ok now taken s"
  shows "check_schedule s" "s_cursor s \<le> now \<or> s_cursor s = s_start s - 1"
    "int (card (slots s)) = s_skipped s + pending_count s + int (card (taken_at taken (skey s)))"
    "taken_at taken (skey s) \<subseteq> slots s"
    "s_pending s = Some p \<Longrightarrow> p \<in> slots s" "s_pending s = Some p \<Longrightarrow> x \<in> taken_at taken (skey s) \<Longrightarrow> x < p"
  using assms by (simp_all add: schedule_ok_def)

lemma nothing_due_ok:
  assumes "schedule_ok now taken s" and "s_cursor s < now" "now < MAX_SAFE" and "fresh_slots s now = {}"
  shows "schedule_ok now taken (s\<lparr>s_cursor := now\<rparr>)"
proof -
  note S = schedule_okD [OF assms(1)]
  have same: "slots (s\<lparr>s_cursor := now\<rparr>) = slots s"
    using advanced_slots(1) [OF S(1) assms(2), of "s\<lparr>s_cursor := now\<rparr>"] assms(4) by simp
  have "check_schedule (s\<lparr>s_cursor := now\<rparr>)"
    using S(1) assms(2,3) by (auto simp: check_schedule_def split: option.splits)
  then show ?thesis
    using S same by (simp add: schedule_ok_def pending_count_def)
qed

lemma due_ok:
  assumes "schedule_ok now taken s" and "s_cursor s < now" "now < MAX_SAFE" and D: "fresh_slots s now \<noteq> {}"
    and n: "n = int (card (fresh_slots s now)) - 1 + pending_count s"
  shows "schedule_ok now taken (s\<lparr>s_cursor := now, s_pending := Some (Max (fresh_slots s now)), s_skipped := s_skipped s + n\<rparr>)"
    (is "schedule_ok now taken ?s")
proof -
  note S = schedule_okD [OF assms(1)]
  define F where "F = fresh_slots s now"
  have "s_cron ?s = s_cron s" "s_start ?s = s_start s" "s_cursor ?s = now" by simp_all
  note A0 = advanced_slots [OF S(1) assms(2) this]
  have A: "slots ?s = slots s \<union> F" "slots s \<inter> F = {}" "finite (slots s)" "finite F"
    unfolding F_def by (rule A0)+
  have last: "Max F \<in> F" using A(4) D by (simp add: F_def)
  then have l: "s_cursor s < Max F" "Max F \<le> now" by (simp_all add: F_def fresh_slots_def)
  have old: "x \<le> s_cursor s" if "x \<in> slots s" for x using that by (simp add: slots_def)
  have start: "0 \<le> s_start s" "s_start s - 1 \<le> s_cursor s" using S(1) by (simp_all add: check_schedule_def)
  have "card (slots ?s) = card (slots s) + card F" using A by (simp add: card_Un_disjoint)
  moreover have "skey ?s = skey s" by simp
  ultimately have count: "int (card (slots ?s)) = s_skipped ?s + pending_count ?s + int (card (taken_at taken (skey ?s)))"
    using S(3) by (simp add: n F_def pending_count_def)
  have "slots ?s \<subseteq> {0..now}" using start by (auto simp: slots_def)
  then have "int (card (slots ?s)) \<le> MAX_SAFE" using assms(3) by (rule slots_bound)
  then have "s_skipped ?s \<le> MAX_SAFE" using count by (simp add: pending_count_def split: if_splits)
  moreover have "0 \<le> s_skipped ?s"
  proof -
    have "1 \<le> card F" using A(4) D by (simp add: F_def Suc_le_eq card_gt_0_iff)
    moreover have "0 \<le> s_skipped s" using S(1) by (simp add: check_schedule_def)
    ultimately show ?thesis by (simp add: n F_def pending_count_def)
  qed
  ultimately have check: "check_schedule ?s"
    using S(1) assms(2,3) start l by (simp add: check_schedule_def F_def)
  show ?thesis
    unfolding schedule_ok_def
  proof (intro conjI allI impI ballI)
    show "check_schedule ?s" by (rule check)
    show "s_cursor ?s \<le> now \<or> s_cursor ?s = s_start ?s - 1" by simp
    show "int (card (slots ?s)) = s_skipped ?s + pending_count ?s + int (card (taken_at taken (skey ?s)))" by (rule count)
    show "taken_at taken (skey ?s) \<subseteq> slots ?s" using S(4) A(1) by auto
    fix p assume "s_pending ?s = Some p"
    then have p: "p = Max F" by (simp add: F_def)
    show "p \<in> slots ?s" using p last A(1) by simp
    fix x assume "x \<in> taken_at taken (skey ?s)"
    then have "x \<in> slots s" using S(4) by auto
    then show "x < p" using old l(1) p by fastforce
  qed
qed

lemma skip_checked:
  assumes "schedule_ok now taken s" and "s_cursor s < now" "now < MAX_SAFE" and "0 \<le> now"
    and W: "parseNativeCron (s_cron s) = Inr os" "cron_window os (js_int (s_cursor s)) (js_int now) = Inr due"
    and n: "n = cw_count due - 1 + pending_count s" "n \<noteq> 0" "cw_count due \<noteq> 0"
  shows "check_skip \<lparr>k_owner = a, k_cron = b, k_through = now,
           k_first = (case s_pending s of Some p \<Rightarrow> p | None \<Rightarrow> the (cw_first due)),
           k_last = (case cw_previous due of Some p \<Rightarrow> p | None \<Rightarrow> the (s_pending s)), k_slots = n\<rparr>"
proof -
  note S = schedule_okD [OF assms(1)]
  define F where "F = fresh_slots s now"
  note F = window_of_fresh [OF W, folded F_def]
  have A: "slots s \<inter> F = {}" "finite F" "finite (slots s)"
    using advanced_slots [OF S(1) assms(2), of "s\<lparr>s_cursor := now\<rparr>"] by (simp_all add: F_def)
  have start: "0 \<le> s_start s" "s_start s - 1 \<le> s_cursor s" using S(1) by (simp_all add: check_schedule_def)
  have in_F: "s_cursor s < x \<and> x \<le> now \<and> 0 \<le> x" if "x \<in> F" for x
    using that start by (auto simp: F_def fresh_slots_def cron_instants_def)
  have ne: "F \<noteq> {}" using F(1) n(3) A(2) by auto
  then have mn: "Min F \<in> F" using A(2) by simp
  have pend: "0 \<le> p \<and> p \<le> s_cursor s" if "s_pending s = Some p" for p
    using S(1) that by (simp add: check_schedule_def)
  have few: "card F \<le> nat (now + 1)"
  proof -
    have "card F \<le> card {0..now}" using in_F by (intro card_mono) auto
    then show ?thesis by simp
  qed
  have slots: "1 \<le> n" "n \<le> MAX_SAFE"
  proof -
    have "1 \<le> card F" using A(2) ne by (simp add: Suc_le_eq card_gt_0_iff)
    then show "1 \<le> n" using n F(1) by (auto simp: pending_count_def)
    show "n \<le> MAX_SAFE" using few assms(3,4) n(1) F(1) by (auto simp: pending_count_def)
  qed
  define lst where "lst = (case cw_previous due of Some p \<Rightarrow> p | None \<Rightarrow> the (s_pending s))"
  define fst' where "fst' = (case s_pending s of Some p \<Rightarrow> p | None \<Rightarrow> the (cw_first due))"
  have range: "0 \<le> fst'" "fst' \<le> lst" "lst \<le> now"
  proof -
    consider (one) "card F \<le> 1" | (more) "\<not> card F \<le> 1" by blast
    then have "0 \<le> fst' \<and> fst' \<le> lst \<and> lst \<le> now"
    proof cases
      case one
      then have "card F = 1" using A(2) ne by (simp add: le_Suc_eq)
      then have "pending_count s \<noteq> 0" using n F(1) by auto
      then obtain p where "s_pending s = Some p" by (auto simp: pending_count_def split: if_splits)
      then show ?thesis using pend [of p] one F(4) assms(2) by (simp add: fst'_def lst_def)
    next
      case more
      have "F - {Max F} \<noteq> {}"
      proof
        assume "F - {Max F} = {}"
        then have "card F \<le> card {Max F}" using A(2) by (intro card_mono) auto
        then show False using more by simp
      qed
      then have pr: "Max (F - {Max F}) \<in> F - {Max F}" using A(2) by (intro Max_in) simp_all
      then have l: "lst = Max (F - {Max F})" "lst \<in> F" using more F(4) by (simp_all add: lst_def)
      have "fst' \<le> lst \<and> 0 \<le> fst'"
      proof (cases "s_pending s")
        case None
        then have "fst' = Min F" using F(2) ne by (simp add: fst'_def)
        then show ?thesis using l(2) A(2) mn in_F by simp
      next
        case (Some p)
        then show ?thesis using pend [OF Some] in_F [OF l(2)] by (simp add: fst'_def)
      qed
      then show ?thesis using in_F [OF l(2)] by simp
    qed
    then show "0 \<le> fst'" "fst' \<le> lst" "lst \<le> now" by simp_all
  qed
  show ?thesis
    unfolding check_skip_def using range slots assms(3,4) by (simp flip: fst'_def lst_def)
qed

section \<open>Planning keeps the invariant\<close>

lemma key_replaced:
  assumes "distinct (map g xs)" and "row \<in> set xs"
  shows "set (update_where (\<lambda>s. g s = g row) f xs) = insert (f row) {s \<in> set xs. g s \<noteq> g row}"
proof -
  have "s = row" if "s \<in> set xs" "g s = g row" for s
    using assms that by (simp add: distinct_map inj_on_def)
  then show ?thesis using assms(2) by (auto simp: set_update_where)
qed

lemma settings_updated:
  assumes "settings_ok limits entries taken t" and "\<And>s. skey (f s) = skey s"
  shows "settings_ok limits entries taken (t'\<lparr>t_policy := t_policy t, t_schedules := update_where P f (t_schedules t)\<rparr>)"
proof -
  have "skey ` set (update_where P f (t_schedules t)) = skey ` set (t_schedules t)"
    by (metis assms(2) list.set_map map_update_where)
  moreover have "update_where P f (t_schedules t) = [] \<longleftrightarrow> t_schedules t = []" by (simp add: update_where_def)
  ultimately show ?thesis using assms by (simp add: settings_ok_def map_update_where)
qed

text \<open>One schedule row is rewritten and receipts are added for the time its cursor now stands at.\<close>

lemma schedule_rewritten:
  assumes ok: "tables_ok limits entries now taken finished t" and row: "row \<in> set (t_schedules t)"
    and f: "\<And>s. skey (f s) = skey s" "schedule_ok now taken (f row)" "s_cursor (f row) = now" and later: "s_cursor row < now"
    and skips: "xs = [] \<or> (xs = [x] \<and> check_skip x \<and> kkey x = skey row \<and> k_through x = now)"
  defines "t1 \<equiv> t\<lparr>t_skips := t_skips t @ xs\<rparr>"
    and "t2 \<equiv> t\<lparr>t_skips := t_skips t @ xs, t_schedules := update_where (\<lambda>s. skey s = skey row) f (t_schedules t)\<rparr>"
  shows "(if xs = [] then Inr t else insert_skip x t) = Inr t1"
    "update_schedules (\<lambda>s. skey s = skey row) f t1 = Inr t2"
    "settings_ok limits entries taken t2" "\<And>s. s \<in> set (t_schedules t2) \<Longrightarrow> schedule_ok now taken s" "skips_ok t2"
    "\<And>s. s \<in> set (t_schedules t) \<Longrightarrow> skey s \<noteq> skey row \<Longrightarrow> s \<in> set (t_schedules t2)"
proof -
  note T = tables_okD [OF ok]
  have d: "distinct (map skey (t_schedules t))" using T(1) by (simp add: settings_ok_def)
  have new: "set (t_schedules t2) = insert (f row) {s \<in> set (t_schedules t). skey s \<noteq> skey row}"
    using key_replaced [OF d row] by (simp add: t2_def)
  have old: "check_skip y" "\<exists>s\<in>set (t_schedules t). skey s = kkey y \<and> k_through y \<le> s_cursor s" if "y \<in> set (t_skips t)" for y
    using T(3) that by (simp_all add: skips_ok_def)
  have fresh: "skip_id x \<notin> skip_id ` set (t_skips t)" if one: "xs = [x]"
  proof
    assume "skip_id x \<in> skip_id ` set (t_skips t)"
    then obtain y where y: "y \<in> set (t_skips t)" "kkey y = skey row" "k_through y = now"
      using skips one by (auto simp: skip_id_def)
    then obtain s where "s \<in> set (t_schedules t)" "skey s = skey row" "now \<le> s_cursor s" using old(2) [OF y(1)] by auto
    moreover from this have "s = row" using d row by (simp add: distinct_map inj_on_def)
    ultimately show False using later by simp
  qed
  show "(if xs = [] then Inr t else insert_skip x t) = Inr t1"
    using skips fresh by (auto simp: t1_def insert_skip_def)
  have "check_schedule (f s)" if "s \<in> set (t_schedules t)" "skey s = skey row" for s
  proof -
    have "s = row" using d row that by (simp add: distinct_map inj_on_def)
    then show ?thesis using schedule_okD(1) [OF f(2)] by simp
  qed
  then have "\<not> list_ex (\<lambda>s. skey s = skey row \<and> \<not> check_schedule (f s)) (t_schedules t1)"
    by (auto simp: list_ex_iff t1_def)
  then show "update_schedules (\<lambda>s. skey s = skey row) f t1 = Inr t2"
    by (simp add: update_schedules_def t1_def t2_def)
  show "settings_ok limits entries taken t2"
    using settings_updated [where t' = "t\<lparr>t_skips := t_skips t @ xs\<rparr>", OF T(1) f(1)] by (simp add: t2_def)
  show "schedule_ok now taken s" if "s \<in> set (t_schedules t2)" for s
    using that new f(2) T(2) by auto
  show "s \<in> set (t_schedules t2)" if "s \<in> set (t_schedules t)" "skey s \<noteq> skey row" for s
    using that new by simp
  have kept: "\<exists>s\<in>set (t_schedules t2). skey s = kkey y \<and> k_through y \<le> s_cursor s"
    if y: "y \<in> set (t_skips t) \<or> y \<in> set xs" for y
  proof (cases "kkey y = skey row")
    case True
    have "k_through y \<le> now"
    proof (cases "y \<in> set xs")
      case False
      then have "y \<in> set (t_skips t)" using y by simp
      from old(2) [OF this] obtain s where s: "s \<in> set (t_schedules t)" "skey s = skey row" "k_through y \<le> s_cursor s"
        using True by auto
      then have "s = row" using d row by (simp add: distinct_map inj_on_def)
      then show ?thesis using s(3) later by simp
    qed (use skips in auto)
    then show ?thesis using True new f by (intro bexI [of _ "f row"]) simp_all
  next
    case False
    then have "y \<in> set (t_skips t)" using y skips by auto
    then show ?thesis using old(2) False new by fastforce
  qed
  have "distinct (map skip_id (t_skips t2))"
    using T(3) skips fresh by (auto simp: t2_def skips_ok_def)
  moreover have "check_skip y" if "y \<in> set (t_skips t2)" for y
    using that old(1) skips by (auto simp: t2_def)
  ultimately show "skips_ok t2" using kept by (simp add: skips_ok_def t2_def)
qed

lemma runs_pruned:
  assumes "runs_ok limits now taken finished (t_runs t)"
  shows "runs_ok limits now taken finished (t_runs (prune limits k t))"
proof -
  note R = runs_okD [OF assms]
  obtain P where P: "t_runs (prune limits k t) = filter P (t_runs t)" by (rule prune_rows)
  have run: "running (filter P (t_runs t)) = running (t_runs t)" using prune_running [OF R(1)] P by metis
  have "distinct (map run_id (filter P (t_runs t)))" by (rule distinct_map_filter [OF R(1)])
  then show ?thesis unfolding P runs_ok_def run using assms by (simp add: runs_ok_def)
qed

lemma skips_pruned: "skips_ok t \<Longrightarrow> skips_ok (prune limits k t)"
proof -
  assume a: "skips_ok t"
  obtain P Q where Q: "t_skips (prune limits k t) = filter Q (t_skips t)" by (rule prune_rows)
  show ?thesis using a distinct_map_filter [of skip_id "t_skips t" Q] unfolding skips_ok_def Q by simp
qed

lemma active_pruned:
  assumes "distinct (map run_id (t_runs t))"
  shows "active_runs now (prune limits k t) = active_runs now t"
proof -
  have "active_runs now t' = filter (\<lambda>r. now < r_lease r) (running (t_runs t'))" for t'
    by (simp add: active_runs_def running_def conj_ac)
  then show ?thesis using prune_running [OF assms] by simp
qed

text \<open>
  After a pruning the invariant needs no bound on the pruned schedule's rows before it.
\<close>

lemma pruned_ok:
  assumes "settings_ok limits entries taken t" "\<And>s. s \<in> set (t_schedules t) \<Longrightarrow> schedule_ok now taken s"
    and "skips_ok t" and runs: "runs_ok limits now taken finished (t_runs t)"
    and act: "length (active_runs now t) \<le> maxConcurrent limits"
    and "\<And>k'. k' \<noteq> k \<Longrightarrow> length (settled_runs k' (t_runs t)) \<le> historyLimit limits"
    and "\<And>k'. k' \<noteq> k \<Longrightarrow> length (filter (\<lambda>x. kkey x = k') (t_skips t)) \<le> historyLimit limits"
  shows "tables_ok limits entries now taken finished (prune limits k t)"
proof (rule tables_okI)
  show "settings_ok limits entries taken (prune limits k t)" using assms(1) by (simp add: settings_ok_def)
  show "schedule_ok now taken s" if "s \<in> set (t_schedules (prune limits k t))" for s using that assms(2) by simp
  show "skips_ok (prune limits k t)" by (rule skips_pruned) fact
  show "runs_ok limits now taken finished (t_runs (prune limits k t))" by (rule runs_pruned) fact
  have d: "distinct (map run_id (t_runs t))" "distinct (map skip_id (t_skips t))"
    using runs assms(3) by (simp_all add: runs_ok_def skips_ok_def)
  show "bounded_ok limits now (prune limits k t)"
    using prune_bounds [OF d assms(6,7)] act by (simp add: bounded_ok_def active_pruned [OF d(1)])
qed

lemma plan_row_ok:
  assumes ok: "tables_ok limits entries now taken finished t" and inv: "inventory_ok entries"
    and clk: "0 \<le> now" "now < MAX_SAFE" and row: "row \<in> set (t_schedules t)"
  obtains planned t' where "plan_row limits entries now row t = Inr (planned, t')"
    "tables_ok limits entries now taken finished t'"
    "\<And>s. s \<in> set (t_schedules t) \<Longrightarrow> skey s \<noteq> skey row \<Longrightarrow> s \<in> set (t_schedules t')"
proof (cases "now \<le> s_cursor row")
  case True
  then show thesis using ok by (intro that [of "[]" t]) (simp_all add: plan_row_def Let_def)
next
  case False
  then have later: "s_cursor row < now" by simp
  note T = tables_okD [OF ok]
  note S = T(2) [OF row]
  have parse: "parseNativeCron (s_cron row) = Inr (the (map_of entries (skey row)))"
    using schedule_offsets [OF T(1) inv row] .
  have "-1 \<le> s_cursor row" using schedule_okD(1) [OF S] by (simp add: check_schedule_def)
  then obtain due where due: "cron_window (the (map_of entries (skey row))) (js_int (s_cursor row)) (js_int now) = Inr due"
    using later clk by (metis less_imp_le window_opens)
  note W = window_of_fresh [OF parse due]
  have fin: "finite (fresh_slots row now)"
    using advanced_slots(4) [OF schedule_okD(1) [OF S] later, of "row\<lparr>s_cursor := now\<rparr>"] by simp
  show thesis
  proof (cases "cw_count due = 0")
    case True
    then have e: "fresh_slots row now = {}" using W(1) fin by simp
    define f where "f = (\<lambda>s :: schedule_row. s\<lparr>s_cursor := now\<rparr>)"
    have f: "skey (f s) = skey s" "schedule_ok now taken (f row)" "s_cursor (f row) = now" for s
      using nothing_due_ok [OF S later clk(2) e] by (simp_all add: f_def)
    define t2 where "t2 = t\<lparr>t_schedules := update_where (\<lambda>s. skey s = skey row) f (t_schedules t)\<rparr>"
    note N = schedule_rewritten [where f = f and xs = "[]", OF ok row f later, simplified, folded t2_def]
    show thesis
    proof (rule that)
      show "plan_row limits entries now row t = Inr ([], t2)"
        using later due True N(2) [unfolded f_def] by (simp add: plan_row_def Let_def)
      have "bounded_ok limits now t2" using T(5) by (simp add: t2_def bounded_ok_def active_runs_def)
      moreover have "runs_ok limits now taken finished (t_runs t2)" using T(4) by (simp add: t2_def)
      ultimately show "tables_ok limits entries now taken finished t2" using N(3-5) by (intro tables_okI) (simp_all add: t2_def)
    qed (use N(6) in \<open>simp add: t2_def\<close>)
  next
    case False
    define n where "n = cw_count due - 1 + pending_count row"
    define f where "f = (\<lambda>s :: schedule_row. s\<lparr>s_cursor := now, s_pending := Some (the (cw_last due)), s_skipped := s_skipped s + n\<rparr>)"
    define x where "x = \<lparr>k_owner = fst (skey row), k_cron = snd (skey row), k_through = now,
       k_first = (case s_pending row of Some p \<Rightarrow> p | None \<Rightarrow> the (cw_first due)),
       k_last = (case cw_previous due of Some p \<Rightarrow> p | None \<Rightarrow> the (s_pending row)), k_slots = n\<rparr>"
    define xs where "xs = (if n = 0 then [] else [x])"
    have ne: "fresh_slots row now \<noteq> {}" using False W(1) by auto
    then have fr: "f row = row\<lparr>s_cursor := now, s_pending := Some (Max (fresh_slots row now)), s_skipped := s_skipped row + n\<rparr>"
      using W(3) by (simp add: f_def)
    have f: "skey (f s) = skey s" "schedule_ok now taken (f row)" "s_cursor (f row) = now" for s
    proof -
      show "schedule_ok now taken (f row)"
        unfolding fr by (rule due_ok [OF S later clk(2) ne]) (simp add: n_def W(1))
    qed (simp_all add: f_def)
    have x: "xs = [] \<or> (xs = [x] \<and> check_skip x \<and> kkey x = skey row \<and> k_through x = now)"
      using skip_checked [OF S later clk(2,1) parse due n_def _ False] by (auto simp: xs_def x_def kkey_def)
    define t2 where "t2 = t\<lparr>t_skips := t_skips t @ xs, t_schedules := update_where (\<lambda>s. skey s = skey row) f (t_schedules t)\<rparr>"
    note N = schedule_rewritten [where f = f, OF ok row f later x, folded t2_def]
    show thesis
    proof (rule that)
      have e: "(xs = []) = (n = 0)" by (simp add: xs_def)
      let ?planned = "[\<lparr>pl_owner = fst (skey row), pl_cron = snd (skey row), pl_at = the (cw_last due), pl_skipped = n\<rparr>]"
      have "plan_row limits entries now row t = cron_then (if n = 0 then Inr t else insert_skip x t) (\<lambda>t1.
          cron_then (update_schedules (\<lambda>s. skey s = skey row) f t1) (\<lambda>t2. Inr (?planned, prune limits (skey row) t2)))"
        using later due False by (simp add: plan_row_def Let_def n_def pending_count_def x_def f_def)
      then show "plan_row limits entries now row t = Inr (?planned, prune limits (skey row) t2)"
        by (simp only: N(1,2) [unfolded e] cron_then_simps)
      show "tables_ok limits entries now taken finished (prune limits (skey row) t2)"
      proof (rule pruned_ok [OF N(3-5)])
        show "runs_ok limits now taken finished (t_runs t2)" "length (active_runs now t2) \<le> maxConcurrent limits"
          using T(4,5) by (simp_all add: t2_def bounded_ok_def active_runs_def)
        show "length (settled_runs k' (t_runs t2)) \<le> historyLimit limits" for k'
          using bounded_okD(2) [OF T(5)] by (simp add: t2_def)
        show "length (filter (\<lambda>x. kkey x = k') (t_skips t2)) \<le> historyLimit limits" if "k' \<noteq> skey row" for k'
        proof -
          have "filter (\<lambda>x. kkey x = k') xs = []" using x that by auto
          then show ?thesis using bounded_okD(3) [OF T(5)] by (simp add: t2_def)
        qed
      qed
    qed (use N(6) in simp)
  qed
qed

lemma plan_rows_ok:
  assumes "tables_ok limits entries now taken finished t" and "inventory_ok entries" and "0 \<le> now" "now < MAX_SAFE"
    and "set rows \<subseteq> set (t_schedules t)" and "distinct (map skey rows)"
  obtains planned' t' where "plan_rows limits entries now rows planned t = Inr (planned', t')"
    "tables_ok limits entries now taken finished t'"
  using assms
proof (induction rows arbitrary: t planned thesis)
  case (Cons row rows)
  have "row \<in> set (t_schedules t)" using Cons.prems(6) by simp
  from plan_row_ok [OF Cons.prems(2-5) this] obtain slots t1 where
    p: "plan_row limits entries now row t = Inr (slots, t1)" and ok: "tables_ok limits entries now taken finished t1"
    and kept: "\<And>s. s \<in> set (t_schedules t) \<Longrightarrow> skey s \<noteq> skey row \<Longrightarrow> s \<in> set (t_schedules t1)" by metis
  have "set rows \<subseteq> set (t_schedules t1)"
  proof
    fix s assume s: "s \<in> set rows"
    then have "skey s \<in> skey ` set rows" by simp
    then have "skey s \<noteq> skey row" using Cons.prems(7) by auto
    then show "s \<in> set (t_schedules t1)" using s Cons.prems(6) kept by auto
  qed
  moreover have "distinct (map skey rows)" using Cons.prems(7) by simp
  ultimately obtain planned' t' where
    "plan_rows limits entries now rows (planned @ slots) t1 = Inr (planned', t')" "tables_ok limits entries now taken finished t'"
    using Cons.IH [OF _ ok Cons.prems(3-5)] by blast
  then show thesis using Cons.prems(1) [of planned' t'] p by simp
qed (simp add: that)

text \<open>Planning never fails on the invariant, and keeps it.\<close>

lemma cron_plan_ok:
  assumes ok: "tables_ok limits entries now taken finished t" and inv: "inventory_ok entries"
    and clk: "0 \<le> now" "now < MAX_SAFE"
  obtains planned t' where "plan limits entries now t = (Inr planned, t')" "tables_ok limits entries now taken finished t'"
proof -
  note T = tables_okD [OF ok]
  have pol: "t_policy t = Some (limits_policy limits)" and d: "distinct (map skey (t_schedules t))"
    using T(1) by (simp_all add: settings_ok_def)
  have "distinct (map skey (sort_key skey (t_schedules t)))"
    using d by (simp add: distinct_map)
  then obtain planned t' where "plan_rows limits entries now (sort_key skey (t_schedules t)) [] t = Inr (planned, t')"
    "tables_ok limits entries now taken finished t'"
    using plan_rows_ok [OF ok inv clk, of "sort_key skey (t_schedules t)" "[]"] by (metis set_sort subset_refl)
  then show thesis
    using that pol schedules_read [OF T(1) inv] by (simp add: plan_def cron_transact_def)
qed

end
