(* ===== verification/Pg_Cron_Claim.thy ===== *)
theory Pg_Cron_Claim
  imports Pg_Cron_Plan
begin

text \<open>
  Registration, the claim and the settlement keep the invariant of the cron's tables, and none of
  them ever fails on a constraint of the database.  A claim that opens a run adds its instant to the
  history of those taken; a settlement or an exhausted lease adds it to those finished.
\<close>

section \<open>Registration\<close>

definition unplanned_row :: "int \<Rightarrow> schedule_row \<Rightarrow> bool" where
  "unplanned_row start s \<longleftrightarrow> check_schedule s \<and> s_start s = start \<and> s_cursor s = start - 1 \<and> s_pending s = None \<and> s_skipped s = 0"

definition rows_added :: "int \<Rightarrow> cron_key list \<Rightarrow> cron_tables \<Rightarrow> cron_tables \<Rightarrow> schedule_row list \<Rightarrow> bool" where
  "rows_added start ds t t' new \<longleftrightarrow>
     t' = t\<lparr>t_schedules := t_schedules t @ new\<rparr> \<and> (\<forall>s\<in>set new. unplanned_row start s) \<and>
     (distinct (map skey (t_schedules t)) \<longrightarrow> distinct (map skey (t_schedules t @ new))) \<and>
     skey ` set (t_schedules t @ new) = skey ` set (t_schedules t) \<union> set ds \<and>
     (set ds \<subseteq> skey ` set (t_schedules t) \<longrightarrow> new = [])"

lemma inserted_schedules: "insert_schedules start ds t = Inr t' \<Longrightarrow> \<exists>new. rows_added start ds t t' new"
proof (induction ds arbitrary: t)
  case Nil
  then show ?case by (intro exI [of _ "[]"]) (simp add: rows_added_def)
next
  case (Cons d ds)
  define row where "row = \<lparr>s_owner = fst d, s_cron = snd d, s_start = start, s_cursor = start - 1, s_pending = None, s_skipped = 0\<rparr>"
  have row: "skey row = d" by (simp add: row_def skey_def)
  have c: "unplanned_row start row" and
    i: "insert_schedules start ds (if d \<in> skey ` set (t_schedules t) then t else t\<lparr>t_schedules := t_schedules t @ [row]\<rparr>) = Inr t'"
    using Cons.prems by (auto simp: Let_def unplanned_row_def simp flip: row_def split: if_splits) (simp_all add: row_def)
  show ?case
  proof (cases "d \<in> skey ` set (t_schedules t)")
    case True
    then obtain new where "rows_added start ds t t' new" using Cons.IH i by fastforce
    moreover have "skey ` set (t_schedules t) \<union> set (d # ds) = skey ` set (t_schedules t) \<union> set ds"
      using True by auto
    ultimately show ?thesis using True by (intro exI [of _ new]) (simp add: rows_added_def)
  next
    case False
    then obtain new where N: "rows_added start ds (t\<lparr>t_schedules := t_schedules t @ [row]\<rparr>) t' new"
      using Cons.IH i by fastforce
    have "rows_added start (d # ds) t t' (row # new)"
      unfolding rows_added_def
    proof (intro conjI)
      show "distinct (map skey (t_schedules t)) \<longrightarrow> distinct (map skey (t_schedules t @ row # new))"
        using N False row by (auto simp: rows_added_def)
      show "skey ` set (t_schedules t @ row # new) = skey ` set (t_schedules t) \<union> set (d # ds)"
        using N row by (auto simp: rows_added_def)
    qed (use N False c in \<open>auto simp: rows_added_def\<close>)
    then show ?thesis by blast
  qed
qed

lemma fresh_schedule_ok:
  assumes "check_schedule s" "s_cursor s = s_start s - 1" "s_pending s = None" "s_skipped s = 0" "taken_at taken (skey s) = {}"
  shows "schedule_ok now taken s"
proof -
  have "slots s = {}" using assms(2) by (auto simp: slots_def)
  then show ?thesis using assms by (simp add: schedule_ok_def pending_count_def)
qed

lemma cron_transact_cases:
  assumes "cron_transact limits operation t = (res, t')"
  obtains "t' = t" | r where "operation t = Inr (r, t')" "res = Inr r"
  using assms by (auto simp: cron_transact_def split: if_splits sum.splits prod.splits)

lemma cron_register_ok:
  assumes ok: "tables_ok limits entries now taken finished t" and inv: "inventory_ok entries"
    and reg: "register limits entries start t = (res, t')"
  shows "tables_ok limits entries now taken finished t'"
proof -
  note T = tables_okD [OF ok]
  let ?start = "num_int start"
  let ?op = "\<lambda>t. cron_then (insert_schedules ?start (map fst entries) t) (\<lambda>t1. cron_then (cron_schedules entries t1) (\<lambda>rows.
    if list_ex (\<lambda>row. s_start row \<noteq> ?start) rows then Inl StartDiffers else Inr ((), t1)))"
  have "t' = t \<or> cron_transact limits ?op t = (res, t')"
    using reg by (simp add: register_def split: if_splits)
  then have "t' = t \<or> insert_schedules ?start (map fst entries) t = Inr t'"
    by (elim disjE cron_transact_cases) (auto simp: cron_then_def split: sum.splits if_splits)
  then show ?thesis
  proof
    assume "insert_schedules ?start (map fst entries) t = Inr t'"
    from inserted_schedules [OF this] obtain new where "rows_added ?start (map fst entries) t t' new" ..
    then have N: "t' = t\<lparr>t_schedules := t_schedules t @ new\<rparr>" "\<And>s. s \<in> set new \<Longrightarrow> unplanned_row ?start s"
      "distinct (map skey (t_schedules t)) \<Longrightarrow> distinct (map skey (t_schedules t @ new))"
      "skey ` set (t_schedules t @ new) = skey ` set (t_schedules t) \<union> set (map fst entries)"
      "set (map fst entries) \<subseteq> skey ` set (t_schedules t) \<Longrightarrow> new = []"
      unfolding rows_added_def by simp_all
    show ?thesis
    proof (cases "t_schedules t = []")
      case False
      then have "new = []" using N(5) T(1) by (auto simp: settings_ok_def)
      then show ?thesis using N(1) ok by simp
    next
      case True
      then have none: "taken = []" "t_skips t = []"
        using T(1,3) by (auto simp: settings_ok_def skips_ok_def)
      show ?thesis
      proof (rule tables_okI)
        show "settings_ok limits entries taken t'"
          using T(1) N(1,3,4) True none by (simp add: settings_ok_def)
        show "schedule_ok now taken s" if "s \<in> set (t_schedules t')" for s
          using N(1) N(2) [of s] that True none by (intro fresh_schedule_ok) (simp_all add: taken_at_def unplanned_row_def)
        show "skips_ok t'" using N(1) none by (simp add: skips_ok_def)
      qed (use T(4,5) N(1) in \<open>simp_all add: bounded_ok_def active_runs_def\<close>)
    qed
  qed (use ok in simp)
qed

section \<open>Runs\<close>

lemma running_set: "r \<in> set (running rs) \<longleftrightarrow> r \<in> set rs \<and> r_state r = Running"
  by (auto simp: running_def)

lemma run_unique:
  assumes "runs_ok limits now taken finished rs" "r \<in> set rs" "r' \<in> set rs" "run_id r = run_id r'"
  shows "r = r'"
  using assms by (auto simp: runs_ok_def distinct_map inj_on_def)

lemma run_ids_taken:
  assumes "runs_ok limits now taken finished rs" "r \<in> set rs"
  shows "run_id r \<in> set taken"
  using runs_okD(6,9) [OF assms(1)] assms(2) running_set by fast

text \<open>A running row is finished at \<open>now\<close>.\<close>

definition finishes :: "int \<Rightarrow> (run_row \<Rightarrow> run_row) \<Rightarrow> bool" where
  "finishes now f \<longleftrightarrow>
     (\<forall>r. run_id (f r) = run_id r \<and> r_started (f r) = r_started r \<and> r_attempts (f r) = r_attempts r \<and>
          r_lease (f r) = r_lease r \<and> r_state (f r) \<noteq> Running \<and> r_finished (f r) = Some now)"

lemma finishesD:
  assumes "finishes now f"
  shows "run_id (f r) = run_id r" "r_started (f r) = r_started r" "r_attempts (f r) = r_attempts r"
    "r_lease (f r) = r_lease r" "r_state (f r) \<noteq> Running" "r_finished (f r) = Some now"
  using assms by (simp_all add: finishes_def)

lemma r_at_run_id: "r_at r = snd (run_id r)"
  by (simp add: run_id_def)

lemma running_update_finished:
  "(\<And>r. r_state (f r) \<noteq> Running) \<Longrightarrow> running (update_where P f rs) = filter (\<lambda>r. \<not> P r) (running rs)"
  by (induction rs) (auto simp: running_def update_where_def)

lemma runs_finished:
  assumes R: "runs_ok limits now taken finished rs" and f: "finishes now f" and clk: "now \<le> MAX_SAFE"
    and P: "\<And>r. r \<in> set rs \<Longrightarrow> P r \<Longrightarrow> run_id r = i \<and> r_state r = Running"
  shows "runs_ok limits now taken (finished @ (if \<exists>r\<in>set rs. P r then [i] else [])) (update_where P f rs)"
    "\<not> list_ex (\<lambda>r. P r \<and> \<not> check_run (f r)) rs"
proof -
  note R' = runs_okD [OF R] and F = finishesD [OF f]
  have check: "check_run (f r)" if "r \<in> set rs" for r
    using R'(3,4) [OF that] F [of r] clk by (simp add: check_run_def r_at_run_id)
  then show "\<not> list_ex (\<lambda>r. P r \<and> \<not> check_run (f r)) rs" by (auto simp: list_ex_iff)
  let ?rs = "update_where P f rs"
  have run: "running ?rs = filter (\<lambda>r. \<not> P r) (running rs)" by (rule running_update_finished) (rule F(5))
  have ids: "map run_id ?rs = map run_id rs" by (rule map_update_where) (rule F(1))
  have row: "check_run r \<and> r_started r \<le> now \<and> r_attempts r \<le> maxAttempts limits" if "r \<in> set ?rs" for r
    using that check R'(3-5) F by (auto simp: set_update_where)
  show "runs_ok limits now taken (finished @ (if \<exists>r\<in>set rs. P r then [i] else [])) ?rs"
  proof (cases "\<exists>r\<in>set rs. P r")
    case False
    then have "?rs = rs" by (auto simp: update_where_def map_idI)
    then show ?thesis using R False by simp
  next
    case True
    then obtain r0 where r0: "r0 \<in> set rs" "P r0" by blast
    then have i: "run_id r0 = i" "r_state r0 = Running" using P by auto
    have "run_id r \<noteq> i" if "r \<in> set (running rs)" "\<not> P r" for r
      using that r0 i run_unique [OF R, of r r0] by (auto simp: running_set)
    moreover have only: "r = r0" if "r \<in> set rs" "P r" for r
      using P [OF that] run_unique [OF R that(1) r0(1)] i by simp
    moreover have "r0 \<in> set (running rs)" using r0(1) i by (simp add: running_set)
    ultimately have split: "run_id ` set (running rs) = insert i (run_id ` set (running ?rs))" "i \<notin> run_id ` set (running ?rs)"
      unfolding run using i(1) by (auto simp: running_set) (metis (mono_tags) image_iff mem_Collect_eq running_set)+
    have "run_id r \<in> set (finished @ [i])" if r: "r \<in> set ?rs" "r_state r \<noteq> Running" for r
    proof -
      obtain x where x: "x \<in> set rs" "r = (if P x then f x else x)"
        using r(1) unfolding set_update_where by blast
      show ?thesis using x r(2) R'(6) only i(1) F(1) by (cases "P x") auto
    qed
    moreover have "distinct (map rkey (running ?rs))" unfolding run by (rule distinct_map_filter [OF R'(2)])
    moreover have "i \<notin> set finished" using R'(10) split(1) by auto
    ultimately show ?thesis
      using True R'(1,7,8,9,10) row split ids by (simp add: runs_ok_def)
  qed
qed

section \<open>Settling\<close>

lemma finished_bounds:
  assumes B: "bounded_ok limits now t" and f: "finishes now f"
    and P: "\<And>r. r \<in> set (t_runs t) \<Longrightarrow> P r \<Longrightarrow> run_id r = i \<and> r_state r = Running"
    and k: "k' \<noteq> fst i"
  shows "length (active_runs now (t\<lparr>t_runs := update_where P f (t_runs t)\<rparr>)) \<le> maxConcurrent limits"
    "length (settled_runs k' (update_where P f (t_runs t))) \<le> historyLimit limits"
proof -
  note F = finishesD [OF f]
  have "length (active_runs now (t\<lparr>t_runs := update_where P f (t_runs t)\<rparr>)) \<le> length (active_runs now t)"
    unfolding active_runs_def using filter_update_le [of "t_runs t" P "\<lambda>r. r_state r = Running \<and> now < r_lease r" f] F by simp
  then show "length (active_runs now (t\<lparr>t_runs := update_where P f (t_runs t)\<rparr>)) \<le> maxConcurrent limits"
    using bounded_okD(1) [OF B] by simp
  have "\<not> rkey (f r) = k'" if "r \<in> set (t_runs t)" "P r" for r
    using P [OF that] F(1) k by (simp add: rkey_run_id)
  then have "length (settled_runs k' (update_where P f (t_runs t))) \<le> length (settled_runs k' (t_runs t))"
    unfolding settled_runs_def by (intro filter_update_le) auto
  then show "length (settled_runs k' (update_where P f (t_runs t))) \<le> historyLimit limits"
    using bounded_okD(2) [OF B, of k'] by simp
qed

text \<open>The update and the pruning that end a run.\<close>

lemma finish_ok:
  assumes ok: "tables_ok limits entries now taken finished t" and clk: "now \<le> MAX_SAFE" and f: "finishes now f"
    and P: "\<And>r. r \<in> set (t_runs t) \<Longrightarrow> P r \<Longrightarrow> run_id r = (k, c) \<and> r_state r = Running"
  defines "t1 \<equiv> t\<lparr>t_runs := update_where P f (t_runs t)\<rparr>"
  shows "update_runs P f t = Inr t1"
    "tables_ok limits entries now taken (finished @ (if \<exists>r\<in>set (t_runs t). P r then [(k, c)] else [])) (prune limits k t1)"
proof -
  note T = tables_okD [OF ok]
  note R = runs_finished [OF T(4) f clk P]
  show "update_runs P f t = Inr t1" using R(2) by (simp add: update_runs_def t1_def)
  show "tables_ok limits entries now taken (finished @ (if \<exists>r\<in>set (t_runs t). P r then [(k, c)] else [])) (prune limits k t1)"
  proof (rule pruned_ok)
    show "settings_ok limits entries taken t1" using T(1) by (simp add: t1_def settings_ok_def)
    show "schedule_ok now taken s" if "s \<in> set (t_schedules t1)" for s using that T(2) by (simp add: t1_def)
    show "skips_ok t1" using T(3) by (simp add: t1_def skips_ok_def)
    show "runs_ok limits now taken (finished @ (if \<exists>r\<in>set (t_runs t). P r then [(k, c)] else [])) (t_runs t1)"
      using R(1) by (simp add: t1_def)
    note B = finished_bounds [where P = P, OF T(5) f P]
    have "\<exists>k'. k' \<noteq> k" by (metis append_Nil2 list.distinct(1) prod.inject surj_pair)
    then show "length (active_runs now t1) \<le> maxConcurrent limits" using B(1) by (auto simp: t1_def)
    show "length (settled_runs k' (t_runs t1)) \<le> historyLimit limits" if "k' \<noteq> k" for k'
      using B(2) [of k'] that by (simp add: t1_def)
    show "length (filter (\<lambda>x. kkey x = k') (t_skips t1)) \<le> historyLimit limits" for k'
      using bounded_okD(3) [OF T(5)] by (simp add: t1_def)
  qed
qed

lemma unique_count:
  assumes "distinct (map g xs)" and "\<And>x. x \<in> set xs \<Longrightarrow> P x \<Longrightarrow> g x = c"
  shows "length (filter P xs) = 1 \<longleftrightarrow> (\<exists>x\<in>set xs. P x)"
  using assms
proof (induction xs)
  case (Cons x xs)
  show ?case
  proof (cases "P x")
    case True
    have "\<not> P y" if y: "y \<in> set xs" for y
    proof
      assume "P y"
      then have "g y = g x" using y True Cons.prems(2) [of x] Cons.prems(2) [of y] by simp
      moreover have "g y \<in> g ` set xs" using y by simp
      ultimately show False using Cons.prems(1) by simp
    qed
    then show ?thesis using True by (simp add: filter_empty_conv)
  qed (use Cons in simp)
qed simp

lemma cron_settle_ok:
  assumes ok: "tables_ok limits entries now taken finished t" and clk: "now \<le> MAX_SAFE"
  obtains b t' where "cron_settle limits k c token consumed aborted now t = (Inr b, t')"
    "tables_ok limits entries now taken (finished @ (if b then [(k, c)] else [])) t'"
    "b \<longleftrightarrow> (\<exists>r\<in>set (t_runs t). run_id r = (k, c) \<and> r_token r = token \<and> r_state r = Running \<and> now < r_lease r)"
proof -
  note T = tables_okD [OF ok]
  let ?flags = "consumed_result consumed"
  define P where "P = (\<lambda>r. run_id r = (k, c) \<and> r_token r = token \<and> r_state r = Running \<and> now < r_lease r)"
  define f where "f = (\<lambda>r :: run_row. r\<lparr>r_state := cron_outcome consumed aborted, r_finished := Some now,
    r_ok := boolean_flag ?flags ''ok'', r_skipped := boolean_flag ?flags ''skipped''\<rparr>)"
  have "cron_outcome consumed aborted \<noteq> Running" by (simp add: cron_outcome_def split: cron_consumed.splits)
  then have f: "finishes now f" by (simp add: finishes_def f_def)
  have P: "run_id r = (k, c) \<and> r_state r = Running" if "P r" for r using that by (simp add: P_def)
  note N = finish_ok [where P = P, OF ok clk f P]
  have one: "(length (filter P (t_runs t)) = 1) = (\<exists>r\<in>set (t_runs t). P r)"
    by (rule unique_count [OF runs_okD(1) [OF T(4)]]) (use P in blast)
  have pol: "t_policy t = Some (limits_policy limits)" using T(1) by (simp add: settings_ok_def)
  show thesis
  proof (rule that)
    show "cron_settle limits k c token consumed aborted now t =
        (Inr (length (filter P (t_runs t)) = 1), prune limits k (t\<lparr>t_runs := update_where P f (t_runs t)\<rparr>))"
      using pol N(1) by (simp add: cron_settle_def cron_transact_def Let_def P_def [symmetric] f_def [symmetric])
    show "tables_ok limits entries now taken (finished @ (if length (filter P (t_runs t)) = 1 then [(k, c)] else []))
        (prune limits k (t\<lparr>t_runs := update_where P f (t_runs t)\<rparr>))"
      using N(2) one by simp
    show "(length (filter P (t_runs t)) = 1) =
        (\<exists>r\<in>set (t_runs t). run_id r = (k, c) \<and> r_token r = token \<and> r_state r = Running \<and> now < r_lease r)"
      using one by (simp add: P_def)
  qed
qed

section \<open>Claiming\<close>

lemma joined_Some:
  "(s, Some r) \<in> set (joined_runs t) \<longleftrightarrow> s \<in> set (t_schedules t) \<and> r \<in> set (t_runs t) \<and> rkey r = skey s \<and> r_state r = Running"
  by (auto simp: joined_runs_def Let_def filter_empty_conv)

lemma joined_None:
  "(s, None) \<in> set (joined_runs t) \<longleftrightarrow> s \<in> set (t_schedules t) \<and> (\<forall>r\<in>set (t_runs t). rkey r = skey s \<longrightarrow> r_state r \<noteq> Running)"
  by (auto simp: joined_runs_def Let_def filter_empty_conv)

text \<open>An expired run goes to a new holder.\<close>

lemma renew_ok:
  fixes token :: string
  assumes ok: "tables_ok limits entries now taken finished t" and clk: "clock_ok limits now" and lim: "limits_ok limits"
    and r0: "r0 \<in> set (t_runs t)" "r_state r0 = Running" "r_lease r0 \<le> now" "r_attempts r0 < maxAttempts limits"
    and free: "length (active_runs now t) < maxConcurrent limits"
  defines "P \<equiv> \<lambda>r. run_id r = run_id r0"
    and "f \<equiv> \<lambda>r :: run_row. r\<lparr>r_token := token, r_attempts := Suc (r_attempts r), r_started := now,
               r_lease := now + int (leaseMilliseconds limits)\<rparr>"
  defines "t1 \<equiv> t\<lparr>t_runs := update_where P f (t_runs t)\<rparr>"
  shows "update_runs P f t = Inr t1" "tables_ok limits entries now taken finished t1"
proof -
  note T = tables_okD [OF ok]
  note R = runs_okD [OF T(4)] and L = limits_okD [OF lim]
  have only: "r = r0" if "r \<in> set (t_runs t)" "P r" for r
    using run_unique [OF T(4) that(1) r0(1)] that(2) by (simp add: P_def)
  have F: "run_id (f r) = run_id r" "r_state (f r) = r_state r" for r by (simp_all add: f_def)
  have row: "check_run (f r0) \<and> r_started (f r0) \<le> now \<and> r_attempts (f r0) \<le> maxAttempts limits"
    using R(3,4) [OF r0(1)] r0(2,4) clk L(4) by (simp add: check_run_def f_def clock_ok_def)
  then show "update_runs P f t = Inr t1" using only by (auto simp: update_runs_def t1_def list_ex_iff)
  let ?rs = "update_where P f (t_runs t)"
  have run: "running ?rs = update_where P f (running (t_runs t))"
  proof -
    have "running (update_where P f rs) = update_where P f (running rs)" for rs
      by (induction rs) (simp_all add: running_def update_where_def F)
    then show ?thesis .
  qed
  have rk: "rkey (f r) = rkey r" for r using F(1) by (simp add: rkey_run_id)
  have ids: "map run_id ?rs = map run_id (t_runs t)" "map rkey (running ?rs) = map rkey (running (t_runs t))"
    "map run_id (running ?rs) = map run_id (running (t_runs t))"
    unfolding run by (rule map_update_where, simp add: F rk)+
  then have idset: "run_id ` set (running ?rs) = run_id ` set (running (t_runs t))" by (metis list.set_map)
  have "check_run r \<and> r_started r \<le> now \<and> r_attempts r \<le> maxAttempts limits \<and> (r_state r \<noteq> Running \<longrightarrow> run_id r \<in> set finished)"
    if r: "r \<in> set ?rs" for r
  proof -
    obtain x where x: "x \<in> set (t_runs t)" "r = (if P x then f x else x)" using r unfolding set_update_where by blast
    show ?thesis
    proof (cases "P x")
      case True
      then show ?thesis using only [OF x(1)] x(2) row F r0(2) by simp
    next
      case False
      then show ?thesis using x R(3-6) by simp
    qed
  qed
  then have runs: "runs_ok limits now taken finished (t_runs t1)"
    unfolding runs_ok_def t1_def using R ids idset by simp
  have active: "length (active_runs now t1) \<le> maxConcurrent limits"
    using filter_update_one [of run_id "t_runs t" P "run_id r0" "\<lambda>r. r_state r = Running \<and> now < r_lease r" f] R(1) free
    by (simp add: active_runs_def t1_def P_def)
  have settled: "length (settled_runs k ?rs) \<le> historyLimit limits" for k
  proof -
    have "length (settled_runs k ?rs) \<le> length (settled_runs k (t_runs t))"
      unfolding settled_runs_def by (rule filter_update_le) (simp add: rk F)
    then show ?thesis using bounded_okD(2) [OF T(5), of k] by simp
  qed
  show "tables_ok limits entries now taken finished t1"
  proof (rule tables_okI)
    show "settings_ok limits entries taken t1" using T(1) by (simp add: t1_def settings_ok_def)
    show "schedule_ok now taken s" if "s \<in> set (t_schedules t1)" for s using that T(2) by (simp add: t1_def)
    show "skips_ok t1" using T(3) by (simp add: t1_def skips_ok_def)
    show "bounded_ok limits now t1"
      unfolding bounded_ok_def using active settled bounded_okD(3) [OF T(5)] by (simp add: t1_def)
  qed (rule runs)
qed

text \<open>A pending instant is taken: a run is opened and the schedule has none pending.\<close>

lemma taken_at_append: "taken_at (taken @ [(k, c)]) k' = (if k' = k then insert c (taken_at taken k') else taken_at taken k')"
  by (auto simp: taken_at_def)

lemma taking_ok:
  assumes "schedule_ok now taken s" and p: "s_pending s = Some p"
  shows "schedule_ok now (taken @ [(skey s, p)]) (s\<lparr>s_pending := None\<rparr>)"
proof -
  note S = schedule_okD [OF assms(1)]
  have "p \<notin> taken_at taken (skey s)" using S(6) [OF p] by blast
  moreover have "finite (slots s)" using S(1) by (simp add: check_schedule_def)
  then have "finite (taken_at taken (skey s))" using S(4) by (rule rev_finite_subset)
  moreover have "slots (s\<lparr>s_pending := None\<rparr>) = slots s" by (simp add: slots_def)
  moreover have "check_schedule (s\<lparr>s_pending := None\<rparr>)" using S(1) by (simp add: check_schedule_def)
  ultimately show ?thesis
    using S(2-4) S(5) [OF p] p by (simp add: schedule_ok_def taken_at_append pending_count_def)
qed

lemma open_ok:
  fixes token :: string
  assumes ok: "tables_ok limits entries now taken finished t" and clk: "clock_ok limits now" and lim: "limits_ok limits"
    and s: "s \<in> set (t_schedules t)" "s_pending s = Some p" "p \<le> now"
    and idle: "\<And>r. r \<in> set (t_runs t) \<Longrightarrow> rkey r = skey s \<Longrightarrow> r_state r \<noteq> Running"
    and free: "length (active_runs now t) < maxConcurrent limits"
  defines "r \<equiv> \<lparr>r_owner = s_owner s, r_cron = s_cron s, r_at = p, r_token = token, r_attempts = 1, r_started = now,
      r_lease = now + int (leaseMilliseconds limits), r_state = Running, r_finished = None, r_ok = None, r_skipped = None\<rparr>"
    and "f \<equiv> \<lambda>s :: schedule_row. s\<lparr>s_pending := None\<rparr>"
  defines "t1 \<equiv> t\<lparr>t_runs := t_runs t @ [r]\<rparr>"
    and "t2 \<equiv> t\<lparr>t_runs := t_runs t @ [r], t_schedules := update_where (\<lambda>s'. skey s' = skey s) f (t_schedules t)\<rparr>"
  shows "insert_run r t = Inr t1" "update_schedules (\<lambda>s'. skey s' = skey s) f t1 = Inr t2"
    "tables_ok limits entries now (taken @ [(skey s, p)]) finished t2" "(skey s, p) \<notin> run_id ` set (t_runs t)"
proof -
  note T = tables_okD [OF ok]
  note R = runs_okD [OF T(4)] and L = limits_okD [OF lim]
  note S = schedule_okD [OF T(2) [OF s(1)]]
  have d: "distinct (map skey (t_schedules t))" using T(1) by (simp add: settings_ok_def)
  have id: "run_id r = (skey s, p)" "rkey r = skey s" by (simp_all add: run_id_def rkey_def skey_def r_def)
  have "p \<notin> taken_at taken (skey s)" using S(6) [OF s(2)] by blast
  then have new: "(skey s, p) \<notin> set taken" by (simp add: taken_at_def)
  then show absent: "(skey s, p) \<notin> run_id ` set (t_runs t)" using run_ids_taken [OF T(4)] by (metis imageE)
  have chk: "check_run r"
    using S(1) s clk by (simp add: check_run_def check_schedule_def r_def clock_ok_def)
  show "insert_run r t = Inr t1"
    using chk absent id idle by (auto simp: insert_run_def t1_def list_ex_iff)
  have f: "skey (f s') = skey s'" for s' by (simp add: f_def)
  have fs: "schedule_ok now (taken @ [(skey s, p)]) (f s)" unfolding f_def by (rule taking_ok [OF T(2) [OF s(1)] s(2)])
  have one: "s' = s" if "s' \<in> set (t_schedules t)" "skey s' = skey s" for s'
    using d that s(1) by (simp add: distinct_map inj_on_def)
  have "\<not> list_ex (\<lambda>s'. skey s' = skey s \<and> \<not> check_schedule (f s')) (t_schedules t1)"
    using one schedule_okD(1) [OF fs] by (auto simp: list_ex_iff t1_def)
  then show "update_schedules (\<lambda>s'. skey s' = skey s) f t1 = Inr t2"
    by (simp add: update_schedules_def t1_def t2_def)
  have set2: "set (t_schedules t2) = insert (f s) {s' \<in> set (t_schedules t). skey s' \<noteq> skey s}"
    using key_replaced [OF d s(1)] by (simp add: t2_def)
  have keys: "skey ` set (t_schedules t2) = skey ` set (t_schedules t)"
  proof -
    have "map skey (t_schedules t2) = map skey (t_schedules t)" unfolding t2_def by (simp add: map_update_where [where g = skey and f = f, OF f])
    then show ?thesis by (metis list.set_map)
  qed
  have run: "running (t_runs t2) = running (t_runs t) @ [r]" by (simp add: t2_def running_def r_def)
  show "tables_ok limits entries now (taken @ [(skey s, p)]) finished t2"
  proof (rule tables_okI)
    have "settings_ok limits entries taken t2"
      using settings_updated [where t' = "t\<lparr>t_runs := t_runs t @ [r]\<rparr>", OF T(1) f] by (simp add: t2_def)
    moreover have "skey s \<in> skey ` set (t_schedules t2)" using s(1) keys by simp
    ultimately show "settings_ok limits entries (taken @ [(skey s, p)]) t2" by (simp add: settings_ok_def)
    show "schedule_ok now (taken @ [(skey s, p)]) s'" if "s' \<in> set (t_schedules t2)" for s'
    proof (cases "skey s' = skey s")
      case True
      then have "s' = f s" using that set2 by auto
      then show ?thesis using fs by simp
    next
      case False
      then have "s' \<in> set (t_schedules t)" using that set2 f by auto
      then show ?thesis using T(2) False by (simp add: schedule_ok_def taken_at_append)
    qed
    have "\<exists>s'\<in>set (t_schedules t2). skey s' = kkey y \<and> k_through y \<le> s_cursor s'" if y: "y \<in> set (t_skips t)" for y
    proof -
      obtain s' where "s' \<in> set (t_schedules t)" "skey s' = kkey y \<and> k_through y \<le> s_cursor s'"
        using T(3) y by (auto simp: skips_ok_def)
      then show ?thesis using set2 one f by (cases "skey s' = skey s") (auto simp: f_def)
    qed
    then show "skips_ok t2" using T(3) by (simp add: skips_ok_def t2_def)
    have "distinct (map run_id (t_runs t2))" using R(1) absent id by (simp add: t2_def)
    moreover have "distinct (map rkey (running (t_runs t2)))"
      unfolding run using R(2) idle id by (auto simp: running_set)
    moreover have "(skey s, p) \<notin> set finished" using new R(9) by auto
    ultimately show "runs_ok limits now (taken @ [(skey s, p)]) finished (t_runs t2)"
      unfolding runs_ok_def run using R chk L(3) new id(1) by (auto simp: t2_def r_def)
    show "bounded_ok limits now t2"
      unfolding bounded_ok_def
    proof (intro conjI allI)
      show "length (active_runs now t2) \<le> maxConcurrent limits"
        using free by (simp add: active_runs_def t2_def)
      show "length (settled_runs k (t_runs t2)) \<le> historyLimit limits" for k
        using bounded_okD(2) [OF T(5), of k] by (simp add: settled_runs_def t2_def r_def)
      show "length (filter (\<lambda>x. kkey x = k) (t_skips t2)) \<le> historyLimit limits" for k
        using bounded_okD(3) [OF T(5), of k] by (simp add: t2_def)
    qed
  qed
qed

text \<open>What a claim's answer adds to the histories.\<close>

definition newly_taken :: "cron_tables \<Rightarrow> cron_claim \<Rightarrow> (cron_key \<times> int) list" where
  "newly_taken t res = (case res of CronClaimed k c _ \<Rightarrow> if (k, c) \<in> run_id ` set (t_runs t) then [] else [(k, c)] | _ \<Rightarrow> [])"

definition exhausted_slots :: "cron_claim \<Rightarrow> (cron_key \<times> int) list" where
  "exhausted_slots res = (case res of CronExhausted k c \<Rightarrow> [(k, c)] | _ \<Rightarrow> [])"

text \<open>The answer is about this schedule or run.\<close>

definition answers :: "cron_claim \<Rightarrow> string \<Rightarrow> schedule_row \<times> run_row option \<Rightarrow> bool" where
  "answers res token x \<longleftrightarrow>
     res = CronExhausted (skey (fst x)) (claim_time x) \<or> res = CronClaimed (skey (fst x)) (claim_time x) token"

lemma claim_row_ok:
  assumes ok: "tables_ok limits entries now taken finished t" and clk: "clock_ok limits now" and lim: "limits_ok limits"
    and x: "x \<in> set (joined_runs t)" "claimable now x" and free: "length (active_runs now t) < maxConcurrent limits"
  obtains res t' where "claim_row limits now token x t = Inr (res, t')"
    "tables_ok limits entries now (taken @ newly_taken t res) (finished @ exhausted_slots res) t'" "answers res token x"
proof -
  note T = tables_okD [OF ok]
  obtain s y where xs: "x = (s, y)" by (cases x)
  show thesis
  proof (cases y)
    case None
    then have s: "s \<in> set (t_schedules t)" "\<And>r. r \<in> set (t_runs t) \<Longrightarrow> rkey r = skey s \<Longrightarrow> r_state r \<noteq> Running"
      using x(1) xs by (simp_all add: joined_None)
    obtain p where p: "s_pending s = Some p" "p \<le> now"
      using x(2) None xs by (auto simp: claimable_def split: option.splits)
    note N = open_ok [OF ok clk lim s(1) p s(2) free]
    define k where "k = skey s"
    have sk: "s_owner s = fst k" "s_cron s = snd k" by (simp_all add: k_def skey_def)
    have ct: "claim_time x = p" using None p xs by (simp add: claim_time_def)
    show thesis
    proof (rule that)
      show "claim_row limits now token x t = Inr (CronClaimed (skey s) p token, t\<lparr>t_runs := t_runs t @ [\<lparr>r_owner = s_owner s, r_cron = s_cron s,
          r_at = p, r_token = token, r_attempts = 1, r_started = now, r_lease = now + int (leaseMilliseconds limits), r_state = Running,
          r_finished = None, r_ok = None, r_skipped = None\<rparr>], t_schedules := update_where (\<lambda>s'. skey s' = skey s) (\<lambda>s. s\<lparr>s_pending := None\<rparr>) (t_schedules t)\<rparr>)"
        using N(1,2) [of token] ct xs None by (simp add: claim_row_def Let_def sk k_def [symmetric])
      show "answers (CronClaimed (skey s) p token) token x" using ct xs by (simp add: answers_def)
    qed (use N(3,4) in \<open>simp add: newly_taken_def exhausted_slots_def\<close>)
  next
    case (Some r)
    then have r: "r \<in> set (t_runs t)" "rkey r = skey s" "r_state r = Running" using x(1) xs by (simp_all add: joined_Some)
    have exp: "r_lease r \<le> now" using x(2) Some xs by (simp add: claimable_def)
    have ct: "claim_time x = r_at r" using Some xs by (simp add: claim_time_def)
    have id: "run_id r = (skey s, r_at r)" using r(2) by (simp add: run_id_def)
    show thesis
    proof (cases "maxAttempts limits \<le> r_attempts r")
      case True
      define f where "f = (\<lambda>r :: run_row. r\<lparr>r_state := LeaseExhausted, r_finished := Some now\<rparr>)"
      have f: "finishes now f" by (simp add: finishes_def f_def)
      have P: "run_id r' = (skey s, r_at r) \<and> r_state r' = Running" if "r' \<in> set (t_runs t)" "run_id r' = (skey s, r_at r)" for r'
        using run_unique [OF T(4) that(1) r(1)] that(2) id r(3) by simp
      have "now \<le> MAX_SAFE" using clk by (simp add: clock_ok_def)
      note N = finish_ok [where P = "\<lambda>r'. run_id r' = (skey s, r_at r)", OF ok this f P]
      show thesis
      proof (rule that)
        show "claim_row limits now token x t = Inr (CronExhausted (skey s) (r_at r),
            prune limits (skey s) (t\<lparr>t_runs := update_where (\<lambda>r'. run_id r' = (skey s, r_at r)) f (t_runs t)\<rparr>))"
          using N(1) ct xs Some True by (simp add: claim_row_def Let_def f_def [symmetric])
        show "answers (CronExhausted (skey s) (r_at r)) token x" using ct xs by (simp add: answers_def)
        have "\<exists>r'\<in>set (t_runs t). run_id r' = (skey s, r_at r)" using r(1) id by blast
        then show "tables_ok limits entries now (taken @ newly_taken t (CronExhausted (skey s) (r_at r)))
            (finished @ exhausted_slots (CronExhausted (skey s) (r_at r)))
            (prune limits (skey s) (t\<lparr>t_runs := update_where (\<lambda>r'. run_id r' = (skey s, r_at r)) f (t_runs t)\<rparr>))"
          using N(2) by (simp add: newly_taken_def exhausted_slots_def)
      qed
    next
      case False
      then have "r_attempts r < maxAttempts limits" by simp
      note N = renew_ok [OF ok clk lim r(1,3) exp this free, of token]
      show thesis
      proof (rule that)
        show "claim_row limits now token x t = Inr (CronClaimed (skey s) (r_at r) token,
            t\<lparr>t_runs := update_where (\<lambda>r'. run_id r' = run_id r) (\<lambda>r. r\<lparr>r_token := token, r_attempts := Suc (r_attempts r),
              r_started := now, r_lease := now + int (leaseMilliseconds limits)\<rparr>) (t_runs t)\<rparr>)"
          using N(1) ct xs Some False id by (simp add: claim_row_def Let_def)
        show "answers (CronClaimed (skey s) (r_at r) token) token x" using ct xs by (simp add: answers_def)
        have "(skey s, r_at r) \<in> run_id ` set (t_runs t)" using r(1) id by (metis imageI)
        then show "tables_ok limits entries now (taken @ newly_taken t (CronClaimed (skey s) (r_at r) token))
            (finished @ exhausted_slots (CronClaimed (skey s) (r_at r) token))
            (t\<lparr>t_runs := update_where (\<lambda>r'. run_id r' = run_id r) (\<lambda>r. r\<lparr>r_token := token, r_attempts := Suc (r_attempts r),
              r_started := now, r_lease := now + int (leaseMilliseconds limits)\<rparr>) (t_runs t)\<rparr>)"
          using N(2) by (simp add: newly_taken_def exhausted_slots_def)
      qed
    qed
  qed
qed

lemma hd_sort_key_least:
  assumes "sort_key f xs = y # ys" "x \<in> set xs"
  shows "y \<in> set xs" "f y \<le> f x"
proof -
  have "set xs = set (y # ys)" using assms(1) by (metis set_sort)
  moreover have "sorted (map f (y # ys))" using assms(1) by (metis sorted_sort_key)
  ultimately show "y \<in> set xs" "f y \<le> f x" using assms(2) by auto
qed

lemma cron_claim_ok:
  assumes ok: "tables_ok limits entries now taken finished t" and inv: "inventory_ok entries"
    and clk: "clock_ok limits now" and lim: "limits_ok limits"
  obtains res t' where "cron_claim limits entries now token t = (Inr res, t')"
    "tables_ok limits entries now (taken @ newly_taken t res) (finished @ exhausted_slots res) t'"
    "\<And>x. length (active_runs now t) < maxConcurrent limits \<Longrightarrow> x \<in> set (joined_runs t) \<Longrightarrow> claimable now x \<Longrightarrow>
       \<exists>y\<in>set (joined_runs t). claimable now y \<and> (claim_time y, skey (fst y)) \<le> (claim_time x, skey (fst x)) \<and> answers res token y"
proof -
  note T = tables_okD [OF ok]
  have pol: "t_policy t = Some (limits_policy limits)" using T(1) by (simp add: settings_ok_def)
  let ?key = "\<lambda>x. (claim_time x, skey (fst x))"
  let ?xs = "filter (claimable now) (joined_runs t)"
  have unfold: "cron_claim limits entries now token t =
      (case (if maxConcurrent limits \<le> length (active_runs now t) then Inr (CronCapacity, t)
             else case sort_key ?key ?xs of [] \<Rightarrow> Inr (CronEmpty, t) | x # _ \<Rightarrow> claim_row limits now token x t) of
         Inl e \<Rightarrow> (Inl e, t) | Inr (r, t') \<Rightarrow> (Inr r, t'))"
    using pol by (simp add: cron_claim_def cron_transact_def schedules_read [OF T(1) inv])
  have same: "tables_ok limits entries now (taken @ newly_taken t res) (finished @ exhausted_slots res) t"
    if "res = CronCapacity \<or> res = CronEmpty" for res
    using ok that by (auto simp: newly_taken_def exhausted_slots_def)
  show thesis
  proof (cases "maxConcurrent limits \<le> length (active_runs now t)")
    case True
    then show thesis using unfold same by (intro that [of CronCapacity t]) simp_all
  next
    case False
    show thesis
    proof (cases "sort_key ?key ?xs")
      case Nil
      then have "set ?xs = {}" by (metis empty_set set_sort)
      then have "x \<in> set (joined_runs t) \<Longrightarrow> \<not> claimable now x" for x by (cases x) auto
      moreover have "cron_claim limits entries now token t = (Inr CronEmpty, t)" using unfold False Nil by simp
      ultimately show thesis using same by (intro that [of CronEmpty t]) blast+
    next
      case (Cons y ys)
      then have "y \<in> set (sort_key ?key ?xs)" by simp
      then have y: "y \<in> set (joined_runs t)" "claimable now y" by simp_all
      from False have free: "length (active_runs now t) < maxConcurrent limits" by simp
      obtain res t' where r: "claim_row limits now token y t = Inr (res, t')"
        "tables_ok limits entries now (taken @ newly_taken t res) (finished @ exhausted_slots res) t'" "answers res token y"
        by (rule claim_row_ok [OF ok clk lim y free])
      show thesis
      proof (rule that [OF _ r(2)])
        show "cron_claim limits entries now token t = (Inr res, t')" using unfold False Cons r(1) by simp
        show "\<exists>y\<in>set (joined_runs t). claimable now y \<and> (claim_time y, skey (fst y)) \<le> (claim_time x, skey (fst x)) \<and> answers res token y"
          if x: "x \<in> set (joined_runs t)" "claimable now x" for x
        proof -
          have "x \<in> set ?xs" using x by simp
          then have "?key y \<le> ?key x" by (rule hd_sort_key_least(2) [OF Cons])
          then show ?thesis using y r(3) by blast
        qed
      qed
    qed
  qed
qed

end
