(* ===== verification/Pg_Cron_Runs.thy ===== *)
theory Pg_Cron_Runs
  imports Pg_Cron_Claim
begin

text \<open>
  The cron in operation: processes start, register, plan, claim, settle and crash in any order on
  the shared tables while the database's clock runs on, and what holds in every state they reach.
\<close>

section \<open>The steps\<close>

record cron_system =
  cs_tables :: cron_tables
  cs_now :: int
  cs_held :: "(cron_key \<times> int \<times> string) list"
  cs_taken :: "(cron_key \<times> int) list"
  cs_finished :: "(cron_key \<times> int) list"

definition claim_held :: "cron_claim \<Rightarrow> (cron_key \<times> int \<times> string) list" where
  "claim_held res = (case res of CronClaimed k c token \<Rightarrow> [(k, c, token)] | _ \<Rightarrow> [])"

definition settled_slots :: "cron_failure + bool \<Rightarrow> cron_key \<Rightarrow> int \<Rightarrow> (cron_key \<times> int) list" where
  "settled_slots res k c = (if res = Inr True then [(k, c)] else [])"

inductive cron_step :: "NativeCronLimits \<Rightarrow> inventory \<Rightarrow> cron_system \<Rightarrow> cron_system \<Rightarrow> bool" for limits entries where
  tick: "cs_now s \<le> now \<Longrightarrow> clock_ok limits now \<Longrightarrow> cron_step limits entries s (s\<lparr>cs_now := now\<rparr>)"
| starts: "createPgCronScheduler ds ls (cs_tables s) = (res, t) \<Longrightarrow> cron_step limits entries s (s\<lparr>cs_tables := t\<rparr>)"
| registers: "register limits entries start (cs_tables s) = (res', t) \<Longrightarrow> cron_step limits entries s (s\<lparr>cs_tables := t\<rparr>)"
| plans: "plan limits entries (cs_now s) (cs_tables s) = (planned, t) \<Longrightarrow> cron_step limits entries s (s\<lparr>cs_tables := t\<rparr>)"
| claims: "cron_claim limits entries (cs_now s) token (cs_tables s) = (Inr claimed, t) \<Longrightarrow>
    cron_step limits entries s (s\<lparr>cs_tables := t, cs_held := claim_held claimed @ cs_held s,
      cs_taken := cs_taken s @ newly_taken (cs_tables s) claimed, cs_finished := cs_finished s @ exhausted_slots claimed\<rparr>)"
| claim_fails: "cron_claim limits entries (cs_now s) token (cs_tables s) = (Inl e, t) \<Longrightarrow> cron_step limits entries s (s\<lparr>cs_tables := t\<rparr>)"
| settles: "(k, c, token) \<in> set (cs_held s) \<Longrightarrow>
    cron_settle limits k c token consumed aborted (cs_now s) (cs_tables s) = (settled, t) \<Longrightarrow>
    cron_step limits entries s (s\<lparr>cs_tables := t, cs_held := remove1 (k, c, token) (cs_held s),
      cs_finished := cs_finished s @ settled_slots settled k c\<rparr>)"
| crashes: "h \<in> set (cs_held s) \<Longrightarrow> cron_step limits entries s (s\<lparr>cs_held := remove1 h (cs_held s)\<rparr>)"

inductive_cases cron_stepE: "cron_step limits entries s s'"

abbreviation cron_steps where "cron_steps limits entries \<equiv> (cron_step limits entries)\<^sup>*\<^sup>*"

text \<open>The first process starts on the tables the migration creates.\<close>

definition new_tables :: cron_tables where
  "new_tables = \<lparr>t_policy = None, t_schedules = [], t_runs = [], t_skips = []\<rparr>"

definition cron_start :: "NativeCronLimits \<Rightarrow> inventory \<Rightarrow> cron_system \<Rightarrow> bool" where
  "cron_start limits entries s \<longleftrightarrow>
     (\<exists>definitions. createPgCronScheduler definitions limits new_tables = (Inr entries, cs_tables s)) \<and>
     clock_ok limits (cs_now s) \<and> cs_held s = [] \<and> cs_taken s = [] \<and> cs_finished s = []"

section \<open>The invariant of the steps\<close>

definition system_ok :: "NativeCronLimits \<Rightarrow> inventory \<Rightarrow> cron_system \<Rightarrow> bool" where
  "system_ok limits entries s \<longleftrightarrow>
     limits_ok limits \<and> inventory_ok entries \<and> clock_ok limits (cs_now s) \<and>
     tables_ok limits entries (cs_now s) (cs_taken s) (cs_finished s) (cs_tables s)"

lemma system_okD:
  assumes "system_ok limits entries s"
  shows "limits_ok limits" "inventory_ok entries" "clock_ok limits (cs_now s)"
    "tables_ok limits entries (cs_now s) (cs_taken s) (cs_finished s) (cs_tables s)"
    "0 \<le> cs_now s" "cs_now s < MAX_SAFE"
proof -
  show l: "limits_ok limits" and "inventory_ok entries" and c: "clock_ok limits (cs_now s)" and
    "tables_ok limits entries (cs_now s) (cs_taken s) (cs_finished s) (cs_tables s)"
    using assms by (simp_all add: system_ok_def)
  show "0 \<le> cs_now s" "cs_now s < MAX_SAFE" using limits_okD(2) [OF l] c by (simp_all add: clock_ok_def)
qed

lemma built_inventory_ok: "build_inventory entries ds = Inr entries' \<Longrightarrow> inventory_ok entries \<Longrightarrow> inventory_ok entries'"
proof (induction ds arbitrary: entries)
  case (Cons d ds)
  obtain os where p: "parseNativeCron (snd d) = Inr os" "map_of entries d = None" "build_inventory (entries @ [(d, os)]) ds = Inr entries'"
    using Cons.prems(1) by (auto split: if_splits sum.splits)
  have "inventory_ok (entries @ [(d, os)])" using Cons.prems(2) p(1,2) by (auto simp: inventory_ok_def map_of_eq_None_iff)
  then show ?case using Cons.IH p(3) by blast
qed simp

lemma cron_start_ok:
  assumes "cron_start limits entries s"
  shows "system_ok limits entries s"
proof -
  obtain ds where ds: "createPgCronScheduler ds limits new_tables = (Inr entries, cs_tables s)" and
    clk: "clock_ok limits (cs_now s)" and h: "cs_taken s = []" "cs_finished s = []"
    using assms by (auto simp: cron_start_def)
  have lim: "cron_limit_error limits = None" and b: "build_inventory [] ds = Inr entries"
    and t: "cs_tables s = new_tables\<lparr>t_policy := Some (limits_policy limits)\<rparr>"
    using ds by (auto simp: createPgCronScheduler_def new_tables_def split: option.splits if_splits sum.splits)
  have "inventory_ok entries" by (rule built_inventory_ok [OF b]) (simp add: inventory_ok_def)
  moreover have "tables_ok limits entries (cs_now s) [] [] (cs_tables s)"
    by (simp add: tables_ok_def t new_tables_def settings_ok_def skips_ok_def runs_ok_def running_def bounded_ok_def
        active_runs_def settled_runs_def)
  ultimately show ?thesis using lim clk h by (simp add: system_ok_def limits_ok_def)
qed

lemma cron_tick_ok:
  assumes ok: "tables_ok limits entries now taken finished t" and later: "now \<le> now'"
  shows "tables_ok limits entries now' taken finished t"
proof (rule tables_okI)
  note T = tables_okD [OF ok]
  show "settings_ok limits entries taken t" "skips_ok t" using T by simp_all
  show "schedule_ok now' taken s" if "s \<in> set (t_schedules t)" for s
    using T(2) [OF that] later by (auto simp: schedule_ok_def)
  show "runs_ok limits now' taken finished (t_runs t)" using T(4) later by (fastforce simp: runs_ok_def)
  have "length (active_runs now' t) \<le> length (active_runs now t)"
  proof -
    have "length (filter (\<lambda>r. r_state r = Running \<and> now' < r_lease r) rs) \<le> length (filter (\<lambda>r. r_state r = Running \<and> now < r_lease r) rs)" for rs
      by (induction rs) (use later in auto)
    then show ?thesis by (simp add: active_runs_def)
  qed
  then show "bounded_ok limits now' t" using T(5) by (simp add: bounded_ok_def)
qed

lemma restart_keeps:
  assumes "createPgCronScheduler ds ls t = (res, t')" and "t_policy t \<noteq> None"
  shows "t' = t"
  using assms by (auto simp: createPgCronScheduler_def split: option.splits if_splits sum.splits)

lemma cron_step_ok:
  assumes "cron_step limits entries s s'" and ok: "system_ok limits entries s"
  shows "system_ok limits entries s'"
proof -
  note S = system_okD [OF ok]
  from assms(1) show ?thesis
  proof (cases rule: cron_step.cases)
    case (tick now)
    have "tables_ok limits entries now (cs_taken s) (cs_finished s) (cs_tables s)" by (rule cron_tick_ok [OF S(4) tick(2)])
    then show ?thesis using S(1,2) tick(1,3) by (simp add: system_ok_def)
  next
    case (starts ds ls res t)
    have "t_policy (cs_tables s) \<noteq> None" using tables_okD(1) [OF S(4)] by (simp add: settings_ok_def)
    then have "t = cs_tables s" using starts(2) by (metis restart_keeps)
    then show ?thesis using starts(1) ok by simp
  next
    case (registers start res t)
    then show ?thesis using S(1-3) cron_register_ok [OF S(4,2) registers(2)] by (simp add: system_ok_def)
  next
    case (plans planned t)
    obtain p t' where "plan limits entries (cs_now s) (cs_tables s) = (Inr p, t')"
      "tables_ok limits entries (cs_now s) (cs_taken s) (cs_finished s) t'" by (rule cron_plan_ok [OF S(4,2,5,6)])
    then show ?thesis using plans S(1-3) by (simp add: system_ok_def)
  next
    case (claims token claimed t)
    obtain res t' where "cron_claim limits entries (cs_now s) token (cs_tables s) = (Inr res, t')"
      "tables_ok limits entries (cs_now s) (cs_taken s @ newly_taken (cs_tables s) res) (cs_finished s @ exhausted_slots res) t'"
      by (rule cron_claim_ok [OF S(4,2,3,1)])
    then show ?thesis using claims S(1-3) by (simp add: system_ok_def)
  next
    case (claim_fails token e t)
    obtain res t' where "cron_claim limits entries (cs_now s) token (cs_tables s) = (Inr res, t')"
      by (rule cron_claim_ok [OF S(4,2,3,1)])
    then show ?thesis using claim_fails(2) by simp
  next
    case (settles k c token consumed aborted settled t)
    have "cs_now s \<le> MAX_SAFE" using S(6) by simp
    then obtain b t' where "cron_settle limits k c token consumed aborted (cs_now s) (cs_tables s) = (Inr b, t')"
      "tables_ok limits entries (cs_now s) (cs_taken s) (cs_finished s @ (if b then [(k, c)] else [])) t'"
      using cron_settle_ok [OF S(4)] by metis
    then show ?thesis using settles S(1-3) by (simp add: system_ok_def settled_slots_def)
  next
    case (crashes h)
    then show ?thesis using ok by (simp add: system_ok_def)
  qed
qed

lemma reachable_ok:
  assumes "cron_start limits entries s0" and "cron_steps limits entries s0 s"
  shows "system_ok limits entries s"
  using assms(2)
proof (induction rule: rtranclp_induct)
  case base
  show ?case by (rule cron_start_ok [OF assms(1)])
next
  case (step s s')
  show ?case by (rule cron_step_ok [OF step(2,3)])
qed

section \<open>Properties\<close>

text \<open>
  C15. Every instant an expression denotes between its schedule's start and its cursor is accounted
  for, in every state the processes reach: the lifetime count of skipped ones, the one pending and
  those ever taken for execution add up to exactly the number of those instants.
\<close>

theorem every_instant_accounted:
  assumes "cron_start limits entries s0" and "cron_steps limits entries s0 s" and "sch \<in> set (t_schedules (cs_tables s))"
  shows "int (card {x \<in> cron_instants (s_cron sch). s_start sch \<le> x \<and> x \<le> s_cursor sch}) =
         s_skipped sch + (if s_pending sch = None then 0 else 1) +
         int (card {x. ((s_owner sch, s_cron sch), x) \<in> set (cs_taken s)})"
proof -
  have "schedule_ok (cs_now s) (cs_taken s) sch"
    using tables_okD(2) [OF system_okD(4) [OF reachable_ok [OF assms(1,2)]] assms(3)] .
  from schedule_okD(3) [OF this] show ?thesis
    by (simp add: slots_def pending_count_def taken_at_def skey_def)
qed

text \<open>
  C16. Every instant taken for execution is one its expression denotes, is taken once whatever
  processes compete for it or crash, and is finished at most once; until it is finished a running
  row holds it, so none is lost.
\<close>

theorem taken_once_finished_once:
  assumes "cron_start limits entries s0" and "cron_steps limits entries s0 s"
  shows "distinct (cs_taken s) \<and> distinct (cs_finished s) \<and> set (cs_finished s) \<subseteq> set (cs_taken s) \<and>
         (\<forall>(k, x)\<in>set (cs_taken s). x \<in> cron_instants (snd k) \<and>
            ((k, x) \<notin> set (cs_finished s) \<longleftrightarrow> (\<exists>r\<in>set (t_runs (cs_tables s)). r_state r = Running \<and> run_id r = (k, x))))"
proof -
  note T = tables_okD [OF system_okD(4) [OF reachable_ok [OF assms]]]
  note R = runs_okD [OF T(4)]
  have "x \<in> cron_instants (snd k)" if kx: "(k, x) \<in> set (cs_taken s)" for k x
  proof -
    have "k \<in> skey ` set (t_schedules (cs_tables s))" using T(1) kx by (force simp: settings_ok_def)
    then obtain sch where "sch \<in> set (t_schedules (cs_tables s))" "k = skey sch" by blast
    then have "x \<in> slots sch" using schedule_okD(4) [OF T(2)] kx by (auto simp: taken_at_def)
    then show ?thesis using \<open>k = skey sch\<close> by (simp add: slots_def skey_def)
  qed
  moreover have "(k, x) \<notin> set (cs_finished s) \<longleftrightarrow> (\<exists>r\<in>set (t_runs (cs_tables s)). r_state r = Running \<and> run_id r = (k, x))"
    if "(k, x) \<in> set (cs_taken s)" for k x
  proof -
    have "(k, x) \<notin> set (cs_finished s) \<longleftrightarrow> (k, x) \<in> run_id ` set (running (t_runs (cs_tables s)))"
      using R(9,10) that by blast
    then show ?thesis by (force simp: running_def)
  qed
  ultimately have "\<forall>(k, x)\<in>set (cs_taken s). x \<in> cron_instants (snd k) \<and>
      ((k, x) \<notin> set (cs_finished s) \<longleftrightarrow> (\<exists>r\<in>set (t_runs (cs_tables s)). r_state r = Running \<and> run_id r = (k, x)))"
    by blast
  moreover have "set (cs_finished s) \<subseteq> set (cs_taken s)" using R(9) by blast
  ultimately show ?thesis using R(7,8) by blast
qed

text \<open>
  C19. At most \<open>maxConcurrent\<close> runs hold a lease, a schedule has at most one running row, a run is
  attempted at most \<open>maxAttempts\<close> times, and a schedule keeps at most \<open>historyLimit\<close> settled runs
  and as many receipts of skipped instants.
\<close>

theorem cron_bounds:
  assumes "cron_start limits entries s0" and "cron_steps limits entries s0 s"
  shows "length (active_runs (cs_now s) (cs_tables s)) \<le> maxConcurrent limits \<and>
         length (filter (\<lambda>r. rkey r = k \<and> r_state r = Running) (t_runs (cs_tables s))) \<le> 1 \<and>
         list_all (\<lambda>r. 1 \<le> r_attempts r \<and> r_attempts r \<le> maxAttempts limits) (t_runs (cs_tables s)) \<and>
         length (settled_runs k (t_runs (cs_tables s))) \<le> historyLimit limits \<and>
         length (filter (\<lambda>x. kkey x = k) (t_skips (cs_tables s))) \<le> historyLimit limits"
proof -
  note T = tables_okD [OF system_okD(4) [OF reachable_ok [OF assms]]]
  note R = runs_okD [OF T(4)]
  have "length (filter (\<lambda>r. rkey r = k) rs) \<le> 1" if "distinct (map rkey rs)" for rs
    using that
  proof (induction rs)
    case (Cons r rs)
    have "filter (\<lambda>r. rkey r = k) rs = []" if "rkey r = k"
      unfolding filter_empty_conv using that Cons.prems by (metis distinct.simps(2) image_eqI list.simps(9) set_map)
    then show ?case using Cons by (cases "rkey r = k") simp_all
  qed simp
  from this [OF R(2)] have "length (filter (\<lambda>r. rkey r = k \<and> r_state r = Running) (t_runs (cs_tables s))) \<le> 1"
    by (simp add: running_def conj_commute)
  moreover have "list_all (\<lambda>r. 1 \<le> r_attempts r \<and> r_attempts r \<le> maxAttempts limits) (t_runs (cs_tables s))"
    using R(3,5) by (simp add: list_all_iff check_run_def)
  ultimately show ?thesis using bounded_okD [OF T(5)] by blast
qed


section \<open>A run of the cron\<close>

definition sample_limits :: NativeCronLimits where
  "sample_limits = \<lparr>maxConcurrent = 2, leaseMilliseconds = 60000, executionTimeoutMillis = 30000, drainTimeoutMillis = 1000,
     maxAttempts = 3, historyLimit = 10\<rparr>"

definition sample_key :: cron_key where "sample_key = (''api'', ''0 0 * * *'')"

definition sample_entries :: inventory where "sample_entries = [(sample_key, [0])]"

definition sample_tables :: "schedule_row list \<Rightarrow> run_row list \<Rightarrow> skip_row list \<Rightarrow> cron_tables" where
  "sample_tables ss rs ks = \<lparr>t_policy = Some (limits_policy sample_limits), t_schedules = ss, t_runs = rs, t_skips = ks\<rparr>"

definition sample_schedule :: "int \<Rightarrow> int option \<Rightarrow> int \<Rightarrow> schedule_row" where
  "sample_schedule cursor pending skipped =
     \<lparr>s_owner = ''api'', s_cron = ''0 0 * * *'', s_start = 0, s_cursor = cursor, s_pending = pending, s_skipped = skipped\<rparr>"

definition sample_skip :: skip_row where
  "sample_skip = \<lparr>k_owner = ''api'', k_cron = ''0 0 * * *'', k_through = 90000000, k_first = 0, k_last = 0, k_slots = 1\<rparr>"

definition sample_run :: "run_state \<Rightarrow> int option \<Rightarrow> run_row" where
  "sample_run st fin =
     \<lparr>r_owner = ''api'', r_cron = ''0 0 * * *'', r_at = 86400000, r_token = ''token'', r_attempts = 1, r_started = 90000000,
      r_lease = 90060000, r_state = st, r_finished = fin, r_ok = None, r_skipped = None\<rparr>"

lemmas cron_sample_defs = sample_limits_def sample_key_def sample_entries_def sample_tables_def sample_schedule_def sample_skip_def
  sample_run_def new_tables_def limits_policy_def

lemma cron_sample_created: "createPgCronScheduler [sample_key] sample_limits new_tables = (Inr sample_entries, sample_tables [] [] [])"
  using sample_cron by (simp add: createPgCronScheduler_def cron_limit_error_def cron_sample_defs)

lemma cron_sample_registered:
  "register sample_limits sample_entries (js_int 0) (sample_tables [] [] []) = (Inr (), sample_tables [sample_schedule (-1) None 0] [] [])"
  by (simp add: register_def cron_transact_def cron_schedules_def Let_def check_schedule_def skey_def MAX_SAFE_def cron_sample_defs)

lemma cron_sample_planned:
  "plan sample_limits sample_entries 90000000 (sample_tables [sample_schedule (-1) None 0] [] []) =
     (Inr [\<lparr>pl_owner = ''api'', pl_cron = ''0 0 * * *'', pl_at = 86400000, pl_skipped = 1\<rparr>],
      sample_tables [sample_schedule 90000000 (Some 86400000) 1] [] [sample_skip])"
proof -
  have w: "cron_window [0] (js_int (-1)) (js_int 90000000) =
      Inr \<lparr>cw_count = 2, cw_first = Some 0, cw_last = Some 86400000, cw_previous = Some 0\<rparr>"
    by (simp add: cron_window_def countThrough_def occurrence_def MAX_SAFE_def DAY_def MINUTE_def)
  show ?thesis
    by (simp add: plan_def cron_transact_def cron_schedules_def Let_def plan_row_def w insert_skip_def check_skip_def skip_id_def
        kkey_def update_schedules_def update_where_def check_schedule_def skey_def prune_def beyond_newest_def settled_runs_def
        MAX_SAFE_def cron_sample_defs)
qed

lemma cron_sample_claimed:
  "cron_claim sample_limits sample_entries 90000000 ''token'' (sample_tables [sample_schedule 90000000 (Some 86400000) 1] [] [sample_skip]) =
     (Inr (CronClaimed sample_key 86400000 ''token''),
      sample_tables [sample_schedule 90000000 None 1] [sample_run Running None] [sample_skip])"
  by (simp add: cron_claim_def cron_transact_def cron_schedules_def Let_def active_runs_def joined_runs_def claimable_def claim_time_def
      claim_row_def insert_run_def check_run_def run_id_def rkey_def update_schedules_def update_where_def check_schedule_def skey_def
      MAX_SAFE_def cron_sample_defs)

lemma cron_sample_settled:
  "cron_settle sample_limits sample_key 86400000 ''token'' (Returned JNull) False 90000000
     (sample_tables [sample_schedule 90000000 None 1] [sample_run Running None] [sample_skip]) =
     (Inr True, sample_tables [sample_schedule 90000000 None 1] [sample_run Succeeded (Some 90000000)] [sample_skip])"
  by (simp add: cron_settle_def cron_transact_def Let_def run_id_def rkey_def update_runs_def update_where_def check_run_def
      cron_outcome_def consumed_result_def boolean_flag_def prune_def beyond_newest_def settled_runs_def skip_id_def kkey_def
      MAX_SAFE_def cron_sample_defs)

definition sample_system :: "cron_tables \<Rightarrow> (cron_key \<times> int \<times> string) list \<Rightarrow> (cron_key \<times> int) list \<Rightarrow> (cron_key \<times> int) list \<Rightarrow> cron_system" where
  "sample_system t held taken finished =
     \<lparr>cs_tables = t, cs_now = 90000000, cs_held = held, cs_taken = taken, cs_finished = finished\<rparr>"

definition sample_first :: cron_system where "sample_first = sample_system (sample_tables [] [] []) [] [] []"

definition sample_pending :: cron_system where
  "sample_pending = sample_system (sample_tables [sample_schedule 90000000 (Some 86400000) 1] [] [sample_skip]) [] [] []"

definition sample_done :: cron_system where
  "sample_done = sample_system (sample_tables [sample_schedule 90000000 None 1] [sample_run Succeeded (Some 90000000)] [sample_skip])
     [] [(sample_key, 86400000)] [(sample_key, 86400000)]"

lemma cron_sample_start: "cron_start sample_limits sample_entries sample_first"
  using cron_sample_created by (auto simp: cron_start_def sample_first_def sample_system_def clock_ok_def sample_limits_def MAX_SAFE_def)

lemma cron_sample_reaches_pending: "cron_steps sample_limits sample_entries sample_first sample_pending"
proof -
  let ?mid = "sample_system (sample_tables [sample_schedule (-1) None 0] [] []) [] [] []"
  have "cron_step sample_limits sample_entries sample_first ?mid"
    using registers [of sample_limits sample_entries "js_int 0" sample_first "Inr ()" "sample_tables [sample_schedule (-1) None 0] [] []"]
      cron_sample_registered by (simp add: sample_first_def sample_system_def)
  moreover have "cron_step sample_limits sample_entries ?mid sample_pending"
    using plans [of sample_limits sample_entries ?mid _ "sample_tables [sample_schedule 90000000 (Some 86400000) 1] [] [sample_skip]"]
      cron_sample_planned by (simp add: sample_pending_def sample_system_def)
  ultimately show ?thesis by (meson rtranclp.rtrancl_into_rtrancl rtranclp.rtrancl_refl)
qed

lemma cron_sample_reaches_done: "cron_steps sample_limits sample_entries sample_first sample_done"
proof -
  let ?t = "sample_tables [sample_schedule 90000000 None 1] [sample_run Running None] [sample_skip]"
  let ?mid = "sample_system ?t [(sample_key, 86400000, ''token'')] [(sample_key, 86400000)] []"
  have "cron_step sample_limits sample_entries sample_pending ?mid"
    using claims [of sample_limits sample_entries sample_pending "''token''" "CronClaimed sample_key 86400000 ''token''" ?t]
      cron_sample_claimed by (simp add: sample_pending_def sample_system_def claim_held_def newly_taken_def exhausted_slots_def sample_tables_def)
  moreover have "cron_step sample_limits sample_entries ?mid sample_done"
    using settles [of sample_key 86400000 "''token''" ?mid sample_limits "Returned JNull" False "Inr True"] cron_sample_settled
    by (simp add: sample_done_def sample_system_def settled_slots_def)
  ultimately show ?thesis
    using cron_sample_reaches_pending by (meson rtranclp.rtrancl_into_rtrancl)
qed

lemma every_instant_accounted_witness:
  "int (card {x \<in> cron_instants ''0 0 * * *''. 0 \<le> x \<and> x \<le> 90000000}) = 1 + 0 + int (card {x. (sample_key, x) \<in> {(sample_key, 86400000)}})"
  using every_instant_accounted [OF cron_sample_start cron_sample_reaches_done, of "sample_schedule 90000000 None 1"]
  by (simp add: sample_done_def sample_system_def sample_tables_def sample_schedule_def sample_key_def)

lemma taken_once_finished_once_witness:
  "set (cs_taken sample_done) = {(sample_key, 86400000)} \<and> 86400000 \<in> cron_instants (snd sample_key)"
  using taken_once_finished_once [OF cron_sample_start cron_sample_reaches_done]
  by (simp add: sample_done_def sample_system_def)

lemma cron_bounds_witness:
  "length (settled_runs sample_key (t_runs (cs_tables sample_done))) \<le> historyLimit sample_limits \<and>
   length (t_runs (cs_tables sample_done)) = 1"
  using cron_bounds [OF cron_sample_start cron_sample_reaches_done, of sample_key]
  by (simp add: sample_done_def sample_system_def sample_tables_def)


end
