(* ===== verification/Pg_Kv.thy ===== *)
theory Pg_Kv
  imports Text_Codecs
begin

text \<open>
  The expiring key-value store of the native deployment (\<open>src/pg-kv.ts\<close>) over the table of
  \<open>migrations/postgres/0009_auth_kv.sql\<close>.  Each operation is one statement or one transaction, so it
  is a function on the rows.  Keys and values are byte strings; the clock (in milliseconds) is an
  argument.  A stored value is decoded as UTF-8 only when it was text; of a stream, what the reader
  yields and when is given.  The limits of an instance never exceed the table's \<open>CHECK\<close>s.
\<close>

section \<open>Rows, limits, arguments\<close>

record kv_entry =
  e_namespace :: string
  e_key :: string
  e_value :: string
  e_metadata :: "string option"
  e_expires :: "int option"

record PgKvLimits =
  maxValueBytes :: nat
  maxKeyBytes :: nat
  maxListKeys :: nat
  streamTimeoutMs :: nat

definition kv_defaults :: PgKvLimits where
  "kv_defaults = \<lparr>maxValueBytes = 26214400, maxKeyBytes = 512, maxListKeys = 1000, streamTimeoutMs = 30000\<rparr>"

datatype kv_error =
    Utf8Contract string | NamespaceNul | InvalidKvLimit string | MetadataContract | MetadataChanged | ValueBudget
  | StreamNotBytes | StreamExpired | ExpiryExclusive | TtlTooShort | ExpiryPast | StoredBudget | NotJson
  | ListLimit | CursorInvalid | CursorNotJson | CursorScope | CursorKey | CursorEncoding

definition utf8 :: "string \<Rightarrow> nat \<Rightarrow> string \<Rightarrow> bool \<Rightarrow> kv_error + string" where
  "utf8 value limit label allowEmpty =
     (let bytes = utf8_encode value
      in if (\<not> allowEmpty \<and> bytes = []) \<or> limit < length bytes \<or> utf8_decode bytes \<noteq> value
         then Inl (Utf8Contract label) else Inr bytes)"

definition createPgKv :: "string \<Rightarrow> PgKvLimits \<Rightarrow> kv_error + unit" where
  "createPgKv namespace limits =
     (case utf8 namespace 128 ''KV namespace'' False of
        Inl e \<Rightarrow> Inl e
      | Inr _ \<Rightarrow>
          if char_of (0 :: nat) \<in> set namespace then Inl NamespaceNul
          else (case List.find (\<lambda>(nm, v, mx). v = 0 \<or> mx < v)
                  [(''maxValueBytes'', maxValueBytes limits, maxValueBytes kv_defaults), (''maxKeyBytes'', maxKeyBytes limits, maxKeyBytes kv_defaults),
                   (''maxListKeys'', maxListKeys limits, maxListKeys kv_defaults), (''streamTimeoutMs'', streamTimeoutMs limits, streamTimeoutMs kv_defaults)] of
                  Some (nm, _) \<Rightarrow> Inl (InvalidKvLimit nm)
                | None \<Rightarrow> Inr ()))"

definition keyBytes :: "PgKvLimits \<Rightarrow> string \<Rightarrow> kv_error + string" where
  "keyBytes limits key = utf8 key (maxKeyBytes limits) ''KV key'' False"

definition kv_seconds :: "int \<Rightarrow> int" where
  "kv_seconds ms = ms div 1000"

text \<open>The check that the metadata's text is read back as the very value.\<close>

function same_json :: "json \<Rightarrow> json \<Rightarrow> bool" where
  "same_json (JVal a) parsed = (parsed = JVal a)"
| "same_json (JArr xs) parsed =
     (case parsed of JArr ys \<Rightarrow> length xs = length ys \<and> list_all (\<lambda>(x, y). same_json x y) (zip xs ys) | _ \<Rightarrow> False)"
| "same_json (JObj kvs) parsed =
     (case parsed of
        JObj ks \<Rightarrow> length kvs = length ks \<and> list_all (\<lambda>kv. same_json (snd kv) (get_prop parsed (fst kv))) kvs
      | _ \<Rightarrow> False)"
  by pat_completeness auto
termination
proof (relation "measure (\<lambda>(v, _). size v)")
  show "((x, y), JArr xs, parsed) \<in> measure (\<lambda>(v, _). size v)" if "z \<in> set (zip xs ys)" "(x, y) = z" for x y z xs ys parsed
  proof -
    have "x \<in> set xs" using that by (auto dest: set_zip_leftD)
    then show ?thesis using size_list_estimation' [of x xs "size x" size] by simp
  qed
  show "((snd kv, p), JObj kvs, parsed) \<in> measure (\<lambda>(v, _). size v)" if "kv \<in> set kvs" for kv kvs p parsed
    using that size_member [of "fst kv" "snd kv" kvs] by simp
qed simp

definition metadataText :: "json \<Rightarrow> kv_error + string option" where
  "metadataText value =
     (if value = JUndef then Inr None
      else case json_stringify value of
             None \<Rightarrow> Inl MetadataContract
           | Some written \<Rightarrow>
               if 1024 < length (utf8_encode written) then Inl MetadataContract
               else (case JSON_parse written of
                       None \<Rightarrow> Inl NotJson
                     | Some parsed \<Rightarrow> if same_json value parsed then Inr (Some written) else Inl MetadataChanged))"

text \<open>A value: text, bytes, or a stream given as the chunks its reader yields with the milliseconds after which.\<close>

datatype kv_chunk = ChunkBytes string | ChunkOther
datatype kv_value = KvText string | KvBytes string | KvStream "(nat \<times> kv_chunk) list" nat

fun read_stream :: "nat \<Rightarrow> nat \<Rightarrow> (nat \<times> kv_chunk) list \<Rightarrow> nat \<Rightarrow> string \<Rightarrow> kv_error + string" where
  "read_stream limit timeout [] ending output = (if timeout \<le> ending then Inl StreamExpired else Inr output)"
| "read_stream limit timeout ((elapsed, chunk) # chunks) ending output =
     (if timeout \<le> elapsed then Inl StreamExpired
      else case chunk of
             ChunkOther \<Rightarrow> Inl StreamNotBytes
           | ChunkBytes b \<Rightarrow>
               if limit < length output + length b then Inl ValueBudget
               else read_stream limit timeout chunks ending (output @ b))"

definition valueBytes :: "kv_value \<Rightarrow> nat \<Rightarrow> nat \<Rightarrow> kv_error + string" where
  "valueBytes value limit timeoutMs =
     (case value of
        KvStream chunks ending \<Rightarrow> read_stream limit timeoutMs chunks ending []
      | KvText s \<Rightarrow> if limit < length (utf8_encode s) then Inl ValueBudget else Inr (utf8_encode s)
      | KvBytes b \<Rightarrow> if limit < length b then Inl ValueBudget else Inr b)"

section \<open>The operations\<close>

definition live :: "int \<Rightarrow> kv_entry \<Rightarrow> bool" where
  "live now e \<longleftrightarrow> (case e_expires e of None \<Rightarrow> True | Some x \<Rightarrow> kv_seconds now < x)"

definition entry_at :: "string \<Rightarrow> string \<Rightarrow> kv_entry \<Rightarrow> bool" where
  "entry_at namespace key e \<longleftrightarrow> e_namespace e = namespace \<and> e_key e = key"

definition find_live :: "string \<Rightarrow> string \<Rightarrow> int \<Rightarrow> kv_entry list \<Rightarrow> kv_entry option" where
  "find_live namespace key now es = List.find (\<lambda>e. entry_at namespace key e \<and> live now e) es"

definition storedBytes :: "PgKvLimits \<Rightarrow> kv_entry \<Rightarrow> kv_error + string" where
  "storedBytes limits e = (if maxValueBytes limits < length (e_value e) then Inl StoredBudget else Inr (e_value e))"

datatype representation = AsText | AsJson | AsArrayBuffer | AsStream
datatype kv_read = KvAbsent | ReadText string | ReadJson json | ReadBytes string

definition kv_get :: "PgKvLimits \<Rightarrow> string \<Rightarrow> string \<Rightarrow> representation \<Rightarrow> int \<Rightarrow> kv_entry list \<Rightarrow> kv_error + kv_read" where
  "kv_get limits namespace key rep now es =
     (case keyBytes limits key of
        Inl e \<Rightarrow> Inl e
      | Inr k \<Rightarrow>
          (case find_live namespace k now es of
             None \<Rightarrow> Inr KvAbsent
           | Some row \<Rightarrow>
               (case storedBytes limits row of
                  Inl e \<Rightarrow> Inl e
                | Inr bytes \<Rightarrow>
                    (case rep of
                       AsArrayBuffer \<Rightarrow> Inr (ReadBytes bytes)
                     | AsStream \<Rightarrow> Inr (ReadBytes bytes)
                     | AsText \<Rightarrow> Inr (ReadText (utf8_decode bytes))
                     | AsJson \<Rightarrow> (case JSON_parse (utf8_decode bytes) of None \<Rightarrow> Inl NotJson | Some v \<Rightarrow> Inr (ReadJson v))))))"

record kv_settings =
  set_expiration :: "jsnum option"
  set_expirationTtl :: "jsnum option"
  set_metadata :: json

definition no_settings :: kv_settings where
  "no_settings = \<lparr>set_expiration = None, set_expirationTtl = None, set_metadata = JUndef\<rparr>"

text \<open>\<open>INSERT ... ON CONFLICT (namespace, key) DO UPDATE\<close>\<close>

definition upsert :: "kv_entry \<Rightarrow> kv_entry list \<Rightarrow> kv_entry list" where
  "upsert x es =
     (if list_ex (entry_at (e_namespace x) (e_key x)) es
      then map (\<lambda>e. if entry_at (e_namespace x) (e_key x) e then x else e) es else es @ [x])"

definition kv_put :: "PgKvLimits \<Rightarrow> string \<Rightarrow> string \<Rightarrow> kv_value \<Rightarrow> kv_settings \<Rightarrow> int \<Rightarrow> kv_entry list \<Rightarrow> kv_error + kv_entry list" where
  "kv_put limits namespace key value settings now es =
     (case keyBytes limits key of
        Inl e \<Rightarrow> Inl e
      | Inr encoded \<Rightarrow>
     (case metadataText (set_metadata settings) of
        Inl e \<Rightarrow> Inl e
      | Inr metadata \<Rightarrow>
          if set_expiration settings \<noteq> None \<and> set_expirationTtl settings \<noteq> None then Inl ExpiryExclusive
          else if (case set_expirationTtl settings of None \<Rightarrow> False | Some t \<Rightarrow> \<not> is_safe_integer t \<or> num_int t < 60) then Inl TtlTooShort
          else (case valueBytes value (maxValueBytes limits) (streamTimeoutMs limits) of
             Inl e \<Rightarrow> Inl e
           | Inr bytes \<Rightarrow>
               let current = kv_seconds now;
                   expiry = (case set_expiration settings of
                               Some x \<Rightarrow> Some x
                             | None \<Rightarrow> map_option (\<lambda>t. js_int (current + num_int t)) (set_expirationTtl settings))
               in if (case expiry of None \<Rightarrow> False | Some x \<Rightarrow> \<not> is_safe_integer x \<or> num_int x \<le> current) then Inl ExpiryPast
                  else Inr (upsert \<lparr>e_namespace = namespace, e_key = encoded, e_value = bytes, e_metadata = metadata,
                                    e_expires = map_option num_int expiry\<rparr> es))))"

definition kv_delete :: "PgKvLimits \<Rightarrow> string \<Rightarrow> string \<Rightarrow> kv_entry list \<Rightarrow> kv_error + kv_entry list" where
  "kv_delete limits namespace key es =
     (case keyBytes limits key of Inl e \<Rightarrow> Inl e | Inr k \<Rightarrow> Inr (filter (\<lambda>e. \<not> entry_at namespace k e) es))"

definition kv_consume :: "PgKvLimits \<Rightarrow> string \<Rightarrow> string \<Rightarrow> int \<Rightarrow> kv_entry list \<Rightarrow> kv_error + string option \<times> kv_entry list" where
  "kv_consume limits namespace key now es =
     (case keyBytes limits key of
        Inl e \<Rightarrow> Inl e
      | Inr k \<Rightarrow>
          (case find_live namespace k now es of
             None \<Rightarrow> Inr (None, es)
           | Some row \<Rightarrow>
               (case storedBytes limits row of
                  Inl e \<Rightarrow> Inl e
                | Inr bytes \<Rightarrow> Inr (Some (utf8_decode bytes), filter (\<lambda>e. \<not> entry_at namespace k e) es))))"

section \<open>Listing\<close>

text \<open>\<open>Buffer.from(s, "base64url")\<close>: what is not in the alphabet is skipped, and so are left-over bits.\<close>

definition buffer_base64url :: "string \<Rightarrow> string" where
  "buffer_base64url s = sextets (List.map_filter (\<lambda>c. b64_val (unurl_char c)) s)"

definition url_alphabet :: "char \<Rightarrow> bool" where
  "url_alphabet c \<longleftrightarrow> is_digit c \<or> (65 \<le> (of_char c :: nat) \<and> of_char c \<le> (90 :: nat)) \<or>
     (97 \<le> (of_char c :: nat) \<and> of_char c \<le> (122 :: nat)) \<or> c = CHR ''_'' \<or> c = CHR ''-''"

definition kv_cursor :: "string \<Rightarrow> string \<Rightarrow> string \<Rightarrow> string" where
  "kv_cursor namespace prefix last_key =
     base64UrlEncodeBytes (utf8_encode (the (json_stringify
       (JArr [JInt 1, JStr namespace, JStr prefix, JStr (base64UrlEncodeBytes last_key)]))))"

definition read_cursor :: "PgKvLimits \<Rightarrow> string \<Rightarrow> string \<Rightarrow> string \<Rightarrow> string \<Rightarrow> kv_error + string" where
  "read_cursor limits namespace prefix encoded raw =
     (if 8192 < length raw \<or> raw = [] \<or> \<not> list_all url_alphabet raw \<or> base64UrlEncodeBytes (buffer_base64url raw) \<noteq> raw
      then Inl CursorInvalid
      else case JSON_parse (utf8_decode (buffer_base64url raw)) of
             None \<Rightarrow> Inl CursorNotJson
           | Some (JArr [one, ns, pre, JVal (VStr k)]) \<Rightarrow>
               if one \<noteq> JInt 1 \<or> ns \<noteq> JStr namespace \<or> pre \<noteq> JStr prefix then Inl CursorScope
               else let after = buffer_base64url k
                    in if base64UrlEncodeBytes after \<noteq> k \<or> take (length encoded) after \<noteq> encoded then Inl CursorKey
                       else (case keyBytes limits (utf8_decode after) of
                               Inl e \<Rightarrow> Inl e
                             | Inr b \<Rightarrow> if after \<noteq> b then Inl CursorEncoding else Inr after)
           | Some _ \<Rightarrow> Inl CursorScope)"

record kv_listed =
  ls_name :: string
  ls_expiration :: "int option"
  ls_metadata :: "json option"

record kv_list_settings =
  list_prefix :: "string option"
  list_cursor :: "string option"
  list_limit :: "jsnum option"

record kv_page =
  pg_keys :: "kv_listed list"
  pg_complete :: bool
  pg_cursor :: "string option"

definition upper_bound :: "string \<Rightarrow> string" where
  "upper_bound encoded = butlast encoded @ [char_of ((of_char (last encoded) :: nat) + 1)]"

definition listed_rows :: "string \<Rightarrow> string \<Rightarrow> string option \<Rightarrow> int \<Rightarrow> nat \<Rightarrow> kv_entry list \<Rightarrow> kv_entry list" where
  "listed_rows namespace encoded after now limit es =
     take limit (sort_key e_key (filter (\<lambda>e. e_namespace e = namespace \<and> live now e \<and> encoded \<le> e_key e \<and>
       (encoded = [] \<or> e_key e < upper_bound encoded) \<and> (case after of None \<Rightarrow> True | Some a \<Rightarrow> a < e_key e)) es))"

definition listed :: "kv_entry \<Rightarrow> kv_listed option" where
  "listed e =
     (case e_metadata e of
        None \<Rightarrow> Some \<lparr>ls_name = utf8_decode (e_key e), ls_expiration = e_expires e, ls_metadata = None\<rparr>
      | Some m \<Rightarrow> map_option (\<lambda>v. \<lparr>ls_name = utf8_decode (e_key e), ls_expiration = e_expires e, ls_metadata = Some v\<rparr>) (JSON_parse m))"

definition kv_list :: "PgKvLimits \<Rightarrow> string \<Rightarrow> kv_list_settings \<Rightarrow> int \<Rightarrow> kv_entry list \<Rightarrow> kv_error + kv_page" where
  "kv_list limits namespace settings now es =
     (let prefix = (case list_prefix settings of None \<Rightarrow> [] | Some p \<Rightarrow> p)
      in case utf8 prefix (maxKeyBytes limits) ''KV prefix'' True of
           Inl e \<Rightarrow> Inl e
         | Inr encoded \<Rightarrow>
             let limit = (case list_limit settings of None \<Rightarrow> js_int (int (maxListKeys limits)) | Some l \<Rightarrow> l)
             in if \<not> is_safe_integer limit \<or> num_int limit < 1 \<or> int (maxListKeys limits) < num_int limit then Inl ListLimit
                else case (case list_cursor settings of
                             None \<Rightarrow> Inr None
                           | Some raw \<Rightarrow> if raw = [] then Inr None
                               else (case read_cursor limits namespace prefix encoded raw of Inl e \<Rightarrow> Inl e | Inr a \<Rightarrow> Inr (Some a))) of
                       Inl e \<Rightarrow> Inl e
                     | Inr after \<Rightarrow>
                         let n = nat (num_int limit); rows = listed_rows namespace encoded after now (n + 1) es; selected = take n rows
                         in case those (map listed selected) of
                              None \<Rightarrow> Inl NotJson
                            | Some keys \<Rightarrow>
                                Inr \<lparr>pg_keys = keys, pg_complete = (length rows \<le> n),
                                     pg_cursor = (if length rows \<le> n then None else Some (kv_cursor namespace prefix (e_key (last selected))))\<rparr>)"

end
