(* ===== verification/Pg_Kv_Laws.thy ===== *)
theory Pg_Kv_Laws
  imports Pg_Kv
begin

text \<open>
  What the key-value store promises: it is a map from namespaced keys to values that expire, and the
  pages of a listing, each asked for with the cursor of the one before, are together the listing.
\<close>

section \<open>The store as a map\<close>

type_synonym kv_map = "string \<times> string \<rightharpoonup> string \<times> string option \<times> int option"

definition kv_view :: "kv_entry list \<Rightarrow> kv_map" where
  "kv_view es = (\<lambda>(ns, k). map_option (\<lambda>e. (e_value e, e_metadata e, e_expires e)) (List.find (entry_at ns k) es))"

definition entry_id :: "kv_entry \<Rightarrow> string \<times> string" where
  "entry_id e = (e_namespace e, e_key e)"

definition keys_distinct :: "kv_entry list \<Rightarrow> bool" where
  "keys_distinct es \<longleftrightarrow> distinct (map entry_id es)"

text \<open>What a key holds at a time: its value, unless that has expired.\<close>

definition holds_at :: "kv_map \<Rightarrow> string \<times> string \<Rightarrow> int \<Rightarrow> string option" where
  "holds_at m i now =
     (case m i of
        None \<Rightarrow> None
      | Some (v, _, x) \<Rightarrow> (case x of None \<Rightarrow> Some v | Some t \<Rightarrow> if now div 1000 < t then Some v else None))"

lemma entry_at_id: "entry_at ns k e \<longleftrightarrow> entry_id e = (ns, k)"
  by (auto simp: entry_at_def entry_id_def)

lemma kv_view_Some:
  assumes "keys_distinct es" and "e \<in> set es"
  shows "kv_view es (entry_id e) = Some (e_value e, e_metadata e, e_expires e)"
proof -
  have "List.find (entry_at (e_namespace e) (e_key e)) es = Some e"
    using assms by (induction es) (auto simp: keys_distinct_def entry_at_id entry_id_def image_iff)
  then show ?thesis by (simp add: kv_view_def entry_id_def)
qed

lemma find_live_view:
  assumes "keys_distinct es"
  shows "holds_at (kv_view es) (ns, k) now = map_option e_value (find_live ns k now es)"
  using assms
proof (induction es)
  case (Cons e es)
  have d: "keys_distinct es" "entry_id e \<notin> entry_id ` set es" using Cons.prems by (simp_all add: keys_distinct_def)
  show ?case
  proof (cases "entry_at ns k e")
    case True
    then have "List.find (\<lambda>e. entry_at ns k e \<and> live now e) es = None"
      using d(2) by (auto simp: find_None_iff entry_at_id) (metis imageI)
    then show ?thesis using True
      by (simp add: find_live_def holds_at_def kv_view_def live_def kv_seconds_def split: option.split)
  next
    case False
    then show ?thesis using Cons.IH [OF d(1)] by (simp add: find_live_def holds_at_def kv_view_def)
  qed
qed (simp add: holds_at_def kv_view_def find_live_def)

lemma find_map_upsert:
  assumes "list_ex (entry_at (e_namespace x) (e_key x)) es"
  shows "List.find (entry_at ns k) (map (\<lambda>e. if entry_at (e_namespace x) (e_key x) e then x else e) es) =
    (if entry_at ns k x then Some x else List.find (entry_at ns k) es)"
proof (cases "entry_at ns k x")
  case True
  then have "entry_at (e_namespace x) (e_key x) = entry_at ns k" by (auto simp: entry_at_def)
  then show ?thesis using assms True by (induction es) auto
next
  case False
  then have "\<not> (entry_at (e_namespace x) (e_key x) e \<and> entry_at ns k e)" for e by (auto simp: entry_at_def)
  then have "List.find (entry_at ns k) (map (\<lambda>e. if entry_at (e_namespace x) (e_key x) e then x else e) es) = List.find (entry_at ns k) es"
    using False by (induction es) auto
  then show ?thesis using False by simp
qed

lemma upsert_view: "kv_view (upsert x es) = (kv_view es)(entry_id x \<mapsto> (e_value x, e_metadata x, e_expires x))"
proof
  fix i :: "string \<times> string"
  obtain ns k where i: "i = (ns, k)" by (cases i)
  show "kv_view (upsert x es) i = ((kv_view es)(entry_id x \<mapsto> (e_value x, e_metadata x, e_expires x))) i"
  proof (cases "list_ex (entry_at (e_namespace x) (e_key x)) es")
    case True
    then show ?thesis using find_map_upsert [OF True] by (auto simp: upsert_def kv_view_def i entry_at_id)
  next
    case False
    have "List.find (entry_at ns k) (es @ [x]) = (if entry_at ns k x then Some x else List.find (entry_at ns k) es)"
      using False by (induction es) (auto simp: entry_at_id entry_id_def)
    then show ?thesis using False by (auto simp: upsert_def kv_view_def i entry_at_id)
  qed
qed

lemma upsert_distinct:
  assumes "keys_distinct es"
  shows "keys_distinct (upsert x es)"
proof (cases "list_ex (entry_at (e_namespace x) (e_key x)) es")
  case True
  have "map entry_id (map (\<lambda>e. if entry_at (e_namespace x) (e_key x) e then x else e) es) = map entry_id es"
    by (simp add: entry_at_id entry_id_def)
  then show ?thesis using True assms unfolding keys_distinct_def upsert_def by (simp only: if_True)
next
  case False
  then show ?thesis using assms by (auto simp: keys_distinct_def upsert_def list_ex_iff entry_at_id entry_id_def)
qed

lemma upsert_set: "e \<in> set (upsert x es) \<Longrightarrow> e = x \<or> e \<in> set es"
  by (auto simp: upsert_def split: if_splits)

lemma removed_view: "kv_view (filter (\<lambda>e. \<not> entry_at ns k e) es) = (kv_view es)((ns, k) := None)"
proof
  fix i :: "string \<times> string"
  obtain a b where i: "i = (a, b)" by (cases i)
  have "List.find (entry_at a b) (filter (\<lambda>e. \<not> entry_at ns k e) es) = (if (a, b) = (ns, k) then None else List.find (entry_at a b) es)"
    by (induction es) (auto simp: entry_at_id)
  then show "kv_view (filter (\<lambda>e. \<not> entry_at ns k e) es) i = ((kv_view es)((ns, k) := None)) i"
    by (simp add: kv_view_def i)
qed

lemma removed_distinct: "keys_distinct es \<Longrightarrow> keys_distinct (filter P es)"
  by (simp add: keys_distinct_def distinct_map_filter)

lemma keyBytes_encode: "keyBytes limits key = Inr k \<Longrightarrow> k = utf8_encode key"
  by (auto simp: keyBytes_def utf8_def Let_def split: if_splits)

lemma kv_put_row:
  assumes "kv_put limits ns key value settings now es = Inr es'"
  obtains k m bytes x where "keyBytes limits key = Inr k" "metadataText (set_metadata settings) = Inr m"
    "valueBytes value (maxValueBytes limits) (streamTimeoutMs limits) = Inr bytes" "\<forall>t. x = Some t \<longrightarrow> now div 1000 < t"
    "es' = upsert \<lparr>e_namespace = ns, e_key = k, e_value = bytes, e_metadata = m, e_expires = x\<rparr> es"
proof -
  obtain k where k: "keyBytes limits key = Inr k" using assms by (auto simp: kv_put_def split: sum.splits)
  obtain m where m: "metadataText (set_metadata settings) = Inr m" using assms k by (auto simp: kv_put_def split: sum.splits)
  obtain bytes where b: "valueBytes value (maxValueBytes limits) (streamTimeoutMs limits) = Inr bytes"
    using assms k m by (auto simp: kv_put_def split: sum.splits if_splits)
  define expiry where "expiry = (case set_expiration settings of Some x \<Rightarrow> Some x
    | None \<Rightarrow> map_option (\<lambda>t. js_int (kv_seconds now + num_int t)) (set_expirationTtl settings))"
  have e: "\<not> (case expiry of None \<Rightarrow> False | Some x \<Rightarrow> \<not> is_safe_integer x \<or> num_int x \<le> kv_seconds now)"
    "es' = upsert \<lparr>e_namespace = ns, e_key = k, e_value = bytes, e_metadata = m, e_expires = map_option num_int expiry\<rparr> es"
    using assms k m b by (simp_all add: kv_put_def Let_def flip: expiry_def split: if_splits)
  show thesis using e(1) by (intro that [OF k m b _ e(2)]) (auto simp: kv_seconds_def)
qed



section \<open>Listing by pages\<close>

text \<open>Entries as the store's own puts write them.\<close>

definition entry_ok :: "PgKvLimits \<Rightarrow> kv_entry \<Rightarrow> bool" where
  "entry_ok limits e \<longleftrightarrow>
     (\<exists>key. keyBytes limits key = Inr (e_key e)) \<and> (\<forall>m. e_metadata e = Some m \<longrightarrow> JSON_parse m \<noteq> None)"

definition store_ok :: "PgKvLimits \<Rightarrow> string \<Rightarrow> kv_entry list \<Rightarrow> bool" where
  "store_ok limits ns es \<longleftrightarrow> keys_distinct es \<and> (\<forall>e\<in>set es. e_namespace e = ns \<longrightarrow> entry_ok limits e)"

lemma store_ok_put:
  assumes "store_ok limits ns es" and "kv_put limits ns' key value settings now es = Inr es'" and "ns' = ns"
  shows "store_ok limits ns es'"
proof -
  obtain k b m x where k: "keyBytes limits key = Inr k" and m: "metadataText (set_metadata settings) = Inr m"
    and "valueBytes value (maxValueBytes limits) (streamTimeoutMs limits) = Inr b"
    and es': "es' = upsert \<lparr>e_namespace = ns', e_key = k, e_value = b, e_metadata = m, e_expires = x\<rparr> es"
    by (rule kv_put_row [OF assms(2)])
  have "JSON_parse w \<noteq> None" if "m = Some w" for w
    using m that by (auto simp: metadataText_def split: if_splits option.splits)
  then have "entry_ok limits \<lparr>e_namespace = ns', e_key = k, e_value = b, e_metadata = m, e_expires = x\<rparr>"
    using k by (auto simp: entry_ok_def)
  then show ?thesis
    using assms(1) upsert_distinct upsert_set unfolding store_ok_def es' by blast
qed

text \<open>Byte strings in the order of \<open>bytea\<close>: those from a prefix up to its last byte raised by one extend it.\<close>

lemma char_le_code: "c \<le> d \<longleftrightarrow> (of_char c :: nat) \<le> of_char d" "c < d \<longleftrightarrow> (of_char c :: nat) < of_char d"
  by (simp_all add: less_eq_char_def less_char_def)

lemma prefix_range:
  assumes "\<forall>c\<in>set p. (of_char c :: nat) < 255"
  shows "p \<le> k \<and> (p = [] \<or> k < upper_bound p) \<longleftrightarrow> take (length p) k = p"
  using assms
proof (induction p arbitrary: k)
  case (Cons a p)
  define u :: char where "u = char_of ((of_char a :: nat) + 1)"
  have "(of_char a :: nat) < 255" using Cons.prems by simp
  then have up: "(of_char u :: nat) = of_char a + 1" by (simp add: u_def)
  have bound: "upper_bound (a # p) = (if p = [] then [u] else a # upper_bound p)"
    by (simp add: upper_bound_def u_def)
  show ?case
  proof (cases k)
    case (Cons d ks)
    show ?thesis
    proof (cases "p = []")
      case True
      have "a < d \<or> a = d \<longleftrightarrow> (of_char a :: nat) \<le> of_char d" by (metis char_le_code order.order_iff_strict)
      moreover have "d < u \<longleftrightarrow> (of_char d :: nat) \<le> of_char a" by (simp add: char_le_code up; arith)
      ultimately show ?thesis using True Cons bound by (auto simp: char_le_code)
    next
      case False
      then have "p \<le> ks \<and> ks < upper_bound p \<longleftrightarrow> take (length p) ks = p"
        using Cons.IH [of ks] Cons.prems by simp
      then show ?thesis using False \<open>k = d # ks\<close> bound by auto
    qed
  qed simp
qed simp

end
