(* ===== verification/Pg_Kv_Pages.thy ===== *)
theory Pg_Kv_Pages
  imports Pg_Kv_Laws
begin

text \<open>
  Listing the store page by page: the loop of \<open>listSurfaceCredentials\<close> (\<open>src/mcp-surface-credentials.ts\<close>)
  that follows \<open>cursor\<close> until a page is complete, and that it sees every live key under its prefix
  once, in byte order, with cursors the store itself accepts.
\<close>

text \<open>The loop, with fuel for its rounds: \<open>None\<close> is a loop still going.\<close>

fun kv_walk :: "PgKvLimits \<Rightarrow> string \<Rightarrow> string \<Rightarrow> jsnum option \<Rightarrow> int \<Rightarrow> kv_entry list \<Rightarrow> nat \<Rightarrow> string option \<Rightarrow> (kv_error + kv_listed list) option" where
  "kv_walk limits ns prefix cap now es 0 cursor = None"
| "kv_walk limits ns prefix cap now es (Suc fuel) cursor =
     (case kv_list limits ns \<lparr>list_prefix = Some prefix, list_cursor = cursor, list_limit = cap\<rparr> now es of
        Inl e \<Rightarrow> Some (Inl e)
      | Inr page \<Rightarrow>
          (case (if pg_complete page then None else pg_cursor page) of
             None \<Rightarrow> Some (Inr (pg_keys page))
           | Some next \<Rightarrow> if next = [] then Some (Inr (pg_keys page))
               else map_option (map_sum (\<lambda>e. e) (\<lambda>rest. pg_keys page @ rest)) (kv_walk limits ns prefix cap now es fuel (Some next))))"

text \<open>What a walk should see.\<close>

definition live_entries :: "string \<Rightarrow> string \<Rightarrow> int \<Rightarrow> kv_entry list \<Rightarrow> kv_entry list" where
  "live_entries ns encoded now es =
     sort_key e_key (filter (\<lambda>e. e_namespace e = ns \<and> live now e \<and> take (length encoded) (e_key e) = encoded) es)"

section \<open>Cursors\<close>

lemma buffer_encoded: "buffer_base64url (base64UrlEncodeBytes s) = s"
proof -
  have "List.map_filter (\<lambda>c. b64_val (unurl_char c)) (map (\<lambda>n. url_char (b64_char n)) xs) = xs" if "\<forall>n\<in>set xs. n < 64" for xs
    using that by (induction xs) (simp_all add: unurl_url b64_val_char map_filter_simps)
  then show ?thesis using sixes_bound [of _ s] by (simp add: buffer_base64url_def base64UrlEncode_sixes sextets_sixes)
qed

lemma alphabet_char: "n < 64 \<Longrightarrow> url_alphabet (url_char (b64_char n))"
proof -
  assume n: "n < 64"
  have "url_alphabet c" if "c = url_char (b64_char n)" for c
  proof (cases "n < 62")
    case True
    then have "b64_char n \<noteq> CHR ''+''" "b64_char n \<noteq> CHR ''/''" using b64_char_code [OF n] by (auto split: if_splits)
    then have "c = b64_char n" using that by (simp add: url_char_def)
    then show ?thesis using b64_char_code [OF n] True by (auto simp: url_alphabet_def is_digit_def)
  next
    case False
    then have "n = 62 \<or> n = 63" using n by auto
    then show ?thesis using that by (auto simp: url_char_def b64_char_def url_alphabet_def)
  qed
  then show ?thesis by simp
qed

lemma encoded_alphabet: "list_all url_alphabet (base64UrlEncodeBytes s)"
  using alphabet_char sixes_bound by (auto simp: base64UrlEncode_sixes list_all_iff)

lemma encoded_length: "length (base64UrlEncodeBytes s) \<le> 4 * length s div 3 + 2"
proof -
  have "3 * length (sixes s) \<le> 4 * length s + 2" by (induction s rule: sixes.induct) (auto simp: Let_def)
  then show ?thesis by (simp add: base64UrlEncode_sixes)
qed

lemma utf8_nil: "utf8_encode [] = []"
  by (simp add: utf8_encode_def)

lemma utf8_append: "utf8_encode (a @ b) = utf8_encode a @ utf8_encode b"
  by (simp add: utf8_encode_def)

lemma hex_char_ascii: "d < 16 \<Longrightarrow> (of_char (hex_char d) :: nat) < 128"
  by (auto simp: hex_char_def digit_char_def)

lemma utf8_encode_length_quote: "length (utf8_encode (json_quote s)) \<le> 6 * length (utf8_encode s) + 2"
proof -
  have one: "length (utf8_encode (escape_char c)) \<le> 6 * length (utf8_encode [c])" for c
  proof -
    have "(of_char (hex_char (of_char c mod 16)) :: nat) < 128" by (rule hex_char_ascii) simp
    moreover have "(of_char (hex_char (of_char c div 16)) :: nat) < 128" if "(of_char c :: nat) < 32"
      using that by (intro hex_char_ascii) simp
    ultimately show ?thesis by (auto simp: escape_char_def utf8_encode_Cons Let_def utf8_nil)
  qed
  have "length (utf8_encode (escape_body s)) \<le> 6 * length (utf8_encode s)"
  proof (induction s)
    case (Cons c s)
    have "utf8_encode (c # s) = utf8_encode [c] @ utf8_encode s" using utf8_append [of "[c]" s] by simp
    moreover have "escape_body (c # s) = escape_char c @ escape_body s" by (simp add: escape_body_def)
    ultimately show ?case using Cons one [of c] by (simp add: utf8_append)
  qed (simp add: escape_body_def utf8_encode_def)
  then show ?thesis by (simp add: json_quote_def QUOTE_def utf8_append utf8_encode_Cons utf8_encode_def)
qed


lemma kv_scope:
  assumes "createPgKv ns limits = Inr ()"
  shows "length (utf8_encode ns) \<le> 128" "1 \<le> maxKeyBytes limits" "maxKeyBytes limits \<le> 512" "1 \<le> maxListKeys limits" "maxListKeys limits \<le> 1000"
  using assms by (auto simp: createPgKv_def utf8_def kv_defaults_def Let_def split: if_splits)

lemma cursor_text:
  obtains t where "json_stringify (JArr [JInt 1, JStr ns, JStr prefix, JStr k]) = Some t"
    "JSON_parse t = Some (JArr [JInt 1, JStr ns, JStr prefix, JStr k])"
    "length (utf8_encode t) = 6 + length (utf8_encode (json_quote ns)) + length (utf8_encode (json_quote prefix)) + length (utf8_encode (json_quote k))"
proof -
  let ?v = "JArr [JInt 1, JStr ns, JStr prefix, JStr k]"
  have "kept_by_json ?v" by (simp add: MAX_SAFE_def)
  then obtain t where t: "json_stringify ?v = Some t" "JSON_parse t = Some ?v" by (rule json_parse_stringify)
  have "number_to_string (js_int 1) = ''1''" by code_simp
  then have "t = ''['' @ ''1'' @ '','' @ json_quote ns @ '','' @ json_quote prefix @ '','' @ json_quote k @ '']''"
    using t(1) by (simp add: json_stringify.simps)
  then have "length (utf8_encode t) = 6 + length (utf8_encode (json_quote ns)) + length (utf8_encode (json_quote prefix)) + length (utf8_encode (json_quote k))"
    by (simp add: utf8_append utf8_encode_Cons utf8_nil del: append_Cons)
  with t that show thesis by blast
qed


lemma quoted_token: "length (utf8_encode (json_quote (base64UrlEncodeBytes s))) = length (base64UrlEncodeBytes s) + 2"
proof -
  have "escape_char c = [c] \<and> (of_char c :: nat) < 128" if "url_alphabet c" for c
    using that by (auto simp: url_alphabet_def is_digit_def escape_char_def Let_def)
  then have "escape_body t = t \<and> utf8_encode t = t" if "list_all url_alphabet t" for t
    using that by (induction t) (auto simp: escape_body_def utf8_encode_Cons utf8_nil)
  then have "escape_body (base64UrlEncodeBytes s) = base64UrlEncodeBytes s" "utf8_encode (base64UrlEncodeBytes s) = base64UrlEncodeBytes s"
    using encoded_alphabet by blast+
  then show ?thesis by (simp add: json_quote_def QUOTE_def utf8_encode_Cons utf8_append utf8_nil)
qed

lemma cursor_accepted:
  assumes scope: "createPgKv ns limits = Inr ()" and p: "length (utf8_encode prefix) \<le> maxKeyBytes limits"
    and k: "keyBytes limits key = Inr k" and start: "take (length encoded) k = encoded"
  shows "kv_cursor ns prefix k \<noteq> [] \<and> read_cursor limits ns prefix encoded (kv_cursor ns prefix k) = Inr k"
proof -
  obtain t where t: "json_stringify (JArr [JInt 1, JStr ns, JStr prefix, JStr (base64UrlEncodeBytes k)]) = Some t"
    "JSON_parse t = Some (JArr [JInt 1, JStr ns, JStr prefix, JStr (base64UrlEncodeBytes k)])"
    "length (utf8_encode t) = 6 + length (utf8_encode (json_quote ns)) + length (utf8_encode (json_quote prefix)) +
       length (utf8_encode (json_quote (base64UrlEncodeBytes k)))" by (rule cursor_text)
  have c: "kv_cursor ns prefix k = base64UrlEncodeBytes (utf8_encode t)" unfolding kv_cursor_def t(1) by simp
  have enc: "k = utf8_encode key" "length k \<le> 512"
    using k kv_scope(3) [OF scope] by (auto simp: keyBytes_def utf8_def Let_def split: if_splits)
  have "length (utf8_encode t) \<le> 6 + (6 * 128 + 2) + (6 * 512 + 2) + (684 + 2)"
    using t(3) utf8_encode_length_quote [of ns] utf8_encode_length_quote [of prefix] encoded_length [of k] enc(2) p kv_scope(1,3) [OF scope]
    unfolding quoted_token by linarith
  then have "length (kv_cursor ns prefix k) \<le> 8192"
    using encoded_length [of "utf8_encode t"] by (simp add: c)
  moreover have "utf8_encode t \<noteq> []" using t(3) by auto
  then have "kv_cursor ns prefix k \<noteq> []" using base64url_nonempty by (simp add: c)
  moreover have "list_all url_alphabet (kv_cursor ns prefix k)" using encoded_alphabet by (simp add: c)
  moreover have "keyBytes limits (utf8_decode k) = Inr k" using k by (simp add: enc(1) utf8_roundtrip)
  ultimately show ?thesis
    using start t(2) by (simp add: read_cursor_def buffer_encoded c utf8_roundtrip Let_def)
qed


section \<open>Pages\<close>

lemma drop_after:
  fixes f :: "'a \<Rightarrow> 'b::linorder"
  assumes "sorted (map f xs)" and "distinct (map f xs)" and "i < length xs"
  shows "filter (\<lambda>x. f (xs ! i) < f x) xs = drop (Suc i) xs"
  using assms
proof (induction xs arbitrary: i)
  case (Cons y ys)
  show ?case
  proof (cases i)
    case 0
    have "\<forall>x\<in>set ys. f y < f x" using Cons.prems by (force simp: order.strict_iff_order image_iff)
    then show ?thesis by (simp add: 0)
  next
    case (Suc j)
    then have "\<not> f (ys ! j) < f y" using Cons.prems by (simp add: not_less)
    then show ?thesis using Cons Suc by simp
  qed
qed simp

lemma encoded_bytes:
  assumes "c \<in> set (utf8_encode s)"
  shows "(of_char c :: nat) < 255"
proof -
  have small: "(of_char (char_of m :: char) :: nat) < 255" if "m < 255" for m :: nat
    using that by simp
  have "192 + (of_char d :: nat) div 64 < 255" "128 + (of_char d :: nat) mod 64 < 255" for d :: char
    using less_mult_imp_div_less [of "of_char d" 4 64] mod_less_divisor [of 64 "of_char d :: nat"] of_char_bound [of d] by linarith+
  then have "(of_char (char_of (192 + (of_char d :: nat) div 64) :: char) :: nat) < 255"
    "(of_char (char_of (128 + (of_char d :: nat) mod 64) :: char) :: nat) < 255" for d :: char
    by (blast intro: small)+
  moreover have "(of_char c :: nat) < 128 \<or> (\<exists>d :: char. c = char_of (192 + (of_char d :: nat) div 64) \<or> c = char_of (128 + (of_char d :: nat) mod 64))"
    using assms by (auto simp: utf8_encode_def Let_def split: if_splits)
  ultimately show ?thesis by (elim disjE exE) (simp_all only: order.strict_trans [of _ 128 255] numeral_less_iff semiring_norm)
qed

lemma listed_rows_live:
  "listed_rows ns (utf8_encode p) after now n es =
     take n (filter (\<lambda>e. case after of None \<Rightarrow> True | Some a \<Rightarrow> a < e_key e) (live_entries ns (utf8_encode p) now es))"
proof -
  have "(e_namespace e = ns \<and> live now e \<and> utf8_encode p \<le> e_key e \<and> (utf8_encode p = [] \<or> e_key e < upper_bound (utf8_encode p)) \<and>
      (case after of None \<Rightarrow> True | Some a \<Rightarrow> a < e_key e)) =
    ((case after of None \<Rightarrow> True | Some a \<Rightarrow> a < e_key e) \<and> e_namespace e = ns \<and> live now e \<and> take (length (utf8_encode p)) (e_key e) = utf8_encode p)" for e
    using prefix_range [of "utf8_encode p" "e_key e"] encoded_bytes [of _ p] by auto
  then show ?thesis by (simp add: listed_rows_def live_entries_def filter_sort conj_ac)
qed

lemma live_distinct:
  assumes "keys_distinct es"
  shows "sorted (map e_key (live_entries ns b now es))" "distinct (map e_key (live_entries ns b now es))"
proof -
  let ?P = "\<lambda>e. e_namespace e = ns \<and> live now e \<and> take (length b) (e_key e) = b"
  have "distinct (map entry_id (filter ?P es))" using assms by (simp add: keys_distinct_def distinct_map_filter)
  then have "distinct (map e_key (filter ?P es))" by (auto simp: distinct_map inj_on_def entry_id_def)
  then show "distinct (map e_key (live_entries ns b now es))"
    by (simp add: live_entries_def distinct_map)
qed (simp add: live_entries_def)

definition shown :: "kv_entry list \<Rightarrow> kv_listed list" where
  "shown es = map (\<lambda>e. the (listed e)) es"

lemma listed_shown:
  assumes "\<forall>e\<in>set xs. entry_ok limits e"
  shows "those (map listed xs) = Some (shown xs)"
proof -
  have "\<exists>v. listed e = Some v" if "entry_ok limits e" for e
    using that by (auto simp: entry_ok_def listed_def split: option.split)
  then show ?thesis using assms by (induction xs) (fastforce simp: shown_def)+
qed

definition page_cursor :: "string \<Rightarrow> string \<Rightarrow> kv_entry list \<Rightarrow> nat \<Rightarrow> string option" where
  "page_cursor ns prefix base i = (if i = 0 then None else Some (kv_cursor ns prefix (e_key (base ! (i - 1)))))"


lemma kv_list_page:
  assumes scope: "createPgKv ns limits = Inr ()" and p: "utf8 prefix (maxKeyBytes limits) ''KV prefix'' True = Inr b"
    and ok: "store_ok limits ns es" and n: "num_int (case cap of None \<Rightarrow> js_int (int (maxListKeys limits)) | Some l \<Rightarrow> l) = int n"
    and cap: "is_safe_integer (case cap of None \<Rightarrow> js_int (int (maxListKeys limits)) | Some l \<Rightarrow> l)" "1 \<le> n" "n \<le> maxListKeys limits"
    and i: "i < length base \<or> i = 0" and base: "base = live_entries ns b now es"
  shows "kv_list limits ns \<lparr>list_prefix = Some prefix, list_cursor = page_cursor ns prefix base i, list_limit = cap\<rparr> now es =
    Inr \<lparr>pg_keys = shown (take n (drop i base)), pg_complete = (length base - i \<le> n),
         pg_cursor = (if length base - i \<le> n then None else page_cursor ns prefix base (i + n))\<rparr>"
proof -
  have b: "b = utf8_encode prefix" "length (utf8_encode prefix) \<le> maxKeyBytes limits"
    using p by (auto simp: utf8_def Let_def split: if_splits)
  have dist: "keys_distinct es" using ok by (simp add: store_ok_def)
  have entries: "entry_ok limits e \<and> take (length b) (e_key e) = b" if "e \<in> set base" for e
    using that ok by (auto simp: base live_entries_def store_ok_def)
  define after where "after = (if i = 0 then None else Some (e_key (base ! (i - 1))))"
  have live: "live_entries ns (utf8_encode prefix) now es = base" by (simp add: base b(1))
  have rows: "listed_rows ns b after now (Suc n) es = take (Suc n) (drop i base)"
  proof (cases i)
    case (Suc j)
    then have "filter (\<lambda>e. e_key (base ! j) < e_key e) base = drop i base"
      using drop_after [OF live_distinct [OF dist]] i by (simp add: base)
    then show ?thesis using Suc by (simp add: b(1) listed_rows_live after_def live)
  qed (simp add: b(1) listed_rows_live after_def live)
  have cursor: "(case page_cursor ns prefix base i of None \<Rightarrow> Inr None
     | Some raw \<Rightarrow> if raw = [] then Inr None else (case read_cursor limits ns prefix b raw of Inl e \<Rightarrow> Inl e | Inr a \<Rightarrow> Inr (Some a))) = Inr after"
  proof (cases i)
    case (Suc j)
    then have "base ! j \<in> set base" using i by (intro nth_mem) simp
    then obtain key where "keyBytes limits key = Inr (e_key (base ! j))" "take (length b) (e_key (base ! j)) = b"
      using entries by (auto simp: entry_ok_def)
    then show ?thesis using cursor_accepted [OF scope b(2)] Suc by (simp add: page_cursor_def after_def)
  qed (simp add: page_cursor_def after_def)
  have "\<forall>e\<in>set (take n (drop i base)). entry_ok limits e" using entries by (meson in_set_dropD in_set_takeD)
  note those = listed_shown [OF this]
  have len: "length (take (Suc n) (drop i base)) \<le> n \<longleftrightarrow> length base - i \<le> n" by auto
  have next_page: "page_cursor ns prefix base (i + n) = Some (kv_cursor ns prefix (e_key (last (take n (drop i base)))))" if "\<not> length base - i \<le> n"
    using that cap(2) by (subst last_conv_nth) (auto simp: page_cursor_def)
  show ?thesis
    using cap(2,3) n
    by (simp add: kv_list_def p cap(1) cursor rows those len next_page Let_def del: length_take)
qed

lemma kv_walk_from:
  assumes scope: "createPgKv ns limits = Inr ()" and p: "utf8 prefix (maxKeyBytes limits) ''KV prefix'' True = Inr b"
    and ok: "store_ok limits ns es" and cap: "\<forall>l. cap = Some l \<longrightarrow> 1 \<le> l \<and> l \<le> int (maxListKeys limits)"
    and base: "base = live_entries ns b now es"
  shows "i < length base \<or> i = 0 \<Longrightarrow> length base - i < fuel \<Longrightarrow>
    kv_walk limits ns prefix (map_option js_int cap) now es fuel (page_cursor ns prefix base i) = Some (Inr (shown (drop i base)))"
proof (induction fuel arbitrary: i)
  case (Suc fuel)
  define n where "n = (case cap of None \<Rightarrow> maxListKeys limits | Some l \<Rightarrow> nat l)"
  have n: "1 \<le> n" "n \<le> maxListKeys limits" using cap kv_scope(4) [OF scope] by (auto simp: n_def split: option.split)
  have lim: "(case map_option js_int cap of None \<Rightarrow> js_int (int (maxListKeys limits)) | Some l \<Rightarrow> l) = js_int (int n)"
    using cap by (auto simp: n_def split: option.split)
  have "is_safe_integer (js_int (int n))" using n kv_scope(5) [OF scope] by (simp add: MAX_SAFE_def)
  then have page: "kv_list limits ns \<lparr>list_prefix = Some prefix, list_cursor = page_cursor ns prefix base i, list_limit = map_option js_int cap\<rparr> now es =
    Inr \<lparr>pg_keys = shown (take n (drop i base)), pg_complete = (length base - i \<le> n),
         pg_cursor = (if length base - i \<le> n then None else page_cursor ns prefix base (i + n))\<rparr>"
    using n Suc.prems(1) by (intro kv_list_page [OF scope p ok _ _ _ _ _ base]) (unfold lim, simp_all)
  show ?case
  proof (cases "length base - i \<le> n")
    case False
    then obtain t where t: "page_cursor ns prefix base (i + n) = Some t" "t = kv_cursor ns prefix (e_key (base ! (i + n - 1)))"
      using n by (auto simp: page_cursor_def)
    have "base ! (i + n - 1) \<in> set base" using False by (intro nth_mem) simp
    then obtain key where key: "keyBytes limits key = Inr (e_key (base ! (i + n - 1)))" "take (length b) (e_key (base ! (i + n - 1))) = b"
      using ok by (auto simp: base live_entries_def store_ok_def entry_ok_def)
    have "length (utf8_encode prefix) \<le> maxKeyBytes limits" using p by (auto simp: utf8_def Let_def split: if_splits)
    then have "t \<noteq> []" using cursor_accepted [OF scope _ key] t(2) by simp
    moreover have "kv_walk limits ns prefix (map_option js_int cap) now es fuel (Some t) = Some (Inr (shown (drop (i + n) base)))"
      using Suc.IH [of "i + n"] Suc.prems(2) False n by (simp add: t(1))
    moreover have "shown (take n (drop i base)) @ shown (drop (i + n) base) = shown (drop i base)"
      by (metis add.commute append_take_drop_id drop_drop map_append shown_def)
    ultimately show ?thesis using False by (simp add: page t(1))
  qed (simp add: page)
qed simp

section \<open>What is listed\<close>

lemma decode_append: "utf8_decode (utf8_encode p @ r) = p @ utf8_decode r"
proof (induction p)
  case (Cons c s)
  show ?case
  proof (cases "(of_char c :: nat) < 128")
    case False
    let ?n = "of_char c :: nat"
    have "?n < 256" by simp
    then have "?n div 64 < 4" "?n mod 64 < 64" by (simp_all add: less_mult_imp_div_less)
    then have codes: "(of_char (char_of (192 + ?n div 64) :: char) :: nat) = 192 + ?n div 64" "(of_char (char_of (128 + ?n mod 64) :: char) :: nat) = 128 + ?n mod 64"
      by simp_all
    have "?n div 64 * 64 + ?n mod 64 = ?n" by simp
    then show ?thesis using False Cons.IH codes by (simp add: utf8_encode_Cons del: of_char_of)
  qed (use Cons.IH in \<open>simp add: utf8_encode_Cons\<close>)
qed (simp add: utf8_nil)

lemma encoded_prefix: "take (length (utf8_encode p)) (utf8_encode key) = utf8_encode p \<longleftrightarrow> take (length p) key = p"
proof
  assume "take (length (utf8_encode p)) (utf8_encode key) = utf8_encode p"
  then obtain r where "utf8_encode key = utf8_encode p @ r" by (metis append_take_drop_id)
  then have "key = p @ utf8_decode r" by (metis decode_append utf8_roundtrip)
  then show "take (length p) key = p" by simp
next
  assume "take (length p) key = p"
  then obtain r where "key = p @ r" by (metis append_take_drop_id)
  then show "take (length (utf8_encode p)) (utf8_encode key) = utf8_encode p" by (simp add: utf8_append)
qed


lemma live_entries_set:
  assumes "store_ok limits ns es"
  shows "e \<in> set (live_entries ns (utf8_encode prefix) now es) \<longleftrightarrow>
    e \<in> set es \<and> e_namespace e = ns \<and> live now e \<and> take (length prefix) (utf8_decode (e_key e)) = prefix"
proof -
  have "take (length (utf8_encode prefix)) (e_key e) = utf8_encode prefix \<longleftrightarrow> take (length prefix) (utf8_decode (e_key e)) = prefix"
    if row: "e \<in> set es" "e_namespace e = ns"
  proof -
    obtain key where "keyBytes limits key = Inr (e_key e)" using row assms unfolding store_ok_def entry_ok_def by blast
    then show ?thesis using encoded_prefix [of prefix key] keyBytes_encode [of limits key "e_key e"] by (simp add: utf8_roundtrip)
  qed
  then show ?thesis by (auto simp: live_entries_def)
qed

lemma key_reads_back: "store_ok limits ns es \<Longrightarrow> e \<in> set es \<Longrightarrow> e_namespace e = ns \<Longrightarrow> utf8_encode (utf8_decode (e_key e)) = e_key e"
  unfolding store_ok_def entry_ok_def using keyBytes_encode utf8_roundtrip by metis

lemma listed_fields:
  assumes "entry_ok limits e"
  shows "ls_name (the (listed e)) = utf8_decode (e_key e)" "ls_expiration (the (listed e)) = e_expires e"
    "ls_metadata (the (listed e)) = Option.bind (e_metadata e) JSON_parse"
  using assms by (auto simp: listed_def entry_ok_def split: option.split)

lemma held_entry:
  assumes "keys_distinct es"
  shows "holds_at (kv_view es) (ns, k) now \<noteq> None \<longleftrightarrow> (\<exists>e\<in>set es. e_namespace e = ns \<and> e_key e = k \<and> live now e)"
  by (auto simp: find_live_view [OF assms] find_live_def find_None_iff entry_at_def)


text \<open>
  C32. Following the cursors lists the store.  For any page size the store allows, and whatever the
  keys and the prefix are, every cursor it hands out is accepted again, the loop ends within one
  round more than there are rows, and what it has seen is every key that holds a value at that time
  and starts with the prefix, each once, in byte order, with its own expiry and metadata.
\<close>

theorem kv_pages_complete:
  assumes scope: "createPgKv ns limits = Inr ()" and p: "length (utf8_encode prefix) \<le> maxKeyBytes limits"
    and ok: "store_ok limits ns es" and cap: "\<forall>l. cap = Some l \<longrightarrow> 1 \<le> l \<and> l \<le> int (maxListKeys limits)"
    and fuel: "length es < fuel"
  shows "\<exists>ls. kv_walk limits ns prefix (map_option js_int cap) now es fuel None = Some (Inr ls) \<and>
    sorted_wrt (<) (map (\<lambda>l. utf8_encode (ls_name l)) ls) \<and>
    (\<forall>key. key \<in> ls_name ` set ls \<longleftrightarrow> holds_at (kv_view es) (ns, utf8_encode key) now \<noteq> None \<and> take (length prefix) key = prefix) \<and>
    (\<forall>l\<in>set ls. \<exists>v m. kv_view es (ns, utf8_encode (ls_name l)) = Some (v, m, ls_expiration l) \<and> ls_metadata l = Option.bind m JSON_parse)"
proof -
  define base where "base = live_entries ns (utf8_encode prefix) now es"
  have dist: "keys_distinct es" using ok by (simp add: store_ok_def)
  have "length base \<le> length es" by (simp add: base_def live_entries_def)
  moreover have "utf8 prefix (maxKeyBytes limits) ''KV prefix'' True = Inr (utf8_encode prefix)"
    using p by (simp add: utf8_def utf8_roundtrip Let_def)
  ultimately have walk: "kv_walk limits ns prefix (map_option js_int cap) now es fuel None = Some (Inr (shown base))"
    using kv_walk_from [OF scope _ ok cap base_def, where i = 0 and fuel = fuel] fuel by (simp add: page_cursor_def)
  have entry: "entry_ok limits e" "e_namespace e = ns" "utf8_encode (utf8_decode (e_key e)) = e_key e" "e \<in> set es" if "e \<in> set base" for e
    using that ok key_reads_back [OF ok] by (auto simp: base_def live_entries_set [OF ok] store_ok_def)
  have names: "map (\<lambda>l. utf8_encode (ls_name l)) (shown base) = map e_key base"
    using entry(3) by (auto simp: shown_def listed_fields(1) [OF entry(1)])
  have "sorted_wrt (<) (map e_key base)"
    using live_distinct [OF dist, of ns _ now] by (simp add: base_def strict_sorted_iff)
  moreover have "ls_name ` set (shown base) = (\<lambda>e. utf8_decode (e_key e)) ` set base"
    by (auto simp: shown_def image_image listed_fields(1) [OF entry(1)] cong: image_cong_simp)
  then have "key \<in> ls_name ` set (shown base) \<longleftrightarrow> (\<exists>e\<in>set base. e_key e = utf8_encode key)" for key
    using entry(3) utf8_roundtrip by (metis (no_types, lifting) image_iff)
  moreover have live: "e \<in> set base \<longleftrightarrow> e \<in> set es \<and> e_namespace e = ns \<and> live now e \<and> take (length prefix) (utf8_decode (e_key e)) = prefix" for e
    by (simp add: base_def live_entries_set [OF ok])
  have "(\<exists>e\<in>set base. e_key e = utf8_encode key) \<longleftrightarrow>
      holds_at (kv_view es) (ns, utf8_encode key) now \<noteq> None \<and> take (length prefix) key = prefix" for key
    unfolding held_entry [OF dist] Bex_def live by (auto simp: utf8_roundtrip)
  moreover have "\<exists>v m. kv_view es (ns, utf8_encode (ls_name l)) = Some (v, m, ls_expiration l) \<and> ls_metadata l = Option.bind m JSON_parse"
    if l: "l \<in> set (shown base)" for l
  proof -
    obtain e where e: "e \<in> set base" "l = the (listed e)" using l by (auto simp: shown_def)
    have "kv_view es (ns, e_key e) = Some (e_value e, e_metadata e, e_expires e)"
      using kv_view_Some [OF dist entry(4) [OF e(1)]] entry(2) [OF e(1)] by (simp add: entry_id_def)
    then show ?thesis using entry(3) [OF e(1)] by (simp add: e(2) listed_fields [OF entry(1) [OF e(1)]])
  qed
  ultimately show ?thesis using walk names by auto
qed


lemma kv_pages_complete_witness:
  "\<exists>ls. kv_walk kv_defaults ''control'' ''a'' (Some (js_int 1)) 0
     [\<lparr>e_namespace = ''control'', e_key = ''ab'', e_value = ''1'', e_metadata = None, e_expires = None\<rparr>,
      \<lparr>e_namespace = ''control'', e_key = ''aa'', e_value = ''2'', e_metadata = None, e_expires = Some 60\<rparr>,
      \<lparr>e_namespace = ''control'', e_key = ''b'', e_value = ''3'', e_metadata = None, e_expires = None\<rparr>] 4 None = Some (Inr ls) \<and>
   ''aa'' \<in> ls_name ` set ls"
proof -
  let ?es = "[\<lparr>e_namespace = ''control'', e_key = ''ab'', e_value = ''1'', e_metadata = None, e_expires = None\<rparr>,
      \<lparr>e_namespace = ''control'', e_key = ''aa'', e_value = ''2'', e_metadata = None, e_expires = Some 60\<rparr>,
      \<lparr>e_namespace = ''control'', e_key = ''b'', e_value = ''3'', e_metadata = None, e_expires = None\<rparr>]"
  have scope: "createPgKv ''control'' kv_defaults = Inr ()"
    by (simp add: createPgKv_def utf8_def utf8_encode_def kv_defaults_def char_of_def)
  have keys: "keyBytes kv_defaults ''aa'' = Inr ''aa''" "keyBytes kv_defaults ''ab'' = Inr ''ab''" "keyBytes kv_defaults ''b'' = Inr ''b''"
    by (simp_all add: keyBytes_def utf8_def utf8_encode_def kv_defaults_def)
  then have "store_ok kv_defaults ''control'' ?es"
    by (auto simp: store_ok_def keys_distinct_def entry_id_def entry_ok_def)
  moreover have "length (utf8_encode ''a'') \<le> maxKeyBytes kv_defaults" by (simp add: utf8_encode_def kv_defaults_def)
  moreover have "\<forall>l. Some (1 :: int) = Some l \<longrightarrow> 1 \<le> l \<and> l \<le> int (maxListKeys kv_defaults)" by (simp add: kv_defaults_def)
  ultimately obtain ls where ls: "kv_walk kv_defaults ''control'' ''a'' (map_option js_int (Some 1)) 0 ?es 4 None = Some (Inr ls)"
    "''aa'' \<in> ls_name ` set ls \<longleftrightarrow> holds_at (kv_view ?es) (''control'', utf8_encode ''aa'') 0 \<noteq> None \<and> take (length ''a'') ''aa'' = ''a''"
    using kv_pages_complete [OF scope, of "''a''" ?es "Some 1" 4 0] by auto
  have "utf8_encode ''aa'' = ''aa''" by (simp add: utf8_encode_def)
  then have "''aa'' \<in> ls_name ` set ls" by (simp add: ls(2) holds_at_def kv_view_def entry_at_def)
  with ls(1) show ?thesis by auto
qed

end
