(* ===== verification/Wallet_Auth.thy ===== *)
theory Wallet_Auth
  imports Pg_Kv_Laws Alert_Triggers Ss58
begin

text \<open>
  Wallet identity (\<open>src/wallet-auth.ts\<close> with \<open>src/app-kv.ts\<close>): challenges issued into an expiring
  store and consumed when a signature over them is presented, and the stateless signed tokens of the
  two flows.  Arguments stand for BLAKE2b, sr25519 (which may throw), HMAC-SHA256 (\<open>sign\<close>), the random
  bytes and the clock.  A binding is a record of the methods it has over a state of the store.
\<close>

section \<open>The store an environment gives\<close>

record 's AppKv =
  m_get :: "(string \<Rightarrow> int \<Rightarrow> 's \<Rightarrow> kv_error + string option) option"
  m_put :: "(string \<Rightarrow> string \<Rightarrow> nat \<Rightarrow> int \<Rightarrow> 's \<Rightarrow> kv_error + 's) option"
  m_delete :: "(string \<Rightarrow> 's \<Rightarrow> kv_error + 's) option"
  m_list :: "(kv_list_settings \<Rightarrow> int \<Rightarrow> 's \<Rightarrow> kv_error + kv_page) option"
  m_consume :: "(string \<Rightarrow> int \<Rightarrow> 's \<Rightarrow> kv_error + string option \<times> 's) option"

text \<open>A key of the environment may be absent, or present with no value.\<close>

record 's AppKvEnv =
  CONTROL_KV_STORE :: "'s AppKv option option"
  METAGRAPH_CONTROL :: "'s AppKv option"

datatype wallet_fault = KvThrew kv_error | NativeIncomplete

definition nativeKv :: "'s AppKv option \<Rightarrow> wallet_fault + 's AppKv" where
  "nativeKv value =
     (case value of
        None \<Rightarrow> Inl NativeIncomplete
      | Some kv \<Rightarrow>
          if m_get kv = None \<or> m_put kv = None \<or> m_delete kv = None \<or> m_list kv = None \<or> m_consume kv = None
          then Inl NativeIncomplete else Inr kv)"

definition appKv :: "'s AppKvEnv option \<Rightarrow> wallet_fault + 's AppKv option" where
  "appKv env =
     (case env of
        None \<Rightarrow> Inr None
      | Some e \<Rightarrow>
          (case CONTROL_KV_STORE e of
             Some v \<Rightarrow> (case nativeKv v of Inl f \<Rightarrow> Inl f | Inr kv \<Rightarrow> Inr (Some kv))
           | None \<Rightarrow> Inr (METAGRAPH_CONTROL e)))"

definition canIssue :: "'s AppKv option \<Rightarrow> bool" where
  "canIssue kv \<longleftrightarrow> (case kv of None \<Rightarrow> False | Some k \<Rightarrow> m_put k \<noteq> None)"

definition canConsume :: "'s AppKv option \<Rightarrow> bool" where
  "canConsume kv \<longleftrightarrow> (case kv of None \<Rightarrow> False | Some k \<Rightarrow> m_get k \<noteq> None \<and> m_delete k \<noteq> None)"

text \<open>Without a native \<open>consume\<close> there are two calls, the read and the delete.\<close>

definition read_text :: "'s AppKv \<Rightarrow> string \<Rightarrow> int \<Rightarrow> 's \<Rightarrow> kv_error + string option" where
  "read_text kv key now s = the (m_get kv) key now s"

definition delete_read :: "'s AppKv \<Rightarrow> string \<Rightarrow> string option \<Rightarrow> 's \<Rightarrow> kv_error + string option \<times> 's" where
  "delete_read kv key value s =
     (if value = None then Inr (None, s)
      else case the (m_delete kv) key s of Inl e \<Rightarrow> Inl e | Inr s' \<Rightarrow> Inr (value, s'))"

definition consumeKvText :: "'s AppKv \<Rightarrow> string \<Rightarrow> int \<Rightarrow> 's \<Rightarrow> kv_error + string option \<times> 's" where
  "consumeKvText kv key now s =
     (case m_consume kv of
        Some consume \<Rightarrow> consume key now s
      | None \<Rightarrow> (case read_text kv key now s of Inl e \<Rightarrow> Inl e | Inr value \<Rightarrow> delete_read kv key value s))"

section \<open>Challenges\<close>

definition CHALLENGE_KV_PREFIX :: string where
  "CHALLENGE_KV_PREFIX = ''wallet-challenge:''"

definition WALLET_CHALLENGE_TTL_SECONDS :: nat where
  "WALLET_CHALLENGE_TTL_SECONDS = 300"

definition SESSION_TTL_SECONDS :: int where
  "SESSION_TTL_SECONDS = 3600"

definition WATCH_TOKEN_TTL_SECONDS :: int where
  "WATCH_TOKEN_TTL_SECONDS = 90 * 24 * 3600"

datatype WalletChallengePurpose = Login | Watch

datatype wallet_code = Invalid_ss58 | Challenge_store_unavailable | Challenge_expired_or_missing | Invalid_signature

definition randomHex :: "nat list \<Rightarrow> string" where
  "randomHex bytes = concat (map (\<lambda>b. [hex_char (b div 16), hex_char (b mod 16)]) bytes)"

fun hexToBytes :: "string \<Rightarrow> nat list" where
  "hexToBytes (a # b # r) = (16 * the (hex_digit_val a) + the (hex_digit_val b)) # hexToBytes r"
| "hexToBytes _ = []"

definition NEWLINE :: string where
  "NEWLINE = [CHR 0x0A]"

definition walletChallengeMessage :: "string \<Rightarrow> string \<Rightarrow> WalletChallengePurpose \<Rightarrow> string" where
  "walletChallengeMessage ss58 nonce purpose =
     (let preamble = (if purpose = Watch then ''metagraph.sh watch verification'' else ''metagraphed wallet login'')
      in preamble @ NEWLINE @ ''ss58: '' @ ss58 @ NEWLINE @ ''nonce: '' @ nonce)"

definition challengeKvKey :: "string \<Rightarrow> WalletChallengePurpose \<Rightarrow> string" where
  "challengeKvKey ss58 purpose =
     (case purpose of Login \<Rightarrow> CHALLENGE_KV_PREFIX @ ss58 | Watch \<Rightarrow> CHALLENGE_KV_PREFIX @ ''watch'' @ '':'' @ ss58)"

type_synonym hash_fun = "nat list \<Rightarrow> nat list"

definition wallet_key :: "hash_fun \<Rightarrow> string \<Rightarrow> nat list option" where
  "wallet_key blake2b ss58 =
     (case decodeSs58 blake2b (VStr ss58) of
        None \<Rightarrow> None
      | Some (prefix, publicKey) \<Rightarrow> if prefix \<noteq> DEFAULT_SS58_PREFIX then None else Some publicKey)"

definition issueWalletChallenge ::
    "hash_fun \<Rightarrow> 's AppKvEnv option \<Rightarrow> string \<Rightarrow> WalletChallengePurpose \<Rightarrow> nat list \<Rightarrow> int \<Rightarrow> 's \<Rightarrow>
     wallet_fault + (wallet_code + string \<times> nat) \<times> 's" where
  "issueWalletChallenge blake2b env ss58 purpose random now s =
     (if wallet_key blake2b ss58 = None then Inr (Inl Invalid_ss58, s)
      else case appKv env of
             Inl f \<Rightarrow> Inl f
           | Inr kv \<Rightarrow>
               if \<not> canIssue kv then Inr (Inl Challenge_store_unavailable, s)
               else let nonce = randomHex random
                    in case the (m_put (the kv)) (challengeKvKey ss58 purpose) nonce WALLET_CHALLENGE_TTL_SECONDS now s of
                         Inl e \<Rightarrow> Inl (KvThrew e)
                       | Inr s' \<Rightarrow> Inr (Inr (walletChallengeMessage ss58 nonce purpose, WALLET_CHALLENGE_TTL_SECONDS), s'))"

definition challengeSignatureForms :: "string \<Rightarrow> string list" where
  "challengeSignatureForms message = [''<Bytes>'' @ message @ ''</Bytes>'', message]"

text \<open>A verifier's answer, or that it threw.\<close>

type_synonym sr25519 = "string \<Rightarrow> nat list \<Rightarrow> nat list \<Rightarrow> bool option"

definition signature_hex :: "jsval \<Rightarrow> string option" where
  "signature_hex v =
     (case v of VStr s \<Rightarrow> if length s = 128 \<and> list_all (\<lambda>c. hex_digit_val c \<noteq> None) s then Some s else None | _ \<Rightarrow> None)"

definition signature_verifies :: "sr25519 \<Rightarrow> nat list \<Rightarrow> string \<Rightarrow> string \<Rightarrow> bool" where
  "signature_verifies sr25519Verify publicKey signatureHex message =
     list_ex (\<lambda>candidate. sr25519Verify candidate (hexToBytes (lower signatureHex)) publicKey = Some True)
       (challengeSignatureForms (utf8_encode message))"

text \<open>What follows once the nonce has been consumed.\<close>

definition check_signature ::
    "sr25519 \<Rightarrow> nat list \<Rightarrow> string \<Rightarrow> jsval \<Rightarrow> WalletChallengePurpose \<Rightarrow> string option \<Rightarrow> wallet_code + unit" where
  "check_signature sr25519Verify publicKey ss58 signatureHex purpose nonce =
     (case nonce of
        None \<Rightarrow> Inl Challenge_expired_or_missing
      | Some n \<Rightarrow>
          if n = [] then Inl Challenge_expired_or_missing
          else case signature_hex signatureHex of
                 None \<Rightarrow> Inl Invalid_signature
               | Some hex \<Rightarrow>
                   if \<not> signature_verifies sr25519Verify publicKey hex (walletChallengeMessage ss58 n purpose)
                   then Inl Invalid_signature else Inr ())"

definition verifyWalletChallenge ::
    "hash_fun \<Rightarrow> sr25519 \<Rightarrow> 's AppKvEnv option \<Rightarrow> string \<Rightarrow> jsval \<Rightarrow> WalletChallengePurpose \<Rightarrow> int \<Rightarrow> 's \<Rightarrow>
     wallet_fault + (wallet_code + unit) \<times> 's" where
  "verifyWalletChallenge blake2b sr25519Verify env ss58 signatureHex purpose now s =
     (case wallet_key blake2b ss58 of
        None \<Rightarrow> Inr (Inl Invalid_ss58, s)
      | Some publicKey \<Rightarrow>
          (case appKv env of
             Inl f \<Rightarrow> Inl f
           | Inr kv \<Rightarrow>
               if \<not> canConsume kv then Inr (Inl Challenge_store_unavailable, s)
               else case consumeKvText (the kv) (challengeKvKey ss58 purpose) now s of
                      Inl e \<Rightarrow> Inl (KvThrew e)
                    | Inr (nonce, s') \<Rightarrow> Inr (check_signature sr25519Verify publicKey ss58 signatureHex purpose nonce, s')))"

section \<open>Tokens\<close>

type_synonym sign_fun = "string \<Rightarrow> string \<Rightarrow> string"

definition signed_token :: "sign_fun \<Rightarrow> string \<Rightarrow> json \<Rightarrow> string" where
  "signed_token sign secret payload =
     (let encoded = base64UrlEncodeBytes (utf8_encode (the (json_stringify payload)))
      in encoded @ ''.'' @ sign secret encoded)"

definition createSessionToken :: "sign_fun \<Rightarrow> string \<Rightarrow> jsval \<Rightarrow> string \<Rightarrow> int \<Rightarrow> string" where
  "createSessionToken sign secret accountId ss58 now =
     signed_token sign secret (JObj [(''account_id'', JVal (VNum (js_number accountId))), (''ss58'', JStr ss58),
       (''exp'', JInt (now div 1000 + SESSION_TTL_SECONDS))])"

definition createTriggerToken :: "sign_fun \<Rightarrow> string \<Rightarrow> string \<Rightarrow> int \<Rightarrow> string" where
  "createTriggerToken sign secret ss58 now =
     signed_token sign secret (JObj [(''ss58'', JStr ss58), (''purpose'', JStr ''trigger''),
       (''exp'', JInt (now div 1000 + WATCH_TOKEN_TTL_SECONDS))])"

text \<open>Split at the last dot.\<close>

definition last_dot :: "string \<Rightarrow> (string \<times> string) option" where
  "last_dot token =
     (case dropWhile (\<lambda>c. c \<noteq> CHR ''.'') (rev token) of
        [] \<Rightarrow> None
      | _ # r \<Rightarrow> Some (rev r, rev (takeWhile (\<lambda>c. c \<noteq> CHR ''.'') (rev token))))"

text \<open>What both verifiers do before they look at the payload's shape.\<close>

definition token_payload :: "sign_fun \<Rightarrow> string \<Rightarrow> jsval \<Rightarrow> json option" where
  "token_payload sign secret token =
     (case token of
        VStr t \<Rightarrow>
          (case last_dot t of
             None \<Rightarrow> None
           | Some (encoded, signature) \<Rightarrow>
               if encoded = [] \<or> signature = [] then None
               else if \<not> timingSafeEqual signature (sign secret encoded) then None
               else case base64UrlDecodeToBytes encoded of
                      None \<Rightarrow> None
                    | Some bytes \<Rightarrow> JSON_parse (utf8_decode bytes))
      | _ \<Rightarrow> None)"

fun exp_passed :: "jsnum \<Rightarrow> int \<Rightarrow> bool" where
  "exp_passed (Fin q) now = (q < of_int (now div 1000))"
| "exp_passed NegInf now = True"
| "exp_passed _ now = False"

definition account_id_of :: "json \<Rightarrow> jsnum option" where
  "account_id_of payload =
     (case get_prop payload ''account_id'' of
        JVal (VNum n) \<Rightarrow> Some n
      | JVal (VStr s) \<Rightarrow> if s \<noteq> [] \<and> list_all is_digit s then Some (string_to_number s) else None
      | _ \<Rightarrow> None)"

definition verifySessionToken :: "sign_fun \<Rightarrow> string \<Rightarrow> jsval \<Rightarrow> int \<Rightarrow> (jsnum \<times> string) option" where
  "verifySessionToken sign secret token now =
     (case token_payload sign secret token of
        None \<Rightarrow> None
      | Some payload \<Rightarrow>
          (case (account_id_of payload, get_prop payload ''ss58'', get_prop payload ''exp'') of
             (Some accountId, JVal (VStr ss58), JVal (VNum expiry)) \<Rightarrow>
               if \<not> is_finite_num accountId \<or> exp_passed expiry now then None else Some (accountId, ss58)
           | _ \<Rightarrow> None))"

definition verifyTriggerToken :: "sign_fun \<Rightarrow> string \<Rightarrow> jsval \<Rightarrow> int \<Rightarrow> string option" where
  "verifyTriggerToken sign secret token now =
     (case token_payload sign secret token of
        None \<Rightarrow> None
      | Some payload \<Rightarrow>
          (case (get_prop payload ''ss58'', get_prop payload ''exp'') of
             (JVal (VStr ss58), JVal (VNum expiry)) \<Rightarrow>
               if get_prop payload ''purpose'' \<noteq> JStr ''trigger'' \<or> exp_passed expiry now then None else Some ss58
           | _ \<Rightarrow> None))"

end
