(* ===== verification/Wallet_Laws.thy ===== *)
theory Wallet_Laws
  imports Wallet_Auth
begin

text \<open>
  What the wallet identity promises: a challenge is used once, by a signature over it and nothing
  else, within its lifetime, and the tokens say what was signed until they expire.  The store behind
  it is an interface, the locale \<open>challenge_store\<close>, which the native key-value store provides.
\<close>

section \<open>Addresses, keys, messages\<close>

lemma base58_digits: "base58_number n s = Some m \<Longrightarrow> set s \<subseteq> set BASE58_ALPHABET"
proof (induction s arbitrary: n)
  case (Cons c s)
  have "index_of c xs = Some i \<Longrightarrow> c \<in> set xs" for xs i
    by (induction xs arbitrary: i) (auto split: if_splits)
  then show ?case using Cons by (auto split: option.splits)
qed simp

lemma wallet_address_chars:
  assumes "wallet_key h a = Some pk"
  shows "CHR '':'' \<notin> set a" "CHR 0x0A \<notin> set a"
proof -
  have "set a \<subseteq> set BASE58_ALPHABET"
    using assms base58_digits by (auto simp: wallet_key_def decodeSs58_def decodeBase58_def split: option.splits if_splits)
  then show "CHR '':'' \<notin> set a" "CHR 0x0A \<notin> set a" by (auto simp: BASE58_ALPHABET_def)
qed

lemma challenge_key_inject:
  assumes "wallet_key h a = Some pk" "wallet_key h a' = Some pk'"
  shows "challengeKvKey a p = challengeKvKey a' p' \<longleftrightarrow> a = a' \<and> p = p'"
  using wallet_address_chars(1) [OF assms(1)] wallet_address_chars(1) [OF assms(2)]
  by (cases p; cases p') (auto simp: challengeKvKey_def)

definition challenge_key :: "string \<Rightarrow> bool" where
  "challenge_key key \<longleftrightarrow> take (length CHALLENGE_KV_PREFIX) key = CHALLENGE_KV_PREFIX"

lemma challenge_key_kv [simp]: "challenge_key (challengeKvKey a p)"
  by (cases p) (simp_all add: challenge_key_def challengeKvKey_def CHALLENGE_KV_PREFIX_def)

lemma newline_split:
  assumes "CHR 0x0A \<notin> set a" "CHR 0x0A \<notin> set b"
  shows "a @ CHR 0x0A # r = b @ CHR 0x0A # t \<longleftrightarrow> a = b \<and> r = t"
  using assms
proof (induction a arbitrary: b)
  case Nil
  then show ?case by (cases b) auto
next
  case (Cons c a)
  then show ?case by (cases b) auto
qed

lemma message_inject:
  assumes "wallet_key h a = Some pk" "wallet_key h a' = Some pk'"
  shows "walletChallengeMessage a n p = walletChallengeMessage a' n' p' \<longleftrightarrow> a = a' \<and> n = n' \<and> p = p'"
  using newline_split [OF wallet_address_chars(2) [OF assms(1)] wallet_address_chars(2) [OF assms(2)]]
  by (cases p; cases p') (auto simp: walletChallengeMessage_def NEWLINE_def)

lemma message_starts: "\<exists>r. walletChallengeMessage a n p = CHR ''m'' # r"
  by (cases p) (simp_all add: walletChallengeMessage_def)

lemma utf8_inject: "utf8_encode s = utf8_encode t \<longleftrightarrow> s = t"
  by (metis utf8_roundtrip)

text \<open>
  A signature over one challenge is over no other: the two byte strings a wallet may sign for a
  challenge, the wrapped and the bare one, are those of no challenge for another address, another
  nonce or the other purpose.
\<close>

theorem forms_domain_separated:
  assumes "wallet_key blake2b a = Some pk" and "wallet_key blake2b a' = Some pk'"
    and "form \<in> set (challengeSignatureForms (utf8_encode (walletChallengeMessage a n p)))"
    and "form \<in> set (challengeSignatureForms (utf8_encode (walletChallengeMessage a' n' p')))"
  shows "a = a' \<and> n = n' \<and> p = p'"
proof -
  obtain r r' where m: "walletChallengeMessage a n p = CHR ''m'' # r" "walletChallengeMessage a' n' p' = CHR ''m'' # r'"
    using message_starts by blast
  then have "utf8_encode (walletChallengeMessage a n p) = CHR ''m'' # utf8_encode r"
    "utf8_encode (walletChallengeMessage a' n' p') = CHR ''m'' # utf8_encode r'"
    by (simp_all add: utf8_encode_Cons)
  then have "utf8_encode (walletChallengeMessage a n p) = utf8_encode (walletChallengeMessage a' n' p')"
    using assms(3,4) by (auto simp: challengeSignatureForms_def)
  then show ?thesis using message_inject [OF assms(1,2)] by (simp add: utf8_inject)
qed


lemma forms_domain_separated_witness:
  "\<exists>a pk. wallet_key sample_hash a = Some pk \<and>
     utf8_encode (walletChallengeMessage a ''00'' Login) \<notin> set (challengeSignatureForms (utf8_encode (walletChallengeMessage a ''00'' Watch)))"
proof -
  obtain a where a: "decodeSs58 sample_hash (VStr a) = Some (42, replicate 32 5)"
    using encodeAccountId32_eq [OF hash_ok_sample, of "replicate 32 5" 42] decode_encode_address [OF hash_ok_sample, of "replicate 32 5" 42]
    by (force simp: list_all_iff)
  then have k: "wallet_key sample_hash a = Some (replicate 32 5)" by (simp add: wallet_key_def DEFAULT_SS58_PREFIX_def)
  have "\<not> utf8_encode (walletChallengeMessage a ''00'' Login) \<in> set (challengeSignatureForms (utf8_encode (walletChallengeMessage a ''00'' Watch)))"
  proof
    assume w: "utf8_encode (walletChallengeMessage a ''00'' Login) \<in> set (challengeSignatureForms (utf8_encode (walletChallengeMessage a ''00'' Watch)))"
    have "utf8_encode (walletChallengeMessage a ''00'' Login) \<in> set (challengeSignatureForms (utf8_encode (walletChallengeMessage a ''00'' Login)))"
      by (simp add: challengeSignatureForms_def)
    from forms_domain_separated [OF k k this w] show False by simp
  qed
  with k show ?thesis by blast
qed

section \<open>The store behind the challenges\<close>

type_synonym 's peek = "'s \<Rightarrow> string \<Rightarrow> (string \<times> int option) option"

locale challenge_store =
  fixes kv :: "'s AppKv" and peek :: "'s peek" and sound :: "'s \<Rightarrow> bool"
  assumes complete: "nativeKv (Some kv) = Inr kv"
    and put: "sound s \<Longrightarrow> the (m_put kv) key v ttl now s = Inr s' \<Longrightarrow>
      sound s' \<and> peek s' = (peek s)(key \<mapsto> (v, Some (now div 1000 + int ttl)))"
    and consume: "sound s \<Longrightarrow> the (m_consume kv) key now s = Inr (r, s') \<Longrightarrow>
      (case r of
         None \<Rightarrow> s' = s \<and> (\<forall>v x. peek s key = Some (v, Some x) \<longrightarrow> x \<le> now div 1000)
       | Some v \<Rightarrow> sound s' \<and> peek s' = (peek s)(key := None) \<and>
           (\<exists>x. peek s key = Some (v, x) \<and> (\<forall>t. x = Some t \<longrightarrow> now div 1000 < t)))"

definition native_env :: "'s AppKv \<Rightarrow> 's AppKvEnv option" where
  "native_env kv = Some \<lparr>CONTROL_KV_STORE = Some (Some kv), METAGRAPH_CONTROL = None\<rparr>"

section \<open>The service in operation\<close>

record challenge =
  c_ss58 :: string
  c_purpose :: WalletChallengePurpose
  c_nonce :: string
  c_time :: int

text \<open>A nonce taken out of the store by a verification, with what was presented and the outcome.\<close>

record attempt =
  at_ss58 :: string
  at_purpose :: WalletChallengePurpose
  at_nonce :: string
  at_time :: int
  at_signature :: jsval
  at_ok :: bool

record 's wallet_system =
  ws_now :: int
  ws_store :: 's
  ws_issued :: "challenge list"
  ws_attempts :: "attempt list"

inductive wallet_step ::
    "hash_fun \<Rightarrow> sr25519 \<Rightarrow> 's AppKv \<Rightarrow> 's peek \<Rightarrow> ('s \<Rightarrow> bool) \<Rightarrow> 's wallet_system \<Rightarrow> 's wallet_system \<Rightarrow> bool"
  for blake2b :: hash_fun and sr :: sr25519 and kv :: "'s AppKv" and peek :: "'s peek" and sound :: "'s \<Rightarrow> bool" where
  ws_tick: "ws_now w \<le> t \<Longrightarrow> wallet_step blake2b sr kv peek sound w (w\<lparr>ws_now := t\<rparr>)"
| ws_issue: "issueWalletChallenge blake2b (native_env kv) ss58 purpose random (ws_now w) (ws_store w) = Inr (Inr msg, s') \<Longrightarrow>
    length random = 16 \<Longrightarrow> randomHex random \<notin> c_nonce ` set (ws_issued w) \<Longrightarrow>
    wallet_step blake2b sr kv peek sound w
      (w\<lparr>ws_store := s',
         ws_issued := \<lparr>c_ss58 = ss58, c_purpose = purpose, c_nonce = randomHex random, c_time = ws_now w\<rparr> # ws_issued w\<rparr>)"
| ws_verify: "verifyWalletChallenge blake2b sr (native_env kv) ss58 signatureHex purpose (ws_now w) (ws_store w) = Inr (r, s') \<Longrightarrow>
    r \<notin> {Inl Invalid_ss58, Inl Challenge_store_unavailable, Inl Challenge_expired_or_missing} \<Longrightarrow>
    peek (ws_store w) (challengeKvKey ss58 purpose) = Some (nonce, x) \<Longrightarrow>
    wallet_step blake2b sr kv peek sound w
      (w\<lparr>ws_store := s',
         ws_attempts := \<lparr>at_ss58 = ss58, at_purpose = purpose, at_nonce = nonce, at_time = ws_now w,
                          at_signature = signatureHex, at_ok = (r = Inr ())\<rparr> # ws_attempts w\<rparr>)"
| ws_missing: "verifyWalletChallenge blake2b sr (native_env kv) ss58 signatureHex purpose (ws_now w) (ws_store w) = Inr (Inl Challenge_expired_or_missing, s') \<Longrightarrow>
    wallet_step blake2b sr kv peek sound w (w\<lparr>ws_store := s'\<rparr>)"
| ws_other: "sound s' \<Longrightarrow> (\<And>key. challenge_key key \<Longrightarrow> peek s' key = peek (ws_store w) key \<or> peek s' key = None) \<Longrightarrow>
    wallet_step blake2b sr kv peek sound w (w\<lparr>ws_store := s'\<rparr>)"


definition attempt_sound :: "hash_fun \<Rightarrow> sr25519 \<Rightarrow> challenge list \<Rightarrow> attempt \<Rightarrow> bool" where
  "attempt_sound blake2b sr issued a \<longleftrightarrow>
     (\<exists>c\<in>set issued. c_ss58 c = at_ss58 a \<and> c_purpose c = at_purpose a \<and> c_nonce c = at_nonce a \<and>
        c_time c \<le> at_time a \<and> at_time a div 1000 < c_time c div 1000 + 300) \<and>
     (at_ok a \<longrightarrow> (\<exists>publicKey hex. wallet_key blake2b (at_ss58 a) = Some publicKey \<and> signature_hex (at_signature a) = Some hex \<and>
        signature_verifies sr publicKey hex (walletChallengeMessage (at_ss58 a) (at_nonce a) (at_purpose a))))"

text \<open>What the store holds under a challenge's key: a nonce issued for it that nobody has used.\<close>

definition pending_sound :: "'s peek \<Rightarrow> 's wallet_system \<Rightarrow> bool" where
  "pending_sound peek w \<longleftrightarrow>
     (\<forall>key v x. challenge_key key \<longrightarrow> peek (ws_store w) key = Some (v, x) \<longrightarrow> v \<notin> at_nonce ` set (ws_attempts w) \<and>
        (\<exists>c\<in>set (ws_issued w). key = challengeKvKey (c_ss58 c) (c_purpose c) \<and> v = c_nonce c \<and> x = Some (c_time c div 1000 + 300)))"

definition wallet_inv :: "hash_fun \<Rightarrow> sr25519 \<Rightarrow> 's peek \<Rightarrow> ('s \<Rightarrow> bool) \<Rightarrow> 's wallet_system \<Rightarrow> bool" where
  "wallet_inv blake2b sr peek sound w \<longleftrightarrow>
     sound (ws_store w) \<and> distinct (map c_nonce (ws_issued w)) \<and>
     (\<forall>c\<in>set (ws_issued w). wallet_key blake2b (c_ss58 c) \<noteq> None \<and> c_time c \<le> ws_now w) \<and>
     pending_sound peek w \<and> distinct (map at_nonce (ws_attempts w)) \<and>
     (\<forall>a\<in>set (ws_attempts w). attempt_sound blake2b sr (ws_issued w) a)"

lemma attempt_sound_mono: "attempt_sound h sr cs a \<Longrightarrow> set cs \<subseteq> set cs' \<Longrightarrow> attempt_sound h sr cs' a"
  by (auto simp: attempt_sound_def)

lemma attempt_nonce: "\<forall>a\<in>set as. attempt_sound h sr cs a \<Longrightarrow> at_nonce ` set as \<subseteq> c_nonce ` set cs"
  by (force simp: attempt_sound_def)

lemma appKv_native: "nativeKv (Some kv) = Inr kv \<Longrightarrow> appKv (native_env kv) = Inr (Some kv)"
  by (simp add: appKv_def native_env_def)

lemma nativeKv_methods: "nativeKv (Some kv) = Inr kv \<Longrightarrow> canIssue (Some kv) \<and> canConsume (Some kv) \<and> m_consume kv \<noteq> None"
  by (auto simp: nativeKv_def canIssue_def canConsume_def split: if_splits)

lemma check_signature_cases:
  "check_signature sr pk ss58 sig p None = Inl Challenge_expired_or_missing"
  "check_signature sr pk ss58 sig p nonce = Inr () \<Longrightarrow>
     \<exists>n hex. nonce = Some n \<and> signature_hex sig = Some hex \<and> signature_verifies sr pk hex (walletChallengeMessage ss58 n p)"
  by (auto simp: check_signature_def split: option.splits if_splits)

context challenge_store begin

lemma issue_store:
  assumes "sound s" and "issueWalletChallenge h (native_env kv) ss58 p random now s = Inr (Inr msg, s')"
  shows "wallet_key h ss58 \<noteq> None \<and> sound s' \<and>
    peek s' = (peek s)(challengeKvKey ss58 p \<mapsto> (randomHex random, Some (now div 1000 + 300)))"
proof -
  have "the (m_put kv) (challengeKvKey ss58 p) (randomHex random) 300 now s = Inr s'" "wallet_key h ss58 \<noteq> None"
    using assms(2) nativeKv_methods [OF complete]
    by (auto simp: issueWalletChallenge_def appKv_native [OF complete] Let_def WALLET_CHALLENGE_TTL_SECONDS_def split: if_splits sum.splits)
  with put [OF assms(1) this(1)] show ?thesis by simp
qed

lemma verify_store:
  assumes "verifyWalletChallenge h sr (native_env kv) ss58 sig p now s = Inr (r, s')" and "r \<noteq> Inl Invalid_ss58"
  obtains pk nonce where "wallet_key h ss58 = Some pk" "the (m_consume kv) (challengeKvKey ss58 p) now s = Inr (nonce, s')"
    "r = check_signature sr pk ss58 sig p nonce"
proof -
  obtain pk where pk: "wallet_key h ss58 = Some pk"
    using assms by (auto simp: verifyWalletChallenge_def split: option.splits)
  obtain consume where c: "m_consume kv = Some consume" using nativeKv_methods [OF complete] by auto
  have "\<exists>nonce. consume (challengeKvKey ss58 p) now s = Inr (nonce, s') \<and> r = check_signature sr pk ss58 sig p nonce"
    using assms(1) nativeKv_methods [OF complete] pk
    by (auto simp: verifyWalletChallenge_def appKv_native [OF complete] consumeKvText_def c split: sum.splits)
  then show thesis using that pk c by auto
qed

text \<open>A verification that gets past the missing challenge has taken a nonce out of the store.\<close>

lemma verify_takes:
  assumes "sound s" and "verifyWalletChallenge h sr (native_env kv) ss58 sig p now s = Inr (r, s')"
    and "r \<notin> {Inl Invalid_ss58, Inl Challenge_store_unavailable, Inl Challenge_expired_or_missing}"
  obtains pk n x where "wallet_key h ss58 = Some pk" "r = check_signature sr pk ss58 sig p (Some n)" "sound s'"
    "peek s' = (peek s)(challengeKvKey ss58 p := None)" "peek s (challengeKvKey ss58 p) = Some (n, x)" "\<forall>t. x = Some t \<longrightarrow> now div 1000 < t"
proof -
  obtain pk nonce where v: "wallet_key h ss58 = Some pk" "the (m_consume kv) (challengeKvKey ss58 p) now s = Inr (nonce, s')"
    "r = check_signature sr pk ss58 sig p nonce" using assms(2,3) by (auto intro: verify_store)
  then obtain n where n: "nonce = Some n" using assms(3) check_signature_cases(1) by (cases nonce) auto
  from consume [OF assms(1) v(2)] v(1,3) that show thesis by (auto simp: n)
qed

lemma missing_store:
  assumes "sound s" and "verifyWalletChallenge h sr (native_env kv) ss58 sig p now s = Inr (r, s')"
  shows "sound s' \<and> (peek s' key = peek s key \<or> peek s' key = None)"
proof (cases "r = Inl Invalid_ss58")
  case True
  then have "s' = s"
    using assms(2) nativeKv_methods [OF complete]
    by (auto simp: verifyWalletChallenge_def appKv_native [OF complete] check_signature_def split: option.splits sum.splits if_splits)
  then show ?thesis using assms(1) by simp
next
  case False
  obtain nonce where "the (m_consume kv) (challengeKvKey ss58 p) now s = Inr (nonce, s')"
    using verify_store [OF assms(2) False] by blast
  from consume [OF assms(1) this] assms(1) show ?thesis by (cases nonce) auto
qed

lemma issue_keeps:
  assumes i: "wallet_inv h sr peek sound w" and fresh: "randomHex random \<notin> c_nonce ` set (ws_issued w)"
    and call: "issueWalletChallenge h (native_env kv) ss58 p random (ws_now w) (ws_store w) = Inr (Inr msg, s')"
  shows "wallet_inv h sr peek sound (w\<lparr>ws_store := s',
    ws_issued := \<lparr>c_ss58 = ss58, c_purpose = p, c_nonce = randomHex random, c_time = ws_now w\<rparr> # ws_issued w\<rparr>)"
    (is "wallet_inv h sr peek sound ?w")
proof -
  let ?c = "\<lparr>c_ss58 = ss58, c_purpose = p, c_nonce = randomHex random, c_time = ws_now w\<rparr>"
  have s: "sound (ws_store w)" and attempts: "\<forall>a\<in>set (ws_attempts w). attempt_sound h sr (ws_issued w) a" and old: "pending_sound peek w"
    using i by (simp_all add: wallet_inv_def)
  note st = issue_store [OF s call]
  have unused: "randomHex random \<notin> at_nonce ` set (ws_attempts w)"
    using attempts fresh attempt_nonce by blast
  have "pending_sound peek ?w"
    unfolding pending_sound_def
  proof (intro allI impI)
    fix key v x
    assume "challenge_key key" "peek (ws_store ?w) key = Some (v, x)"
    then show "v \<notin> at_nonce ` set (ws_attempts ?w) \<and>
      (\<exists>c\<in>set (ws_issued ?w). key = challengeKvKey (c_ss58 c) (c_purpose c) \<and> v = c_nonce c \<and> x = Some (c_time c div 1000 + 300))"
      using st old unused by (cases "key = challengeKvKey ss58 p") (auto simp: pending_sound_def)
  qed
  moreover have "attempt_sound h sr (?c # ws_issued w) a" if "a \<in> set (ws_attempts w)" for a
    using attempts that by (auto intro: attempt_sound_mono)
  ultimately show ?thesis using i fresh st by (simp add: wallet_inv_def)
qed

lemma verify_keeps:
  assumes i: "wallet_inv h sr peek sound w"
    and call: "verifyWalletChallenge h sr (native_env kv) ss58 sig p (ws_now w) (ws_store w) = Inr (r, s')"
    and r: "r \<notin> {Inl Invalid_ss58, Inl Challenge_store_unavailable, Inl Challenge_expired_or_missing}"
    and held: "peek (ws_store w) (challengeKvKey ss58 p) = Some (nonce, y)"
  shows "wallet_inv h sr peek sound (w\<lparr>ws_store := s',
    ws_attempts := \<lparr>at_ss58 = ss58, at_purpose = p, at_nonce = nonce, at_time = ws_now w, at_signature = sig, at_ok = (r = Inr ())\<rparr> # ws_attempts w\<rparr>)"
    (is "wallet_inv h sr peek sound ?w")
proof -
  let ?a = "\<lparr>at_ss58 = ss58, at_purpose = p, at_nonce = nonce, at_time = ws_now w, at_signature = sig, at_ok = (r = Inr ())\<rparr>"
  have s: "sound (ws_store w)" and pend: "pending_sound peek w"
    and issued: "\<forall>c\<in>set (ws_issued w). wallet_key h (c_ss58 c) \<noteq> None \<and> c_time c \<le> ws_now w" "distinct (map c_nonce (ws_issued w))"
    using i by (simp_all add: wallet_inv_def)
  obtain pk n x where v: "wallet_key h ss58 = Some pk" "r = check_signature sr pk ss58 sig p (Some n)" "sound s'"
    "peek s' = (peek (ws_store w))(challengeKvKey ss58 p := None)" "peek (ws_store w) (challengeKvKey ss58 p) = Some (n, x)"
    "\<forall>t. x = Some t \<longrightarrow> ws_now w div 1000 < t" by (rule verify_takes [OF s call r])
  have n: "n = nonce" "x = y" using v(5) held by simp_all
  obtain c where c: "c \<in> set (ws_issued w)" "challengeKvKey ss58 p = challengeKvKey (c_ss58 c) (c_purpose c)" "nonce = c_nonce c"
    "y = Some (c_time c div 1000 + 300)" and unused: "nonce \<notin> at_nonce ` set (ws_attempts w)"
    using pend held unfolding pending_sound_def by (metis challenge_key_kv)
  obtain pk' where "wallet_key h (c_ss58 c) = Some pk'" using issued(1) c(1) by auto
  then have same: "c_ss58 c = ss58" "c_purpose c = p" using challenge_key_inject [OF v(1)] c(2) by auto
  have "attempt_sound h sr (ws_issued w) ?a"
    unfolding attempt_sound_def
  proof (intro conjI impI)
    show "\<exists>c\<in>set (ws_issued w). c_ss58 c = at_ss58 ?a \<and> c_purpose c = at_purpose ?a \<and> c_nonce c = at_nonce ?a \<and>
        c_time c \<le> at_time ?a \<and> at_time ?a div 1000 < c_time c div 1000 + 300"
      using c same issued(1) v(6) n by (intro bexI [of _ c]) auto
    show "\<exists>publicKey hex. wallet_key h (at_ss58 ?a) = Some publicKey \<and> signature_hex (at_signature ?a) = Some hex \<and>
        signature_verifies sr publicKey hex (walletChallengeMessage (at_ss58 ?a) (at_nonce ?a) (at_purpose ?a))" if "at_ok ?a"
      using that v(1,2) check_signature_cases(2) [of sr pk ss58 sig p "Some n"] n by auto
  qed
  moreover have "pending_sound peek ?w"
    unfolding pending_sound_def
  proof (intro allI impI)
    fix key v' x'
    assume key: "challenge_key key" and here: "peek (ws_store ?w) key = Some (v', x')"
    then have other: "key \<noteq> challengeKvKey ss58 p" "peek (ws_store w) key = Some (v', x')" using v(4) by (auto split: if_splits)
    then obtain d where d: "d \<in> set (ws_issued w)" "key = challengeKvKey (c_ss58 d) (c_purpose d)" "v' = c_nonce d"
      "x' = Some (c_time d div 1000 + 300)" "v' \<notin> at_nonce ` set (ws_attempts w)"
      using pend key unfolding pending_sound_def by metis
    have "v' \<noteq> nonce" using d(1,2,3) c(1,3) other(1) same issued(2) by (auto simp: distinct_map dest: inj_onD)
    with d show "v' \<notin> at_nonce ` set (ws_attempts ?w) \<and>
      (\<exists>c\<in>set (ws_issued ?w). key = challengeKvKey (c_ss58 c) (c_purpose c) \<and> v' = c_nonce c \<and> x' = Some (c_time c div 1000 + 300))"
      by auto
  qed
  ultimately show ?thesis using i v(3) unused by (simp add: wallet_inv_def)
qed

lemma dropped_keeps:
  assumes i: "wallet_inv h sr peek sound w" and s: "sound s'"
    and held: "\<And>key. challenge_key key \<Longrightarrow> peek s' key = peek (ws_store w) key \<or> peek s' key = None"
  shows "wallet_inv h sr peek sound (w\<lparr>ws_store := s'\<rparr>)"
proof -
  have "pending_sound peek (w\<lparr>ws_store := s'\<rparr>)"
    unfolding pending_sound_def
  proof (intro allI impI)
    fix key v x
    assume k: "challenge_key key" and "peek (ws_store (w\<lparr>ws_store := s'\<rparr>)) key = Some (v, x)"
    then have "peek (ws_store w) key = Some (v, x)" using held [OF k] by auto
    then show "v \<notin> at_nonce ` set (ws_attempts (w\<lparr>ws_store := s'\<rparr>)) \<and>
      (\<exists>c\<in>set (ws_issued (w\<lparr>ws_store := s'\<rparr>)). key = challengeKvKey (c_ss58 c) (c_purpose c) \<and> v = c_nonce c \<and> x = Some (c_time c div 1000 + 300))"
      using i k by (simp add: wallet_inv_def pending_sound_def)
  qed
  with i s show ?thesis by (simp add: wallet_inv_def)
qed

lemma wallet_step_keeps:
  assumes "wallet_step h sr kv peek sound w w'" and "wallet_inv h sr peek sound w"
  shows "wallet_inv h sr peek sound w'"
  using assms
proof (cases rule: wallet_step.cases)
  case (ws_tick t)
  then show ?thesis using assms(2) by (force simp: wallet_inv_def pending_sound_def)
next
  case (ws_issue ss58 purpose random msg s')
  show ?thesis unfolding ws_issue(1) by (rule issue_keeps [OF assms(2) ws_issue(4) ws_issue(2)])
next
  case (ws_verify ss58 sig purpose r s' nonce x)
  show ?thesis unfolding ws_verify(1) by (rule verify_keeps [OF assms(2) ws_verify(2,3,4)])
next
  case (ws_missing ss58 sig purpose s')
  have "sound (ws_store w)" using assms(2) by (simp add: wallet_inv_def)
  note kept = missing_store [OF this ws_missing(2)]
  show ?thesis unfolding ws_missing(1) by (rule dropped_keeps [OF assms(2) kept [THEN conjunct1] kept [THEN conjunct2]])
next
  case (ws_other s')
  show ?thesis unfolding ws_other(1) by (rule dropped_keeps [OF assms(2) ws_other(2,3)])
qed

lemma wallet_reachable:
  assumes "(wallet_step h sr kv peek sound)\<^sup>*\<^sup>* w0 w" and "wallet_inv h sr peek sound w0"
  shows "wallet_inv h sr peek sound w"
  using assms by (induction rule: rtranclp_induct) (auto intro: wallet_step_keeps)

end


section \<open>The native store\<close>

definition ttl_settings :: "nat \<Rightarrow> kv_settings" where
  "ttl_settings ttl = \<lparr>set_expiration = None, set_expirationTtl = Some (js_int (int ttl)), set_metadata = JUndef\<rparr>"

definition pg_AppKv :: "string \<Rightarrow> kv_entry list AppKv" where
  "pg_AppKv ns =
     \<lparr>m_get = Some (\<lambda>key now es. case kv_get kv_defaults ns key AsText now es of
                 Inl e \<Rightarrow> Inl e | Inr (ReadText t) \<Rightarrow> Inr (Some t) | Inr _ \<Rightarrow> Inr None),
      m_put = Some (\<lambda>key value ttl now es. kv_put kv_defaults ns key (KvText value) (ttl_settings ttl) now es),
      m_delete = Some (\<lambda>key es. kv_delete kv_defaults ns key es),
      m_list = Some (\<lambda>settings now es. kv_list kv_defaults ns settings now es),
      m_consume = Some (\<lambda>key now es. kv_consume kv_defaults ns key now es)\<rparr>"

definition pg_peek :: "string \<Rightarrow> kv_entry list peek" where
  "pg_peek ns es key = map_option (\<lambda>(v, m, x). (utf8_decode v, x)) (kv_view es (ns, utf8_encode key))"

lemma pg_peek_update:
  "pg_peek ns es' = (pg_peek ns es)(key := map_option (\<lambda>(v, m, x). (utf8_decode v, x)) r)"
  if "kv_view es' = (kv_view es)((ns, utf8_encode key) := r)"
  by (rule ext) (auto simp: pg_peek_def that utf8_inject)

lemma put_with_ttl:
  assumes "kv_put limits ns key (KvText v) (ttl_settings ttl) now es = Inr es'"
  shows "es' = upsert \<lparr>e_namespace = ns, e_key = utf8_encode key, e_value = utf8_encode v, e_metadata = None,
    e_expires = Some (now div 1000 + int ttl)\<rparr> es"
  using assms keyBytes_encode
  by (auto simp: kv_put_def ttl_settings_def metadataText_def valueBytes_def kv_seconds_def Let_def split: sum.splits if_splits)

lemma pg_consume:
  assumes "keys_distinct es" and "kv_consume limits ns key now es = Inr (c, es')"
  shows "case c of
      None \<Rightarrow> es' = es \<and> (\<forall>v x. pg_peek ns es key = Some (v, Some x) \<longrightarrow> x \<le> now div 1000)
    | Some v \<Rightarrow> keys_distinct es' \<and> pg_peek ns es' = (pg_peek ns es)(key := None) \<and>
        (\<exists>x. pg_peek ns es key = Some (v, x) \<and> (\<forall>t. x = Some t \<longrightarrow> now div 1000 < t))"
proof -
  have held: "map_option e_value (find_live ns (utf8_encode key) now es) = holds_at (kv_view es) (ns, utf8_encode key) now"
    by (simp add: find_live_view [OF assms(1)])
  obtain k where "keyBytes limits key = Inr k" using assms(2) by (auto simp: kv_consume_def split: sum.splits)
  then have k: "keyBytes limits key = Inr (utf8_encode key)" using keyBytes_encode by blast
  show ?thesis
  proof (cases "find_live ns (utf8_encode key) now es")
    case None
    then have "c = None" "es' = es" using assms(2) k by (simp_all add: kv_consume_def)
    moreover have "holds_at (kv_view es) (ns, utf8_encode key) now = None" using held None by simp
    ultimately show ?thesis by (auto simp: pg_peek_def holds_at_def split: option.splits if_splits)
  next
    case (Some row)
    then have c: "c = Some (utf8_decode (e_value row))" "es' = filter (\<lambda>e. \<not> entry_at ns (utf8_encode key) e) es"
      using assms(2) k by (auto simp: kv_consume_def storedBytes_def split: if_splits)
    have "holds_at (kv_view es) (ns, utf8_encode key) now = Some (e_value row)" using held Some by simp
    then obtain m x where "kv_view es (ns, utf8_encode key) = Some (e_value row, m, x)" "\<forall>t. x = Some t \<longrightarrow> now div 1000 < t"
      by (auto simp: holds_at_def split: option.splits if_splits)
    moreover have "pg_peek ns es' = (pg_peek ns es)(key := None)"
      using pg_peek_update [of es' es ns key None] by (simp add: c(2) removed_view)
    ultimately show ?thesis using removed_distinct [OF assms(1)] by (simp add: c pg_peek_def)
  qed
qed

interpretation pg_challenges: challenge_store "pg_AppKv ns" "pg_peek ns" keys_distinct for ns
proof
  show "nativeKv (Some (pg_AppKv ns)) = Inr (pg_AppKv ns)" by (simp add: nativeKv_def pg_AppKv_def)
next
  fix s s' :: "kv_entry list" and key v ttl now
  assume d: "keys_distinct s" and "the (m_put (pg_AppKv ns)) key v ttl now s = Inr s'"
  then have s': "s' = upsert \<lparr>e_namespace = ns, e_key = utf8_encode key, e_value = utf8_encode v, e_metadata = None,
    e_expires = Some (now div 1000 + int ttl)\<rparr> s" by (intro put_with_ttl) (simp add: pg_AppKv_def)
  have "kv_view s' = (kv_view s)((ns, utf8_encode key) \<mapsto> (utf8_encode v, None, Some (now div 1000 + int ttl)))"
    unfolding s' upsert_view by (simp add: entry_id_def)
  from pg_peek_update [OF this] show "keys_distinct s' \<and> pg_peek ns s' = (pg_peek ns s)(key \<mapsto> (v, Some (now div 1000 + int ttl)))"
    using upsert_distinct [OF d] s' by (simp add: utf8_roundtrip)
next
  fix s s' :: "kv_entry list" and key now r
  assume "keys_distinct s" and "the (m_consume (pg_AppKv ns)) key now s = Inr (r, s')"
  then show "case r of None \<Rightarrow> s' = s \<and> (\<forall>v x. pg_peek ns s key = Some (v, Some x) \<longrightarrow> x \<le> now div 1000)
     | Some v \<Rightarrow> keys_distinct s' \<and> pg_peek ns s' = (pg_peek ns s)(key := None) \<and>
         (\<exists>x. pg_peek ns s key = Some (v, x) \<and> (\<forall>t. x = Some t \<longrightarrow> now div 1000 < t))"
    by (intro pg_consume) (simp_all add: pg_AppKv_def)
qed


section \<open>Challenges over the native store\<close>

definition wallet_start :: "string \<Rightarrow> kv_entry list wallet_system \<Rightarrow> bool" where
  "wallet_start ns w \<longleftrightarrow>
     keys_distinct (ws_store w) \<and> (\<forall>key. challenge_key key \<longrightarrow> pg_peek ns (ws_store w) key = None) \<and>
     ws_issued w = [] \<and> ws_attempts w = []"

text \<open>
  C29. A challenge is used once.  However challenges are issued, signatures presented and other keys
  of the store written, and whatever time passes, each nonce is taken by at most one verification,
  whether that succeeds or not; it was issued for the same address and purpose less than three
  hundred seconds before; and a verification succeeds only with a signature of that address's key
  over one of the two forms of that very challenge.
\<close>

theorem challenge_single_use:
  assumes "(wallet_step blake2b sr (pg_AppKv ns) (pg_peek ns) keys_distinct)\<^sup>*\<^sup>* w0 w" and "wallet_start ns w0"
  shows "distinct (map at_nonce (ws_attempts w)) \<and>
    (\<forall>a\<in>set (ws_attempts w).
       (\<exists>c\<in>set (ws_issued w). c_ss58 c = at_ss58 a \<and> c_purpose c = at_purpose a \<and> c_nonce c = at_nonce a \<and>
          c_time c \<le> at_time a \<and> at_time a div 1000 < c_time c div 1000 + 300) \<and>
       (at_ok a \<longrightarrow> (\<exists>publicKey hex form. wallet_key blake2b (at_ss58 a) = Some publicKey \<and> signature_hex (at_signature a) = Some hex \<and>
          form \<in> set (challengeSignatureForms (utf8_encode (walletChallengeMessage (at_ss58 a) (at_nonce a) (at_purpose a)))) \<and>
          sr form (hexToBytes (lower hex)) publicKey = Some True)))"
proof -
  have "wallet_inv blake2b sr (pg_peek ns) keys_distinct w0"
    using assms(2) by (simp add: wallet_start_def wallet_inv_def pending_sound_def)
  from pg_challenges.wallet_reachable [OF assms(1) this] show ?thesis
    unfolding wallet_inv_def attempt_sound_def signature_verifies_def list_ex_iff by blast
qed

lemma utf8_at_most: "length (utf8_encode s) \<le> 2 * length s"
  by (induction s) (auto simp: utf8_encode_Cons, simp add: utf8_encode_def)

lemma randomHex_length: "length (randomHex bs) = 2 * length bs"
  by (induction bs) (simp_all add: randomHex_def)

lemma challenge_key_length: "length (challengeKvKey a p) \<le> length a + 23"
  by (cases p) (simp_all add: challengeKvKey_def CHALLENGE_KV_PREFIX_def)

lemma key_fits:
  assumes "length a \<le> 200"
  shows "keyBytes kv_defaults (challengeKvKey a p) = Inr (utf8_encode (challengeKvKey a p))"
proof -
  have "challengeKvKey a p \<noteq> []" by (cases p) (simp_all add: challengeKvKey_def CHALLENGE_KV_PREFIX_def)
  then have "utf8_encode (challengeKvKey a p) \<noteq> []" by (cases "challengeKvKey a p") (simp_all add: utf8_encode_Cons)
  moreover have "length (utf8_encode (challengeKvKey a p)) \<le> 512"
    using assms utf8_at_most [of "challengeKvKey a p"] challenge_key_length [of a p] by linarith
  ultimately show ?thesis by (simp add: keyBytes_def utf8_def utf8_roundtrip kv_defaults_def Let_def)
qed

lemma nonce_fits:
  assumes "length random = 16"
  shows "length (utf8_encode (randomHex random)) \<le> maxValueBytes kv_defaults"
proof -
  have "length (utf8_encode (randomHex random)) \<le> 64"
    using utf8_at_most [of "randomHex random"] by (simp add: randomHex_length assms)
  then show ?thesis by (simp add: kv_defaults_def)
qed

definition challenge_row :: "string \<Rightarrow> string \<Rightarrow> WalletChallengePurpose \<Rightarrow> nat list \<Rightarrow> int \<Rightarrow> kv_entry" where
  "challenge_row ns a p random now =
     \<lparr>e_namespace = ns, e_key = utf8_encode (challengeKvKey a p), e_value = utf8_encode (randomHex random), e_metadata = None,
      e_expires = Some (now div 1000 + 300)\<rparr>"

lemma issue_succeeds:
  assumes "wallet_key h a \<noteq> None" and "length a \<le> 200" and "length random = 16" and "0 \<le> now" "now \<le> MAX_SAFE"
  shows "issueWalletChallenge h (native_env (pg_AppKv ns)) a p random now es =
    Inr (Inr (walletChallengeMessage a (randomHex random) p, 300), upsert (challenge_row ns a p random now) es)"
proof -
  have "now div 1000 + 300 \<le> MAX_SAFE" using assms(5) by (simp add: MAX_SAFE_def)
  moreover note nonce_fits [OF assms(3)]
  ultimately have "kv_put kv_defaults ns (challengeKvKey a p) (KvText (randomHex random)) (ttl_settings 300) now es =
    Inr (upsert (challenge_row ns a p random now) es)"
    using assms(4)
    by (simp add: kv_put_def key_fits [OF assms(2)] ttl_settings_def metadataText_def valueBytes_def kv_seconds_def
        Let_def challenge_row_def MAX_SAFE_def)
  moreover have "appKv (native_env (pg_AppKv ns)) = Inr (Some (pg_AppKv ns))" by (rule appKv_native [OF pg_challenges.complete])
  ultimately show ?thesis
    using assms(1) nativeKv_methods [OF pg_challenges.complete]
    by (simp add: issueWalletChallenge_def WALLET_CHALLENGE_TTL_SECONDS_def Let_def pg_AppKv_def)
qed

lemma verify_held:
  assumes "keys_distinct es" and "wallet_key h a = Some pk" and "length a \<le> 200" and "length random = 16"
    and "kv_view es (ns, utf8_encode (challengeKvKey a p)) = Some (utf8_encode (randomHex random), m, Some t)" and "now div 1000 < t"
  shows "verifyWalletChallenge h sr (native_env (pg_AppKv ns)) a sig p now es =
    Inr (check_signature sr pk a sig p (Some (randomHex random)), filter (\<lambda>e. \<not> entry_at ns (utf8_encode (challengeKvKey a p)) e) es)"
proof -
  have "holds_at (kv_view es) (ns, utf8_encode (challengeKvKey a p)) now = Some (utf8_encode (randomHex random))"
    using assms(5,6) by (simp add: holds_at_def)
  then obtain row where row: "find_live ns (utf8_encode (challengeKvKey a p)) now es = Some row" "e_value row = utf8_encode (randomHex random)"
    using find_live_view [OF assms(1), of ns "utf8_encode (challengeKvKey a p)" now] by auto
  have "length (utf8_encode (randomHex random)) \<le> maxValueBytes kv_defaults"
    by (rule nonce_fits [OF assms(4)])
  then have "kv_consume kv_defaults ns (challengeKvKey a p) now es =
    Inr (Some (randomHex random), filter (\<lambda>e. \<not> entry_at ns (utf8_encode (challengeKvKey a p)) e) es)"
    by (simp add: kv_consume_def key_fits [OF assms(3)] row storedBytes_def utf8_roundtrip)
  moreover have "appKv (native_env (pg_AppKv ns)) = Inr (Some (pg_AppKv ns))" by (rule appKv_native [OF pg_challenges.complete])
  ultimately show ?thesis
    using assms(2) nativeKv_methods [OF pg_challenges.complete]
    by (simp add: verifyWalletChallenge_def consumeKvText_def pg_AppKv_def)
qed

lemma issued_view: "kv_view (upsert (challenge_row ns a p random now) es) (ns, utf8_encode (challengeKvKey a p)) =
    Some (utf8_encode (randomHex random), None, Some (now div 1000 + 300))"
  unfolding upsert_view by (simp add: challenge_row_def entry_id_def)

lemma check_succeeds:
  assumes "n \<noteq> []" "signature_hex sig = Some hex" "form \<in> set (challengeSignatureForms (utf8_encode (walletChallengeMessage a n p)))"
    and "sr form (hexToBytes (lower hex)) pk = Some True"
  shows "check_signature sr pk a sig p (Some n) = Inr ()"
  using assms by (auto simp: check_signature_def signature_verifies_def list_ex_iff)


lemma verify_absent:
  assumes "keys_distinct es" and "wallet_key h a = Some pk" and "length a \<le> 200"
    and "holds_at (kv_view es) (ns, utf8_encode (challengeKvKey a p)) now = None"
  shows "verifyWalletChallenge h sr (native_env (pg_AppKv ns)) a sig p now es = Inr (Inl Challenge_expired_or_missing, es)"
proof -
  have "find_live ns (utf8_encode (challengeKvKey a p)) now es = None"
    using find_live_view [OF assms(1), of ns "utf8_encode (challengeKvKey a p)" now] assms(4) by simp
  then have "kv_consume kv_defaults ns (challengeKvKey a p) now es = Inr (None, es)"
    by (simp add: kv_consume_def key_fits [OF assms(3)])
  moreover have "appKv (native_env (pg_AppKv ns)) = Inr (Some (pg_AppKv ns))" by (rule appKv_native [OF pg_challenges.complete])
  ultimately show ?thesis
    using assms(2) nativeKv_methods [OF pg_challenges.complete]
    by (simp add: verifyWalletChallenge_def consumeKvText_def pg_AppKv_def check_signature_def)
qed

text \<open>
  C33. A challenge that is issued is honoured.  Whatever else the store holds, issuing one for a wallet
  address succeeds; within its three hundred seconds a signature that the address's key verifies over
  either form is accepted, and after it nothing is; once they have passed it is not accepted either.
\<close>

theorem challenge_honoured:
  assumes a: "wallet_key blake2b a = Some publicKey" "length a \<le> 200" and random: "length random = 16"
    and now: "0 \<le> now" "now \<le> MAX_SAFE" and es: "keys_distinct es"
  shows "\<exists>es'. issueWalletChallenge blake2b (native_env (pg_AppKv ns)) a p random now es =
      Inr (Inr (walletChallengeMessage a (randomHex random) p, 300), es') \<and>
    (\<forall>later sig hex form. later div 1000 < now div 1000 + 300 \<longrightarrow> signature_hex sig = Some hex \<longrightarrow>
       form \<in> set (challengeSignatureForms (utf8_encode (walletChallengeMessage a (randomHex random) p))) \<longrightarrow>
       sr form (hexToBytes (lower hex)) publicKey = Some True \<longrightarrow>
       (\<exists>es''. verifyWalletChallenge blake2b sr (native_env (pg_AppKv ns)) a sig p later es' = Inr (Inr (), es'') \<and>
          (\<forall>sig' time. verifyWalletChallenge blake2b sr (native_env (pg_AppKv ns)) a sig' p time es'' =
             Inr (Inl Challenge_expired_or_missing, es'')))) \<and>
    (\<forall>later sig. now div 1000 + 300 \<le> later div 1000 \<longrightarrow>
       verifyWalletChallenge blake2b sr (native_env (pg_AppKv ns)) a sig p later es' = Inr (Inl Challenge_expired_or_missing, es'))"
proof (intro exI conjI allI impI)
  let ?es' = "upsert (challenge_row ns a p random now) es" and ?k = "utf8_encode (challengeKvKey a p)"
  have d: "keys_distinct ?es'" by (rule upsert_distinct [OF es])
  have nonce: "randomHex random \<noteq> []" using randomHex_length [of random] random by auto
  show "issueWalletChallenge blake2b (native_env (pg_AppKv ns)) a p random now es =
      Inr (Inr (walletChallengeMessage a (randomHex random) p, 300), ?es')"
    using issue_succeeds [OF _ a(2) random now] a(1) by simp
  fix later sig
  show "verifyWalletChallenge blake2b sr (native_env (pg_AppKv ns)) a sig p later ?es' = Inr (Inl Challenge_expired_or_missing, ?es')"
    if "now div 1000 + 300 \<le> later div 1000"
    using that issued_view [of ns a p random now es] by (intro verify_absent [OF d a]) (simp add: holds_at_def)
  fix hex form sig' time
  assume t: "later div 1000 < now div 1000 + 300"
    and s: "signature_hex sig = Some hex" "form \<in> set (challengeSignatureForms (utf8_encode (walletChallengeMessage a (randomHex random) p)))"
      "sr form (hexToBytes (lower hex)) publicKey = Some True"
  show "verifyWalletChallenge blake2b sr (native_env (pg_AppKv ns)) a sig p later ?es' =
      Inr (Inr (), filter (\<lambda>e. \<not> entry_at ns ?k e) ?es')"
    using verify_held [OF d a random issued_view t] check_succeeds [of "randomHex random" sig hex form a p sr publicKey] nonce s by simp
  show "verifyWalletChallenge blake2b sr (native_env (pg_AppKv ns)) a sig' p time (filter (\<lambda>e. \<not> entry_at ns ?k e) ?es') =
      Inr (Inl Challenge_expired_or_missing, filter (\<lambda>e. \<not> entry_at ns ?k e) ?es')"
    by (rule verify_absent [OF removed_distinct [OF d] a]) (simp add: removed_view holds_at_def)
qed

text \<open>An address of the sample hash, and a signature of 64 zero bytes.\<close>

lemma base58_loop_length: "n < 58 ^ k \<Longrightarrow> length (base58_loop n acc) \<le> k + length acc"
proof (induction n acc arbitrary: k rule: base58_loop.induct)
  case (1 n acc)
  show ?case
  proof (cases "0 < n")
    case True
    then obtain j where j: "k = Suc j" using 1(2) by (cases k) auto
    then have "n div 58 < 58 ^ j" using 1(2) by (simp add: less_mult_imp_div_less mult.commute)
    then show ?thesis using 1(1) [OF True, of j] True j by (simp add: base58_loop.simps [of n])
  qed (simp add: base58_loop.simps [of 0])
qed


lemma bytes_number_bound: "bytes_ok bs \<Longrightarrow> bytes_number bs < 256 ^ length bs"
proof (induction bs rule: rev_induct)
  case (snoc b bs)
  then have "bytes_number bs < 256 ^ length bs" "b < 256" by simp_all
  then have "bytes_number bs * 256 + b < (bytes_number bs + 1) * 256" "(bytes_number bs + 1) * 256 \<le> 256 ^ length bs * 256"
    by (simp_all add: Suc_leI)
  then show ?case using \<open>b < 256\<close> by (simp add: bytes_number_snoc mult.commute)
qed (simp add: bytes_number_def)

definition sample_sr :: sr25519 where
  "sample_sr message signature publicKey = Some True"

definition sample_signature :: jsval where
  "sample_signature = VStr (replicate 128 (CHR ''0''))"

lemma sample_hex: "signature_hex sample_signature = Some (replicate 128 (CHR ''0''))"
  by (simp add: signature_hex_def sample_signature_def list_all_iff hex_digit_val_def)

lemma sample_wallet:
  obtains a where "wallet_key sample_hash a = Some (replicate 32 5)" "length a \<le> 200"
proof -
  let ?bytes = "address_bytes sample_hash 42 (replicate 32 5)" and ?a = "encodeBase58 (address_bytes sample_hash 42 (replicate 32 5))"
  have k: "bytes_ok (replicate 32 5)" by (simp add: list_all_iff)
  have e: "encodeAccountId32 sample_hash (replicate 32 5) 42 = Some ?a"
    by (rule encodeAccountId32_eq [OF hash_ok_sample _ k]) simp_all
  have "wallet_key sample_hash ?a = Some (replicate 32 5)"
    using decode_encode_address [OF hash_ok_sample k _ _ e] by (simp add: wallet_key_def DEFAULT_SS58_PREFIX_def)
  moreover have ok: "bytes_ok ?bytes" "length ?bytes = 35" by (rule address_bytes_ok [OF hash_ok_sample _ k]; simp)+
  then have "bytes_number ?bytes < 58 ^ 50" using bytes_number_bound [OF ok(1)] by (simp add: order.strict_trans)
  then have "length ?a \<le> 200" using base58_loop_length [of "bytes_number ?bytes" 50 "[]"] by (simp add: encodeBase58_def)
  ultimately show thesis by (rule that)
qed

lemma challenge_honoured_witness:
  "\<exists>a es'. issueWalletChallenge sample_hash (native_env (pg_AppKv ''control'')) a Watch (replicate 16 0) 0 [] =
      Inr (Inr (walletChallengeMessage a (randomHex (replicate 16 0)) Watch, 300), es') \<and>
    (\<exists>es''. verifyWalletChallenge sample_hash sample_sr (native_env (pg_AppKv ''control'')) a sample_signature Watch 299999 es' = Inr (Inr (), es''))"
proof -
  obtain a where a: "wallet_key sample_hash a = Some (replicate 32 5)" "length a \<le> 200" by (rule sample_wallet)
  have "keys_distinct []" by (simp add: keys_distinct_def)
  from challenge_honoured [OF a _ _ _ this, of "replicate 16 0" 0 "''control''" Watch sample_sr]
  obtain es' where es': "issueWalletChallenge sample_hash (native_env (pg_AppKv ''control'')) a Watch (replicate 16 0) 0 [] =
      Inr (Inr (walletChallengeMessage a (randomHex (replicate 16 0)) Watch, 300), es')"
    and v: "\<forall>later sig hex form. later div 1000 < 0 div 1000 + 300 \<longrightarrow> signature_hex sig = Some hex \<longrightarrow>
       form \<in> set (challengeSignatureForms (utf8_encode (walletChallengeMessage a (randomHex (replicate 16 0)) Watch))) \<longrightarrow>
       sample_sr form (hexToBytes (lower hex)) (replicate 32 5) = Some True \<longrightarrow>
       (\<exists>es''. verifyWalletChallenge sample_hash sample_sr (native_env (pg_AppKv ''control'')) a sig Watch later es' = Inr (Inr (), es'') \<and>
          (\<forall>sig' time. verifyWalletChallenge sample_hash sample_sr (native_env (pg_AppKv ''control'')) a sig' Watch time es'' =
             Inr (Inl Challenge_expired_or_missing, es'')))"
    unfolding MAX_SAFE_def by force
  have "\<exists>es''. verifyWalletChallenge sample_hash sample_sr (native_env (pg_AppKv ''control'')) a sample_signature Watch 299999 es' = Inr (Inr (), es'')"
    using v [rule_format, of 299999 sample_signature _ "utf8_encode (walletChallengeMessage a (randomHex (replicate 16 0)) Watch)", OF _ sample_hex]
    by (auto simp: challengeSignatureForms_def sample_sr_def)
  with es' show ?thesis by blast
qed

lemma challenge_single_use_witness:
  "\<exists>w0 w. (wallet_step sample_hash sample_sr (pg_AppKv ''control'') (pg_peek ''control'') keys_distinct)\<^sup>*\<^sup>* w0 w \<and>
     wallet_start ''control'' w0 \<and> list_ex at_ok (ws_attempts w) \<and> distinct (map at_nonce (ws_attempts w))"
proof -
  obtain a where a: "wallet_key sample_hash a = Some (replicate 32 5)" "length a \<le> 200" by (rule sample_wallet)
  let ?random = "replicate 16 0 :: nat list" and ?step = "wallet_step sample_hash sample_sr (pg_AppKv ''control'') (pg_peek ''control'') keys_distinct"
  let ?w0 = "\<lparr>ws_now = 0, ws_store = [], ws_issued = [], ws_attempts = []\<rparr> :: kv_entry list wallet_system"
  let ?row = "challenge_row ''control'' a Login ?random 0" and ?k = "utf8_encode (challengeKvKey a Login)"
  have start: "wallet_start ''control'' ?w0" by (simp add: wallet_start_def keys_distinct_def pg_peek_def kv_view_def)
  have "issueWalletChallenge sample_hash (native_env (pg_AppKv ''control'')) a Login ?random (ws_now ?w0) (ws_store ?w0) =
      Inr (Inr (walletChallengeMessage a (randomHex ?random) Login, 300), upsert ?row [])"
    using issue_succeeds [of sample_hash a ?random 0 "''control''" Login "[]"] a by (simp add: MAX_SAFE_def)
  note one = ws_issue [where sr = sample_sr and peek = "pg_peek ''control''" and sound = keys_distinct, OF this]
  define w1 where "w1 = ?w0\<lparr>ws_store := upsert ?row [],
    ws_issued := [\<lparr>c_ss58 = a, c_purpose = Login, c_nonce = randomHex ?random, c_time = 0\<rparr>]\<rparr>"
  have first: "?step ?w0 w1" using one by (simp add: w1_def)
  have d: "keys_distinct (ws_store w1)" using upsert_distinct [of "[]" ?row] by (simp add: w1_def keys_distinct_def)
  have held: "kv_view (ws_store w1) (''control'', ?k) = Some (utf8_encode (randomHex ?random), None, Some (0 div 1000 + 300))"
    using issued_view [of "''control''" a Login ?random 0 "[]"] by (simp add: w1_def)
  have "check_signature sample_sr (replicate 32 5) a sample_signature Login (Some (randomHex ?random)) = Inr ()"
    using randomHex_length [of ?random]
    by (intro check_succeeds [OF _ sample_hex, where form = "utf8_encode (walletChallengeMessage a (randomHex ?random) Login)"])
      (auto simp: challengeSignatureForms_def sample_sr_def)
  then have v: "verifyWalletChallenge sample_hash sample_sr (native_env (pg_AppKv ''control'')) a sample_signature Login (ws_now w1) (ws_store w1) =
      Inr (Inr (), filter (\<lambda>e. \<not> entry_at ''control'' ?k e) (ws_store w1))"
    using verify_held [OF d a _ held, of "ws_now w1" sample_sr sample_signature] by (simp add: w1_def)
  have "pg_peek ''control'' (ws_store w1) (challengeKvKey a Login) = Some (randomHex ?random, Some 300)"
    using held by (simp add: pg_peek_def utf8_roundtrip)
  then obtain w2 where second: "?step w1 w2" "list_ex at_ok (ws_attempts w2)"
    using ws_verify [where peek = "pg_peek ''control''" and sound = keys_distinct and w = w1, OF v] by fastforce
  have reach: "?step\<^sup>*\<^sup>* ?w0 w2" using first second(1) by auto
  from challenge_single_use [OF reach start] start reach second(2) show ?thesis by blast
qed

end
