(* ===== verification/Wallet_Tokens.thy ===== *)
theory Wallet_Tokens
  imports Wallet_Laws
begin

text \<open>
  The signed tokens of the two wallet flows: what a token is accepted as, that one flow's token is
  never accepted by the other, and why the two calls of a store without \<open>consume\<close> let one challenge
  be used twice.
\<close>

section \<open>Tokens\<close>

text \<open>What is used of the signature function: it writes a nonempty text without a dot (hexadecimal).\<close>

definition hex_signature :: "sign_fun \<Rightarrow> string \<Rightarrow> bool" where
  "hex_signature sign secret \<longleftrightarrow> (\<forall>body. sign secret body \<noteq> [] \<and> CHR ''.'' \<notin> set (sign secret body))"

lemma last_dot_append:
  assumes "CHR ''.'' \<notin> set b"
  shows "last_dot (a @ CHR ''.'' # b) = Some (a, b)"
proof -
  have "dropWhile (\<lambda>c. c \<noteq> CHR ''.'') (rev b @ CHR ''.'' # rev a) = CHR ''.'' # rev a"
    using assms by (subst dropWhile_append2) auto
  moreover have "takeWhile (\<lambda>c. c \<noteq> CHR ''.'') (rev b @ CHR ''.'' # rev a) = rev b"
    using assms by (subst takeWhile_append2) auto
  ultimately show ?thesis by (simp add: last_dot_def)
qed

lemma last_dot_Some: "last_dot t = Some (a, b) \<Longrightarrow> t = a @ ''.'' @ b"
proof -
  assume d: "last_dot t = Some (a, b)"
  let ?P = "\<lambda>c. c \<noteq> CHR ''.''"
  obtain r where r: "dropWhile ?P (rev t) = CHR ''.'' # r"
  proof (cases "dropWhile ?P (rev t)")
    case (Cons c r)
    then have "c = CHR ''.''" using hd_dropWhile [of ?P "rev t"] by simp
    with Cons that show thesis by simp
  qed (use d in \<open>simp add: last_dot_def del: dropWhile_eq_Nil_conv\<close>)
  then have "rev t = takeWhile ?P (rev t) @ CHR ''.'' # r" by (metis takeWhile_dropWhile_id)
  then have "t = rev r @ ''.'' @ rev (takeWhile ?P (rev t))" by (metis append_Cons append_Nil append_assoc rev.simps(2) rev_append rev_rev_ident)
  then show ?thesis using d r by (auto simp: last_dot_def)
qed

lemma payload_of_signed:
  assumes "hex_signature sign secret" and "kept_by_json payload"
  shows "token_payload sign secret (VStr (signed_token sign secret payload)) = Some payload"
proof -
  obtain t where t: "json_stringify payload = Some t" "JSON_parse t = Some payload"
    by (rule json_parse_stringify [OF assms(2)])
  have "t \<noteq> []" using t(2) by (auto simp: JSON_parse_def parse_value.simps split: option.splits)
  then have "utf8_encode t \<noteq> []" by (cases t) (simp_all add: utf8_encode_Cons)
  then have "base64UrlEncodeBytes (utf8_encode t) \<noteq> []" by (rule base64url_nonempty)
  then show ?thesis
    using assms(1) t
    by (simp add: token_payload_def signed_token_def last_dot_append hex_signature_def timingSafeEqual_iff base64url_roundtrip utf8_roundtrip Let_def)
qed

lemma payload_signed:
  assumes "token_payload sign secret token = Some payload"
  obtains body where "token = VStr (body @ ''.'' @ sign secret body)"
  using assms
  by (auto simp: token_payload_def timingSafeEqual_iff dest: last_dot_Some split: jsval.splits option.splits prod.splits if_splits)

text \<open>
  C30. A token says what was signed, in its own flow, until it expires.  A session token is accepted
  as the account and address it was made for through its hour and not after it, a trigger token as
  its address through its ninety days; neither is ever accepted by the other flow's verifier, even
  under one secret; and whatever token either verifier accepts carries the signature of its own body.
\<close>

theorem tokens_exact:
  assumes hex: "hex_signature sign secret" and now: "0 \<le> now" "now \<le> MAX_SAFE" and i: "\<bar>i\<bar> \<le> MAX_SAFE"
  shows "verifySessionToken sign secret (VStr (createSessionToken sign secret (VNum (js_int i)) ss58 now)) later =
      (if later div 1000 \<le> now div 1000 + 3600 then Some (js_int i, ss58) else None) \<and>
    verifyTriggerToken sign secret (VStr (createTriggerToken sign secret ss58 now)) later =
      (if later div 1000 \<le> now div 1000 + 7776000 then Some ss58 else None) \<and>
    verifyTriggerToken sign secret (VStr (createSessionToken sign secret (VNum (js_int i)) ss58 now)) later = None \<and>
    verifySessionToken sign secret (VStr (createTriggerToken sign secret ss58 now)) later = None \<and>
    (verifySessionToken sign secret token later \<noteq> None \<or> verifyTriggerToken sign secret token later \<noteq> None \<longrightarrow>
       (\<exists>body. token = VStr (body @ ''.'' @ sign secret body)))"
proof -
  have "now div 1000 + 3600 \<le> MAX_SAFE" "now div 1000 + 7776000 \<le> MAX_SAFE" using now by (simp_all add: MAX_SAFE_def)
  then have kept: "kept_by_json (JObj [(''account_id'', JVal (VNum (js_int i))), (''ss58'', JStr ss58), (''exp'', JInt (now div 1000 + 3600))])"
    "kept_by_json (JObj [(''ss58'', JStr ss58), (''purpose'', JStr ''trigger''), (''exp'', JInt (now div 1000 + 7776000))])"
    using now i by (simp_all add: MAX_SAFE_def)
  have session: "token_payload sign secret (VStr (createSessionToken sign secret (VNum (js_int i)) ss58 now)) =
      Some (JObj [(''account_id'', JVal (VNum (js_int i))), (''ss58'', JStr ss58), (''exp'', JInt (now div 1000 + 3600))])"
    using payload_of_signed [OF hex kept(1)] by (simp add: createSessionToken_def SESSION_TTL_SECONDS_def)
  have trigger: "token_payload sign secret (VStr (createTriggerToken sign secret ss58 now)) =
      Some (JObj [(''ss58'', JStr ss58), (''purpose'', JStr ''trigger''), (''exp'', JInt (now div 1000 + 7776000))])"
    using payload_of_signed [OF hex kept(2)] by (simp add: createTriggerToken_def WATCH_TOKEN_TTL_SECONDS_def)
  have passed: "exp_passed (js_int x) later \<longleftrightarrow> x < later div 1000" for x by (simp add: js_int_def)
  have "verifySessionToken sign secret token later \<noteq> None \<or> verifyTriggerToken sign secret token later \<noteq> None \<Longrightarrow>
      \<exists>payload. token_payload sign secret token = Some payload"
    by (auto simp: verifySessionToken_def verifyTriggerToken_def split: option.splits)
  then have "verifySessionToken sign secret token later \<noteq> None \<or> verifyTriggerToken sign secret token later \<noteq> None \<Longrightarrow>
      \<exists>body. token = VStr (body @ ''.'' @ sign secret body)"
    by (meson payload_signed)
  then show ?thesis
    by (simp add: verifySessionToken_def verifyTriggerToken_def session trigger account_id_of_def passed not_less)
qed

lemma tokens_exact_witness:
  "hex_signature (\<lambda>secret body. ''00'') ''s'' \<and>
   verifySessionToken (\<lambda>secret body. ''00'') ''s''
     (VStr (createSessionToken (\<lambda>secret body. ''00'') ''s'' (VNum (js_int 7)) ''5F'' 0)) 3600999 = Some (js_int 7, ''5F'')"
proof -
  have h: "hex_signature (\<lambda>secret body. ''00'') ''s''" by (simp add: hex_signature_def)
  from tokens_exact [OF h, of 0 7 "''5F''" 3600999] h show ?thesis by (simp add: MAX_SAFE_def)
qed

section \<open>A store without \<open>consume\<close>\<close>

text \<open>
  Where the binding has no \<open>consume\<close>, two verifications that both read before either deletes are both
  given the nonce, whatever the store does in between: the delete of a key that is gone succeeds.
\<close>

lemma two_reads_one_nonce:
  fixes ns :: string
  defines "kv \<equiv> (pg_AppKv ns)\<lparr>m_consume := None\<rparr>"
  assumes "read_text kv key now es = Inr (Some n)" and "delete_read kv key (Some n) es = Inr (r, es')"
  shows "r = Some n" "delete_read kv key (Some n) es' = Inr (Some n, es')"
proof -
  obtain k where k: "keyBytes kv_defaults key = Inr k" and e: "es' = filter (\<lambda>e. \<not> entry_at ns k e) es" and "r = Some n"
    using assms(3) by (auto simp: kv_def pg_AppKv_def delete_read_def kv_delete_def split: sum.splits)
  then show "r = Some n" "delete_read kv key (Some n) es' = Inr (Some n, es')"
    by (simp_all add: kv_def pg_AppKv_def delete_read_def kv_delete_def)
qed

end
