(* ===== verification/Account_Keys.thy ===== *)
theory Account_Keys
  imports Wallet_Tokens Alert_Routes
begin

text \<open>
  Accounts and their API keys: the wallet, key and internal key routes of \<open>workers/data-api.ts\<close> over the
  tables \<open>rpc_accounts\<close> and \<open>api_keys\<close> (\<open>migrations/postgres/0010_account_state.sql\<close>) and the control
  store, with the client of the key provider (\<open>src/unkey-client.ts\<close>).  A handler runs from a world to a
  response, or to none when it throws, and the world it leaves; each SQL statement commits by itself or
  throws, as the schedule of faults says.  The provider's answers, the rate limiters, the clock and
  the random bytes are arguments.  Response headers are not modelled.
\<close>

section \<open>Tables and statements\<close>

record rpc_account =
  ra_id :: nat
  ra_ss58 :: string
  ra_tier :: string
  ra_created_at :: int
  ra_last_login_at :: int

record api_key =
  ak_unkey_key_id :: "string option"
  ak_owner_contact :: string
  ak_tier :: string
  ak_account_id :: "jsnum option"
  ak_created_at :: int
  ak_revoked_at :: "int option"
  ak_revocation_requested_at :: "int option"
  ak_last_used_at :: "int option"

text \<open>Which of the two identity systems a number belongs to (\<open>src/account-kind.ts\<close>).\<close>

datatype AccountKind = Rpc | Github

record account_block =
  bk_id :: nat
  bk_kind :: AccountKind
  bk_account_id :: jsnum
  bk_reason_code :: string
  bk_note :: "string option"
  bk_blocked_at :: int
  bk_blocked_by :: "string option"
  bk_unblocked_at :: "int option"
  bk_unblocked_note :: "string option"

record quota_row =
  qr_kind :: AccountKind
  qr_account_id :: jsnum
  qr_day :: string
  qr_units_spent :: int
  qr_updated_at :: int

record usage_row =
  us_kind :: AccountKind
  us_account_id :: jsnum
  us_day :: string
  us_route :: string
  us_request_count :: int
  us_rejected_count :: int

record github_account =
  gh_id :: nat
  gh_user_id :: jsnum
  gh_login :: string
  gh_tier :: string
  gh_created_at :: int
  gh_last_login_at :: int

record account_world =
  wd_kv :: "kv_entry list"
  wd_accounts :: "rpc_account list"
  wd_keys :: "api_key list"
  wd_blocks :: "account_block list"
  wd_quota :: "quota_row list"
  wd_usage :: "usage_row list"
  wd_github :: "github_account list"
  wd_next_account :: nat
  wd_next_block :: nat
  wd_next_github :: nat
  wd_faults :: "bool list"

type_synonym 'a asql = "account_world \<Rightarrow> 'a option \<times> account_world"

definition a_return :: "'a \<Rightarrow> 'a asql" where
  "a_return x w = (Some x, w)"

definition a_bind :: "'a asql \<Rightarrow> ('a \<Rightarrow> 'b asql) \<Rightarrow> 'b asql" where
  "a_bind m f w = (case m w of (None, w') \<Rightarrow> (None, w') | (Some x, w') \<Rightarrow> f x w')"

definition a_statement :: "(account_world \<Rightarrow> ('a \<times> account_world) option) \<Rightarrow> 'a asql" where
  "a_statement f w =
     (let w' = w\<lparr>wd_faults := tl (wd_faults w)\<rparr>
      in if wd_faults w \<noteq> [] \<and> hd (wd_faults w) then (None, w')
         else case f w' of None \<Rightarrow> (None, w') | Some (x, w'') \<Rightarrow> (Some x, w''))"

definition upsert_account :: "string \<Rightarrow> int \<Rightarrow> rpc_account asql" where
  "upsert_account ss58 now = a_statement (\<lambda>w.
     case List.find (\<lambda>a. ra_ss58 a = ss58) (wd_accounts w) of
       Some a \<Rightarrow> Some (a\<lparr>ra_last_login_at := now\<rparr>,
         w\<lparr>wd_accounts := map (\<lambda>b. if ra_ss58 b = ss58 then b\<lparr>ra_last_login_at := now\<rparr> else b) (wd_accounts w)\<rparr>)
     | None \<Rightarrow>
         let a = \<lparr>ra_id = wd_next_account w, ra_ss58 = ss58, ra_tier = ''free'', ra_created_at = now, ra_last_login_at = now\<rparr>
         in Some (a, w\<lparr>wd_accounts := wd_accounts w @ [a], wd_next_account := Suc (wd_next_account w)\<rparr>))"

definition account_number :: "rpc_account \<Rightarrow> jsnum" where
  "account_number a = js_int (int (ra_id a))"

definition select_account :: "jsnum \<Rightarrow> rpc_account option asql" where
  "select_account accountId = a_statement (\<lambda>w. Some (List.find (\<lambda>a. account_number a = accountId) (wd_accounts w), w))"

text \<open>The provider's id is unique where there is one.\<close>

definition insert_key :: "api_key \<Rightarrow> unit asql" where
  "insert_key k = a_statement (\<lambda>w.
     if ak_unkey_key_id k \<noteq> None \<and> ak_unkey_key_id k \<in> ak_unkey_key_id ` set (wd_keys w) then None
     else Some ((), w\<lparr>wd_keys := wd_keys w @ [k]\<rparr>))"

definition owned_key :: "string \<Rightarrow> jsnum \<Rightarrow> api_key \<Rightarrow> bool" where
  "owned_key keyId accountId k \<longleftrightarrow> ak_unkey_key_id k = Some keyId \<and> ak_account_id k = Some accountId"

definition update_keys :: "(api_key \<Rightarrow> bool) \<Rightarrow> (api_key \<Rightarrow> api_key) \<Rightarrow> api_key list asql" where
  "update_keys P f = a_statement (\<lambda>w.
     Some (map f (filter P (wd_keys w)), w\<lparr>wd_keys := map (\<lambda>k. if P k then f k else k) (wd_keys w)\<rparr>))"

definition select_keys :: "(api_key \<Rightarrow> bool) \<Rightarrow> api_key list asql" where
  "select_keys P = a_statement (\<lambda>w. Some (filter P (wd_keys w), w))"

text \<open>\<open>COALESCE(column, now)\<close>\<close>

definition first_of :: "int option \<Rightarrow> int \<Rightarrow> int option" where
  "first_of c now = (case c of Some t \<Rightarrow> Some t | None \<Rightarrow> Some now)"

section \<open>The key provider's client\<close>

datatype provider_answer = Unreachable | Answered nat "json option"

type_synonym provider = "string \<Rightarrow> json \<Rightarrow> provider_answer"

definition unkeyFetch :: "string \<Rightarrow> string \<Rightarrow> provider \<Rightarrow> string \<Rightarrow> json \<Rightarrow> string + json" where
  "unkeyFetch rootKey apiId fetch path body =
     (if rootKey = [] \<or> apiId = [] then Inl ''provider_not_configured''
      else case fetch path body of
             Unreachable \<Rightarrow> Inl ''provider_unreachable''
           | Answered code payload \<Rightarrow>
               (case payload of
                  Some (JObj kvs) \<Rightarrow>
                    if \<not> (200 \<le> code \<and> code \<le> 299) \<or> \<not> truthy (get_prop (JObj kvs) ''data'')
                    then Inl ''provider_error'' else Inr (get_prop (JObj kvs) ''data'')
                | _ \<Rightarrow> Inl ''provider_invalid_response''))"

definition or_json_null :: "json \<Rightarrow> json" where
  "or_json_null v = (if nullish v then JNull else v)"

record unkey_identity =
  uk_valid :: bool
  uk_code :: json
  uk_keyId :: json
  uk_tier :: json
  uk_accountId :: json

definition createUnkeyKey :: "string \<Rightarrow> string \<Rightarrow> provider \<Rightarrow> string \<Rightarrow> string \<Rightarrow> string + json \<times> json" where
  "createUnkeyKey rootKey apiId fetch externalId tier =
     (case unkeyFetch rootKey apiId fetch ''/v2/keys.createKey''
             (JObj [(''apiId'', JStr apiId), (''externalId'', JStr externalId), (''meta'', JObj [(''tier'', JStr tier)])]) of
        Inl code \<Rightarrow> Inl code
      | Inr data \<Rightarrow> Inr (get_prop data ''keyId'', get_prop data ''key''))"

definition verifyUnkeyKey :: "string \<Rightarrow> string \<Rightarrow> provider \<Rightarrow> string \<Rightarrow> string + unkey_identity" where
  "verifyUnkeyKey rootKey apiId fetch rawKey =
     (case unkeyFetch rootKey apiId fetch ''/v2/keys.verifyKey'' (JObj [(''key'', JStr rawKey)]) of
        Inl code \<Rightarrow> Inl code
      | Inr data \<Rightarrow>
          Inr \<lparr>uk_valid = truthy (get_prop data ''valid''), uk_code = or_json_null (get_prop data ''code''),
               uk_keyId = or_json_null (get_prop data ''keyId''), uk_tier = or_json_null (get_prop (get_prop data ''meta'') ''tier''),
               uk_accountId = or_json_null (get_prop (get_prop data ''identity'') ''externalId'')\<rparr>)"

definition updateUnkeyKeyTier :: "string \<Rightarrow> string \<Rightarrow> provider \<Rightarrow> string \<Rightarrow> string \<Rightarrow> string + json" where
  "updateUnkeyKeyTier rootKey apiId fetch keyId tier =
     unkeyFetch rootKey apiId fetch ''/v2/keys.updateKey'' (JObj [(''keyId'', JStr keyId), (''meta'', JObj [(''tier'', JStr tier)])])"

definition revokeUnkeyKey :: "string \<Rightarrow> string \<Rightarrow> provider \<Rightarrow> string \<Rightarrow> string + json" where
  "revokeUnkeyKey rootKey apiId fetch keyId =
     unkeyFetch rootKey apiId fetch ''/v2/keys.updateKey'' (JObj [(''keyId'', JStr keyId), (''enabled'', JVal (VBool False))])"

section \<open>Environment, requests\<close>

record account_env =
  ae_blake2b :: hash_fun
  ae_sr25519 :: sr25519
  ae_sign :: sign_fun
  ae_control :: "kv_entry list AppKvEnv option"
  ae_session_secret :: string
  ae_watch_secret :: string
  ae_lookup_token :: string
  ae_promote_token :: string
  ae_root_key :: string
  ae_api_id :: string
  ae_fetch :: provider
  ae_wallet_limiter :: "(alert_request \<Rightarrow> bool) option"
  ae_mint_limiter :: "(string \<Rightarrow> bool) option"
  ae_store_bound :: bool
  ae_now :: int
  ae_random :: "nat list"

definition ACCOUNT_ROUTES_MAX_BODY_BYTES :: nat where
  "ACCOUNT_ROUTES_MAX_BODY_BYTES = 4096"

definition API_KEY_LOOKUP_TOKEN_HEADER :: string where
  "API_KEY_LOOKUP_TOKEN_HEADER = ''x-api-key-lookup-token''"

definition ACCOUNT_TIER_PROMOTE_TOKEN_HEADER :: string where
  "ACCOUNT_TIER_PROMOTE_TOKEN_HEADER = ''x-account-tier-promote-token''"

definition withAccountsSql :: "account_env \<Rightarrow> alert_response asql \<Rightarrow> account_world \<Rightarrow> alert_response \<times> account_world" where
  "withAccountsSql env fn w =
     (if \<not> ae_store_bound env then (error_json ''no user-state store bound'' 503, w)
      else case fn w of
             (Some response, w') \<Rightarrow> (response, w')
           | (None, w') \<Rightarrow> (error_json ''write failed'' 502, w'))"

definition readAccountRouteBody :: "alert_request \<Rightarrow> alert_response + json" where
  "readAccountRouteBody rq =
     (let len = (if header rq ''content-length'' = [] then Fin 0 else string_to_number (header rq ''content-length''))
      in if num_lt (js_int (int ACCOUNT_ROUTES_MAX_BODY_BYTES)) len then Inl (error_json ''body too large'' 413)
         else if ACCOUNT_ROUTES_MAX_BODY_BYTES < utf8Bytes (rq_raw rq) then Inl (error_json ''body too large'' 413)
         else if rq_raw rq = [] then Inr (JObj [])
         else case JSON_parse (rq_raw rq) of
                Some v \<Rightarrow> Inr v
              | None \<Rightarrow> Inl (error_json ''body must be JSON'' 400))"

definition body_text :: "json \<Rightarrow> string \<Rightarrow> string" where
  "body_text body field = (case get_prop body field of JVal (VStr s) \<Rightarrow> s | _ \<Rightarrow> [])"

definition walletAuthErrorMessage :: "wallet_code \<Rightarrow> string" where
  "walletAuthErrorMessage code =
     (case code of
        Invalid_ss58 \<Rightarrow> ''ss58 must be a valid Bittensor (prefix 42) address''
      | Challenge_store_unavailable \<Rightarrow> ''wallet login is not provisioned on this deployment''
      | Challenge_expired_or_missing \<Rightarrow> ''no pending challenge for this address -- request a new one''
      | Invalid_signature \<Rightarrow> ''signature verification failed'')"

definition walletAuthErrorStatus :: "wallet_code \<Rightarrow> nat" where
  "walletAuthErrorStatus code = (if code = Challenge_store_unavailable then 503 else 400)"

definition walletAuthRateLimited :: "alert_request \<Rightarrow> account_env \<Rightarrow> alert_response option" where
  "walletAuthRateLimited rq env =
     (case ae_wallet_limiter env of
        None \<Rightarrow> None
      | Some allows \<Rightarrow> if allows rq then None else Some (error_json ''too many wallet-auth requests; slow down'' 429))"


section \<open>Wallet routes\<close>

text \<open>What the four wallet routes share: the limiter, the secret where one is needed, the body.\<close>

definition wallet_request :: "alert_request \<Rightarrow> account_env \<Rightarrow> (string \<times> string) option \<Rightarrow> alert_response + json" where
  "wallet_request rq env secret =
     (case walletAuthRateLimited rq env of
        Some r \<Rightarrow> Inl r
      | None \<Rightarrow>
          (case secret of
             Some (value, message) \<Rightarrow> if value = [] then Inl (error_json message 503) else readAccountRouteBody rq
           | None \<Rightarrow> readAccountRouteBody rq))"

definition wallet_login_missing :: string where
  "wallet_login_missing = ''wallet login is not provisioned on this deployment''"

definition wallet_issuance_missing :: string where
  "wallet_issuance_missing = ''wallet-verified alert issuance is not provisioned on this deployment''"

definition challenge_response ::
    "account_env \<Rightarrow> json \<Rightarrow> WalletChallengePurpose \<Rightarrow> account_world \<Rightarrow> alert_response option \<times> account_world" where
  "challenge_response env body purpose w =
     (case issueWalletChallenge (ae_blake2b env) (ae_control env) (body_text body ''ss58'') purpose (ae_random env) (ae_now env) (wd_kv w) of
        Inl _ \<Rightarrow> (None, w)
      | Inr (Inl code, kv) \<Rightarrow> (Some (error_json (walletAuthErrorMessage code) (walletAuthErrorStatus code)), w\<lparr>wd_kv := kv\<rparr>)
      | Inr (Inr (message, ttl), kv) \<Rightarrow>
          (Some (writeJson (JObj [(''message'', JStr message), (''expires_in_seconds'', JInt (int ttl))]) 200), w\<lparr>wd_kv := kv\<rparr>))"

definition handleWalletChallenge :: "alert_request \<Rightarrow> account_env \<Rightarrow> account_world \<Rightarrow> alert_response option \<times> account_world" where
  "handleWalletChallenge rq env w =
     (case wallet_request rq env (Some (ae_session_secret env, wallet_login_missing)) of
        Inl r \<Rightarrow> (Some r, w)
      | Inr body \<Rightarrow> challenge_response env body Login w)"

definition handleWatchChallenge :: "alert_request \<Rightarrow> account_env \<Rightarrow> account_world \<Rightarrow> alert_response option \<times> account_world" where
  "handleWatchChallenge rq env w =
     (case wallet_request rq env None of
        Inl r \<Rightarrow> (Some r, w)
      | Inr body \<Rightarrow> challenge_response env body Watch w)"

text \<open>A verified request goes on with its address; a failure is a 401 whichever check failed.\<close>

definition verified_wallet ::
    "account_env \<Rightarrow> json \<Rightarrow> WalletChallengePurpose \<Rightarrow> account_world \<Rightarrow>
     (string \<Rightarrow> account_world \<Rightarrow> alert_response option \<times> account_world) \<Rightarrow> alert_response option \<times> account_world" where
  "verified_wallet env body purpose w continue =
     (case verifyWalletChallenge (ae_blake2b env) (ae_sr25519 env) (ae_control env) (body_text body ''ss58'')
             (VStr (body_text body ''signature'')) purpose (ae_now env) (wd_kv w) of
        Inl _ \<Rightarrow> (None, w)
      | Inr (Inl code, kv) \<Rightarrow>
          (Some (error_json (walletAuthErrorMessage code) (if code = Challenge_store_unavailable then 503 else 401)), w\<lparr>wd_kv := kv\<rparr>)
      | Inr (Inr _, kv) \<Rightarrow> continue (body_text body ''ss58'') (w\<lparr>wd_kv := kv\<rparr>))"

definition session_response :: "account_env \<Rightarrow> rpc_account \<Rightarrow> alert_response" where
  "session_response env account =
     writeJson (JObj [(''session_token'', JStr (createSessionToken (ae_sign env) (ae_session_secret env) (VNum (account_number account)) (ra_ss58 account) (ae_now env))),
       (''expires_in_seconds'', JInt SESSION_TTL_SECONDS),
       (''account'', JObj [(''ss58'', JStr (ra_ss58 account)), (''tier'', JStr (ra_tier account))])]) 200"

definition handleWalletVerify :: "alert_request \<Rightarrow> account_env \<Rightarrow> account_world \<Rightarrow> alert_response option \<times> account_world" where
  "handleWalletVerify rq env w =
     (case wallet_request rq env (Some (ae_session_secret env, wallet_login_missing)) of
        Inl r \<Rightarrow> (Some r, w)
      | Inr body \<Rightarrow>
          verified_wallet env body Login w (\<lambda>ss58 w'.
            map_prod Some (\<lambda>x. x) (withAccountsSql env
              (a_bind (upsert_account ss58 (ae_now env)) (\<lambda>account. a_return (session_response env account))) w')))"

definition handleWatchTokenMint :: "alert_request \<Rightarrow> account_env \<Rightarrow> account_world \<Rightarrow> alert_response option \<times> account_world" where
  "handleWatchTokenMint rq env w =
     (case wallet_request rq env (Some (ae_watch_secret env, wallet_issuance_missing)) of
        Inl r \<Rightarrow> (Some r, w)
      | Inr body \<Rightarrow>
          verified_wallet env body Watch w (\<lambda>ss58 w'.
            (Some (writeJson (JObj [(''token'', JStr (createTriggerToken (ae_sign env) (ae_watch_secret env) ss58 (ae_now env))),
               (''expires_in_seconds'', JInt WATCH_TOKEN_TTL_SECONDS)]) 200), w')))"

section \<open>Keys of an account\<close>

definition requireAccountSession :: "alert_request \<Rightarrow> account_env \<Rightarrow> alert_response + jsnum \<times> string" where
  "requireAccountSession rq env =
     (if ae_session_secret env = [] then Inl (error_json wallet_login_missing 503)
      else let h = header rq ''authorization'';
               token = (if starts_with ''Bearer '' h then drop 7 h else [])
           in case (if token = [] then None else verifySessionToken (ae_sign env) (ae_session_secret env) (VStr token) (ae_now env)) of
                None \<Rightarrow> Inl (error_json ''provide a valid Authorization: Bearer <session_token> header'' 401)
              | Some session \<Rightarrow> Inr session)"

text \<open>What a column of text becomes of a value the provider answered.\<close>

definition text_column :: "json \<Rightarrow> string option" where
  "text_column v = (if nullish v then None else Some (js_string v))"

definition handleAccountKeyCreate :: "alert_request \<Rightarrow> account_env \<Rightarrow> account_world \<Rightarrow> alert_response \<times> account_world" where
  "handleAccountKeyCreate rq env w =
     (case requireAccountSession rq env of
        Inl r \<Rightarrow> (r, w)
      | Inr (accountId, ss58) \<Rightarrow>
          if ae_root_key env = [] \<or> ae_api_id env = [] then
            (error_json ''fullnode key issuance is not provisioned on this deployment'' 503, w)
          else if (case ae_mint_limiter env of None \<Rightarrow> False | Some allows \<Rightarrow> \<not> allows (''account-keys-mint:'' @ number_to_string accountId)) then
            (error_json ''too many key-creation requests for this account; slow down'' 429, w)
          else withAccountsSql env
            (a_bind (select_account accountId) (\<lambda>account.
               case account of
                 None \<Rightarrow> a_return (error_json ''no such account'' 404)
               | Some a \<Rightarrow>
                   (case createUnkeyKey (ae_root_key env) (ae_api_id env) (ae_fetch env) (number_to_string accountId) (ra_tier a) of
                      Inl _ \<Rightarrow> a_return (error_json ''key issuance failed; try again'' 502)
                    | Inr (keyId, key) \<Rightarrow>
                        a_bind (insert_key \<lparr>ak_unkey_key_id = text_column keyId, ak_owner_contact = ss58, ak_tier = ra_tier a,
                            ak_account_id = Some accountId, ak_created_at = ae_now env, ak_revoked_at = None,
                            ak_revocation_requested_at = None, ak_last_used_at = None\<rparr>) (\<lambda>_.
                        a_return (writeJson (JObj [(''key'', key), (''key_id'', keyId), (''tier'', JStr (ra_tier a)),
                            (''created_at'', JInt (ae_now env))]) 201))))) w)"

definition json_time :: "int option \<Rightarrow> json" where
  "json_time t = (case t of None \<Rightarrow> JNull | Some x \<Rightarrow> JInt x)"

definition revocation_state :: "api_key \<Rightarrow> string" where
  "revocation_state k =
     (if ak_revoked_at k \<noteq> None then ''revoked'' else if ak_revocation_requested_at k \<noteq> None then ''pending'' else ''active'')"

definition key_view :: "api_key \<Rightarrow> json" where
  "key_view k = JObj
     [(''key_id'', case ak_unkey_key_id k of None \<Rightarrow> JNull | Some s \<Rightarrow> JStr s), (''tier'', JStr (ak_tier k)),
      (''created_at'', JInt (ak_created_at k)), (''revoked_at'', json_time (ak_revoked_at k)),
      (''revocation_requested_at'', json_time (ak_revocation_requested_at k)), (''last_used_at'', json_time (ak_last_used_at k)),
      (''revocation_state'', JStr (revocation_state k))]"

definition handleAccountKeysList :: "alert_request \<Rightarrow> account_env \<Rightarrow> account_world \<Rightarrow> alert_response \<times> account_world" where
  "handleAccountKeysList rq env w =
     (case requireAccountSession rq env of
        Inl r \<Rightarrow> (r, w)
      | Inr (accountId, _) \<Rightarrow>
          withAccountsSql env
            (a_bind (select_keys (\<lambda>k. ak_account_id k = Some accountId)) (\<lambda>rows.
             a_return (writeJson (JObj [(''keys'', JArr (map key_view (sort_key (\<lambda>k. - ak_created_at k) rows)))]) 200))) w)"

definition isUnkeyKeyId :: "string \<Rightarrow> bool" where
  "isUnkeyKeyId s \<longleftrightarrow> starts_with ''key_'' s \<and> drop 4 s \<noteq> [] \<and>
     list_all (\<lambda>c. is_digit c \<or> (65 \<le> (of_char c :: nat) \<and> of_char c \<le> (90 :: nat)) \<or>
       (97 \<le> (of_char c :: nat) \<and> of_char c \<le> (122 :: nat)) \<or> c = CHR ''_'') (drop 4 s)"

definition pending_response :: "string \<Rightarrow> alert_response" where
  "pending_response keyId = writeJson (JObj
     [(''error'', JObj [(''code'', JStr ''KEY_REVOCATION_PENDING''),
        (''message'', JStr ''Key access is disabled. Revocation confirmation is pending; retry.'')]),
      (''key_id'', JStr keyId), (''revoked'', JVal (VBool False)), (''revocation_state'', JStr ''pending''),
      (''access_disabled'', JVal (VBool True))]) 502"

definition revoked_response :: "string \<Rightarrow> alert_response" where
  "revoked_response keyId = writeJson (JObj [(''key_id'', JStr keyId), (''revoked'', JVal (VBool True))]) 200"

text \<open>The provider's confirmation and the write of it; what is thrown there is caught.\<close>

definition confirm_revocation :: "account_env \<Rightarrow> string \<Rightarrow> jsnum \<Rightarrow> alert_response asql" where
  "confirm_revocation env keyId accountId w =
     (case revokeUnkeyKey (ae_root_key env) (ae_api_id env) (ae_fetch env) keyId of
        Inl _ \<Rightarrow> (Some (pending_response keyId), w)
      | Inr _ \<Rightarrow>
          (case update_keys (\<lambda>k. owned_key keyId accountId k \<and> ak_revocation_requested_at k \<noteq> None)
                  (\<lambda>k. k\<lparr>ak_revoked_at := first_of (ak_revoked_at k) (ae_now env)\<rparr>) w of
             (Some (_ # _), w') \<Rightarrow> (Some (revoked_response keyId), w')
           | (_, w') \<Rightarrow> (Some (pending_response keyId), w')))"

definition handleAccountKeyRevoke :: "alert_request \<Rightarrow> account_env \<Rightarrow> string \<Rightarrow> account_world \<Rightarrow> alert_response \<times> account_world" where
  "handleAccountKeyRevoke rq env keyId w =
     (case requireAccountSession rq env of
        Inl r \<Rightarrow> (r, w)
      | Inr (accountId, _) \<Rightarrow>
          if \<not> isUnkeyKeyId keyId then (error_json ''malformed key id'' 400, w)
          else withAccountsSql env
            (a_bind (update_keys (\<lambda>k. owned_key keyId accountId k \<and> ak_revoked_at k = None)
                (\<lambda>k. k\<lparr>ak_revocation_requested_at := first_of (ak_revocation_requested_at k) (ae_now env)\<rparr>)) (\<lambda>intent.
             if intent = [] then
               a_bind (select_keys (owned_key keyId accountId)) (\<lambda>existing.
                 a_return (case existing of
                   k # _ \<Rightarrow> if ak_revoked_at k \<noteq> None then revoked_response keyId else error_json ''no such key'' 404
                 | [] \<Rightarrow> error_json ''no such key'' 404))
             else confirm_revocation env keyId accountId)) w)"


section \<open>Internal key routes\<close>

datatype ApiKeyLedgerState = Active | Pending | Revoked | Unmanaged | Denied

definition ledger_text :: "ApiKeyLedgerState \<Rightarrow> string" where
  "ledger_text st =
     (case st of Active \<Rightarrow> ''active'' | Pending \<Rightarrow> ''pending'' | Revoked \<Rightarrow> ''revoked'' | Unmanaged \<Rightarrow> ''unmanaged'' | Denied \<Rightarrow> ''denied'')"

text \<open>\<open>Number(accountId)\<close> of a text or a number, and of nothing else.\<close>

definition ledger_account :: "json \<Rightarrow> jsnum" where
  "ledger_account v = (case v of JVal (VStr s) \<Rightarrow> string_to_number s | JVal (VNum n) \<Rightarrow> n | _ \<Rightarrow> NaN)"

definition ledger_state_of :: "rpc_account list \<Rightarrow> api_key option \<Rightarrow> json \<Rightarrow> ApiKeyLedgerState" where
  "ledger_state_of accounts row accountId =
     (case row of
        None \<Rightarrow> Unmanaged
      | Some k \<Rightarrow>
          if ak_revoked_at k \<noteq> None then Revoked
          else if ak_revocation_requested_at k \<noteq> None then Pending
          else let n = ledger_account accountId
               in if \<not> is_safe_integer n \<or> num_int n \<le> 0 \<or> ak_account_id k \<noteq> Some n \<or> n \<notin> account_number ` set accounts
                  then Denied else Active)"

definition readApiKeyLedgerState :: "string \<Rightarrow> json \<Rightarrow> ApiKeyLedgerState asql" where
  "readApiKeyLedgerState keyId accountId = a_statement (\<lambda>w.
     Some (ledger_state_of (wd_accounts w) (List.find (\<lambda>k. ak_unkey_key_id k = Some keyId) (wd_keys w)) accountId, w))"

definition require_internal :: "alert_request \<Rightarrow> string \<Rightarrow> string \<Rightarrow> string \<Rightarrow> alert_response option" where
  "require_internal rq configured name missing =
     (let provided = header rq name
      in if configured = [] then Some (error_json missing 503)
         else if provided = [] \<or> \<not> timingSafeEqual provided configured then
           Some (error_json (''provide a valid '' @ name @ '' header'') 401)
         else None)"

definition key_lookup_missing :: string where
  "key_lookup_missing = ''api-key lookup is not provisioned on this deployment''"

definition handleApiKeyState :: "alert_request \<Rightarrow> account_env \<Rightarrow> account_world \<Rightarrow> alert_response \<times> account_world" where
  "handleApiKeyState rq env w =
     (case require_internal rq (ae_lookup_token env) API_KEY_LOOKUP_TOKEN_HEADER key_lookup_missing of
        Some r \<Rightarrow> (r, w)
      | None \<Rightarrow>
          (case readAccountRouteBody rq of
             Inl r \<Rightarrow> (r, w)
           | Inr body \<Rightarrow>
               (case get_prop body ''keyId'' of
                  JVal (VStr keyId) \<Rightarrow>
                    if \<not> isUnkeyKeyId keyId then (error_json ''provide a valid key id'' 400, w)
                    else withAccountsSql env
                      (a_bind (readApiKeyLedgerState keyId (get_prop body ''accountId'')) (\<lambda>state.
                       a_return (writeJson (JObj [(''state'', JStr (ledger_text state))]) 200))) w
                | _ \<Rightarrow> (error_json ''provide a valid key id'' 400, w))))"

definition invalid_key :: "json \<Rightarrow> alert_response" where
  "invalid_key code = writeJson (JObj [(''valid'', JVal (VBool False)), (''code'', code)]) 200"

text \<open>The background write of the last use, whose failure nobody sees.\<close>

definition touch_key :: "string \<Rightarrow> int \<Rightarrow> account_world \<Rightarrow> account_world" where
  "touch_key keyId now w =
     snd (update_keys (\<lambda>k. ak_unkey_key_id k = Some keyId) (\<lambda>k. k\<lparr>ak_last_used_at := Some now\<rparr>) w)"

definition valid_response :: "unkey_identity \<Rightarrow> string \<Rightarrow> bool \<Rightarrow> alert_response" where
  "valid_response result keyId managed = writeJson (JObj
     [(''valid'', JVal (VBool True)), (''code'', uk_code result), (''tier'', uk_tier result),
      (''accountId'', uk_accountId result), (''keyId'', JStr keyId), (''managed'', JVal (VBool managed))]) 200"

definition guarded_verdict :: "account_env \<Rightarrow> unkey_identity \<Rightarrow> string \<Rightarrow> alert_response asql" where
  "guarded_verdict env result keyId =
     a_bind (readApiKeyLedgerState keyId (uk_accountId result)) (\<lambda>state.
       if state \<noteq> Active \<and> state \<noteq> Unmanaged then
         a_return (invalid_key (JStr (if state = Denied then ''NOT_FOUND'' else ''DISABLED'')))
       else (\<lambda>w. a_return (valid_response result keyId (state = Active))
                   (if state = Active then touch_key keyId (ae_now env) w else w)))"

definition handleApiKeyVerify :: "alert_request \<Rightarrow> account_env \<Rightarrow> account_world \<Rightarrow> alert_response \<times> account_world" where
  "handleApiKeyVerify rq env w =
     (case require_internal rq (ae_lookup_token env) API_KEY_LOOKUP_TOKEN_HEADER key_lookup_missing of
        Some r \<Rightarrow> (r, w)
      | None \<Rightarrow>
          (case readAccountRouteBody rq of
             Inl r \<Rightarrow> (r, w)
           | Inr body \<Rightarrow>
               if body_text body ''key'' = [] then (error_json ''provide a key to verify'' 400, w)
               else case verifyUnkeyKey (ae_root_key env) (ae_api_id env) (ae_fetch env) (body_text body ''key'') of
                      Inl _ \<Rightarrow> (invalid_key (JStr ''NOT_FOUND''), w)
                    | Inr result \<Rightarrow>
                        if \<not> uk_valid result then
                          (writeJson (JObj [(''valid'', JVal (VBool False)), (''code'', uk_code result), (''tier'', uk_tier result),
                             (''accountId'', uk_accountId result)]) 200, w)
                        else (case uk_keyId result of
                                JVal (VStr keyId) \<Rightarrow>
                                  if \<not> isUnkeyKeyId keyId then (invalid_key (JStr ''NOT_FOUND''), w)
                                  else withAccountsSql env (guarded_verdict env result keyId) w
                              | _ \<Rightarrow> (invalid_key (JStr ''NOT_FOUND''), w))))"

definition set_tier :: "string \<Rightarrow> string \<Rightarrow> rpc_account option asql" where
  "set_tier ss58 tier = a_statement (\<lambda>w.
     let rows = map (\<lambda>a. if ra_ss58 a = ss58 then a\<lparr>ra_tier := tier\<rparr> else a) (wd_accounts w)
     in Some (List.find (\<lambda>a. ra_ss58 a = ss58) rows, w\<lparr>wd_accounts := rows\<rparr>))"

definition standing_key :: "rpc_account \<Rightarrow> api_key \<Rightarrow> bool" where
  "standing_key a k \<longleftrightarrow> ak_account_id k = Some (account_number a) \<and> ak_revoked_at k = None"

text \<open>\<open>String(null)\<close> of a key without a provider's id.\<close>

definition key_id_text :: "api_key \<Rightarrow> string" where
  "key_id_text k = (case ak_unkey_key_id k of None \<Rightarrow> ''null'' | Some s \<Rightarrow> s)"

definition handleAccountTierPromote :: "alert_request \<Rightarrow> account_env \<Rightarrow> account_world \<Rightarrow> alert_response \<times> account_world" where
  "handleAccountTierPromote rq env w =
     (case require_internal rq (ae_promote_token env) ACCOUNT_TIER_PROMOTE_TOKEN_HEADER ''account tier promotion is not provisioned on this deployment'' of
        Some r \<Rightarrow> (r, w)
      | None \<Rightarrow>
          (case readAccountRouteBody rq of
             Inl r \<Rightarrow> (r, w)
           | Inr body \<Rightarrow>
               let ss58 = body_text body ''ss58''; tier = body_text body ''tier''
               in if ss58 = [] \<or> tier = [] then (error_json ''provide ss58 and tier'' 400, w)
                  else withAccountsSql env
                    (a_bind (set_tier ss58 tier) (\<lambda>account.
                       case account of
                         None \<Rightarrow> a_return (error_json ''no such account'' 404)
                       | Some a \<Rightarrow>
                           a_bind (select_keys (standing_key a)) (\<lambda>keys.
                           let results = map (\<lambda>k. updateUnkeyKeyTier (ae_root_key env) (ae_api_id env) (ae_fetch env) (key_id_text k) tier) keys;
                               failed = length (filter (\<lambda>r. case r of Inl _ \<Rightarrow> True | Inr _ \<Rightarrow> False) results)
                           in a_bind (update_keys (standing_key a) (\<lambda>k. k\<lparr>ak_tier := tier\<rparr>)) (\<lambda>_.
                              a_return (writeJson (JObj [(''ss58'', JStr ss58), (''tier'', JStr tier),
                                (''keys_updated'', JInt (int (length results - failed))), (''keys_failed'', JInt (int failed))]) 200))))) w))"

text \<open>The key routes by method and segment; the two reads of usage and status are arguments.\<close>

type_synonym account_handler = "alert_request \<Rightarrow> account_env \<Rightarrow> account_world \<Rightarrow> alert_response \<times> account_world"

definition handleAccountKeysRoute :: "account_handler \<Rightarrow> account_handler \<Rightarrow> account_handler" where
  "handleAccountKeysRoute usage status rq env w =
     (let keyId = segment 3 rq
      in if keyId = [] \<and> rq_method rq = ''POST'' then handleAccountKeyCreate rq env w
         else if keyId = [] \<and> rq_method rq = ''GET'' then handleAccountKeysList rq env w
         else if keyId = ''usage'' \<and> rq_method rq = ''GET'' then usage rq env w
         else if keyId = ''status'' \<and> rq_method rq = ''GET'' then status rq env w
         else if keyId \<noteq> [] \<and> rq_method rq = ''DELETE'' then handleAccountKeyRevoke rq env keyId w
         else (error_json ''Use POST/GET /api/v1/keys, GET /api/v1/keys/usage, GET /api/v1/keys/status, or DELETE /api/v1/keys/{key_id}.'' 405, w))"

end
