(* ===== verification/Key_Validation.thy ===== *)
theory Key_Validation
  imports Account_Keys
begin

text \<open>
  The validation of a caller's API key at the edge (\<open>src/api-key-validation.ts\<close>,
  \<open>src/auth-lookup-cache.ts\<close>): a cached answer, checked again against the key ledger, or a fresh
  verification.  The calls of the data worker are the modelled handlers, each of which may also fail
  to be reached; their JSON answers are handed over as values.  SHA-256 is an argument; the cache is
  the control store's own binding.
\<close>

section \<open>The cache's envelope\<close>

record AuthLookupCachePolicy =
  positiveTtlSeconds :: int
  negativeTtlSeconds :: int

definition record_ttl :: "AuthLookupCachePolicy \<Rightarrow> json \<Rightarrow> int" where
  "record_ttl policy record = (if truthy (get_prop record ''found'') then positiveTtlSeconds policy else negativeTtlSeconds policy)"

definition authLookupCacheWrite :: "AuthLookupCachePolicy \<Rightarrow> int \<Rightarrow> json \<Rightarrow> string \<times> int" where
  "authLookupCacheWrite policy cachedAt record =
     (let ttl = record_ttl policy record
      in (the (json_stringify (JObj [(''auth_lookup_cache_version'', JInt 1), (''cached_at_ms'', JInt cachedAt),
            (''expires_at_ms'', JInt (cachedAt + ttl * 1000)), (''record'', record)])), max 60 ttl))"

definition recordOrNull :: "json \<Rightarrow> json option" where
  "recordOrNull v = (case v of JObj kvs \<Rightarrow> Some (JObj kvs) | _ \<Rightarrow> None)"

definition safe_number :: "json \<Rightarrow> int option" where
  "safe_number v = (case v of JVal (VNum n) \<Rightarrow> if is_safe_integer n then Some (num_int n) else None | _ \<Rightarrow> None)"

definition readAuthLookupCache :: "AuthLookupCachePolicy \<Rightarrow> int \<Rightarrow> json \<Rightarrow> json option" where
  "readAuthLookupCache policy now v =
     (case recordOrNull v of
        None \<Rightarrow> None
      | Some envelope \<Rightarrow>
          if get_prop envelope ''auth_lookup_cache_version'' \<noteq> JInt 1 then None
          else (case recordOrNull (get_prop envelope ''record'') of
             None \<Rightarrow> None
           | Some record \<Rightarrow>
               (case (get_prop record ''found'', safe_number (get_prop envelope ''cached_at_ms''), safe_number (get_prop envelope ''expires_at_ms'')) of
                  (JVal (VBool _), Some cachedAt, Some expiresAt) \<Rightarrow>
                    if now < cachedAt \<or> expiresAt \<le> now \<or> expiresAt - cachedAt \<noteq> record_ttl policy record * 1000
                    then None else Some record
                | _ \<Rightarrow> None)))"

section \<open>Validation\<close>

definition CACHE_POLICY :: AuthLookupCachePolicy where
  "CACHE_POLICY = \<lparr>positiveTtlSeconds = 1800, negativeTtlSeconds = 30\<rparr>"

definition MIN_BARE_KEY_LENGTH :: nat where
  "MIN_BARE_KEY_LENGTH = 20"

definition bareKeyFrom :: "jsval \<Rightarrow> string option" where
  "bareKeyFrom v =
     (case v of
        VStr s \<Rightarrow>
          let bare = (if starts_with ''Bearer '' s then drop 7 s else s)
          in if \<not> starts_with ''mg_'' bare \<or> length bare < MIN_BARE_KEY_LENGTH then None else Some bare
      | _ \<Rightarrow> None)"

definition LOOKUP_PREFIX :: string where
  "LOOKUP_PREFIX = ''api-key-lookup:v3:''"

definition cacheKeyFor :: "string \<Rightarrow> string" where
  "cacheKeyFor hash = LOOKUP_PREFIX @ hash"

text \<open>
  The edge's own environment: its binding of the data worker with that worker's environment, whether a
  call of a route gets through (the first and the second may fare differently), the token it sends.
\<close>

record edge_env =
  ee_data :: "account_env option"
  ee_state_reached :: bool
  ee_verify_reached :: bool
  ee_token :: string
  ee_control :: "kv_entry list AppKvEnv option"
  ee_sha256Hex :: "string \<Rightarrow> string"
  ee_now :: int

definition internal_request :: "string \<Rightarrow> json \<Rightarrow> alert_request" where
  "internal_request token body =
     \<lparr>rq_method = ''POST'', rq_pathname = [], rq_headers = [(API_KEY_LOOKUP_TOKEN_HEADER, token), (''content-type'', ''application/json'')],
      rq_raw = the (json_stringify body)\<rparr>"

definition not_found :: json where
  "not_found = JObj [(''found'', JVal (VBool False))]"

definition is_found :: "json \<Rightarrow> bool" where
  "is_found record \<longleftrightarrow> truthy (get_prop record ''found'')"

definition is_key_id :: "json \<Rightarrow> bool" where
  "is_key_id v \<longleftrightarrow> (case v of JVal (VStr s) \<Rightarrow> isUnkeyKeyId s | _ \<Rightarrow> False)"

definition is_bool :: "json \<Rightarrow> bool" where
  "is_bool v \<longleftrightarrow> (case v of JVal (VBool _) \<Rightarrow> True | _ \<Rightarrow> False)"

definition lookupViaDataApi :: "edge_env \<Rightarrow> string \<Rightarrow> account_world \<Rightarrow> json \<times> account_world" where
  "lookupViaDataApi env bareKey w =
     (case ee_data env of
        None \<Rightarrow> (not_found, w)
      | Some data \<Rightarrow>
          if ee_token env = [] \<or> \<not> ee_verify_reached env then (not_found, w)
          else (case handleApiKeyVerify (internal_request (ee_token env) (JObj [(''key'', JStr bareKey)])) data w of
             (upstream, w') \<Rightarrow>
               if \<not> (200 \<le> rs_status upstream \<and> rs_status upstream \<le> 299) then (not_found, w')
               else let record = rs_body upstream; valid = (get_prop record ''valid'' = JVal (VBool True))
                    in if valid \<and> (\<not> is_key_id (get_prop record ''keyId'') \<or> \<not> is_bool (get_prop record ''managed'')) then (not_found, w')
                       else (JObj [(''found'', JVal (VBool valid)), (''code'', get_prop record ''code''),
                               (''tier'', or_json_null (get_prop record ''tier'')), (''accountId'', or_json_null (get_prop record ''accountId'')),
                               (''keyId'', get_prop record ''keyId''), (''managed'', get_prop record ''managed'')], w')))"

text \<open>A cached answer is one to give, or none and the provider is asked.\<close>

definition checkCachedApiKey :: "edge_env \<Rightarrow> json \<Rightarrow> account_world \<Rightarrow> json option \<times> account_world" where
  "checkCachedApiKey env record w =
     (if \<not> is_found record then (Some record, w)
      else if get_prop record ''managed'' \<noteq> JVal (VBool True) \<or> \<not> is_key_id (get_prop record ''keyId'') then (None, w)
      else case ee_data env of
             None \<Rightarrow> (Some not_found, w)
           | Some data \<Rightarrow>
               if ee_token env = [] \<or> \<not> ee_state_reached env then (Some not_found, w)
               else (case handleApiKeyState (internal_request (ee_token env)
                              (JObj [(''keyId'', get_prop record ''keyId''), (''accountId'', get_prop record ''accountId'')])) data w of
                  (upstream, w') \<Rightarrow>
                    if \<not> (200 \<le> rs_status upstream \<and> rs_status upstream \<le> 299) then (Some not_found, w')
                    else let state = get_prop (rs_body upstream) ''state''
                         in if state = JStr ''active'' then (Some record, w')
                            else if state = JStr ''unmanaged'' then (None, w')
                            else (Some (JObj [(''found'', JVal (VBool False)),
                                    (''code'', JStr (if state = JStr ''pending'' \<or> state = JStr ''revoked'' then ''DISABLED'' else ''NOT_FOUND''))]), w')))"

text \<open>The cache's read and write, neither of which can fail the validation.\<close>

definition read_cached :: "edge_env \<Rightarrow> kv_entry list AppKv option \<Rightarrow> string \<Rightarrow> account_world \<Rightarrow> json option" where
  "read_cached env kv key w =
     (case kv of
        None \<Rightarrow> None
      | Some k \<Rightarrow>
          (case m_get k of
             None \<Rightarrow> None
           | Some get \<Rightarrow>
               (case get key (ee_now env) (wd_kv w) of
                  Inr (Some text) \<Rightarrow> Option.bind (JSON_parse text) (readAuthLookupCache CACHE_POLICY (ee_now env))
                | _ \<Rightarrow> None)))"

definition write_cached :: "edge_env \<Rightarrow> kv_entry list AppKv option \<Rightarrow> string \<Rightarrow> json \<Rightarrow> account_world \<Rightarrow> account_world" where
  "write_cached env kv key payload w =
     (case kv of
        None \<Rightarrow> w
      | Some k \<Rightarrow>
          (case m_put k of
             None \<Rightarrow> w
           | Some put \<Rightarrow>
               if is_found payload \<and> get_prop payload ''managed'' \<noteq> JVal (VBool True) then w
               else (case authLookupCacheWrite CACHE_POLICY (ee_now env) payload of
                       (value, ttl) \<Rightarrow>
                         (case put key value (nat ttl) (ee_now env) (wd_kv w) of Inl _ \<Rightarrow> w | Inr kv' \<Rightarrow> w\<lparr>wd_kv := kv'\<rparr>))))"

text \<open>\<open>None\<close>: the control binding is incomplete and reading it threw.\<close>

definition lookupApiKey :: "edge_env \<Rightarrow> string \<Rightarrow> account_world \<Rightarrow> json option \<times> account_world" where
  "lookupApiKey env bareKey w =
     (case appKv (ee_control env) of
        Inl _ \<Rightarrow> (None, w)
      | Inr kv \<Rightarrow>
          let key = cacheKeyFor (ee_sha256Hex env bareKey);
              (checked, w1) = (case read_cached env kv key w of None \<Rightarrow> (None, w) | Some cached \<Rightarrow> checkCachedApiKey env cached w)
          in case checked of
               Some answer \<Rightarrow> (Some answer, w1)
             | None \<Rightarrow> (case lookupViaDataApi env bareKey w1 of
                          (payload, w2) \<Rightarrow> (Some payload, write_cached env kv key payload w2)))"

datatype key_verdict = KeyOk json json | InvalidKey | KeyRevoked

definition validateApiKey :: "edge_env \<Rightarrow> jsval \<Rightarrow> account_world \<Rightarrow> key_verdict option \<times> account_world" where
  "validateApiKey env rawKey w =
     (case bareKeyFrom rawKey of
        None \<Rightarrow> (Some InvalidKey, w)
      | Some bareKey \<Rightarrow>
          (case lookupApiKey env bareKey w of
             (None, w') \<Rightarrow> (None, w')
           | (Some record, w') \<Rightarrow>
               (Some (if \<not> is_found record then (if get_prop record ''code'' = JStr ''DISABLED'' then KeyRevoked else InvalidKey)
                      else KeyOk (get_prop record ''tier'') (get_prop record ''accountId'')), w')))"

end
