(* ===== verification/Account_Frames.thy ===== *)
theory Account_Frames
  imports Key_Validation
begin

text \<open>
  What a route leaves as it was.  A relation between the world before and after that holds along every
  statement holds along what is made of statements, however they fail; the locale proves it once for
  every such relation.
\<close>

definition keeping :: "(account_world \<Rightarrow> account_world \<Rightarrow> bool) \<Rightarrow> 'a asql \<Rightarrow> bool" where
  "keeping kept m \<longleftrightarrow> (\<forall>w. kept w (snd (m w)))"

locale kept_relation =
  fixes kept :: "account_world \<Rightarrow> account_world \<Rightarrow> bool"
  assumes kept_refl: "kept w w"
    and kept_trans: "kept w w' \<Longrightarrow> kept w' w'' \<Longrightarrow> kept w w''"
    and kept_faults: "kept w (w\<lparr>wd_faults := fs\<rparr>)"
begin

lemma keeping_return [simp]: "keeping kept (a_return x)"
  by (simp add: keeping_def a_return_def kept_refl)

lemma keeping_bind:
  assumes "keeping kept m" and "\<And>x. keeping kept (f x)"
  shows "keeping kept (a_bind m f)"
  unfolding keeping_def
proof
  fix w
  have m: "kept w (snd (m w))" using assms(1) by (simp add: keeping_def)
  show "kept w (snd (a_bind m f w))"
  proof (cases "m w")
    case (Pair r w')
    have "kept w' (snd (f x w'))" for x using assms(2) by (simp add: keeping_def)
    then show ?thesis using m Pair kept_trans by (cases r) (simp_all add: a_bind_def)
  qed
qed

lemma keeping_statement:
  assumes "\<And>w x w'. f w = Some (x, w') \<Longrightarrow> kept w w'"
  shows "keeping kept (a_statement f)"
  unfolding keeping_def
proof
  fix w :: account_world
  let ?w = "w\<lparr>wd_faults := tl (wd_faults w)\<rparr>"
  have base: "kept w ?w" by (rule kept_faults)
  have "kept w (snd r)" if "f ?w = Some r" for r
    using assms [of ?w "fst r" "snd r"] that kept_trans [OF base] by simp
  then show "kept w (snd (a_statement f w))"
    using base by (auto simp: a_statement_def Let_def split: option.split prod.split)
qed

lemma keeping_with_sql: "keeping kept fn \<Longrightarrow> kept w (snd (withAccountsSql env fn w))"
  by (cases "fn w"; cases "fst (fn w)") (auto simp: withAccountsSql_def keeping_def kept_refl dest: spec [of _ w])

lemmas keeping_rules = keeping_with_sql keeping_bind

end

end
