(* ===== verification/Key_Forward.thy ===== *)
theory Key_Forward
  imports Account_Frames
begin

text \<open>
  No route brings a key back: the requests to revoke and the confirmations recorded in the ledger stay,
  whatever statements fail, and no two rows have one provider's id.
\<close>

section \<open>Keys only move forward\<close>

definition ids_unique :: "api_key list \<Rightarrow> bool" where
  "ids_unique ks \<longleftrightarrow> (\<forall>k\<in>set ks. \<forall>k'\<in>set ks. ak_unkey_key_id k \<noteq> None \<longrightarrow> ak_unkey_key_id k = ak_unkey_key_id k' \<longrightarrow> k = k')"

definition barred :: "string \<Rightarrow> api_key list \<Rightarrow> bool" where
  "barred i ks \<longleftrightarrow> (\<exists>k\<in>set ks. ak_unkey_key_id k = Some i \<and> (ak_revocation_requested_at k \<noteq> None \<or> ak_revoked_at k \<noteq> None))"

definition keys_forward :: "api_key list \<Rightarrow> api_key list \<Rightarrow> bool" where
  "keys_forward ks ks' \<longleftrightarrow> (ids_unique ks \<longrightarrow> ids_unique ks') \<and> (\<forall>i. barred i ks \<longrightarrow> barred i ks')"

definition forward :: "account_world \<Rightarrow> account_world \<Rightarrow> bool" where
  "forward w w' \<longleftrightarrow> wd_kv w' = wd_kv w \<and> keys_forward (wd_keys w) (wd_keys w')"

interpretation key_frame: kept_relation forward
  by unfold_locales (auto simp: forward_def keys_forward_def)

lemma forward_refl [simp]: "forward w w"
  by (rule key_frame.kept_refl)

lemma map_forward:
  assumes "\<And>k. P k \<Longrightarrow> ak_unkey_key_id (f k) = ak_unkey_key_id k"
    and "\<And>k. P k \<Longrightarrow> ak_revocation_requested_at k \<noteq> None \<Longrightarrow> ak_revocation_requested_at (f k) \<noteq> None"
    and "\<And>k. P k \<Longrightarrow> ak_revoked_at k \<noteq> None \<Longrightarrow> ak_revoked_at (f k) \<noteq> None"
  shows "keys_forward ks (map (\<lambda>k. if P k then f k else k) ks)"
proof -
  let ?g = "\<lambda>k. if P k then f k else k"
  have id: "ak_unkey_key_id (?g k) = ak_unkey_key_id k" for k using assms(1) by simp
  have "ids_unique (map ?g ks)" if u: "ids_unique ks"
    unfolding ids_unique_def
  proof (intro ballI impI)
    fix a b
    assume a: "a \<in> set (map ?g ks)" and b: "b \<in> set (map ?g ks)"
      and same: "ak_unkey_key_id a \<noteq> None" "ak_unkey_key_id a = ak_unkey_key_id b"
    obtain k where k: "k \<in> set ks" "a = ?g k" using a by auto
    obtain k' where k': "k' \<in> set ks" "b = ?g k'" using b by auto
    have "k = k'" using u k(1) k'(1) same id k(2) k'(2) unfolding ids_unique_def by metis
    then show "a = b" using k(2) k'(2) by simp
  qed
  moreover have "barred i (map ?g ks)" if r: "barred i ks" for i
  proof -
    obtain k where k: "k \<in> set ks" "ak_unkey_key_id k = Some i" "ak_revocation_requested_at k \<noteq> None \<or> ak_revoked_at k \<noteq> None"
      using r by (auto simp: barred_def)
    then have "?g k \<in> set (map ?g ks)" "ak_unkey_key_id (?g k) = Some i"
      "ak_revocation_requested_at (?g k) \<noteq> None \<or> ak_revoked_at (?g k) \<noteq> None" using assms id by auto
    then show ?thesis unfolding barred_def by blast
  qed
  ultimately show ?thesis by (simp add: keys_forward_def)
qed

lemma forward_update:
  assumes "\<And>k. P k \<Longrightarrow> ak_unkey_key_id (f k) = ak_unkey_key_id k"
    and "\<And>k. P k \<Longrightarrow> ak_revocation_requested_at k \<noteq> None \<Longrightarrow> ak_revocation_requested_at (f k) \<noteq> None"
    and "\<And>k. P k \<Longrightarrow> ak_revoked_at k \<noteq> None \<Longrightarrow> ak_revoked_at (f k) \<noteq> None"
  shows "keeping forward (update_keys P f)"
  unfolding update_keys_def
proof (rule key_frame.keeping_statement)
  fix w w' :: account_world and x
  assume "Some (map f (filter P (wd_keys w)), w\<lparr>wd_keys := map (\<lambda>k. if P k then f k else k) (wd_keys w)\<rparr>) = Some (x, w')"
  then have "w' = w\<lparr>wd_keys := map (\<lambda>k. if P k then f k else k) (wd_keys w)\<rparr>" by simp
  then show "forward w w'" using map_forward [OF assms, of P "wd_keys w"] by (simp add: forward_def)
qed

lemma append_forward:
  assumes "ak_unkey_key_id k \<noteq> None \<longrightarrow> ak_unkey_key_id k \<notin> ak_unkey_key_id ` set ks"
  shows "keys_forward ks (ks @ [k])"
proof -
  have "ids_unique (ks @ [k])" if u: "ids_unique ks"
    unfolding ids_unique_def
  proof (intro ballI impI)
    fix a b
    assume in_both: "a \<in> set (ks @ [k])" "b \<in> set (ks @ [k])"
      and same: "ak_unkey_key_id a \<noteq> None" "ak_unkey_key_id a = ak_unkey_key_id b"
    have "x \<notin> set ks" if "ak_unkey_key_id x = ak_unkey_key_id k" "ak_unkey_key_id k \<noteq> None" for x
      using assms that image_eqI [of "ak_unkey_key_id k" ak_unkey_key_id x "set ks"] by auto
    then show "a = b" using in_both same u unfolding ids_unique_def by auto
  qed
  then show ?thesis by (auto simp: keys_forward_def barred_def)
qed

lemma keeps_insert: "keeping forward (insert_key k)"
  unfolding insert_key_def
  by (rule key_frame.keeping_statement) (auto simp: forward_def append_forward split: if_splits)

lemma keeps_reads [simp]: "keeping forward (select_account a)" "keeping forward (select_keys P)" "keeping forward (readApiKeyLedgerState i v)"
  by (auto simp: select_account_def select_keys_def readApiKeyLedgerState_def intro!: key_frame.keeping_statement)

lemma keeps_accounts [simp]: "keeping forward (upsert_account s now)" "keeping forward (set_tier s t)"
  by (auto simp: upsert_account_def set_tier_def Let_def forward_def keys_forward_def intro!: key_frame.keeping_statement split: option.splits)

lemma keeps_touch: "forward w (touch_key i now w)"
proof -
  have "keeping forward (update_keys (\<lambda>k. ak_unkey_key_id k = Some i) (\<lambda>k. k\<lparr>ak_last_used_at := Some now\<rparr>))"
    by (rule forward_update) simp_all
  then show ?thesis by (simp add: touch_key_def keeping_def)
qed

lemma keeps_confirm: "keeping forward (confirm_revocation env i a)"
proof -
  let ?u = "update_keys (\<lambda>k. owned_key i a k \<and> ak_revocation_requested_at k \<noteq> None)
    (\<lambda>k. k\<lparr>ak_revoked_at := first_of (ak_revoked_at k) (ae_now env)\<rparr>)"
  have u: "keeping forward ?u" by (rule forward_update) (simp_all add: first_of_def split: option.split)
  show ?thesis
    unfolding keeping_def
  proof
    fix w
    have "forward w (snd (?u w))" using u by (simp add: keeping_def)
    then show "forward w (snd (confirm_revocation env i a w))"
      unfolding confirm_revocation_def by (cases "?u w") (simp split: sum.split option.split list.split)
  qed
qed

section \<open>What the routes leave\<close>

lemma create_forward: "forward w (snd (handleAccountKeyCreate rq env w))"
  unfolding handleAccountKeyCreate_def
  by (auto split: sum.splits prod.splits option.splits simp: Let_def
      intro!: key_frame.keeping_with_sql key_frame.keeping_bind keeps_insert)

lemma list_forward: "forward w (snd (handleAccountKeysList rq env w))"
  unfolding handleAccountKeysList_def
  by (auto split: sum.splits prod.splits intro!: key_frame.keeping_with_sql key_frame.keeping_bind)

lemma revoke_forward: "forward w (snd (handleAccountKeyRevoke rq env i w))"
  unfolding handleAccountKeyRevoke_def
  by (auto split: sum.splits prod.splits option.splits simp: first_of_def
      intro!: key_frame.keeping_with_sql key_frame.keeping_bind keeps_confirm forward_update)

lemma state_forward: "forward w (snd (handleApiKeyState rq env w))"
  unfolding handleApiKeyState_def
  by (auto split: option.splits sum.splits json.splits jsval.splits intro!: key_frame.keeping_with_sql key_frame.keeping_bind)

lemma keeps_guarded: "keeping forward (guarded_verdict env result i)"
  unfolding guarded_verdict_def
  by (rule key_frame.keeping_bind [OF keeps_reads(3)]) (auto simp: keeping_def a_return_def keeps_touch)

lemma verify_forward: "forward w (snd (handleApiKeyVerify rq env w))"
  unfolding handleApiKeyVerify_def
  by (auto split: option.splits sum.splits json.splits jsval.splits intro!: key_frame.keeping_with_sql keeps_guarded)

lemma promote_forward: "forward w (snd (handleAccountTierPromote rq env w))"
  unfolding handleAccountTierPromote_def
  by (auto split: option.splits sum.splits simp: Let_def intro!: key_frame.keeping_with_sql key_frame.keeping_bind forward_update)

lemmas routes_forward = create_forward list_forward revoke_forward state_forward verify_forward promote_forward

end
