(* ===== verification/Key_Answers.thy ===== *)
theory Key_Answers
  imports Key_Forward
begin

text \<open>
  What the internal key routes answer, and what a validation writes to the cache: an answer of a key
  that the ledger bars is never a yes, and what the cache holds for a key names that key.
\<close>

section \<open>Objects read back\<close>

definition kept_or_absent :: "json \<Rightarrow> bool" where
  "kept_or_absent v \<longleftrightarrow> v = JUndef \<or> kept_by_json v"

definition defined :: "(string \<times> json) list \<Rightarrow> (string \<times> json) list" where
  "defined kvs = filter (\<lambda>kv. snd kv \<noteq> JUndef) kvs"

lemma stringify_congr:
  assumes "map (\<lambda>kv. (fst kv, json_stringify (snd kv))) kvs = map (\<lambda>kv. (fst kv, json_stringify (snd kv))) kvs'"
  shows "json_stringify (JObj kvs) = json_stringify (JObj kvs')"
proof -
  let ?line = "\<lambda>p. case snd p of Some t \<Rightarrow> [json_quote (fst p) @ '':'' @ t] | None \<Rightarrow> []"
  have "concat (map (\<lambda>kv. case json_stringify (snd kv) of Some t \<Rightarrow> [json_quote (fst kv) @ '':'' @ t] | None \<Rightarrow> []) xs) =
    concat (map ?line (map (\<lambda>kv. (fst kv, json_stringify (snd kv))) xs))" for xs
    by (induction xs) (simp_all split: option.split)
  then show ?thesis by (simp only: json_stringify.simps assms)
qed

lemma stringify_defined: "json_stringify (JObj kvs) = json_stringify (JObj (defined kvs))"
proof -
  have "concat (map (\<lambda>kv. case json_stringify (snd kv) of Some t \<Rightarrow> [json_quote (fst kv) @ '':'' @ t] | None \<Rightarrow> []) kvs) =
    concat (map (\<lambda>kv. case json_stringify (snd kv) of Some t \<Rightarrow> [json_quote (fst kv) @ '':'' @ t] | None \<Rightarrow> []) (defined kvs))"
    by (induction kvs) (auto simp: defined_def)
  then show ?thesis by simp
qed

lemma get_defined:
  assumes "distinct (map fst kvs)"
  shows "get_prop (JObj (defined kvs)) k = get_prop (JObj kvs) k"
  using assms
proof (induction kvs)
  case (Cons kv kvs)
  have "map_of (defined kvs) (fst kv) = None"
    using Cons.prems by (auto simp: defined_def map_of_eq_None_iff)
  then show ?case using Cons by (cases kv) (auto simp: defined_def)
qed (simp add: defined_def)

lemma defined_kept:
  assumes "distinct (map fst kvs)" and "\<forall>kv\<in>set kvs. kept_or_absent (snd kv)"
  shows "kept_by_json (JObj (defined kvs))"
  using assms by (auto simp: defined_def kept_or_absent_def list_all_iff distinct_map_filter)

lemma written_object:
  assumes "distinct (map fst kvs)" and "\<forall>kv\<in>set kvs. kept_or_absent (snd kv)"
  shows "JSON_parse (the (json_stringify (JObj kvs))) = Some (JObj (defined kvs))"
proof -
  obtain t where "json_stringify (JObj (defined kvs)) = Some t" "JSON_parse t = Some (JObj (defined kvs))"
    using json_parse_stringify [OF defined_kept [OF assms]] .
  then show ?thesis by (simp only: stringify_defined [of kvs] option.sel)
qed

lemma kept_text [simp]: "kept_by_json (JVal (VStr s))" "kept_by_json (JVal (VBool b))" "kept_by_json JNull"
  by simp_all

lemma kept_absent [simp]: "kept_or_absent JUndef" "kept_by_json v \<Longrightarrow> kept_or_absent v"
  by (simp_all add: kept_or_absent_def)

lemma or_null_kept: "kept_or_absent v \<Longrightarrow> kept_by_json (or_json_null v)"
  by (auto simp: or_json_null_def kept_or_absent_def nullish_def)

section \<open>What a request carries\<close>

definition carries :: "alert_request \<Rightarrow> (string \<times> json) list \<Rightarrow> bool" where
  "carries rq kvs \<longleftrightarrow> (\<forall>r. readAccountRouteBody rq = r \<longrightarrow> (case r of
     Inl resp \<Rightarrow> \<exists>m c. resp = error_json m c | Inr body \<Rightarrow> \<forall>f. get_prop body f = get_prop (JObj kvs) f))"

lemma internal_carries:
  assumes "distinct (map fst kvs)" and "\<forall>kv\<in>set kvs. kept_or_absent (snd kv)"
  shows "carries (internal_request token (JObj kvs)) kvs"
proof -
  have "the (json_stringify (JObj kvs)) \<noteq> []" by simp
  then show ?thesis
    using written_object [OF assms] get_defined [OF assms(1)]
    by (auto simp: carries_def readAccountRouteBody_def internal_request_def Let_def simp del: json_stringify.simps get_prop.simps)
qed

section \<open>The ledger\<close>

lemma ledger_bars:
  assumes u: "ids_unique ks" and b: "barred i ks"
  shows "ledger_state_of accounts (List.find (\<lambda>k. ak_unkey_key_id k = Some i) ks) v \<in> {Pending, Revoked}"
proof -
  obtain k where k: "k \<in> set ks" "ak_unkey_key_id k = Some i" "ak_revocation_requested_at k \<noteq> None \<or> ak_revoked_at k \<noteq> None"
    using b by (auto simp: barred_def)
  obtain k' where f: "List.find (\<lambda>k. ak_unkey_key_id k = Some i) ks = Some k'"
    using k find_None_iff [of "\<lambda>k. ak_unkey_key_id k = Some i" ks] by (cases "List.find (\<lambda>k. ak_unkey_key_id k = Some i) ks") auto
  then have "k' \<in> set ks" "ak_unkey_key_id k' = Some i" by (auto simp: find_Some_iff)
  then have "k' = k" using u k unfolding ids_unique_def by force
  then show ?thesis using k f by (auto simp: ledger_state_of_def)
qed

lemma read_ledger:
  assumes "readApiKeyLedgerState i v w = (Some st, w')" and "ids_unique (wd_keys w)" and "barred i (wd_keys w)"
  shows "st \<in> {Pending, Revoked}"
  using assms ledger_bars [OF assms(2,3), of "wd_accounts w" v]
  by (auto simp: readApiKeyLedgerState_def a_statement_def Let_def split: if_splits)

section \<open>Answers\<close>

text \<open>The provider: one id for a key, and what it answers of a key is a JSON value.\<close>

definition provider_ok :: "(string \<Rightarrow> string) \<Rightarrow> account_env \<Rightarrow> bool" where
  "provider_ok key_id env \<longleftrightarrow> (\<forall>raw result. verifyUnkeyKey (ae_root_key env) (ae_api_id env) (ae_fetch env) raw = Inr result \<longrightarrow>
     kept_by_json (uk_code result) \<and> kept_by_json (uk_tier result) \<and> kept_by_json (uk_accountId result) \<and>
     (\<forall>k. uk_valid result \<longrightarrow> uk_keyId result = JStr k \<longrightarrow> k = key_id raw))"

definition answer_ok :: "string \<Rightarrow> api_key list \<Rightarrow> json \<Rightarrow> bool" where
  "answer_ok i ks body \<longleftrightarrow>
     (\<forall>f\<in>{''code'', ''tier'', ''accountId'', ''keyId'', ''managed''}. kept_or_absent (get_prop body f)) \<and>
     (get_prop body ''valid'' = JVal (VBool True) \<longrightarrow> get_prop body ''keyId'' = JStr i \<and> \<not> barred i ks)"

lemma answer_error [simp]: "answer_ok i ks (rs_body (error_json m c))"
  by (simp add: answer_ok_def error_json_def writeJson_def)

lemma answer_invalid [simp]: "kept_by_json c \<Longrightarrow> answer_ok i ks (rs_body (invalid_key c))"
  by (simp add: answer_ok_def invalid_key_def writeJson_def)

lemma guarded_answer:
  assumes r: "guarded_verdict env result i w = (Some r, w')" and u: "ids_unique (wd_keys w)"
    and kept: "kept_by_json (uk_code result)" "kept_by_json (uk_tier result)" "kept_by_json (uk_accountId result)"
  shows "answer_ok i (wd_keys w) (rs_body r)"
proof -
  obtain st w1 where st: "readApiKeyLedgerState i (uk_accountId result) w = (Some st, w1)"
    using r by (auto simp: guarded_verdict_def a_bind_def split: prod.splits option.splits)
  show ?thesis
  proof (cases "st \<noteq> Active \<and> st \<noteq> Unmanaged")
    case True
    then have "\<exists>c. r = invalid_key (JStr c)" using r st by (auto simp: guarded_verdict_def a_bind_def a_return_def)
    then show ?thesis by auto
  next
    case False
    then have "r = valid_response result i (st = Active)" using r st by (auto simp: guarded_verdict_def a_bind_def a_return_def)
    moreover have "\<not> barred i (wd_keys w)" using read_ledger [OF st u] False by auto
    ultimately show ?thesis using kept by (simp add: answer_ok_def valid_response_def writeJson_def)
  qed
qed

lemma verify_answer:
  assumes "carries rq [(''key'', JStr raw)]" and "provider_ok key_id env" and "ids_unique (wd_keys w)"
  shows "answer_ok (key_id raw) (wd_keys w) (rs_body (fst (handleApiKeyVerify rq env w)))"
proof (cases "require_internal rq (ae_lookup_token env) API_KEY_LOOKUP_TOKEN_HEADER key_lookup_missing")
  case (Some r)
  then have "\<exists>m c. r = error_json m c" by (auto simp: require_internal_def Let_def split: if_splits)
  then show ?thesis using Some by (auto simp: handleApiKeyVerify_def)
next
  case None
  note start = None
  show ?thesis
  proof (cases "readAccountRouteBody rq")
    case (Inl r)
    then have "\<exists>m c. r = error_json m c" using assms(1) by (simp add: carries_def)
    then show ?thesis using start Inl by (auto simp: handleApiKeyVerify_def)
  next
    case (Inr body)
    then have b: "body_text body ''key'' = raw" using assms(1) by (simp add: carries_def body_text_def)
    show ?thesis
    proof (cases "verifyUnkeyKey (ae_root_key env) (ae_api_id env) (ae_fetch env) raw")
      case (Inl e)
      then show ?thesis using start Inr b by (simp add: handleApiKeyVerify_def)
    next
      case (Inr result)
      then have kept: "kept_by_json (uk_code result)" "kept_by_json (uk_tier result)" "kept_by_json (uk_accountId result)"
        and i: "\<And>k. uk_valid result \<Longrightarrow> uk_keyId result = JStr k \<Longrightarrow> k = key_id raw"
        using assms(2) by (auto simp: provider_ok_def)
      note head = start \<open>readAccountRouteBody rq = Inr body\<close> b Inr
      show ?thesis
      proof (cases "raw = [] \<or> \<not> uk_valid result \<or> \<not> is_key_id (uk_keyId result)")
        case True
        then show ?thesis using head kept
          by (auto simp: handleApiKeyVerify_def answer_ok_def writeJson_def invalid_key_def error_json_def is_key_id_def split: json.splits jsval.splits)
      next
        case False
        then obtain k where k: "uk_keyId result = JStr k" "isUnkeyKeyId k" "uk_valid result" "raw \<noteq> []"
          by (auto simp: is_key_id_def split: json.splits jsval.splits)
        have h: "handleApiKeyVerify rq env w = withAccountsSql env (guarded_verdict env result (key_id raw)) w"
          using head k i [OF k(3,1)] by (simp add: handleApiKeyVerify_def)
        show ?thesis
        proof (cases "fst (guarded_verdict env result (key_id raw) w)")
          case None
          then show ?thesis unfolding h by (cases "guarded_verdict env result (key_id raw) w") (simp add: withAccountsSql_def)
        next
          case (Some r)
          then have "guarded_verdict env result (key_id raw) w = (Some r, snd (guarded_verdict env result (key_id raw) w))"
            by (metis prod.collapse)
          from guarded_answer [OF this assms(3) kept] show ?thesis unfolding h
            using Some by (cases "guarded_verdict env result (key_id raw) w") (simp add: withAccountsSql_def)
        qed
      qed
    qed
  qed
qed

text \<open>What the ledger says of a barred key, asked by its id.\<close>

lemma state_answer:
  assumes c: "carries rq [(''keyId'', JStr i), (''accountId'', v)]" and u: "ids_unique (wd_keys w)" and b: "barred i (wd_keys w)"
  shows "get_prop (rs_body (fst (handleApiKeyState rq env w))) ''state'' \<notin> {JStr ''active'', JStr ''unmanaged''}"
proof (cases "require_internal rq (ae_lookup_token env) API_KEY_LOOKUP_TOKEN_HEADER key_lookup_missing")
  case (Some r)
  then have "\<exists>m c. r = error_json m c" by (auto simp: require_internal_def Let_def split: if_splits)
  then show ?thesis using Some by (auto simp: handleApiKeyState_def error_json_def writeJson_def)
next
  case None
  note start = None
  show ?thesis
  proof (cases "readAccountRouteBody rq")
    case (Inl r)
    then have "\<exists>m c. r = error_json m c" using c by (simp add: carries_def)
    then show ?thesis using start Inl by (auto simp: handleApiKeyState_def error_json_def writeJson_def)
  next
    case (Inr body)
    then have body: "get_prop body ''keyId'' = JStr i" "get_prop body ''accountId'' = v" using c by (simp_all add: carries_def)
    show ?thesis
    proof (cases "readApiKeyLedgerState i v w")
      case (Pair st w')
      have "st = None \<or> st = Some Pending \<or> st = Some Revoked"
        using read_ledger [OF _ u b, of v _ w'] Pair by (cases st) auto
      then show ?thesis using start Inr body Pair
        by (auto simp: handleApiKeyState_def withAccountsSql_def a_bind_def a_return_def ledger_text_def error_json_def writeJson_def)
    qed
  qed
qed

section \<open>The cache\<close>

definition cached_ok :: "string \<Rightarrow> json \<Rightarrow> bool" where
  "cached_ok i record \<longleftrightarrow> (is_found record \<longrightarrow> get_prop record ''keyId'' = JStr i \<and> kept_by_json (get_prop record ''accountId''))"

definition envelope_ok :: "string \<Rightarrow> string \<Rightarrow> bool" where
  "envelope_ok i wtext \<longleftrightarrow>
     (\<forall>e record. JSON_parse wtext = Some e \<longrightarrow> recordOrNull (get_prop e ''record'') = Some record \<longrightarrow> cached_ok i record)"

lemma read_envelope:
  assumes "envelope_ok i wtext" and "Option.bind (JSON_parse wtext) (readAuthLookupCache policy now) = Some record"
  shows "cached_ok i record"
proof -
  obtain e where e: "JSON_parse wtext = Some e" "readAuthLookupCache policy now e = Some record"
    using assms(2) by (auto split: bind_splits)
  then obtain kvs where "e = JObj kvs" by (auto simp: readAuthLookupCache_def recordOrNull_def split: json.splits)
  with e have "recordOrNull (get_prop e ''record'') = Some record"
    by (auto simp: readAuthLookupCache_def recordOrNull_def split: json.splits jsval.splits option.splits if_splits)
  then show ?thesis using assms(1) e(1) by (simp add: envelope_ok_def)
qed

definition time_ok :: "int \<Rightarrow> bool" where
  "time_ok t \<longleftrightarrow> 0 \<le> t \<and> t \<le> 8640000000000000"

lemma safe_kept: "0 \<le> i \<Longrightarrow> i \<le> 8640001800000 * 1000 \<Longrightarrow> kept_by_json (JInt i)"
  by (simp add: js_int_def MAX_SAFE_def)

lemma time_kept: "time_ok t \<Longrightarrow> 0 \<le> d \<Longrightarrow> d \<le> 1800 \<Longrightarrow> kept_by_json (JInt (t + d * 1000))"
  by (rule safe_kept) (simp_all add: time_ok_def)

lemma written_envelope:
  assumes "distinct (map fst kvs)" and "\<forall>kv\<in>set kvs. kept_or_absent (snd kv)" and "cached_ok i (JObj kvs)" and "time_ok now"
  shows "envelope_ok i (fst (authLookupCacheWrite CACHE_POLICY now (JObj kvs)))"
proof -
  let ?ttl = "record_ttl CACHE_POLICY (JObj kvs)"
  let ?outer = "\<lambda>r. [(''auth_lookup_cache_version'', JInt 1), (''cached_at_ms'', JInt now), (''expires_at_ms'', JInt (now + ?ttl * 1000)), (''record'', r)]"
  have ttl: "0 \<le> ?ttl" "?ttl \<le> 1800" by (simp_all add: record_ttl_def CACHE_POLICY_def)
  have inner: "kept_by_json (JObj (defined kvs))" by (rule defined_kept [OF assms(1,2)])
  have same: "json_stringify (JObj (?outer (JObj kvs))) = json_stringify (JObj (?outer (JObj (defined kvs))))"
    using stringify_defined [of kvs] by (intro stringify_congr) simp
  have "kept_by_json (JObj (?outer (JObj (defined kvs))))"
    using inner time_kept [OF assms(4), of 0] time_kept [OF assms(4) ttl] safe_kept [of 1]
    by (simp del: kept_by_json.simps(1))
  then have "JSON_parse (the (json_stringify (JObj (?outer (JObj kvs))))) = Some (JObj (?outer (JObj (defined kvs))))"
    unfolding same by (elim json_parse_stringify) simp
  moreover have "cached_ok i (JObj (defined kvs))"
    using assms(3) get_defined [OF assms(1)] by (simp add: cached_ok_def is_found_def del: get_prop.simps)
  ultimately show ?thesis
    by (simp add: envelope_ok_def authLookupCacheWrite_def recordOrNull_def Let_def del: json_stringify.simps)
qed

end
