(* ===== verification/Key_Revocation.thy ===== *)
theory Key_Revocation
  imports Key_Answers
begin

text \<open>
  A revoked key is never accepted again.  The routes of the data worker, the validations at the edge
  and the other writers of the control store take turns on one world; the provider's confirmation,
  any SQL statement and any call between the workers may fail.
\<close>

section \<open>Validation of a barred key\<close>

text \<open>The keys presented are \<open>raws\<close>; no two of them have one hash.\<close>

definition cache_ok :: "string \<Rightarrow> (string \<Rightarrow> string) \<Rightarrow> (string \<Rightarrow> string) \<Rightarrow> string set \<Rightarrow> kv_entry list \<Rightarrow> bool" where
  "cache_ok ns sha key_id raws es \<longleftrightarrow>
     keys_distinct es \<and> (\<forall>raw\<in>raws. \<forall>v x. pg_peek ns es (cacheKeyFor (sha raw)) = Some (v, x) \<longrightarrow> envelope_ok (key_id raw) v)"

definition edge_ok :: "string \<Rightarrow> (string \<Rightarrow> string) \<Rightarrow> (string \<Rightarrow> string) \<Rightarrow> edge_env \<Rightarrow> bool" where
  "edge_ok ns sha key_id env \<longleftrightarrow>
     ee_control env = native_env (pg_AppKv ns) \<and> ee_sha256Hex env = sha \<and> time_ok (ee_now env) \<and>
     (\<forall>data. ee_data env = Some data \<longrightarrow> provider_ok key_id data)"

lemma native_get:
  assumes "keys_distinct es" and "the (m_get (pg_AppKv ns)) key now es = Inr (Some v)"
  shows "\<exists>x. pg_peek ns es key = Some (v, x)"
proof -
  have "kv_get kv_defaults ns key AsText now es = Inr (ReadText v)"
    using assms(2) by (auto simp: pg_AppKv_def split: sum.splits kv_read.splits)
  then obtain k row where k: "keyBytes kv_defaults key = Inr k" "find_live ns k now es = Some row" "v = utf8_decode (e_value row)"
    by (auto simp: kv_get_def storedBytes_def split: sum.splits option.splits if_splits)
  then have "holds_at (kv_view es) (ns, utf8_encode key) now = Some (e_value row)"
    using find_live_view [OF assms(1), of ns k now] keyBytes_encode [OF k(1)] by simp
  then show ?thesis using k(3) by (auto simp: holds_at_def pg_peek_def split: option.splits if_splits)
qed

lemma edge_store:
  assumes "edge_ok ns sha key_id env"
  shows "appKv (ee_control env) = Inr (Some (pg_AppKv ns))"
  using assms appKv_native [OF pg_challenges.complete] by (simp add: edge_ok_def)

lemma read_cached_ok:
  assumes "cache_ok ns sha key_id raws (wd_kv w)" and "raw \<in> raws"
    and "read_cached env (Some (pg_AppKv ns)) (cacheKeyFor (sha raw)) w = Some record"
  shows "cached_ok (key_id raw) record"
proof -
  obtain v where v: "the (m_get (pg_AppKv ns)) (cacheKeyFor (sha raw)) (ee_now env) (wd_kv w) = Inr (Some v)"
    "Option.bind (JSON_parse v) (readAuthLookupCache CACHE_POLICY (ee_now env)) = Some record"
    using assms(3) by (auto simp: read_cached_def split: option.splits sum.splits)
  then obtain x where "pg_peek ns (wd_kv w) (cacheKeyFor (sha raw)) = Some (v, x)"
    using native_get assms(1) by (fastforce simp: cache_ok_def)
  then have "envelope_ok (key_id raw) v" using assms(1,2) by (simp add: cache_ok_def)
  from read_envelope [OF this v(2)] show ?thesis .
qed

text \<open>A cached yes is asked about again, and the ledger says no.\<close>

lemma check_forward: "forward w (snd (checkCachedApiKey env record w))"
  unfolding checkCachedApiKey_def
  using state_forward [of w "internal_request (ee_token env) (JObj [(''keyId'', get_prop record ''keyId''), (''accountId'', get_prop record ''accountId'')])"]
  by (auto simp: Let_def split: option.splits prod.splits) (metis snd_conv)+

lemma check_barred:
  assumes "cached_ok i record" and "ids_unique (wd_keys w)" and "barred i (wd_keys w)"
    and "fst (checkCachedApiKey env record w) = Some a"
  shows "\<not> is_found a"
proof (cases "is_found record")
  case True
  let ?rq = "internal_request (ee_token env) (JObj [(''keyId'', JStr i), (''accountId'', get_prop record ''accountId'')])"
  have r: "get_prop record ''keyId'' = JStr i" "kept_by_json (get_prop record ''accountId'')"
    using assms(1) True by (simp_all add: cached_ok_def)
  then have "carries ?rq [(''keyId'', JStr i), (''accountId'', get_prop record ''accountId'')]" by (intro internal_carries) simp_all
  note st = state_answer [OF this assms(2,3)]
  have nf: "\<not> is_found not_found" "\<not> is_found (JObj [(''found'', JVal (VBool False)), (''code'', c)])" for c
    by (simp_all add: is_found_def not_found_def)
  show ?thesis
    using assms(4) True nf r st
    by (auto simp: checkCachedApiKey_def Let_def case_prod_beta split: option.splits if_splits)
next
  case False
  then show ?thesis using assms(4) by (simp add: checkCachedApiKey_def)
qed

text \<open>A fresh verification: what it answers may be cached, and is no yes for a barred key.\<close>

definition payload_ok :: "string \<Rightarrow> api_key list \<Rightarrow> json \<Rightarrow> bool" where
  "payload_ok i ks p \<longleftrightarrow> (\<exists>kvs. p = JObj kvs \<and> distinct (map fst kvs) \<and> (\<forall>kv\<in>set kvs. kept_or_absent (snd kv)) \<and>
     cached_ok i p \<and> (is_found p \<longrightarrow> \<not> barred i ks))"

lemma payload_not_found [simp]: "payload_ok i ks not_found"
  by (simp add: payload_ok_def not_found_def cached_ok_def is_found_def)

lemma payload_record:
  assumes "answer_ok i ks b"
  shows "payload_ok i ks (JObj [(''found'', JVal (VBool (get_prop b ''valid'' = JVal (VBool True)))), (''code'', get_prop b ''code''),
    (''tier'', or_json_null (get_prop b ''tier'')), (''accountId'', or_json_null (get_prop b ''accountId'')),
    (''keyId'', get_prop b ''keyId''), (''managed'', get_prop b ''managed'')])"
  unfolding payload_ok_def
  by (rule exI, intro conjI, rule refl)
    (use assms or_null_kept in \<open>auto simp: answer_ok_def cached_ok_def is_found_def\<close>)

lemma lookup_payload:
  assumes "edge_ok ns sha key_id env" and "ids_unique (wd_keys w)"
  shows "payload_ok (key_id raw) (wd_keys w) (fst (lookupViaDataApi env raw w)) \<and> forward w (snd (lookupViaDataApi env raw w))"
proof (cases "ee_data env = None \<or> ee_token env = [] \<or> \<not> ee_verify_reached env")
  case True
  then show ?thesis by (auto simp: lookupViaDataApi_def split: option.splits)
next
  case False
  then obtain data where d: "ee_data env = Some data" "ee_token env \<noteq> []" "ee_verify_reached env" by auto
  let ?rq = "internal_request (ee_token env) (JObj [(''key'', JStr raw)])"
  obtain r w' where v: "handleApiKeyVerify ?rq data w = (r, w')" by force
  have c: "carries ?rq [(''key'', JStr raw)]" by (rule internal_carries) simp_all
  have p: "provider_ok key_id data" using assms(1) d(1) by (simp add: edge_ok_def)
  from verify_answer [OF c p assms(2)] v have ans: "answer_ok (key_id raw) (wd_keys w) (rs_body r)" by simp
  have f: "forward w w'" using verify_forward [of w ?rq data] v by simp
  have "payload_ok (key_id raw) (wd_keys w) (fst (lookupViaDataApi env raw w))"
    using payload_record [OF ans] by (simp add: lookupViaDataApi_def d v Let_def)
  moreover have "snd (lookupViaDataApi env raw w) = w'" by (simp add: lookupViaDataApi_def d v Let_def)
  ultimately show ?thesis using f by simp
qed

lemma write_cached_ok:
  assumes "cache_ok ns sha key_id raws (wd_kv w)" and "raw \<in> raws" and "inj_on sha raws"
    and "payload_ok (key_id raw) ks p" and "time_ok (ee_now env)"
  shows "cache_ok ns sha key_id raws (wd_kv (write_cached env (Some (pg_AppKv ns)) (cacheKeyFor (sha raw)) p w)) \<and>
    wd_keys (write_cached env (Some (pg_AppKv ns)) (cacheKeyFor (sha raw)) p w) = wd_keys w"
proof -
  let ?w = "write_cached env (Some (pg_AppKv ns)) (cacheKeyFor (sha raw)) p w"
  obtain v ttl where vt: "authLookupCacheWrite CACHE_POLICY (ee_now env) p = (v, ttl)" by force
  have keys: "wd_keys ?w = wd_keys w" by (simp add: write_cached_def vt split: option.split sum.split)
  obtain put where put: "m_put (pg_AppKv ns) = Some put" by (simp add: pg_AppKv_def)
  consider "wd_kv ?w = wd_kv w" | es where "the (m_put (pg_AppKv ns)) (cacheKeyFor (sha raw)) v (nat ttl) (ee_now env) (wd_kv w) = Inr es" "wd_kv ?w = es"
    by (cases "put (cacheKeyFor (sha raw)) v (nat ttl) (ee_now env) (wd_kv w)";
        cases "is_found p \<and> get_prop p ''managed'' \<noteq> JVal (VBool True)") (auto simp: write_cached_def vt put)
  then show ?thesis
  proof cases
    case 2
    have sound: "keys_distinct (wd_kv w)" using assms(1) by (simp add: cache_ok_def)
    obtain kvs where kvs: "p = JObj kvs" "distinct (map fst kvs)" "\<forall>kv\<in>set kvs. kept_or_absent (snd kv)" "cached_ok (key_id raw) p"
      using assms(4) by (auto simp: payload_ok_def)
    have "envelope_ok (key_id raw) v" using written_envelope [OF kvs(2,3) _ assms(5), of "key_id raw"] kvs(1,4) vt by simp
    moreover have "cacheKeyFor (sha raw') \<noteq> cacheKeyFor (sha raw)" if "raw' \<in> raws" "raw' \<noteq> raw" for raw'
      using assms(2,3) that by (auto simp: cacheKeyFor_def inj_on_def)
    ultimately show ?thesis using pg_challenges.put [OF sound 2(1)] 2(2) assms(1) keys by (fastforce simp: cache_ok_def)
  qed (use assms(1) keys in simp)
qed

definition account_inv :: "string \<Rightarrow> (string \<Rightarrow> string) \<Rightarrow> (string \<Rightarrow> string) \<Rightarrow> string set \<Rightarrow> account_world \<Rightarrow> bool" where
  "account_inv ns sha key_id raws w \<longleftrightarrow> ids_unique (wd_keys w) \<and> cache_ok ns sha key_id raws (wd_kv w)"

lemma forward_inv: "account_inv ns sha key_id raws w \<Longrightarrow> forward w w' \<Longrightarrow> account_inv ns sha key_id raws w'"
  by (simp add: account_inv_def forward_def keys_forward_def)

lemma forward_barred: "forward w w' \<Longrightarrow> barred i (wd_keys w) \<Longrightarrow> barred i (wd_keys w')"
  by (simp add: forward_def keys_forward_def)

definition refused :: "json option \<Rightarrow> bool" where
  "refused r \<longleftrightarrow> (\<exists>p. r = Some p \<and> \<not> is_found p)"

lemma lookup_law:
  assumes inv: "account_inv ns sha key_id raws w" and e: "edge_ok ns sha key_id env" and "inj_on sha raws" and raw: "raw \<in> raws"
    and l: "lookupApiKey env raw w = (r, w')"
  shows "account_inv ns sha key_id raws w' \<and> keys_forward (wd_keys w) (wd_keys w') \<and> (barred (key_id raw) (wd_keys w) \<longrightarrow> refused r)"
proof -
  let ?kv = "Some (pg_AppKv ns)" and ?key = "cacheKeyFor (sha raw)"
  have sha: "ee_sha256Hex env = sha" and time: "time_ok (ee_now env)" using e by (simp_all add: edge_ok_def)
  obtain checked w1 where c: "(case read_cached env ?kv ?key w of None \<Rightarrow> (None, w) | Some cached \<Rightarrow> checkCachedApiKey env cached w) = (checked, w1)"
    by force
  have f1: "forward w w1" using check_forward [of w env] c by (cases "read_cached env ?kv ?key w") (simp_all, metis snd_conv)
  have said: "\<not> is_found a" if a: "checked = Some a" and b: "barred (key_id raw) (wd_keys w)" for a
  proof -
    obtain cached where k: "read_cached env ?kv ?key w = Some cached" "checkCachedApiKey env cached w = (Some a, w1)"
      using c a by (cases "read_cached env ?kv ?key w") simp_all
    have "cached_ok (key_id raw) cached" using read_cached_ok [where key_id = key_id and sha = sha, OF _ raw k(1)] inv by (simp add: account_inv_def)
    from check_barred [OF this _ b, of env a] k(2) inv show ?thesis by (simp add: account_inv_def)
  qed
  have i1: "account_inv ns sha key_id raws w1" by (rule forward_inv [OF inv f1])
  have lk: "lookupApiKey env raw w = (case checked of Some a \<Rightarrow> (Some a, w1)
      | None \<Rightarrow> (case lookupViaDataApi env raw w1 of (p, w2) \<Rightarrow> (Some p, write_cached env ?kv ?key p w2)))"
    using c by (simp add: lookupApiKey_def edge_store [OF e] sha Let_def)
  show ?thesis
  proof (cases checked)
    case (Some a)
    then have "r = Some a" "w' = w1" using l lk by simp_all
    then show ?thesis using said Some i1 f1 by (simp add: refused_def forward_def)
  next
    case None
    obtain p w2 where p: "lookupViaDataApi env raw w1 = (p, w2)" by force
    have law: "payload_ok (key_id raw) (wd_keys w1) p" "forward w1 w2"
      using lookup_payload [OF e, of w1 raw] i1 p by (simp_all add: account_inv_def)
    have i2: "account_inv ns sha key_id raws w2" and f2: "forward w w2" by (rule forward_inv [OF i1 law(2)], rule key_frame.kept_trans [OF f1 law(2)])
    have r: "r = Some p" "w' = write_cached env ?kv ?key p w2" using l lk None p by simp_all
    have "cache_ok ns sha key_id raws (wd_kv w') \<and> wd_keys w' = wd_keys w2"
      unfolding r(2) by (rule write_cached_ok [where key_id = key_id, OF _ raw assms(3) law(1) time]) (use i2 in \<open>simp add: account_inv_def\<close>)
    moreover have "\<not> is_found p" if "barred (key_id raw) (wd_keys w)"
      using law(1) forward_barred [OF f1 that] by (auto simp: payload_ok_def)
    ultimately show ?thesis using i2 f2 r(1) by (simp add: account_inv_def refused_def forward_def)
  qed
qed

lemma validate_law:
  assumes "account_inv ns sha key_id raws w" and "edge_ok ns sha key_id env" and "inj_on sha raws"
    and "\<And>raw. bareKeyFrom v = Some raw \<Longrightarrow> raw \<in> raws" and "validateApiKey env v w = (r, w')"
  shows "account_inv ns sha key_id raws w' \<and> keys_forward (wd_keys w) (wd_keys w') \<and>
    (\<forall>raw. bareKeyFrom v = Some raw \<longrightarrow> barred (key_id raw) (wd_keys w) \<longrightarrow> r \<in> {Some InvalidKey, Some KeyRevoked})"
proof (cases "bareKeyFrom v")
  case None
  then show ?thesis using assms(1,5) by (simp add: validateApiKey_def keys_forward_def)
next
  case (Some raw)
  obtain l w1 where l: "lookupApiKey env raw w = (l, w1)" by force
  have w: "w' = w1" and r: "r = map_option (\<lambda>record. if \<not> is_found record then (if get_prop record ''code'' = JStr ''DISABLED'' then KeyRevoked else InvalidKey)
      else KeyOk (get_prop record ''tier'') (get_prop record ''accountId'')) l"
    using assms(5) Some l by (auto simp: validateApiKey_def split: option.splits)
  from lookup_law [OF assms(1-3) assms(4) [OF Some] l] show ?thesis
    using Some r w by (auto simp: refused_def)
qed

section \<open>Wallet routes leave the cache alone\<close>

text \<open>What a writer of other keys may do to the store.\<close>

definition spares_cache :: "string \<Rightarrow> (string \<Rightarrow> string) \<Rightarrow> kv_entry list \<Rightarrow> kv_entry list \<Rightarrow> bool" where
  "spares_cache ns sha es es' \<longleftrightarrow> (keys_distinct es \<longrightarrow> keys_distinct es' \<and>
     (\<forall>raw. pg_peek ns es' (cacheKeyFor (sha raw)) \<in> {pg_peek ns es (cacheKeyFor (sha raw)), None}))"

lemma spares_refl [simp]: "spares_cache ns sha es es"
  by (simp add: spares_cache_def)

lemma spares_ok: "cache_ok ns sha key_id raws es \<Longrightarrow> spares_cache ns sha es es' \<Longrightarrow> cache_ok ns sha key_id raws es'"
  unfolding cache_ok_def spares_cache_def by (metis insertE option.distinct(1) singletonD)

lemma challenge_not_cached: "challengeKvKey a p \<noteq> cacheKeyFor h"
  by (cases p) (simp_all add: challengeKvKey_def CHALLENGE_KV_PREFIX_def cacheKeyFor_def LOOKUP_PREFIX_def)

lemma issue_failed: "issueWalletChallenge h env a p random now s = Inr (Inl c, s') \<Longrightarrow> s' = s"
  by (auto simp: issueWalletChallenge_def Let_def split: if_splits sum.splits)

lemma issue_spares:
  assumes "issueWalletChallenge h (native_env (pg_AppKv ns)) a p random now es = Inr (r, es')"
  shows "spares_cache ns sha es es'"
proof (cases r)
  case (Inl c)
  then show ?thesis using issue_failed assms by fastforce
next
  case (Inr m)
  then have "issueWalletChallenge h (native_env (pg_AppKv ns)) a p random now es = Inr (Inr m, es')" using assms by simp
  from pg_challenges.issue_store [OF _ this] show ?thesis
    using challenge_not_cached [of a p, symmetric] by (auto simp: spares_cache_def)
qed

lemma verify_spares:
  assumes "verifyWalletChallenge h sr (native_env (pg_AppKv ns)) a sig p now es = Inr (r, es')"
  shows "spares_cache ns sha es es'"
  using pg_challenges.missing_store [OF _ assms] by (auto simp: spares_cache_def)

definition account_frame :: "string \<Rightarrow> (string \<Rightarrow> string) \<Rightarrow> account_world \<Rightarrow> account_world \<Rightarrow> bool" where
  "account_frame ns sha w w' \<longleftrightarrow> spares_cache ns sha (wd_kv w) (wd_kv w') \<and> keys_forward (wd_keys w) (wd_keys w')"

lemma frame_refl [simp]: "account_frame ns sha w w"
  by (simp add: account_frame_def keys_forward_def)

lemma forward_frame: "forward w w' \<Longrightarrow> account_frame ns sha w w'"
  by (simp add: forward_def account_frame_def)

lemma frame_store: "spares_cache ns sha (wd_kv w) es \<Longrightarrow> account_frame ns sha w (w\<lparr>wd_kv := es\<rparr>)"
  by (simp add: account_frame_def keys_forward_def)

lemma frame_then: "account_frame ns sha w w' \<Longrightarrow> forward w' w'' \<Longrightarrow> account_frame ns sha w w''"
  by (auto simp: account_frame_def forward_def keys_forward_def)

lemma challenge_frame:
  assumes "ae_control env = native_env (pg_AppKv ns)"
  shows "account_frame ns sha w (snd (challenge_response env body p w))"
  unfolding challenge_response_def assms
  by (auto split: sum.split prod.split intro!: frame_store issue_spares)

lemma verified_frame:
  assumes "ae_control env = native_env (pg_AppKv ns)" and "\<And>a w'. forward w' (snd (continue a w'))"
  shows "account_frame ns sha w (snd (verified_wallet env body p w continue))"
  unfolding verified_wallet_def assms(1)
  using assms(2) by (auto split: sum.split prod.split intro!: frame_store verify_spares frame_then [OF frame_store])

definition wallet_routes :: "(alert_request \<Rightarrow> account_env \<Rightarrow> account_world \<Rightarrow> alert_response option \<times> account_world) list" where
  "wallet_routes = [handleWalletChallenge, handleWalletVerify, handleWatchChallenge, handleWatchTokenMint]"

lemma session_forward:
  "forward w (snd (map_prod Some (\<lambda>x. x) (withAccountsSql env (a_bind (upsert_account ss58 now) (\<lambda>account. a_return (f account))) w)))"
  using key_frame.keeping_with_sql [OF key_frame.keeping_bind [OF keeps_accounts(1) key_frame.keeping_return]] by simp

lemma wallet_frame:
  assumes "h \<in> set wallet_routes" and "ae_control env = native_env (pg_AppKv ns)"
  shows "account_frame ns sha w (snd (h rq env w))"
  using assms(1) challenge_frame [OF assms(2)] verified_frame [OF assms(2)] session_forward
  by (auto simp: wallet_routes_def handleWalletChallenge_def handleWalletVerify_def handleWatchChallenge_def handleWatchTokenMint_def split: sum.split)

section \<open>The service in operation\<close>

text \<open>
  One step: a route of the data worker, a validation at the edge, another writer of the control store or
  of the accounts, or a new schedule of faults.  The clock, the environment and the provider's answers
  are each step's own.
\<close>

inductive account_step :: "string \<Rightarrow> (string \<Rightarrow> string) \<Rightarrow> (string \<Rightarrow> string) \<Rightarrow> string set \<Rightarrow> account_world \<Rightarrow> account_world \<Rightarrow> bool"
  for ns :: string and sha key_id :: "string \<Rightarrow> string" and raws :: "string set" where
  as_keys: "(\<And>w'. snd (usage rq env w') = w') \<Longrightarrow> (\<And>w'. snd (status rq env w') = w') \<Longrightarrow>
    account_step ns sha key_id raws w (snd (handleAccountKeysRoute usage status rq env w))"
| as_state: "account_step ns sha key_id raws w (snd (handleApiKeyState rq env w))"
| as_verify: "account_step ns sha key_id raws w (snd (handleApiKeyVerify rq env w))"
| as_promote: "account_step ns sha key_id raws w (snd (handleAccountTierPromote rq env w))"
| as_wallet: "h \<in> set wallet_routes \<Longrightarrow> ae_control env = native_env (pg_AppKv ns) \<Longrightarrow>
    account_step ns sha key_id raws w (snd (h rq env w))"
| as_validate: "edge_ok ns sha key_id edge \<Longrightarrow> (\<And>raw. bareKeyFrom v = Some raw \<Longrightarrow> raw \<in> raws) \<Longrightarrow>
    account_step ns sha key_id raws w (snd (validateApiKey edge v w))"
| as_other: "spares_cache ns sha (wd_kv w) es \<Longrightarrow> account_step ns sha key_id raws w (w\<lparr>wd_kv := es\<rparr>)"
| as_accounts: "account_step ns sha key_id raws w (w\<lparr>wd_accounts := accounts, wd_next_account := n\<rparr>)"
| as_faults: "account_step ns sha key_id raws w (w\<lparr>wd_faults := faults\<rparr>)"

lemma keys_route_forward:
  assumes "\<And>w'. snd (usage rq env w') = w'" and "\<And>w'. snd (status rq env w') = w'"
  shows "forward w (snd (handleAccountKeysRoute usage status rq env w))"
  using assms routes_forward by (simp add: handleAccountKeysRoute_def Let_def)

lemma frame_inv: "account_inv ns sha key_id raws w \<Longrightarrow> account_frame ns sha w w' \<Longrightarrow> account_inv ns sha key_id raws w'"
  using spares_ok by (auto simp: account_inv_def account_frame_def keys_forward_def)

lemma account_step_law:
  assumes "account_step ns sha key_id raws w w'" and "inj_on sha raws" and inv: "account_inv ns sha key_id raws w"
  shows "account_inv ns sha key_id raws w' \<and> keys_forward (wd_keys w) (wd_keys w')"
proof -
  have by_frame: "account_inv ns sha key_id raws x \<and> keys_forward (wd_keys w) (wd_keys x)" if "account_frame ns sha w x" for x
    using frame_inv [OF inv that] that by (simp add: account_frame_def)
  show ?thesis
    using assms(1)
  proof cases
    case (as_keys usage rq env status)
    then show ?thesis using by_frame forward_frame keys_route_forward by metis
  next
    case (as_state rq env)
    then show ?thesis using by_frame forward_frame state_forward by metis
  next
    case (as_verify rq env)
    then show ?thesis using by_frame forward_frame verify_forward by metis
  next
    case (as_promote rq env)
    then show ?thesis using by_frame forward_frame promote_forward by metis
  next
    case (as_wallet h env rq)
    then show ?thesis using by_frame wallet_frame by metis
  next
    case (as_validate edge v)
    then show ?thesis using validate_law [OF inv as_validate(2) assms(2) as_validate(3), of v "fst (validateApiKey edge v w)"] by simp
  next
    case (as_other es)
    then show ?thesis using by_frame frame_store by metis
  next
    case (as_accounts accounts n)
    then show ?thesis using by_frame by (simp add: account_frame_def keys_forward_def)
  next
    case (as_faults faults)
    then show ?thesis using by_frame by (simp add: account_frame_def keys_forward_def)
  qed
qed

lemma account_reachable:
  assumes "(account_step ns sha key_id raws)\<^sup>*\<^sup>* w w'" and "inj_on sha raws" and "account_inv ns sha key_id raws w"
  shows "account_inv ns sha key_id raws w' \<and> keys_forward (wd_keys w) (wd_keys w')"
  using assms(1)
proof induction
  case (step y z)
  then show ?case using account_step_law [OF step.hyps(2) assms(2)] by (auto simp: keys_forward_def)
qed (use assms(3) in \<open>simp add: keys_forward_def\<close>)

section \<open>Revocation\<close>

lemma update_hits:
  assumes "update_keys P f w = (Some rows, w')" and "rows \<noteq> []"
  obtains k where "k \<in> set (wd_keys w)" "P k" "f k \<in> set (wd_keys w')"
proof -
  have r: "rows = map f (filter P (wd_keys w))" "wd_keys w' = map (\<lambda>k. if P k then f k else k) (wd_keys w)"
    using assms(1) by (auto simp: update_keys_def a_statement_def Let_def split: if_splits)
  then obtain k where k: "k \<in> set (wd_keys w)" "P k" using assms(2) by (auto simp: filter_empty_conv)
  then have "f k \<in> set (wd_keys w')" using r(2) by force
  with k that show thesis by blast
qed

lemma error_is_no_revocation: "error_json m c \<notin> {revoked_response i, pending_response i}"
  by (simp add: error_json_def revoked_response_def pending_response_def writeJson_def)

text \<open>Either answer is given only once the request stands in the ledger.\<close>

lemma revoke_bars:
  assumes a: "handleAccountKeyRevoke rq env i w = (answer, w')" and "answer \<in> {revoked_response i, pending_response i}"
  shows "barred i (wd_keys w')"
proof -
  have no: "answer \<noteq> error_json m c" for m c using assms(2) error_is_no_revocation by metis
  have denied: "requireAccountSession rq env = Inl r \<Longrightarrow> \<exists>m c. r = error_json m c" for r
    by (auto simp: requireAccountSession_def Let_def split: if_splits option.splits)
  obtain accountId ss58 where s: "requireAccountSession rq env = Inr (accountId, ss58)"
    using a no denied by (cases "requireAccountSession rq env") (auto simp: handleAccountKeyRevoke_def)
  let ?u = "update_keys (\<lambda>k. owned_key i accountId k \<and> ak_revoked_at k = None)
    (\<lambda>k. k\<lparr>ak_revocation_requested_at := first_of (ak_revocation_requested_at k) (ae_now env)\<rparr>)"
  have v: "isUnkeyKeyId i" using a no s by (auto simp: handleAccountKeyRevoke_def split: if_splits)
  let ?rest = "\<lambda>intent. if intent = [] then
      a_bind (select_keys (owned_key i accountId)) (\<lambda>existing. a_return (case existing of
         k # _ \<Rightarrow> if ak_revoked_at k \<noteq> None then revoked_response i else error_json ''no such key'' 404
       | [] \<Rightarrow> error_json ''no such key'' 404))
    else confirm_revocation env i accountId"
  have "withAccountsSql env (a_bind ?u ?rest) w = (answer, w')"
    using a s v by (simp add: handleAccountKeyRevoke_def)
  then have "a_bind ?u ?rest w = (Some answer, w')"
    using no by (auto simp: withAccountsSql_def split: if_splits prod.splits option.splits)
  then obtain intent w1 where u: "?u w = (Some intent, w1)" and r: "?rest intent w1 = (Some answer, w')"
    by (cases "?u w") (auto simp: a_bind_def split: option.splits)
  show ?thesis
  proof (cases "intent = []")
    case True
    then obtain k rows where "select_keys (owned_key i accountId) w1 = (Some (k # rows), w')" "ak_revoked_at k \<noteq> None"
      using r no by (auto simp: a_bind_def a_return_def split: prod.splits option.splits list.splits if_splits)
    then have "k \<in> set (wd_keys w')" "ak_unkey_key_id k = Some i" "ak_revoked_at k \<noteq> None"
      by (auto simp: select_keys_def a_statement_def owned_key_def Let_def filter_eq_Cons_iff split: if_splits)
    then show ?thesis by (auto simp: barred_def)
  next
    case False
    obtain k where "k \<in> set (wd_keys w)" and own: "owned_key i accountId k \<and> ak_revoked_at k = None"
      and k': "k\<lparr>ak_revocation_requested_at := first_of (ak_revocation_requested_at k) (ae_now env)\<rparr> \<in> set (wd_keys w1)"
      by (rule update_hits [OF u False])
    have "barred i (wd_keys w1)"
      unfolding barred_def
    proof (rule bexI [OF _ k'], intro conjI disjI1)
      show "ak_unkey_key_id (k\<lparr>ak_revocation_requested_at := first_of (ak_revocation_requested_at k) (ae_now env)\<rparr>) = Some i"
        using own by (simp add: owned_key_def)
      show "ak_revocation_requested_at (k\<lparr>ak_revocation_requested_at := first_of (ak_revocation_requested_at k) (ae_now env)\<rparr>) \<noteq> None"
        by (simp add: first_of_def split: option.split)
    qed
    moreover have "confirm_revocation env i accountId w1 = (Some answer, w')" using r False by simp
    then have "forward w1 w'" using keeps_confirm [of env i accountId] unfolding keeping_def by (metis snd_conv)
    ultimately show ?thesis by (rule forward_barred [rotated])
  qed
qed

definition account_start :: "string \<Rightarrow> (string \<Rightarrow> string) \<Rightarrow> account_world \<Rightarrow> bool" where
  "account_start ns sha w \<longleftrightarrow> ids_unique (wd_keys w) \<and> keys_distinct (wd_kv w) \<and>
     (\<forall>raw. pg_peek ns (wd_kv w) (cacheKeyFor (sha raw)) = None)"

text \<open>
  C1. A revoked key is refused from then on.  Once the owner's request has been answered, be it as
  confirmed or as pending at the provider, every later validation of that key is refused, whatever is
  cached, whatever the provider still answers, whichever statements and calls between the workers fail,
  and whatever the routes of the service, the other validations and other writers of the store do.
\<close>

theorem revoked_key_refused:
  assumes "inj_on sha raws" and "account_start ns sha w0" and "(account_step ns sha key_id raws)\<^sup>*\<^sup>* w0 w1"
    and revoke: "handleAccountKeyRevoke rq data (key_id raw) w1 = (answer, w2)" "answer \<in> {revoked_response (key_id raw), pending_response (key_id raw)}"
    and "(account_step ns sha key_id raws)\<^sup>*\<^sup>* w2 w3"
    and edge: "edge_ok ns sha key_id edge" and "bareKeyFrom presented = Some raw" and "raw \<in> raws"
  shows "fst (validateApiKey edge presented w3) \<in> {Some InvalidKey, Some KeyRevoked}"
proof -
  have "account_inv ns sha key_id raws w0" using assms(2) by (simp add: account_start_def account_inv_def cache_ok_def)
  from account_reachable [OF assms(3,1) this] have i1: "account_inv ns sha key_id raws w1" by simp
  have "forward w1 w2" using revoke_forward [of w1 rq data "key_id raw"] revoke(1) by simp
  from forward_inv [OF i1 this] have i2: "account_inv ns sha key_id raws w2" .
  have "barred (key_id raw) (wd_keys w2)" by (rule revoke_bars [OF revoke])
  with account_reachable [OF assms(6,1) i2] have i3: "account_inv ns sha key_id raws w3" and b: "barred (key_id raw) (wd_keys w3)"
    by (simp_all add: keys_forward_def)
  have "validateApiKey edge presented w3 = (fst (validateApiKey edge presented w3), snd (validateApiKey edge presented w3))" by simp
  from validate_law [OF i3 edge assms(1) _ this] show ?thesis using assms(8,9) b by auto
qed

definition sample_account_env :: account_env where
  "sample_account_env =
     \<lparr>ae_blake2b = (\<lambda>_. []), ae_sr25519 = (\<lambda>_ _ _. None), ae_sign = (\<lambda>_ _. ''00''), ae_control = native_env (pg_AppKv ''control''),
      ae_session_secret = ''s'', ae_watch_secret = ''w'', ae_lookup_token = ''t'', ae_promote_token = ''p'', ae_root_key = ''r'', ae_api_id = ''a'',
      ae_fetch = (\<lambda>_ _. Answered 200 (Some (JObj [(''data'', JObj [(''valid'', JVal (VBool True)), (''keyId'', JStr ''key_a'')])]))),
      ae_wallet_limiter = None, ae_mint_limiter = None, ae_store_bound = True, ae_now = 0, ae_random = []\<rparr>"

definition sample_edge_env :: edge_env where
  "sample_edge_env =
     \<lparr>ee_data = Some sample_account_env, ee_state_reached = True, ee_verify_reached = True, ee_token = ''t'',
      ee_control = native_env (pg_AppKv ''control''), ee_sha256Hex = (\<lambda>raw. raw), ee_now = 0\<rparr>"

definition sample_account_world :: account_world where
  "sample_account_world =
     \<lparr>wd_kv = [], wd_accounts = [\<lparr>ra_id = 7, ra_ss58 = ''5F'', ra_tier = ''free'', ra_created_at = 0, ra_last_login_at = 0\<rparr>],
      wd_keys = [\<lparr>ak_unkey_key_id = Some ''key_a'', ak_owner_contact = ''5F'', ak_tier = ''free'', ak_account_id = Some (js_int 7),
        ak_created_at = 0, ak_revoked_at = None, ak_revocation_requested_at = None, ak_last_used_at = None\<rparr>],
      wd_blocks = [], wd_quota = [], wd_usage = [], wd_github = [], wd_next_account = 8, wd_next_block = 1, wd_next_github = 1, wd_faults = []\<rparr>"

definition sample_revoke_request :: alert_request where
  "sample_revoke_request =
     \<lparr>rq_method = ''DELETE'', rq_pathname = ''/api/v1/keys/key_a'',
      rq_headers = [(''authorization'', ''Bearer '' @ createSessionToken (\<lambda>_ _. ''00'') ''s'' (VNum (js_int 7)) ''5F'' 0)], rq_raw = []\<rparr>"

lemma sample_session: "requireAccountSession sample_revoke_request sample_account_env = Inr (js_int 7, ''5F'')"
proof -
  have h: "hex_signature (\<lambda>_ _. ''00'') ''s''" by (simp add: hex_signature_def)
  have k: "kept_by_json (JObj [(''account_id'', JVal (VNum (js_int 7))), (''ss58'', JStr ''5F''), (''exp'', JInt 3600)])"
    by (simp add: js_int_def MAX_SAFE_def)
  have p: "token_payload (\<lambda>_ _. ''00'') ''s'' (VStr (createSessionToken (\<lambda>_ _. ''00'') ''s'' (VNum (js_int 7)) ''5F'' 0)) =
      Some (JObj [(''account_id'', JVal (VNum (js_int 7))), (''ss58'', JStr ''5F''), (''exp'', JInt 3600)])"
    using payload_of_signed [OF h k] by (simp add: createSessionToken_def SESSION_TTL_SECONDS_def)
  have "createSessionToken (\<lambda>_ _. ''00'') ''s'' (VNum (js_int 7)) ''5F'' 0 \<noteq> []" by (simp add: createSessionToken_def signed_token_def Let_def)
  then show ?thesis
    using p by (simp add: requireAccountSession_def sample_revoke_request_def sample_account_env_def header_def starts_with_def Let_def
        verifySessionToken_def account_id_of_def js_int_def)
qed

lemma sample_provider: "provider_ok (\<lambda>_. ''key_a'') sample_account_env"
  by (simp add: provider_ok_def verifyUnkeyKey_def unkeyFetch_def sample_account_env_def or_json_null_def nullish_def)

lemma sample_revoked:
  "fst (handleAccountKeyRevoke sample_revoke_request sample_account_env ''key_a'' sample_account_world) = revoked_response ''key_a''"
  by (simp add: handleAccountKeyRevoke_def sample_session isUnkeyKeyId_def starts_with_def is_digit_def withAccountsSql_def a_bind_def a_return_def
      update_keys_def a_statement_def sample_account_world_def confirm_revocation_def revokeUnkeyKey_def unkeyFetch_def owned_key_def first_of_def
      Let_def)
    (simp add: sample_account_env_def update_keys_def a_statement_def owned_key_def first_of_def Let_def)

lemma revoked_key_refused_witness:
  "fst (validateApiKey sample_edge_env (VStr ''mg_00000000000000000'')
     (snd (handleAccountKeyRevoke sample_revoke_request sample_account_env ''key_a'' sample_account_world))) \<in> {Some InvalidKey, Some KeyRevoked}"
proof -
  let ?raw = "''mg_00000000000000000''"
  let ?w = "snd (handleAccountKeyRevoke sample_revoke_request sample_account_env ''key_a'' sample_account_world)"
  have s: "account_start ''control'' (\<lambda>raw. raw) sample_account_world"
    by (simp add: account_start_def sample_account_world_def ids_unique_def keys_distinct_def pg_peek_def kv_view_def)
  have e: "edge_ok ''control'' (\<lambda>raw. raw) (\<lambda>_. ''key_a'') sample_edge_env"
    using sample_provider by (simp add: edge_ok_def sample_edge_env_def time_ok_def)
  have b: "bareKeyFrom (VStr ?raw) = Some ?raw" by (simp add: bareKeyFrom_def starts_with_def MIN_BARE_KEY_LENGTH_def)
  have r: "handleAccountKeyRevoke sample_revoke_request sample_account_env ''key_a'' sample_account_world = (revoked_response ''key_a'', ?w)"
    using sample_revoked by (metis prod.collapse)
  show ?thesis
    by (rule revoked_key_refused [where raws = "{?raw}" and key_id = "\<lambda>_. ''key_a''", OF _ s _ r _ _ e b]) simp_all
qed

end
