(* ===== verification/Key_Acceptance.thy ===== *)
theory Key_Acceptance
  imports Key_Revocation
begin

text \<open>
  The other side of revocation: a key the provider and the ledger vouch for is accepted, as what the
  provider says of it, and its use is recorded.
\<close>

definition vouched :: "account_world \<Rightarrow> account_env \<Rightarrow> string \<Rightarrow> unkey_identity \<Rightarrow> string \<Rightarrow> bool" where
  "vouched w data raw result k \<longleftrightarrow>
     verifyUnkeyKey (ae_root_key data) (ae_api_id data) (ae_fetch data) raw = Inr result \<and> uk_valid result \<and>
     uk_keyId result = JStr k \<and> isUnkeyKeyId k \<and>
     ledger_state_of (wd_accounts w) (List.find (\<lambda>row. ak_unkey_key_id row = Some k) (wd_keys w)) (uk_accountId result) = Active"

definition services_up :: "edge_env \<Rightarrow> account_env \<Rightarrow> account_world \<Rightarrow> bool" where
  "services_up edge data w \<longleftrightarrow>
     ee_data edge = Some data \<and> ee_verify_reached edge \<and> ee_token edge \<noteq> [] \<and> ae_lookup_token data = ee_token edge \<and>
     ae_store_bound data \<and> wd_faults w = []"

lemma faultless:
  assumes "wd_faults w = []"
  shows "a_statement f w = (case f w of None \<Rightarrow> (None, w) | Some (x, w') \<Rightarrow> (Some x, w'))"
proof -
  have "w\<lparr>wd_faults := tl (wd_faults w)\<rparr> = w" using assms by (cases w) simp
  then show ?thesis using assms by (simp only: a_statement_def Let_def) simp
qed

lemma internal_allowed:
  assumes "token \<noteq> []" and "configured = token"
  shows "require_internal (internal_request token body) configured API_KEY_LOOKUP_TOKEN_HEADER missing = None"
  using assms by (simp add: require_internal_def internal_request_def header_def timingSafeEqual_iff Let_def)

lemma internal_read:
  assumes "utf8Bytes (the (json_stringify (JObj kvs))) \<le> ACCOUNT_ROUTES_MAX_BODY_BYTES" and "kept_by_json (JObj kvs)"
  shows "readAccountRouteBody (internal_request token (JObj kvs)) = Inr (JObj kvs)"
proof -
  obtain t where t: "json_stringify (JObj kvs) = Some t" "JSON_parse t = Some (JObj kvs)"
    by (rule json_parse_stringify [OF assms(2)])
  have "t \<noteq> []" using t(1) by auto
  moreover have "\<not> num_lt (js_int (int ACCOUNT_ROUTES_MAX_BODY_BYTES)) (Fin 0)"
    by (simp add: ACCOUNT_ROUTES_MAX_BODY_BYTES_def js_int_def num_lt_def)
  ultimately show ?thesis using t assms(1)
    by (simp add: readAccountRouteBody_def internal_request_def header_def API_KEY_LOOKUP_TOKEN_HEADER_def Let_def
        del: json_stringify.simps)
qed

definition touched :: "string \<Rightarrow> int \<Rightarrow> api_key list \<Rightarrow> api_key list" where
  "touched k now rows = map (\<lambda>row. if ak_unkey_key_id row = Some k then row\<lparr>ak_last_used_at := Some now\<rparr> else row) rows"

lemma guarded_accepts:
  assumes "vouched w data raw result k" and "wd_faults w = []"
  shows "guarded_verdict data result k w = (Some (valid_response result k True), w\<lparr>wd_keys := touched k (ae_now data) (wd_keys w)\<rparr>)"
  using assms
  by (simp add: vouched_def guarded_verdict_def a_bind_def a_return_def readApiKeyLedgerState_def touch_key_def update_keys_def faultless touched_def)

lemma verify_accepts:
  assumes up: "services_up edge data w" and v: "vouched w data raw result k" and "raw \<noteq> []"
    and "utf8Bytes (the (json_stringify (JObj [(''key'', JStr raw)]))) \<le> ACCOUNT_ROUTES_MAX_BODY_BYTES"
  shows "handleApiKeyVerify (internal_request (ee_token edge) (JObj [(''key'', JStr raw)])) data w =
    (valid_response result k True, w\<lparr>wd_keys := touched k (ae_now data) (wd_keys w)\<rparr>)"
proof -
  have r: "readAccountRouteBody (internal_request (ee_token edge) (JObj [(''key'', JStr raw)])) = Inr (JObj [(''key'', JStr raw)])"
    by (rule internal_read [OF assms(4)]) simp
  note i = internal_allowed [of "ee_token edge" "ae_lookup_token data" "JObj [(''key'', JStr raw)]" key_lookup_missing]
  have f: "wd_faults w = []" using up by (simp add: services_up_def)
  show ?thesis
    using up v assms(3) i guarded_accepts [OF v f]
    by (simp add: handleApiKeyVerify_def r services_up_def vouched_def body_text_def withAccountsSql_def)
qed

text \<open>
  C28. A good key is accepted.  With nothing cached and every service up, a key the provider finds valid
  and whose row is active under an account that exists is accepted with the provider's tier and account,
  and its row records the time.
\<close>

theorem vouched_key_accepted:
  assumes up: "services_up edge data w" and v: "vouched w data raw result k"
    and kv: "appKv (ee_control edge) = Inr kv" and "read_cached edge kv (cacheKeyFor (ee_sha256Hex edge raw)) w = None"
    and b: "bareKeyFrom presented = Some raw"
    and len: "utf8Bytes (the (json_stringify (JObj [(''key'', JStr raw)]))) \<le> ACCOUNT_ROUTES_MAX_BODY_BYTES"
  shows "fst (validateApiKey edge presented w) = Some (KeyOk (uk_tier result) (uk_accountId result)) \<and>
    wd_keys (snd (validateApiKey edge presented w)) = touched k (ae_now data) (wd_keys w)"
proof -
  have "raw \<noteq> []" using b by (auto simp: bareKeyFrom_def starts_with_def MIN_BARE_KEY_LENGTH_def Let_def split: jsval.splits if_splits)
  note h = verify_accepts [OF up v this len]
  have tier: "or_json_null (or_json_null x) = or_json_null x" for x by (simp add: or_json_null_def)
  obtain x y where result: "uk_tier result = or_json_null x" "uk_accountId result = or_json_null y"
    using v by (auto simp: vouched_def verifyUnkeyKey_def split: sum.splits)
  have k: "is_key_id (JStr k)" using v by (simp add: vouched_def is_key_id_def)
  have "ee_data edge = Some data" "ee_token edge \<noteq> []" "ee_verify_reached edge" using up by (simp_all add: services_up_def)
  then obtain p where p: "lookupViaDataApi edge raw w = (p, w\<lparr>wd_keys := touched k (ae_now data) (wd_keys w)\<rparr>)" "is_found p"
      "get_prop p ''tier'' = uk_tier result" "get_prop p ''accountId'' = uk_accountId result"
    using h k by (simp add: lookupViaDataApi_def valid_response_def writeJson_def is_bool_def is_found_def result tier Let_def)
  have "wd_keys (write_cached edge kv key p w') = wd_keys w'" for key w'
    by (simp add: write_cached_def split: option.split prod.split sum.split)
  then show ?thesis using kv assms(4) b p by (simp add: validateApiKey_def lookupApiKey_def Let_def)
qed

definition vouching_env :: account_env where
  "vouching_env = sample_account_env\<lparr>ae_fetch := (\<lambda>_ _. Answered 200 (Some (JObj [(''data'', JObj
     [(''valid'', JVal (VBool True)), (''code'', JStr ''VALID''), (''keyId'', JStr ''key_a''), (''meta'', JObj [(''tier'', JStr ''free'')]),
      (''identity'', JObj [(''externalId'', JStr ''7'')])])])))\<rparr>"

lemma vouched_key_accepted_witness:
  "fst (validateApiKey (sample_edge_env\<lparr>ee_data := Some vouching_env\<rparr>) (VStr ''Bearer mg_00000000000000000'') sample_account_world) =
     Some (KeyOk (JStr ''free'') (JStr ''7''))"
proof -
  let ?edge = "sample_edge_env\<lparr>ee_data := Some vouching_env\<rparr>" and ?raw = "''mg_00000000000000000''"
  let ?result = "\<lparr>uk_valid = True, uk_code = JStr ''VALID'', uk_keyId = JStr ''key_a'', uk_tier = JStr ''free'', uk_accountId = JStr ''7''\<rparr>"
  have up: "services_up ?edge vouching_env sample_account_world"
    by (simp add: services_up_def sample_edge_env_def vouching_env_def sample_account_env_def sample_account_world_def)
  have "string_of_int 7 = ''7''" by code_simp
  with string_to_number_int [of 7] have seven: "string_to_number ''7'' = js_int 7" by (simp add: MAX_SAFE_def)
  have v: "vouched sample_account_world vouching_env ?raw ?result ''key_a''"
    by (simp add: vouched_def verifyUnkeyKey_def unkeyFetch_def vouching_env_def sample_account_env_def or_json_null_def nullish_def
        isUnkeyKeyId_def starts_with_def is_digit_def ledger_state_of_def sample_account_world_def ledger_account_def seven account_number_def
        js_int_def MAX_SAFE_def)
  have kv: "appKv (ee_control ?edge) = Inr (Some (pg_AppKv ''control''))"
    using appKv_native [OF pg_challenges.complete] by (simp add: sample_edge_env_def)
  have none: "read_cached ?edge (Some (pg_AppKv ''control'')) key sample_account_world = None" for key
    by (simp add: read_cached_def pg_AppKv_def kv_get_def find_live_def sample_account_world_def split: sum.split)
  have b: "bareKeyFrom (VStr ''Bearer mg_00000000000000000'') = Some ?raw" by (simp add: bareKeyFrom_def starts_with_def MIN_BARE_KEY_LENGTH_def)
  have len: "utf8Bytes (the (json_stringify (JObj [(''key'', JStr ?raw)]))) \<le> ACCOUNT_ROUTES_MAX_BODY_BYTES" by code_simp
  from vouched_key_accepted [OF up v kv none b len] show ?thesis by simp
qed

end
