(* ===== verification/Account_Blocks.thy ===== *)
theory Account_Blocks
  imports Key_Validation
begin

text \<open>
  Blocked accounts (\<open>src/api-key-abuse.ts\<close>, \<open>src/account-kind.ts\<close>, \<open>src/account-block-pg.ts\<close> and the
  block routes of \<open>workers/data-api.ts\<close>): the ledger of blocks, the snapshot of it in the control store
  that the edge reads, and the verdict on one account (\<open>loadBlockVerdict\<close> of
  \<open>workers/tiered-rate-limit.ts\<close>).  An account is a number of one of two identity systems.
\<close>

section \<open>Kinds and reasons\<close>

definition kind_text :: "AccountKind \<Rightarrow> string" where
  "kind_text k = (case k of Rpc \<Rightarrow> ''rpc'' | Github \<Rightarrow> ''github'')"

definition DEFAULT_ACCOUNT_KIND :: AccountKind where
  "DEFAULT_ACCOUNT_KIND = Rpc"

definition asAccountKind :: "json \<Rightarrow> AccountKind option" where
  "asAccountKind v = (if v = JStr ''rpc'' then Some Rpc else if v = JStr ''github'' then Some Github else None)"

text \<open>A request without a kind is of the default one, and one with another value has none.\<close>

definition requested_kind :: "json \<Rightarrow> AccountKind option" where
  "requested_kind body =
     (if get_prop body ''account_kind'' = JUndef then Some DEFAULT_ACCOUNT_KIND else asAccountKind (get_prop body ''account_kind''))"

definition BLOCK_REASON_CODES :: "(string \<times> string) list" where
  "BLOCK_REASON_CODES =
     [(''abuse_sustained_ceiling'', ''Sustained traffic at the tier ceiling over an extended period.''),
      (''abuse_scraping'', ''Access pattern consistent with bulk scraping rather than integration use.''),
      (''abuse_key_sharing'', ''Usage pattern indicates the key is shared across many independent consumers.''),
      (''abuse_manual'', ''Blocked by a maintainer after review; see the accompanying note.''),
      (''billing_unpaid'', ''Outstanding balance on the account.'')]"

definition isBlockReasonCode :: "json \<Rightarrow> bool" where
  "isBlockReasonCode v \<longleftrightarrow> (case v of JVal (VStr s) \<Rightarrow> s \<in> fst ` set BLOCK_REASON_CODES | _ \<Rightarrow> False)"

definition known_reason :: "json \<Rightarrow> string" where
  "known_reason v = (case v of JVal (VStr s) \<Rightarrow> if s \<in> fst ` set BLOCK_REASON_CODES then s else ''abuse_manual'' | _ \<Rightarrow> ''abuse_manual'')"

section \<open>The verdict of a snapshot\<close>

record BlockVerdict =
  blocked :: bool
  reasonCode :: "string option"
  block_message :: "string option"

definition NOT_BLOCKED :: BlockVerdict where
  "NOT_BLOCKED = \<lparr>blocked = False, reasonCode = None, block_message = None\<rparr>"

definition blocked_for :: "string \<Rightarrow> BlockVerdict" where
  "blocked_for reason = \<lparr>blocked = True, reasonCode = Some reason, block_message = map_of BLOCK_REASON_CODES reason\<rparr>"

text \<open>\<open>Number.isInteger(id) && id > 0\<close>\<close>

definition account_number_ok :: "jsnum \<Rightarrow> bool" where
  "account_number_ok n \<longleftrightarrow> is_integer_num n \<and> 0 < num_int n"

definition entry_matches :: "jsnum \<Rightarrow> AccountKind \<Rightarrow> json \<Rightarrow> bool" where
  "entry_matches id_number kind entry \<longleftrightarrow>
     json_number (get_prop entry ''accountId'') = id_number \<and>
     (let k = get_prop entry ''accountKind'' in (if nullish k then JStr (kind_text DEFAULT_ACCOUNT_KIND) else k) = JStr (kind_text kind))"

definition evaluateBlock :: "json \<Rightarrow> json \<Rightarrow> AccountKind \<Rightarrow> BlockVerdict" where
  "evaluateBlock snapshot accountId kind =
     (let n = json_number accountId
      in if \<not> account_number_ok n then NOT_BLOCKED
         else case get_prop snapshot ''blocks'' of
                JArr entries \<Rightarrow>
                  (case List.find (entry_matches n kind) entries of
                     None \<Rightarrow> NOT_BLOCKED
                   | Some entry \<Rightarrow> blocked_for (known_reason (get_prop entry ''reasonCode'')))
              | _ \<Rightarrow> NOT_BLOCKED)"

section \<open>The ledger and its snapshot\<close>

definition BLOCKLIST_KV_TTL :: nat where
  "BLOCKLIST_KV_TTL = 60"

definition BLOCKLIST_KV_KEY :: string where
  "BLOCKLIST_KV_KEY = ''api-key-blocklist''"

definition API_KEY_BLOCK_TOKEN_HEADER :: string where
  "API_KEY_BLOCK_TOKEN_HEADER = ''x-api-key-block-token''"

definition active_block :: "account_block \<Rightarrow> bool" where
  "active_block b \<longleftrightarrow> bk_unblocked_at b = None"

definition block_of :: "AccountKind \<Rightarrow> jsnum \<Rightarrow> account_block \<Rightarrow> bool" where
  "block_of kind n b \<longleftrightarrow> bk_kind b = kind \<and> bk_account_id b = n \<and> active_block b"

text \<open>\<open>ORDER BY account_kind, account_id\<close>\<close>

definition block_order :: "account_block \<Rightarrow> account_block \<Rightarrow> int" where
  "block_order a b =
     (let c = cmp_str (kind_text (bk_kind a)) (kind_text (bk_kind b)) in if c \<noteq> 0 then c else num_cmp (bk_account_id a) (bk_account_id b))"

definition block_entry :: "account_block \<Rightarrow> json" where
  "block_entry b = JObj
     [(''accountId'', JVal (VNum (bk_account_id b))), (''accountKind'', JStr (kind_text (bk_kind b))),
      (''reasonCode'', JStr (bk_reason_code b)), (''blockedAt'', JInt (bk_blocked_at b))]"

definition block_snapshot :: "int \<Rightarrow> account_block list \<Rightarrow> json" where
  "block_snapshot now rows = JObj [(''generated_at'', JStr (iso_datetime now)), (''blocks'', JArr (map block_entry rows))]"

text \<open>The store's put, where there is a store that has one; whatever it throws is swallowed.\<close>

definition put_snapshot :: "account_env \<Rightarrow> json \<Rightarrow> account_world \<Rightarrow> account_world" where
  "put_snapshot env snapshot w =
     (case appKv (ae_control env) of
        Inr (Some kv) \<Rightarrow>
          (case m_put kv of
             None \<Rightarrow> w
           | Some put \<Rightarrow>
               (case put BLOCKLIST_KV_KEY (the (json_stringify snapshot)) BLOCKLIST_KV_TTL (ae_now env) (wd_kv w) of
                  Inl _ \<Rightarrow> w
                | Inr kv' \<Rightarrow> w\<lparr>wd_kv := kv'\<rparr>))
      | _ \<Rightarrow> w)"

definition select_active :: "account_block list asql" where
  "select_active = a_statement (\<lambda>w. Some (js_sort block_order (filter active_block (wd_blocks w)), w))"

definition refreshBlocklistSnapshot :: "account_env \<Rightarrow> nat asql" where
  "refreshBlocklistSnapshot env =
     a_bind select_active (\<lambda>rows w. (Some (length rows), put_snapshot env (block_snapshot (ae_now env) rows) w))"

section \<open>The block routes\<close>

definition requireBlockToken :: "alert_request \<Rightarrow> string \<Rightarrow> alert_response option" where
  "requireBlockToken rq configured =
     (let provided = header rq API_KEY_BLOCK_TOKEN_HEADER
      in if configured = [] then Some (error_json ''key blocking is not provisioned on this deployment'' 503)
         else if provided = [] \<or> \<not> timingSafeEqual provided configured
           then Some (error_json (''provide a valid '' @ API_KEY_BLOCK_TOKEN_HEADER @ '' header'') 401)
         else None)"

definition text_up_to :: "nat \<Rightarrow> json \<Rightarrow> string option" where
  "text_up_to n v = (case v of JVal (VStr s) \<Rightarrow> Some (take n s) | _ \<Rightarrow> None)"

text \<open>\<open>INSERT ... ON CONFLICT DO NOTHING\<close> against the one active block of an account.\<close>

definition insert_block :: "AccountKind \<Rightarrow> jsnum \<Rightarrow> string \<Rightarrow> string option \<Rightarrow> int \<Rightarrow> string option \<Rightarrow> bool asql" where
  "insert_block kind n reason note now blockedBy = a_statement (\<lambda>w.
     if list_ex (block_of kind n) (wd_blocks w) then Some (False, w)
     else Some (True, w\<lparr>wd_blocks := wd_blocks w @ [\<lparr>bk_id = wd_next_block w, bk_kind = kind, bk_account_id = n, bk_reason_code = reason,
            bk_note = note, bk_blocked_at = now, bk_blocked_by = blockedBy, bk_unblocked_at = None, bk_unblocked_note = None\<rparr>],
          wd_next_block := Suc (wd_next_block w)\<rparr>))"

definition close_block :: "AccountKind \<Rightarrow> jsnum \<Rightarrow> int \<Rightarrow> string \<Rightarrow> bool asql" where
  "close_block kind n now note = a_statement (\<lambda>w.
     Some (list_ex (block_of kind n) (wd_blocks w),
       w\<lparr>wd_blocks := map (\<lambda>b. if block_of kind n b then b\<lparr>bk_unblocked_at := Some now, bk_unblocked_note := Some note\<rparr> else b) (wd_blocks w)\<rparr>))"

definition account_missing :: alert_response where
  "account_missing = error_json ''provide a valid account_id and a known account_kind'' 400"

definition handleApiKeyBlock :: "alert_request \<Rightarrow> string \<Rightarrow> account_env \<Rightarrow> account_world \<Rightarrow> alert_response \<times> account_world" where
  "handleApiKeyBlock rq token env w =
     (case requireBlockToken rq token of
        Some r \<Rightarrow> (r, w)
      | None \<Rightarrow>
     (case readAccountRouteBody rq of
        Inl r \<Rightarrow> (r, w)
      | Inr body \<Rightarrow>
     (let n = json_number (get_prop body ''account_id'') in
      case requested_kind body of
        None \<Rightarrow> (account_missing, w)
      | Some kind \<Rightarrow>
          if \<not> account_number_ok n then (account_missing, w)
          else case get_prop body ''reason_code'' of
            JVal (VStr reason) \<Rightarrow>
              if \<not> isBlockReasonCode (JStr reason) then
                (writeJson (JObj [(''error'', JStr ''provide a known reason_code''), (''reason_codes'', JArr (map (JStr \<circ> fst) BLOCK_REASON_CODES))]) 400, w)
              else withAccountsSql env
                (a_bind (insert_block kind n reason (text_up_to 2000 (get_prop body ''note'')) (ae_now env) (text_up_to 200 (get_prop body ''blocked_by''))) (\<lambda>inserted.
                 a_bind (refreshBlocklistSnapshot env) (\<lambda>active.
                 a_return (writeJson (JObj [(''account_kind'', JStr (kind_text kind)), (''account_id'', JVal (VNum n)), (''reason_code'', JStr reason),
                   (''already_blocked'', JVal (VBool (\<not> inserted))), (''active_blocks'', JInt (int active))]) 200)))) w
          | _ \<Rightarrow> (writeJson (JObj [(''error'', JStr ''provide a known reason_code''), (''reason_codes'', JArr (map (JStr \<circ> fst) BLOCK_REASON_CODES))]) 400, w))))"

definition handleApiKeyUnblock :: "alert_request \<Rightarrow> string \<Rightarrow> account_env \<Rightarrow> account_world \<Rightarrow> alert_response \<times> account_world" where
  "handleApiKeyUnblock rq token env w =
     (case requireBlockToken rq token of
        Some r \<Rightarrow> (r, w)
      | None \<Rightarrow>
     (case readAccountRouteBody rq of
        Inl r \<Rightarrow> (r, w)
      | Inr body \<Rightarrow>
     (let n = json_number (get_prop body ''account_id''); note = trim (body_text body ''note'') in
      case requested_kind body of
        None \<Rightarrow> (account_missing, w)
      | Some kind \<Rightarrow>
          if \<not> account_number_ok n then (account_missing, w)
          else if note = [] then (error_json ''provide a note explaining why the block is being lifted'' 400, w)
          else withAccountsSql env
            (a_bind (close_block kind n (ae_now env) (take 2000 note)) (\<lambda>closed.
             a_bind (refreshBlocklistSnapshot env) (\<lambda>active.
             a_return (writeJson (JObj [(''account_id'', JVal (VNum n)), (''unblocked'', JVal (VBool closed)), (''active_blocks'', JInt (int active))]) 200)))) w)))"

text \<open>What a signed-in account is shown: the first row of its number, of whichever kind.\<close>

definition handleAccountKeyStatus :: "alert_request \<Rightarrow> account_env \<Rightarrow> account_world \<Rightarrow> alert_response \<times> account_world" where
  "handleAccountKeyStatus rq env w =
     (case requireAccountSession rq env of
        Inl r \<Rightarrow> (r, w)
      | Inr (accountId, _) \<Rightarrow>
          withAccountsSql env
            (a_bind (a_statement (\<lambda>w. Some (List.find (\<lambda>b. bk_account_id b = accountId \<and> active_block b) (wd_blocks w), w))) (\<lambda>row.
             a_return (case row of
               None \<Rightarrow> writeJson (JObj [(''blocked'', JVal (VBool False))]) 200
             | Some b \<Rightarrow>
                 let reason = known_reason (JStr (bk_reason_code b))
                 in writeJson (JObj [(''blocked'', JVal (VBool True)), (''reason_code'', JStr reason),
                      (''message'', JStr (the (map_of BLOCK_REASON_CODES reason))), (''blocked_at'', JInt (bk_blocked_at b))]) 200))) w)"

section \<open>The verdict on an account\<close>

text \<open>The durable authority, a transaction of its own on the ledger; \<open>None\<close>: it threw.\<close>

definition read_block :: "jsnum \<Rightarrow> AccountKind \<Rightarrow> BlockVerdict asql" where
  "read_block n kind =
     (if \<not> account_number_ok n then a_return (evaluateBlock JNull (JVal (VNum n)) kind)
      else a_statement (\<lambda>w. Some (
        (case List.find (block_of kind n) (wd_blocks w) of
           None \<Rightarrow> evaluateBlock JNull (JVal (VNum n)) kind
         | Some b \<Rightarrow> evaluateBlock (JObj [(''blocks'', JArr [JObj [(''accountId'', JVal (VNum n)), (''accountKind'', JStr (kind_text kind)),
                        (''reasonCode'', JStr (bk_reason_code b))]])]) (JVal (VNum n)) kind), w)))"

text \<open>What the edge holds: whether a durable authority is bound, or that its binding is incomplete.\<close>

datatype block_authority = NoAuthority | BlockLedger | AuthorityIncomplete

definition snapshot_valid :: "json \<Rightarrow> bool" where
  "snapshot_valid snapshot \<longleftrightarrow>
     (case get_prop snapshot ''blocks'' of
        JArr entries \<Rightarrow> list_all (\<lambda>entry. recordOrNull entry \<noteq> None \<and> account_number_ok (json_number (get_prop entry ''accountId'')) \<and>
          (let k = get_prop entry ''accountKind'' in nullish k \<or> k = JStr ''rpc'' \<or> k = JStr ''github'')) entries
      | _ \<Rightarrow> False)"

definition read_snapshot :: "kv_entry list AppKv option \<Rightarrow> int \<Rightarrow> account_world \<Rightarrow> json" where
  "read_snapshot kv now w =
     (case kv of
        None \<Rightarrow> JNull
      | Some k \<Rightarrow>
          (case m_get k of
             None \<Rightarrow> JNull
           | Some get \<Rightarrow>
               (case get BLOCKLIST_KV_KEY now (wd_kv w) of
                  Inr (Some stored) \<Rightarrow> (case Option.bind (JSON_parse stored) recordOrNull of None \<Rightarrow> JNull | Some v \<Rightarrow> v)
                | _ \<Rightarrow> JNull)))"

definition loadBlockVerdict :: "block_authority \<Rightarrow> edge_env \<Rightarrow> json \<Rightarrow> AccountKind \<Rightarrow> BlockVerdict asql" where
  "loadBlockVerdict authority env accountId kind w =
     (let n = json_number accountId
      in if \<not> account_number_ok n then (Some (evaluateBlock JNull accountId kind), w)
         else if authority = AuthorityIncomplete then (None, w)
         else case appKv (ee_control env) of
                Inl _ \<Rightarrow> (None, w)
              | Inr kv \<Rightarrow>
                  let snapshot = read_snapshot kv (ee_now env) w
                  in if authority = NoAuthority \<or> snapshot_valid snapshot then (Some (evaluateBlock snapshot accountId kind), w)
                     else read_block n kind w)"

end
