(* ===== verification/Rate_Gate.thy ===== *)
theory Rate_Gate
  imports Account_Blocks Daily_Quota
begin

text \<open>
  The gate in front of the public routes (\<open>workers/tiered-rate-limit.ts\<close>): who a request is from, whether
  that account is blocked, the limit per minute of its tier and its daily budget of cost units, which
  the data worker keeps (\<open>handleApiQuotaSpend\<close>, \<open>src/pg-daily-quota.ts\<close>).  What requests and tools cost
  is \<open>src/route-cost-weights.ts\<close> and \<open>src/mcp-tool-cost.ts\<close>; the tiers are \<open>src/api-tiers.ts\<close>.  The
  limiters are arguments, and so is the spend of amounts that are not whole numbers in the safe range.
\<close>

section \<open>What a request costs\<close>

definition DEFAULT_ROUTE_COST_WEIGHT :: int where
  "DEFAULT_ROUTE_COST_WEIGHT = 1"

definition segment_end :: "string \<Rightarrow> bool" where
  "segment_end r \<longleftrightarrow> r = [] \<or> hd r = CHR ''/'' \<or> hd r = CHR ''?''"

text \<open>What is left of a path after a prefix, and a prefix that ends at a segment's end.\<close>

definition after :: "string \<Rightarrow> string \<Rightarrow> string option" where
  "after p s = (if starts_with p s then Some (drop (length p) s) else None)"

definition at_segment :: "string \<Rightarrow> string list \<Rightarrow> bool" where
  "at_segment s names \<longleftrightarrow> list_ex (\<lambda>nm. starts_with nm s \<and> segment_end (drop (length nm) s)) names"

definition ai_path :: "string \<Rightarrow> bool" where
  "ai_path p \<longleftrightarrow>
     (case after ''/'' p of
        None \<Rightarrow> False
      | Some r \<Rightarrow> at_segment r [''ask'', ''search/semantic''] \<or>
          (case after ''api/v1/'' r of None \<Rightarrow> False | Some q \<Rightarrow> at_segment q [''ask'', ''search/semantic'']))"

definition export_char :: "char \<Rightarrow> bool" where
  "export_char c \<longleftrightarrow> (97 \<le> (of_char c :: nat) \<and> of_char c \<le> (122 :: nat)) \<or> c = CHR ''-''"

definition export_path :: "string \<Rightarrow> bool" where
  "export_path p \<longleftrightarrow>
     (case after ''/api/v1/export/'' p of
        None \<Rightarrow> False
      | Some r \<Rightarrow> takeWhile export_char r \<noteq> [] \<and> segment_end (dropWhile export_char r))"

definition archive_path :: "string \<Rightarrow> bool" where
  "archive_path p \<longleftrightarrow> (case after ''/'' p of None \<Rightarrow> False | Some r \<Rightarrow> at_segment r [''datasets'', ''metagraph/history''])"

text \<open>A nonempty run of characters of a class, a slash, and one of some names.\<close>

definition run_then :: "(char \<Rightarrow> bool) \<Rightarrow> string list \<Rightarrow> string \<Rightarrow> bool" where
  "run_then P names r \<longleftrightarrow>
     takeWhile P r \<noteq> [] \<and> (case after ''/'' (dropWhile P r) of None \<Rightarrow> False | Some q \<Rightarrow> at_segment q names)"

definition history_path :: "string \<Rightarrow> bool" where
  "history_path p \<longleftrightarrow>
     (case after ''/api/v1/'' p of
        None \<Rightarrow> False
      | Some r \<Rightarrow>
          at_segment r [''chain-events'', ''extrinsics'', ''blocks''] \<or>
          (case after ''accounts/'' r of None \<Rightarrow> False
           | Some q \<Rightarrow> run_then (\<lambda>c. c \<noteq> CHR ''/'') [''events'', ''history'', ''transfers'', ''positions''] q) \<or>
          (case after ''subnets/'' r of None \<Rightarrow> False
           | Some q \<Rightarrow> run_then is_digit [''ownership-history'', ''conviction'', ''lease''] q))"

definition ROUTE_COST_WEIGHTS :: "(string \<times> int \<times> (string \<Rightarrow> bool)) list" where
  "ROUTE_COST_WEIGHTS =
     [(''ai'', 25, ai_path), (''export'', 60, export_path), (''archive'', 10, archive_path), (''deep-history'', 5, history_path),
      (''edge'', DEFAULT_ROUTE_COST_WEIGHT, starts_with ''/'')]"

definition routeCost :: "string \<Rightarrow> string \<times> int" where
  "routeCost pathname =
     (case List.find (\<lambda>(_, _, matches). matches pathname) ROUTE_COST_WEIGHTS of
        Some (family, weight, _) \<Rightarrow> (family, weight)
      | None \<Rightarrow> (''edge'', DEFAULT_ROUTE_COST_WEIGHT))"

definition MCP_TOOL_COST_PATHS :: "(string \<times> string) list" where
  "MCP_TOOL_COST_PATHS =
     [(''ask'', ''/api/v1/ask''), (''semantic_search'', ''/api/v1/search/semantic''),
      (''get_account_transfers'', ''/api/v1/accounts/{ss58}/transfers''), (''get_block_chain_events'', ''/api/v1/blocks/{block_number}/chain-events''),
      (''get_block_events'', ''/api/v1/blocks/{ref}/events''), (''get_chain_activity'', ''/api/v1/chain-events/stats''),
      (''get_extrinsic_chain_events'', ''/api/v1/chain-events''), (''list_block_extrinsics'', ''/api/v1/blocks/{ref}/extrinsics''),
      (''list_blocks'', ''/api/v1/blocks''), (''list_chain_events'', ''/api/v1/chain-events''), (''list_extrinsics'', ''/api/v1/extrinsics''),
      (''get_account_events'', ''/api/v1/accounts/{ss58}/events''), (''get_account_history'', ''/api/v1/accounts/{ss58}/history''),
      (''get_account_positions'', ''/api/v1/accounts/{ss58}/positions''), (''get_block'', ''/api/v1/blocks''), (''get_extrinsic'', ''/api/v1/extrinsics''),
      (''get_subnet_conviction'', ''/api/v1/subnets/1/conviction''), (''get_subnet_lease'', ''/api/v1/subnets/1/lease''),
      (''get_subnet_ownership_history'', ''/api/v1/subnets/1/ownership-history'')]"

definition mcpToolCostUnits :: "json \<Rightarrow> int" where
  "mcpToolCostUnits name =
     (case name of
        JVal (VStr s) \<Rightarrow> (case map_of MCP_TOOL_COST_PATHS s of Some path \<Rightarrow> snd (routeCost path) | None \<Rightarrow> DEFAULT_ROUTE_COST_WEIGHT)
      | _ \<Rightarrow> DEFAULT_ROUTE_COST_WEIGHT)"

definition message_cost :: "json \<Rightarrow> int" where
  "message_cost row =
     (let params = get_prop row ''params''; outer = get_prop params ''name'';
          name = (if outer = JStr ''invoke_tool'' \<or> outer = JStr ''invoke_read_tool'' then get_prop (get_prop params ''arguments'') ''name'' else outer)
      in if get_prop row ''method'' = JStr ''tools/call'' then mcpToolCostUnits name else DEFAULT_ROUTE_COST_WEIGHT)"

definition mcpBatchCostUnits :: "json \<Rightarrow> int" where
  "mcpBatchCostUnits body =
     (let messages = (case body of JArr xs \<Rightarrow> xs | _ \<Rightarrow> [body])
      in max DEFAULT_ROUTE_COST_WEIGHT (sum_list (map message_cost messages)))"

section \<open>Tiers\<close>

record RateLimitTierPolicy =
  envVar :: string
  rate_limit :: int
  windowSeconds :: int
  dailyUnits :: "int option"

record TieredRateLimitConfig =
  anonymous_policy :: RateLimitTierPolicy
  keyed_policy :: RateLimitTierPolicy
  tier_policies :: "(string \<times> RateLimitTierPolicy) list"
  keyPrefix :: string

definition TIER_RATE_MULTIPLIER :: "(string \<times> int) list" where
  "TIER_RATE_MULTIPLIER = [(''free'', 1), (''community'', 3), (''paid'', 10)]"

definition TIER_DAILY_UNITS :: "(string \<times> int) list" where
  "TIER_DAILY_UNITS = [(''community'', 250000), (''paid'', 2000000)]"

definition API_TIERS :: "string list" where
  "API_TIERS = [''free'', ''community'', ''paid'']"

definition tier_suffix :: "(string \<times> string) list" where
  "tier_suffix = [(''free'', ''_KEYED''), (''community'', ''_COMMUNITY''), (''paid'', ''_PAID'')]"

definition buildTierPolicies :: "string \<Rightarrow> int \<Rightarrow> int \<Rightarrow> (string \<times> RateLimitTierPolicy) list" where
  "buildTierPolicies envVarPrefix keyedLimit seconds = map (\<lambda>tier.
     (tier, \<lparr>envVar = envVarPrefix @ the (map_of tier_suffix tier), rate_limit = keyedLimit * the (map_of TIER_RATE_MULTIPLIER tier),
             windowSeconds = seconds, dailyUnits = map_of TIER_DAILY_UNITS tier\<rparr>)) API_TIERS"

definition MCP_TIERED_RATE_LIMIT :: TieredRateLimitConfig where
  "MCP_TIERED_RATE_LIMIT =
     \<lparr>anonymous_policy = \<lparr>envVar = ''MCP_RATE_LIMITER'', rate_limit = 100, windowSeconds = 60, dailyUnits = None\<rparr>,
      keyed_policy = \<lparr>envVar = ''MCP_RATE_LIMITER_KEYED'', rate_limit = 500, windowSeconds = 60, dailyUnits = None\<rparr>,
      tier_policies = buildTierPolicies ''MCP_RATE_LIMITER'' 500 60, keyPrefix = ''mcp''\<rparr>"

section \<open>The quota's ledger\<close>

definition quota_at :: "AccountKind \<Rightarrow> jsnum \<Rightarrow> string \<Rightarrow> quota_row \<Rightarrow> bool" where
  "quota_at kind n day q \<longleftrightarrow> qr_kind q = kind \<and> qr_account_id q = n \<and> qr_day q = day"

definition units_spent :: "AccountKind \<Rightarrow> jsnum \<Rightarrow> string \<Rightarrow> quota_row list \<Rightarrow> int" where
  "units_spent kind n day rows = (case List.find (quota_at kind n day) rows of None \<Rightarrow> 0 | Some q \<Rightarrow> qr_units_spent q)"

definition store_units :: "AccountKind \<Rightarrow> jsnum \<Rightarrow> string \<Rightarrow> int \<Rightarrow> int \<Rightarrow> quota_row list \<Rightarrow> quota_row list" where
  "store_units kind n day units now rows =
     (if list_ex (quota_at kind n day) rows
      then map (\<lambda>q. if quota_at kind n day q then q\<lparr>qr_units_spent := units, qr_updated_at := now\<rparr> else q) rows
      else rows @ [\<lparr>qr_kind = kind, qr_account_id = n, qr_day = day, qr_units_spent = units, qr_updated_at = now\<rparr>])"

text \<open>\<open>createPgDailyQuota\<close>: one transaction under a lock of the row.\<close>

definition quota_spend :: "AccountKind \<Rightarrow> jsnum \<Rightarrow> int \<Rightarrow> int \<Rightarrow> int \<Rightarrow> QuotaSpendResult asql" where
  "quota_spend kind n cost cap now =
     (if cap < cost then a_return (applyQuotaSpend 0 cost cap now)
      else a_statement (\<lambda>w.
        let day = utcDayKey now; u = units_spent kind n day (wd_quota w)
        in Some (applyQuotaSpend u cost cap now,
             if u + cost \<le> cap then w\<lparr>wd_quota := store_units kind n day (u + cost) now (wd_quota w)\<rparr> else w)))"

definition quota_json :: "QuotaSpendResult \<Rightarrow> json" where
  "quota_json r = JObj [(''allowed'', JVal (VBool (allowed r))), (''used'', JInt (used r)), (''limit'', JInt (limit r)),
     (''remaining'', JInt (remaining r)), (''resetAt'', JStr (resetAt r))]"

definition quota_fields_missing :: alert_response where
  "quota_fields_missing = error_json ''provide account_id, cost, limit and a known account_kind'' 400"

definition handleApiQuotaSpend :: "account_handler \<Rightarrow> account_handler" where
  "handleApiQuotaSpend wide rq env w =
     (if ae_lookup_token env = [] then (error_json ''quota accounting is not provisioned on this deployment'' 503, w)
      else if header rq API_KEY_LOOKUP_TOKEN_HEADER \<noteq> ae_lookup_token env
        then (error_json (''provide a valid '' @ API_KEY_LOOKUP_TOKEN_HEADER @ '' header'') 401, w)
      else case Option.bind (JSON_parse (rq_raw rq)) recordOrNull of
             None \<Rightarrow> (error_json ''invalid body'' 400, w)
           | Some body \<Rightarrow>
               let n = json_number (get_prop body ''account_id''); cost = json_number (get_prop body ''cost''); cap = json_number (get_prop body ''limit'')
               in case requested_kind body of
                    None \<Rightarrow> (quota_fields_missing, w)
                  | Some kind \<Rightarrow>
                      if \<not> account_number_ok n \<or> \<not> is_finite_num cost \<or> num_lt cost (Fin 0) \<or> \<not> is_finite_num cap \<or> num_le cap (Fin 0)
                      then (quota_fields_missing, w)
                      else if \<not> is_safe_integer cost \<or> \<not> is_safe_integer cap then wide rq env w
                      else if num_int cap < num_int cost then (writeJson (quota_json (applyQuotaSpend 0 (num_int cost) (num_int cap) (ae_now env))) 200, w)
                      else withAccountsSql env (a_bind (quota_spend kind n (num_int cost) (num_int cap) (ae_now env)) (\<lambda>r. a_return (writeJson (quota_json r) 200))) w)"

section \<open>The gate\<close>

text \<open>The limiters by binding: one answer for a key, or none when the call throws.\<close>

record gate_env =
  ge_edge :: edge_env
  ge_authority :: block_authority
  ge_limiter :: "string \<Rightarrow> (string \<Rightarrow> bool option) option"
  ge_quota_reached :: bool

record gate_request =
  gr_authorization :: string
  gr_connecting_ip :: string
  gr_pathname :: string
  gr_paid :: "(string \<times> string) option"

record gate_options =
  costUnits :: "jsnum option"
  deferQuota :: bool
  oauthIdentity :: "(jsnum \<times> string) option"
  paidIdentity :: "(string \<times> string) option"

record gate_identity =
  gi_account :: "string option"
  gi_kind :: AccountKind
  gi_tier :: "string option"

record TieredRateLimitResult =
  gt_allowed :: bool
  gt_policy :: RateLimitTierPolicy
  gt_tier :: string
  gt_account :: "string option"
  gt_kind :: AccountKind
  gt_block :: "BlockVerdict option"
  gt_quota :: "json option"
  gt_pending :: "(string \<times> AccountKind \<times> int) option"

record gate_world =
  gw_world :: account_world
  gw_calls :: "(string \<times> string) list"

definition ANONYMOUS_CLIENT_KEY :: string where
  "ANONYMOUS_CLIENT_KEY = ''anonymous''"

definition resolveClientIp :: "gate_request \<Rightarrow> string" where
  "resolveClientIp rq = (if gr_connecting_ip rq = [] then ANONYMOUS_CLIENT_KEY else gr_connecting_ip rq)"

definition markPaidCall :: "gate_request \<Rightarrow> string \<Rightarrow> string \<Rightarrow> gate_request" where
  "markPaidCall rq payer tier = (if payer \<noteq> [] \<and> tier \<noteq> [] then rq\<lparr>gr_paid := Some (payer, tier)\<rparr> else rq)"

definition settledPayment :: "gate_request \<Rightarrow> gate_options \<Rightarrow> (string \<times> string) option" where
  "settledPayment rq opts = (case paidIdentity opts of Some p \<Rightarrow> Some p | None \<Rightarrow> gr_paid rq)"

text \<open>The identity: a key's, else the OAuth caller's, else the payer's.\<close>

definition gate_identity_of :: "key_verdict option \<Rightarrow> gate_request \<Rightarrow> gate_options \<Rightarrow> gate_identity option" where
  "gate_identity_of auth rq opts =
     (case auth of
        Some (KeyOk tier accountId) \<Rightarrow>
          Some \<lparr>gi_account = (if nullish accountId then None else Some (js_string accountId)), gi_kind = DEFAULT_ACCOUNT_KIND,
                gi_tier = (case tier of JVal (VStr s) \<Rightarrow> if s = [] then None else Some s | _ \<Rightarrow> None)\<rparr>
      | _ \<Rightarrow>
          (case oauthIdentity opts of
             Some (accountId, tier) \<Rightarrow> Some \<lparr>gi_account = Some (number_to_string accountId), gi_kind = Github, gi_tier = Some tier\<rparr>
           | None \<Rightarrow> map_option (\<lambda>(_, tier). \<lparr>gi_account = None, gi_kind = DEFAULT_ACCOUNT_KIND, gi_tier = Some tier\<rparr>) (settledPayment rq opts)))"

definition tier_policy :: "TieredRateLimitConfig \<Rightarrow> string option \<Rightarrow> RateLimitTierPolicy" where
  "tier_policy config tier =
     (case tier of
        None \<Rightarrow> keyed_policy config
      | Some t \<Rightarrow> if t = [] then keyed_policy config
                 else (case map_of (tier_policies config) t of Some p \<Rightarrow> p | None \<Rightarrow> keyed_policy config))"

definition limiter_key :: "TieredRateLimitConfig \<Rightarrow> gate_request \<Rightarrow> gate_options \<Rightarrow> gate_identity \<Rightarrow> string" where
  "limiter_key config rq opts i =
     keyPrefix config @ '':'' @ (case gi_tier i of None \<Rightarrow> ''keyed'' | Some t \<Rightarrow> t) @ '':'' @
     (if gi_account i \<noteq> None \<and> gi_account i \<noteq> Some [] then
        (if gi_kind i = DEFAULT_ACCOUNT_KIND then the (gi_account i) else kind_text (gi_kind i) @ '':'' @ the (gi_account i))
      else case settledPayment rq opts of
             Some (payer, _) \<Rightarrow> ''x402:'' @ payer
           | None \<Rightarrow> ''ip:'' @ resolveClientIp rq)"

definition call_limiter :: "gate_env \<Rightarrow> string \<Rightarrow> string \<Rightarrow> gate_world \<Rightarrow> bool option \<times> gate_world" where
  "call_limiter env binding key g =
     (case ge_limiter env binding of
        None \<Rightarrow> (Some True, g)
      | Some allows \<Rightarrow> (allows key, g\<lparr>gw_calls := gw_calls g @ [(binding, key)]\<rparr>))"

definition quota_response_ok :: "json \<Rightarrow> bool" where
  "quota_response_ok v \<longleftrightarrow>
     recordOrNull v \<noteq> None \<and> is_bool (get_prop v ''allowed'') \<and>
     list_all (\<lambda>f. case get_prop v f of JVal (VNum n) \<Rightarrow> is_finite_num n | _ \<Rightarrow> False) [''used'', ''limit'', ''remaining''] \<and>
     (case get_prop v ''resetAt'' of JVal (VStr _) \<Rightarrow> True | _ \<Rightarrow> False)"

definition cost_weight :: "jsnum option \<Rightarrow> string \<Rightarrow> int" where
  "cost_weight override pathname =
     (case override of
        Some (Fin q) \<Rightarrow> max 1 (if q < 0 then \<lceil>q\<rceil> else \<lfloor>q\<rfloor>)
      | _ \<Rightarrow> snd (routeCost pathname))"

text \<open>\<open>None\<close>: no verdict, and the request goes on.\<close>

definition spendDailyQuota ::
    "account_handler \<Rightarrow> gate_env \<Rightarrow> string \<Rightarrow> string \<Rightarrow> AccountKind \<Rightarrow> int \<Rightarrow> jsnum option \<Rightarrow> account_world \<Rightarrow> json option \<times> account_world" where
  "spendDailyQuota wide env pathname accountId kind units override w =
     (case ee_data (ge_edge env) of
        None \<Rightarrow> (None, w)
      | Some data \<Rightarrow>
          if ee_token (ge_edge env) = [] \<or> \<not> ge_quota_reached env then (None, w)
          else (case handleApiQuotaSpend wide (internal_request (ee_token (ge_edge env))
                       (JObj [(''account_id'', JVal (VNum (string_to_number accountId))), (''account_kind'', JStr (kind_text kind)),
                              (''cost'', JInt (cost_weight override pathname)), (''limit'', JInt units)])) data w of
             (response, w') \<Rightarrow>
               if \<not> (200 \<le> rs_status response \<and> rs_status response \<le> 299) \<or> \<not> quota_response_ok (rs_body response) then (None, w')
               else (Some (rs_body response), w')))"

definition gate_result :: "TieredRateLimitConfig \<Rightarrow> gate_identity \<Rightarrow> TieredRateLimitResult" where
  "gate_result config i =
     \<lparr>gt_allowed = True, gt_policy = tier_policy config (gi_tier i), gt_tier = (case gi_tier i of None \<Rightarrow> ''keyed'' | Some t \<Rightarrow> t),
      gt_account = gi_account i, gt_kind = gi_kind i, gt_block = None, gt_quota = None, gt_pending = None\<rparr>"

text \<open>The daily budget, once the limit per minute has let the request through.\<close>

definition gate_budget ::
    "account_handler \<Rightarrow> gate_env \<Rightarrow> gate_request \<Rightarrow> gate_options \<Rightarrow> TieredRateLimitResult \<Rightarrow> gate_world \<Rightarrow> TieredRateLimitResult \<times> gate_world" where
  "gate_budget wide env rq opts r g =
     (case (gt_account r, dailyUnits (gt_policy r)) of
        (Some accountId, Some units) \<Rightarrow>
          if units = 0 then (r, g)
          else if deferQuota opts then (r\<lparr>gt_pending := Some (accountId, gt_kind r, units)\<rparr>, g)
          else (case spendDailyQuota wide env (gr_pathname rq) accountId (gt_kind r) units (costUnits opts) (gw_world g) of
                  (None, w) \<Rightarrow> (r, g\<lparr>gw_world := w\<rparr>)
                | (Some q, w) \<Rightarrow>
                    (if get_prop q ''allowed'' = JVal (VBool True) then r\<lparr>gt_quota := Some q\<rparr>
                     else r\<lparr>gt_allowed := False, gt_quota := Some q\<rparr>, g\<lparr>gw_world := w\<rparr>))
      | _ \<Rightarrow> (r, g))"

definition gate_identified ::
    "account_handler \<Rightarrow> gate_env \<Rightarrow> TieredRateLimitConfig \<Rightarrow> gate_request \<Rightarrow> gate_options \<Rightarrow> gate_identity \<Rightarrow> gate_world \<Rightarrow>
     TieredRateLimitResult option \<times> gate_world" where
  "gate_identified wide env config rq opts i g =
     (let r = gate_result config i in
      case loadBlockVerdict (ge_authority env) (ge_edge env) (case gi_account i of None \<Rightarrow> JNull | Some a \<Rightarrow> JStr a) (gi_kind i) (gw_world g) of
        (None, w) \<Rightarrow> (None, g\<lparr>gw_world := w\<rparr>)
      | (Some verdict, w) \<Rightarrow>
          if blocked verdict then (Some (r\<lparr>gt_allowed := False, gt_block := Some verdict\<rparr>), g\<lparr>gw_world := w\<rparr>)
          else (case call_limiter env (envVar (gt_policy r)) (limiter_key config rq opts i) (g\<lparr>gw_world := w\<rparr>) of
                  (None, g') \<Rightarrow> (None, g')
                | (Some False, g') \<Rightarrow> (Some (r\<lparr>gt_allowed := False\<rparr>), g')
                | (Some True, g') \<Rightarrow> map_prod Some (\<lambda>x. x) (gate_budget wide env rq opts r g')))"

definition gate_anonymous :: "gate_env \<Rightarrow> TieredRateLimitConfig \<Rightarrow> gate_request \<Rightarrow> gate_world \<Rightarrow> TieredRateLimitResult option \<times> gate_world" where
  "gate_anonymous env config rq g =
     (case call_limiter env (envVar (anonymous_policy config)) (keyPrefix config @ '':'' @ resolveClientIp rq) g of
        (None, g') \<Rightarrow> (None, g')
      | (Some success, g') \<Rightarrow>
          (Some \<lparr>gt_allowed = success, gt_policy = anonymous_policy config, gt_tier = ''anonymous'', gt_account = None,
                 gt_kind = DEFAULT_ACCOUNT_KIND, gt_block = None, gt_quota = None, gt_pending = None\<rparr>, g'))"

text \<open>\<open>None\<close>: the request fails with what was thrown.\<close>

definition applyTieredRateLimit ::
    "account_handler \<Rightarrow> gate_request \<Rightarrow> gate_env \<Rightarrow> TieredRateLimitConfig \<Rightarrow> gate_options \<Rightarrow> gate_world \<Rightarrow>
     TieredRateLimitResult option \<times> gate_world" where
  "applyTieredRateLimit wide rq env config opts g =
     (let (auth, w) = (if gr_authorization rq = [] then (Some InvalidKey, gw_world g)
                       else validateApiKey (ge_edge env) (VStr (gr_authorization rq)) (gw_world g));
          g' = g\<lparr>gw_world := w\<rparr>
      in case auth of
           None \<Rightarrow> (None, g')
         | Some _ \<Rightarrow>
             (case gate_identity_of auth rq opts of
                Some i \<Rightarrow> gate_identified wide env config rq opts i g'
              | None \<Rightarrow> gate_anonymous env config rq g'))"

definition spendDeferredDailyQuota ::
    "account_handler \<Rightarrow> gate_env \<Rightarrow> string \<Rightarrow> string \<times> AccountKind \<times> int \<Rightarrow> jsnum \<Rightarrow> account_world \<Rightarrow> json option \<times> account_world" where
  "spendDeferredDailyQuota wide env pathname pending cost w =
     (case pending of (accountId, kind, units) \<Rightarrow> spendDailyQuota wide env pathname accountId kind units (Some cost) w)"

section \<open>How a refusal is reported\<close>

record gate_rejection =
  rj_status :: nat
  rj_code :: string
  rj_message :: string
  rj_headers :: "(string \<times> string) list"

definition tier_header :: "string \<Rightarrow> (string \<times> string) list" where
  "tier_header tier = (if tier = [] then [] else [(''x-ratelimit-tier'', tier)])"

text \<open>\<open>Date.parse\<close> of the reset instant is an argument; a verdict that is attached is one that blocks.\<close>

definition daily_headers :: "(string \<Rightarrow> int) \<Rightarrow> int \<Rightarrow> string \<Rightarrow> json \<Rightarrow> (string \<times> string) list" where
  "daily_headers date_parse now tier q =
     (let reset = js_string (get_prop q ''resetAt''); cap = js_string (get_prop q ''limit'')
      in [(''retry-after'', string_of_int (max 1 (- ((now - date_parse reset) div 1000)))), (''x-ratelimit-limit'', cap),
          (''x-ratelimit-remaining'', ''0''), (''x-ratelimit-reset'', reset), (''x-ratelimit-policy'', cap @ '';w=86400''),
          (''x-ratelimit-scope'', ''daily-quota'')] @ tier_header tier)"

definition minute_headers :: "int \<Rightarrow> RateLimitTierPolicy \<Rightarrow> string \<Rightarrow> (string \<times> string) list" where
  "minute_headers now policy tier =
     [(''retry-after'', string_of_int (windowSeconds policy)), (''x-ratelimit-limit'', string_of_int (rate_limit policy)),
      (''x-ratelimit-remaining'', ''0''), (''x-ratelimit-reset'', iso_datetime (now + windowSeconds policy * 1000)),
      (''x-ratelimit-policy'', string_of_int (rate_limit policy) @ '';w='' @ string_of_int (windowSeconds policy)),
      (''x-ratelimit-scope'', ''per-minute'')] @ tier_header tier"

definition tieredRateLimitHeaders ::
    "(string \<Rightarrow> int) \<Rightarrow> int \<Rightarrow> RateLimitTierPolicy \<Rightarrow> string \<Rightarrow> json option \<Rightarrow> (string \<times> string) list" where
  "tieredRateLimitHeaders date_parse now policy tier quota =
     (case quota of
        None \<Rightarrow> minute_headers now policy tier
      | Some q \<Rightarrow> if get_prop q ''allowed'' = JVal (VBool True) then minute_headers now policy tier else daily_headers date_parse now tier q)"

definition tieredRejectionResponse ::
    "(string \<Rightarrow> int) \<Rightarrow> int \<Rightarrow> TieredRateLimitResult \<Rightarrow> string \<times> string \<Rightarrow> gate_rejection option" where
  "tieredRejectionResponse date_parse now r rateLimited =
     (if gt_allowed r then None
      else case gt_block r of
             Some verdict \<Rightarrow>
               Some \<lparr>rj_status = 403, rj_code = ''api_key_blocked'',
                     rj_message = the (block_message verdict) @ '' Contact support if you believe this is an error.'',
                     rj_headers = [(''x-ratelimit-scope'', ''blocked''),
                       (''x-api-key-block-reason'', case reasonCode verdict of None \<Rightarrow> ''abuse_manual'' | Some c \<Rightarrow> c)] @ tier_header (gt_tier r)\<rparr>
           | None \<Rightarrow>
               Some \<lparr>rj_status = 429, rj_code = fst rateLimited, rj_message = snd rateLimited,
                     rj_headers = tieredRateLimitHeaders date_parse now (gt_policy r) (gt_tier r) (gt_quota r)\<rparr>)"

end
