(* ===== verification/Block_Laws.thy ===== *)
theory Block_Laws
  imports Account_Blocks Key_Revocation
begin

text \<open>
  How fast a block takes effect.  The snapshot the edge reads is as old as the store lets it get, and
  without a snapshot the ledger itself is asked; so the verdict is never more than a minute behind it.
\<close>

section \<open>What a snapshot says\<close>

lemma native_get_live:
  assumes "keys_distinct es" and "the (m_get (pg_AppKv ns)) key now es = Inr (Some v)"
  shows "\<exists>x. pg_peek ns es key = Some (v, x) \<and> (\<forall>t. x = Some t \<longrightarrow> now div 1000 < t)"
proof -
  have "kv_get kv_defaults ns key AsText now es = Inr (ReadText v)"
    using assms(2) by (auto simp: pg_AppKv_def split: sum.splits kv_read.splits)
  then obtain k row where k: "keyBytes kv_defaults key = Inr k" "find_live ns k now es = Some row" "v = utf8_decode (e_value row)"
    by (auto simp: kv_get_def storedBytes_def split: sum.splits option.splits if_splits)
  then have "holds_at (kv_view es) (ns, utf8_encode key) now = Some (e_value row)"
    using find_live_view [OF assms(1), of ns k now] keyBytes_encode [OF k(1)] by simp
  then show ?thesis using k(3) by (auto simp: holds_at_def pg_peek_def split: option.splits if_splits)
qed

lemma reason_known: "known_reason v \<in> fst ` set BLOCK_REASON_CODES"
  by (auto simp: known_reason_def BLOCK_REASON_CODES_def split: json.split jsval.split)

lemma blocked_for_blocked [simp]: "blocked (blocked_for r)"
  by (simp add: blocked_for_def)

definition ledger_row_ok :: "int \<Rightarrow> account_block \<Rightarrow> bool" where
  "ledger_row_ok now b \<longleftrightarrow>
     is_safe_integer (bk_account_id b) \<and> account_number_ok (bk_account_id b) \<and> 0 \<le> bk_blocked_at b \<and> bk_blocked_at b \<le> now \<and>
     (\<forall>u. bk_unblocked_at b = Some u \<longrightarrow> u \<le> now)"

lemma snapshot_kept:
  assumes "\<forall>b\<in>set rows. ledger_row_ok now b" and "time_ok now"
  shows "kept_by_json (block_snapshot now rows)"
proof -
  have "kept_by_json (block_entry b)" if b: "b \<in> set rows" for b
  proof -
    have r: "is_safe_integer (bk_account_id b)" "0 \<le> bk_blocked_at b" "bk_blocked_at b \<le> 8640001800000 * 1000"
      using assms b by (auto simp: ledger_row_ok_def time_ok_def)
    have "kept_by_json (JInt (bk_blocked_at b))" by (rule safe_kept [OF r(2,3)])
    then show ?thesis using r(1) by (simp add: block_entry_def)
  qed
  then show ?thesis by (simp add: block_snapshot_def list_all_iff)
qed

lemma entry_of_row: "entry_matches n kind (block_entry b) \<longleftrightarrow> bk_account_id b = n \<and> bk_kind b = kind"
  by (cases "bk_kind b"; cases kind) (auto simp: entry_matches_def block_entry_def kind_text_def nullish_def Let_def)

lemma snapshot_verdict:
  assumes "account_number_ok (json_number v)"
  shows "blocked (evaluateBlock (block_snapshot s rows) v kind) \<longleftrightarrow> (\<exists>b\<in>set rows. bk_account_id b = json_number v \<and> bk_kind b = kind)"
proof -
  have f: "List.find (entry_matches (json_number v) kind) (map block_entry rows) = None \<longleftrightarrow>
      \<not> (\<exists>b\<in>set rows. bk_account_id b = json_number v \<and> bk_kind b = kind)"
    by (auto simp: find_None_iff entry_of_row)
  show ?thesis
    using assms f by (cases "List.find (entry_matches (json_number v) kind) (map block_entry rows)")
      (auto simp: evaluateBlock_def block_snapshot_def NOT_BLOCKED_def Let_def)
qed

lemma snapshot_of_rows_valid:
  assumes "\<forall>b\<in>set rows. ledger_row_ok now b"
  shows "snapshot_valid (block_snapshot s rows)" "recordOrNull (block_snapshot s rows) = Some (block_snapshot s rows)"
  using assms
  by (auto simp: snapshot_valid_def block_snapshot_def block_entry_def recordOrNull_def ledger_row_ok_def list_all_iff kind_text_def Let_def
      split: AccountKind.split)

lemma read_block_verdict:
  assumes "account_number_ok n" and "fst (read_block n kind w) = Some v"
  shows "blocked v \<longleftrightarrow> list_ex (block_of kind n) (wd_blocks w)"
proof -
  have e: "entry_matches n kind (JObj [(''accountId'', JVal (VNum n)), (''accountKind'', JStr (kind_text kind)), (''reasonCode'', JStr r)])" for r
    by (cases kind) (simp_all add: entry_matches_def kind_text_def nullish_def)
  have v: "v = (case List.find (block_of kind n) (wd_blocks w) of
      None \<Rightarrow> NOT_BLOCKED | Some b \<Rightarrow> blocked_for (known_reason (JStr (bk_reason_code b))))"
    using assms e
    by (auto simp: read_block_def a_statement_def evaluateBlock_def Let_def split: if_splits option.splits)
  show ?thesis
  proof (cases "List.find (block_of kind n) (wd_blocks w)")
    case None
    then have "\<not> list_ex (block_of kind n) (wd_blocks w)" by (auto simp: find_None_iff list_ex_iff)
    then show ?thesis using v None by (simp add: NOT_BLOCKED_def)
  next
    case (Some b)
    then have "list_ex (block_of kind n) (wd_blocks w)" by (auto simp: find_Some_iff list_ex_iff)
    then show ?thesis using v Some by simp
  qed
qed

section \<open>The service in operation\<close>

record block_system =
  bs_now :: int
  bs_world :: account_world

definition safe_account :: "alert_request \<Rightarrow> bool" where
  "safe_account rq \<longleftrightarrow> (\<forall>body. readAccountRouteBody rq = Inr body \<longrightarrow> account_number_ok (json_number (get_prop body ''account_id'')) \<longrightarrow>
     is_safe_integer (json_number (get_prop body ''account_id'')))"

definition spares_blocklist :: "string \<Rightarrow> account_world \<Rightarrow> account_world \<Rightarrow> bool" where
  "spares_blocklist ns w w' \<longleftrightarrow> wd_blocks w' = wd_blocks w \<and> (keys_distinct (wd_kv w) \<longrightarrow> keys_distinct (wd_kv w') \<and>
     pg_peek ns (wd_kv w') BLOCKLIST_KV_KEY \<in> {pg_peek ns (wd_kv w) BLOCKLIST_KV_KEY, None})"

definition worker_env :: "string \<Rightarrow> int \<Rightarrow> account_env \<Rightarrow> bool" where
  "worker_env ns now env \<longleftrightarrow> ae_control env = native_env (pg_AppKv ns) \<and> ae_now env = now"

inductive block_step :: "string \<Rightarrow> block_system \<Rightarrow> block_system \<Rightarrow> bool" for ns :: string where
  bl_tick: "bs_now y \<le> t \<Longrightarrow> time_ok t \<Longrightarrow> block_step ns y (y\<lparr>bs_now := t\<rparr>)"
| bl_block: "worker_env ns (bs_now y) env \<Longrightarrow> safe_account rq \<Longrightarrow>
    block_step ns y (y\<lparr>bs_world := snd (handleApiKeyBlock rq token env (bs_world y))\<rparr>)"
| bl_unblock: "worker_env ns (bs_now y) env \<Longrightarrow>
    block_step ns y (y\<lparr>bs_world := snd (handleApiKeyUnblock rq token env (bs_world y))\<rparr>)"
| bl_other: "spares_blocklist ns (bs_world y) w' \<Longrightarrow> block_step ns y (y\<lparr>bs_world := w'\<rparr>)"

text \<open>A snapshot taken at \<open>s\<close> against the ledger as it is now.\<close>

definition snapshot_sound :: "int \<Rightarrow> account_block list \<Rightarrow> account_block list \<Rightarrow> bool" where
  "snapshot_sound s rows ledger \<longleftrightarrow>
     (\<forall>b\<in>set rows. \<exists>b'\<in>set ledger. bk_kind b' = bk_kind b \<and> bk_account_id b' = bk_account_id b \<and>
        (\<forall>u. bk_unblocked_at b' = Some u \<longrightarrow> s \<le> u)) \<and>
     (\<forall>b'\<in>set ledger. bk_blocked_at b' < s \<longrightarrow> (\<forall>u. bk_unblocked_at b' = Some u \<longrightarrow> s < u) \<longrightarrow>
        (\<exists>b\<in>set rows. bk_kind b = bk_kind b' \<and> bk_account_id b = bk_account_id b'))"

definition stored_snapshot :: "string \<Rightarrow> int \<Rightarrow> account_world \<Rightarrow> bool" where
  "stored_snapshot ns now w \<longleftrightarrow> (\<forall>v x. pg_peek ns (wd_kv w) BLOCKLIST_KV_KEY = Some (v, x) \<longrightarrow>
     (\<exists>s rows. s \<le> now \<and> x = Some (s div 1000 + 60) \<and> JSON_parse v = Some (block_snapshot s rows) \<and>
        (\<forall>b\<in>set rows. ledger_row_ok s b) \<and> snapshot_sound s rows (wd_blocks w)))"

definition ledger_inv :: "string \<Rightarrow> int \<Rightarrow> account_world \<Rightarrow> bool" where
  "ledger_inv ns now w \<longleftrightarrow> keys_distinct (wd_kv w) \<and> (\<forall>b\<in>set (wd_blocks w). ledger_row_ok now b) \<and> stored_snapshot ns now w"

definition block_inv :: "string \<Rightarrow> block_system \<Rightarrow> bool" where
  "block_inv ns y \<longleftrightarrow> time_ok (bs_now y) \<and> ledger_inv ns (bs_now y) (bs_world y)"

text \<open>Putting a snapshot of the ledger as it stands.\<close>

lemma fresh_snapshot_sound:
  assumes "\<forall>b\<in>set ledger. ledger_row_ok s b"
  shows "snapshot_sound s (js_sort block_order (filter active_block ledger)) ledger"
  unfolding snapshot_sound_def
proof (intro conjI ballI impI)
  fix b
  assume "b \<in> set (js_sort block_order (filter active_block ledger))"
  then have "b \<in> set ledger" "bk_unblocked_at b = None" by (simp_all add: active_block_def)
  then show "\<exists>b'\<in>set ledger. bk_kind b' = bk_kind b \<and> bk_account_id b' = bk_account_id b \<and> (\<forall>u. bk_unblocked_at b' = Some u \<longrightarrow> s \<le> u)"
    by (intro bexI [of _ b]) simp_all
next
  fix b
  assume b: "b \<in> set ledger" and later: "\<forall>u. bk_unblocked_at b = Some u \<longrightarrow> s < u"
  have "bk_unblocked_at b = None"
  proof (cases "bk_unblocked_at b")
    case (Some u)
    then have "u \<le> s" "s < u" using assms b later by (simp_all add: ledger_row_ok_def)
    then show ?thesis by simp
  qed simp
  then have "b \<in> set (js_sort block_order (filter active_block ledger))" using b by (simp add: active_block_def)
  then show "\<exists>r\<in>set (js_sort block_order (filter active_block ledger)). bk_kind r = bk_kind b \<and> bk_account_id r = bk_account_id b"
    by (rule bexI [rotated]) simp
qed

lemma put_snapshot_keeps:
  assumes env: "worker_env ns now env" and t: "time_ok now" and w: "ledger_inv ns now w"
    and r: "set rs \<subseteq> set (wd_blocks w)" "snapshot_sound now rs (wd_blocks w)"
  shows "ledger_inv ns now (put_snapshot env (block_snapshot now rs) w)"
proof -
  let ?snap = "block_snapshot now rs"
  obtain put where put: "m_put (pg_AppKv ns) = Some put" by (simp add: pg_AppKv_def)
  have kv: "appKv (ae_control env) = Inr (Some (pg_AppKv ns))" and now: "ae_now env = now"
    using env appKv_native [OF pg_challenges.complete] by (simp_all add: worker_env_def)
  have ok: "\<forall>b\<in>set rs. ledger_row_ok now b" using w r(1) by (auto simp: ledger_inv_def)
  obtain wtext where wtext: "json_stringify ?snap = Some wtext" "JSON_parse wtext = Some ?snap"
    by (rule json_parse_stringify [OF snapshot_kept [OF ok t]])
  show ?thesis
  proof (cases "put BLOCKLIST_KV_KEY wtext BLOCKLIST_KV_TTL now (wd_kv w)")
    case (Inl e)
    then show ?thesis using kv now put wtext w by (simp add: put_snapshot_def del: json_stringify.simps)
  next
    case (Inr es)
    then have w': "put_snapshot env ?snap w = w\<lparr>wd_kv := es\<rparr>"
      using kv now put wtext by (simp add: put_snapshot_def del: json_stringify.simps)
    have "the (m_put (pg_AppKv ns)) BLOCKLIST_KV_KEY wtext BLOCKLIST_KV_TTL now (wd_kv w) = Inr es" using Inr put by simp
    from pg_challenges.put [OF _ this] w
    have "keys_distinct es" "pg_peek ns es BLOCKLIST_KV_KEY = Some (wtext, Some (now div 1000 + 60))"
      by (simp_all add: BLOCKLIST_KV_TTL_def ledger_inv_def)
    then show ?thesis using wtext(2) ok r(2) w by (auto simp: w' stored_snapshot_def ledger_inv_def)
  qed
qed

lemma faults_stored [simp]: "stored_snapshot ns now (w\<lparr>wd_faults := fs\<rparr>) = stored_snapshot ns now w"
  by (simp add: stored_snapshot_def)

lemma faults_ledger [simp]: "ledger_inv ns now (w\<lparr>wd_faults := fs\<rparr>) = ledger_inv ns now w"
  by (simp add: ledger_inv_def stored_snapshot_def)

interpretation ledger_frame: kept_relation "\<lambda>w w'. ledger_inv ns now w \<longrightarrow> ledger_inv ns now w'" for ns now
  by unfold_locales auto

abbreviation keeps_ledger :: "string \<Rightarrow> int \<Rightarrow> 'a asql \<Rightarrow> bool" where
  "keeps_ledger ns now \<equiv> keeping (\<lambda>w w'. ledger_inv ns now w \<longrightarrow> ledger_inv ns now w')"

lemma ledger_statement:
  assumes "\<And>w x w'. ledger_inv ns now w \<Longrightarrow> f w = Some (x, w') \<Longrightarrow> ledger_inv ns now w'"
  shows "keeps_ledger ns now (a_statement f)"
  by (rule ledger_frame.keeping_statement) (use assms in blast)

lemma ledger_with_sql: "keeps_ledger ns now fn \<Longrightarrow> ledger_inv ns now w \<Longrightarrow> ledger_inv ns now (snd (withAccountsSql env fn w))"
  using ledger_frame.keeping_with_sql [of ns now fn w env] by blast

lemma ledger_refresh:
  assumes "worker_env ns now env" and "time_ok now"
  shows "keeps_ledger ns now (refreshBlocklistSnapshot env)"
  unfolding keeping_def
proof (intro allI impI)
  fix w
  assume w: "ledger_inv ns now w"
  let ?w = "w\<lparr>wd_faults := tl (wd_faults w)\<rparr>" and ?rows = "js_sort block_order (filter active_block (wd_blocks w))"
  have "ledger_inv ns now ?w" using w by simp
  moreover have "ledger_inv ns now (put_snapshot env (block_snapshot now ?rows) ?w)"
    by (rule put_snapshot_keeps [OF assms]) (use w fresh_snapshot_sound in \<open>auto simp: ledger_inv_def\<close>)
  moreover have "ae_now env = now" using assms(1) by (simp add: worker_env_def)
  ultimately show "ledger_inv ns now (snd (refreshBlocklistSnapshot env w))"
    by (simp add: refreshBlocklistSnapshot_def a_bind_def select_active_def a_statement_def Let_def)
qed

text \<open>A new row is blocked now, which no snapshot is older than; a closed one is closed now.\<close>

lemma snapshot_insert:
  assumes "snapshot_sound s rows ledger" and "s \<le> bk_blocked_at b"
  shows "snapshot_sound s rows (ledger @ [b])"
  using assms unfolding snapshot_sound_def by (simp add: bex_Un ball_Un)

lemma ledger_insert:
  assumes "is_safe_integer n" and "account_number_ok n" and "time_ok now"
  shows "keeps_ledger ns now (insert_block kind n reason note now who)"
  unfolding insert_block_def
proof (rule ledger_statement)
  fix w w' :: account_world and x
  let ?b = "\<lparr>bk_id = wd_next_block w, bk_kind = kind, bk_account_id = n, bk_reason_code = reason, bk_note = note, bk_blocked_at = now,
    bk_blocked_by = who, bk_unblocked_at = None, bk_unblocked_note = None\<rparr>"
  assume w: "ledger_inv ns now w"
    and f: "(if list_ex (block_of kind n) (wd_blocks w) then Some (False, w)
      else Some (True, w\<lparr>wd_blocks := wd_blocks w @ [?b], wd_next_block := Suc (wd_next_block w)\<rparr>)) = Some (x, w')"
  have b: "ledger_row_ok now ?b" using assms by (simp add: ledger_row_ok_def time_ok_def)
  have old: "stored_snapshot ns now w" and rows: "\<forall>b\<in>set (wd_blocks w). ledger_row_ok now b" using w by (simp_all add: ledger_inv_def)
  have "stored_snapshot ns now (w\<lparr>wd_blocks := wd_blocks w @ [?b], wd_next_block := Suc (wd_next_block w)\<rparr>)"
    unfolding stored_snapshot_def
  proof (intro allI impI)
    fix v e
    assume "pg_peek ns (wd_kv (w\<lparr>wd_blocks := wd_blocks w @ [?b], wd_next_block := Suc (wd_next_block w)\<rparr>)) BLOCKLIST_KV_KEY = Some (v, e)"
    then obtain s rs where s: "s \<le> now" "e = Some (s div 1000 + 60)" "JSON_parse v = Some (block_snapshot s rs)" "\<forall>b\<in>set rs. ledger_row_ok s b"
        "snapshot_sound s rs (wd_blocks w)"
      using old by (auto simp: stored_snapshot_def)
    have "snapshot_sound s rs (wd_blocks w @ [?b])" by (rule snapshot_insert [OF s(5)]) (simp add: s(1))
    with s show "\<exists>s rs. s \<le> now \<and> e = Some (s div 1000 + 60) \<and> JSON_parse v = Some (block_snapshot s rs) \<and> (\<forall>b\<in>set rs. ledger_row_ok s b) \<and>
        snapshot_sound s rs (wd_blocks (w\<lparr>wd_blocks := wd_blocks w @ [?b], wd_next_block := Suc (wd_next_block w)\<rparr>))" by auto
  qed
  then show "ledger_inv ns now w'" using f w rows b by (auto simp: ledger_inv_def split: if_splits)
qed

lemma snapshot_close:
  assumes "snapshot_sound s rows ledger" and "s \<le> now"
  shows "snapshot_sound s rows (map (\<lambda>b. if block_of kind n b then b\<lparr>bk_unblocked_at := Some now, bk_unblocked_note := note\<rparr> else b) ledger)"
proof -
  let ?f = "\<lambda>b. if block_of kind n b then b\<lparr>bk_unblocked_at := Some now, bk_unblocked_note := note\<rparr> else b"
  have same: "bk_kind (?f b) = bk_kind b" "bk_account_id (?f b) = bk_account_id b" "bk_blocked_at (?f b) = bk_blocked_at b" for b by simp_all
  show ?thesis
    unfolding snapshot_sound_def
  proof (intro conjI ballI impI)
    fix b
    assume "b \<in> set rows"
    then obtain b' where b': "b' \<in> set ledger" "bk_kind b' = bk_kind b" "bk_account_id b' = bk_account_id b" "\<forall>u. bk_unblocked_at b' = Some u \<longrightarrow> s \<le> u"
      using assms(1) unfolding snapshot_sound_def by blast
    show "\<exists>b'\<in>set (map ?f ledger). bk_kind b' = bk_kind b \<and> bk_account_id b' = bk_account_id b \<and> (\<forall>u. bk_unblocked_at b' = Some u \<longrightarrow> s \<le> u)"
      by (rule bexI [of _ "?f b'"]) (use b' assms(2) in auto)
  next
    fix c
    assume c: "c \<in> set (map ?f ledger)" "bk_blocked_at c < s" "\<forall>u. bk_unblocked_at c = Some u \<longrightarrow> s < u"
    then obtain b where b: "b \<in> set ledger" "c = ?f b" by auto
    have "\<forall>u. bk_unblocked_at b = Some u \<longrightarrow> s < u"
    proof (cases "block_of kind n b")
      case True
      then show ?thesis by (simp add: block_of_def active_block_def)
    qed (use b c(3) in simp)
    moreover have "bk_blocked_at b < s" using b c(2) same by simp
    ultimately show "\<exists>r\<in>set rows. bk_kind r = bk_kind c \<and> bk_account_id r = bk_account_id c"
      using assms(1) b same unfolding snapshot_sound_def by simp
  qed
qed

lemma ledger_close: "time_ok now \<Longrightarrow> keeps_ledger ns now (close_block kind n now note)"
  unfolding close_block_def
proof (rule ledger_statement)
  fix w w' :: account_world and x
  let ?f = "\<lambda>b. if block_of kind n b then b\<lparr>bk_unblocked_at := Some now, bk_unblocked_note := Some note\<rparr> else b"
  assume t: "time_ok now" and w: "ledger_inv ns now w"
    and f: "Some (list_ex (block_of kind n) (wd_blocks w), w\<lparr>wd_blocks := map ?f (wd_blocks w)\<rparr>) = Some (x, w')"
  have w': "wd_kv w' = wd_kv w" "wd_blocks w' = map ?f (wd_blocks w)" using f by auto
  have row: "ledger_row_ok now (?f b)" if "ledger_row_ok now b" for b using that by (simp add: ledger_row_ok_def)
  have "\<forall>b\<in>set (wd_blocks w'). ledger_row_ok now b"
    unfolding w'
  proof
    fix c
    assume "c \<in> set (map ?f (wd_blocks w))"
    then obtain b where b: "b \<in> set (wd_blocks w)" "c = ?f b" by auto
    then have "ledger_row_ok now b" using w by (simp add: ledger_inv_def)
    then show "ledger_row_ok now c" unfolding b(2) by (rule row)
  qed
  moreover have "stored_snapshot ns now w'"
    using w snapshot_close [of _ _ "wd_blocks w" now kind n "Some note"] unfolding stored_snapshot_def ledger_inv_def w' by blast
  ultimately show "ledger_inv ns now w'" using w by (simp add: ledger_inv_def w')
qed

lemma block_keeps:
  assumes env: "worker_env ns (ae_now env) env" and t: "time_ok (ae_now env)" and "safe_account rq" and "ledger_inv ns (ae_now env) w"
  shows "ledger_inv ns (ae_now env) (snd (handleApiKeyBlock rq token env w))"
proof -
  have ins: "keeps_ledger ns (ae_now env) (insert_block kind (json_number (get_prop body ''account_id'')) reason remark (ae_now env) who)"
    if "readAccountRouteBody rq = Inr body" "account_number_ok (json_number (get_prop body ''account_id''))" for body kind reason remark who
    by (rule ledger_insert) (use that assms(2,3) in \<open>auto simp: safe_account_def\<close>)
  show ?thesis
    unfolding handleApiKeyBlock_def Let_def
    using assms(4) ins
    by (auto split: option.split sum.split json.split jsval.split intro!: ledger_with_sql ledger_frame.keeping_bind ledger_refresh [OF env t])
qed

lemma unblock_keeps:
  assumes env: "worker_env ns (ae_now env) env" and t: "time_ok (ae_now env)" and "ledger_inv ns (ae_now env) w"
  shows "ledger_inv ns (ae_now env) (snd (handleApiKeyUnblock rq token env w))"
  unfolding handleApiKeyUnblock_def Let_def
  using assms(3)
  by (auto split: option.split sum.split intro!: ledger_with_sql ledger_frame.keeping_bind ledger_refresh [OF env t] ledger_close [OF t])

lemma other_keeps:
  assumes "spares_blocklist ns w w'" and "ledger_inv ns now w"
  shows "ledger_inv ns now w'"
proof -
  have "pg_peek ns (wd_kv w') BLOCKLIST_KV_KEY = Some (v, x) \<Longrightarrow> pg_peek ns (wd_kv w) BLOCKLIST_KV_KEY = Some (v, x)" for v x
    using assms by (auto simp: spares_blocklist_def ledger_inv_def)
  then show ?thesis using assms by (auto simp: ledger_inv_def spares_blocklist_def stored_snapshot_def)
qed

lemma tick_keeps: "ledger_inv ns now w \<Longrightarrow> now \<le> t \<Longrightarrow> ledger_inv ns t w"
proof -
  assume w: "ledger_inv ns now w" and t: "now \<le> t"
  have row: "ledger_row_ok t b" if "ledger_row_ok now b" for b using that t unfolding ledger_row_ok_def by (meson order_trans)
  have "\<forall>b\<in>set (wd_blocks w). ledger_row_ok t b" using w row by (simp add: ledger_inv_def)
  moreover have "stored_snapshot ns t w" using w t unfolding ledger_inv_def stored_snapshot_def by (meson order_trans)
  ultimately show ?thesis using w by (simp add: ledger_inv_def)
qed

lemma block_step_keeps:
  assumes "block_step ns y z" and "block_inv ns y"
  shows "block_inv ns z"
  using assms(1)
proof cases
  case (bl_tick t)
  then show ?thesis using assms(2) tick_keeps by (auto simp: block_inv_def)
next
  case (bl_block env rq token)
  then have "ae_now env = bs_now y" by (simp add: worker_env_def)
  then show ?thesis using bl_block block_keeps [of ns env rq "bs_world y" token] assms(2) by (simp add: block_inv_def)
next
  case (bl_unblock env rq token)
  then have "ae_now env = bs_now y" by (simp add: worker_env_def)
  then show ?thesis using bl_unblock unblock_keeps [of ns env "bs_world y" rq token] assms(2) by (simp add: block_inv_def)
next
  case (bl_other w')
  then show ?thesis using assms(2) other_keeps by (auto simp: block_inv_def)
qed

definition block_start :: "string \<Rightarrow> block_system \<Rightarrow> bool" where
  "block_start ns y \<longleftrightarrow> time_ok (bs_now y) \<and> keys_distinct (wd_kv (bs_world y)) \<and> wd_blocks (bs_world y) = [] \<and>
     pg_peek ns (wd_kv (bs_world y)) BLOCKLIST_KV_KEY = None"

lemma block_reachable:
  assumes "(block_step ns)\<^sup>*\<^sup>* y0 y" and "block_start ns y0"
  shows "block_inv ns y"
  using assms(1)
proof induction
  case base
  show ?case using assms(2) by (simp add: block_start_def block_inv_def ledger_inv_def stored_snapshot_def)
next
  case (step y z)
  then show ?case using block_step_keeps by blast
qed

section \<open>The verdict\<close>

definition native_edge :: "string \<Rightarrow> int \<Rightarrow> edge_env \<Rightarrow> bool" where
  "native_edge ns now edge \<longleftrightarrow> ee_control edge = native_env (pg_AppKv ns) \<and> ee_now edge = now"

text \<open>Either a snapshot that is at most a minute old speaks, or the ledger does.\<close>

lemma verdict_source:
  assumes inv: "block_inv ns y" and e: "native_edge ns (bs_now y) edge" and n: "account_number_ok (json_number v)"
  obtains (snapshot) s rows where "s \<le> bs_now y" "bs_now y < s + 61000" "snapshot_sound s rows (wd_blocks (bs_world y))"
      "loadBlockVerdict BlockLedger edge v kind (bs_world y) = (Some (evaluateBlock (block_snapshot s rows) v kind), bs_world y)"
    | (ledger) "loadBlockVerdict BlockLedger edge v kind (bs_world y) = read_block (json_number v) kind (bs_world y)"
proof -
  let ?w = "bs_world y"
  obtain get where get: "m_get (pg_AppKv ns) = Some get" by (simp add: pg_AppKv_def)
  have kv: "appKv (ee_control edge) = Inr (Some (pg_AppKv ns))" and now: "ee_now edge = bs_now y"
    using e appKv_native [OF pg_challenges.complete] by (simp_all add: native_edge_def)
  have load: "loadBlockVerdict BlockLedger edge v kind ?w =
      (let snapshot = read_snapshot (Some (pg_AppKv ns)) (bs_now y) ?w
       in if snapshot_valid snapshot then (Some (evaluateBlock snapshot v kind), ?w) else read_block (json_number v) kind ?w)"
    using n kv now by (simp add: loadBlockVerdict_def Let_def)
  show thesis
  proof (cases "\<exists>stored. get BLOCKLIST_KV_KEY (bs_now y) (wd_kv ?w) = Inr (Some stored)")
    case True
    then obtain stored where st: "the (m_get (pg_AppKv ns)) BLOCKLIST_KV_KEY (bs_now y) (wd_kv ?w) = Inr (Some stored)" using get by auto
    have d: "keys_distinct (wd_kv ?w)" using inv by (simp add: block_inv_def ledger_inv_def)
    obtain x where x: "pg_peek ns (wd_kv ?w) BLOCKLIST_KV_KEY = Some (stored, x)" "\<forall>t. x = Some t \<longrightarrow> bs_now y div 1000 < t"
      using native_get_live [OF d st] by blast
    then obtain s rows where s: "s \<le> bs_now y" "x = Some (s div 1000 + 60)" "JSON_parse stored = Some (block_snapshot s rows)"
        "\<forall>b\<in>set rows. ledger_row_ok s b" "snapshot_sound s rows (wd_blocks ?w)"
      using inv unfolding block_inv_def ledger_inv_def stored_snapshot_def by blast
    have "bs_now y div 1000 < s div 1000 + 60" using x(2) s(2) by simp
    then have young: "bs_now y < s + 61000" by linarith
    have "read_snapshot (Some (pg_AppKv ns)) (bs_now y) ?w = block_snapshot s rows"
      using st get s(3) snapshot_of_rows_valid(2) [OF s(4)] by (simp add: read_snapshot_def)
    then show thesis using snapshot [OF s(1) young s(5)] load snapshot_of_rows_valid(1) [OF s(4)] by (simp add: Let_def)
  next
    case False
    then have "read_snapshot (Some (pg_AppKv ns)) (bs_now y) ?w = JNull"
      using get by (auto simp: read_snapshot_def split: sum.split option.split)
    then show thesis using ledger load by (simp add: snapshot_valid_def)
  qed
qed


definition sample_block_body :: "(string \<times> json) list" where
  "sample_block_body = [(''account_id'', JInt 7), (''account_kind'', JStr ''github''), (''reason_code'', JStr ''abuse_manual'')]"

definition sample_block_request :: alert_request where
  "sample_block_request =
     \<lparr>rq_method = ''POST'', rq_pathname = [], rq_headers = [(API_KEY_BLOCK_TOKEN_HEADER, ''b'')],
      rq_raw = the (json_stringify (JObj sample_block_body))\<rparr>"

lemma sample_body_read: "readAccountRouteBody sample_block_request = Inr (JObj sample_block_body)"
proof -
  have "kept_by_json (JObj sample_block_body)" by (simp add: sample_block_body_def js_int_def MAX_SAFE_def)
  then obtain t where t: "json_stringify (JObj sample_block_body) = Some t" "JSON_parse t = Some (JObj sample_block_body)"
    by (rule json_parse_stringify)
  have "t = the (json_stringify (JObj sample_block_body))" using t(1) by simp
  moreover have "utf8Bytes (the (json_stringify (JObj sample_block_body))) \<le> ACCOUNT_ROUTES_MAX_BODY_BYTES" by code_simp
  moreover have "t \<noteq> []" using t(1) by auto
  moreover have "\<not> num_lt (js_int (int ACCOUNT_ROUTES_MAX_BODY_BYTES)) (Fin 0)"
    by (simp add: ACCOUNT_ROUTES_MAX_BODY_BYTES_def js_int_def num_lt_def)
  ultimately show ?thesis using t
    by (simp add: readAccountRouteBody_def sample_block_request_def header_def API_KEY_BLOCK_TOKEN_HEADER_def Let_def del: json_stringify.simps)
qed

lemma put_snapshot_rest [simp]:
  "wd_blocks (put_snapshot env snap w) = wd_blocks w" "wd_faults (put_snapshot env snap w) = wd_faults w"
  by (simp_all add: put_snapshot_def split: sum.split option.split)

definition sample_blocked :: account_world where
  "sample_blocked = snd (handleApiKeyBlock sample_block_request ''b'' sample_account_env sample_account_world)"

lemma sample_blocked_rows:
  "wd_faults sample_blocked = [] \<and> (\<exists>b. wd_blocks sample_blocked = [b] \<and> block_of Github (js_int 7) b \<and> bk_blocked_at b = 0 \<and> bk_reason_code b = ''abuse_manual'')"
  by (simp add: sample_blocked_def handleApiKeyBlock_def requireBlockToken_def sample_body_read timingSafeEqual_iff Let_def)
    (simp add: sample_block_request_def header_def sample_block_body_def requested_kind_def asAccountKind_def account_number_ok_def isBlockReasonCode_def
      BLOCK_REASON_CODES_def withAccountsSql_def a_bind_def a_return_def insert_block_def a_statement_def sample_account_world_def sample_account_env_def
      refreshBlocklistSnapshot_def select_active_def block_of_def active_block_def js_int_def Let_def)


section \<open>A block of the other identity system\<close>

text \<open>
  The status a wallet account is shown looks at its number alone: a block of the GitHub account of that
  number is shown as its own, while no request of it is refused.
\<close>

lemma status_shows_other_kind:
  assumes "requireAccountSession rq env = Inr (n, ss58)" and "ae_store_bound env" and "wd_faults w = []"
    and "wd_blocks w = [b]" and "block_of Github n b" and "account_number_ok n"
  shows "get_prop (rs_body (fst (handleAccountKeyStatus rq env w))) ''blocked'' = JVal (VBool True) \<and>
    map_option blocked (fst (read_block n Rpc w)) = Some False"
  using assms
  by (simp add: handleAccountKeyStatus_def withAccountsSql_def a_bind_def a_return_def a_statement_def read_block_def block_of_def active_block_def
      writeJson_def evaluateBlock_def NOT_BLOCKED_def Let_def)

end
