(* ===== verification/Gate_Laws.thy ===== *)
theory Gate_Laws
  imports Rate_Gate Block_Laws
begin

text \<open>
  What passing the gate costs: a refused request is charged nothing, a blocked one is not even counted,
  and an account is only ever charged for a request of its own that was let through, within its budget.
\<close>

section \<open>What leaves the quota alone\<close>

lemma faultless_statement:
  assumes "wd_faults w = []"
  shows "a_statement f w = (case f w of None \<Rightarrow> (None, w) | Some (x, w') \<Rightarrow> (Some x, w'))"
proof -
  have "w\<lparr>wd_faults := tl (wd_faults w)\<rparr> = w" using assms by (cases w) simp
  then show ?thesis using assms by (simp only: a_statement_def Let_def) simp
qed

interpretation quota_frame: kept_relation "\<lambda>w w'. wd_quota w' = wd_quota w"
  by unfold_locales simp_all

abbreviation keeps_quota :: "'a asql \<Rightarrow> bool" where
  "keeps_quota \<equiv> keeping (\<lambda>w w'. wd_quota w' = wd_quota w)"

lemma quota_ledger_read [simp]: "keeps_quota (readApiKeyLedgerState i v)"
  by (auto simp: readApiKeyLedgerState_def intro!: quota_frame.keeping_statement)

lemma quota_guarded: "keeps_quota (guarded_verdict env result i)"
  unfolding guarded_verdict_def
proof (rule quota_frame.keeping_bind [OF quota_ledger_read])
  have "keeps_quota (update_keys P f)" for P f by (auto simp: update_keys_def intro!: quota_frame.keeping_statement)
  then have "wd_quota (touch_key i now w) = wd_quota w" for now w by (simp add: touch_key_def keeping_def)
  then show "keeps_quota (if state \<noteq> Active \<and> state \<noteq> Unmanaged then a_return (invalid_key (JStr (if state = Denied then ''NOT_FOUND'' else ''DISABLED'')))
      else (\<lambda>w. a_return (valid_response result i (state = Active)) (if state = Active then touch_key i (ae_now env) w else w)))" for state
    by (simp add: keeping_def a_return_def)
qed

lemma quota_verify: "wd_quota (snd (handleApiKeyVerify rq env w)) = wd_quota w"
  unfolding handleApiKeyVerify_def
  by (auto split: option.split sum.split json.split jsval.split intro!: quota_frame.keeping_with_sql quota_guarded)

lemma quota_state: "wd_quota (snd (handleApiKeyState rq env w)) = wd_quota w"
  unfolding handleApiKeyState_def
  by (auto split: option.split sum.split json.split jsval.split intro!: quota_frame.keeping_with_sql quota_frame.keeping_bind)

lemma quota_check: "wd_quota (snd (checkCachedApiKey env record w)) = wd_quota w"
  using quota_state by (auto simp: checkCachedApiKey_def Let_def case_prod_beta split: option.split)

lemma quota_lookup: "wd_quota (snd (lookupViaDataApi env raw w)) = wd_quota w"
  using quota_verify by (auto simp: lookupViaDataApi_def Let_def case_prod_beta split: option.split)

lemma quota_write: "wd_quota (write_cached env kv key p w) = wd_quota w"
  by (auto simp: write_cached_def case_prod_beta split: option.split sum.split)

lemma quota_lookup_key: "wd_quota (snd (lookupApiKey env raw w)) = wd_quota w"
proof (cases "appKv (ee_control env)")
  case (Inr kv)
  obtain checked w1 where c: "(case read_cached env kv (cacheKeyFor (ee_sha256Hex env raw)) w of None \<Rightarrow> (None, w)
      | Some cached \<Rightarrow> checkCachedApiKey env cached w) = (checked, w1)" by force
  then have "wd_quota w1 = wd_quota w"
    using quota_check [of env] by (cases "read_cached env kv (cacheKeyFor (ee_sha256Hex env raw)) w") (simp_all, metis snd_conv)
  then show ?thesis using Inr c quota_lookup [of env raw w1] quota_write
    by (cases checked; cases "lookupViaDataApi env raw w1") (simp_all add: lookupApiKey_def Let_def)
qed (simp add: lookupApiKey_def)

lemma quota_validate: "wd_quota (snd (validateApiKey env v w)) = wd_quota w"
  using quota_lookup_key by (auto simp: validateApiKey_def case_prod_beta split: option.split) 

lemma quota_verdict: "wd_quota (snd (loadBlockVerdict authority env v kind w)) = wd_quota w"
proof -
  have "keeps_quota (read_block n kind)" for n by (auto simp: read_block_def intro!: quota_frame.keeping_statement)
  then show ?thesis by (auto simp: loadBlockVerdict_def keeping_def Let_def split: sum.split)
qed

section \<open>One spend\<close>

definition charged :: "AccountKind \<Rightarrow> jsnum \<Rightarrow> int \<Rightarrow> int \<Rightarrow> int \<Rightarrow> quota_row list \<Rightarrow> quota_row list \<Rightarrow> bool" where
  "charged kind n cost units now rows rows' \<longleftrightarrow>
     units_spent kind n (utcDayKey now) rows + cost \<le> units \<and>
     rows' = store_units kind n (utcDayKey now) (units_spent kind n (utcDayKey now) rows + cost) now rows"

lemma quota_spend_law:
  assumes "quota_spend kind n cost cap now w = (x, w')"
  shows "(wd_quota w' = wd_quota w \<and> (\<forall>r. x = Some r \<longrightarrow> \<not> allowed r)) \<or> (wd_quota w' = wd_quota w \<and> x = None) \<or>
    (\<exists>r. x = Some r \<and> allowed r \<and> charged kind n cost cap now (wd_quota w) (wd_quota w'))"
  using assms
  by (auto simp: quota_spend_def a_return_def a_statement_def applyQuotaSpend_def charged_def Let_def split: if_splits)

lemma spend_route_law:
  assumes h: "handleApiQuotaSpend wide rq env w = (response, w')"
    and body: "Option.bind (JSON_parse (rq_raw rq)) recordOrNull = Some body"
    and n: "json_number (get_prop body ''account_id'') = n" and kind: "requested_kind body = Some kind"
    and cost: "json_number (get_prop body ''cost'') = js_int c" "is_safe_integer (js_int c)"
    and cap: "json_number (get_prop body ''limit'') = js_int u" "is_safe_integer (js_int u)"
  shows "(wd_quota w' = wd_quota w \<and> get_prop (rs_body response) ''allowed'' \<noteq> JVal (VBool True)) \<or>
    (get_prop (rs_body response) ''allowed'' = JVal (VBool True) \<and> charged kind n c u (ae_now env) (wd_quota w) (wd_quota w'))"
proof -
  have e: "get_prop (rs_body (error_json m k)) ''allowed'' \<noteq> JVal (VBool True)" for m k by (simp add: error_json_def writeJson_def)
  have q: "get_prop (rs_body (writeJson (quota_json r) k)) ''allowed'' = JVal (VBool (allowed r))" for r k
    by (simp add: writeJson_def quota_json_def)
  show ?thesis
  proof (cases "ae_lookup_token env = [] \<or> header rq API_KEY_LOOKUP_TOKEN_HEADER \<noteq> ae_lookup_token env \<or>
      \<not> account_number_ok n \<or> num_lt (js_int c) (Fin 0) \<or> num_le (js_int u) (Fin 0)")
    case True
    then have "(\<exists>m k. response = error_json m k) \<and> w' = w"
      using h body n kind cost cap by (auto simp: handleApiQuotaSpend_def quota_fields_missing_def Let_def split: if_splits)
    then show ?thesis using e by auto
  next
    case False
    note pass = False
    show ?thesis
    proof (cases "u < c")
      case True
      then have "response = writeJson (quota_json (applyQuotaSpend 0 c u (ae_now env))) 200" "w' = w"
        using h body n kind cost cap pass by (auto simp: handleApiQuotaSpend_def Let_def)
      then show ?thesis using True q by (simp add: applyQuotaSpend_def Let_def)
    next
      case False
      then have s: "withAccountsSql env (a_bind (quota_spend kind n c u (ae_now env)) (\<lambda>r. a_return (writeJson (quota_json r) 200))) w = (response, w')"
        using h body n kind cost cap pass by (simp add: handleApiQuotaSpend_def Let_def)
      show ?thesis
      proof (cases "ae_store_bound env")
        case True
        obtain x w1 where x: "quota_spend kind n c u (ae_now env) w = (x, w1)" by force
        have "w' = w1 \<and> (case x of None \<Rightarrow> response = error_json ''write failed'' 502 | Some r \<Rightarrow> response = writeJson (quota_json r) 200)"
          using s True x by (cases x) (simp_all add: withAccountsSql_def a_bind_def a_return_def)
        then show ?thesis using quota_spend_law [OF x] e q by (cases x) auto
      next
        case False
        then show ?thesis using s e by (auto simp: withAccountsSql_def)
      qed
    qed
  qed
qed

text \<open>A charge: the account, its kind, what the request costs and the budget of its tier.\<close>

definition charge_of :: "gate_env \<Rightarrow> gate_request \<Rightarrow> gate_options \<Rightarrow> TieredRateLimitResult \<Rightarrow> quota_row list \<Rightarrow> quota_row list \<Rightarrow> bool" where
  "charge_of env rq opts r rows rows' \<longleftrightarrow>
     (\<exists>a units data. gt_account r = Some a \<and> dailyUnits (gt_policy r) = Some units \<and> ee_data (ge_edge env) = Some data \<and>
        charged (gt_kind r) (string_to_number a) (cost_weight (costUnits opts) (gr_pathname rq)) units (ae_now data) rows rows')"

definition whole_amounts :: "TieredRateLimitConfig \<Rightarrow> gate_request \<Rightarrow> gate_options \<Rightarrow> TieredRateLimitResult \<Rightarrow> bool" where
  "whole_amounts config rq opts r \<longleftrightarrow>
     is_safe_integer (js_int (cost_weight (costUnits opts) (gr_pathname rq))) \<and>
     (\<forall>a. gt_account r = Some a \<longrightarrow> is_safe_integer (string_to_number a)) \<and>
     (\<forall>units. dailyUnits (gt_policy r) = Some units \<longrightarrow> is_safe_integer (js_int units))"

lemma spend_daily_law:
  assumes sp: "spendDailyQuota wide env path a kind units override w = (q, w')"
    and whole: "is_safe_integer (js_int (cost_weight override path))" "is_safe_integer (string_to_number a)" "is_safe_integer (js_int units)"
  shows "wd_quota w' = wd_quota w \<and> (\<forall>v. q = Some v \<longrightarrow> get_prop v ''allowed'' \<noteq> JVal (VBool True)) \<or>
    (\<exists>data. ee_data (ge_edge env) = Some data \<and> (\<forall>v. q = Some v \<longrightarrow> get_prop v ''allowed'' = JVal (VBool True)) \<and>
       charged kind (string_to_number a) (cost_weight override path) units (ae_now data) (wd_quota w) (wd_quota w'))"
proof (cases "ee_data (ge_edge env) = None \<or> ee_token (ge_edge env) = [] \<or> \<not> ge_quota_reached env")
  case True
  then have "q = None \<and> w' = w" using sp by (auto simp: spendDailyQuota_def split: option.splits if_splits)
  then show ?thesis by simp
next
  case False
  then obtain data where d: "ee_data (ge_edge env) = Some data" "ee_token (ge_edge env) \<noteq> []" "ge_quota_reached env" by auto
  let ?kvs = "[(''account_id'', JVal (VNum (string_to_number a))), (''account_kind'', JStr (kind_text kind)),
    (''cost'', JInt (cost_weight override path)), (''limit'', JInt units)]"
  let ?rq = "internal_request (ee_token (ge_edge env)) (JObj ?kvs)"
  have "kept_by_json (JObj ?kvs)" using whole by simp
  then obtain t where t: "json_stringify (JObj ?kvs) = Some t" "JSON_parse t = Some (JObj ?kvs)" by (rule json_parse_stringify)
  have "rq_raw ?rq = t" using t(1) by (simp add: internal_request_def del: json_stringify.simps)
  then have body: "Option.bind (JSON_parse (rq_raw ?rq)) recordOrNull = Some (JObj ?kvs)" using t(2) by (simp add: recordOrNull_def)
  have kind: "requested_kind (JObj ?kvs) = Some kind" by (cases kind) (simp_all add: requested_kind_def asAccountKind_def kind_text_def)
  obtain response w1 where h: "handleApiQuotaSpend wide ?rq data w = (response, w1)" by force
  have res: "w' = w1" "q = None \<or> q = Some (rs_body response)"
    using sp d h by (auto simp: spendDailyQuota_def simp del: json_stringify.simps split: if_splits)
  from spend_route_law [OF h body _ kind _ whole(1) _ whole(3), of "string_to_number a"] d(1) res show ?thesis by auto
qed

lemma budget_law:
  assumes b: "gate_budget wide env rq opts r0 g = (r, g')" and "gt_allowed r0" and "whole_amounts config rq opts r0"
  shows "gt_account r = gt_account r0 \<and> gt_policy r = gt_policy r0 \<and> gt_kind r = gt_kind r0 \<and> gt_block r = gt_block r0 \<and>
    (wd_quota (gw_world g') = wd_quota (gw_world g) \<or> gt_allowed r \<and> charge_of env rq opts r (wd_quota (gw_world g)) (wd_quota (gw_world g')))"
proof (cases "gt_account r0 = None \<or> dailyUnits (gt_policy r0) = None \<or> dailyUnits (gt_policy r0) = Some 0 \<or> deferQuota opts")
  case True
  then have "wd_quota (gw_world g') = wd_quota (gw_world g)" "gt_account r = gt_account r0" "gt_policy r = gt_policy r0" "gt_kind r = gt_kind r0" "gt_block r = gt_block r0"
    using b by (auto simp: gate_budget_def split: option.splits if_splits)
  then show ?thesis by simp
next
  case False
  then obtain a units where k: "gt_account r0 = Some a" "dailyUnits (gt_policy r0) = Some units" "units \<noteq> 0" "\<not> deferQuota opts" by auto
  obtain q w where q: "spendDailyQuota wide env (gr_pathname rq) a (gt_kind r0) units (costUnits opts) (gw_world g) = (q, w)" by force
  have whole: "is_safe_integer (js_int (cost_weight (costUnits opts) (gr_pathname rq)))" "is_safe_integer (string_to_number a)" "is_safe_integer (js_int units)"
    using assms(3) k by (simp_all add: whole_amounts_def)
  note law = spend_daily_law [OF q whole]
  have g': "gw_world g' = w" and r: "r = (case q of None \<Rightarrow> r0 | Some v \<Rightarrow> if get_prop v ''allowed'' = JVal (VBool True) then r0\<lparr>gt_quota := Some v\<rparr>
      else r0\<lparr>gt_allowed := False, gt_quota := Some v\<rparr>)"
    using b k q by (auto simp: gate_budget_def split: option.splits)
  have same: "gt_account r = gt_account r0" "gt_policy r = gt_policy r0" "gt_kind r = gt_kind r0" "gt_block r = gt_block r0"
    by (simp_all add: r split: option.split)
  have "gt_allowed r" if "\<forall>v. q = Some v \<longrightarrow> get_prop v ''allowed'' = JVal (VBool True)"
    using that assms(2) by (simp add: r split: option.split)
  then show ?thesis using law same k by (auto simp: g' charge_of_def)
qed

text \<open>What the gate does for an identity.\<close>

lemma limiter_world: "call_limiter env binding key g = (x, g') \<Longrightarrow> gw_world g' = gw_world g"
  by (auto simp: call_limiter_def split: option.splits)

lemma identified_law:
  assumes gi: "gate_identified wide env config rq opts i g = (Some r, g')" and whole: "whole_amounts config rq opts r"
  shows "gt_account r = gi_account i \<and> gt_kind r = gi_kind i \<and> gt_policy r = tier_policy config (gi_tier i) \<and>
    (gt_block r \<noteq> None \<longrightarrow> \<not> gt_allowed r \<and> gw_calls g' = gw_calls g) \<and>
    (\<forall>verdict w. loadBlockVerdict (ge_authority env) (ge_edge env) (case gi_account i of None \<Rightarrow> JNull | Some a \<Rightarrow> JStr a) (gi_kind i) (gw_world g) = (Some verdict, w) \<longrightarrow>
       (gt_block r = (if blocked verdict then Some verdict else None))) \<and>
    (wd_quota (gw_world g') = wd_quota (gw_world g) \<or> gt_allowed r \<and> charge_of env rq opts r (wd_quota (gw_world g)) (wd_quota (gw_world g')))"
proof -
  let ?r = "gate_result config i" and ?v = "case gi_account i of None \<Rightarrow> JNull | Some a \<Rightarrow> JStr a"
  obtain verdict w where l: "loadBlockVerdict (ge_authority env) (ge_edge env) ?v (gi_kind i) (gw_world g) = (Some verdict, w)"
    using gi by (auto simp: gate_identified_def Let_def split: prod.splits option.splits)
  have w: "wd_quota w = wd_quota (gw_world g)" using quota_verdict [of "ge_authority env" "ge_edge env" ?v "gi_kind i" "gw_world g"] l by simp
  show ?thesis
  proof (cases "blocked verdict")
    case True
    then have "r = ?r\<lparr>gt_allowed := False, gt_block := Some verdict\<rparr>" "g' = g\<lparr>gw_world := w\<rparr>"
      using gi l by (simp_all add: gate_identified_def Let_def)
    then show ?thesis using l w True by (simp add: gate_result_def)
  next
    case False
    obtain x g1 where c: "call_limiter env (envVar (gt_policy ?r)) (limiter_key config rq opts i) (g\<lparr>gw_world := w\<rparr>) = (x, g1)" by force
    have g1: "wd_quota (gw_world g1) = wd_quota (gw_world g)" using limiter_world [OF c] w by simp
    consider "x = Some False" "r = ?r\<lparr>gt_allowed := False\<rparr>" "g' = g1" | "gate_budget wide env rq opts ?r g1 = (r, g')"
      using gi l c False
      by (cases x; cases "the x"; cases "gate_budget wide env rq opts ?r g1") (auto simp: gate_identified_def Let_def)
    then show ?thesis
    proof cases
      case 1
      then show ?thesis using l False g1 by (simp add: gate_result_def)
    next
      case 2
      have "gt_account r = gt_account ?r \<and> gt_policy r = gt_policy ?r"
        using 2 by (auto simp: gate_budget_def split: option.splits if_splits prod.splits)
      then have "whole_amounts config rq opts ?r" using whole by (simp add: whole_amounts_def)
      from budget_law [OF 2 _ this] show ?thesis using l False g1 by (simp add: gate_result_def)
    qed
  qed
qed


lemma read_block_faultless:
  assumes "account_number_ok n" and "wd_faults w = []"
  shows "read_block n kind w = (Some (case List.find (block_of kind n) (wd_blocks w) of
      None \<Rightarrow> evaluateBlock JNull (JVal (VNum n)) kind
    | Some b \<Rightarrow> evaluateBlock (JObj [(''blocks'', JArr [JObj [(''accountId'', JVal (VNum n)), (''accountKind'', JStr (kind_text kind)),
        (''reasonCode'', JStr (bk_reason_code b))]])]) (JVal (VNum n)) kind), w)"
  using assms by (simp add: read_block_def faultless_statement)

definition sample_github_block :: account_block where
  "sample_github_block =
     \<lparr>bk_id = 1, bk_kind = Github, bk_account_id = js_int 7, bk_reason_code = ''abuse_scraping'', bk_note = None, bk_blocked_at = 0,
      bk_blocked_by = None, bk_unblocked_at = None, bk_unblocked_note = None\<rparr>"

definition sample_gate_env :: gate_env where
  "sample_gate_env =
     \<lparr>ge_edge = sample_edge_env\<lparr>ee_control := None\<rparr>, ge_authority = BlockLedger, ge_limiter = (\<lambda>_. Some (\<lambda>_. Some True)), ge_quota_reached = True\<rparr>"

definition sample_gate_request :: gate_request where
  "sample_gate_request = \<lparr>gr_authorization = [], gr_connecting_ip = ''192.0.2.1'', gr_pathname = ''/mcp'', gr_paid = None\<rparr>"

definition sample_gate_options :: gate_options where
  "sample_gate_options = \<lparr>costUnits = Some (js_int 25), deferQuota = False, oauthIdentity = Some (js_int 7, ''paid''), paidIdentity = None\<rparr>"


end
