(* ===== verification/Account_Meters.thy ===== *)
theory Account_Meters
  imports Rate_Gate
begin

text \<open>
  The meters of an account: the counters of its requests by day and route and the dashboard that shows
  them (\<open>workers/data-api.ts\<close>, \<open>src/account-usage-pg.ts\<close>, \<open>src/account-usage-read-pg.ts\<close>), the accounts
  of GitHub callers, and the tier such a caller is resolved to at the edge (\<open>src/oauth-account-tier.ts\<close>).
  Counters are whole numbers.
\<close>

section \<open>GitHub accounts\<close>

definition github_number :: "github_account \<Rightarrow> jsnum" where
  "github_number a = js_int (int (gh_id a))"

definition upsert_github :: "jsnum \<Rightarrow> string \<Rightarrow> int \<Rightarrow> github_account asql" where
  "upsert_github user login now = a_statement (\<lambda>w.
     case List.find (\<lambda>a. gh_user_id a = user) (wd_github w) of
       Some a \<Rightarrow> Some (a\<lparr>gh_login := login, gh_last_login_at := now\<rparr>,
         w\<lparr>wd_github := map (\<lambda>b. if gh_user_id b = user then b\<lparr>gh_login := login, gh_last_login_at := now\<rparr> else b) (wd_github w)\<rparr>)
     | None \<Rightarrow>
         let a = \<lparr>gh_id = wd_next_github w, gh_user_id = user, gh_login = login, gh_tier = ''free'', gh_created_at = now, gh_last_login_at = now\<rparr>
         in Some (a, w\<lparr>wd_github := wd_github w @ [a], wd_next_github := Suc (wd_next_github w)\<rparr>))"

definition handleGithubAccountUpsert :: account_handler where
  "handleGithubAccountUpsert rq env w =
     (case require_internal rq (ae_lookup_token env) API_KEY_LOOKUP_TOKEN_HEADER ''github account upsert is not provisioned on this deployment'' of
        Some r \<Rightarrow> (r, w)
      | None \<Rightarrow>
          (case readAccountRouteBody rq of
             Inl r \<Rightarrow> (r, w)
           | Inr body \<Rightarrow>
               (case (get_prop body ''github_user_id'', get_prop body ''github_login'') of
                  (JVal (VNum user), JVal (VStr login)) \<Rightarrow>
                    if \<not> is_integer_num user \<or> login = [] then (error_json ''github_user_id (integer) and github_login (string) are required'' 400, w)
                    else withAccountsSql env
                      (a_bind (upsert_github user login (ae_now env)) (\<lambda>a.
                       a_return (writeJson (JObj [(''id'', JVal (VNum (github_number a))), (''github_login'', JStr (gh_login a)), (''tier'', JStr (gh_tier a))]) 200))) w
                | _ \<Rightarrow> (error_json ''github_user_id (integer) and github_login (string) are required'' 400, w))))"

definition handleGithubAccountTier :: account_handler where
  "handleGithubAccountTier rq env w =
     (case require_internal rq (ae_lookup_token env) API_KEY_LOOKUP_TOKEN_HEADER ''github account lookup is not provisioned on this deployment'' of
        Some r \<Rightarrow> (r, w)
      | None \<Rightarrow>
          (case readAccountRouteBody rq of
             Inl r \<Rightarrow> (r, w)
           | Inr body \<Rightarrow>
               let n = json_number (get_prop body ''account_id'')
               in if \<not> account_number_ok n then (writeJson not_found 200, w)
                  else withAccountsSql env
                    (a_bind (a_statement (\<lambda>w. Some (List.find (\<lambda>a. github_number a = n) (wd_github w), w))) (\<lambda>row.
                     a_return (case row of
                       None \<Rightarrow> writeJson not_found 200
                     | Some a \<Rightarrow> writeJson (JObj [(''found'', JVal (VBool True)), (''tier'', JStr (gh_tier a))]) 200))) w))"

section \<open>The tier of a GitHub caller\<close>

definition OAUTH_CACHE_POLICY :: AuthLookupCachePolicy where
  "OAUTH_CACHE_POLICY = \<lparr>positiveTtlSeconds = 300, negativeTtlSeconds = 30\<rparr>"

definition oauthAccountIdFrom :: "json \<Rightarrow> int option" where
  "oauthAccountIdFrom v =
     (let n = (case v of
                 JVal (VStr s) \<Rightarrow> if s \<noteq> [] \<and> list_all is_digit s then string_to_number s else NaN
               | JVal (VNum x) \<Rightarrow> x
               | _ \<Rightarrow> NaN)
      in if is_safe_integer n \<and> 0 < num_int n then Some (num_int n) else None)"

definition oauth_cache_key :: "int \<Rightarrow> string" where
  "oauth_cache_key accountId = ''oauth-account-tier:v2:'' @ string_of_int accountId"

definition account_is_missing :: json where
  "account_is_missing = JObj [(''found'', JVal (VBool False)), (''accountMissing'', JVal (VBool True))]"

text \<open>The data worker's answer; whether the call gets through is the edge's second flag.\<close>

definition oauth_lookup :: "edge_env \<Rightarrow> int \<Rightarrow> account_world \<Rightarrow> json \<times> account_world" where
  "oauth_lookup env accountId w =
     (case ee_data env of
        None \<Rightarrow> (not_found, w)
      | Some data \<Rightarrow>
          if ee_token env = [] \<or> \<not> ee_verify_reached env then (not_found, w)
          else (case handleGithubAccountTier (internal_request (ee_token env) (JObj [(''account_id'', JInt accountId)])) data w of
             (upstream, w') \<Rightarrow>
               if \<not> (200 \<le> rs_status upstream \<and> rs_status upstream \<le> 299) then (not_found, w')
               else let record = rs_body upstream
                    in if get_prop record ''found'' = JVal (VBool True)
                       then (JObj [(''found'', JVal (VBool True)), (''tier'', or_json_null (get_prop record ''tier''))], w')
                       else if get_prop record ''found'' = JVal (VBool False) then (account_is_missing, w') else (not_found, w')))"

definition without :: "string \<Rightarrow> json \<Rightarrow> json" where
  "without key v = (case v of JObj kvs \<Rightarrow> JObj (filter (\<lambda>kv. fst kv \<noteq> key) kvs) | _ \<Rightarrow> v)"

definition cached_resolution :: "json \<Rightarrow> json" where
  "cached_resolution cached =
     (if is_found cached then without ''accountMissing'' cached
      else if get_prop cached ''accountMissing'' = JVal (VBool True) then account_is_missing else not_found)"

definition read_tier_cache :: "edge_env \<Rightarrow> kv_entry list AppKv option \<Rightarrow> string \<Rightarrow> account_world \<Rightarrow> json option" where
  "read_tier_cache env kv key w =
     (case kv of
        None \<Rightarrow> None
      | Some k \<Rightarrow>
          (case m_get k of
             None \<Rightarrow> None
           | Some get \<Rightarrow>
               (case get key (ee_now env) (wd_kv w) of
                  Inr (Some stored) \<Rightarrow> Option.bind (JSON_parse stored) (readAuthLookupCache OAUTH_CACHE_POLICY (ee_now env))
                | _ \<Rightarrow> None)))"

definition write_tier_cache :: "edge_env \<Rightarrow> kv_entry list AppKv option \<Rightarrow> string \<Rightarrow> json \<Rightarrow> account_world \<Rightarrow> account_world" where
  "write_tier_cache env kv key payload w =
     (case kv of
        None \<Rightarrow> w
      | Some k \<Rightarrow>
          (case m_put k of
             None \<Rightarrow> w
           | Some put \<Rightarrow>
               (case authLookupCacheWrite OAUTH_CACHE_POLICY (ee_now env) payload of
                  (value, ttl) \<Rightarrow> (case put key value (nat ttl) (ee_now env) (wd_kv w) of Inl _ \<Rightarrow> w | Inr kv' \<Rightarrow> w\<lparr>wd_kv := kv'\<rparr>))))"

definition resolveOAuthAccountTierWithStatus :: "edge_env \<Rightarrow> json \<Rightarrow> account_world \<Rightarrow> json option \<times> account_world" where
  "resolveOAuthAccountTierWithStatus env rawAccountId w =
     (case oauthAccountIdFrom rawAccountId of
        None \<Rightarrow> (Some not_found, w)
      | Some accountId \<Rightarrow>
          (case appKv (ee_control env) of
             Inl _ \<Rightarrow> (None, w)
           | Inr kv \<Rightarrow>
               (case read_tier_cache env kv (oauth_cache_key accountId) w of
                  Some cached \<Rightarrow> (Some (cached_resolution cached), w)
                | None \<Rightarrow>
                    (case oauth_lookup env accountId w of
                       (payload, w') \<Rightarrow> (Some payload, write_tier_cache env kv (oauth_cache_key accountId) payload w')))))"

definition resolveOAuthAccountTier :: "edge_env \<Rightarrow> json \<Rightarrow> account_world \<Rightarrow> json option \<times> account_world" where
  "resolveOAuthAccountTier env rawAccountId w =
     (case resolveOAuthAccountTierWithStatus env rawAccountId w of (r, w') \<Rightarrow> (map_option (without ''accountMissing'') r, w'))"

section \<open>Counting requests\<close>

definition usage_at :: "AccountKind \<Rightarrow> jsnum \<Rightarrow> string \<Rightarrow> string \<Rightarrow> usage_row \<Rightarrow> bool" where
  "usage_at kind n day route u \<longleftrightarrow> us_kind u = kind \<and> us_account_id u = n \<and> us_day u = day \<and> us_route u = route"

definition bump :: "bool \<Rightarrow> usage_row \<Rightarrow> usage_row" where
  "bump rejected u =
     u\<lparr>us_request_count := us_request_count u + (if rejected then 0 else 1), us_rejected_count := us_rejected_count u + (if rejected then 1 else 0)\<rparr>"

definition count_request :: "AccountKind \<Rightarrow> jsnum \<Rightarrow> string \<Rightarrow> string \<Rightarrow> bool \<Rightarrow> usage_row list \<Rightarrow> usage_row list" where
  "count_request kind n day route rejected rows =
     (if list_ex (usage_at kind n day route) rows
      then map (\<lambda>u. if usage_at kind n day route u then bump rejected u else u) rows
      else rows @ [bump rejected \<lparr>us_kind = kind, us_account_id = n, us_day = day, us_route = route, us_request_count = 0, us_rejected_count = 0\<rparr>])"

definition increment_usage :: "AccountKind \<Rightarrow> jsnum \<Rightarrow> string \<Rightarrow> string \<Rightarrow> bool \<Rightarrow> unit asql" where
  "increment_usage kind n day route rejected = a_statement (\<lambda>w. Some ((), w\<lparr>wd_usage := count_request kind n day route rejected (wd_usage w)\<rparr>))"

definition handleApiKeyUsageIncrement :: account_handler where
  "handleApiKeyUsageIncrement rq env w =
     (case require_internal rq (ae_lookup_token env) API_KEY_LOOKUP_TOKEN_HEADER ''api-key usage recording is not provisioned on this deployment'' of
        Some r \<Rightarrow> (r, w)
      | None \<Rightarrow>
          (case readAccountRouteBody rq of
             Inl r \<Rightarrow> (r, w)
           | Inr body \<Rightarrow>
               let n = json_number (get_prop body ''account_id''); route = take 128 (body_text body ''route'');
                   rejected = (get_prop body ''rejected'' = JVal (VBool True))
               in case requested_kind body of
                    None \<Rightarrow> (error_json ''provide account_id, route and a known account_kind'' 400, w)
                  | Some kind \<Rightarrow>
                      if \<not> is_finite_num n \<or> route = [] then (error_json ''provide account_id, route and a known account_kind'' 400, w)
                      else (writeJson (JObj [(''ok'', JVal (VBool True))]) 200,
                            snd (withAccountsSql env (a_bind (increment_usage kind n (utcDayKey (ae_now env)) route rejected)
                              (\<lambda>_. a_return (writeJson JNull 200))) w))))"

section \<open>The dashboard\<close>

definition USAGE_DASHBOARD_WINDOW_DAYS :: int where
  "USAGE_DASHBOARD_WINDOW_DAYS = 7"

text \<open>\<open>ORDER BY day DESC, source_row_id\<close>\<close>

definition usage_rows :: "jsnum \<Rightarrow> string \<Rightarrow> usage_row list \<Rightarrow> usage_row list" where
  "usage_rows n since rows = js_sort (\<lambda>a b. cmp_str (us_day b) (us_day a)) (filter (\<lambda>u. us_account_id u = n \<and> \<not> us_day u < since) rows)"

text \<open>A Map of counts, in the order in which its keys were first set.\<close>

type_synonym tally = "(string \<times> int \<times> int) list"

definition tally_row :: "(usage_row \<Rightarrow> string) \<Rightarrow> usage_row \<Rightarrow> tally \<Rightarrow> tally" where
  "tally_row key u t =
     (case map_of t (key u) of
        Some (served, rejected) \<Rightarrow> AList.update (key u) (served + us_request_count u, rejected + us_rejected_count u) t
      | None \<Rightarrow> AList.update (key u) (us_request_count u, us_rejected_count u) t)"

definition tally_by :: "(usage_row \<Rightarrow> string) \<Rightarrow> usage_row list \<Rightarrow> tally" where
  "tally_by key rows = foldl (\<lambda>t u. tally_row key u t) [] rows"

definition usage_json :: "string \<Rightarrow> string \<times> int \<times> int \<Rightarrow> json" where
  "usage_json label e = (case e of (k, served, rejected) \<Rightarrow> JObj [(label, JStr k), (''count'', JInt served), (''rejected'', JInt rejected)])"

definition days_of :: "usage_row list \<Rightarrow> tally" where
  "days_of rows = js_sort (\<lambda>a b. cmp_str (fst b) (fst a)) (tally_by us_day rows)"

definition routes_of :: "usage_row list \<Rightarrow> tally" where
  "routes_of rows = take 10 (js_sort (\<lambda>a b. fst (snd b) - fst (snd a)) (tally_by us_route rows))"

text \<open>The budget shown: the first row of the account's number and the day, and its tier's units.\<close>

definition quota_view :: "int \<Rightarrow> string option \<Rightarrow> quota_row option \<Rightarrow> json" where
  "quota_view now tier row =
     (case Option.bind tier (map_of TIER_DAILY_UNITS) of
        None \<Rightarrow> JNull
      | Some units \<Rightarrow>
          let spent = (case row of None \<Rightarrow> 0 | Some q \<Rightarrow> qr_units_spent q)
          in JObj [(''units_spent'', JInt spent), (''daily_units'', JInt units), (''remaining'', JInt (max 0 (units - spent))),
               (''resets_at'', JStr (quotaResetAt now))])"

text \<open>The CSV export of the days is an argument, present when it was asked for.\<close>

definition handleAccountKeyUsage :: "(tally \<Rightarrow> alert_response) option \<Rightarrow> account_handler" where
  "handleAccountKeyUsage csv rq env w =
     (case requireAccountSession rq env of
        Inl r \<Rightarrow> (r, w)
      | Inr (accountId, _) \<Rightarrow>
          let today = utcDayKey (ae_now env); since = utcDayKey (ae_now env - USAGE_DASHBOARD_WINDOW_DAYS * 24 * 60 * 60 * 1000)
          in withAccountsSql env
            (a_bind (a_statement (\<lambda>w. Some (usage_rows accountId since (wd_usage w), w))) (\<lambda>rows.
             a_bind (a_statement (\<lambda>w. Some (List.find (\<lambda>q. qr_account_id q = accountId \<and> qr_day q = today) (wd_quota w), w))) (\<lambda>quotaRow.
             a_bind (select_account accountId) (\<lambda>account.
             let days = days_of rows; tier = map_option ra_tier account
             in a_return (case csv of
                  Some export \<Rightarrow> export days
                | None \<Rightarrow> writeJson (JObj
                    [(''window_days'', JInt USAGE_DASHBOARD_WINDOW_DAYS), (''tier'', case tier of None \<Rightarrow> JNull | Some t \<Rightarrow> JStr t),
                     (''quota'', quota_view (ae_now env) tier quotaRow), (''days'', JArr (map (usage_json ''day'') days)),
                     (''top_routes'', JArr (map (usage_json ''route'') (routes_of rows))),
                     (''rejected_total'', JInt (sum_list (map (\<lambda>d. snd (snd d)) days)))]) 200))))) w)"

end
