(* ===== verification/Usage_Laws.thy ===== *)
theory Usage_Laws
  imports Account_Meters
begin

text \<open>
  What the dashboard's numbers are: the requests that were recorded, each counted once, under its day
  and its route.
\<close>

section \<open>Counters\<close>

type_synonym usage_id = "AccountKind \<times> jsnum \<times> string \<times> string"

definition usage_id :: "usage_row \<Rightarrow> usage_id" where
  "usage_id u = (us_kind u, us_account_id u, us_day u, us_route u)"

record usage_event =
  ev_kind :: AccountKind
  ev_account :: jsnum
  ev_day :: string
  ev_route :: string
  ev_rejected :: bool

definition event_id :: "usage_event \<Rightarrow> usage_id" where
  "event_id e = (ev_kind e, ev_account e, ev_day e, ev_route e)"

definition recorded :: "usage_event list \<Rightarrow> usage_row list" where
  "recorded events = foldl (\<lambda>rows e. count_request (ev_kind e) (ev_account e) (ev_day e) (ev_route e) (ev_rejected e) rows) [] events"

definition served_of :: "(usage_id \<Rightarrow> bool) \<Rightarrow> usage_row list \<Rightarrow> int" where
  "served_of P rows = sum_list (map us_request_count (filter (P \<circ> usage_id) rows))"

definition rejected_of :: "(usage_id \<Rightarrow> bool) \<Rightarrow> usage_row list \<Rightarrow> int" where
  "rejected_of P rows = sum_list (map us_rejected_count (filter (P \<circ> usage_id) rows))"

definition events_of :: "(usage_id \<Rightarrow> bool) \<Rightarrow> bool \<Rightarrow> usage_event list \<Rightarrow> int" where
  "events_of P rejected events = int (length (filter (\<lambda>e. P (event_id e) \<and> ev_rejected e = rejected) events))"

lemma usage_at_id: "usage_at kind n day route u \<longleftrightarrow> usage_id u = (kind, n, day, route)"
  by (auto simp: usage_at_def usage_id_def)

lemma bump_id [simp]: "usage_id (bump r u) = usage_id u"
  by (simp add: usage_id_def bump_def)

lemma bumped_map:
  assumes step: "\<And>u. f (bump r u) = f u + d" and "distinct (map usage_id rows)" and "i \<in> usage_id ` set rows"
  shows "sum_list (map f (filter (P \<circ> usage_id) (map (\<lambda>u. if usage_id u = i then bump r u else u) rows))) =
    (sum_list (map f (filter (P \<circ> usage_id) rows)) + (if P i then d else 0) :: int)"
  using assms(2,3)
proof (induction rows)
  case (Cons u rows)
  show ?case
  proof (cases "usage_id u = i")
    case True
    then have "i \<notin> usage_id ` set rows" using Cons.prems(1) by auto
    then have "map (\<lambda>u. if usage_id u = i then bump r u else u) rows = rows" by (intro map_idI) auto
    then show ?thesis using True step by simp
  next
    case False
    then have "i \<in> usage_id ` set rows" "distinct (map usage_id rows)" using Cons.prems by auto
    from Cons.IH [OF this(2,1)] False show ?thesis by simp
  qed
qed simp

lemma count_step:
  fixes kind :: AccountKind and n :: jsnum and day route :: string and r :: bool
  assumes d: "distinct (map usage_id rows)"
  defines "rows' \<equiv> count_request kind n day route r rows"
  shows "distinct (map usage_id rows')"
    and "usage_id ` set rows' = insert (kind, n, day, route) (usage_id ` set rows)"
    and "served_of P rows' = served_of P rows + (if P (kind, n, day, route) \<and> \<not> r then 1 else 0)"
    and "rejected_of P rows' = rejected_of P rows + (if P (kind, n, day, route) \<and> r then 1 else 0)"
proof -
  let ?i = "(kind, n, day, route)"
  have at_id: "usage_at kind n day route = (\<lambda>u. usage_id u = ?i)" by (rule ext) (simp add: usage_at_id)
  let ?new = "bump r \<lparr>us_kind = kind, us_account_id = n, us_day = day, us_route = route, us_request_count = 0, us_rejected_count = 0\<rparr>"
  have new: "usage_id ?new = ?i" by (simp add: usage_id_def bump_def)
  have counts: "us_request_count (bump r u) = us_request_count u + (if r then 0 else 1)"
    "us_rejected_count (bump r u) = us_rejected_count u + (if r then 1 else 0)" for u by (simp_all add: bump_def)
  have goals: "distinct (map usage_id rows') \<and> usage_id ` set rows' = insert ?i (usage_id ` set rows) \<and>
      served_of P rows' = served_of P rows + (if P ?i \<and> \<not> r then 1 else 0) \<and>
      rejected_of P rows' = rejected_of P rows + (if P ?i \<and> r then 1 else 0)"
  proof (cases "?i \<in> usage_id ` set rows")
    case True
    have rows': "rows' = map (\<lambda>u. if usage_id u = ?i then bump r u else u) rows"
      using True by (auto simp: rows'_def count_request_def at_id list_ex_iff)
    have ids: "map usage_id rows' = map usage_id rows" by (simp add: rows')
    then have "usage_id ` set rows' = usage_id ` set rows" by (metis list.set_map)
    moreover have "served_of P rows' = served_of P rows + (if P ?i then (if r then 0 else 1) else 0)"
      unfolding served_of_def rows' by (rule bumped_map [where f = us_request_count and r = r, OF counts(1) d True])
    moreover have "rejected_of P rows' = rejected_of P rows + (if P ?i then (if r then 1 else 0) else 0)"
      unfolding rejected_of_def rows' by (rule bumped_map [where f = us_rejected_count and r = r, OF counts(2) d True])
    ultimately show ?thesis using d ids True by auto
  next
    case False
    then have "\<not> list_ex (\<lambda>u. usage_id u = ?i) rows" unfolding list_ex_iff by (metis imageI)
    then have rows': "rows' = rows @ [?new]" by (simp add: rows'_def count_request_def at_id)
    show ?thesis using d False new by (auto simp: rows' served_of_def rejected_of_def bump_def)
  qed
  then show "distinct (map usage_id rows')" "usage_id ` set rows' = insert ?i (usage_id ` set rows)"
    "served_of P rows' = served_of P rows + (if P ?i \<and> \<not> r then 1 else 0)"
    "rejected_of P rows' = rejected_of P rows + (if P ?i \<and> r then 1 else 0)" by simp_all
qed

lemma recorded_counts:
  "distinct (map usage_id (recorded events)) \<and> usage_id ` set (recorded events) = event_id ` set events \<and>
   served_of P (recorded events) = events_of P False events \<and> rejected_of P (recorded events) = events_of P True events"
proof (induction events rule: rev_induct)
  case (snoc e events)
  have s: "recorded (events @ [e]) = count_request (ev_kind e) (ev_account e) (ev_day e) (ev_route e) (ev_rejected e) (recorded events)"
    by (simp add: recorded_def)
  have d: "distinct (map usage_id (recorded events))" using snoc by simp
  show ?case unfolding s using count_step [OF d] snoc by (auto simp: event_id_def events_of_def)
qed (simp add: recorded_def served_of_def rejected_of_def events_of_def)

section \<open>Tallies\<close>

lemma tally_snoc: "tally_by key (rows @ [u]) = tally_row key u (tally_by key rows)"
  by (simp add: tally_by_def)

lemma tally_distinct: "distinct (map fst (tally_by key rows))"
  by (induction rows rule: rev_induct) (auto simp: tally_snoc tally_row_def distinct_update tally_by_def split: option.split)

lemma tally_counts:
  "map_of (tally_by key rows) k =
    (if k \<in> key ` set rows
     then Some (sum_list (map us_request_count (filter (\<lambda>u. key u = k) rows)), sum_list (map us_rejected_count (filter (\<lambda>u. key u = k) rows)))
     else None)"
proof (induction rows rule: rev_induct)
  case (snoc u rows)
  have none: "filter (\<lambda>v. key v = key u) rows = []" if "key u \<notin> key ` set rows" unfolding filter_empty_conv using that by (metis imageI)
  show ?case
    using snoc none by (auto simp: tally_snoc tally_row_def update_conv' split: option.split)
qed (simp add: tally_by_def)

lemma sort_sums: "sum_list (map f (filter P (js_sort c xs))) = (sum_list (map f (filter P xs)) :: int)"
  by (metis mset_filter mset_js_sort mset_map sum_mset_sum_list)

lemma sorted_tally: "map_of (js_sort c (tally_by key rows)) = map_of (tally_by key rows) \<and> distinct (map fst (js_sort c (tally_by key rows)))"
proof -
  have "mset (map fst (js_sort c (tally_by key rows))) = mset (map fst (tally_by key rows))" by simp
  then have "distinct (map fst (js_sort c (tally_by key rows)))" using tally_distinct by (metis mset_eq_imp_distinct_iff)
  then show ?thesis using tally_distinct map_of_inject_set [of "js_sort c (tally_by key rows)" "tally_by key rows"] by simp
qed

text \<open>What a tally of an account's rows says of the events.\<close>

lemma account_tally:
  fixes n :: jsnum and since :: string
  assumes key: "\<And>u. key u = pick (usage_id u)"
  defines "mine \<equiv> \<lambda>i :: usage_id. fst (snd i) = n \<and> \<not> fst (snd (snd i)) < since"
  shows "map_of (tally_by key (usage_rows n since (recorded events))) k =
    (if \<exists>e\<in>set events. mine (event_id e) \<and> pick (event_id e) = k
     then Some (events_of (\<lambda>i. mine i \<and> pick i = k) False events, events_of (\<lambda>i. mine i \<and> pick i = k) True events) else None)"
proof -
  let ?P = "\<lambda>i. mine i \<and> pick i = k"
  have rows: "filter (\<lambda>u. us_account_id u = n \<and> \<not> us_day u < since) (recorded events) = filter (mine \<circ> usage_id) (recorded events)"
    by (rule filter_cong) (simp_all add: mine_def usage_id_def)
  have sums: "sum_list (map f (filter (\<lambda>u. key u = k) (usage_rows n since (recorded events)))) = (sum_list (map f (filter (?P \<circ> usage_id) (recorded events))) :: int)" for f
    unfolding usage_rows_def rows sort_sums by (simp add: key conj_commute comp_def)
  have "k \<in> key ` set (usage_rows n since (recorded events)) \<longleftrightarrow> (\<exists>i\<in>usage_id ` set (recorded events). ?P i)"
    unfolding usage_rows_def rows by (auto simp: key)
  also have "\<dots> \<longleftrightarrow> (\<exists>e\<in>set events. ?P (event_id e))"
    using recorded_counts [of events] by (metis (no_types, lifting) image_iff)
  finally show ?thesis
    unfolding tally_counts sums using recorded_counts [of events ?P] by (simp add: served_of_def rejected_of_def)
qed

section \<open>The order of the tallies\<close>

interpretation later_day: comparator "\<lambda>a b :: string \<times> int \<times> int. cmp_str (fst b) (fst a)"
  by unfold_locales (auto simp: cmp_str_def split: if_splits)

interpretation busier_route: comparator "\<lambda>a b :: string \<times> int \<times> int. fst (snd b) - fst (snd a)"
  by unfold_locales auto

lemma days_descend: "sorted_wrt (\<lambda>a b. fst b < fst a) (days_of rows)"
proof -
  have "distinct (map fst (days_of rows))" unfolding days_of_def using sorted_tally by blast
  then have "sorted_wrt (\<lambda>a b. fst a \<noteq> fst b) (days_of rows)" by (simp add: distinct_map sorted_wrt_iff_nth_less distinct_conv_nth inj_on_def)
  moreover have "sorted_wrt (\<lambda>a b. cmp_str (fst b) (fst a) \<le> 0) (days_of rows)" unfolding days_of_def by (rule later_day.sorted_js_sort)
  ultimately show ?thesis unfolding sorted_wrt_iff_nth_less by (auto simp: cmp_str_def split: if_splits) (metis less_linear)
qed

lemma routes_shown:
  assumes shown: "e \<in> set (routes_of rows)"
  shows "map_of (tally_by us_route rows) (fst e) = Some (snd e)"
    and "\<And>k d. map_of (tally_by us_route rows) k = Some d \<Longrightarrow> k \<notin> fst ` set (routes_of rows) \<Longrightarrow> fst d \<le> fst (snd e)"
proof -
  let ?t = "js_sort (\<lambda>a b. fst (snd b) - fst (snd a)) (tally_by us_route rows)"
  have t: "map_of ?t = map_of (tally_by us_route rows)" "distinct (map fst ?t)" using sorted_tally by blast+
  have "e \<in> set ?t" using shown unfolding routes_of_def by (rule in_set_takeD)
  then show "map_of (tally_by us_route rows) (fst e) = Some (snd e)" using t by (metis map_of_is_SomeI prod.collapse)
  show "fst d \<le> fst (snd e)" if k: "map_of (tally_by us_route rows) k = Some d" "k \<notin> fst ` set (routes_of rows)" for k d
  proof -
    have "(k, d) \<in> set ?t" using k(1) t(1) by (metis map_of_SomeD)
    moreover have "(k, d) \<notin> set (take 10 ?t)" using k(2) unfolding routes_of_def by force
    ultimately have "(k, d) \<in> set (drop 10 ?t)" by (metis Un_iff append_take_drop_id set_append)
    moreover have "sorted_wrt (\<lambda>a b. fst (snd b) - fst (snd a) \<le> 0) (take 10 ?t @ drop 10 ?t)"
      unfolding append_take_drop_id by (rule busier_route.sorted_js_sort)
    ultimately show ?thesis using shown unfolding routes_of_def sorted_wrt_append by fastforce
  qed
qed

section \<open>The dashboard's numbers\<close>

definition counted :: "jsnum \<Rightarrow> string \<Rightarrow> usage_event \<Rightarrow> bool" where
  "counted n since e \<longleftrightarrow> ev_account e = n \<and> \<not> ev_day e < since"

definition tallied :: "(usage_event \<Rightarrow> bool) \<Rightarrow> usage_event list \<Rightarrow> int \<times> int" where
  "tallied P events = (int (length (filter (\<lambda>e. P e \<and> \<not> ev_rejected e) events)), int (length (filter (\<lambda>e. P e \<and> ev_rejected e) events)))"

lemma account_tallies:
  "map_of (tally_by us_day (usage_rows n since (recorded events))) day =
    (if \<exists>e\<in>set events. counted n since e \<and> ev_day e = day then Some (tallied (\<lambda>e. counted n since e \<and> ev_day e = day) events) else None)"
  "map_of (tally_by us_route (usage_rows n since (recorded events))) route =
    (if \<exists>e\<in>set events. counted n since e \<and> ev_route e = route then Some (tallied (\<lambda>e. counted n since e \<and> ev_route e = route) events) else None)"
  using account_tally [of us_day "\<lambda>i. fst (snd (snd i))" n since events day]
    account_tally [of us_route "\<lambda>i. snd (snd (snd i))" n since events route]
  by (simp_all add: usage_id_def event_id_def events_of_def counted_def tallied_def)


definition sample_usage :: "usage_event list" where
  "sample_usage =
     [\<lparr>ev_kind = Rpc, ev_account = js_int 7, ev_day = ''2026-07-18'', ev_route = ''/a'', ev_rejected = False\<rparr>,
      \<lparr>ev_kind = Github, ev_account = js_int 7, ev_day = ''2026-07-18'', ev_route = ''/a'', ev_rejected = False\<rparr>,
      \<lparr>ev_kind = Rpc, ev_account = js_int 7, ev_day = ''2026-07-18'', ev_route = ''/b'', ev_rejected = True\<rparr>,
      \<lparr>ev_kind = Rpc, ev_account = js_int 8, ev_day = ''2026-07-18'', ev_route = ''/a'', ev_rejected = False\<rparr>]"


end
