(* ===== verification/Spec2Isabelle.thy ===== *)
theory Spec2Isabelle
  imports Block_Feed_Cursor Cursor Ss58 Twox Deregistration Axon_Removal Native_Cron Lane_Queue Lane_Scheduler Daily_Quota List_Query Graphql_Limits Ip_Safety Work_Group Csv_Export Alert_Writeback Webhook_Queue Map_Bounded Pg_Delivery Pg_Cron_Runs Pg_Kv_Pages Wallet_Tokens Key_Acceptance Gate_Laws Usage_Laws
begin

text \<open>
  A verification development for metagraphed, the public data service of a chain's subnets.  The
  program is a set of edge workers and, for the native deployment, a Node process over Postgres.  This
  library models the parts whose correctness is in their own code: the codecs and cursors at the
  edges, the derivations from chain history, the guards on what leaves the service, the alert and
  webhook subsystems, accounts with their keys and limits, and the native runtime's queue, cron, store and work groups.

  \<^bold>\<open>How a model reads.\<close>  Every theory opens with what it holds and which source it translates; its
  definitions keep the names and the order of the code.  A function of the code is a function here; a
  handler runs from a state (a record) to a result and the state it leaves; an error that is thrown or
  returned is a value of a sum or an option; what runs concurrently is an inductive step relation, one
  step for each thing that happens at once (a transaction, a statement, a call that settles), and an
  invariant is proved by rule induction over every order of steps the code's guards allow.  Everything
  is at the top level and executable; locales are interfaces, each interpreted on the code's model.
  Code that is not in the repository (URL parsing, DNS, SHA-256, BLAKE2b, HMAC, sr25519, collation, a
  subscriber's answers, random tokens, clocks) is an argument.

  \<^bold>\<open>Foundations.\<close>
    \<^item> \<open>Js_Prelude\<close>: values of the language (numbers as rationals with the three exceptional values,
      scalars, JSON trees with ordered members), the library calls the code makes, insertion-ordered
      maps, sorting; the locales \<open>comparator\<close>, \<open>key_comparator\<close> (an \<open>Array.prototype.sort\<close> comparator
      and the order its result has) and \<open>token_codec\<close> (what a decoder gives back of an encoder).
    \<^item> \<open>Json_Text\<close>: \<open>JSON.parse\<close>, a reader with fuel; twice the text's length and two suffices
      (\<open>fuel_enough\<close>), and a stringified value reads back (\<open>json_parse_stringify\<close>).
    \<^item> \<open>Text_Codecs\<close>: UTF-8, base64 and base64url, with their round trips.

  \<^bold>\<open>Codecs and queries.\<close>
    \<^item> \<open>Cursor\<close>, \<open>Block_Feed_Cursor\<close> (\<open>src/cursor.ts\<close>, \<open>src/block-feed-cursor.ts\<close>): tokens, and the
      seek predicate read as three-valued SQL: it keeps exactly the rows after the cursor.
    \<^item> \<open>Ss58\<close>, \<open>Twox\<close> (\<open>src/ss58.ts\<close>, \<open>src/twox-storage-key.ts\<close>): the address codec; XXH64 with
      explicit masks refines XXH64 on 64-bit words.
    \<^item> \<open>Field_Projection\<close>, \<open>List_Query\<close>, \<open>Csv_Export\<close> (\<open>src/field-projection.ts\<close>,
      \<open>workers/list-query.ts\<close>, \<open>workers/csv.ts\<close>): a list answer is a window of the matching rows in
      order, pages partition the collection, an export reads back and starts no formula.
    \<^item> \<open>Graphql_Limits\<close> (\<open>src/graphql-limits.ts\<close>): the memoised, early-exiting walkers agree with depth
      and cost of the document with its fragments written out.

  \<^bold>\<open>Derivations from history.\<close>
    \<^item> \<open>Deregistration\<close>, \<open>Axon_Removal\<close> (\<open>src/deregistration-derivation.ts\<close>,
      \<open>src/axon-removal-derivation.ts\<close>): every usable row is accounted for, every event is witnessed.
    \<^item> \<open>History_Json\<close> (\<open>src/history-sha256.ts\<close>): the bounded streaming digest is the digest of the
      canonical text exactly when that fits.
    \<^item> \<open>Daily_Quota\<close> (\<open>src/daily-quota.ts\<close>): the limit holds over any sequence of spends.

  \<^bold>\<open>Alerts and webhooks.\<close>
    \<^item> \<open>Ip_Safety\<close>: the four guards on outgoing requests over the IPv6 parser of \<open>src/ip-safety.ts\<close>;
      the locale \<open>tunnel_guard\<close> has what they share.
    \<^item> \<open>Alert_Triggers\<close>, \<open>Alert_Patch\<close>, \<open>Alert_Routes\<close>, \<open>Alert_Writeback\<close> (\<open>src/alert-triggers.ts\<close>,
      \<open>workers/data-api.ts\<close>): bodies, patches, the routes over two tables with every partial failure,
      and the evaluator's write-backs.  The locale \<open>alert_invariant\<close> is proved once for all routes.
    \<^item> \<open>Webhooks\<close>, \<open>Webhook_Queue\<close>, \<open>Map_Bounded\<close> (\<open>src/webhooks.ts\<close>, \<open>src/webhook-queue.ts\<close>,
      \<open>workers/api.ts\<close>): one delivery with its attempts and guards, fan-out and batch verdicts, and the
      bounded pool that runs them.

  \<^bold>\<open>The native runtime.\<close>
    \<^item> \<open>Queue_Delivery\<close>, \<open>Lane_Queue\<close>, \<open>Lane_Scheduler\<close>, \<open>Native_Cron\<close>, \<open>Work_Group\<close>: one delivered batch
      and who answers it (locale \<open>message_sink\<close>), cadences, the cron grid, and the bounded lifetime of
      work (\<open>src/native-work-group.ts\<close>) under every order of completions, timers and closing.
    \<^item> \<open>Pg_Queue\<close>, \<open>Pg_Lease\<close>, \<open>Pg_Settle\<close>, \<open>Pg_System\<close>, \<open>Pg_Runs\<close>, \<open>Pg_Delivery\<close>
      (\<open>src/pg-queue.ts\<close> over \<open>migrations/postgres/0026_jobs.sql\<close>): the durable queue.  \<open>Pg_Queue\<close> has the
      transactions, \<open>Pg_Lease\<close> and \<open>Pg_Settle\<close> what each keeps, \<open>Pg_System\<close> the workers, \<open>Pg_Runs\<close> what
      holds in every reachable state, \<open>Pg_Delivery\<close> the bodies and the webhook consumer on top of it.
    \<^item> \<open>Pg_Cron\<close>, \<open>Pg_Cron_Rows\<close>, \<open>Pg_Cron_Plan\<close>, \<open>Pg_Cron_Claim\<close>, \<open>Pg_Cron_Runs\<close> (\<open>src/pg-cron.ts\<close> over
      \<open>migrations/postgres/0030_cron.sql\<close>): the durable cron, its instants accounted for exactly.
    \<^item> \<open>Pg_Kv\<close>, \<open>Pg_Kv_Laws\<close>, \<open>Pg_Kv_Pages\<close> (\<open>src/pg-kv.ts\<close> over \<open>migrations/postgres/0009_auth_kv.sql\<close>,
      and the walk of \<open>src/mcp-surface-credentials.ts\<close>): the control store, which refines a map with
      expiry, and its pages, which a walk gathers exactly.

  \<^bold>\<open>Accounts.\<close>  One world (\<open>account_world\<close>) has the control store and the account tables; a handler is
  made of statements, each of which commits by itself or throws as a schedule of faults says.
    \<^item> \<open>Wallet_Auth\<close>, \<open>Wallet_Laws\<close>, \<open>Wallet_Tokens\<close> (\<open>src/wallet-auth.ts\<close>, \<open>src/app-kv.ts\<close>): challenges,
      each used at most once, and signed tokens.  The locale \<open>challenge_store\<close> is what they need of a
      store; the control store provides it.
    \<^item> \<open>Account_Keys\<close> (\<open>workers/data-api.ts\<close>, \<open>src/unkey-client.ts\<close>): sessions, keys, their revocation and
      their ledger, the internal routes.  \<open>Key_Validation\<close> (\<open>src/api-key-validation.ts\<close>,
      \<open>src/auth-lookup-cache.ts\<close>): the edge's validation behind its cache.
    \<^item> \<open>Account_Frames\<close>: the locale \<open>kept_relation\<close>, what holds along every statement holds along a route;
      interpreted in \<open>Key_Forward\<close> (keys only move towards revoked), \<open>Block_Laws\<close> and \<open>Gate_Laws\<close>.
      \<open>Key_Answers\<close>, \<open>Key_Revocation\<close>, \<open>Key_Acceptance\<close>: a revoked key is refused from then on, a good
      one is accepted.
    \<^item> \<open>Account_Blocks\<close>, \<open>Block_Laws\<close> (\<open>src/api-key-abuse.ts\<close>, \<open>src/account-kind.ts\<close>,
      \<open>src/account-block-pg.ts\<close>): the ledger of blocks and the snapshot of it that the edge reads.  The
      snapshot lives sixty seconds, so a block is in effect within sixty-one.
    \<^item> \<open>Rate_Gate\<close>, \<open>Gate_Laws\<close> (\<open>workers/tiered-rate-limit.ts\<close>, \<open>src/route-cost-weights.ts\<close>,
      \<open>src/mcp-tool-cost.ts\<close>, \<open>src/api-tiers.ts\<close>, \<open>src/pg-daily-quota.ts\<close>): the gate in front of the
      routes, from identity to budget; what it refuses it does not charge.
    \<^item> \<open>Account_Meters\<close>, \<open>Usage_Laws\<close> (\<open>src/account-usage-pg.ts\<close>, \<open>src/account-usage-read-pg.ts\<close>,
      \<open>src/oauth-account-tier.ts\<close>): GitHub accounts and their tier, the counters and the dashboard,
      which shows the recorded requests, each once.

  \<^bold>\<open>Bounds of the model.\<close>  Strings are of code units below 256, numbers are rationals (no rounding:
  the modelled arithmetic stays within the safe integers or is compared only), row order of a query
  without \<open>ORDER BY\<close> is the table's, transactions that take one lock first are serial.  Where a
  component narrows further its theory says so at the top.

  \<^bold>\<open>Not modelled.\<close>  The read routes, MCP tools and GraphQL resolvers hand requests to SQL texts and stored
  artifacts, and their logic is in those; response contracts are declarative tables; the capture and
  projection lanes move rows between RPC and SQL; the edge actors wrap web sockets and alarms around
  rules that are modelled; the browser application, scripts and generated clients have no state the
  service depends on.  Of the accounts, the review queue of anomalies, the usage rollup by route family,
  response headers and the second store kept for compatibility are left out.  Statistics in floating
  point would need its rounding to say more than the code.
\<close>

end
